(* ===== verification/Nachos_Prelude.thy ===== *)
theory Nachos_Prelude
  imports Main "HOL-Library.Word" "HOL-Library.Signed_Division" "HOL-Library.Sublist"
begin

text \<open>
  Shared vocabulary of the Nachos development.

  \<^item> the faults a C++ routine of the kernel can end in, and results that are either a
    fault or a value (\<open>'a res\<close>), with sequencing \<open>bindR\<close> and the \<open>ASSERT\<close> macro;
  \<^item> the integer helpers of threads/utility.h (\<open>divRoundUp\<close>, \<open>divRoundDown\<close>) and C's truncating
    division;
  \<^item> loops over an index range, as the counted \<open>for\<close> loops of the sources use them;
  \<^item> generic facts on lists, options and words used by several components.

  The build modelled is the one of Makefile.dep: an i386 host, little endian, 32-bit \<open>int\<close>.
\<close>

unbundle bit_operations_syntax

named_theorems nachos_defs \<open>definitions that automation may unfold\<close>
named_theorems nachos_inv \<open>an operation keeps its component's invariant\<close>

section \<open>Faults and results\<close>

text \<open>
  \<open>AssertFailed\<close> is a failed \<open>ASSERT\<close> (threads/utility.h), which calls \<open>Abort\<close>. The others are
  undefined behaviour of the host program that the sources do not guard against: an array
  access out of range, a null pointer, a dangling pointer, a division the host CPU traps on.
  \<open>NoReturn\<close> is not one: it marks a call that does not come back to its caller (the machine halts, the
  thread finishes or waits).
\<close>

datatype fault = AssertFailed | OutOfBounds | NullPointer | DanglingPointer | DivideTrap | NoReturn

type_synonym 'a res = "fault + 'a"

definition bindR :: "'a res \<Rightarrow> ('a \<Rightarrow> 'b res) \<Rightarrow> 'b res" where
  "bindR m f = (case m of Inl e \<Rightarrow> Inl e | Inr x \<Rightarrow> f x)"

definition ASSERT :: "bool \<Rightarrow> unit res" where
  "ASSERT c = (if c then Inr () else Inl AssertFailed)"

lemma bindR_Inr [simp]: "bindR (Inr x) f = f x"
  by (simp add: bindR_def)

lemma bindR_Inl [simp]: "bindR (Inl e) f = Inl e"
  by (simp add: bindR_def)

lemma bindR_eq_Inr: "bindR m f = Inr y \<longleftrightarrow> (\<exists>x. m = Inr x \<and> f x = Inr y)"
  by (cases m) auto

lemma bindR_eq_Inl: "bindR m f = Inl e \<longleftrightarrow> m = Inl e \<or> (\<exists>x. m = Inr x \<and> f x = Inl e)"
  by (cases m) auto

lemma bindR_assoc: "bindR (bindR m f) g = bindR m (\<lambda>x. bindR (f x) g)"
  by (cases m) auto

lemma bindR_cong [fundef_cong]:
  "m = m' \<Longrightarrow> (\<And>x. m' = Inr x \<Longrightarrow> f x = f' x) \<Longrightarrow> bindR m f = bindR m' f'"
  by (cases m') auto

lemma ASSERT_True [simp]: "ASSERT True = Inr ()"
  by (simp add: ASSERT_def)

lemma ASSERT_False [simp]: "ASSERT False = Inl AssertFailed"
  by (simp add: ASSERT_def)

lemma ASSERT_eq_Inr [simp]: "ASSERT c = Inr u \<longleftrightarrow> c"
  by (simp add: ASSERT_def)

lemma bindR_ASSERT: "bindR (ASSERT c) f = (if c then f () else Inl AssertFailed)"
  by (simp add: ASSERT_def)

text \<open>A counted \<open>for\<close> loop whose body may fault: the indices in order, the state threaded through.\<close>

fun forR :: "('i \<Rightarrow> 's \<Rightarrow> 's res) \<Rightarrow> 'i list \<Rightarrow> 's \<Rightarrow> 's res" where
  "forR f [] s = Inr s"
| "forR f (i # is) s = bindR (f i s) (forR f is)"

lemma forR_append: "forR f (is @ js) s = bindR (forR f is s) (forR f js)"
  by (induction "is" arbitrary: s) (auto simp: bindR_assoc intro: bindR_cong)

lemma forR_cong:
  "(\<And>i s. i \<in> set is \<Longrightarrow> f i s = g i s) \<Longrightarrow> forR f is s = forR g is s"
  by (induction "is" arbitrary: s) (auto intro: bindR_cong)

text \<open>An invariant indexed by the loop counter is kept by the whole loop.\<close>

lemma forR_upt_rule:
  assumes "P a s" and "a \<le> b"
    and "\<And>i s. a \<le> i \<Longrightarrow> i < b \<Longrightarrow> P i s \<Longrightarrow> \<exists>s'. f i s = Inr s' \<and> P (Suc i) s'"
  shows "\<exists>s'. forR f [a..<b] s = Inr s' \<and> P b s'"
  using assms
proof (induction "b - a" arbitrary: a s)
  case 0
  then show ?case by simp
next
  case (Suc n)
  then have up: "[a..<b] = a # [Suc a..<b]" by (simp add: upt_conv_Cons)
  from Suc obtain s' where "f a s = Inr s'" "P (Suc a) s'" by (metis le_refl zero_less_Suc zero_less_diff)
  with Suc.hyps(1)[of "Suc a" s'] Suc.hyps(2) Suc.prems up show ?case by simp
qed

section \<open>Integer helpers\<close>

type_synonym byte = "8 word"
type_synonym word32 = "32 word"

definition divRoundDown :: "int \<Rightarrow> int \<Rightarrow> int" where
  "divRoundDown n s = n sdiv s"

definition divRoundUp :: "int \<Rightarrow> int \<Rightarrow> int" where
  "divRoundUp n s = n sdiv s + (if n smod s > 0 then 1 else 0)"

lemma sdiv_nonneg: "0 \<le> a \<Longrightarrow> 0 < b \<Longrightarrow> a sdiv b = a div (b :: int)"
  by (cases "a = 0") (auto simp: signed_divide_int_def sgn_if)

lemma smod_nonneg: "0 \<le> a \<Longrightarrow> 0 < b \<Longrightarrow> a smod b = a mod (b :: int)"
  by (cases "a = 0") (auto simp: signed_modulo_int_def sgn_if)

lemma divRoundUp_nonneg:
  "0 \<le> n \<Longrightarrow> 0 < s \<Longrightarrow> divRoundUp n s = n div s + (if n mod s > 0 then 1 else 0)"
  by (simp add: divRoundUp_def sdiv_nonneg smod_nonneg)

lemma divRoundUp_bounds:
  assumes "0 \<le> n" and "0 < s"
  shows "n \<le> divRoundUp n s * s" and "divRoundUp n s * s < n + s"
proof -
  have d: "n div s * s = n - n mod s" by (simp add: minus_mod_eq_div_mult)
  moreover have "0 \<le> n mod s" and "n mod s < s" using assms(2) by simp_all
  ultimately show "n \<le> divRoundUp n s * s" and "divRoundUp n s * s < n + s"
    unfolding divRoundUp_nonneg[OF assms] distrib_right by (cases "0 < n mod s"; simp only: if_True if_False; linarith)+
qed

lemmas divRoundUp_upper = divRoundUp_bounds(1)
lemmas divRoundUp_lower = divRoundUp_bounds(2)

lemma divRoundUp_ge_0: "0 \<le> n \<Longrightarrow> 0 < s \<Longrightarrow> 0 \<le> divRoundUp n s"
  by (simp add: divRoundUp_nonneg pos_imp_zdiv_nonneg_iff)

lemma divRoundUp_mono: "0 \<le> m \<Longrightarrow> m \<le> n \<Longrightarrow> 0 < s \<Longrightarrow> divRoundUp m s \<le> divRoundUp n s"
proof (rule ccontr)
  assume a: "0 \<le> m" "m \<le> n" "0 < s" and "\<not> divRoundUp m s \<le> divRoundUp n s"
  then have "divRoundUp n s + 1 \<le> divRoundUp m s" by simp
  then have "(divRoundUp n s + 1) * s \<le> divRoundUp m s * s"
    using a(3) by (intro mult_right_mono) auto
  moreover have "divRoundUp m s * s < m + s" using a by (simp add: divRoundUp_lower)
  moreover have "n \<le> divRoundUp n s * s" using a by (simp add: divRoundUp_upper)
  ultimately show False using a(2) by (simp add: distrib_right)
qed

text \<open>What a 32-bit \<open>int\<close> variable holds after a computation: two's complement wrap-around.\<close>

definition i32 :: "int \<Rightarrow> int" where
  "i32 x = (x + 2 ^ 31) mod 2 ^ 32 - 2 ^ 31"

lemma i32_id [simp]: "- (2 ^ 31) \<le> x \<Longrightarrow> x < 2 ^ 31 \<Longrightarrow> i32 x = x"
  by (simp add: i32_def)

lemma i32_range: "- (2 ^ 31) \<le> i32 x" "i32 x < 2 ^ 31"
  using pos_mod_bound[of "2 ^ 32" "x + 2 ^ 31"] pos_mod_sign[of "2 ^ 32" "x + 2 ^ 31"] by (simp_all add: i32_def)

definition is_int :: "int \<Rightarrow> bool" where
  "is_int x \<longleftrightarrow> - (2 ^ 31) \<le> x \<and> x < 2 ^ 31"

lemma is_int_i32 [simp]: "is_int (i32 x)"
  using i32_range[of x] by (simp add: is_int_def)

lemma i32_int: "is_int x \<Longrightarrow> i32 x = x"
  by (simp add: is_int_def)

lemma i32_mod: "i32 x mod 2 ^ 32 = x mod 2 ^ 32"
  by (simp add: i32_def mod_diff_left_eq)

lemma i32_add: "i32 (i32 x + y) = i32 (x + y)"
proof -
  have "(i32 x + y + 2 ^ 31) mod 2 ^ 32 = (i32 x mod 2 ^ 32 + (y + 2 ^ 31)) mod 2 ^ 32" by (simp only: mod_add_left_eq add.assoc)
  also have "\<dots> = (x + y + 2 ^ 31) mod 2 ^ 32" by (simp only: i32_mod mod_add_left_eq add.assoc)
  finally show ?thesis by (simp add: i32_def)
qed

lemma is_int_mod_0: "is_int x \<Longrightarrow> x mod 2 ^ 32 = 0 \<longleftrightarrow> x = 0"
  by (auto simp: is_int_def mod_eq_0_iff_dvd elim!: dvdE)

lemma mod_step: "0 < m \<Longrightarrow> (x + 1) mod m \<le> x mod m + 1" "0 < m \<Longrightarrow> x mod m \<noteq> 0 \<Longrightarrow> (x - 1) mod m = x mod m - 1" for x m :: int
proof -
  assume m: "0 < m"
  have "(x + 1) mod m = (x mod m + 1) mod m" by (simp add: mod_add_left_eq)
  also have "\<dots> \<le> x mod m + 1" using m pos_mod_sign[OF m, of x] by (intro zmod_le_nonneg_dividend) simp
  finally show "(x + 1) mod m \<le> x mod m + 1" .
  assume nz: "x mod m \<noteq> 0"
  have "(x - 1) mod m = (x mod m - 1) mod m" by (simp add: mod_diff_left_eq)
  also have "\<dots> = x mod m - 1" using m nz pos_mod_sign[OF m, of x] pos_mod_bound[OF m, of x] by (intro mod_pos_pos_trivial) linarith+
  finally show "(x - 1) mod m = x mod m - 1" .
qed

section \<open>Lists\<close>

text \<open>Writing a block of values into a function-shaped memory, as \<open>bcopy\<close> and \<open>bzero\<close> do.\<close>

definition blit :: "(nat \<Rightarrow> 'a) \<Rightarrow> nat \<Rightarrow> 'a list \<Rightarrow> nat \<Rightarrow> 'a" where
  "blit mem a xs = (\<lambda>i. if a \<le> i \<and> i < a + length xs then xs ! (i - a) else mem i)"

definition block :: "(nat \<Rightarrow> 'a) \<Rightarrow> nat \<Rightarrow> nat \<Rightarrow> 'a list" where
  "block mem a n = map mem [a..<a + n]"

lemma length_block [simp]: "length (block mem a n) = n"
  by (simp add: block_def)

lemma nth_block [simp]: "i < n \<Longrightarrow> block mem a n ! i = mem (a + i)"
  by (simp add: block_def)

lemma block_blit_same [simp]: "block (blit mem a xs) a (length xs) = xs"
  by (rule nth_equalityI) (auto simp: blit_def)

lemma block_blit_disjoint:
  "a + length xs \<le> b \<or> b + n \<le> a \<Longrightarrow> block (blit mem a xs) b n = block mem b n"
  by (rule nth_equalityI) (auto simp: blit_def)

lemma blit_outside: "i < a \<or> a + length xs \<le> i \<Longrightarrow> blit mem a xs i = mem i"
  by (auto simp: blit_def)

lemma blit_inside: "i < length xs \<Longrightarrow> blit mem a xs (a + i) = xs ! i"
  by (simp add: blit_def)

lemma blit_Nil [simp]: "blit mem a [] = mem"
  by (rule ext) (auto simp: blit_def)

lemma blit_block [simp]: "blit mem a (block mem a n) = mem"
  by (rule ext) (auto simp: blit_def)

text \<open>The first index of a range that satisfies a test: the search loops of the kernel tables.\<close>

fun find_first :: "(nat \<Rightarrow> bool) \<Rightarrow> nat list \<Rightarrow> nat option" where
  "find_first p [] = None"
| "find_first p (i # is) = (if p i then Some i else find_first p is)"

lemma find_first_None: "find_first p is = None \<longleftrightarrow> (\<forall>i\<in>set is. \<not> p i)"
  by (induction "is") auto

lemma find_first_Some: "find_first p is = Some i \<Longrightarrow> i \<in> set is \<and> p i"
  by (induction "is") (auto split: if_splits)

lemma find_first_upt_least:
  "find_first p [a..<b] = Some i \<Longrightarrow> j \<in> {a..<i} \<Longrightarrow> \<not> p j"
proof (induction "b - a" arbitrary: a)
  case 0
  then show ?case by simp
next
  case (Suc n)
  then have "[a..<b] = a # [Suc a..<b]" by (simp add: upt_conv_Cons)
  moreover have "n = b - Suc a" using Suc.hyps(2) by simp
  ultimately show ?case using Suc.hyps(1)[of "Suc a"] Suc.prems
    by (cases "j = a") (auto split: if_splits)
qed

lemma find_first_cong:
  "(\<And>i. i \<in> set is \<Longrightarrow> p i = q i) \<Longrightarrow> find_first p is = find_first q is"
  by (induction "is") auto

lemma length_filter_upt: "length (filter p [0..<n]) = card {i. i < n \<and> p i}"
proof -
  have "length (filter p [0..<n]) = card (set (filter p [0..<n]))"
    by (rule distinct_card[symmetric]) simp
  also have "set (filter p [0..<n]) = {i. i < n \<and> p i}" by auto
  finally show ?thesis .
qed

section \<open>Integers as little-endian bytes\<close>

text \<open>
  How an i386 host lays a 32-bit integer out in memory, and so in a disk sector or in the simulated
  main memory: \<open>le_bytes n w\<close> are the \<open>n\<close> low bytes of \<open>w\<close>, least significant first, and
  \<open>le_word\<close> reads such bytes back.
\<close>

primrec le_bytes :: "nat \<Rightarrow> word32 \<Rightarrow> byte list" where
  "le_bytes 0 w = []"
| "le_bytes (Suc n) w = ucast w # le_bytes n (drop_bit 8 w)"

primrec le_word :: "byte list \<Rightarrow> word32" where
  "le_word [] = 0"
| "le_word (b # bs) = ucast b OR push_bit 8 (le_word bs)"

lemma length_le_bytes [simp]: "length (le_bytes n w) = n"
  by (induction n arbitrary: w) simp_all

lemma le_word_le_bytes: "le_word (le_bytes n w) = take_bit (8 * n) w"
proof (induction n arbitrary: w)
  case (Suc n)
  show ?case
    by (rule bit_word_eqI) (auto simp: Suc bit_simps not_less)
qed simp

lemma le_word_le_bytes_4 [simp]: "le_word (le_bytes 4 w) = w"
  by (rule bit_word_eqI) (simp add: le_word_le_bytes bit_simps)

lemma le_bytes_cong: "(\<And>i. i < 8 * n \<Longrightarrow> bit w i = bit w' i) \<Longrightarrow> le_bytes n w = le_bytes n w'"
proof (induction n arbitrary: w w')
  case (Suc n)
  have "(ucast w :: byte) = ucast w'"
    by (rule bit_word_eqI) (simp add: bit_simps Suc.prems)
  moreover have "le_bytes n (drop_bit 8 w) = le_bytes n (drop_bit 8 w')"
    by (rule Suc.IH) (simp add: bit_simps Suc.prems)
  ultimately show ?case by simp
qed simp

lemma le_bytes_le_word: "length bs \<le> 4 \<Longrightarrow> le_bytes (length bs) (le_word bs) = bs"
proof (induction bs)
  case (Cons b bs)
  have "ucast (ucast b OR push_bit 8 (le_word bs) :: word32) = b"
    by (rule bit_word_eqI) (auto simp: bit_simps)
  moreover have "le_bytes (length bs) (drop_bit 8 (ucast b OR push_bit 8 (le_word bs))) = le_bytes (length bs) (le_word bs)"
    by (rule le_bytes_cong) (use Cons.prems in \<open>auto simp: bit_simps dest: bit_imp_le_length\<close>)
  ultimately show ?case using Cons by simp
qed simp

text \<open>The integer at byte \<open>k\<close> of a structure.\<close>

definition word_at :: "byte list \<Rightarrow> nat \<Rightarrow> word32" where
  "word_at bs k = le_word (take 4 (drop k bs))"

lemma word_at_Cons [simp]: "word_at (le_bytes 4 w @ bs) 0 = w" "word_at (le_bytes 4 w @ bs) (Suc (Suc (Suc (Suc k)))) = word_at bs k"
  by (simp_all add: word_at_def)

end
