(* ===== verification/Nachos_List.thy ===== *)
theory Nachos_List
  imports Nachos_Prelude "HOL-Library.Multiset"
begin

text \<open>
  threads/list.cc: the singly linked list every queue of the kernel is made of (ready list,
  semaphore queues, pending interrupts).

  The list is modelled at the level of its pointers: a heap of \<open>ListElement\<close> cells, the \<open>first\<close>
  and \<open>last\<close> pointers, and an allocation counter that stands for \<open>new\<close> (any address not in use).
  The heap holds the cells of this list object only. A dereference of \<open>NULL\<close> or of a freed cell
  is a fault. The abstract specification is a list of (key, item) pairs; \<open>list_rel\<close> relates the two,
  every operation is shown to refine its specification, and the locale \<open>nachos_list_adt\<close> is the
  interface the schedulers and the interrupt simulation rely on.

  Items are non-null pointers, as all callers pass; debug output of \<open>Mapcar\<close> is left out.
\<close>

section \<open>The pointer structure\<close>

record 'a ListElement =
  le_item :: 'a
  le_key :: int
  le_next :: "nat option"

type_synonym 'a list_heap = "nat \<rightharpoonup> 'a ListElement"

record 'a NList =
  cells :: "'a list_heap"
  brk :: nat
  list_first :: "nat option"
  list_last :: "nat option"

definition new_ListElement :: "'a \<Rightarrow> int \<Rightarrow> 'a ListElement" where
  "new_ListElement itemPtr sortKey = \<lparr>le_item = itemPtr, le_key = sortKey, le_next = None\<rparr>"

definition List_new :: "'a NList" where
  "List_new = \<lparr>cells = Map.empty, brk = 0, list_first = None, list_last = None\<rparr>"

definition List_IsEmpty :: "'a NList \<Rightarrow> bool" where
  "List_IsEmpty l = (list_first l = None)"

text \<open>\<open>p->next = q\<close>\<close>

definition set_next :: "'a list_heap \<Rightarrow> nat option \<Rightarrow> nat option \<Rightarrow> 'a list_heap res" where
  "set_next h p q = (case p of None \<Rightarrow> Inl NullPointer
     | Some a \<Rightarrow> (case h a of None \<Rightarrow> Inl DanglingPointer
                  | Some e \<Rightarrow> Inr (h(a \<mapsto> e\<lparr>le_next := q\<rparr>))))"

definition List_Append :: "'a \<Rightarrow> 'a NList \<Rightarrow> 'a NList res" where
  "List_Append item l =
     (let element = brk l;
          l1 = l\<lparr>cells := (cells l)(element \<mapsto> new_ListElement item 0), brk := Suc element\<rparr>
      in if List_IsEmpty l1
         then Inr (l1\<lparr>list_first := Some element, list_last := Some element\<rparr>)
         else bindR (set_next (cells l1) (list_last l1) (Some element)) (\<lambda>h.
              Inr (l1\<lparr>cells := h, list_last := Some element\<rparr>)))"

definition List_Prepend :: "'a \<Rightarrow> 'a NList \<Rightarrow> 'a NList res" where
  "List_Prepend item l =
     (let element = brk l;
          l1 = l\<lparr>cells := (cells l)(element \<mapsto> new_ListElement item 0), brk := Suc element\<rparr>
      in if List_IsEmpty l1
         then Inr (l1\<lparr>list_first := Some element, list_last := Some element\<rparr>)
         else bindR (set_next (cells l1) (Some element) (list_first l1)) (\<lambda>h.
              Inr (l1\<lparr>cells := h, list_first := Some element\<rparr>)))"

text \<open>
  The loop of \<open>SortedInsert\<close>: \<open>Some p\<close> is the cell after which the element goes, \<open>None\<close> the end of
  the list. A cyclic list would make it run forever, hence the outer \<open>option\<close>.
\<close>

partial_function (option) insert_walk ::
    "'a list_heap \<Rightarrow> int \<Rightarrow> nat \<Rightarrow> nat option res option" where
  "insert_walk h sortKey ptr =
     (case h ptr of None \<Rightarrow> Some (Inl DanglingPointer)
      | Some e \<Rightarrow> (case le_next e of None \<Rightarrow> Some (Inr None)
        | Some q \<Rightarrow> (case h q of None \<Rightarrow> Some (Inl DanglingPointer)
          | Some f \<Rightarrow> if sortKey < le_key f then Some (Inr (Some ptr))
                       else insert_walk h sortKey q)))"

definition List_SortedInsert :: "'a \<Rightarrow> int \<Rightarrow> 'a NList \<Rightarrow> 'a NList res option" where
  "List_SortedInsert item sortKey l =
     (let element = brk l;
          h1 = (cells l)(element \<mapsto> new_ListElement item sortKey);
          l1 = l\<lparr>cells := h1, brk := Suc element\<rparr>
      in case list_first l1 of
           None \<Rightarrow> Some (Inr (l1\<lparr>list_first := Some element, list_last := Some element\<rparr>))
         | Some a \<Rightarrow>
             (case h1 a of None \<Rightarrow> Some (Inl DanglingPointer)
              | Some fe \<Rightarrow>
                  if sortKey < le_key fe
                  then Some (bindR (set_next h1 (Some element) (list_first l1)) (\<lambda>h.
                         Inr (l1\<lparr>cells := h, list_first := Some element\<rparr>)))
                  else (case insert_walk h1 sortKey a of
                          None \<Rightarrow> None
                        | Some (Inl f) \<Rightarrow> Some (Inl f)
                        | Some (Inr (Some p)) \<Rightarrow>
                            Some (case h1 p of None \<Rightarrow> Inl DanglingPointer
                                  | Some pe \<Rightarrow>
                                      bindR (set_next h1 (Some element) (le_next pe)) (\<lambda>h2.
                                      bindR (set_next h2 (Some p) (Some element)) (\<lambda>h3.
                                      Inr (l1\<lparr>cells := h3\<rparr>))))
                        | Some (Inr None) \<Rightarrow>
                            Some (bindR (set_next h1 (list_last l1) (Some element)) (\<lambda>h.
                              Inr (l1\<lparr>cells := h, list_last := Some element\<rparr>))))))"

text \<open>The removed item with its key, or \<open>None\<close> for \<open>NULL\<close>; \<open>delete element\<close> unmaps the cell.\<close>

definition List_SortedRemove :: "'a NList \<Rightarrow> ((int \<times> 'a) option \<times> 'a NList) res" where
  "List_SortedRemove l = (case list_first l of None \<Rightarrow> Inr (None, l)
     | Some a \<Rightarrow> (case cells l a of None \<Rightarrow> Inl DanglingPointer
       | Some e \<Rightarrow>
           (let l1 = (if list_first l = list_last l
                      then l\<lparr>list_first := None, list_last := None\<rparr>
                      else l\<lparr>list_first := le_next e\<rparr>)
            in Inr (Some (le_key e, le_item e), l1\<lparr>cells := (cells l1)(a := None)\<rparr>))))"

definition List_Remove :: "'a NList \<Rightarrow> ('a option \<times> 'a NList) res" where
  "List_Remove l = bindR (List_SortedRemove l) (\<lambda>(r, l'). Inr (map_option snd r, l'))"

text \<open>\<open>Mapcar\<close> calls \<open>func\<close> on the items in list order; the model folds it over a state.\<close>

partial_function (option) mapcar_loop ::
    "('a \<Rightarrow> 's \<Rightarrow> 's) \<Rightarrow> 'a list_heap \<Rightarrow> nat option \<Rightarrow> 's \<Rightarrow> 's res option" where
  "mapcar_loop func h ptr s =
     (case ptr of None \<Rightarrow> Some (Inr s)
      | Some a \<Rightarrow> (case h a of None \<Rightarrow> Some (Inl DanglingPointer)
        | Some e \<Rightarrow> mapcar_loop func h (le_next e) (func (le_item e) s)))"

definition List_Mapcar :: "('a \<Rightarrow> 's \<Rightarrow> 's) \<Rightarrow> 'a NList \<Rightarrow> 's \<Rightarrow> 's res option" where
  "List_Mapcar func l s = mapcar_loop func (cells l) (list_first l) s"

text \<open>The destructor: remove until \<open>NULL\<close>.\<close>

partial_function (option) List_delete :: "'a NList \<Rightarrow> 'a NList res option" where
  "List_delete l = (case List_Remove l of Inl f \<Rightarrow> Some (Inl f)
     | Inr (r, l') \<Rightarrow> (case r of None \<Rightarrow> Some (Inr l') | Some x \<Rightarrow> List_delete l'))"

section \<open>The abstract specification\<close>

type_synonym 'a alist = "(int \<times> 'a) list"

fun sorted_ins :: "int \<Rightarrow> 'a \<Rightarrow> 'a alist \<Rightarrow> 'a alist" where
  "sorted_ins k x [] = [(k, x)]"
| "sorted_ins k x ((k', y) # ys) = (if k < k' then (k, x) # (k', y) # ys else (k', y) # sorted_ins k x ys)"

text \<open>\<open>seg h p as q\<close>: following \<open>next\<close> from \<open>p\<close> visits the cells \<open>as\<close> and then reaches \<open>q\<close>.\<close>

fun seg :: "'a list_heap \<Rightarrow> nat option \<Rightarrow> nat list \<Rightarrow> nat option \<Rightarrow> bool" where
  "seg h p [] q = (p = q)"
| "seg h p (a # as) q = (p = Some a \<and> (\<exists>e. h a = Some e \<and> seg h (le_next e) as q))"

definition contents :: "'a list_heap \<Rightarrow> nat list \<Rightarrow> 'a alist" where
  "contents h as = map (\<lambda>a. (le_key (the (h a)), le_item (the (h a)))) as"

definition list_at :: "'a NList \<Rightarrow> nat list \<Rightarrow> bool" where
  "list_at l as \<longleftrightarrow> seg (cells l) (list_first l) as None \<and> distinct as \<and> set as = dom (cells l)
     \<and> (\<forall>a\<in>set as. a < brk l) \<and> list_last l = (if as = [] then None else Some (last as))"

definition list_rel :: "'a NList \<Rightarrow> 'a alist \<Rightarrow> bool" where
  "list_rel l xs \<longleftrightarrow> (\<exists>as. list_at l as \<and> xs = contents (cells l) as)"

section \<open>Segments and contents\<close>

lemma seg_frame: "(\<And>a. a \<in> set as \<Longrightarrow> h' a = h a) \<Longrightarrow> seg h' p as q = seg h p as q"
  by (induction as arbitrary: p) auto

lemma seg_upd_other [simp]: "b \<notin> set as \<Longrightarrow> seg (h(b := v)) p as q = seg h p as q"
  by (rule seg_frame) auto

lemma seg_append: "seg h p (as @ bs) q \<longleftrightarrow> (\<exists>r. seg h p as r \<and> seg h r bs q)"
  by (induction as arbitrary: p) auto

lemma seg_snoc [simp]:
  "seg h p (as @ [a]) q \<longleftrightarrow> seg h p as (Some a) \<and> (\<exists>e. h a = Some e \<and> le_next e = q)"
  by (auto simp: seg_append)

lemma seg_dom: "seg h p as q \<Longrightarrow> set as \<subseteq> dom h"
  by (induction as arbitrary: p) auto

lemma contents_upd_other [simp]: "b \<notin> set as \<Longrightarrow> contents (h(b := v)) as = contents h as"
  by (auto simp: contents_def)

lemma contents_simps [simp]:
  "contents h [] = []"
  "contents h (a # as) = (le_key (the (h a)), le_item (the (h a))) # contents h as"
  "contents h (as @ bs) = contents h as @ contents h bs"
  by (simp_all add: contents_def)

lemma contents_eq_Nil [simp]: "contents h as = [] \<longleftrightarrow> as = []"
  by (simp add: contents_def)

lemma contents_next [simp]:
  "h a = Some e \<Longrightarrow> contents (h(a \<mapsto> e\<lparr>le_next := q\<rparr>)) as = contents h as"
  by (auto simp: contents_def)

lemma contents_new [simp]: "contents (h(n \<mapsto> new_ListElement x k)) [n] = [(k, x)]"
  by (simp add: contents_def new_ListElement_def)

lemma set_next_ok: "h a = Some e \<Longrightarrow> set_next h (Some a) q = Inr (h(a \<mapsto> e\<lparr>le_next := q\<rparr>))"
  by (simp add: set_next_def)

lemma list_at_Nil: "list_at l [] \<longleftrightarrow> list_first l = None \<and> list_last l = None \<and> cells l = Map.empty"
  by (auto simp: list_at_def)

lemma list_at_fresh: "list_at l as \<Longrightarrow> brk l \<notin> set as \<and> cells l (brk l) = None"
  by (auto simp: list_at_def)

lemma list_rel_empty_iff: "list_rel l xs \<Longrightarrow> List_IsEmpty l \<longleftrightarrow> xs = []"
  by (auto simp: list_rel_def list_at_def List_IsEmpty_def neq_Nil_conv) (metis seg.elims(2) option.distinct(1))

lemma list_relI: "list_at l as \<Longrightarrow> contents (cells l) as = xs \<Longrightarrow> list_rel l xs"
  by (auto simp: list_rel_def)

text \<open>The four places a new cell can go: into the empty list, in front, at the end, in between.\<close>

lemma list_at_single:
  assumes "list_at l []"
  shows "list_at (l\<lparr>cells := (cells l)(brk l \<mapsto> new_ListElement x k), brk := Suc (brk l),
           list_first := Some (brk l), list_last := Some (brk l)\<rparr>) [brk l]"
  using assms by (auto simp: list_at_def new_ListElement_def)

lemma list_at_front:
  assumes "list_at l (a # as)"
  shows "list_at (l\<lparr>cells := (cells l)(brk l \<mapsto> (new_ListElement x k)\<lparr>le_next := list_first l\<rparr>),
           brk := Suc (brk l), list_first := Some (brk l)\<rparr>) (brk l # a # as)"
  using assms list_at_fresh[OF assms] by (auto simp: list_at_def new_ListElement_def less_Suc_eq)

lemma list_at_back:
  assumes "list_at l (as @ [b])" and "cells l b = Some e"
  shows "list_at (l\<lparr>cells := (cells l)(brk l \<mapsto> new_ListElement x k, b \<mapsto> e\<lparr>le_next := Some (brk l)\<rparr>),
           brk := Suc (brk l), list_last := Some (brk l)\<rparr>) (as @ [b, brk l])"
proof -
  have "brk l \<noteq> b" "brk l \<notin> set as" "b \<notin> set as"
    using assms list_at_fresh[OF assms(1)] by (auto simp: list_at_def)
  moreover have "as @ [b, brk l] = (as @ [b]) @ [brk l]" by simp
  ultimately show ?thesis
    using assms by (auto simp: list_at_def new_ListElement_def less_Suc_eq seg_append)
qed

lemma list_at_mid:
  assumes "list_at l (as @ b # c # cs)" and "cells l b = Some e"
  shows "list_at (l\<lparr>cells := (cells l)(brk l \<mapsto> (new_ListElement x k)\<lparr>le_next := le_next e\<rparr>,
           b \<mapsto> e\<lparr>le_next := Some (brk l)\<rparr>), brk := Suc (brk l)\<rparr>) (as @ b # brk l # c # cs)"
proof -
  have "brk l \<noteq> b" "brk l \<notin> set as" "b \<notin> set as" "brk l \<notin> set (c # cs)" "b \<notin> set (c # cs)"
    using assms list_at_fresh[OF assms(1)] by (auto simp: list_at_def)
  then show ?thesis
    using assms by (auto simp: list_at_def new_ListElement_def less_Suc_eq seg_append)
qed

lemma list_at_last_cell:
  assumes "list_at l (as @ [b])"
  obtains e where "cells l b = Some e" "list_last l = Some b" "list_first l \<noteq> None" "brk l \<noteq> b"
  using assms list_at_fresh[OF assms] by (cases as) (auto simp: list_at_def)

section \<open>Each operation refines its specification\<close>

lemma List_new_rel: "list_rel List_new []"
  by (rule list_relI[of _ "[]"]) (simp_all add: List_new_def list_at_Nil)

lemma List_Append_rel:
  assumes "list_rel l xs"
  shows "\<exists>l'. List_Append item l = Inr l' \<and> list_rel l' (xs @ [(0, item)])"
proof -
  from assms obtain as where at: "list_at l as" and xs: "xs = contents (cells l) as"
    by (auto simp: list_rel_def)
  show ?thesis
  proof (cases as rule: rev_cases)
    case Nil
    with at have "list_at l []" by simp
    from list_relI[OF list_at_single[OF this, of item 0]] this xs Nil show ?thesis
      by (auto simp: list_at_Nil List_Append_def List_IsEmpty_def Let_def new_ListElement_def)
  next
    case (snoc bs b)
    with at have at': "list_at l (bs @ [b])" by simp
    then obtain e where e: "cells l b = Some e" "list_last l = Some b" "list_first l \<noteq> None" "brk l \<noteq> b"
      by (rule list_at_last_cell)
    have "brk l \<notin> set bs" using list_at_fresh[OF at'] by simp
    let ?l = "l\<lparr>cells := (cells l)(brk l \<mapsto> new_ListElement item 0, b \<mapsto> e\<lparr>le_next := Some (brk l)\<rparr>),
        brk := Suc (brk l), list_last := Some (brk l)\<rparr>"
    have "List_Append item l = Inr ?l"
      using e by (auto simp: List_Append_def List_IsEmpty_def Let_def set_next_def)
    moreover have "list_rel ?l (xs @ [(0, item)])"
      using e(1,4) \<open>brk l \<notin> set bs\<close> xs snoc
      by (intro list_relI[OF list_at_back[OF at' e(1), of item 0]]) (simp add: new_ListElement_def)
    ultimately show ?thesis by blast
  qed
qed

lemma List_Prepend_rel:
  assumes "list_rel l xs"
  shows "\<exists>l'. List_Prepend item l = Inr l' \<and> list_rel l' ((0, item) # xs)"
proof -
  from assms obtain as where at: "list_at l as" and xs: "xs = contents (cells l) as"
    by (auto simp: list_rel_def)
  show ?thesis
  proof (cases as)
    case Nil
    with at have "list_at l []" by simp
    from list_relI[OF list_at_single[OF this, of item 0]] this xs Nil show ?thesis
      by (auto simp: list_at_Nil List_Prepend_def List_IsEmpty_def Let_def new_ListElement_def)
  next
    case (Cons b bs)
    with at have at': "list_at l (b # bs)" by simp
    then have fb: "list_first l = Some b" "brk l \<notin> set (b # bs)"
      using list_at_fresh[OF at'] by (auto simp: list_at_def)
    let ?l = "l\<lparr>cells := (cells l)(brk l \<mapsto> (new_ListElement item 0)\<lparr>le_next := list_first l\<rparr>),
        brk := Suc (brk l), list_first := Some (brk l)\<rparr>"
    have "List_Prepend item l = Inr ?l"
      using fb by (simp add: List_Prepend_def List_IsEmpty_def Let_def set_next_def)
    moreover have "list_rel ?l ((0, item) # xs)"
      using list_relI[OF list_at_front[OF at', of item 0]] fb(2) xs Cons
      by (simp add: new_ListElement_def)
    ultimately show ?thesis by blast
  qed
qed

lemma insert_walk_spec:
  assumes "seg h (Some a) (a # as) None"
  shows "insert_walk h k a = Some (Inr
     (let bs = takeWhile (\<lambda>b. \<not> k < le_key (the (h b))) as
      in if bs = as then None else Some (last (a # bs))))"
  using assms
proof (induction as arbitrary: a)
  case Nil
  then show ?case by (auto simp: insert_walk.simps)
next
  case (Cons c cs)
  then obtain e f where e: "h a = Some e" "le_next e = Some c" and f: "h c = Some f"
    and "seg h (Some c) (c # cs) None" by auto
  then show ?case
    using Cons.IH[of c] by (subst insert_walk.simps) (auto simp: Let_def)
qed

lemma sorted_ins_takeWhile:
  "sorted_ins k x xs = takeWhile (\<lambda>y. \<not> k < fst y) xs @ (k, x) # dropWhile (\<lambda>y. \<not> k < fst y) xs"
  by (induction k x xs rule: sorted_ins.induct) auto

lemma sorted_ins_split:
  assumes "\<forall>y\<in>set ys. \<not> k < fst y" and "zs = [] \<or> k < fst (hd zs)"
  shows "sorted_ins k x (ys @ zs) = ys @ (k, x) # zs"
  using assms by (cases zs) (auto simp: sorted_ins_takeWhile takeWhile_append2 dropWhile_append2)

lemma takeWhile_split:
  assumes "takeWhile P xs = ys"
  shows "\<exists>zs. xs = ys @ zs \<and> (\<forall>y\<in>set ys. P y) \<and> (zs = [] \<or> \<not> P (hd zs))"
  using assms set_takeWhileD[of _ P xs] hd_dropWhile[of P xs]
  by (intro exI[of _ "dropWhile P xs"]) auto

text \<open>Where the walk stops, the list splits into the keys not above \<open>k\<close> and the rest.\<close>

lemma insert_walk_split:
  assumes at: "list_at l (a # cs)" and ae: "cells l a = Some ae" "\<not> k < le_key ae"
  obtains ps p ds where "a # cs = ps @ p # ds"
    and "insert_walk ((cells l)(brk l \<mapsto> new_ListElement x k)) k a
         = Some (Inr (if ds = [] then None else Some p))"
    and "sorted_ins k x (contents (cells l) (a # cs))
         = contents (cells l) (ps @ [p]) @ (k, x) # contents (cells l) ds"
proof -
  let ?h1 = "(cells l)(brk l \<mapsto> new_ListElement x k)"
  let ?P = "\<lambda>b. \<not> k < le_key (the (cells l b))"
  have n: "brk l \<notin> set (a # cs)" using list_at_fresh[OF at] by simp
  have tw: "takeWhile (\<lambda>b. \<not> k < le_key (the (?h1 b))) cs = takeWhile ?P cs"
    using n by (intro takeWhile_cong) auto
  obtain bs ds where bs: "bs = takeWhile ?P cs" "cs = bs @ ds" "\<forall>b\<in>set bs. ?P b"
      "ds = [] \<or> \<not> ?P (hd ds)"
    using takeWhile_split[of ?P cs, OF refl] by blast
  obtain ps p where p: "a # bs = ps @ [p]" by (metis rev_exhaust list.distinct(1))
  have "seg ?h1 (Some a) (a # cs) None" using at n ae by (auto simp: list_at_def)
  from insert_walk_spec[OF this, of k]
  have "insert_walk ?h1 k a = Some (Inr (if bs = cs then None else Some (last (a # bs))))"
    unfolding tw bs(1)[symmetric] by (simp add: Let_def)
  moreover have "bs = cs \<longleftrightarrow> ds = []" and "last (a # bs) = p" using bs(2) p by auto
  ultimately have walk: "insert_walk ?h1 k a = Some (Inr (if ds = [] then None else Some p))" by simp
  have ins: "sorted_ins k x (contents (cells l) (a # bs) @ contents (cells l) ds)
      = contents (cells l) (a # bs) @ (k, x) # contents (cells l) ds"
    using bs(3,4) ae by (intro sorted_ins_split) (cases ds; auto simp: contents_def)+
  have sp: "a # cs = (ps @ [p]) @ ds" using p bs(2) by (metis append_Cons)
  show ?thesis
  proof (rule that[of ps p ds])
    show "a # cs = ps @ p # ds" using sp by simp
    show "sorted_ins k x (contents (cells l) (a # cs))
         = contents (cells l) (ps @ [p]) @ (k, x) # contents (cells l) ds"
      unfolding sp contents_simps(3)[of _ "ps @ [p]"] using ins unfolding p .
  qed (rule walk)
qed

lemma List_SortedInsert_walk:
  assumes at: "list_at l (a # cs)" and ae: "cells l a = Some ae" "\<not> k < le_key ae"
  shows "\<exists>l'. List_SortedInsert x k l = Some (Inr l')
    \<and> list_rel l' (sorted_ins k x (contents (cells l) (a # cs)))"
proof -
  obtain ps p ds where sp: "a # cs = ps @ p # ds"
    and walk: "insert_walk ((cells l)(brk l \<mapsto> new_ListElement x k)) k a
         = Some (Inr (if ds = [] then None else Some p))"
    and ins: "sorted_ins k x (contents (cells l) (a # cs))
         = contents (cells l) (ps @ [p]) @ (k, x) # contents (cells l) ds"
    by (rule insert_walk_split[OF at ae])
  have at2: "list_at l (ps @ p # ds)" using at sp by simp
  have n: "brk l \<notin> set (ps @ p # ds)" using list_at_fresh[OF at2] by simp
  have na: "brk l \<noteq> a" using list_at_fresh[OF at] by auto
  obtain pe where pe: "cells l p = Some pe" using at2 by (auto simp: list_at_def seg_append)
  have fa: "list_first l = Some a" using at by (simp add: list_at_def)
  show ?thesis
  proof (cases ds)
    case Nil
    let ?l = "l\<lparr>cells := (cells l)(brk l \<mapsto> new_ListElement x k, p \<mapsto> pe\<lparr>le_next := Some (brk l)\<rparr>),
        brk := Suc (brk l), list_last := Some (brk l)\<rparr>"
    have "list_last l = Some p" using at2 Nil by (simp add: list_at_def)
    then have "List_SortedInsert x k l = Some (Inr ?l)"
      using ae fa na walk Nil pe n by (auto simp: List_SortedInsert_def Let_def set_next_def)
    moreover have "list_rel ?l (sorted_ins k x (contents (cells l) (a # cs)))"
      using at2 Nil pe n ins
      by (intro list_relI[OF list_at_back[of l ps p pe]]) (auto simp: new_ListElement_def)
    ultimately show ?thesis by blast
  next
    case (Cons d ds')
    let ?l = "l\<lparr>cells := (cells l)(brk l \<mapsto> (new_ListElement x k)\<lparr>le_next := le_next pe\<rparr>,
       p \<mapsto> pe\<lparr>le_next := Some (brk l)\<rparr>), brk := Suc (brk l)\<rparr>"
    have "List_SortedInsert x k l = Some (Inr ?l)"
      using ae fa na walk Cons pe n by (auto simp: List_SortedInsert_def Let_def set_next_def)
    moreover have "list_rel ?l (sorted_ins k x (contents (cells l) (a # cs)))"
      using at2 Cons pe n ins
      by (intro list_relI[OF list_at_mid[of l ps p d ds' pe]]) (auto simp: new_ListElement_def)
    ultimately show ?thesis by blast
  qed
qed

lemma List_SortedInsert_rel:
  assumes "list_rel l xs"
  shows "\<exists>l'. List_SortedInsert x k l = Some (Inr l') \<and> list_rel l' (sorted_ins k x xs)"
proof -
  from assms obtain as where at: "list_at l as" and xs: "xs = contents (cells l) as"
    by (auto simp: list_rel_def)
  show ?thesis
  proof (cases as)
    case Nil
    with at have at': "list_at l []" by simp
    then show ?thesis
      using list_relI[OF list_at_single[OF at', of x k]] xs Nil
      by (auto simp: list_at_Nil List_SortedInsert_def Let_def new_ListElement_def)
  next
    case (Cons a cs)
    with at have at': "list_at l (a # cs)" by simp
    obtain ae where ae: "cells l a = Some ae" "list_first l = Some a" and n: "brk l \<notin> set (a # cs)"
      using at' list_at_fresh[OF at'] by (auto simp: list_at_def)
    show ?thesis
    proof (cases "k < le_key ae")
      case True
      let ?l = "l\<lparr>cells := (cells l)(brk l \<mapsto> (new_ListElement x k)\<lparr>le_next := list_first l\<rparr>),
        brk := Suc (brk l), list_first := Some (brk l)\<rparr>"
      have "List_SortedInsert x k l = Some (Inr ?l)"
        using ae n True by (auto simp: List_SortedInsert_def Let_def set_next_def)
      moreover have "list_rel ?l (sorted_ins k x xs)"
        using list_relI[OF list_at_front[OF at', of x k]] ae n xs Cons True
        by (simp add: new_ListElement_def)
      ultimately show ?thesis by blast
    next
      case False
      from List_SortedInsert_walk[OF at' ae(1) False] xs Cons show ?thesis by simp
    qed
  qed
qed

lemma List_SortedRemove_rel:
  assumes "list_rel l xs"
  shows "\<exists>l'. List_SortedRemove l = Inr (case xs of [] \<Rightarrow> None | y # ys \<Rightarrow> Some y, l')
    \<and> list_rel l' (tl xs)"
proof -
  from assms obtain as where at: "list_at l as" and xs: "xs = contents (cells l) as"
    by (auto simp: list_rel_def)
  show ?thesis
  proof (cases as)
    case Nil
    with at xs assms show ?thesis by (auto simp: list_at_Nil List_SortedRemove_def)
  next
    case (Cons a bs)
    with at obtain e where e: "cells l a = Some e" "list_first l = Some a" and a: "a \<notin> set bs"
      and sb: "seg (cells l) (le_next e) bs None" and dom: "insert a (set bs) = dom (cells l)"
      by (auto simp: list_at_def)
    have one: "list_first l = list_last l \<longleftrightarrow> bs = []"
      using at Cons e a by (auto simp: list_at_def) 
    let ?l = "(if bs = [] then l\<lparr>list_first := None, list_last := None\<rparr>
        else l\<lparr>list_first := le_next e\<rparr>)\<lparr>cells := (cells l)(a := None)\<rparr>"
    have "List_SortedRemove l = Inr (Some (le_key e, le_item e), ?l)"
      using e one by (simp add: List_SortedRemove_def)
    moreover have "list_at ?l bs"
      using at Cons a sb dom by (auto simp: list_at_def)
    ultimately show ?thesis
      using xs Cons e a by (intro exI[of _ ?l]) (auto intro!: list_relI)
  qed
qed

lemma List_Remove_rel:
  assumes "list_rel l xs"
  shows "\<exists>l'. List_Remove l = Inr (case xs of [] \<Rightarrow> None | y # ys \<Rightarrow> Some (snd y), l')
    \<and> list_rel l' (tl xs)"
  using List_SortedRemove_rel[OF assms] by (auto simp: List_Remove_def split: list.splits)

lemma mapcar_loop_seg:
  "seg h p as None \<Longrightarrow> mapcar_loop func h p s = Some (Inr (fold (\<lambda>y. func (snd y)) (contents h as) s))"
  by (induction as arbitrary: p s) (auto simp: mapcar_loop.simps)

lemma List_Mapcar_rel:
  "list_rel l xs \<Longrightarrow> List_Mapcar func l s = Some (Inr (fold (\<lambda>y. func (snd y)) xs s))"
  by (auto simp: list_rel_def list_at_def List_Mapcar_def mapcar_loop_seg)

lemma List_delete_rel: "list_rel l xs \<Longrightarrow> \<exists>l'. List_delete l = Some (Inr l') \<and> list_rel l' []"
proof (induction xs arbitrary: l)
  case Nil
  then show ?case using List_Remove_rel[OF Nil] by (subst List_delete.simps) auto
next
  case (Cons x xs)
  then show ?case using List_Remove_rel[OF Cons.prems] by (subst List_delete.simps) auto
qed

section \<open>The specification sorts stably\<close>

lemma set_sorted_ins [simp]: "set (sorted_ins k x ys) = insert (k, x) (set ys)"
  by (induction k x ys rule: sorted_ins.induct) auto

lemma mset_sorted_ins [simp]: "mset (sorted_ins k x ys) = add_mset (k, x) (mset ys)"
  by (induction k x ys rule: sorted_ins.induct) auto

lemma sorted_sorted_ins: "sorted (map fst ys) \<Longrightarrow> sorted (map fst (sorted_ins k x ys))"
  by (induction k x ys rule: sorted_ins.induct) auto

lemma sorted_ins_stable:
  "sorted (map fst ys) \<Longrightarrow> filter (\<lambda>y. fst y = j) (sorted_ins k x ys)
     = filter (\<lambda>y. fst y = j) ys @ (if k = j then [(k, x)] else [])"
proof (induction k x ys rule: sorted_ins.induct)
  case (2 k x k' y ys)
  show ?case
  proof (cases "k < k'")
    case True
    with "2.prems" have "\<forall>z\<in>set ((k', y) # ys). fst z \<noteq> k" by auto
    then have "filter (\<lambda>z. fst z = k) ((k', y) # ys) = []" by (auto simp: filter_empty_conv)
    with True show ?thesis by auto
  next
    case False
    with 2 show ?thesis by auto
  qed
qed simp

definition inserted :: "'a alist \<Rightarrow> 'a alist" where
  "inserted kxs = fold (\<lambda>(k, x). sorted_ins k x) kxs []"

lemma inserted_snoc: "inserted (kxs @ [(k, x)]) = sorted_ins k x (inserted kxs)"
  by (simp add: inserted_def)

lemma sorted_inserted: "sorted (map fst (inserted kxs))"
  by (induction kxs rule: rev_induct) (auto simp: inserted_snoc sorted_sorted_ins, simp add: inserted_def)

lemma mset_inserted: "mset (inserted kxs) = mset kxs"
  by (induction kxs rule: rev_induct) (auto simp: inserted_snoc, simp add: inserted_def)

lemma inserted_stable: "filter (\<lambda>y. fst y = j) (inserted kxs) = filter (\<lambda>y. fst y = j) kxs"
  by (induction kxs rule: rev_induct)
    (auto simp: inserted_snoc sorted_ins_stable sorted_inserted, simp add: inserted_def)

lemma inserted_sort_key: "inserted kxs = sort_key fst kxs"
proof (rule properties_for_sort_key[symmetric])
  fix y
  have "filter (\<lambda>z. fst z = fst y) (inserted kxs) = filter (\<lambda>z. fst z = fst y) kxs"
    by (rule inserted_stable)
  then show "filter (\<lambda>z. fst y = fst z) (inserted kxs) = filter (\<lambda>z. fst y = fst z) kxs"
    by (simp only: eq_commute[of "fst y"])
qed (simp_all add: mset_inserted sorted_inserted)

section \<open>The interface the kernel's queues rely on\<close>

fun append_all :: "('a \<Rightarrow> 'l \<Rightarrow> 'l res) \<Rightarrow> 'a list \<Rightarrow> 'l \<Rightarrow> 'l res" where
  "append_all app [] l = Inr l"
| "append_all app (x # xs) l = bindR (app x l) (append_all app xs)"

fun insert_all :: "('a \<Rightarrow> int \<Rightarrow> 'l \<Rightarrow> 'l res option) \<Rightarrow> 'a alist \<Rightarrow> 'l \<Rightarrow> 'l res option" where
  "insert_all ins [] l = Some (Inr l)"
| "insert_all ins ((k, x) # kxs) l = (case ins x k l of None \<Rightarrow> None
     | Some (Inl f) \<Rightarrow> Some (Inl f) | Some (Inr l') \<Rightarrow> insert_all ins kxs l')"

fun drain :: "('l \<Rightarrow> ((int \<times> 'a) option \<times> 'l) res) \<Rightarrow> nat \<Rightarrow> 'l \<Rightarrow> (('a alist) \<times> 'l) res" where
  "drain rem 0 l = Inr ([], l)"
| "drain rem (Suc n) l = bindR (rem l) (\<lambda>(r, l').
     case r of None \<Rightarrow> Inr ([], l')
     | Some y \<Rightarrow> bindR (drain rem n l') (\<lambda>(ys, l''). Inr (y # ys, l'')))"

text \<open>\<open>Remove\<close> called \<open>n\<close> times: the items, \<open>None\<close> where the list was empty.\<close>

fun remove_n :: "('l \<Rightarrow> ('a option \<times> 'l) res) \<Rightarrow> nat \<Rightarrow> 'l \<Rightarrow> ('a option list \<times> 'l) res" where
  "remove_n rmv 0 l = Inr ([], l)"
| "remove_n rmv (Suc n) l = bindR (rmv l) (\<lambda>(r, l'). bindR (remove_n rmv n l') (\<lambda>(rs, l''). Inr (r # rs, l'')))"

locale nachos_list_adt =
  fixes rel :: "'l \<Rightarrow> 'a alist \<Rightarrow> bool"
    and empty :: 'l
    and app :: "'a \<Rightarrow> 'l \<Rightarrow> 'l res"
    and ins :: "'a \<Rightarrow> int \<Rightarrow> 'l \<Rightarrow> 'l res option"
    and rem :: "'l \<Rightarrow> ((int \<times> 'a) option \<times> 'l) res"
    and rmv :: "'l \<Rightarrow> ('a option \<times> 'l) res"
  assumes rel_empty: "rel empty []"
    and rel_append: "rel l xs \<Longrightarrow> \<exists>l'. app x l = Inr l' \<and> rel l' (xs @ [(0, x)])"
    and rel_ins: "rel l xs \<Longrightarrow> \<exists>l'. ins x k l = Some (Inr l') \<and> rel l' (sorted_ins k x xs)"
    and rel_rem: "rel l xs \<Longrightarrow> \<exists>l'. rem l = Inr (case xs of [] \<Rightarrow> None | y # ys \<Rightarrow> Some y, l') \<and> rel l' (tl xs)"
    and rel_rmv: "rel l xs \<Longrightarrow> \<exists>l'. rmv l = Inr (case xs of [] \<Rightarrow> None | y # ys \<Rightarrow> Some (snd y), l') \<and> rel l' (tl xs)"
begin

lemma rel_append_all: "rel l xs \<Longrightarrow> \<exists>l'. append_all app ys l = Inr l' \<and> rel l' (xs @ map (Pair 0) ys)"
proof (induction ys arbitrary: l xs)
  case (Cons y ys)
  from rel_append[OF Cons.prems, of y] Cons.IH show ?case by fastforce
qed simp

lemma rel_insert_all:
  "rel l (inserted xs) \<Longrightarrow> \<exists>l'. insert_all ins kxs l = Some (Inr l') \<and> rel l' (inserted (xs @ kxs))"
proof (induction kxs arbitrary: l xs)
  case (Cons y kxs)
  obtain k x where y: "y = (k, x)" by (cases y)
  from rel_ins[OF Cons.prems, of x k] obtain l' where l': "ins x k l = Some (Inr l')"
    and "rel l' (inserted (xs @ [(k, x)]))" by (auto simp: inserted_snoc)
  from Cons.IH[OF this(2)] l' y show ?case by auto
qed simp

lemma rel_drain: "rel l xs \<Longrightarrow> \<exists>l'. drain rem (length xs) l = Inr (xs, l') \<and> rel l' []"
proof (induction xs arbitrary: l)
  case (Cons x xs)
  from rel_rem[OF Cons.prems] obtain l' where "rem l = Inr (Some x, l')" "rel l' xs" by auto
  with Cons.IH[of l'] show ?case by auto
qed auto

lemma rel_remove_n:
  "rel l xs \<Longrightarrow> \<exists>l'. remove_n rmv n l = Inr (map (Some \<circ> snd) (take n xs) @ replicate (n - length xs) None, l') \<and> rel l' (drop n xs)"
proof (induction n arbitrary: l xs)
  case (Suc n)
  obtain l1 where l1: "rmv l = Inr (case xs of [] \<Rightarrow> None | y # ys \<Rightarrow> Some (snd y), l1)" "rel l1 (tl xs)"
    using rel_rmv[OF Suc.prems] by blast
  from Suc.IH[OF l1(2)] obtain l2 where "remove_n rmv n l1 = Inr (map (Some \<circ> snd) (take n (tl xs)) @ replicate (n - length (tl xs)) None, l2)"
    "rel l2 (drop n (tl xs))" by blast
  then show ?case using l1(1) by (cases xs) auto
qed simp

lemma fifo:
  "\<exists>l l1 l2 l'. append_all app xs empty = Inr l \<and> remove_n rmv n l = Inr (map Some (take n xs) @ replicate (n - length xs) None, l1)
     \<and> append_all app ys l1 = Inr l2 \<and> remove_n rmv (length xs - n + length ys) l2 = Inr (map Some (drop n xs @ ys), l') \<and> rel l' []"
proof -
  obtain l where l: "append_all app xs empty = Inr l" "rel l (map (Pair 0) xs)" using rel_append_all[OF rel_empty, of xs] by auto
  obtain l1 where l1: "remove_n rmv n l = Inr (map Some (take n xs) @ replicate (n - length xs) None, l1)" "rel l1 (map (Pair 0) (drop n xs))"
    using rel_remove_n[OF l(2), of n] by (auto simp: take_map drop_map o_def)
  obtain l2 where l2: "append_all app ys l1 = Inr l2" "rel l2 (map (Pair 0) (drop n xs @ ys))"
    using rel_append_all[OF l1(2), of ys] by auto
  obtain l3 where "remove_n rmv (length xs - n + length ys) l2 = Inr (map Some (drop n xs @ ys), l3)" "rel l3 []"
    using rel_remove_n[OF l2(2), of "length xs - n + length ys"] by (auto simp: o_def)
  then show ?thesis using l l1 l2 by blast
qed

lemma priority:
  "\<exists>l l'. insert_all ins kxs empty = Some (Inr l) \<and> drain rem (length kxs) l = Inr (sort_key fst kxs, l') \<and> rel l' []"
proof -
  have "rel empty (inserted [])" using rel_empty by (simp add: inserted_def)
  from rel_insert_all[OF this, of kxs] obtain l where
    "insert_all ins kxs empty = Some (Inr l)" "rel l (sort_key fst kxs)" by (auto simp: inserted_sort_key)
  with rel_drain[of l "sort_key fst kxs"] show ?thesis by auto
qed

end

interpretation nl: nachos_list_adt list_rel List_new List_Append List_SortedInsert List_SortedRemove List_Remove
  by unfold_locales
    (rule List_new_rel List_Append_rel List_SortedInsert_rel List_SortedRemove_rel List_Remove_rel; assumption?)+

text \<open>
  C1. FIFO order: from a new list, \<open>Append\<close> any items \<open>xs\<close>, \<open>Remove\<close> \<open>n\<close> times, append any items \<open>ys\<close> and remove
  the rest. No call meets a bad pointer; the removals return the items in the order in which they were appended, across
  the interleaving, and NULL where the list has run empty; at the end the list is empty.
\<close>

theorem list_fifo:
  "\<exists>l l1 l2 l'. append_all List_Append xs List_new = Inr l
     \<and> remove_n List_Remove n l = Inr (map Some (take n xs) @ replicate (n - length xs) None, l1)
     \<and> append_all List_Append ys l1 = Inr l2
     \<and> remove_n List_Remove (length xs - n + length ys) l2 = Inr (map Some (drop n xs @ ys), l') \<and> List_IsEmpty l'"
  using nl.fifo[of xs n ys] list_rel_empty_iff by blast

text \<open>
  C2. Sorted insertion: inserting any (key, item) pairs with \<open>SortedInsert\<close> always terminates without
  a pointer fault, and \<open>SortedRemove\<close> then returns exactly the stable sort of the pairs by key.
\<close>

theorem list_priority:
  "\<exists>l l'. insert_all List_SortedInsert kxs List_new = Some (Inr l)
     \<and> drain List_SortedRemove (length kxs) l = Inr (sort_key fst kxs, l') \<and> List_IsEmpty l'"
  using nl.priority[of kxs] list_rel_empty_iff by blast

end
