(* ===== verification/Nachos_BitMap.thy ===== *)
theory Nachos_BitMap
  imports Nachos_Prelude
begin

text \<open>
  userprog/bitmap.cc: an array of bits packed into 32-bit words, used to allocate disk sectors
  (\<open>filesys\<close>), physical pages (\<open>addrspace\<close>) and semaphore slots (\<open>stable\<close>).

  The words are kept as words; an index outside the word array is a fault. \<open>new unsigned int[n]\<close>
  leaves the words uninitialised, so the constructor takes their contents as an argument.
  \<open>bm_set\<close> abstracts a bitmap to the set of marked bits; the locale \<open>bit_allocator\<close> is the interface
  the allocating clients use, interpreted here on the code's operations. Reading and writing a
  bitmap as a file (\<open>FetchFrom\<close>, \<open>WriteBack\<close>) is in the file-system theories.
\<close>

section \<open>Operations\<close>

definition BitsInWord :: int where "BitsInWord = 32"

record BitMap =
  numBits :: int
  numWords :: int
  bmap :: "word32 list"

definition read_word :: "BitMap \<Rightarrow> int \<Rightarrow> word32 res" where
  "read_word bm i = (if 0 \<le> i \<and> i < int (length (bmap bm)) then Inr (bmap bm ! nat i) else Inl OutOfBounds)"

definition write_word :: "BitMap \<Rightarrow> int \<Rightarrow> word32 \<Rightarrow> BitMap res" where
  "write_word bm i w = (if 0 \<le> i \<and> i < int (length (bmap bm))
     then Inr (bm\<lparr>bmap := (bmap bm)[nat i := w]\<rparr>) else Inl OutOfBounds)"

definition BitMap_Mark :: "int \<Rightarrow> BitMap \<Rightarrow> BitMap res" where
  "BitMap_Mark which bm =
     bindR (ASSERT (which \<ge> 0 \<and> which < numBits bm)) (\<lambda>_.
     bindR (read_word bm (which sdiv BitsInWord)) (\<lambda>w.
     write_word bm (which sdiv BitsInWord) (w OR push_bit (nat (which smod BitsInWord)) 1)))"

definition BitMap_Clear :: "int \<Rightarrow> BitMap \<Rightarrow> BitMap res" where
  "BitMap_Clear which bm =
     bindR (ASSERT (which \<ge> 0 \<and> which < numBits bm)) (\<lambda>_.
     bindR (read_word bm (which sdiv BitsInWord)) (\<lambda>w.
     write_word bm (which sdiv BitsInWord) (w AND NOT (push_bit (nat (which smod BitsInWord)) 1))))"

definition BitMap_Test :: "int \<Rightarrow> BitMap \<Rightarrow> bool res" where
  "BitMap_Test which bm =
     bindR (ASSERT (which \<ge> 0 \<and> which < numBits bm)) (\<lambda>_.
     bindR (read_word bm (which sdiv BitsInWord)) (\<lambda>w.
     Inr (w AND push_bit (nat (which smod BitsInWord)) 1 \<noteq> 0)))"

text \<open>\<open>garbage\<close> is what the uninitialised words happen to hold.\<close>

definition BitMap_new :: "(nat \<Rightarrow> word32) \<Rightarrow> int \<Rightarrow> BitMap res" where
  "BitMap_new garbage nitems =
     (let nw = divRoundUp nitems BitsInWord
      in forR (\<lambda>i. BitMap_Clear (int i)) [0..<nat nitems]
           \<lparr>numBits = nitems, numWords = nw, bmap = map garbage [0..<nat nw]\<rparr>)"

fun find_loop :: "nat list \<Rightarrow> BitMap \<Rightarrow> (int \<times> BitMap) res" where
  "find_loop [] bm = Inr (-1, bm)"
| "find_loop (i # is) bm = bindR (BitMap_Test (int i) bm) (\<lambda>t.
     if \<not> t then bindR (BitMap_Mark (int i) bm) (\<lambda>bm'. Inr (int i, bm')) else find_loop is bm)"

definition BitMap_Find :: "BitMap \<Rightarrow> (int \<times> BitMap) res" where
  "BitMap_Find bm = find_loop [0..<nat (numBits bm)] bm"

definition BitMap_NumClear :: "BitMap \<Rightarrow> int res" where
  "BitMap_NumClear bm =
     forR (\<lambda>i count. bindR (BitMap_Test (int i) bm) (\<lambda>t. Inr (if \<not> t then count + 1 else count)))
       [0..<nat (numBits bm)] 0"

text \<open>\<open>Print\<close>, as the numbers it prints.\<close>

definition BitMap_Print :: "BitMap \<Rightarrow> int list res" where
  "BitMap_Print bm =
     forR (\<lambda>i out. bindR (BitMap_Test (int i) bm) (\<lambda>t. Inr (if t then out @ [int i] else out)))
       [0..<nat (numBits bm)] []"

section \<open>Abstraction\<close>

definition bm_ok :: "BitMap \<Rightarrow> bool" where
  "bm_ok bm \<longleftrightarrow> 0 \<le> numBits bm \<and> numWords bm = divRoundUp (numBits bm) BitsInWord
     \<and> length (bmap bm) = nat (numWords bm)"

definition bm_size :: "BitMap \<Rightarrow> nat" where
  "bm_size bm = nat (numBits bm)"

definition bm_bit :: "BitMap \<Rightarrow> nat \<Rightarrow> bool" where
  "bm_bit bm i = bit (bmap bm ! (i div 32)) (i mod 32)"

definition bm_set :: "BitMap \<Rightarrow> nat set" where
  "bm_set bm = {i. i < bm_size bm \<and> bm_bit bm i}"

lemma bm_set_bound: "bm_set bm \<subseteq> {..<bm_size bm}"
  by (auto simp: bm_set_def)

lemma finite_bm_set [simp]: "finite (bm_set bm)"
  by (rule finite_subset[OF bm_set_bound]) simp

lemma bm_word_index: "bm_ok bm \<Longrightarrow> i < bm_size bm \<Longrightarrow> i div 32 < length (bmap bm)"
proof -
  assume ok: "bm_ok bm" and i: "i < bm_size bm"
  then have "numBits bm \<le> numWords bm * 32"
    by (auto simp: bm_ok_def BitsInWord_def divRoundUp_upper)
  moreover have "int i < numBits bm" using ok i by (simp add: bm_ok_def bm_size_def)
  ultimately have "i < length (bmap bm) * 32" using ok by (simp add: bm_ok_def)
  then show ?thesis by (simp add: less_mult_imp_div_less)
qed

lemma int_index [simp]:
  "int i sdiv BitsInWord = int (i div 32)" "int i smod BitsInWord = int (i mod 32)"
  by (simp_all add: BitsInWord_def sdiv_nonneg smod_nonneg zdiv_int zmod_int)

lemma bit_single: "bit (2 ^ k :: word32) j \<longleftrightarrow> j = k \<and> k < 32"
  by (auto simp: bit_exp_iff)

lemma and_single_zero: "k < 32 \<Longrightarrow> (w :: word32) AND 2 ^ k = 0 \<longleftrightarrow> \<not> bit w k"
proof
  assume k: "k < 32" and "w AND 2 ^ k = 0"
  then have "\<not> bit (w AND 2 ^ k) k" by simp
  with k show "\<not> bit w k" by (simp add: bit_and_iff bit_single)
next
  assume "\<not> bit w k"
  then show "w AND 2 ^ k = 0" by (intro bit_word_eqI) (auto simp: bit_and_iff bit_single)
qed

lemma bit_set_single: "k < 32 \<Longrightarrow> bit ((w :: word32) OR 2 ^ k) j \<longleftrightarrow> j = k \<or> bit w j"
  by (auto simp: bit_or_iff bit_single)

lemma bit_clear_single: "bit ((w :: word32) AND NOT (2 ^ k)) j \<longleftrightarrow> j \<noteq> k \<and> bit w j"
  by (auto simp: bit_and_iff bit_not_iff bit_single possible_bit_def dest: bit_imp_le_length)

lemma bm_size_bmap [simp]: "bm_size (bm\<lparr>bmap := m\<rparr>) = bm_size bm"
  by (simp add: bm_size_def)

lemma in_range: "bm_ok bm \<Longrightarrow> i < bm_size bm \<Longrightarrow> int i < numBits bm"
  by (simp add: bm_ok_def bm_size_def)

lemma read_word_ok [simp]: "k < length (bmap bm) \<Longrightarrow> read_word bm (int k) = Inr (bmap bm ! k)"
  by (simp add: read_word_def)

lemma write_word_ok [simp]:
  "k < length (bmap bm) \<Longrightarrow> write_word bm (int k) w = Inr (bm\<lparr>bmap := (bmap bm)[k := w]\<rparr>)"
  by (simp add: write_word_def)

lemma BitMap_Test_eq: "bm_ok bm \<Longrightarrow> i < bm_size bm \<Longrightarrow> BitMap_Test (int i) bm = Inr (i \<in> bm_set bm)"
  using bm_word_index[of bm i] in_range[of bm i]
  by (simp add: BitMap_Test_def and_single_zero bm_set_def bm_bit_def del: of_nat_div of_nat_mod)

lemma bm_bit_update:
  assumes "i div 32 < length (bmap bm)"
  shows "bm_bit (bm\<lparr>bmap := (bmap bm)[i div 32 := w]\<rparr>) j
     = (if j div 32 = i div 32 then bit w (j mod 32) else bm_bit bm j)"
  using assms by (auto simp: bm_bit_def nth_list_update)

lemma same_index: "j div 32 = i div 32 \<Longrightarrow> j mod 32 = i mod (32 :: nat) \<Longrightarrow> j = i"
  by (metis div_mult_mod_eq)

lemma BitMap_Mark_spec:
  assumes "bm_ok bm" and "i < bm_size bm"
  shows "\<exists>bm'. BitMap_Mark (int i) bm = Inr bm' \<and> bm_ok bm' \<and> bm_size bm' = bm_size bm
    \<and> bm_set bm' = insert i (bm_set bm)"
proof -
  let ?w = "bmap bm ! (i div 32) OR push_bit (i mod 32) 1"
  let ?bm = "bm\<lparr>bmap := (bmap bm)[i div 32 := ?w]\<rparr>"
  note ix = bm_word_index[OF assms]
  have "BitMap_Mark (int i) bm = Inr ?bm"
    using in_range[OF assms] ix by (simp add: BitMap_Mark_def del: of_nat_div of_nat_mod)
  moreover have "bm_ok ?bm" and "bm_size ?bm = bm_size bm"
    using assms by (simp_all add: bm_ok_def bm_size_def)
  moreover have "bm_bit ?bm j \<longleftrightarrow> j = i \<or> bm_bit bm j" for j
    unfolding bm_bit_update[OF ix]
    by (auto simp: bit_set_single bm_bit_def dest: same_index)
  then have "bm_set ?bm = insert i (bm_set bm)"
    using assms(2) by (auto simp: bm_set_def)
  ultimately show ?thesis by blast
qed

lemma BitMap_Clear_spec:
  assumes "bm_ok bm" and "i < bm_size bm"
  shows "\<exists>bm'. BitMap_Clear (int i) bm = Inr bm' \<and> bm_ok bm' \<and> bm_size bm' = bm_size bm
    \<and> bm_set bm' = bm_set bm - {i}"
proof -
  let ?w = "bmap bm ! (i div 32) AND NOT (push_bit (i mod 32) 1)"
  let ?bm = "bm\<lparr>bmap := (bmap bm)[i div 32 := ?w]\<rparr>"
  note ix = bm_word_index[OF assms]
  have "BitMap_Clear (int i) bm = Inr ?bm"
    using in_range[OF assms] ix by (simp add: BitMap_Clear_def del: of_nat_div of_nat_mod)
  moreover have "bm_ok ?bm" and "bm_size ?bm = bm_size bm"
    using assms by (simp_all add: bm_ok_def bm_size_def)
  moreover have "bm_bit ?bm j \<longleftrightarrow> j \<noteq> i \<and> bm_bit bm j" for j
    unfolding bm_bit_update[OF ix]
    by (auto simp: bit_clear_single bm_bit_def dest: same_index)
  then have "bm_set ?bm = bm_set bm - {i}"
    by (auto simp: bm_set_def)
  ultimately show ?thesis by blast
qed

text \<open>An index outside the bitmap fails the assertion, whatever the operation.\<close>

lemma BitMap_out_of_range:
  assumes "\<not> (0 \<le> which \<and> which < numBits bm)"
  shows "BitMap_Mark which bm = Inl AssertFailed" "BitMap_Clear which bm = Inl AssertFailed"
    "BitMap_Test which bm = Inl AssertFailed"
  using assms by (auto simp: BitMap_Mark_def BitMap_Clear_def BitMap_Test_def bindR_ASSERT)

lemma BitMap_new_spec:
  assumes "0 \<le> nitems"
  shows "\<exists>bm. BitMap_new g nitems = Inr bm \<and> bm_ok bm \<and> numBits bm = nitems \<and> bm_set bm = {}"
proof -
  let ?b0 = "\<lparr>numBits = nitems, numWords = divRoundUp nitems BitsInWord,
    bmap = map g [0..<nat (divRoundUp nitems BitsInWord)]\<rparr>"
  let ?P = "\<lambda>k bm. bm_ok bm \<and> numBits bm = nitems \<and> bm_set bm \<inter> {..<k} = {}"
  have "\<exists>bm. forR (\<lambda>i. BitMap_Clear (int i)) [0..<nat nitems] ?b0 = Inr bm \<and> ?P (nat nitems) bm"
  proof (rule forR_upt_rule[where P = ?P])
    show "?P 0 ?b0" using assms by (simp add: bm_ok_def)
    fix i bm assume "i < nat nitems" and P: "?P i bm"
    then have "i < bm_size bm" by (simp add: bm_size_def)
    with P BitMap_Clear_spec[of bm i] obtain bm' where "BitMap_Clear (int i) bm = Inr bm'" "bm_ok bm'"
      "bm_size bm' = bm_size bm" "bm_set bm' = bm_set bm - {i}" by blast
    with P assms show "\<exists>bm'. BitMap_Clear (int i) bm = Inr bm' \<and> ?P (Suc i) bm'"
      by (auto simp: bm_ok_def bm_size_def lessThan_Suc nat_eq_iff)
  qed simp
  then obtain bm where "BitMap_new g nitems = Inr bm" "?P (nat nitems) bm"
    by (auto simp: BitMap_new_def Let_def)
  moreover from this have "bm_set bm = {}" using bm_set_bound[of bm] by (auto simp: bm_size_def)
  ultimately show ?thesis by blast
qed

lemma find_loop_eq:
  assumes "bm_ok bm" and "set is \<subseteq> {..<bm_size bm}"
  shows "find_loop is bm = (case find_first (\<lambda>i. i \<notin> bm_set bm) is of None \<Rightarrow> Inr (-1, bm)
     | Some i \<Rightarrow> bindR (BitMap_Mark (int i) bm) (\<lambda>bm'. Inr (int i, bm')))"
  using assms(2) by (induction "is") (auto simp: BitMap_Test_eq[OF assms(1)])

lemma bm_range: "[0..<nat (numBits bm)] = [0..<bm_size bm]" "set [0..<bm_size bm] \<subseteq> {..<bm_size bm}"
  by (auto simp: bm_size_def)

lemma BitMap_Find_full:
  assumes "bm_ok bm" and "bm_set bm = {..<bm_size bm}"
  shows "BitMap_Find bm = Inr (-1, bm)"
proof -
  have "find_first (\<lambda>i. i \<notin> bm_set bm) [0..<bm_size bm] = None"
    unfolding find_first_None by (auto simp: assms(2))
  then show ?thesis
    unfolding BitMap_Find_def bm_range(1) find_loop_eq[OF assms(1) bm_range(2)] by simp
qed

lemma BitMap_Find_free:
  assumes "bm_ok bm" and "bm_set bm \<noteq> {..<bm_size bm}"
  shows "\<exists>i bm'. BitMap_Find bm = Inr (int i, bm') \<and> i < bm_size bm \<and> i \<notin> bm_set bm
    \<and> (\<forall>j<i. j \<in> bm_set bm) \<and> bm_ok bm' \<and> bm_size bm' = bm_size bm \<and> bm_set bm' = insert i (bm_set bm)"
proof -
  let ?f = "find_first (\<lambda>i. i \<notin> bm_set bm) [0..<bm_size bm]"
  have "?f \<noteq> None"
    unfolding find_first_None using assms(2) bm_set_bound[of bm] by auto
  then obtain i where i: "?f = Some i" by blast
  from find_first_Some[OF i] have ib: "i < bm_size bm" "i \<notin> bm_set bm" by auto
  from BitMap_Mark_spec[OF assms(1) ib(1)] obtain bm' where "BitMap_Mark (int i) bm = Inr bm'"
    "bm_ok bm'" "bm_size bm' = bm_size bm" "bm_set bm' = insert i (bm_set bm)" by blast
  moreover have "BitMap_Find bm = bindR (BitMap_Mark (int i) bm) (\<lambda>bm'. Inr (int i, bm'))"
    unfolding BitMap_Find_def bm_range(1) find_loop_eq[OF assms(1) bm_range(2)] i by simp
  ultimately show ?thesis
    using ib find_first_upt_least[OF i] by (intro exI[of _ i] exI[of _ bm']) auto
qed

lemma BitMap_NumClear_eq:
  assumes "bm_ok bm"
  shows "BitMap_NumClear bm = Inr (int (bm_size bm - card (bm_set bm)))"
proof -
  let ?f = "\<lambda>i count. bindR (BitMap_Test (int i) bm) (\<lambda>t. Inr (if \<not> t then count + 1 else count))"
  let ?P = "\<lambda>k c. c = int (card ({..<k} - bm_set bm))"
  have "\<exists>c. forR ?f [0..<bm_size bm] 0 = Inr c \<and> ?P (bm_size bm) c"
  proof (rule forR_upt_rule[where P = ?P])
    fix i c assume i: "i < bm_size bm" and P: "?P i c"
    have "{..<Suc i} - bm_set bm = (if i \<in> bm_set bm then {..<i} - bm_set bm
        else insert i ({..<i} - bm_set bm))" by (auto simp: lessThan_Suc)
    with i P show "\<exists>c'. ?f i c = Inr c' \<and> ?P (Suc i) c'" by (simp add: BitMap_Test_eq[OF assms])
  qed simp_all
  moreover have "card ({..<bm_size bm} - bm_set bm) = bm_size bm - card (bm_set bm)"
    using card_Diff_subset[OF finite_bm_set bm_set_bound, of bm] by simp
  ultimately show ?thesis by (auto simp: BitMap_NumClear_def bm_range(1))
qed

lemma BitMap_Print_eq:
  assumes "bm_ok bm"
  shows "BitMap_Print bm = Inr (map int (sorted_list_of_set (bm_set bm)))"
proof -
  let ?f = "\<lambda>i out. bindR (BitMap_Test (int i) bm) (\<lambda>t. Inr (if t then out @ [int i] else out))"
  let ?P = "\<lambda>k out. out = map int (filter (\<lambda>i. i \<in> bm_set bm) [0..<k])"
  have "\<exists>out. forR ?f [0..<bm_size bm] [] = Inr out \<and> ?P (bm_size bm) out"
    by (rule forR_upt_rule[where P = ?P]) (simp_all add: BitMap_Test_eq[OF assms])
  moreover have "filter (\<lambda>i. i \<in> bm_set bm) [0..<bm_size bm] = sorted_list_of_set (bm_set bm)"
  proof (rule sorted_distinct_set_unique)
    show "set (filter (\<lambda>i. i \<in> bm_set bm) [0..<bm_size bm]) = set (sorted_list_of_set (bm_set bm))"
      using bm_set_bound[of bm] by auto
  qed (simp_all add: sorted_wrt_filter)
  ultimately show ?thesis by (auto simp: BitMap_Print_def bm_range(1))
qed

section \<open>The allocator interface\<close>

text \<open>Allocating \<open>n\<close> items one \<open>Find\<close> at a time, as \<open>FileHeader::Allocate\<close> and \<open>AddrSpace\<close> do.\<close>

fun alloc_n :: "('b \<Rightarrow> (int \<times> 'b) res) \<Rightarrow> nat \<Rightarrow> 'b \<Rightarrow> (int list \<times> 'b) res" where
  "alloc_n fnd 0 b = Inr ([], b)"
| "alloc_n fnd (Suc n) b = bindR (fnd b) (\<lambda>(i, b').
     bindR (alloc_n fnd n b') (\<lambda>(is, b''). Inr (i # is, b'')))"

locale bit_allocator =
  fixes ok :: "'b \<Rightarrow> bool"
    and size_of :: "'b \<Rightarrow> nat"
    and used :: "'b \<Rightarrow> nat set"
    and fnd :: "'b \<Rightarrow> (int \<times> 'b) res"
    and num_clear :: "'b \<Rightarrow> int res"
  assumes used_bound: "used b \<subseteq> {..<size_of b}"
    and find_full: "ok b \<Longrightarrow> used b = {..<size_of b} \<Longrightarrow> fnd b = Inr (-1, b)"
    and find_free: "ok b \<Longrightarrow> used b \<noteq> {..<size_of b} \<Longrightarrow>
      \<exists>i b'. fnd b = Inr (int i, b') \<and> i < size_of b \<and> i \<notin> used b \<and> (\<forall>j<i. j \<in> used b)
        \<and> ok b' \<and> size_of b' = size_of b \<and> used b' = insert i (used b)"
    and num_clear_eq: "ok b \<Longrightarrow> num_clear b = Inr (int (size_of b - card (used b)))"
begin

lemma finite_used: "finite (used b)"
  by (rule finite_subset[OF used_bound]) simp

lemma alloc_n_ok:
  "ok b \<Longrightarrow> n \<le> size_of b - card (used b) \<Longrightarrow> \<exists>is b'. alloc_n fnd n b = Inr (map int is, b')
     \<and> ok b' \<and> size_of b' = size_of b \<and> length is = n \<and> distinct is \<and> set is \<inter> used b = {}
     \<and> set is \<subseteq> {..<size_of b} \<and> used b' = used b \<union> set is"
proof (induction n arbitrary: b)
  case (Suc n)
  have ne: "used b \<noteq> {..<size_of b}"
  proof
    assume "used b = {..<size_of b}"
    then have "card (used b) = size_of b" by (simp only: card_lessThan)
    with Suc.prems(2) show False by linarith
  qed
  from find_free[OF Suc.prems(1) ne] obtain i b1 where b1: "fnd b = Inr (int i, b1)" "i < size_of b"
    "i \<notin> used b" "ok b1" "size_of b1 = size_of b" "used b1 = insert i (used b)" by blast
  have "card (used b1) = Suc (card (used b))"
    unfolding b1(6) by (rule card_insert_disjoint[OF finite_used b1(3)])
  then have room: "n \<le> size_of b1 - card (used b1)" using Suc.prems(2) b1(5) by linarith
  from Suc.IH[OF b1(4) room] obtain js b2 where b2: "alloc_n fnd n b1 = Inr (map int js, b2)" "ok b2"
    "size_of b2 = size_of b1" "length js = n" "distinct js" "set js \<inter> used b1 = {}"
    "set js \<subseteq> {..<size_of b1}" "used b2 = used b1 \<union> set js" by blast
  have i: "i \<notin> set js" using b1(6) b2(6) by blast
  show ?case
  proof (intro exI[of _ "i # js"] exI[of _ b2] conjI)
    show "alloc_n fnd (Suc n) b = Inr (map int (i # js), b2)" using b1(1) b2(1) by simp
    show "set (i # js) \<inter> used b = {}" using b1(3,6) b2(6) by auto
    show "set (i # js) \<subseteq> {..<size_of b}" using b1(2,5) b2(7) by auto
    show "used b2 = used b \<union> set (i # js)" using b1(6) b2(8) by auto
  qed (use i b1(5) b2(2-5) in simp_all)
qed auto

lemma num_clear_bound: "ok b \<Longrightarrow> \<exists>c. num_clear b = Inr c \<and> 0 \<le> c \<and> c \<le> int (size_of b)"
  by (simp add: num_clear_eq)

end

interpretation bm: bit_allocator bm_ok bm_size bm_set BitMap_Find BitMap_NumClear
  by unfold_locales
    (simp_all add: bm_set_bound BitMap_Find_full BitMap_Find_free BitMap_NumClear_eq)

text \<open>
  C3. The bitmap as a set: in a well-formed bitmap, marking, clearing and testing an index in range
  never fault and act on the set of marked bits as insertion, deletion and membership; an index out
  of range fails the assertion in all three.
\<close>

theorem bitmap_ops_refine_set:
  assumes "bm_ok bm"
  shows "if 0 \<le> which \<and> which < numBits bm
    then BitMap_Test which bm = Inr (nat which \<in> bm_set bm)
      \<and> (\<exists>bm'. BitMap_Mark which bm = Inr bm' \<and> bm_ok bm' \<and> numBits bm' = numBits bm
           \<and> bm_set bm' = insert (nat which) (bm_set bm))
      \<and> (\<exists>bm'. BitMap_Clear which bm = Inr bm' \<and> bm_ok bm' \<and> numBits bm' = numBits bm
           \<and> bm_set bm' = bm_set bm - {nat which})
    else BitMap_Test which bm = Inl AssertFailed \<and> BitMap_Mark which bm = Inl AssertFailed
      \<and> BitMap_Clear which bm = Inl AssertFailed"
proof (cases "0 \<le> which \<and> which < numBits bm")
  case True
  then have i: "nat which < bm_size bm" "int (nat which) = which" by (auto simp: bm_size_def)
  have nb: "bm_ok b \<Longrightarrow> bm_size b = bm_size bm \<Longrightarrow> numBits b = numBits bm" for b
    using assms by (auto simp: bm_ok_def bm_size_def nat_eq_iff)
  show ?thesis
    using True BitMap_Test_eq[OF assms i(1)] BitMap_Mark_spec[OF assms i(1)]
      BitMap_Clear_spec[OF assms i(1)] nb unfolding i(2) by auto
qed (auto simp: BitMap_out_of_range)

text \<open>
  C4. Allocation: \<open>Find\<close> on a well-formed bitmap returns -1 and changes nothing when every bit is
  marked, and otherwise returns the least clear bit and marks exactly that bit; \<open>NumClear\<close> is the
  number of clear bits.
\<close>

theorem bitmap_find_least_clear:
  assumes "bm_ok bm"
  shows "BitMap_NumClear bm = Inr (int (bm_size bm - card (bm_set bm)))
    \<and> (if bm_set bm = {..<bm_size bm} then BitMap_Find bm = Inr (-1, bm)
       else \<exists>bm'. BitMap_Find bm = Inr (int (LEAST i. i \<notin> bm_set bm), bm') \<and> bm_ok bm'
         \<and> bm_size bm' = bm_size bm \<and> bm_set bm' = insert (LEAST i. i \<notin> bm_set bm) (bm_set bm))"
proof (cases "bm_set bm = {..<bm_size bm}")
  case True
  then show ?thesis using assms by (simp add: BitMap_NumClear_eq BitMap_Find_full)
next
  case False
  from BitMap_Find_free[OF assms False] obtain i bm' where
    *: "BitMap_Find bm = Inr (int i, bm')" "i \<notin> bm_set bm" "\<forall>j<i. j \<in> bm_set bm" "bm_ok bm'"
    "bm_size bm' = bm_size bm" "bm_set bm' = insert i (bm_set bm)" by blast
  then have "(LEAST i. i \<notin> bm_set bm) = i" by (intro Least_equality) (auto simp: not_less[symmetric])
  with * False show ?thesis using assms by (simp add: BitMap_NumClear_eq)
qed

definition bm_demo :: BitMap where
  "bm_demo = \<lparr>numBits = 40, numWords = 2, bmap = [4294967295, 5]\<rparr>"

lemma bm_demo_ok: "bm_ok bm_demo"
  by (simp add: bm_ok_def bm_demo_def BitsInWord_def divRoundUp_nonneg)

theorem bitmap_ops_refine_set_witness:
  "bm_ok bm_demo \<and> BitMap_Test 34 bm_demo = Inr True \<and> BitMap_Mark 40 bm_demo = Inl AssertFailed
    \<and> (\<exists>bm'. BitMap_Clear 34 bm_demo = Inr bm' \<and> bm_set bm' = bm_set bm_demo - {34})"
proof -
  have "34 \<in> bm_set bm_demo" by (simp add: bm_set_def bm_bit_def bm_size_def bm_demo_def bit_numeral_rec)
  then show ?thesis
    using bm_demo_ok bitmap_ops_refine_set[OF bm_demo_ok, of 34]
      bitmap_ops_refine_set[OF bm_demo_ok, of 40]
    by (auto simp: bm_demo_def)
qed

theorem bitmap_find_least_clear_witness:
  "bm_ok bm_demo \<and> BitMap_NumClear bm_demo = Inr (int (bm_size bm_demo - card (bm_set bm_demo)))"
  using bm_demo_ok bitmap_find_least_clear[OF bm_demo_ok] by blast

end
