(* ===== verification/Nachos_Machine.thy ===== *)
theory Nachos_Machine
  imports Nachos_Prelude
begin

text \<open>
  machine/machine.h, machine.cc, translate.h, translate.cc: the simulated user-mode hardware, that is
  the register file, the main memory, the translation tables and the trap into the kernel.

  The state is the record \<open>Machine\<close>; every operation is polymorphic in the record's extension, so that
  the kernel's own state travels with the machine through a trap. The kernel's entry point
  \<open>ExceptionHandler\<close>, which the hardware calls, is the argument \<open>eh\<close>. \<open>interrupt->setStatus\<close>, the
  only part of the interrupt simulation the hardware touches, is the field \<open>status\<close>.
\<close>

section \<open>State\<close>

definition PageSize :: nat where "PageSize = 512"
definition NumPhysPages :: nat where "NumPhysPages = 128"
definition MemorySize :: nat where "MemorySize = NumPhysPages * PageSize"
definition TLBSize :: nat where "TLBSize = 4"

lemmas machine_sizes = PageSize_def NumPhysPages_def MemorySize_def TLBSize_def

datatype ExceptionType = NoException | SyscallException | PageFaultException | ReadOnlyException
  | BusErrorException | AddressErrorException | OverflowException | IllegalInstrException | NumExceptionTypes

datatype MachineStatus = IdleMode | SystemMode | UserMode

text \<open>Register numbers.\<close>

definition StackReg :: nat where "StackReg = 29"
definition RetAddrReg :: nat where "RetAddrReg = 31"
definition NumGPRegs :: nat where "NumGPRegs = 32"
definition HiReg :: nat where "HiReg = 32"
definition LoReg :: nat where "LoReg = 33"
definition PCReg :: nat where "PCReg = 34"
definition NextPCReg :: nat where "NextPCReg = 35"
definition PrevPCReg :: nat where "PrevPCReg = 36"
definition LoadReg :: nat where "LoadReg = 37"
definition LoadValueReg :: nat where "LoadValueReg = 38"
definition BadVAddrReg :: nat where "BadVAddrReg = 39"
definition NumTotalRegs :: nat where "NumTotalRegs = 40"

lemmas reg_defs = StackReg_def RetAddrReg_def NumGPRegs_def HiReg_def LoReg_def PCReg_def NextPCReg_def
  PrevPCReg_def LoadReg_def LoadValueReg_def BadVAddrReg_def NumTotalRegs_def

record TranslationEntry =
  virtualPage :: word32
  physicalPage :: word32
  valid :: bool
  readOnly :: bool
  te_use :: bool
  te_dirty :: bool

text \<open>
  Only the indices below \<open>NumTotalRegs\<close> and \<open>MemorySize\<close> of the two arrays exist; accesses whose index
  is not bounded by construction are checked. A table pointer is \<open>None\<close> when it is \<open>NULL\<close>.
\<close>

record Machine =
  registers :: "nat \<Rightarrow> word32"
  mainMemory :: "nat \<Rightarrow> byte"
  tlb :: "TranslationEntry list option"
  pageTable :: "TranslationEntry list option"
  pageTableSize :: nat
  singleStep :: bool
  runUntilTime :: int
  status :: MachineStatus

abbreviation reg :: "'k Machine_scheme \<Rightarrow> nat \<Rightarrow> word32" where
  "reg m i \<equiv> registers m i"

definition set_reg :: "nat \<Rightarrow> word32 \<Rightarrow> 'k Machine_scheme \<Rightarrow> 'k Machine_scheme" where
  "set_reg i v m = m\<lparr>registers := (registers m)(i := v)\<rparr>"

section \<open>Operations\<close>

text \<open>\<open>Machine::Machine\<close> in the configuration without \<open>USE_TLB\<close> that all makefiles build.
  \<open>pageTableSize\<close> and \<open>runUntilTime\<close> are not initialised by it: they are arguments.\<close>

definition Machine_new :: "bool \<Rightarrow> nat \<Rightarrow> int \<Rightarrow> Machine" where
  "Machine_new debug ptsize0 until0 =
     \<lparr>registers = (\<lambda>_. 0), mainMemory = (\<lambda>_. 0), tlb = None, pageTable = None, pageTableSize = ptsize0,
      singleStep = debug, runUntilTime = until0, status = SystemMode\<rparr>"

definition ReadRegister :: "int \<Rightarrow> 'k Machine_scheme \<Rightarrow> word32 res" where
  "ReadRegister num m = bindR (ASSERT (num \<ge> 0 \<and> num < int NumTotalRegs)) (\<lambda>_. Inr (reg m (nat num)))"

definition WriteRegister :: "int \<Rightarrow> word32 \<Rightarrow> 'k Machine_scheme \<Rightarrow> 'k Machine_scheme res" where
  "WriteRegister num v m = bindR (ASSERT (num \<ge> 0 \<and> num < int NumTotalRegs)) (\<lambda>_. Inr (set_reg (nat num) v m))"

text \<open>\<open>Machine::DelayedLoad\<close> (mipssim.cc): apply the pending load, remember the next one. The
  register number comes from a register, so it is checked.\<close>

definition DelayedLoad :: "word32 \<Rightarrow> word32 \<Rightarrow> 'k Machine_scheme \<Rightarrow> 'k Machine_scheme res" where
  "DelayedLoad nextReg nextValue m =
     (let r = sint (reg m LoadReg) in
      if r < 0 \<or> r \<ge> int NumTotalRegs then Inl OutOfBounds
      else Inr (set_reg 0 0 (set_reg LoadValueReg nextValue (set_reg LoadReg nextReg
                 (set_reg (nat r) (reg m LoadValueReg) m)))))"

definition RaiseException ::
  "(ExceptionType \<Rightarrow> 'k Machine_scheme \<Rightarrow> 'k Machine_scheme res) \<Rightarrow> ExceptionType \<Rightarrow> word32 \<Rightarrow>
    'k Machine_scheme \<Rightarrow> 'k Machine_scheme res" where
  "RaiseException eh which badVAddr m =
     bindR (DelayedLoad 0 0 (set_reg BadVAddrReg badVAddr m)) (\<lambda>m.
     bindR (eh which (m\<lparr>status := SystemMode\<rparr>)) (\<lambda>m.
     Inr (m\<lparr>status := UserMode\<rparr>)))"

section \<open>Address translation\<close>

fun tlb_search :: "TranslationEntry list \<Rightarrow> nat \<Rightarrow> nat list \<Rightarrow> nat option res" where
  "tlb_search t vpn [] = Inr None"
| "tlb_search t vpn (i # is) =
     (if i \<ge> length t then Inl OutOfBounds
      else if valid (t ! i) \<and> unat (virtualPage (t ! i)) = vpn then Inr (Some i)
      else tlb_search t vpn is)"

text \<open>The entry for a virtual page: its index in the table in use, or the exception to report.\<close>

definition find_entry :: "nat \<Rightarrow> 'k Machine_scheme \<Rightarrow> (ExceptionType + nat) res" where
  "find_entry vpn m = (case tlb m of
     None \<Rightarrow> (case pageTable m of
         None \<Rightarrow> Inl NullPointer
       | Some pt \<Rightarrow>
           if vpn \<ge> pageTableSize m then Inr (Inl AddressErrorException)
           else if vpn \<ge> length pt then Inl OutOfBounds
           else if \<not> valid (pt ! vpn) then Inr (Inl PageFaultException)
           else Inr (Inr vpn))
   | Some t \<Rightarrow> bindR (tlb_search t vpn [0..<TLBSize]) (\<lambda>r.
       Inr (case r of None \<Rightarrow> Inl PageFaultException | Some i \<Rightarrow> Inr i)))"

definition entry_table :: "'k Machine_scheme \<Rightarrow> TranslationEntry list" where
  "entry_table m = (case tlb m of Some t \<Rightarrow> t | None \<Rightarrow> (case pageTable m of Some pt \<Rightarrow> pt | None \<Rightarrow> []))"

definition put_entry :: "nat \<Rightarrow> TranslationEntry \<Rightarrow> 'k Machine_scheme \<Rightarrow> 'k Machine_scheme" where
  "put_entry i e m = (case tlb m of
     Some t \<Rightarrow> m\<lparr>tlb := Some (t[i := e])\<rparr>
   | None \<Rightarrow> m\<lparr>pageTable := map_option (\<lambda>pt. pt[i := e]) (pageTable m)\<rparr>)"

definition touch_entry :: "bool \<Rightarrow> TranslationEntry \<Rightarrow> TranslationEntry" where
  "touch_entry writing e = e\<lparr>te_use := True, te_dirty := te_dirty e \<or> writing\<rparr>"

definition misaligned :: "word32 \<Rightarrow> nat \<Rightarrow> bool" where
  "misaligned virtAddr sz \<longleftrightarrow> sz = 4 \<and> virtAddr AND 3 \<noteq> 0 \<or> sz = 2 \<and> virtAddr AND 1 \<noteq> 0"

text \<open>The first component of the result is \<open>Inl e\<close> when the code returns the exception \<open>e\<close>, and
  \<open>Inr pa\<close> when it returns \<open>NoException\<close> with \<open>pa\<close> in \<open>*physAddr\<close>.\<close>

definition Translate :: "word32 \<Rightarrow> nat \<Rightarrow> bool \<Rightarrow> 'k Machine_scheme \<Rightarrow>
    ((ExceptionType + nat) \<times> 'k Machine_scheme) res" where
  "Translate virtAddr sz writing m =
    (if misaligned virtAddr sz then Inr (Inl AddressErrorException, m) else
     bindR (ASSERT (tlb m = None \<or> pageTable m = None)) (\<lambda>_.
     bindR (ASSERT (tlb m \<noteq> None \<or> pageTable m \<noteq> None)) (\<lambda>_.
     let vpn = unat virtAddr div PageSize; offset = unat virtAddr mod PageSize in
     bindR (find_entry vpn m) (\<lambda>r. case r of
       Inl e \<Rightarrow> Inr (Inl e, m)
     | Inr i \<Rightarrow>
        let entry = entry_table m ! i; pageFrame = unat (physicalPage entry) in
        if readOnly entry \<and> writing then Inr (Inl ReadOnlyException, m)
        else if pageFrame \<ge> NumPhysPages then Inr (Inl BusErrorException, m)
        else let m' = put_entry i (touch_entry writing entry) m; physAddr = pageFrame * PageSize + offset in
          bindR (ASSERT (physAddr + sz \<le> MemorySize)) (\<lambda>_. Inr (Inr physAddr, m'))))))"

section \<open>Memory access\<close>

text \<open>\<open>WordToHost\<close> and its three siblings are the identity on a little-endian host; the value read
  through an \<open>unsigned short\<close> or \<open>unsigned int\<close> lvalue is \<open>le_word\<close> of the bytes there. A one-byte read goes
  through a (signed) \<open>char\<close> and is sign-extended.\<close>

definition WordToHost :: "word32 \<Rightarrow> word32" where "WordToHost w = w"
definition ShortToHost :: "16 word \<Rightarrow> 16 word" where "ShortToHost w = w"
definition WordToMachine :: "word32 \<Rightarrow> word32" where "WordToMachine w = WordToHost w"
definition ShortToMachine :: "16 word \<Rightarrow> 16 word" where "ShortToMachine w = ShortToHost w"

definition fetch :: "(nat \<Rightarrow> byte) \<Rightarrow> nat \<Rightarrow> nat \<Rightarrow> word32 res" where
  "fetch mem pa sz =
     (if sz = 1 then Inr (scast (mem pa))
      else if sz = 2 then Inr (ucast (ShortToHost (ucast (le_word (block mem pa 2)))))
      else if sz = 4 then Inr (WordToHost (le_word (block mem pa 4)))
      else Inl AssertFailed)"

definition store :: "(nat \<Rightarrow> byte) \<Rightarrow> nat \<Rightarrow> nat \<Rightarrow> word32 \<Rightarrow> (nat \<Rightarrow> byte) res" where
  "store mem pa sz v =
     (if sz = 1 then Inr (mem(pa := ucast (v AND 0xff)))
      else if sz = 2 then Inr (blit mem pa (le_bytes 2 (ucast (ShortToMachine (ucast (v AND 0xffff))))))
      else if sz = 4 then Inr (blit mem pa (le_bytes 4 (WordToMachine v)))
      else Inl AssertFailed)"

text \<open>\<open>None\<close> is the result FALSE: the trap has been taken.\<close>

definition ReadMem ::
  "(ExceptionType \<Rightarrow> 'k Machine_scheme \<Rightarrow> 'k Machine_scheme res) \<Rightarrow> word32 \<Rightarrow> nat \<Rightarrow>
    'k Machine_scheme \<Rightarrow> (word32 option \<times> 'k Machine_scheme) res" where
  "ReadMem eh addr sz m = bindR (Translate addr sz False m) (\<lambda>(r, m). case r of
     Inl e \<Rightarrow> bindR (RaiseException eh e addr m) (\<lambda>m. Inr (None, m))
   | Inr pa \<Rightarrow> bindR (fetch (mainMemory m) pa sz) (\<lambda>v. Inr (Some v, m)))"

definition WriteMem ::
  "(ExceptionType \<Rightarrow> 'k Machine_scheme \<Rightarrow> 'k Machine_scheme res) \<Rightarrow> word32 \<Rightarrow> nat \<Rightarrow> word32 \<Rightarrow>
    'k Machine_scheme \<Rightarrow> (bool \<times> 'k Machine_scheme) res" where
  "WriteMem eh addr sz v m = bindR (Translate addr sz True m) (\<lambda>(r, m). case r of
     Inl e \<Rightarrow> bindR (RaiseException eh e addr m) (\<lambda>m. Inr (False, m))
   | Inr pa \<Rightarrow> bindR (store (mainMemory m) pa sz v) (\<lambda>mem. Inr (True, m\<lparr>mainMemory := mem\<rparr>)))"

section \<open>Well-formed translation state\<close>

text \<open>Exactly one of the two tables is installed, and it has the entries the code will index.\<close>

definition vm_ok :: "'k Machine_scheme \<Rightarrow> bool" where
  "vm_ok m \<longleftrightarrow> (case tlb m of
     None \<Rightarrow> (case pageTable m of None \<Rightarrow> False | Some pt \<Rightarrow> pageTableSize m \<le> length pt)
   | Some t \<Rightarrow> pageTable m = None \<and> length t = TLBSize)"

text \<open>What translation depends on: the tables up to their use and dirty bits.\<close>

definition erase :: "TranslationEntry \<Rightarrow> TranslationEntry" where
  "erase e = e\<lparr>te_use := False, te_dirty := False\<rparr>"

definition map_state :: "'k Machine_scheme \<Rightarrow>
    TranslationEntry list option \<times> TranslationEntry list option \<times> nat" where
  "map_state m = (map_option (map erase) (tlb m), map_option (map erase) (pageTable m), pageTableSize m)"

definition xlate :: "word32 \<Rightarrow> nat \<Rightarrow> bool \<Rightarrow> 'k Machine_scheme \<Rightarrow> (ExceptionType + nat) res" where
  "xlate a sz w m = bindR (Translate a sz w m) (\<lambda>(r, _). Inr r)"

lemma erase_simps [simp]:
  "virtualPage (erase e) = virtualPage e" "physicalPage (erase e) = physicalPage e"
  "valid (erase e) = valid e" "readOnly (erase e) = readOnly e" "erase (touch_entry w e) = erase e"
  by (simp_all add: erase_def touch_entry_def)

lemma erase_eqD:
  assumes "erase e = erase e'"
  shows "virtualPage e = virtualPage e'" "physicalPage e = physicalPage e'" "valid e = valid e'"
    "readOnly e = readOnly e'"
  using assms by (metis erase_simps(1), metis erase_simps(2), metis erase_simps(3), metis erase_simps(4))

lemma map_erase_nth: "map erase t = map erase t' \<Longrightarrow> i < length t \<Longrightarrow> erase (t ! i) = erase (t' ! i)"
  by (metis length_map nth_map)

lemma tlb_search_erase: "tlb_search (map erase t) vpn is = tlb_search t vpn is"
  by (induction "is") auto

lemma tlb_search_found:
  "tlb_search t vpn is = Inr (Some i) \<Longrightarrow> i < length t \<and> valid (t ! i) \<and> unat (virtualPage (t ! i)) = vpn"
  by (induction "is") (auto split: if_splits)

lemma tlb_search_total: "\<forall>i\<in>set is. i < length t \<Longrightarrow> \<exists>r. tlb_search t vpn is = Inr r"
  by (induction "is") auto

lemma find_entry_map_state:
  "find_entry vpn m = (case map_state m of
     (None, None, n) \<Rightarrow> Inl NullPointer
   | (None, Some pt, n) \<Rightarrow>
       if vpn \<ge> n then Inr (Inl AddressErrorException)
       else if vpn \<ge> length pt then Inl OutOfBounds
       else if \<not> valid (pt ! vpn) then Inr (Inl PageFaultException) else Inr (Inr vpn)
   | (Some t, _, _) \<Rightarrow> bindR (tlb_search t vpn [0..<TLBSize]) (\<lambda>r.
       Inr (case r of None \<Rightarrow> Inl PageFaultException | Some i \<Rightarrow> Inr i)))"
  by (cases "tlb m"; cases "pageTable m") (simp_all add: find_entry_def map_state_def tlb_search_erase)

lemma find_entry_cong: "map_state m = map_state m' \<Longrightarrow> find_entry vpn m = find_entry vpn m'"
  by (simp add: find_entry_map_state)

lemma find_entry_found:
  assumes "find_entry vpn m = Inr (Inr i)"
  shows "i < length (entry_table m)" and "valid (entry_table m ! i)"
    and "case tlb m of None \<Rightarrow> i = vpn \<and> vpn < pageTableSize m
      | Some _ \<Rightarrow> unat (virtualPage (entry_table m ! i)) = vpn"
  using assms tlb_search_found
  by (auto simp: find_entry_def entry_table_def bindR_eq_Inr split: option.splits if_splits)

lemma find_entry_total: "vm_ok m \<Longrightarrow> \<exists>r. find_entry vpn m = Inr r"
  using tlb_search_total[of "[0..<TLBSize]"]
  by (fastforce simp: find_entry_def vm_ok_def bindR_eq_Inr split: option.splits)

lemma find_entry_exn:
  "find_entry vpn m = Inr (Inl e) \<Longrightarrow> e = AddressErrorException \<or> e = PageFaultException"
  by (auto simp: find_entry_def bindR_eq_Inr split: option.splits if_splits)

lemma put_touch_entry_map_state [simp]:
  "map_state (put_entry i (touch_entry w (entry_table m ! i)) m) = map_state m"
  by (auto simp: map_state_def put_entry_def entry_table_def map_update list_update_same_conv
      split: option.splits) (metis list_update_beyond list_update_id map_update erase_simps(5) not_le nth_map length_map)+

lemma put_entry_frame [simp]:
  "registers (put_entry i e m) = registers m" "mainMemory (put_entry i e m) = mainMemory m"
  "status (put_entry i e m) = status m" "pageTableSize (put_entry i e m) = pageTableSize m"
  "Machine.more (put_entry i e m) = Machine.more m"
  by (auto simp: put_entry_def split: option.splits)

lemma vm_ok_put_entry [simp]: "vm_ok (put_entry i e m) = vm_ok m"
  by (auto simp: vm_ok_def put_entry_def split: option.splits)

lemma entry_table_put [simp]: "entry_table (put_entry i e m) = (entry_table m)[i := e]"
  by (auto simp: entry_table_def put_entry_def split: option.splits)

lemma frame_fits:
  assumes "f < NumPhysPages" and "\<not> misaligned a sz" and "sz \<in> {1, 2, 4}"
  shows "f * PageSize + unat a mod PageSize + sz \<le> MemorySize"
    and "unat a mod PageSize + sz \<le> PageSize"
proof -
  have "unat a mod 4 = 0" if "sz = 4"
  proof -
    have "a AND 3 = take_bit 2 a" by (simp add: take_bit_eq_mask mask_eq_exp_minus_1)
    then show ?thesis using assms(2) that
      by (auto simp: misaligned_def unsigned_take_bit_eq take_bit_eq_mod unat_mod_distrib simp flip: unat_eq_0)
  qed
  moreover have "unat a mod 2 = 0" if "sz = 2"
  proof -
    have "a AND 1 = take_bit 1 a" by (simp add: take_bit_eq_mask mask_eq_exp_minus_1)
    then show ?thesis using assms(2) that
      by (auto simp: misaligned_def unsigned_take_bit_eq take_bit_eq_mod unat_mod_distrib simp flip: unat_eq_0)
  qed
  moreover have "x + 4 \<le> 512" if "x < 512" "x mod 4 = 0" for x :: nat using that by presburger
  moreover have "x + 2 \<le> 512" if "x < 512" "x mod 2 = 0" for x :: nat using that by presburger
  moreover have "unat a mod 512 mod 4 = unat a mod 4" "unat a mod 512 mod 2 = unat a mod 2"
    by (simp_all add: mod_mod_cancel)
  moreover have "unat a mod 512 < 512" by simp
  ultimately show *: "unat a mod PageSize + sz \<le> PageSize"
    using assms(3) unfolding PageSize_def by (elim insertE emptyE) simp_all
  have "(f + 1) * PageSize \<le> NumPhysPages * PageSize" using assms(1) by (intro mult_right_mono) auto
  with * show "f * PageSize + unat a mod PageSize + sz \<le> MemorySize"
    by (simp add: MemorySize_def)
qed

lemma Translate_cases:
  assumes "vm_ok m" and "sz \<in> {1, 2, 4}"
  obtains (exn) e where "Translate a sz w m = Inr (Inl e, m)"
      "e \<in> {AddressErrorException, PageFaultException, ReadOnlyException, BusErrorException}"
      "misaligned a sz \<longleftrightarrow> e = AddressErrorException \<and> misaligned a sz"
  | (ok) i where
      "Translate a sz w m = Inr (Inr (unat (physicalPage (entry_table m ! i)) * PageSize + unat a mod PageSize),
         put_entry i (touch_entry w (entry_table m ! i)) m)"
      "\<not> misaligned a sz" "find_entry (unat a div PageSize) m = Inr (Inr i)"
      "unat (physicalPage (entry_table m ! i)) < NumPhysPages" "\<not> (readOnly (entry_table m ! i) \<and> w)"
proof (cases "misaligned a sz")
  case True
  then show thesis by (intro exn) (simp_all add: Translate_def)
next
  case False
  have one: "tlb m = None \<or> pageTable m = None" "tlb m \<noteq> None \<or> pageTable m \<noteq> None"
    using assms(1) by (auto simp: vm_ok_def split: option.splits)
  from find_entry_total[OF assms(1)] obtain r where r: "find_entry (unat a div PageSize) m = Inr r" by blast
  show thesis
  proof (cases r)
    case (Inl e)
    then show thesis using False one r find_entry_exn[of _ m e] by (intro exn[of e]) (auto simp: Translate_def Let_def)
  next
    case (Inr i)
    let ?e = "entry_table m ! i"
    consider (ro) "readOnly ?e \<and> w" | (bus) "\<not> (readOnly ?e \<and> w)" "NumPhysPages \<le> unat (physicalPage ?e)"
      | (fine) "\<not> (readOnly ?e \<and> w)" "unat (physicalPage ?e) < NumPhysPages" by linarith
    then show thesis
    proof cases
      case fine
      then show thesis using False one r Inr frame_fits(1)[OF fine(2) False assms(2)]
        by (intro ok[of i]) (auto simp: Translate_def Let_def)
    qed (use False one r Inr in \<open>auto simp: Translate_def Let_def intro: exn\<close>)
  qed
qed

lemma xlate_cong:
  assumes "map_state m = map_state m'"
  shows "xlate a sz w m = xlate a sz w m'"
proof -
  let ?vpn = "unat a div PageSize"
  have fe: "find_entry ?vpn m = find_entry ?vpn m'" by (rule find_entry_cong[OF assms])
  have none: "tlb m = None \<longleftrightarrow> tlb m' = None" "pageTable m = None \<longleftrightarrow> pageTable m' = None"
    using assms by (auto simp: map_state_def)
  have "map erase (entry_table m) = map erase (entry_table m')"
    using assms by (auto simp: map_state_def entry_table_def split: option.splits)
  then have e: "erase (entry_table m ! i) = erase (entry_table m' ! i)" if "find_entry ?vpn m = Inr (Inr i)" for i
    using map_erase_nth find_entry_found(1)[OF that] by blast
  show ?thesis
  proof (cases "find_entry ?vpn m")
    case (Inr r)
    then show ?thesis
      using fe none e erase_eqD(2,4)[OF e]
      by (cases r) (auto simp: xlate_def Translate_def bindR_ASSERT Let_def)
  qed (use fe none in \<open>auto simp: xlate_def Translate_def bindR_ASSERT Let_def\<close>)
qed

lemma Translate_state:
  assumes "Translate a sz w m = Inr (r, m')"
  shows "m' = m \<or> (\<exists>i. m' = put_entry i (touch_entry w (entry_table m ! i)) m)"
proof (cases "find_entry (unat a div PageSize) m")
  case (Inr q)
  with assms show ?thesis
    by (cases q) (auto simp: Translate_def bindR_ASSERT Let_def split: if_splits)
qed (use assms in \<open>auto simp: Translate_def bindR_ASSERT Let_def split: if_splits\<close>)

lemma Translate_frame:
  assumes "Translate a sz w m = Inr (r, m')"
  shows "map_state m' = map_state m" "registers m' = registers m" "mainMemory m' = mainMemory m"
    "vm_ok m' = vm_ok m" "status m' = status m" "Machine.more m' = Machine.more m"
  using Translate_state[OF assms] by auto

text \<open>
  C5. Translation: with a well-formed table every aligned or unaligned access of 1, 2 or 4 bytes
  translates without failing an assertion. An exception leaves the machine untouched. A translated
  access is aligned, stays inside one physical frame below \<open>NumPhysPages\<close>, keeps the offset in the page,
  uses a valid entry that permits it, and changes only that entry, whose use bit is then set and
  whose dirty bit is set exactly if it was or the access writes.
\<close>

theorem translate_sound:
  assumes "vm_ok m" and "sz \<in> {1, 2, 4}"
  shows "\<exists>r m'. Translate a sz w m = Inr (r, m') \<and> (case r of
      Inl e \<Rightarrow> m' = m \<and> e \<in> {AddressErrorException, PageFaultException, ReadOnlyException, BusErrorException}
        \<and> (misaligned a sz \<longrightarrow> e = AddressErrorException)
    | Inr pa \<Rightarrow> \<not> misaligned a sz \<and> pa mod PageSize = unat a mod PageSize
        \<and> pa mod PageSize + sz \<le> PageSize \<and> pa + sz \<le> MemorySize
        \<and> (\<exists>i < length (entry_table m). let e = entry_table m ! i; e' = entry_table m' ! i in
             valid e \<and> (w \<longrightarrow> \<not> readOnly e) \<and> unat (physicalPage e) = pa div PageSize
             \<and> (if tlb m = None then i else unat (virtualPage e)) = unat a div PageSize
             \<and> m' = put_entry i e' m \<and> e' = e\<lparr>te_use := True, te_dirty := te_dirty e \<or> w\<rparr>))"
proof (cases rule: Translate_cases[OF assms, of a w, case_names exn ok])
  case (exn e)
  then show ?thesis by auto
next
  case (ok i)
  let ?e = "entry_table m ! i"
  let ?pa = "unat (physicalPage ?e) * PageSize + unat a mod PageSize"
  have pa: "?pa mod PageSize = unat a mod PageSize" "?pa div PageSize = unat (physicalPage ?e)"
    by (simp_all add: PageSize_def)
  have vpn: "(if tlb m = None then i else unat (virtualPage ?e)) = unat a div PageSize"
    using find_entry_found(3)[OF ok(3)] by (auto split: option.splits)
  show ?thesis
    using ok frame_fits[OF ok(4,2) assms(2)] pa vpn find_entry_found(1,2)[OF ok(3)]
    by (auto simp: Let_def touch_entry_def)
qed

section \<open>Memory round trips\<close>

text \<open>What a read of \<open>sz\<close> bytes yields after a write of \<open>v\<close>.\<close>

definition read_back :: "nat \<Rightarrow> word32 \<Rightarrow> word32" where
  "read_back sz v = (if sz = 1 then scast (ucast v :: byte) else if sz = 2 then v AND 0xffff else v)"

lemma block_blit_le [simp]: "block (blit mem pa (le_bytes n v)) pa n = le_bytes n v"
  using block_blit_same[of mem pa "le_bytes n v"] by simp

lemma mask_16: "(0xffff :: word32) = mask 16" and mask_8: "(0xff :: word32) = mask 8"
  by (simp_all add: mask_eq_exp_minus_1)

lemma fetch_store:
  assumes "sz \<in> {1, 2, 4}"
  shows "\<exists>mem'. store mem pa sz v = Inr mem' \<and> fetch mem' pa sz = Inr (read_back sz v)
     \<and> (\<forall>i. i < pa \<or> pa + sz \<le> i \<longrightarrow> mem' i = mem i)"
proof -
  have "(ucast (v AND 0xff) :: byte) = ucast v"
    by (rule bit_word_eqI) (auto simp: mask_8 bit_simps)
  moreover have "ucast (ucast (le_word (le_bytes 2 (ucast (ucast (v AND 0xffff) :: 16 word)))) :: 16 word) = v AND 0xffff"
    by (rule bit_word_eqI) (auto simp: mask_16 bit_simps le_word_le_bytes)
  ultimately show ?thesis using assms
    by (auto simp: store_def fetch_def read_back_def blit_outside ShortToHost_def ShortToMachine_def
        WordToHost_def WordToMachine_def)
qed

lemma xlate_read_weaker:
  assumes "xlate a sz True m = Inr (Inr pa)"
  shows "xlate a sz False m = Inr (Inr pa)"
proof (cases "find_entry (unat a div PageSize) m")
  case (Inr q)
  with assms show ?thesis
    by (cases q) (auto simp: xlate_def Translate_def bindR_ASSERT Let_def split: if_splits)
qed (use assms in \<open>auto simp: xlate_def Translate_def bindR_ASSERT Let_def split: if_splits\<close>)

lemma xlate_Inr: "xlate a sz w m = Inr r \<longleftrightarrow> (\<exists>m'. Translate a sz w m = Inr (r, m'))"
  by (auto simp: xlate_def bindR_eq_Inr)

lemma map_state_mem [simp]: "map_state (m\<lparr>mainMemory := mem\<rparr>) = map_state m"
  by (simp add: map_state_def)

lemma WriteMem_True:
  assumes "WriteMem eh a sz v m = Inr (True, m')"
  obtains pa m1 mem where "Translate a sz True m = Inr (Inr pa, m1)" "store (mainMemory m) pa sz v = Inr mem"
    "m' = m1\<lparr>mainMemory := mem\<rparr>"
proof -
  from assms obtain r m1 where t: "Translate a sz True m = Inr (r, m1)"
    by (auto simp: WriteMem_def bindR_eq_Inr)
  show thesis
  proof (cases r)
    case (Inr pa)
    then show thesis using assms t that Translate_frame(3)[OF t]
      by (auto simp: WriteMem_def bindR_eq_Inr)
  qed (use assms t in \<open>auto simp: WriteMem_def bindR_eq_Inr\<close>)
qed

text \<open>
  C6. Reading what was written: after a write of 1, 2 or 4 bytes that did not trap, a read of the same
  address and size does not trap and yields the value written, cut to its size (sign-extended for
  one byte, as \<open>mainMemory\<close> is an array of \<open>char\<close>); the write changed no byte outside the \<open>sz\<close> bytes at
  the translated address, no register and no mapping.
\<close>

theorem read_after_write:
  assumes "WriteMem eh a sz v m = Inr (True, m')" and "sz \<in> {1, 2, 4}"
  shows "(\<exists>m''. ReadMem eh' a sz m' = Inr (Some (read_back sz v), m''))
    \<and> (\<exists>pa. xlate a sz True m = Inr (Inr pa)
         \<and> (\<forall>i. i < pa \<or> pa + sz \<le> i \<longrightarrow> mainMemory m' i = mainMemory m i))
    \<and> registers m' = registers m \<and> map_state m' = map_state m"
proof -
  from assms(1) obtain pa m1 mem where t: "Translate a sz True m = Inr (Inr pa, m1)"
    and s: "store (mainMemory m) pa sz v = Inr mem" and m': "m' = m1\<lparr>mainMemory := mem\<rparr>"
    by (rule WriteMem_True)
  note fr = Translate_frame[OF t]
  have "xlate a sz True m = Inr (Inr pa)" using t by (auto simp: xlate_Inr)
  moreover have "map_state m' = map_state m" using m' fr by simp
  ultimately have "xlate a sz False m' = Inr (Inr pa)"
    using xlate_read_weaker xlate_cong by metis
  then obtain m2 where r: "Translate a sz False m' = Inr (Inr pa, m2)" by (auto simp: xlate_Inr)
  have "ReadMem eh' a sz m' = Inr (Some (read_back sz v), m2)"
    using r s m' Translate_frame(3)[OF r] fetch_store[OF assms(2), of "mainMemory m" pa v]
    by (simp add: ReadMem_def)
  moreover have "mainMemory m' i = mainMemory m i" if "i < pa \<or> pa + sz \<le> i" for i
    using that s m' fetch_store[OF assms(2), of "mainMemory m" pa v] by auto
  ultimately show ?thesis
    using \<open>xlate a sz True m = Inr (Inr pa)\<close> \<open>map_state m' = map_state m\<close> m' fr by auto
qed

definition demo_entry :: "word32 \<Rightarrow> bool \<Rightarrow> TranslationEntry" where
  "demo_entry f ro = \<lparr>virtualPage = 0, physicalPage = f, valid = True, readOnly = ro, te_use = False, te_dirty = False\<rparr>"

definition demo_machine :: Machine where
  "demo_machine = (Machine_new False 2 0)\<lparr>pageTable := Some [demo_entry 5 True, demo_entry 3 False]\<rparr>"

lemma demo_machine_ok: "vm_ok demo_machine"
  by (simp add: vm_ok_def demo_machine_def Machine_new_def)

theorem translate_sound_witness:
  "vm_ok demo_machine \<and> (4 :: nat) \<in> {1, 2, 4} \<and> (\<exists>r m'. Translate 516 4 True demo_machine = Inr (r, m'))"
  using translate_sound[OF demo_machine_ok, of 4 516 True] demo_machine_ok by blast

theorem read_after_write_witness:
  "\<exists>m'. WriteMem (\<lambda>_ m. Inr m) 516 2 0x12345 demo_machine = Inr (True, m')
     \<and> (\<exists>m''. ReadMem (\<lambda>_ m. Inr m) 516 2 m' = Inr (Some 0x2345, m''))"
proof -
  have "\<exists>m'. WriteMem (\<lambda>_ m. Inr m) 516 2 0x12345 demo_machine = Inr (True, m')"
    by (simp add: WriteMem_def Translate_def misaligned_def demo_machine_def demo_entry_def Machine_new_def
        find_entry_def entry_table_def machine_sizes store_def Let_def)
  then obtain m' where m': "WriteMem (\<lambda>_ m. Inr m) 516 2 0x12345 demo_machine = Inr (True, m')" by blast
  from read_after_write[OF this, of "\<lambda>_ m. Inr m"] have "\<exists>m''. ReadMem (\<lambda>_ m. Inr m) 516 2 m' = Inr (Some 0x2345, m'')"
    by (simp add: read_back_def)
  with m' show ?thesis by blast
qed

end
