(* ===== verification/Nachos_Mips.thy ===== *)
theory Nachos_Mips
  imports Nachos_Machine
begin

text \<open>
  machine/mipssim.h and mipssim.cc: decoding and executing one user instruction of the simulated MIPS
  processor, with its branch delay slot (\<open>NextPCReg\<close>) and load delay slot (\<open>LoadReg\<close>, \<open>LoadValueReg\<close>).

  \<open>OneInstruction\<close> is one C++ function with a switch over the operation codes; here each run of cases
  is a definition of its own, in the order of the source, and \<open>execute\<close> is the switch. A case either
  ends in \<open>break\<close> (\<open>Done\<close>, with the variables the epilogue uses) or returns because a trap was taken
  (\<open>Trapped\<close>). Debug output is not modelled.
\<close>

section \<open>Decoding\<close>

text \<open>The operation codes, with the two pseudo codes of the decoding table.\<close>

datatype (plugins only: code) OpCode = OP_ADD | OP_ADDI | OP_ADDIU | OP_ADDU | OP_AND | OP_ANDI | OP_BEQ | OP_BGEZ
  | OP_BGEZAL | OP_BGTZ | OP_BLEZ | OP_BLTZ | OP_BLTZAL | OP_BNE | OP_DIV | OP_DIVU | OP_J
  | OP_JAL | OP_JALR | OP_JR | OP_LB | OP_LBU | OP_LH | OP_LHU | OP_LUI | OP_LW | OP_LWL | OP_LWR
  | OP_MFHI | OP_MFLO | OP_MTHI | OP_MTLO | OP_MULT | OP_MULTU | OP_NOR | OP_OR | OP_ORI | OP_RFE
  | OP_SB | OP_SH | OP_SLL | OP_SLLV | OP_SLT | OP_SLTI | OP_SLTIU | OP_SLTU | OP_SRA | OP_SRAV
  | OP_SRL | OP_SRLV | OP_SUB | OP_SUBU | OP_SW | OP_SWL | OP_SWR | OP_XOR | OP_XORI | OP_SYSCALL
  | OP_UNIMP | OP_RES | SPECIAL | BCOND

datatype OpFormat = IFMT | JFMT | RFMT

definition opTable :: "(OpCode \<times> OpFormat) list" where
  "opTable = [
   (SPECIAL, RFMT), (BCOND, IFMT), (OP_J, JFMT), (OP_JAL, JFMT),
   (OP_BEQ, IFMT), (OP_BNE, IFMT), (OP_BLEZ, IFMT), (OP_BGTZ, IFMT),
   (OP_ADDI, IFMT), (OP_ADDIU, IFMT), (OP_SLTI, IFMT), (OP_SLTIU, IFMT),
   (OP_ANDI, IFMT), (OP_ORI, IFMT), (OP_XORI, IFMT), (OP_LUI, IFMT),
   (OP_UNIMP, IFMT), (OP_UNIMP, IFMT), (OP_UNIMP, IFMT), (OP_UNIMP, IFMT),
   (OP_RES, IFMT), (OP_RES, IFMT), (OP_RES, IFMT), (OP_RES, IFMT),
   (OP_RES, IFMT), (OP_RES, IFMT), (OP_RES, IFMT), (OP_RES, IFMT),
   (OP_RES, IFMT), (OP_RES, IFMT), (OP_RES, IFMT), (OP_RES, IFMT),
   (OP_LB, IFMT), (OP_LH, IFMT), (OP_LWL, IFMT), (OP_LW, IFMT),
   (OP_LBU, IFMT), (OP_LHU, IFMT), (OP_LWR, IFMT), (OP_RES, IFMT),
   (OP_SB, IFMT), (OP_SH, IFMT), (OP_SWL, IFMT), (OP_SW, IFMT),
   (OP_RES, IFMT), (OP_RES, IFMT), (OP_SWR, IFMT), (OP_RES, IFMT),
   (OP_UNIMP, IFMT), (OP_UNIMP, IFMT), (OP_UNIMP, IFMT), (OP_UNIMP, IFMT),
   (OP_RES, IFMT), (OP_RES, IFMT), (OP_RES, IFMT), (OP_RES, IFMT),
   (OP_UNIMP, IFMT), (OP_UNIMP, IFMT), (OP_UNIMP, IFMT), (OP_UNIMP, IFMT),
   (OP_RES, IFMT), (OP_RES, IFMT), (OP_RES, IFMT), (OP_RES, IFMT)]"

definition specialTable :: "OpCode list" where
  "specialTable = [
   OP_SLL, OP_RES, OP_SRL, OP_SRA, OP_SLLV, OP_RES, OP_SRLV, OP_SRAV,
   OP_JR, OP_JALR, OP_RES, OP_RES, OP_SYSCALL, OP_UNIMP, OP_RES, OP_RES,
   OP_MFHI, OP_MTHI, OP_MFLO, OP_MTLO, OP_RES, OP_RES, OP_RES, OP_RES,
   OP_MULT, OP_MULTU, OP_DIV, OP_DIVU, OP_RES, OP_RES, OP_RES, OP_RES,
   OP_ADD, OP_ADDU, OP_SUB, OP_SUBU, OP_AND, OP_OR, OP_XOR, OP_NOR,
   OP_RES, OP_RES, OP_SLT, OP_SLTU, OP_RES, OP_RES, OP_RES, OP_RES,
   OP_RES, OP_RES, OP_RES, OP_RES, OP_RES, OP_RES, OP_RES, OP_RES,
   OP_RES, OP_RES, OP_RES, OP_RES, OP_RES, OP_RES, OP_RES, OP_RES]"

record Instruction =
  ivalue :: word32
  opCode :: OpCode
  rs :: nat
  rt :: nat
  rd :: nat
  extra :: word32

definition field :: "nat \<Rightarrow> word32 \<Rightarrow> word32 \<Rightarrow> nat" where
  "field k msk w = unat (drop_bit k w AND msk)"

definition decode_extra :: "OpFormat \<Rightarrow> word32 \<Rightarrow> word32" where
  "decode_extra fmt v = (case fmt of
     IFMT \<Rightarrow> (let e = v AND 0xffff in if e AND 0x8000 \<noteq> 0 then e OR 0xffff0000 else e)
   | RFMT \<Rightarrow> drop_bit 6 v AND 0x1f
   | JFMT \<Rightarrow> v AND 0x3ffffff)"

definition decode_op :: "OpCode \<Rightarrow> word32 \<Rightarrow> OpCode" where
  "decode_op op v =
     (if op = SPECIAL then specialTable ! field 0 0x3f v
      else if op = BCOND then
        (let i = v AND 0x1f0000 in
         if i = 0 then OP_BLTZ
         else if i = 0x10000 then OP_BGEZ
         else if i = 0x100000 then OP_BLTZAL
         else if i = 0x110000 then OP_BGEZAL
         else OP_UNIMP)
      else op)"

definition Decode :: "word32 \<Rightarrow> Instruction" where
  "Decode v = (let (op, fmt) = opTable ! field 26 0x3f v in
     \<lparr>ivalue = v, opCode = decode_op op v, rs = field 21 0x1f v, rt = field 16 0x1f v, rd = field 11 0x1f v,
      extra = decode_extra fmt v\<rparr>)"

definition IndexToAddr :: "word32 \<Rightarrow> word32" where
  "IndexToAddr x = push_bit 2 x"

definition SIGN_BIT :: word32 where "SIGN_BIT = 0x80000000"
definition R31 :: nat where "R31 = 31"

section \<open>Multiplication\<close>

text \<open>The loop state is \<open>(a, bLo, bHi, lo, hi)\<close>, the counter \<open>n\<close> the iterations left.\<close>

fun mult_loop :: "nat \<Rightarrow> word32 \<Rightarrow> word32 \<Rightarrow> word32 \<Rightarrow> word32 \<Rightarrow> word32 \<Rightarrow> word32 \<times> word32" where
  "mult_loop 0 a bLo bHi lo hi = (hi, lo)"
| "mult_loop (Suc n) a bLo bHi lo hi =
    (let (lo', hi') = (if a AND 1 \<noteq> 0
           then (let l = lo + bLo in (l, (if l < bLo then hi + 1 else hi) + bHi)) else (lo, hi))
     in if a AND 1 \<noteq> 0 \<and> a AND 0xfffffffe = 0 then (hi', lo')
        else mult_loop n (signed_drop_bit 1 a) (push_bit 1 bLo)
               (if bLo AND 0x80000000 \<noteq> 0 then push_bit 1 bHi OR 1 else push_bit 1 bHi) lo' hi')"

text \<open>The pair \<open>(*hiPtr, *loPtr)\<close>.\<close>

definition Mult :: "word32 \<Rightarrow> word32 \<Rightarrow> bool \<Rightarrow> word32 \<times> word32" where
  "Mult a b signedArith =
    (if a = 0 \<or> b = 0 then (0, 0) else
     let nega = signedArith \<and> sint a < 0; negb = signedArith \<and> sint b < 0;
         a' = (if nega then - a else a); b' = (if negb then - b else b);
         (hi, lo) = mult_loop 32 a' b' 0 0 0
     in if nega \<noteq> negb
        then (let lo' = NOT lo + 1 in (if lo' = 0 then NOT hi + 1 else NOT hi, lo'))
        else (hi, lo))"

section \<open>Execution\<close>

datatype 'm exec = Trapped 'm | Done 'm word32 word32 word32

type_synonym 'k handler = "ExceptionType \<Rightarrow> 'k Machine_scheme \<Rightarrow> 'k Machine_scheme res"

text \<open>\<open>RaiseException(e, addr); return;\<close>\<close>

definition trap :: "'k handler \<Rightarrow> ExceptionType \<Rightarrow> word32 \<Rightarrow> 'k Machine_scheme \<Rightarrow> 'k Machine_scheme exec res" where
  "trap eh e addr m = bindR (RaiseException eh e addr m) (\<lambda>m. Inr (Trapped m))"

text \<open>\<open>break\<close> with the default \<open>pcAfter\<close> and no delayed load, with a branch target, and with a load.\<close>

definition pcAfter0 :: "'k Machine_scheme \<Rightarrow> word32" where
  "pcAfter0 m = reg m NextPCReg + 4"

definition brk_next :: "'k Machine_scheme \<Rightarrow> 'k Machine_scheme \<Rightarrow> 'k Machine_scheme exec res" where
  "brk_next m0 m = Inr (Done m (pcAfter0 m0) 0 0)"

definition brk_branch :: "bool \<Rightarrow> Instruction \<Rightarrow> 'k Machine_scheme \<Rightarrow> 'k Machine_scheme \<Rightarrow> 'k Machine_scheme exec res" where
  "brk_branch taken ins m0 m = Inr (Done m
     (if taken then reg m NextPCReg + IndexToAddr (extra ins) else pcAfter0 m0) 0 0)"

definition brk_load :: "nat \<Rightarrow> word32 \<Rightarrow> 'k Machine_scheme \<Rightarrow> 'k Machine_scheme \<Rightarrow> 'k Machine_scheme exec res" where
  "brk_load r v m0 m = Inr (Done m (pcAfter0 m0) (of_nat r) v)"

definition exec_add_and :: "'k handler \<Rightarrow> Instruction \<Rightarrow> 'k Machine_scheme \<Rightarrow> 'k Machine_scheme exec res" where
  "exec_add_and eh ins m =
    (let a = reg m (rs ins); b = reg m (rt ins); ex = extra ins in case opCode ins of
       OP_ADD \<Rightarrow> let sum = a + b in
         if (a XOR b) AND SIGN_BIT = 0 \<and> (a XOR sum) AND SIGN_BIT \<noteq> 0 then trap eh OverflowException 0 m
         else brk_next m (set_reg (rd ins) sum m)
     | OP_ADDI \<Rightarrow> let sum = a + ex in
         if (a XOR ex) AND SIGN_BIT = 0 \<and> (ex XOR sum) AND SIGN_BIT \<noteq> 0 then trap eh OverflowException 0 m
         else brk_next m (set_reg (rt ins) sum m)
     | OP_ADDIU \<Rightarrow> brk_next m (set_reg (rt ins) (a + ex) m)
     | OP_ADDU \<Rightarrow> brk_next m (set_reg (rd ins) (a + b) m)
     | OP_AND \<Rightarrow> brk_next m (set_reg (rd ins) (a AND b) m)
     | OP_ANDI \<Rightarrow> brk_next m (set_reg (rt ins) (a AND (ex AND 0xffff)) m)
     | _ \<Rightarrow> Inl AssertFailed)"

text \<open>The two linking branches write R31 before they test \<open>rs\<close>, as the fall-through of the source does.\<close>

definition exec_branch :: "Instruction \<Rightarrow> 'k Machine_scheme \<Rightarrow> 'k Machine_scheme exec res" where
  "exec_branch ins m =
    (let a = reg m (rs ins); b = reg m (rt ins); ml = set_reg R31 (reg m NextPCReg + 4) m in case opCode ins of
       OP_BEQ \<Rightarrow> brk_branch (a = b) ins m m
     | OP_BGEZAL \<Rightarrow> brk_branch (reg ml (rs ins) AND SIGN_BIT = 0) ins m ml
     | OP_BGEZ \<Rightarrow> brk_branch (a AND SIGN_BIT = 0) ins m m
     | OP_BGTZ \<Rightarrow> brk_branch (sint a > 0) ins m m
     | OP_BLEZ \<Rightarrow> brk_branch (sint a \<le> 0) ins m m
     | OP_BLTZAL \<Rightarrow> brk_branch (reg ml (rs ins) AND SIGN_BIT \<noteq> 0) ins m ml
     | OP_BLTZ \<Rightarrow> brk_branch (a AND SIGN_BIT \<noteq> 0) ins m m
     | OP_BNE \<Rightarrow> brk_branch (a \<noteq> b) ins m m
     | _ \<Rightarrow> Inl AssertFailed)"

text \<open>Signed division of the least integer by -1 is a hardware trap on the host.\<close>

definition exec_div :: "Instruction \<Rightarrow> 'k Machine_scheme \<Rightarrow> 'k Machine_scheme exec res" where
  "exec_div ins m =
    (let a = reg m (rs ins); b = reg m (rt ins) in case opCode ins of
       OP_DIV \<Rightarrow>
         if b = 0 then brk_next m (set_reg HiReg 0 (set_reg LoReg 0 m))
         else if a = SIGN_BIT \<and> b = - 1 then Inl DivideTrap
         else brk_next m (set_reg HiReg (word_of_int (sint a smod sint b))
                (set_reg LoReg (word_of_int (sint a sdiv sint b)) m))
     | OP_DIVU \<Rightarrow>
         if b = 0 then brk_next m (set_reg HiReg 0 (set_reg LoReg 0 m))
         else brk_next m (set_reg HiReg (a mod b) (set_reg LoReg (a div b) m))
     | _ \<Rightarrow> Inl AssertFailed)"

definition exec_jump :: "Instruction \<Rightarrow> 'k Machine_scheme \<Rightarrow> 'k Machine_scheme exec res" where
  "exec_jump ins m =
    (let link = reg m NextPCReg + 4;
         target = (pcAfter0 m AND 0xf0000000) OR IndexToAddr (extra ins) in case opCode ins of
       OP_JAL \<Rightarrow> Inr (Done (set_reg R31 link m) target 0 0)
     | OP_J \<Rightarrow> Inr (Done m target 0 0)
     | OP_JALR \<Rightarrow> let m1 = set_reg (rd ins) link m in Inr (Done m1 (reg m1 (rs ins)) 0 0)
     | OP_JR \<Rightarrow> Inr (Done m (reg m (rs ins)) 0 0)
     | _ \<Rightarrow> Inl AssertFailed)"


definition exec_load :: "'k handler \<Rightarrow> Instruction \<Rightarrow> 'k Machine_scheme \<Rightarrow> 'k Machine_scheme exec res" where
  "exec_load eh ins m =
    (let tmp = reg m (rs ins) + extra ins; op = opCode ins in
     if op = OP_LB \<or> op = OP_LBU then
       bindR (ReadMem eh tmp 1 m) (\<lambda>(r, m1). case r of None \<Rightarrow> Inr (Trapped m1) | Some value \<Rightarrow>
         brk_load (rt ins) (if value AND 0x80 \<noteq> 0 \<and> op = OP_LB then value OR 0xffffff00 else value AND 0xff) m m1)
     else if op = OP_LH \<or> op = OP_LHU then
       if tmp AND 1 \<noteq> 0 then trap eh AddressErrorException tmp m else
       bindR (ReadMem eh tmp 2 m) (\<lambda>(r, m1). case r of None \<Rightarrow> Inr (Trapped m1) | Some value \<Rightarrow>
         brk_load (rt ins) (if value AND 0x8000 \<noteq> 0 \<and> op = OP_LH then value OR 0xffff0000 else value AND 0xffff) m m1)
     else if op = OP_LUI then brk_next m (set_reg (rt ins) (push_bit 16 (extra ins)) m)
     else if op = OP_LW then
       if tmp AND 3 \<noteq> 0 then trap eh AddressErrorException tmp m else
       bindR (ReadMem eh tmp 4 m) (\<lambda>(r, m1). case r of None \<Rightarrow> Inr (Trapped m1) | Some value \<Rightarrow>
         brk_load (rt ins) value m m1)
     else if op = OP_LWL \<or> op = OP_LWR then
       bindR (ASSERT (tmp AND 3 = 0)) (\<lambda>_.
       bindR (ReadMem eh tmp 4 m) (\<lambda>(r, m1). case r of None \<Rightarrow> Inr (Trapped m1) | Some value \<Rightarrow>
         let old = (if reg m1 LoadReg = of_nat (rt ins) then reg m1 LoadValueReg else reg m1 (rt ins)) in
         brk_load (rt ins)
           (if op = OP_LWL then
              (if tmp AND 3 = 0 then value
               else if tmp AND 3 = 1 then (old AND 0xff) OR push_bit 8 value
               else if tmp AND 3 = 2 then (old AND 0xffff) OR push_bit 16 value
               else (old AND 0xffffff) OR push_bit 24 value)
            else
              (if tmp AND 3 = 0 then (old AND 0xffffff00) OR (signed_drop_bit 24 value AND 0xff)
               else if tmp AND 3 = 1 then (old AND 0xffff0000) OR (signed_drop_bit 16 value AND 0xffff)
               else if tmp AND 3 = 2 then (old AND 0xff000000) OR (signed_drop_bit 8 value AND 0xffffff)
               else value)) m m1))
     else Inl AssertFailed)"

definition exec_hilo_logic :: "Instruction \<Rightarrow> 'k Machine_scheme \<Rightarrow> 'k Machine_scheme exec res" where
  "exec_hilo_logic ins m =
    (let a = reg m (rs ins); b = reg m (rt ins); ex = extra ins in case opCode ins of
       OP_MFHI \<Rightarrow> brk_next m (set_reg (rd ins) (reg m HiReg) m)
     | OP_MFLO \<Rightarrow> brk_next m (set_reg (rd ins) (reg m LoReg) m)
     | OP_MTHI \<Rightarrow> brk_next m (set_reg HiReg a m)
     | OP_MTLO \<Rightarrow> brk_next m (set_reg LoReg a m)
     | OP_MULT \<Rightarrow> let (hi, lo) = Mult a b True in brk_next m (set_reg LoReg lo (set_reg HiReg hi m))
     | OP_MULTU \<Rightarrow> let (hi, lo) = Mult a b False in brk_next m (set_reg LoReg lo (set_reg HiReg hi m))
     | OP_NOR \<Rightarrow> brk_next m (set_reg (rd ins) (NOT (a OR b)) m)
     | OP_OR \<Rightarrow> brk_next m (set_reg (rd ins) (a OR a) m)
     | OP_ORI \<Rightarrow> brk_next m (set_reg (rt ins) (a OR (ex AND 0xffff)) m)
     | _ \<Rightarrow> Inl AssertFailed)"

text \<open>\<open>WriteMem(...)\<close>, then \<open>return\<close> on FALSE and \<open>break\<close> otherwise; \<open>m0\<close> is the state the case began in.\<close>

definition write_brk :: "'k handler \<Rightarrow> word32 \<Rightarrow> nat \<Rightarrow> word32 \<Rightarrow> 'k Machine_scheme \<Rightarrow> 'k Machine_scheme \<Rightarrow>
    'k Machine_scheme exec res" where
  "write_brk eh addr sz v m0 m = bindR (WriteMem eh addr sz v m) (\<lambda>(ok, m1).
     if ok then brk_next m0 m1 else Inr (Trapped m1))"

definition exec_store_small :: "'k handler \<Rightarrow> Instruction \<Rightarrow> 'k Machine_scheme \<Rightarrow> 'k Machine_scheme exec res" where
  "exec_store_small eh ins m =
    (let tmp = reg m (rs ins) + extra ins; b = reg m (rt ins) in case opCode ins of
       OP_SB \<Rightarrow> write_brk eh tmp 1 b m m
     | OP_SH \<Rightarrow> write_brk eh tmp 2 b m m
     | _ \<Rightarrow> Inl AssertFailed)"

definition exec_shift_set :: "Instruction \<Rightarrow> 'k Machine_scheme \<Rightarrow> 'k Machine_scheme exec res" where
  "exec_shift_set ins m =
    (let a = reg m (rs ins); b = reg m (rt ins); ex = extra ins; sh = unat (a AND 0x1f) in case opCode ins of
       OP_SLL \<Rightarrow> brk_next m (set_reg (rd ins) (push_bit (unat ex) b) m)
     | OP_SLLV \<Rightarrow> brk_next m (set_reg (rd ins) (push_bit sh b) m)
     | OP_SLT \<Rightarrow> brk_next m (set_reg (rd ins) (if sint a < sint b then 1 else 0) m)
     | OP_SLTI \<Rightarrow> brk_next m (set_reg (rt ins) (if sint a < sint ex then 1 else 0) m)
     | OP_SLTIU \<Rightarrow> brk_next m (set_reg (rt ins) (if a < ex then 1 else 0) m)
     | OP_SLTU \<Rightarrow> brk_next m (set_reg (rd ins) (if a < b then 1 else 0) m)
     | OP_SRA \<Rightarrow> brk_next m (set_reg (rd ins) (signed_drop_bit (unat ex) b) m)
     | OP_SRAV \<Rightarrow> brk_next m (set_reg (rd ins) (signed_drop_bit sh b) m)
     | OP_SRL \<Rightarrow> brk_next m (set_reg (rd ins) (signed_drop_bit (unat ex) b) m)
     | OP_SRLV \<Rightarrow> brk_next m (set_reg (rd ins) (signed_drop_bit sh b) m)
     | _ \<Rightarrow> Inl AssertFailed)"

definition exec_sub :: "'k handler \<Rightarrow> Instruction \<Rightarrow> 'k Machine_scheme \<Rightarrow> 'k Machine_scheme exec res" where
  "exec_sub eh ins m =
    (let a = reg m (rs ins); b = reg m (rt ins); diff = a - b in case opCode ins of
       OP_SUB \<Rightarrow>
         if (a XOR b) AND SIGN_BIT \<noteq> 0 \<and> (a XOR diff) AND SIGN_BIT \<noteq> 0 then trap eh OverflowException 0 m
         else brk_next m (set_reg (rd ins) diff m)
     | OP_SUBU \<Rightarrow> brk_next m (set_reg (rd ins) (a - b) m)
     | _ \<Rightarrow> Inl AssertFailed)"

definition exec_store_word :: "'k handler \<Rightarrow> Instruction \<Rightarrow> 'k Machine_scheme \<Rightarrow> 'k Machine_scheme exec res" where
  "exec_store_word eh ins m =
    (let tmp = reg m (rs ins) + extra ins; op = opCode ins in
     if op = OP_SW then write_brk eh tmp 4 (reg m (rt ins)) m m
     else if op = OP_SWL \<or> op = OP_SWR then
       bindR (ASSERT (tmp AND 3 = 0)) (\<lambda>_.
       bindR (ReadMem eh (tmp AND NOT 3) 4 m) (\<lambda>(r, m1). case r of None \<Rightarrow> Inr (Trapped m1) | Some value \<Rightarrow>
         let b = reg m1 (rt ins);
             v = (if op = OP_SWL then
                    (if tmp AND 3 = 0 then b
                     else if tmp AND 3 = 1 then (value AND 0xff000000) OR (signed_drop_bit 8 b AND 0xffffff)
                     else if tmp AND 3 = 2 then (value AND 0xffff0000) OR (signed_drop_bit 16 b AND 0xffff)
                     else (value AND 0xffffff00) OR (signed_drop_bit 24 b AND 0xff))
                  else
                    (if tmp AND 3 = 0 then (value AND 0xffffff) OR push_bit 24 b
                     else if tmp AND 3 = 1 then (value AND 0xffff) OR push_bit 16 b
                     else if tmp AND 3 = 2 then (value AND 0xff) OR push_bit 8 b
                     else b))
         in write_brk eh (tmp AND NOT 3) 4 v m m1))
     else Inl AssertFailed)"

definition exec_sys_xor :: "'k handler \<Rightarrow> Instruction \<Rightarrow> 'k Machine_scheme \<Rightarrow> 'k Machine_scheme exec res" where
  "exec_sys_xor eh ins m =
    (let a = reg m (rs ins); b = reg m (rt ins) in case opCode ins of
       OP_SYSCALL \<Rightarrow> trap eh SyscallException 0 m
     | OP_XOR \<Rightarrow> brk_next m (set_reg (rd ins) (a XOR b) m)
     | OP_XORI \<Rightarrow> brk_next m (set_reg (rt ins) (a XOR (extra ins AND 0xffff)) m)
     | OP_RES \<Rightarrow> trap eh IllegalInstrException 0 m
     | OP_UNIMP \<Rightarrow> trap eh IllegalInstrException 0 m
     | _ \<Rightarrow> Inl AssertFailed)"

text \<open>The switch; the default case is the failing assertion.\<close>

definition execute :: "'k handler \<Rightarrow> Instruction \<Rightarrow> 'k Machine_scheme \<Rightarrow> 'k Machine_scheme exec res" where
  "execute eh ins m =
    (let op = opCode ins in
     if op \<in> {OP_ADD, OP_ADDI, OP_ADDIU, OP_ADDU, OP_AND, OP_ANDI} then exec_add_and eh ins m
     else if op \<in> {OP_BEQ, OP_BGEZAL, OP_BGEZ, OP_BGTZ, OP_BLEZ, OP_BLTZAL, OP_BLTZ, OP_BNE} then exec_branch ins m
     else if op \<in> {OP_DIV, OP_DIVU} then exec_div ins m
     else if op \<in> {OP_JAL, OP_J, OP_JALR, OP_JR} then exec_jump ins m
     else if op \<in> {OP_LB, OP_LBU, OP_LH, OP_LHU, OP_LUI, OP_LW, OP_LWL, OP_LWR} then exec_load eh ins m
     else if op \<in> {OP_MFHI, OP_MFLO, OP_MTHI, OP_MTLO, OP_MULT, OP_MULTU, OP_NOR, OP_OR, OP_ORI} then exec_hilo_logic ins m
     else if op \<in> {OP_SB, OP_SH} then exec_store_small eh ins m
     else if op \<in> {OP_SLL, OP_SLLV, OP_SLT, OP_SLTI, OP_SLTIU, OP_SLTU, OP_SRA, OP_SRAV, OP_SRL, OP_SRLV}
       then exec_shift_set ins m
     else if op \<in> {OP_SUB, OP_SUBU} then exec_sub eh ins m
     else if op \<in> {OP_SW, OP_SWL, OP_SWR} then exec_store_word eh ins m
     else if op \<in> {OP_SYSCALL, OP_XOR, OP_XORI, OP_RES, OP_UNIMP} then exec_sys_xor eh ins m
     else Inl AssertFailed)"

text \<open>The epilogue of a case that ended in \<open>break\<close>.\<close>

definition advance :: "word32 \<Rightarrow> 'k Machine_scheme \<Rightarrow> 'k Machine_scheme" where
  "advance pcAfter m = set_reg NextPCReg pcAfter (set_reg PCReg (reg m NextPCReg) (set_reg PrevPCReg (reg m PCReg) m))"

definition OneInstruction :: "'k handler \<Rightarrow> 'k Machine_scheme \<Rightarrow> 'k Machine_scheme res" where
  "OneInstruction eh m =
     bindR (ReadMem eh (reg m PCReg) 4 m) (\<lambda>(r, m). case r of
       None \<Rightarrow> Inr m
     | Some raw \<Rightarrow> bindR (execute eh (Decode raw) m) (\<lambda>x. case x of
         Trapped m \<Rightarrow> Inr m
       | Done m pcAfter nextLoadReg nextLoadValue \<Rightarrow>
           bindR (DelayedLoad nextLoadReg nextLoadValue m) (\<lambda>m. Inr (advance pcAfter m))))"

text \<open>\<open>Machine::Run\<close> never returns: \<open>Run_steps\<close> is its first \<open>n\<close> iterations. \<open>tick\<close> is \<open>interrupt->OneTick\<close>,
  \<open>ticks\<close> reads \<open>stats->totalTicks\<close> and \<open>debugger\<close> is the interactive \<open>Debugger\<close>.\<close>

primrec Run_steps :: "'k handler \<Rightarrow> ('k Machine_scheme \<Rightarrow> 'k Machine_scheme res) \<Rightarrow> ('k Machine_scheme \<Rightarrow> int) \<Rightarrow>
    ('k Machine_scheme \<Rightarrow> 'k Machine_scheme res) \<Rightarrow> nat \<Rightarrow> 'k Machine_scheme \<Rightarrow> 'k Machine_scheme res" where
  "Run_steps eh tick ticks debugger 0 m = Inr m"
| "Run_steps eh tick ticks debugger (Suc n) m =
     bindR (OneInstruction eh m) (\<lambda>m.
     bindR (tick m) (\<lambda>m.
     bindR (if singleStep m \<and> runUntilTime m \<le> ticks m then debugger m else Inr m)
       (Run_steps eh tick ticks debugger n)))"

definition Run_n :: "'k handler \<Rightarrow> ('k Machine_scheme \<Rightarrow> 'k Machine_scheme res) \<Rightarrow> ('k Machine_scheme \<Rightarrow> int) \<Rightarrow>
    ('k Machine_scheme \<Rightarrow> 'k Machine_scheme res) \<Rightarrow> nat \<Rightarrow> 'k Machine_scheme \<Rightarrow> 'k Machine_scheme res" where
  "Run_n eh tick ticks debugger n m = Run_steps eh tick ticks debugger n (m\<lparr>status := UserMode\<rparr>)"

section \<open>Word arithmetic of the simulator\<close>

text \<open>The double word in the Hi and Lo registers.\<close>

definition dword :: "word32 \<Rightarrow> word32 \<Rightarrow> 64 word" where
  "dword h l = word_of_int (uint h * 2 ^ 32 + uint l)"

lemma word64_eqI: "x = y + c * 2 ^ 64 \<Longrightarrow> (word_of_int x :: 64 word) = word_of_int y"
  unfolding word_of_int_eq_iff take_bit_eq_mod by simp

lemma sign_bit_iff: "(w :: word32) AND 0x80000000 \<noteq> 0 \<longleftrightarrow> bit w 31"
proof -
  have "(0x80000000 :: word32) = 2 ^ 31" by simp
  then show ?thesis by (simp only: and_exp_eq_0_iff_not_bit) simp
qed

lemma bit_31_uint: "bit (w :: word32) 31 \<longleftrightarrow> 2 ^ 31 \<le> uint w"
proof -
  have "bit w 31 \<longleftrightarrow> uint w div 2 ^ 31 mod 2 = 1"
    using bit_uint_iff[of w 31] bit_iff_odd[of "uint w" 31] by (simp add: odd_iff_mod_2_eq_one)
  moreover have "0 \<le> uint w" "uint w < 2 ^ 32" using uint_lt2p[of w] by simp_all
  moreover have "x div 2 ^ 31 = (if 2 ^ 31 \<le> x then 1 else 0)" if "0 \<le> x" "x < 2 ^ 32" for x :: int
    using that by (simp add: div_pos_geq)
  ultimately show ?thesis by simp
qed

lemma uint_add32: "\<exists>c. uint (x + y :: word32) = uint x + uint y + c * 2 ^ 32"
proof -
  have "uint (x + y) = (uint x + uint y) mod 2 ^ 32" by (simp add: uint_word_ariths)
  then have "uint (x + y) = uint x + uint y + - ((uint x + uint y) div 2 ^ 32) * 2 ^ 32"
    by (simp add: minus_div_mult_eq_mod[symmetric])
  then show ?thesis by blast
qed

lemma uint_add_carry: "uint (x + y :: word32) = uint x + uint y - (if x + y < y then 2 ^ 32 else 0)"
proof -
  have b: "0 \<le> uint x" "uint x < 2 ^ 32" "0 \<le> uint y" "uint y < 2 ^ 32"
    using uint_lt2p[of x] uint_lt2p[of y] by simp_all
  have s: "uint (x + y) = (uint x + uint y) mod 2 ^ 32" by (simp add: uint_word_ariths)
  show ?thesis
  proof (cases "uint x + uint y < 2 ^ 32")
    case True
    then have "uint (x + y) = uint x + uint y" using s b by simp
    then show ?thesis using b by (simp add: word_less_def)
  next
    case False
    have "(uint x + uint y) mod 2 ^ 32 = (uint x + uint y - 2 ^ 32) mod 2 ^ 32" by simp
    also have "\<dots> = uint x + uint y - 2 ^ 32" using False b by (intro mod_pos_pos_trivial) auto
    finally show ?thesis using s b by (simp add: word_less_def)
  qed
qed

lemma dword_add:
  "dword ((if lo + bLo < bLo then hi + 1 else hi) + bHi) (lo + bLo) = dword hi lo + dword bHi bLo"
proof -
  let ?c = "if lo + bLo < bLo then 1 else 0 :: int"
  obtain k where "uint ((if lo + bLo < bLo then hi + 1 else hi) + bHi) = uint hi + ?c + uint bHi + k * 2 ^ 32"
  proof -
    obtain k1 where k1: "uint (hi + 1) = uint hi + 1 + k1 * 2 ^ 32" using uint_add32[of hi 1] by auto
    obtain k2 where k2: "uint (hi + 1 + bHi) = uint (hi + 1) + uint bHi + k2 * 2 ^ 32"
      using uint_add32[of "hi + 1" bHi] by auto
    obtain k3 where k3: "uint (hi + bHi) = uint hi + uint bHi + k3 * 2 ^ 32" using uint_add32[of hi bHi] by auto
    show thesis
      by (rule that[of "if lo + bLo < bLo then k1 + k2 else k3"]) (use k1 k2 k3 in \<open>auto simp: algebra_simps\<close>)
  qed
  then have "uint ((if lo + bLo < bLo then hi + 1 else hi) + bHi) * 2 ^ 32 + uint (lo + bLo)
     = (uint hi * 2 ^ 32 + uint lo) + (uint bHi * 2 ^ 32 + uint bLo) + k * 2 ^ 64"
    unfolding uint_add_carry[of lo bLo] by (simp add: algebra_simps)
  from word64_eqI[OF this] show ?thesis by (simp add: dword_def)
qed

lemma dword_double:
  "dword (if bLo AND 0x80000000 \<noteq> 0 then push_bit 1 bHi OR 1 else push_bit 1 bHi) (push_bit 1 bLo)
    = 2 * dword bHi bLo"
proof -
  have c: "bLo AND 0x80000000 \<noteq> 0 \<longleftrightarrow> bLo + bLo < bLo"
    unfolding sign_bit_iff bit_31_uint word_less_def
  proof -
    have "0 \<le> uint (bLo + bLo)" "uint (bLo + bLo) < 2 ^ 32" "0 \<le> uint bLo" "uint bLo < 2 ^ 32"
      using uint_lt2p[of bLo] uint_lt2p[of "bLo + bLo"] by simp_all
    moreover have "uint (bLo + bLo) = uint bLo + uint bLo - (if uint (bLo + bLo) < uint bLo then 2 ^ 32 else 0)"
      using uint_add_carry[of bLo bLo] by (simp only: word_less_def)
    moreover have "(2 ^ 31 \<le> x) = (s < x)" if "0 \<le> s" "s < 2 ^ 32" "0 \<le> x" "x < 2 ^ 32"
      "s = x + x - (if s < x then 2 ^ 32 else 0)" for s x :: int
      using that by (auto split: if_splits)
    ultimately show "(2 ^ 31 \<le> uint bLo) = (uint (bLo + bLo) < uint bLo)" by blast
  qed
  have d: "push_bit 1 w = w + w" for w :: word32 by (simp add: push_bit_eq_mult)
  have o: "push_bit 1 bHi OR 1 = bHi + 1 + bHi"
  proof -
    have "push_bit 1 bHi + 1 = push_bit 1 bHi OR 1"
      by (rule disjunctive_add) (auto simp only: bit_push_bit_iff bit_1_iff)
    then show ?thesis unfolding d by (simp only: add.assoc add.commute add.left_commute)
  qed
  show ?thesis
    using dword_add[of bLo bLo bHi bHi] unfolding c o unfolding d by (auto split: if_splits)
qed

lemma odd_iff_and_1: "(a :: word32) AND 1 \<noteq> 0 \<longleftrightarrow> odd (uint a)"
proof -
  have "a AND 1 \<noteq> 0 \<longleftrightarrow> bit a 0" by (simp add: and_one_eq mod_2_eq_odd bit_0)
  also have "\<dots> \<longleftrightarrow> odd (uint a)" using bit_uint_iff[of a 0] by (simp add: bit_0)
  finally show ?thesis .
qed

lemma last_bit: "(a :: word32) AND 1 \<noteq> 0 \<Longrightarrow> a AND 0xfffffffe = 0 \<Longrightarrow> a = 1"
proof -
  assume a: "a AND 1 \<noteq> 0" "a AND 0xfffffffe = 0"
  have "(0xfffffffe :: word32) = NOT 1" by simp
  then have "a = (a AND 1) OR (a AND 0xfffffffe)"
    by (simp only:) (rule bit_word_eqI, auto simp: bit_simps)
  then have "a = a AND 1" using a(2) by simp
  then show "a = 1" using a(1) by (cases "odd a") (simp_all add: and_one_eq mod_2_eq_odd)
qed

lemma uint_sdrop1: "n \<le> 31 \<Longrightarrow> uint (signed_drop_bit 1 (a :: word32)) mod 2 ^ n = uint a div 2 mod 2 ^ n"
proof -
  assume "n \<le> 31"
  then have "take_bit n (uint (signed_drop_bit 1 a)) = take_bit n (drop_bit 1 (uint a))"
    by (intro bit_eqI) (auto simp: bit_simps)
  then show ?thesis by (simp add: take_bit_eq_mod drop_bit_eq_div)
qed

lemma mod_Suc_split: "(x :: int) mod 2 ^ Suc n = x mod 2 + 2 * (x div 2 mod 2 ^ n)"
  using zmod_zmult2_eq[of "2 ^ n" x 2] by (simp add: add.commute)

lemma mult_loop_correct:
  assumes "n \<le> 32" and "mult_loop n a bLo bHi lo hi = (h, l)"
  shows "dword h l = dword hi lo + dword bHi bLo * word_of_int (uint a mod 2 ^ n)"
  using assms
proof (induction n a bLo bHi lo hi rule: mult_loop.induct)
  case (2 n a bLo bHi lo hi)
  define lo' where "lo' = (if a AND 1 \<noteq> 0 then lo + bLo else lo)"
  define hi' where "hi' = (if a AND 1 \<noteq> 0 then (if lo + bLo < bLo then hi + 1 else hi) + bHi else hi)"
  have odd_part: "dword hi' lo' = dword hi lo + dword bHi bLo * word_of_int (uint a mod 2)"
    using dword_add[of lo bLo hi bHi] odd_iff_and_1[of a]
    by (simp add: lo'_def hi'_def mod_2_eq_odd)
  show ?case
  proof (cases "a AND 1 \<noteq> 0 \<and> a AND 0xfffffffe = 0")
    case True
    then have "a = 1" using last_bit by blast
    moreover have "(h, l) = (hi', lo')" using 2(3) True by (auto simp: lo'_def hi'_def Let_def)
    ultimately show ?thesis using odd_part unfolding mod_Suc_split by simp
  next
    case False
    have "mult_loop n (signed_drop_bit 1 a) (push_bit 1 bLo)
        (if bLo AND 0x80000000 \<noteq> 0 then push_bit 1 bHi OR 1 else push_bit 1 bHi) lo' hi' = (h, l)"
      using 2(3) False unfolding lo'_def hi'_def mult_loop.simps Let_def by (auto split: if_splits)
    with 2(1)[OF _ refl] False 2(2) have "dword h l = dword hi' lo' + (2 * dword bHi bLo) *
        word_of_int (uint (signed_drop_bit 1 a) mod 2 ^ n)"
      unfolding dword_double[symmetric] lo'_def hi'_def Let_def by (auto split: if_splits)
    moreover have "word_of_int (uint a mod 2 ^ Suc n) =
       (word_of_int (uint a mod 2) + 2 * word_of_int (uint (signed_drop_bit 1 a) mod 2 ^ n) :: 64 word)"
      using 2(2) unfolding mod_Suc_split by (simp add: uint_sdrop1[unfolded One_nat_def])
    ultimately show ?thesis using odd_part by (simp add: algebra_simps)
  qed
qed simp

lemma uint_minus32: "w \<noteq> 0 \<Longrightarrow> uint (- w :: word32) = 2 ^ 32 - uint w"
proof -
  assume "w \<noteq> 0"
  then have "uint w \<noteq> 0" by (simp add: uint_0_iff)
  moreover have "uint w < 2 ^ 32" "0 \<le> uint w" using uint_lt2p[of w] by simp_all
  ultimately have "(- uint w) mod 2 ^ 32 = 2 ^ 32 - uint w" by (simp add: zmod_zminus1_eq_if)
  then show ?thesis by (simp add: uint_word_ariths)
qed

lemma dword_neg: "dword (if NOT lo + 1 = 0 then NOT hi + 1 else NOT hi) (NOT lo + 1) = - dword hi lo"
proof -
  have n: "NOT w + 1 = - w" for w :: word32 by (simp add: minus_eq_not_plus_1)
  have u: "uint (NOT w) = 2 ^ 32 - 1 - uint w" for w :: word32
    using uint_lt2p[of w]
    by (simp add: unsigned_not_eq take_bit_not_eq_mask_diff mask_eq_exp_minus_1 take_bit_int_eq_self)
  show ?thesis
  proof (cases "lo = 0")
    case True
    obtain c where "uint (NOT hi + 1) = uint (NOT hi) + 1 + c * 2 ^ 32" using uint_add32[of "NOT hi" 1] by auto
    then have "uint (NOT hi + 1) * 2 ^ 32 + uint (0 :: word32) = - (uint hi * 2 ^ 32 + uint (0 :: word32)) + (1 + c) * 2 ^ 64"
      unfolding u by (simp add: algebra_simps)
    from word64_eqI[OF this] True show ?thesis by (simp add: dword_def n)
  next
    case False
    then have "uint (- lo) = 2 ^ 32 - uint lo"
      by (rule uint_minus32)
    then have "uint (NOT hi) * 2 ^ 32 + uint (- lo) = - (uint hi * 2 ^ 32 + uint lo) + 1 * 2 ^ 64"
      unfolding u by (simp add: algebra_simps)
    from word64_eqI[OF this] False show ?thesis by (simp add: dword_def n)
  qed
qed

lemma dword_0 [simp]: "dword 0 0 = 0" and dword_lo: "dword 0 b = word_of_int (uint b)"
  by (simp_all add: dword_def)

lemma mult_unsigned:
  assumes "mult_loop 32 a b 0 0 0 = (h, l)"
  shows "dword h l = word_of_int (uint a * uint b)"
proof -
  have "uint a mod 2 ^ 32 = uint a" using uint_lt2p[of a] by simp
  then show ?thesis using mult_loop_correct[OF _ assms] by (simp add: dword_lo mult.commute)
qed

lemma sint_uint32: "sint (a :: word32) = uint a - (if bit a 31 then 2 ^ 32 else 0)"
  using uint_lt2p[of a] bit_uint_iff[of a 31]
  by (simp add: sint_uint signed_take_bit_eq_take_bit_minus take_bit_int_eq_self)

lemma sint_neg_iff: "sint (a :: word32) < 0 \<longleftrightarrow> bit a 31"
  using uint_lt2p[of a] bit_31_uint[of a] by (auto simp: sint_uint32)

lemma uint_neg: "sint (a :: word32) < 0 \<Longrightarrow> uint (- a) = - sint a"
proof -
  assume n: "sint a < 0"
  then have "bit a 31" by (simp only: sint_neg_iff)
  then have a: "sint a = uint a - 2 ^ 32" by (simp add: sint_uint32)
  have "a \<noteq> 0" using n by auto
  then have "uint (- a) = 2 ^ 32 - uint a" by (rule uint_minus32)
  then show ?thesis using a by simp
qed

lemma uint_nonneg: "\<not> sint (a :: word32) < 0 \<Longrightarrow> uint a = sint a"
  unfolding sint_neg_iff by (simp add: sint_uint32)

text \<open>
  C7. Multiplication: the shift-and-add loop leaves in the Hi and Lo registers the two halves of the
  exact double-length product, signed for MULT and unsigned for MULTU.
\<close>

theorem mult_correct:
  "case Mult a b signedArith of (hi, lo) \<Rightarrow>
     dword hi lo = word_of_int (if signedArith then sint a * sint b else uint a * uint b)"
proof (cases "a = 0 \<or> b = 0")
  case True
  then show ?thesis by (auto simp: Mult_def)
next
  case False
  obtain hi lo where assms: "Mult a b signedArith = (hi, lo)" by (cases "Mult a b signedArith")
  define na where "na = (signedArith \<and> sint a < 0)"
  define nb where "nb = (signedArith \<and> sint b < 0)"
  obtain h l where hl: "mult_loop 32 (if na then - a else a) (if nb then - b else b) 0 0 0 = (h, l)"
    by (cases "mult_loop 32 (if na then - a else a) (if nb then - b else b) 0 0 0")
  have res: "(hi, lo) = (if na \<noteq> nb then (if NOT l + 1 = 0 then NOT h + 1 else NOT h, NOT l + 1) else (h, l))"
    using assms False hl unfolding Mult_def Let_def na_def[symmetric] nb_def[symmetric]
    by (cases "na \<noteq> nb") (auto split: prod.splits)
  have "dword h l = word_of_int (uint (if na then - a else a) * uint (if nb then - b else b))"
    by (rule mult_unsigned[OF hl])
  moreover have "dword hi lo = (if na \<noteq> nb then - dword h l else dword h l)"
    using res dword_neg[of l h] by (cases "na \<noteq> nb") auto
  ultimately have "dword hi lo = word_of_int (if signedArith then sint a * sint b else uint a * uint b)"
    using uint_neg[of a] uint_neg[of b] uint_nonneg[of a] uint_nonneg[of b]
    by (cases signedArith; cases "sint a < 0"; cases "sint b < 0") (auto simp: na_def nb_def)
  then show ?thesis using assms by simp
qed
section \<open>Signed overflow\<close>

lemma sint_in_range: "- (2 ^ 31) \<le> sint (a :: word32)" "sint (a :: word32) < 2 ^ 31"
  using sint_range_size[of a] by (simp_all add: word_size)

lemma SIGN_BIT_iff: "w AND SIGN_BIT \<noteq> 0 \<longleftrightarrow> bit w 31" "w AND SIGN_BIT = 0 \<longleftrightarrow> \<not> bit w 31"
  using sign_bit_iff[of w] by (auto simp: SIGN_BIT_def)

text \<open>The two tests of the simulator decide signed overflow exactly.\<close>

definition in_range :: "int \<Rightarrow> bool" where
  "in_range x \<longleftrightarrow> - (2 ^ 31) \<le> x \<and> x < 2 ^ 31"

lemma sint_word_of_int: "in_range x \<Longrightarrow> sint (word_of_int x :: word32) = x"
  by (simp add: sint_sbintrunc' signed_take_bit_int_eq_self in_range_def)

lemma int_overflow:
  fixes A B S :: int
  assumes "0 \<le> A" "A < 2 ^ 32" "0 \<le> B" "B < 2 ^ 32" "0 \<le> S" "S < 2 ^ 32"
    and "S = A + B \<or> S = A + B - 2 ^ 32"
  shows "((2 ^ 31 \<le> A) = (2 ^ 31 \<le> B) \<and> (2 ^ 31 \<le> A) \<noteq> (2 ^ 31 \<le> S)) =
    (\<not> in_range (A - (if 2 ^ 31 \<le> A then 2 ^ 32 else 0) + (B - (if 2 ^ 31 \<le> B then 2 ^ 32 else 0))))"
    and "((2 ^ 31 \<le> S) \<noteq> (2 ^ 31 \<le> B) \<and> (2 ^ 31 \<le> S) \<noteq> (2 ^ 31 \<le> A)) =
    (\<not> in_range (S - (if 2 ^ 31 \<le> S then 2 ^ 32 else 0) - (B - (if 2 ^ 31 \<le> B then 2 ^ 32 else 0))))"
  using assms
  by (cases "2 ^ 31 \<le> A"; cases "2 ^ 31 \<le> B"; cases "2 ^ 31 \<le> S"; auto simp: in_range_def)+

lemma uint_bounds32: "0 \<le> uint (a :: word32)" "uint (a :: word32) < 2 ^ 32"
  using uint_lt2p[of a] by simp_all

lemma uint_add_or: "uint (a + b :: word32) = uint a + uint b \<or> uint (a + b) = uint a + uint b - 2 ^ 32"
  using uint_add_carry[of a b] by (auto split: if_splits)

lemma add_overflow_iff:
  "(a XOR b) AND SIGN_BIT = 0 \<and> (a XOR (a + b)) AND SIGN_BIT \<noteq> 0 \<longleftrightarrow> \<not> in_range (sint a + sint b)"
  unfolding SIGN_BIT_iff bit_xor_iff sint_uint32 unfolding bit_31_uint
  using int_overflow(1)[OF uint_bounds32[of a] uint_bounds32[of b] uint_bounds32[of "a + b"] uint_add_or[of a b]]
  by (simp only: not_not)

lemma sub_overflow_iff:
  "(a XOR b) AND SIGN_BIT \<noteq> 0 \<and> (a XOR (a - b)) AND SIGN_BIT \<noteq> 0 \<longleftrightarrow> \<not> in_range (sint a - sint b)"
  unfolding SIGN_BIT_iff bit_xor_iff sint_uint32 unfolding bit_31_uint
  using int_overflow(2)[OF uint_bounds32[of "a - b"] uint_bounds32[of b] uint_bounds32[of a]] uint_add_or[of "a - b" b]
  by (simp only: diff_add_cancel simp_thms)

lemma sint_exact:
  "in_range (sint a + sint b) \<Longrightarrow> sint (a + b :: word32) = sint a + sint b"
  "in_range (sint a - sint b) \<Longrightarrow> sint (a - b :: word32) = sint a - sint b"
  using sint_word_of_int[of "sint a + sint b"] sint_word_of_int[of "sint a - sint b"] by simp_all

text \<open>The exact signed result of a checked instruction, and the register it goes to.\<close>

definition checked_result :: "Instruction \<Rightarrow> 'k Machine_scheme \<Rightarrow> (int \<times> nat) option" where
  "checked_result ins m = (case opCode ins of
      OP_ADD \<Rightarrow> Some (sint (reg m (rs ins)) + sint (reg m (rt ins)), rd ins)
    | OP_ADDI \<Rightarrow> Some (sint (reg m (rs ins)) + sint (extra ins), rt ins)
    | OP_SUB \<Rightarrow> Some (sint (reg m (rs ins)) - sint (reg m (rt ins)), rd ins)
    | _ \<Rightarrow> None)"

text \<open>
  C8. Checked arithmetic: ADD, ADDI and SUB raise \<open>OverflowException\<close> exactly when the signed result does
  not fit in 32 bits, and otherwise store the exact result and fall through to the next instruction.
\<close>

theorem checked_arithmetic:
  "case checked_result ins m of None \<Rightarrow> opCode ins \<notin> {OP_ADD, OP_ADDI, OP_SUB}
    | Some (x, dst) \<Rightarrow>
        if in_range x then \<exists>m'. execute eh ins m = Inr (Done m' (reg m NextPCReg + 4) 0 0)
          \<and> m' = set_reg dst (word_of_int x) m \<and> sint (reg m' dst) = x
        else execute eh ins m = bindR (RaiseException eh OverflowException 0 m) (\<lambda>m. Inr (Trapped m))"
proof -
  have ex: "(a XOR b) AND SIGN_BIT = 0 \<and> (b XOR (a + b)) AND SIGN_BIT \<noteq> 0 \<longleftrightarrow> \<not> in_range (sint a + sint b)" for a b
    using add_overflow_iff[of b a] by (simp add: add.commute xor.commute)
  show ?thesis
    unfolding checked_result_def
    using add_overflow_iff[of "reg m (rs ins)" "reg m (rt ins)"] ex[of "reg m (rs ins)" "extra ins"]
      sub_overflow_iff[of "reg m (rs ins)" "reg m (rt ins)"]
    by (cases "opCode ins")
      (simp_all add: execute_def exec_add_and_def exec_sub_def Let_def trap_def brk_next_def pcAfter0_def set_reg_def
        sint_exact)
qed

end
