(* ===== verification/Nachos_CPU.thy ===== *)
theory Nachos_CPU
  imports Nachos_Mips
begin

text \<open>
  What every user instruction keeps true of the simulated processor.

  \<^item> Decoding is total: no 32-bit word decodes to an operation the switch of \<open>OneInstruction\<close> rejects.
  \<^item> \<open>cpu_ok\<close>: the translation tables are well formed, R0 is zero and the pending delayed load targets a
    general register. The locale \<open>trap_handler\<close> is what the hardware relies on from the kernel's
    exception handler: if it returns, it leaves such a state. Under that contract every instruction
    keeps \<open>cpu_ok\<close>, and the ways an instruction can stop the simulator are listed.
\<close>

section \<open>Decoding\<close>

lemma field_bound: "field k 0x1f v < 32" "field k 0x3f v < 64"
proof -
  have "drop_bit k v AND 0x1f \<le> 0x1f" "drop_bit k v AND 0x3f \<le> 0x3f" by (simp_all add: word_and_le1)
  then show "field k 0x1f v < 32" "field k 0x3f v < 64"
    by (simp_all add: field_def word_le_nat_alt)
qed

definition pseudo_ops :: "OpCode set" where
  "pseudo_ops = {SPECIAL, BCOND, OP_RFE}"

lemma opTable_ops: "i < 64 \<Longrightarrow> fst (opTable ! i) \<noteq> OP_RFE"
proof -
  have "\<forall>x\<in>set opTable. fst x \<noteq> OP_RFE" "length opTable = 64" by (simp_all add: opTable_def)
  then show "i < 64 \<Longrightarrow> ?thesis" by simp
qed

lemma specialTable_ops: "i < 64 \<Longrightarrow> specialTable ! i \<notin> pseudo_ops"
proof -
  have "\<forall>x\<in>set specialTable. x \<notin> pseudo_ops" "length specialTable = 64"
    by (simp_all add: specialTable_def pseudo_ops_def)
  then show "i < 64 \<Longrightarrow> ?thesis" by simp
qed

lemma Decode_fields:
  "rs (Decode v) < 32" "rt (Decode v) < 32" "rd (Decode v) < 32" "opCode (Decode v) \<notin> pseudo_ops"
proof -
  show "opCode (Decode v) \<notin> pseudo_ops"
    using opTable_ops[OF field_bound(2)[of 26 v]] specialTable_ops[OF field_bound(2)[of 0 v]]
    by (auto simp: Decode_def decode_op_def pseudo_ops_def Let_def split: prod.splits)
qed (simp_all add: Decode_def field_bound split: prod.splits)

section \<open>The processor invariant\<close>

definition cpu_mid :: "'k Machine_scheme \<Rightarrow> bool" where
  "cpu_mid m \<longleftrightarrow> vm_ok m \<and> unat (reg m LoadReg) < NumGPRegs"

definition cpu_ok :: "'k Machine_scheme \<Rightarrow> bool" where
  "cpu_ok m \<longleftrightarrow> cpu_mid m \<and> reg m 0 = 0"

lemma set_reg_frame [simp]:
  "vm_ok (set_reg i v m) = vm_ok m" "mainMemory (set_reg i v m) = mainMemory m"
  "status (set_reg i v m) = status m" "map_state (set_reg i v m) = map_state m"
  "Machine.more (set_reg i v m) = Machine.more m"
  by (simp_all add: set_reg_def vm_ok_def map_state_def cong: option.case_cong)

lemma reg_set_reg [simp]: "reg (set_reg i v m) j = (if j = i then v else reg m j)"
  by (simp add: set_reg_def)

lemma vm_ok_status [simp]: "vm_ok (m\<lparr>status := s\<rparr>) = vm_ok m" "vm_ok (m\<lparr>mainMemory := mem\<rparr>) = vm_ok m"
  by (simp_all add: vm_ok_def cong: option.case_cong)

lemma cpu_mid_set_reg [simp]: "i \<noteq> LoadReg \<Longrightarrow> cpu_mid (set_reg i v m) = cpu_mid m"
  by (simp add: cpu_mid_def)

lemma cpu_ok_mid: "cpu_ok m \<Longrightarrow> cpu_mid m"
  by (simp add: cpu_ok_def)

lemma sint_small: "unat (w :: word32) < NumGPRegs \<Longrightarrow> sint w = int (unat w)"
proof -
  assume "unat w < NumGPRegs"
  then have "int (unat w) < 32" by (simp only: NumGPRegs_def)
  then have "uint w < 32" by simp
  then have "\<not> bit w 31" by (simp add: bit_31_uint)
  then show ?thesis by (simp add: sint_uint32)
qed

lemma DelayedLoad_mid:
  assumes "cpu_mid m" and "unat nr < NumGPRegs"
  obtains m' where "DelayedLoad nr nv m = Inr m'" "cpu_ok m'"
    "\<And>i. reg m' i = (if i = 0 then 0 else if i = LoadValueReg then nv else if i = LoadReg then nr
        else if i = unat (reg m LoadReg) then reg m LoadValueReg else reg m i)"
    "mainMemory m' = mainMemory m" "Machine.more m' = Machine.more m"
proof -
  let ?r = "unat (reg m LoadReg)"
  have r: "sint (reg m LoadReg) = int ?r" "?r < 32"
    using assms(1) sint_small[of "reg m LoadReg"] by (simp_all add: cpu_mid_def reg_defs)
  have dl: "DelayedLoad nr nv m = Inr (set_reg 0 0 (set_reg LoadValueReg nv (set_reg LoadReg nr
      (set_reg ?r (reg m LoadValueReg) m))))"
    using r by (simp add: DelayedLoad_def NumTotalRegs_def Let_def del: of_nat_unat)
  show thesis
    by (rule that[OF dl]) (use assms r in \<open>auto simp: cpu_ok_def cpu_mid_def reg_defs\<close>)
qed

section \<open>Instructions under the handler's contract\<close>

text \<open>The two ways an instruction stops the simulator by itself: a signed division of the least integer by
  -1, and the assertion in the four unaligned-word instructions.\<close>

definition stops :: "Instruction \<Rightarrow> 'k Machine_scheme \<Rightarrow> fault \<Rightarrow> bool" where
  "stops ins m f \<longleftrightarrow>
     f = DivideTrap \<and> opCode ins = OP_DIV \<and> reg m (rs ins) = SIGN_BIT \<and> reg m (rt ins) = - 1
   \<or> f = AssertFailed \<and> opCode ins \<in> {OP_LWL, OP_LWR, OP_SWL, OP_SWR}
       \<and> (reg m (rs ins) + extra ins) AND 3 \<noteq> 0"

definition kept_regs :: "nat set" where
  "kept_regs = {LoadReg, LoadValueReg, PCReg, NextPCReg}"

locale trap_handler =
  fixes eh :: "'k handler"
  assumes eh_ok: "cpu_ok m \<Longrightarrow> eh e m = Inr m' \<Longrightarrow> cpu_ok m'"
begin

definition eh_fault :: "fault \<Rightarrow> bool" where
  "eh_fault f \<longleftrightarrow> (\<exists>e m0. cpu_ok m0 \<and> eh e m0 = Inl f)"

lemma RaiseException_cases:
  assumes "cpu_mid m"
  shows "case RaiseException eh e bad m of Inl f \<Rightarrow> eh_fault f | Inr m' \<Rightarrow> cpu_ok m'"
proof -
  let ?m = "set_reg BadVAddrReg bad m"
  have "cpu_mid ?m" using assms by (simp add: reg_defs)
  then obtain m1 where m1: "DelayedLoad 0 0 ?m = Inr m1" "cpu_ok m1"
    by (rule DelayedLoad_mid[of ?m 0 0]) (simp_all add: reg_defs)
  then have ok: "cpu_ok (m1\<lparr>status := SystemMode\<rparr>)" by (simp add: cpu_ok_def cpu_mid_def)
  show ?thesis
  proof (cases "eh e (m1\<lparr>status := SystemMode\<rparr>)")
    case (Inl f)
    then show ?thesis using m1 ok by (auto simp: RaiseException_def eh_fault_def)
  next
    case (Inr m2)
    with eh_ok[OF ok Inr] show ?thesis using m1
      by (simp add: RaiseException_def cpu_ok_def cpu_mid_def)
  qed
qed

text \<open>States that agree on the registers and on the well-formedness of the tables.\<close>

definition same_cpu :: "'k Machine_scheme \<Rightarrow> 'k Machine_scheme \<Rightarrow> bool" where
  "same_cpu m m' \<longleftrightarrow> registers m' = registers m \<and> vm_ok m' = vm_ok m"

lemma same_cpu_mid: "same_cpu m m' \<Longrightarrow> cpu_mid m' = cpu_mid m"
  by (simp add: same_cpu_def cpu_mid_def)

lemma ReadMem_cases:
  assumes "cpu_mid m" and "sz \<in> {1, 2, 4}"
  shows "case ReadMem eh a sz m of Inl f \<Rightarrow> eh_fault f
    | Inr (None, m') \<Rightarrow> cpu_ok m' | Inr (Some v, m') \<Rightarrow> same_cpu m m'"
proof -
  have ok: "vm_ok m" using assms(1) by (simp add: cpu_mid_def)
  show ?thesis
  proof (cases rule: Translate_cases[OF ok assms(2), of a False, case_names exn ok])
    case (exn e)
    then show ?thesis using RaiseException_cases[OF assms(1), of e a]
      by (auto simp: ReadMem_def split: sum.splits)
  next
    case (ok i)
    then show ?thesis using assms(2)
      by (auto simp: ReadMem_def fetch_def same_cpu_def)
  qed
qed

lemma WriteMem_cases:
  assumes "cpu_mid m" and "sz \<in> {1, 2, 4}"
  shows "case WriteMem eh a sz v m of Inl f \<Rightarrow> eh_fault f
    | Inr (False, m') \<Rightarrow> cpu_ok m' | Inr (True, m') \<Rightarrow> same_cpu m m'"
proof -
  have ok: "vm_ok m" using assms(1) by (simp add: cpu_mid_def)
  show ?thesis
  proof (cases rule: Translate_cases[OF ok assms(2), of a True, case_names exn ok])
    case (exn e)
    then show ?thesis using RaiseException_cases[OF assms(1), of e a]
      by (auto simp: WriteMem_def split: sum.splits)
  next
    case (ok i)
    then show ?thesis using assms(2)
      by (auto simp: WriteMem_def store_def same_cpu_def)
  qed
qed

definition good :: "Instruction \<Rightarrow> 'k Machine_scheme \<Rightarrow> 'k Machine_scheme exec res \<Rightarrow> bool" where
  "good ins m x \<longleftrightarrow> (case x of
     Inl f \<Rightarrow> eh_fault f \<or> stops ins m f
   | Inr (Trapped m') \<Rightarrow> cpu_ok m'
   | Inr (Done m' pc r v) \<Rightarrow> cpu_mid m' \<and> unat r < NumGPRegs \<and> (\<forall>i\<in>kept_regs. reg m' i = reg m i))"

lemma good_Done [simp]: "good ins m (Inr (Done m' pc r v)) \<longleftrightarrow>
    cpu_mid m' \<and> unat r < NumGPRegs \<and> (\<forall>i\<in>kept_regs. reg m' i = reg m i)"
  by (simp add: good_def)

lemma good_Trapped [simp]: "good ins m (Inr (Trapped m')) = cpu_ok m'"
  by (simp add: good_def)

lemma good_Inl [simp]: "good ins m (Inl f) = (eh_fault f \<or> stops ins m f)"
  by (simp add: good_def)

lemma good_trap: "cpu_mid m \<Longrightarrow> good ins m (trap eh e a m)"
  using RaiseException_cases[of m e a] by (auto simp: trap_def good_def split: sum.splits)

lemma good_brk:
  "cpu_mid m' \<Longrightarrow> \<forall>i\<in>kept_regs. reg m' i = reg m i \<Longrightarrow> good ins m (brk_next m m')"
  "cpu_mid m' \<Longrightarrow> \<forall>i\<in>kept_regs. reg m' i = reg m i \<Longrightarrow> good ins m (brk_branch t ins' m m')"
  "cpu_mid m' \<Longrightarrow> \<forall>i\<in>kept_regs. reg m' i = reg m i \<Longrightarrow> r < NumGPRegs \<Longrightarrow> good ins m (brk_load r v m m')"
  by (auto simp: brk_next_def brk_branch_def brk_load_def reg_defs unat_of_nat)

lemma good_set:
  "cpu_mid m \<Longrightarrow> i < 34 \<Longrightarrow> good ins m (brk_next m (set_reg i v m))"
  "cpu_mid m \<Longrightarrow> i < 34 \<Longrightarrow> j < 34 \<Longrightarrow> good ins m (brk_next m (set_reg i v (set_reg j u m)))"
  by (auto intro!: good_brk simp: kept_regs_def reg_defs)

lemma good_read:
  assumes "cpu_mid m" "sz \<in> {1, 2, 4}"
    and "\<And>v m'. same_cpu m m' \<Longrightarrow> cpu_mid m' \<Longrightarrow> good ins m (k v m')"
  shows "good ins m (bindR (ReadMem eh a sz m) (\<lambda>(r, m1). case r of None \<Rightarrow> Inr (Trapped m1) | Some v \<Rightarrow> k v m1))"
proof (cases "ReadMem eh a sz m")
  case (Inl f)
  with ReadMem_cases[OF assms(1,2), of a] show ?thesis by simp
next
  case (Inr x)
  obtain r m1 where x: "x = (r, m1)" by (cases x)
  with ReadMem_cases[OF assms(1,2), of a] Inr same_cpu_mid[of m m1] assms(1) show ?thesis
    by (cases r) (simp_all add: assms(3))
qed

lemma good_write:
  assumes "cpu_mid m1" "same_cpu m m1" "sz \<in> {1, 2, 4}"
  shows "good ins m (write_brk eh a sz v m m1)"
proof (cases "WriteMem eh a sz v m1")
  case (Inl f)
  with WriteMem_cases[OF assms(1,3), of a v] show ?thesis by (simp add: write_brk_def)
next
  case (Inr x)
  obtain ok m2 where x: "x = (ok, m2)" by (cases x)
  show ?thesis
  proof (cases ok)
    case True
    with WriteMem_cases[OF assms(1,3), of a v] Inr x have "same_cpu m1 m2" by simp
    then show ?thesis using True Inr x assms same_cpu_mid[of m1 m2]
      by (auto simp: write_brk_def same_cpu_def intro!: good_brk)
  next
    case False
    with WriteMem_cases[OF assms(1,3), of a v] Inr x show ?thesis by (simp add: write_brk_def)
  qed
qed

lemma same_cpu_refl [simp]: "same_cpu m m"
  by (simp add: same_cpu_def)

lemma good_load:
  assumes "cpu_mid m" "rt ins < 32" "opCode ins \<in> {OP_LB, OP_LBU, OP_LH, OP_LHU, OP_LUI, OP_LW, OP_LWL, OP_LWR}"
  shows "good ins m (exec_load eh ins m)"
proof -
  have k: "good ins m (brk_load (rt ins) v m m')" if "same_cpu m m'" "cpu_mid m'" for v m'
    using that assms(2) by (intro good_brk) (auto simp: same_cpu_def reg_defs)
  have t: "good ins m (trap eh e a m)" for e a by (rule good_trap[OF assms(1)])
  have lui: "good ins m (brk_next m (set_reg (rt ins) v m))" for v
    using assms by (intro good_set) auto
  have asrt: "good ins m (bindR (ASSERT c) (\<lambda>_. x))"
    if "good ins m x" "\<not> c \<Longrightarrow> stops ins m AssertFailed" for c x
    using that by (cases c) simp_all
  show ?thesis
    using assms(1,3) t lui by (auto simp: exec_load_def Let_def stops_def intro!: asrt good_read k)
qed

lemma good_store:
  assumes "cpu_mid m" "opCode ins \<in> {OP_SW, OP_SWL, OP_SWR}"
  shows "good ins m (exec_store_word eh ins m)"
proof -
  have w: "good ins m (write_brk eh a 4 v m m1)" if "same_cpu m m1" "cpu_mid m1" for a v m1
    using that by (intro good_write) auto
  have asrt: "good ins m (bindR (ASSERT c) (\<lambda>_. x))"
    if "good ins m x" "\<not> c \<Longrightarrow> stops ins m AssertFailed" for c x
    using that by (cases c) simp_all
  show ?thesis
    using assms w[of m] by (auto simp: exec_store_word_def Let_def stops_def intro!: asrt good_read w)
qed

lemma good_execute:
  assumes "cpu_mid m" "rs ins < 32" "rt ins < 32" "rd ins < 32" "opCode ins \<notin> pseudo_ops"
  shows "good ins m (execute eh ins m)"
proof -
  have [simp]: "HiReg < 34" "LoReg < 34" "R31 < 34" by (simp_all add: reg_defs R31_def)
  have [simp]: "rs ins < 34" "rt ins < 34" "rd ins < 34" using assms by simp_all
  have link: "good ins m (brk_branch t ins m (set_reg R31 v m))" "good ins m (brk_branch t ins m m)"
    "good ins m (Inr (Done (set_reg R31 v m) pc 0 0))" "good ins m (Inr (Done m pc 0 0))"
    "good ins m (Inr (Done (set_reg (rd ins) v m) pc 0 0))" for t v pc
    using assms(1,4) by (auto intro!: good_brk simp: kept_regs_def reg_defs R31_def)
  note grp = exec_add_and_def exec_branch_def exec_div_def exec_jump_def exec_hilo_logic_def
    exec_store_small_def exec_shift_set_def exec_sub_def exec_sys_xor_def
  show ?thesis
    using assms good_load[of m ins] good_store[of m ins] good_trap[OF assms(1)] good_set[OF assms(1)] link
      good_write[OF assms(1)]
    by (cases "opCode ins")
      (simp_all add: execute_def grp Let_def pseudo_ops_def stops_def
        split: prod.split)
qed

text \<open>The instruction about to run, when its fetch translates.\<close>

lemma OneInstruction_ok:
  assumes "cpu_ok m"
  shows "case OneInstruction eh m of
      Inr m' \<Rightarrow> cpu_ok m'
    | Inl f \<Rightarrow> eh_fault f \<or> (\<exists>raw m1. ReadMem eh (reg m PCReg) 4 m = Inr (Some raw, m1)
        \<and> registers m1 = registers m \<and> stops (Decode raw) m1 f)"
proof (cases "ReadMem eh (reg m PCReg) 4 m")
  case (Inl f)
  with ReadMem_cases[of m 4 "reg m PCReg"] assms show ?thesis
    by (simp add: OneInstruction_def cpu_ok_mid)
next
  case (Inr x)
  obtain r m1 where x: "x = (r, m1)" by (cases x)
  show ?thesis
  proof (cases r)
    case None
    with ReadMem_cases[of m 4 "reg m PCReg"] assms Inr x show ?thesis
      by (simp add: OneInstruction_def cpu_ok_mid)
  next
    case (Some raw)
    with ReadMem_cases[of m 4 "reg m PCReg"] assms Inr x have s: "same_cpu m m1" by (simp add: cpu_ok_mid)
    then have mid: "cpu_mid m1" using same_cpu_mid[OF s] assms by (simp add: cpu_ok_mid)
    note g = good_execute[OF mid Decode_fields[of raw]]
    show ?thesis
    proof (cases "execute eh (Decode raw) m1")
      case (Inl f)
      then show ?thesis using g s Inr x Some by (auto simp: OneInstruction_def same_cpu_def)
    next
      case (Inr y)
      show ?thesis
      proof (cases y)
        case (Trapped m2)
        then show ?thesis using g Inr \<open>ReadMem eh (reg m PCReg) 4 m = Inr x\<close> x Some
          by (simp add: OneInstruction_def)
      next
        case (Done m2 pc r v)
        with g Inr have d: "cpu_mid m2" "unat r < NumGPRegs" by simp_all
        obtain m3 where "DelayedLoad r v m2 = Inr m3" "cpu_ok m3" by (rule DelayedLoad_mid[OF d])
        then show ?thesis using Done Inr \<open>ReadMem eh (reg m PCReg) 4 m = Inr x\<close> x Some
          by (simp add: OneInstruction_def advance_def cpu_ok_def reg_defs)
      qed
    qed
  qed
qed

end

section \<open>Decoding and the load delay slot\<close>

lemma imm_sign_extend: "decode_extra IFMT v = scast (ucast v :: 16 word)"
proof -
  have m: "(0xffff :: word32) = mask 16" "(0x8000 :: word32) = 2 ^ 15" "(0xffff0000 :: word32) = NOT (mask 16)"
    by (simp_all add: mask_eq_exp_minus_1)
  have b: "(v AND 0xffff) AND 0x8000 \<noteq> 0 \<longleftrightarrow> bit v 15"
  proof -
    have "(v AND mask 16) AND 2 ^ 15 \<noteq> 0 \<longleftrightarrow> bit (v AND mask 16) 15"
      by (simp only: and_exp_eq_0_iff_not_bit simp_thms)
    then show ?thesis unfolding m by (simp only: bit_and_iff bit_mask_iff) simp
  qed
  show ?thesis
  proof (rule bit_word_eqI)
    fix n assume "n < LENGTH(32)"
    then show "bit (decode_extra IFMT v) n = bit (scast (ucast v :: 16 word) :: word32) n"
      unfolding decode_extra_def OpFormat.case Let_def if_distrib[of "\<lambda>w. bit w n"] b unfolding m
      by (cases "n \<le> 15") (auto simp: bit_simps min_def)
  qed
qed

text \<open>
  Decoding is total and lossless: whatever the 32-bit word, the register fields name general
  registers, the operation is never one of the pseudo codes the switch rejects, and the fields are the bits
  of the instruction word; immediate operands are sign-extended from 16 bits.
\<close>

theorem decode_total:
  "rs (Decode v) < 32 \<and> rt (Decode v) < 32 \<and> rd (Decode v) < 32 \<and> opCode (Decode v) \<notin> {SPECIAL, BCOND, OP_RFE}
    \<and> rs (Decode v) = unat (drop_bit 21 v) mod 32 \<and> rt (Decode v) = unat (drop_bit 16 v) mod 32
    \<and> rd (Decode v) = unat (drop_bit 11 v) mod 32
    \<and> extra (Decode v) = (case snd (opTable ! (unat (drop_bit 26 v) mod 64)) of
        IFMT \<Rightarrow> scast (ucast v :: 16 word) | RFMT \<Rightarrow> take_bit 5 (drop_bit 6 v) | JFMT \<Rightarrow> take_bit 26 v)"
proof -
  have f: "field k 0x1f v = unat (drop_bit k v) mod 32" "field k 0x3f v = unat (drop_bit k v) mod 64" for k
  proof -
    have "drop_bit k v AND 0x1f = take_bit 5 (drop_bit k v)" "drop_bit k v AND 0x3f = take_bit 6 (drop_bit k v)"
      by (simp_all add: take_bit_eq_mask mask_eq_exp_minus_1)
    then show "field k 0x1f v = unat (drop_bit k v) mod 32" "field k 0x3f v = unat (drop_bit k v) mod 64"
      by (simp_all add: field_def unsigned_take_bit_eq) (simp_all add: take_bit_eq_mod)
  qed
  have "(0x1f :: word32) = mask 5" "(0x3ffffff :: word32) = mask 26" by (simp_all add: mask_eq_exp_minus_1)
  then have "extra (Decode v) = (case snd (opTable ! (unat (drop_bit 26 v) mod 64)) of
        IFMT \<Rightarrow> scast (ucast v :: 16 word) | RFMT \<Rightarrow> take_bit 5 (drop_bit 6 v) | JFMT \<Rightarrow> take_bit 26 v)"
    unfolding imm_sign_extend[symmetric]
    by (simp add: Decode_def f decode_extra_def take_bit_eq_mask split: prod.splits OpFormat.splits)
  then show ?thesis using Decode_fields[of v] f
    by (simp add: Decode_def pseudo_ops_def split: prod.splits)
qed

text \<open>
  Load delay: when an instruction leaves a delayed load of \<open>v\<close> into register \<open>r\<close>, the registers the
  next instruction sees do not yet hold \<open>v\<close> (they only hold the load that was pending before); once that
  instruction has finished or trapped, and left the pending load alone, register \<open>r\<close> is \<open>v\<close>. R0 stays zero.
\<close>

theorem load_delay_slot:
  assumes "cpu_mid m" and "0 < r" and "r < 32"
  shows "\<exists>m1. DelayedLoad (of_nat r) v m = Inr m1 \<and> cpu_ok m1
    \<and> (\<forall>i<32. reg m1 i = (if i = 0 then 0 else if i = unat (reg m LoadReg) then reg m LoadValueReg else reg m i))
    \<and> (\<forall>m2 nr nv. vm_ok m2 \<and> reg m2 LoadReg = reg m1 LoadReg \<and> reg m2 LoadValueReg = reg m1 LoadValueReg
         \<and> unat nr < 32 \<longrightarrow> (\<exists>m3. DelayedLoad nr nv m2 = Inr m3 \<and> reg m3 r = v \<and> reg m3 0 = 0))"
proof -
  have r: "unat (of_nat r :: word32) = r" using assms(3) by (simp add: unat_of_nat)
  then have "unat (of_nat r :: word32) < NumGPRegs" using assms(3) by (simp add: NumGPRegs_def)
  from assms(1) this obtain m1 where m1: "DelayedLoad (of_nat r) v m = Inr m1" "cpu_ok m1"
    "\<And>i. reg m1 i = (if i = 0 then 0 else if i = LoadValueReg then v else if i = LoadReg then of_nat r
        else if i = unat (reg m LoadReg) then reg m LoadValueReg else reg m i)"
    by (rule DelayedLoad_mid[where nv = v]) blast
  have lr: "reg m1 LoadReg = of_nat r" "reg m1 LoadValueReg = v" by (simp_all add: m1(3) reg_defs)
  have "\<exists>m3. DelayedLoad nr nv m2 = Inr m3 \<and> reg m3 r = v \<and> reg m3 0 = 0"
    if "vm_ok m2" "reg m2 LoadReg = reg m1 LoadReg" "reg m2 LoadValueReg = reg m1 LoadValueReg" "unat nr < 32" for m2 nr nv
  proof -
    have "cpu_mid m2" "unat nr < NumGPRegs" using that lr r assms(3) by (simp_all add: cpu_mid_def NumGPRegs_def)
    then obtain m3 where "DelayedLoad nr nv m2 = Inr m3"
      "\<And>i. reg m3 i = (if i = 0 then 0 else if i = LoadValueReg then nv else if i = LoadReg then nr
        else if i = unat (reg m2 LoadReg) then reg m2 LoadValueReg else reg m2 i)"
      by (rule DelayedLoad_mid[where nv = nv]) blast
    then show ?thesis using that lr r assms by (simp add: reg_defs)
  qed
  moreover have "\<forall>i<32. reg m1 i = (if i = 0 then 0 else if i = unat (reg m LoadReg) then reg m LoadValueReg else reg m i)"
    by (simp add: m1(3) reg_defs)
  ultimately show ?thesis using m1(1,2) by blast
qed

theorem load_delay_slot_witness:
  "cpu_mid demo_machine \<and> (\<exists>m1. DelayedLoad (of_nat 4) 99 demo_machine = Inr m1 \<and> reg m1 4 = 0
     \<and> (\<exists>m3. DelayedLoad 0 0 m1 = Inr m3 \<and> reg m3 4 = 99))"
proof -
  have mid: "cpu_mid demo_machine" by (simp add: cpu_mid_def demo_machine_ok) (simp add: demo_machine_def Machine_new_def reg_defs)
  from load_delay_slot[OF mid, of 4 99] obtain m1 where "DelayedLoad (of_nat 4) 99 demo_machine = Inr m1" "cpu_ok m1"
    "\<forall>i<32. reg m1 i = (if i = 0 then 0 else if i = unat (reg demo_machine LoadReg) then reg demo_machine LoadValueReg
       else reg demo_machine i)"
    "\<exists>m3. DelayedLoad 0 0 m1 = Inr m3 \<and> reg m3 4 = 99"
    by (force simp: cpu_ok_def cpu_mid_def)
  with mid show ?thesis by (auto simp: demo_machine_def Machine_new_def)
qed

end
