(* ===== verification/Nachos_Disk.thy ===== *)
theory Nachos_Disk
  imports Nachos_Prelude
begin

text \<open>
  machine/disk.h, disk.cc and filesys/synchdisk.cc: the simulated disk and the synchronous layer on it.

  The UNIX file that stores the disk is the field \<open>dfile\<close>, byte by byte, with the magic number in front.
  \<open>clock\<close> is \<open>stats->totalTicks\<close>. A request returns the delay it passes to \<open>interrupt->Schedule\<close>. The
  synchronous operations take the lock, send one request, sleep on the semaphore until the completion
  interrupt, and release the lock: as seen by their caller they are the request followed by
  \<open>HandleInterrupt\<close>, \<open>ticks\<close> later. The locale \<open>sector_store\<close> is the contract the file system relies on.
\<close>

section \<open>The raw disk\<close>

definition SectorSize :: nat where "SectorSize = 512"
definition SectorsPerTrack :: int where "SectorsPerTrack = 32"
definition NumTracks :: int where "NumTracks = 32"
definition NumSectors :: int where "NumSectors = SectorsPerTrack * NumTracks"
definition MagicNumber :: word32 where "MagicNumber = 0x456789ab"
definition MagicSize :: nat where "MagicSize = 4"
definition DiskSize :: nat where "DiskSize = MagicSize + nat NumSectors * SectorSize"

text \<open>machine/stats.h.\<close>

definition RotationTime :: int where "RotationTime = 500"
definition SeekTime :: int where "SeekTime = 500"

lemmas disk_sizes = SectorSize_def SectorsPerTrack_def NumTracks_def NumSectors_def MagicSize_def DiskSize_def

lemma NumSectors_1024 [simp]: "NumSectors = 1024"
  by (simp add: disk_sizes)

record Disk =
  dfile :: "nat \<Rightarrow> byte"
  active :: bool
  lastSector :: int
  bufferInit :: int
  clock :: int
  numDiskReads :: int
  numDiskWrites :: int

text \<open>The file exists, with the given contents, or not (\<open>None\<close>); a new file has the magic number and is
  extended to its full size, its other bytes reading as zero.\<close>

definition Disk_new :: "(nat \<Rightarrow> byte) option \<Rightarrow> int \<Rightarrow> Disk res" where
  "Disk_new host now = (case host of
     Some f \<Rightarrow> bindR (ASSERT (le_word (block f 0 MagicSize) = MagicNumber)) (\<lambda>_.
       Inr \<lparr>dfile = f, active = False, lastSector = 0, bufferInit = 0, clock = now, numDiskReads = 0, numDiskWrites = 0\<rparr>)
   | None \<Rightarrow> Inr \<lparr>dfile = blit (\<lambda>_. 0) 0 (le_bytes MagicSize MagicNumber), active = False, lastSector = 0,
       bufferInit = 0, clock = now, numDiskReads = 0, numDiskWrites = 0\<rparr>)"

text \<open>The pair of the result (the seek time) and \<open>*rotation\<close>.\<close>

definition TimeToSeek :: "int \<Rightarrow> Disk \<Rightarrow> int \<times> int" where
  "TimeToSeek newSector d =
    (let newTrack = newSector sdiv SectorsPerTrack;
         oldTrack = lastSector d sdiv SectorsPerTrack;
         seek = \<bar>newTrack - oldTrack\<bar> * SeekTime;
         over = (clock d + seek) smod RotationTime
     in (seek, if over > 0 then RotationTime - over else 0))"

definition ModuloDiff :: "int \<Rightarrow> int \<Rightarrow> int" where
  "ModuloDiff t f = (t smod SectorsPerTrack - f smod SectorsPerTrack + SectorsPerTrack) smod SectorsPerTrack"

definition ComputeLatency :: "int \<Rightarrow> bool \<Rightarrow> Disk \<Rightarrow> int" where
  "ComputeLatency newSector writing d =
    (let (seek, rotation) = TimeToSeek newSector d;
         timeAfter = clock d + seek + rotation
     in if \<not> writing \<and> seek = 0 \<and>
           (timeAfter - bufferInit d) sdiv RotationTime > ModuloDiff newSector (bufferInit d sdiv RotationTime)
        then RotationTime
        else seek + (rotation + ModuloDiff newSector (timeAfter sdiv RotationTime) * RotationTime) + RotationTime)"

definition UpdateLast :: "int \<Rightarrow> Disk \<Rightarrow> Disk" where
  "UpdateLast newSector d =
    (let (seek, rotate) = TimeToSeek newSector d
     in d\<lparr>bufferInit := (if seek \<noteq> 0 then clock d + seek + rotate else bufferInit d), lastSector := newSector\<rparr>)"

definition sector_addr :: "int \<Rightarrow> nat" where
  "sector_addr s = SectorSize * nat s + MagicSize"

definition ReadRequest :: "int \<Rightarrow> Disk \<Rightarrow> (byte list \<times> int \<times> Disk) res" where
  "ReadRequest sectorNumber d =
    (let ticks = ComputeLatency sectorNumber False d in
     bindR (ASSERT (\<not> active d)) (\<lambda>_.
     bindR (ASSERT (sectorNumber \<ge> 0 \<and> sectorNumber < NumSectors)) (\<lambda>_.
     let data = block (dfile d) (sector_addr sectorNumber) SectorSize;
         d1 = UpdateLast sectorNumber (d\<lparr>active := True\<rparr>)
     in Inr (data, ticks, d1\<lparr>numDiskReads := numDiskReads d1 + 1\<rparr>))))"

definition WriteRequest :: "int \<Rightarrow> byte list \<Rightarrow> Disk \<Rightarrow> (int \<times> Disk) res" where
  "WriteRequest sectorNumber data d =
    (let ticks = ComputeLatency sectorNumber True d in
     bindR (ASSERT (\<not> active d)) (\<lambda>_.
     bindR (ASSERT (sectorNumber \<ge> 0 \<and> sectorNumber < NumSectors)) (\<lambda>_.
     let d1 = UpdateLast sectorNumber (d\<lparr>dfile := blit (dfile d) (sector_addr sectorNumber) (take SectorSize data), active := True\<rparr>)
     in Inr (ticks, d1\<lparr>numDiskWrites := numDiskWrites d1 + 1\<rparr>))))"

text \<open>The part of \<open>HandleInterrupt\<close> that concerns the disk; the handler it then calls is \<open>RequestDone\<close>,
  the V that wakes the waiting thread.\<close>

definition HandleInterrupt :: "Disk \<Rightarrow> Disk" where
  "HandleInterrupt d = d\<lparr>active := False\<rparr>"

section \<open>The synchronous disk\<close>

definition SynchDisk_ReadSector :: "int \<Rightarrow> Disk \<Rightarrow> (byte list \<times> Disk) res" where
  "SynchDisk_ReadSector s d = bindR (ReadRequest s d) (\<lambda>(data, ticks, d1).
     Inr (data, HandleInterrupt (d1\<lparr>clock := clock d1 + ticks\<rparr>)))"

definition SynchDisk_WriteSector :: "int \<Rightarrow> byte list \<Rightarrow> Disk \<Rightarrow> Disk res" where
  "SynchDisk_WriteSector s data d = bindR (WriteRequest s data d) (\<lambda>(ticks, d1).
     Inr (HandleInterrupt (d1\<lparr>clock := clock d1 + ticks\<rparr>)))"

section \<open>Latency\<close>

definition disk_ok :: "Disk \<Rightarrow> bool" where
  "disk_ok d \<longleftrightarrow> \<not> active d \<and> 0 \<le> lastSector d \<and> lastSector d < NumSectors \<and> 0 \<le> clock d \<and> 0 \<le> bufferInit d"

lemma ModuloDiff_bounds: "0 \<le> t \<Longrightarrow> 0 \<le> f \<Longrightarrow> 0 \<le> ModuloDiff t f \<and> ModuloDiff t f < SectorsPerTrack"
proof -
  assume a: "0 \<le> t" "0 \<le> f"
  have "0 \<le> t mod 32 - f mod 32 + 32" using pos_mod_bound[of 32 f] pos_mod_sign[of 32 t] by linarith
  then show ?thesis using a by (simp add: ModuloDiff_def SectorsPerTrack_def smod_nonneg)
qed

lemma TimeToSeek_bounds:
  assumes "0 \<le> s" "s < NumSectors" "0 \<le> lastSector d" "lastSector d < NumSectors" "0 \<le> clock d"
  shows "0 \<le> fst (TimeToSeek s d)" "fst (TimeToSeek s d) \<le> (NumTracks - 1) * SeekTime"
    "0 \<le> snd (TimeToSeek s d)" "snd (TimeToSeek s d) < RotationTime"
proof -
  have tr: "0 \<le> s div 32" "s div 32 \<le> 31" "0 \<le> lastSector d div 32" "lastSector d div 32 \<le> 31"
    using assms by simp_all
  have clk: "clock d mod 500 \<le> 500" by (rule order_less_imp_le) simp
  from tr have k: "0 \<le> \<bar>s div 32 - lastSector d div 32\<bar> * 500" "\<bar>s div 32 - lastSector d div 32\<bar> * 500 \<le> 15500"
    by auto
  moreover have "0 \<le> (clock d + \<bar>s div 32 - lastSector d div 32\<bar> * 500) mod 500"
    "(clock d + \<bar>s div 32 - lastSector d div 32\<bar> * 500) mod 500 < 500" by simp_all
  ultimately show "0 \<le> fst (TimeToSeek s d)" "fst (TimeToSeek s d) \<le> (NumTracks - 1) * SeekTime"
    "0 \<le> snd (TimeToSeek s d)" "snd (TimeToSeek s d) < RotationTime"
    using assms k(1) clk unfolding TimeToSeek_def Let_def SectorsPerTrack_def SeekTime_def RotationTime_def NumTracks_def
    by (simp_all add: sdiv_nonneg smod_nonneg)
qed

lemma latency_bounds:
  assumes "disk_ok d" and "0 \<le> s" and "s < NumSectors"
  shows "RotationTime \<le> ComputeLatency s w d
    \<and> ComputeLatency s w d < (NumTracks - 1) * SeekTime + (SectorsPerTrack + 1) * RotationTime"
proof -
  obtain seek rot where tts: "TimeToSeek s d = (seek, rot)" by (cases "TimeToSeek s d")
  have b: "0 \<le> seek" "seek \<le> 15500" "0 \<le> rot" "rot < 500" "0 \<le> clock d"
    using TimeToSeek_bounds[OF assms(2,3), of d] assms(1) tts
    by (simp_all add: disk_ok_def NumTracks_def SeekTime_def RotationTime_def)
  define md where "md = ModuloDiff s ((clock d + seek + rot) sdiv RotationTime)"
  have "0 \<le> md" "md < 32"
    using ModuloDiff_bounds[of s "(clock d + seek + rot) sdiv RotationTime"] assms(2) b
    by (simp_all add: md_def RotationTime_def sdiv_nonneg pos_imp_zdiv_nonneg_iff SectorsPerTrack_def)
  then have "500 \<le> seek + (rot + md * 500) + 500" "seek + (rot + md * 500) + 500 < 32000"
    using b by linarith+
  then show ?thesis
    using tts unfolding ComputeLatency_def by (auto simp: Let_def md_def RotationTime_def SeekTime_def NumTracks_def SectorsPerTrack_def)
qed

text \<open>
  Disk latency: for every sector of an idle disk the delay handed to \<open>interrupt->Schedule\<close> is at
  least one sector's rotation, hence positive as \<open>Schedule\<close> asserts, and at most a full seek plus a full
  rotation plus two sectors.
\<close>

theorem disk_latency_bounds:
  assumes "disk_ok d" and "0 \<le> s" and "s < NumSectors"
  shows "RotationTime \<le> ComputeLatency s w d
    \<and> ComputeLatency s w d < (NumTracks - 1) * SeekTime + (SectorsPerTrack + 1) * RotationTime"
  by (rule latency_bounds[OF assms])

definition demo_disk :: Disk where
  "demo_disk = \<lparr>dfile = (\<lambda>_. 0), active = False, lastSector = 40, bufferInit = 0, clock = 1234, numDiskReads = 0, numDiskWrites = 0\<rparr>"

theorem disk_latency_bounds_witness:
  "disk_ok demo_disk \<and> RotationTime \<le> ComputeLatency 700 True demo_disk"
proof -
  have ok: "disk_ok demo_disk" by (simp add: disk_ok_def demo_disk_def)
  then show ?thesis using disk_latency_bounds[OF ok, of 700 True] by simp
qed

section \<open>The contract of the sector store\<close>

text \<open>The contents of a sector.\<close>

definition sector_content :: "Disk \<Rightarrow> nat \<Rightarrow> byte list" where
  "sector_content d s = block (dfile d) (sector_addr (int s)) SectorSize"

text \<open>The two loops with which the file system moves a run of blocks: \<open>sec\<close> maps a block number to its
  sector and may fault.\<close>

fun read_blocks :: "(int \<Rightarrow> 'd \<Rightarrow> (byte list \<times> 'd) res) \<Rightarrow> (int \<Rightarrow> int res) \<Rightarrow> int list \<Rightarrow> 'd \<Rightarrow> (byte list \<times> 'd) res" where
  "read_blocks rdf sec [] d = Inr ([], d)"
| "read_blocks rdf sec (i # is) d = bindR (sec i) (\<lambda>s. bindR (rdf s d) (\<lambda>(x, d).
     bindR (read_blocks rdf sec is d) (\<lambda>(y, d). Inr (x @ y, d))))"

fun write_blocks :: "(int \<Rightarrow> byte list \<Rightarrow> 'd \<Rightarrow> 'd res) \<Rightarrow> (int \<Rightarrow> int res) \<Rightarrow> int list \<Rightarrow> byte list \<Rightarrow> 'd \<Rightarrow> 'd res" where
  "write_blocks wrf sec [] buf d = Inr d"
| "write_blocks wrf sec (i # is) buf d = bindR (sec i) (\<lambda>s. bindR (wrf s (take SectorSize buf) d) (\<lambda>d.
     write_blocks wrf sec is (drop SectorSize buf) d))"

locale sector_store =
  fixes ok :: "'d \<Rightarrow> bool"
    and content :: "'d \<Rightarrow> nat \<Rightarrow> byte list"
    and rdf :: "int \<Rightarrow> 'd \<Rightarrow> (byte list \<times> 'd) res"
    and wrf :: "int \<Rightarrow> byte list \<Rightarrow> 'd \<Rightarrow> 'd res"
  assumes content_length: "length (content d t) = SectorSize"
    and read_ok: "ok d \<Longrightarrow> 0 \<le> s \<Longrightarrow> s < NumSectors \<Longrightarrow>
      \<exists>d'. rdf s d = Inr (content d (nat s), d') \<and> ok d' \<and> content d' = content d"
    and write_ok: "ok d \<Longrightarrow> 0 \<le> s \<Longrightarrow> s < NumSectors \<Longrightarrow> length data = SectorSize \<Longrightarrow>
      \<exists>d'. wrf s data d = Inr d' \<and> ok d' \<and> content d' = (content d)(nat s := data)"
begin

lemma read_blocks_ok:
  assumes "ok d" and "\<forall>i\<in>set is. sec i = Inr (int (f i)) \<and> int (f i) < NumSectors"
  shows "\<exists>d'. read_blocks rdf sec is d = Inr (concat (map (\<lambda>i. content d (f i)) is), d') \<and> ok d' \<and> content d' = content d"
  using assms
proof (induction "is" arbitrary: d)
  case (Cons i "is")
  from Cons.prems obtain d1 where d1: "rdf (int (f i)) d = Inr (content d (f i), d1)" "ok d1" "content d1 = content d"
    using read_ok[of d "int (f i)"] by auto
  from Cons.IH[OF d1(2)] Cons.prems(2) d1 show ?case by auto
qed simp

lemma write_blocks_ok:
  assumes "ok d" and "\<forall>i\<in>set is. sec i = Inr (int (f i)) \<and> int (f i) < NumSectors"
    and "distinct (map f is)" and "length buf = SectorSize * length is"
  shows "\<exists>d'. write_blocks wrf sec is buf d = Inr d' \<and> ok d'
    \<and> (\<forall>s. s \<notin> f ` set is \<longrightarrow> content d' s = content d s)
    \<and> concat (map (\<lambda>i. content d' (f i)) is) = buf"
  using assms
proof (induction "is" arbitrary: d buf)
  case (Cons i "is")
  have len: "length (take SectorSize buf) = SectorSize" using Cons.prems(4) by simp
  from Cons.prems len obtain d1 where d1: "wrf (int (f i)) (take SectorSize buf) d = Inr d1" "ok d1"
    "content d1 = (content d)(f i := take SectorSize buf)"
    using write_ok[of d "int (f i)" "take SectorSize buf"] by auto
  have "length (drop SectorSize buf) = SectorSize * length is" using Cons.prems(4) by simp
  moreover have "\<forall>i\<in>set is. sec i = Inr (int (f i)) \<and> int (f i) < NumSectors" "distinct (map f is)"
    using Cons.prems(2,3) by simp_all
  ultimately obtain d2 where
    d2: "write_blocks wrf sec is (drop SectorSize buf) d1 = Inr d2" "ok d2"
    "\<forall>s. s \<notin> f ` set is \<longrightarrow> content d2 s = content d1 s"
    "concat (map (\<lambda>i. content d2 (f i)) is) = drop SectorSize buf"
    using Cons.IH[OF d1(2)] by blast
  have "f i \<notin> f ` set is" using Cons.prems(3) by auto
  then have "content d2 (f i) = take SectorSize buf" using d2(3) d1(3) by simp
  then show ?case using Cons.prems(2) d1 d2 by auto
qed simp

end

lemma sector_addr_block: "sector_addr (int s) = SectorSize * s + MagicSize"
  by (simp add: sector_addr_def)

lemma sector_content_blit:
  assumes "length data = SectorSize" "0 \<le> s"
  shows "block (blit f (sector_addr s) data) (sector_addr (int t)) SectorSize =
    (if t = nat s then data else block f (sector_addr (int t)) SectorSize)"
proof (cases "t = nat s")
  case True
  then show ?thesis using assms block_blit_same[of f "sector_addr s" data] by simp
next
  case False
  then have "sector_addr s + length data \<le> sector_addr (int t) \<or> sector_addr (int t) + SectorSize \<le> sector_addr s"
    using assms by (auto simp: sector_addr_def SectorSize_def not_le)
  then show ?thesis using False by (simp add: block_blit_disjoint)
qed

lemma UpdateLast_keeps [simp]:
  "dfile (UpdateLast s d) = dfile d" "active (UpdateLast s d) = active d" "clock (UpdateLast s d) = clock d"
  "lastSector (UpdateLast s d) = s"
  by (simp_all add: UpdateLast_def split: prod.splits)

lemma UpdateLast_buffer:
  assumes "0 \<le> s" "s < NumSectors" "0 \<le> lastSector d" "lastSector d < NumSectors" "0 \<le> clock d" "0 \<le> bufferInit d"
  shows "0 \<le> bufferInit (UpdateLast s d)"
  using TimeToSeek_bounds[OF assms(1-5)] assms(5,6) by (auto simp: UpdateLast_def split: prod.splits)

lemma SynchDisk_read_ok:
  assumes "disk_ok d" "0 \<le> s" "s < NumSectors"
  shows "\<exists>d'. SynchDisk_ReadSector s d = Inr (sector_content d (nat s), d') \<and> disk_ok d' \<and> sector_content d' = sector_content d"
proof -
  let ?d = "d\<lparr>active := True\<rparr>"
  have "0 \<le> bufferInit (UpdateLast s ?d)" using assms by (intro UpdateLast_buffer) (simp_all add: disk_ok_def)
  moreover have "0 \<le> ComputeLatency s False d" using latency_bounds[OF assms, of False] by (simp add: RotationTime_def)
  ultimately show ?thesis using assms
    by (auto simp: SynchDisk_ReadSector_def ReadRequest_def Let_def HandleInterrupt_def disk_ok_def sector_content_def fun_eq_iff)
qed

lemma SynchDisk_write_ok:
  assumes "disk_ok d" "0 \<le> s" "s < NumSectors" "length data = SectorSize"
  shows "\<exists>d'. SynchDisk_WriteSector s data d = Inr d' \<and> disk_ok d' \<and> sector_content d' = (sector_content d)(nat s := data)"
proof -
  let ?d = "d\<lparr>dfile := blit (dfile d) (sector_addr s) data, active := True\<rparr>"
  have "0 \<le> bufferInit (UpdateLast s ?d)" using assms by (intro UpdateLast_buffer) (simp_all add: disk_ok_def)
  moreover have "0 \<le> ComputeLatency s True d" using latency_bounds[OF assms(1-3), of True] by (simp add: RotationTime_def)
  ultimately show ?thesis using assms
    by (auto simp: SynchDisk_WriteSector_def WriteRequest_def Let_def HandleInterrupt_def disk_ok_def sector_content_def
        fun_eq_iff sector_content_blit)
qed

interpretation sd: sector_store disk_ok sector_content SynchDisk_ReadSector SynchDisk_WriteSector
proof
  show "length (sector_content d t) = SectorSize" for d t by (simp add: sector_content_def)
qed (rule SynchDisk_read_ok SynchDisk_write_ok; assumption)+

end
