(* ===== verification/Nachos_FileHdr.thy ===== *)
theory Nachos_FileHdr
  imports Nachos_BitMap Nachos_Disk
begin

text \<open>
  filesys/filehdr.h and filehdr.cc: the file header (i-node), its allocation out of the free-sector bitmap
  and its representation as one disk sector.

  In memory a header is a record; on disk it is the 512 bytes of the same C++ object, 128 little-endian
  integers. An index outside \<open>dataSectors\<close> is a fault. \<open>Print\<close> is debugging output and not modelled.
\<close>

section \<open>Arrays of integers as bytes\<close>

definition int_bytes :: "int \<Rightarrow> byte list" where
  "int_bytes x = le_bytes 4 (word_of_int x)"

definition ints_bytes :: "int list \<Rightarrow> byte list" where
  "ints_bytes xs = concat (map int_bytes xs)"

fun bytes_ints :: "byte list \<Rightarrow> int list" where
  "bytes_ints (a # b # c # d # bs) = sint (le_word [a, b, c, d]) # bytes_ints bs"
| "bytes_ints _ = []"

definition int_ok :: "int \<Rightarrow> bool" where
  "int_ok x \<longleftrightarrow> - (2 ^ 31) \<le> x \<and> x < 2 ^ 31"

lemma length_int_bytes [simp]: "length (int_bytes x) = 4"
  by (simp add: int_bytes_def)

lemma length_ints_bytes [simp]: "length (ints_bytes xs) = 4 * length xs"
  by (induction xs) (simp_all add: ints_bytes_def)

lemma int_bytes_4: obtains a b c d where "int_bytes x = [a, b, c, d]"
proof -
  have "length (int_bytes x) = Suc (Suc (Suc (Suc 0)))" by simp
  then show thesis unfolding length_Suc_conv using that by blast
qed

lemma sint_int_bytes: "int_ok x \<Longrightarrow> sint (le_word (int_bytes x)) = x"
  by (simp add: int_bytes_def int_ok_def sint_sbintrunc' signed_take_bit_int_eq_self)

lemma bytes_ints_Cons: "bytes_ints (int_bytes x @ bs) = sint (le_word (int_bytes x)) # bytes_ints bs"
  by (rule int_bytes_4[of x]) simp

lemma bytes_ints_roundtrip: "\<forall>x\<in>set xs. int_ok x \<Longrightarrow> bytes_ints (ints_bytes xs) = xs"
  by (induction xs) (simp_all add: ints_bytes_def bytes_ints_Cons sint_int_bytes)

lemma length_bytes_ints [simp]: "length (bytes_ints bs) = length bs div 4"
  by (induction bs rule: bytes_ints.induct) auto

lemma int_bytes_sint: "int_bytes (sint (le_word [a, b, c, d])) = [a, b, c, d]"
  using le_bytes_le_word[of "[a, b, c, d]"] by (simp add: int_bytes_def numeral_eq_Suc)

lemma ints_bytes_roundtrip: "length bs mod 4 = 0 \<Longrightarrow> ints_bytes (bytes_ints bs) = bs"
  by (induction bs rule: bytes_ints.induct) (auto simp: ints_bytes_def int_bytes_sint mod_Suc simp del: le_word.simps split: if_splits)

lemma int_ok_bytes_ints: "\<forall>x\<in>set (bytes_ints bs). int_ok x"
proof (induction bs rule: bytes_ints.induct)
  case (1 a b c d bs)
  have "int_ok (sint (w :: word32))" for w
    using sint_range_size[of w] by (simp add: word_size int_ok_def)
  with 1 show ?case by simp
qed simp_all

section \<open>Headers\<close>

definition NumDirect :: nat where "NumDirect = (SectorSize - 2 * 4) div 4"
definition MaxFileSize :: nat where "MaxFileSize = NumDirect * SectorSize"

lemma NumDirect_126: "NumDirect = 126"
  by (simp add: NumDirect_def SectorSize_def)

record FileHeader =
  numBytes :: int
  numSectors :: int
  dataSectors :: "int list"

definition alloc_step :: "nat \<Rightarrow> FileHeader \<times> BitMap \<Rightarrow> (FileHeader \<times> BitMap) res" where
  "alloc_step i = (\<lambda>(h, fm). bindR (BitMap_Find fm) (\<lambda>(s, fm).
     if i \<ge> NumDirect then Inl OutOfBounds else Inr (h\<lparr>dataSectors := (dataSectors h)[i := s]\<rparr>, fm)))"

definition FileHeader_Allocate :: "BitMap \<Rightarrow> int \<Rightarrow> FileHeader \<Rightarrow> (bool \<times> FileHeader \<times> BitMap) res" where
  "FileHeader_Allocate freeMap fileSize h =
    (let ns = divRoundUp fileSize (int SectorSize); h = h\<lparr>numBytes := fileSize, numSectors := ns\<rparr> in
     bindR (BitMap_NumClear freeMap) (\<lambda>c.
     if c < ns then Inr (False, h, freeMap)
     else bindR (forR alloc_step [0..<nat ns] (h, freeMap)) (\<lambda>(h, fm). Inr (True, h, fm))))"

definition FileHeader_Deallocate :: "BitMap \<Rightarrow> FileHeader \<Rightarrow> BitMap res" where
  "FileHeader_Deallocate freeMap h = forR (\<lambda>i fm.
     if i \<ge> length (dataSectors h) then Inl OutOfBounds else
     bindR (BitMap_Test (dataSectors h ! i) fm) (\<lambda>t.
     bindR (ASSERT t) (\<lambda>_. BitMap_Clear (dataSectors h ! i) fm))) [0..<nat (numSectors h)] freeMap"

definition hdr_bytes :: "FileHeader \<Rightarrow> byte list" where
  "hdr_bytes h = ints_bytes (numBytes h # numSectors h # dataSectors h)"

definition hdr_of_bytes :: "byte list \<Rightarrow> FileHeader" where
  "hdr_of_bytes bs = (let xs = bytes_ints bs in \<lparr>numBytes = xs ! 0, numSectors = xs ! 1, dataSectors = drop 2 xs\<rparr>)"

definition FileHeader_FetchFrom :: "int \<Rightarrow> Disk \<Rightarrow> (FileHeader \<times> Disk) res" where
  "FileHeader_FetchFrom sector d = bindR (SynchDisk_ReadSector sector d) (\<lambda>(bs, d). Inr (hdr_of_bytes bs, d))"

definition FileHeader_WriteBack :: "int \<Rightarrow> FileHeader \<Rightarrow> Disk \<Rightarrow> Disk res" where
  "FileHeader_WriteBack sector h d = SynchDisk_WriteSector sector (hdr_bytes h) d"

definition ByteToSector :: "FileHeader \<Rightarrow> int \<Rightarrow> int res" where
  "ByteToSector h offset = (let i = offset sdiv int SectorSize in
     if 0 \<le> i \<and> i < int (length (dataSectors h)) then Inr (dataSectors h ! nat i) else Inl OutOfBounds)"

definition FileLength :: "FileHeader \<Rightarrow> int" where
  "FileLength h = numBytes h"

text \<open>A header whose fields fit their C++ types.\<close>

definition hdr_typed :: "FileHeader \<Rightarrow> bool" where
  "hdr_typed h \<longleftrightarrow> int_ok (numBytes h) \<and> int_ok (numSectors h) \<and> length (dataSectors h) = NumDirect
     \<and> (\<forall>s\<in>set (dataSectors h). int_ok s)"

lemma length_hdr_bytes: "hdr_typed h \<Longrightarrow> length (hdr_bytes h) = SectorSize"
  by (simp add: hdr_bytes_def hdr_typed_def NumDirect_def SectorSize_def)

lemma hdr_roundtrip: "hdr_typed h \<Longrightarrow> hdr_of_bytes (hdr_bytes h) = h"
  by (simp add: hdr_bytes_def hdr_of_bytes_def bytes_ints_roundtrip hdr_typed_def)

lemma hdr_of_bytes_typed:
  assumes "length bs = SectorSize"
  shows "hdr_typed (hdr_of_bytes bs)"
proof -
  have l: "length (bytes_ints bs) = 128" using assms by (simp add: SectorSize_def)
  then have "int_ok (bytes_ints bs ! i)" if "i < 128" for i using that int_ok_bytes_ints[of bs] by simp
  moreover have "\<forall>s\<in>set (drop 2 (bytes_ints bs)). int_ok s" using int_ok_bytes_ints[of bs] by (auto dest: in_set_dropD)
  ultimately show ?thesis using l by (simp add: hdr_typed_def hdr_of_bytes_def Let_def NumDirect_126)
qed

text \<open>
  Headers survive the disk: writing a header back to a sector and fetching it again returns the
  same header, and every other sector keeps its contents.
\<close>

theorem header_disk_roundtrip:
  assumes "disk_ok d" and "0 \<le> sector" and "sector < NumSectors" and "hdr_typed h"
  shows "\<exists>d1 d2. FileHeader_WriteBack sector h d = Inr d1 \<and> FileHeader_FetchFrom sector d1 = Inr (h, d2)
    \<and> disk_ok d2 \<and> (\<forall>s. s \<noteq> nat sector \<longrightarrow> sector_content d2 s = sector_content d s)"
proof -
  obtain d1 where d1: "SynchDisk_WriteSector sector (hdr_bytes h) d = Inr d1" "disk_ok d1"
    "sector_content d1 = (sector_content d)(nat sector := hdr_bytes h)"
    using sd.write_ok[OF assms(1-3) length_hdr_bytes[OF assms(4)]] by blast
  obtain d2 where d2: "SynchDisk_ReadSector sector d1 = Inr (sector_content d1 (nat sector), d2)" "disk_ok d2"
    "sector_content d2 = sector_content d1" using sd.read_ok[OF d1(2) assms(2,3)] by blast
  show ?thesis
    using d1 d2 hdr_roundtrip[OF assms(4)]
    by (intro exI[of _ d1] exI[of _ d2]) (simp add: FileHeader_WriteBack_def FileHeader_FetchFrom_def)
qed

definition demo_hdr :: FileHeader where
  "demo_hdr = \<lparr>numBytes = 700, numSectors = 2, dataSectors = [7, 9] @ replicate 124 (-1)\<rparr>"

lemma demo_hdr_typed: "hdr_typed demo_hdr"
  by (simp add: demo_hdr_def hdr_typed_def int_ok_def NumDirect_126)

theorem header_disk_roundtrip_witness:
  "disk_ok demo_disk \<and> hdr_typed demo_hdr
    \<and> (\<exists>d1 d2. FileHeader_WriteBack 5 demo_hdr demo_disk = Inr d1 \<and> FileHeader_FetchFrom 5 d1 = Inr (demo_hdr, d2))"
proof -
  have ok: "disk_ok demo_disk" by (simp add: disk_ok_def demo_disk_def)
  show ?thesis using header_disk_roundtrip[OF ok _ _ demo_hdr_typed, of 5] ok demo_hdr_typed by auto
qed

section \<open>Allocation\<close>

lemma alloc_loop:
  assumes "length (dataSectors h) = NumDirect" and "a + n \<le> NumDirect"
  shows "forR alloc_step [a..<a + n] (h, fm) = bindR (alloc_n BitMap_Find n fm) (\<lambda>(is, fm').
     Inr (h\<lparr>dataSectors := take a (dataSectors h) @ is @ drop (a + n) (dataSectors h)\<rparr>, fm'))"
  using assms
proof (induction n arbitrary: a h fm)
  case (Suc n)
  have "[a..<a + Suc n] = a # [Suc a..<Suc a + n]" by (simp add: upt_conv_Cons)
  then have up: "forR alloc_step [a..<a + Suc n] (h, fm) =
      bindR (alloc_step a (h, fm)) (forR alloc_step [Suc a..<Suc a + n])" by (simp only: forR.simps)
  have upd: "take (Suc a) ((dataSectors h)[a := s]) = take a (dataSectors h) @ [s]" for s
    using Suc.prems by (simp add: take_Suc_conv_app_nth)
  show ?case
  proof (cases "BitMap_Find fm")
    case (Inr x)
    obtain s fm1 where x: "x = (s, fm1)" by (cases x)
    let ?h = "h\<lparr>dataSectors := (dataSectors h)[a := s]\<rparr>"
    have "forR alloc_step [Suc a..<Suc a + n] (?h, fm1) = bindR (alloc_n BitMap_Find n fm1) (\<lambda>(is, fm').
        Inr (?h\<lparr>dataSectors := take (Suc a) (dataSectors ?h) @ is @ drop (Suc a + n) (dataSectors ?h)\<rparr>, fm'))"
      by (rule Suc.IH) (use Suc.prems in auto)
    moreover have "alloc_step a (h, fm) = Inr (?h, fm1)" using Suc.prems Inr x by (simp add: alloc_step_def)
    ultimately show ?thesis unfolding up using x Inr upd
      by (cases "alloc_n BitMap_Find n fm1") (auto simp del: upt_Suc)
  qed (unfold up, simp add: alloc_step_def)
qed simp

text \<open>The sectors that hold the file's data, and the headers \<open>Allocate\<close> produces.\<close>

definition hdr_sectors :: "FileHeader \<Rightarrow> int list" where
  "hdr_sectors h = take (nat (numSectors h)) (dataSectors h)"

definition hdr_ok :: "FileHeader \<Rightarrow> bool" where
  "hdr_ok h \<longleftrightarrow> hdr_typed h \<and> 0 \<le> numBytes h \<and> numSectors h = divRoundUp (numBytes h) (int SectorSize)
     \<and> numSectors h \<le> int NumDirect \<and> distinct (hdr_sectors h)
     \<and> (\<forall>s\<in>set (hdr_sectors h). 0 \<le> s \<and> s < NumSectors)"

lemma numBits_bm_size: "bm_ok fm \<Longrightarrow> numBits fm = int (bm_size fm)"
  by (simp add: bm_ok_def bm_size_def)

lemma deallocate_ok:
  assumes "bm_ok fm" and "hdr_sectors h = map int is" and "length is = nat (numSectors h)"
    and "distinct is" and "set is \<subseteq> bm_set fm"
  shows "\<exists>fm'. FileHeader_Deallocate fm h = Inr fm' \<and> bm_ok fm' \<and> bm_size fm' = bm_size fm \<and> bm_set fm' = bm_set fm - set is"
proof -
  let ?P = "\<lambda>i fm'. bm_ok fm' \<and> bm_size fm' = bm_size fm \<and> bm_set fm' = bm_set fm - set (take i is)"
  have "length (hdr_sectors h) = nat (numSectors h)" using assms(2,3) by simp
  then have le: "nat (numSectors h) \<le> length (dataSectors h)" by (simp add: hdr_sectors_def)
  have "\<exists>fm'. FileHeader_Deallocate fm h = Inr fm' \<and> ?P (nat (numSectors h)) fm'"
    unfolding FileHeader_Deallocate_def
  proof (rule forR_upt_rule[where P = ?P])
    fix i fm1 assume i: "i < nat (numSectors h)" and P: "?P i fm1"
    have "hdr_sectors h ! i = dataSectors h ! i" using i le by (simp add: hdr_sectors_def)
    then have d: "dataSectors h ! i = int (is ! i)" using assms(2,3) i by simp
    have take: "set (take (Suc i) is) = insert (is ! i) (set (take i is))"
      using i assms(3) by (simp add: take_Suc_conv_app_nth)
    have "is ! i \<notin> set (take i is)"
      using i assms(3,4) by (auto simp: in_set_conv_nth nth_eq_iff_index_eq)
    then have m: "is ! i \<in> bm_set fm1" using P i assms(3,5) nth_mem[of i "is"] by auto
    then have b: "is ! i < bm_size fm1" using bm_set_bound by blast
    obtain fm2 where "BitMap_Clear (int (is ! i)) fm1 = Inr fm2" "bm_ok fm2" "bm_size fm2 = bm_size fm1"
      "bm_set fm2 = bm_set fm1 - {is ! i}" using BitMap_Clear_spec[of fm1 "is ! i"] P b by blast
    then show "\<exists>s'. (if i \<ge> length (dataSectors h) then Inl OutOfBounds else
        bindR (BitMap_Test (dataSectors h ! i) fm1) (\<lambda>t. bindR (ASSERT t) (\<lambda>_. BitMap_Clear (dataSectors h ! i) fm1))) = Inr s'
        \<and> ?P (Suc i) s'"
      using P b m d take i le by (auto simp: BitMap_Test_eq)
  qed (use assms(1) in auto)
  then show ?thesis using assms(3) by simp
qed

lemma in_set_take_drop_ok: "hdr_typed h \<Longrightarrow> s \<in> set (drop n (dataSectors h)) \<Longrightarrow> int_ok s"
  by (auto simp: hdr_typed_def dest: in_set_dropD)

lemma allocate_spec:
  assumes "bm_ok fm" and "numBits fm = NumSectors" and "0 \<le> sz" and "sz \<le> int MaxFileSize" and "hdr_typed h"
  shows "if int (bm_size fm - card (bm_set fm)) < divRoundUp sz (int SectorSize)
    then \<exists>h'. FileHeader_Allocate fm sz h = Inr (False, h', fm)
    else \<exists>h' fm' fm''. FileHeader_Allocate fm sz h = Inr (True, h', fm') \<and> hdr_ok h' \<and> numBytes h' = sz
      \<and> bm_ok fm' \<and> numBits fm' = NumSectors \<and> nat ` set (hdr_sectors h') \<inter> bm_set fm = {}
      \<and> bm_set fm' = bm_set fm \<union> nat ` set (hdr_sectors h')
      \<and> FileHeader_Deallocate fm' h' = Inr fm'' \<and> bm_ok fm'' \<and> bm_set fm'' = bm_set fm"
proof -
  let ?n = "divRoundUp sz (int SectorSize)"
  have n: "0 \<le> ?n" "?n \<le> int NumDirect"
  proof -
    show "0 \<le> ?n" using assms(3) by (intro divRoundUp_ge_0) (simp_all add: SectorSize_def)
    have "?n * int SectorSize < sz + int SectorSize" using assms(3) by (intro divRoundUp_lower) (simp_all add: SectorSize_def)
    then have "?n * 512 < int NumDirect * 512 + 512" using assms(4) by (simp add: MaxFileSize_def SectorSize_def)
    then show "?n \<le> int NumDirect" by linarith
  qed
  show ?thesis
  proof (cases "int (bm_size fm - card (bm_set fm)) < ?n")
    case True
    then show ?thesis using bm.num_clear_eq[OF assms(1)] by (simp add: FileHeader_Allocate_def Let_def)
  next
    case False
    then have "nat ?n \<le> bm_size fm - card (bm_set fm)" by linarith
    from bm.alloc_n_ok[OF assms(1) this] obtain "is" fm' where al: "alloc_n BitMap_Find (nat ?n) fm = Inr (map int is, fm')"
      "bm_ok fm'" "bm_size fm' = bm_size fm" "length is = nat ?n" "distinct is" "set is \<inter> bm_set fm = {}"
      "set is \<subseteq> {..<bm_size fm}" "bm_set fm' = bm_set fm \<union> set is" by blast
    let ?h = "h\<lparr>numBytes := sz, numSectors := ?n\<rparr>"
    let ?h' = "?h\<lparr>dataSectors := map int is @ drop (nat ?n) (dataSectors h)\<rparr>"
    have len: "length (dataSectors h) = NumDirect" using assms(5) by (simp add: hdr_typed_def)
    have "forR alloc_step [0..<nat ?n] (?h, fm) = Inr (?h', fm')"
      using alloc_loop[of ?h 0 "nat ?n" fm] len n(2) al(1) by simp
    then have run: "FileHeader_Allocate fm sz h = Inr (True, ?h', fm')"
      using False bm.num_clear_eq[OF assms(1)] by (simp add: FileHeader_Allocate_def Let_def)
    have secs: "hdr_sectors ?h' = map int is" using al(4) by (simp add: hdr_sectors_def)
    have b: "i < 1024" if "i \<in> set is" for i
      using that al(7) assms(2) numBits_bm_size[OF assms(1)] by auto
    then have b2: "i < 2147483648" if "i \<in> set is" for i using that by fastforce
    have "hdr_ok ?h'"
      using assms n len al b b2 secs in_set_take_drop_ok[OF assms(5), of _ "nat ?n"]
      by (auto simp: hdr_ok_def hdr_typed_def int_ok_def distinct_map inj_on_def MaxFileSize_def NumDirect_126 SectorSize_def)
    moreover have "nat ` set (hdr_sectors ?h') = set is" using secs by (simp add: image_image)
    moreover have "bm_set fm \<union> set is - set is = bm_set fm" using al(6) by auto
    moreover obtain fm'' where "FileHeader_Deallocate fm' ?h' = Inr fm''" "bm_ok fm''" "bm_set fm'' = bm_set fm' - set is"
      using deallocate_ok[OF al(2) secs _ al(5)] al(4,8) by auto
    moreover have "numBits fm' = NumSectors"
      using numBits_bm_size[OF al(2)] numBits_bm_size[OF assms(1)] al(3) assms(2) by simp
    ultimately show ?thesis using False run al(2,6,8)
      by (intro iffD2[OF if_not_P]) (auto intro!: exI[of _ ?h'] exI[of _ fm'] exI[of _ fm''])
  qed
qed

text \<open>
  Allocation: for a file of at most \<open>MaxFileSize\<close> bytes, \<open>Allocate\<close> answers FALSE and leaves the free
  map alone exactly when there are too few clear sectors; otherwise it yields a well-formed header whose
  data sectors are distinct, were all clear and are now exactly the additional marked ones, and
  \<open>Deallocate\<close> of that header gives back the original set of marked sectors.
\<close>

theorem allocate_deallocate:
  assumes "bm_ok fm" and "numBits fm = NumSectors" and "0 \<le> sz" and "sz \<le> int MaxFileSize" and "hdr_typed h"
  shows "if int (bm_size fm - card (bm_set fm)) < divRoundUp sz (int SectorSize)
    then \<exists>h'. FileHeader_Allocate fm sz h = Inr (False, h', fm)
    else \<exists>h' fm' fm''. FileHeader_Allocate fm sz h = Inr (True, h', fm') \<and> hdr_ok h' \<and> numBytes h' = sz
      \<and> bm_ok fm' \<and> numBits fm' = NumSectors \<and> nat ` set (hdr_sectors h') \<inter> bm_set fm = {}
      \<and> bm_set fm' = bm_set fm \<union> nat ` set (hdr_sectors h')
      \<and> FileHeader_Deallocate fm' h' = Inr fm'' \<and> bm_ok fm'' \<and> bm_set fm'' = bm_set fm"
  by (rule allocate_spec[OF assms])

definition fresh_map :: BitMap where
  "fresh_map = \<lparr>numBits = 1024, numWords = 32, bmap = replicate 32 0\<rparr>"

lemma fresh_map_ok: "bm_ok fresh_map" "numBits fresh_map = NumSectors" "bm_set fresh_map = {}" "bm_size fresh_map = 1024"
proof -
  show "bm_ok fresh_map" "numBits fresh_map = NumSectors" "bm_size fresh_map = 1024"
    by (simp_all add: fresh_map_def bm_ok_def bm_size_def BitsInWord_def divRoundUp_nonneg)
  show "bm_set fresh_map = {}"
    by (auto simp: bm_set_def bm_bit_def fresh_map_def bm_size_def)
qed

theorem allocate_deallocate_witness:
  "\<exists>h' fm'. FileHeader_Allocate fresh_map 700 demo_hdr = Inr (True, h', fm') \<and> hdr_ok h' \<and> numBytes h' = 700"
  using allocate_deallocate[OF fresh_map_ok(1,2) _ _ demo_hdr_typed, of 700]
  by (auto simp: fresh_map_ok MaxFileSize_def NumDirect_126 SectorSize_def divRoundUp_nonneg)

text \<open>
  C14. The missing size check: asked for more than \<open>MaxFileSize\<close> bytes while the disk has room,
  \<open>Allocate\<close> does not answer FALSE but writes past the end of \<open>dataSectors\<close>.
\<close>

theorem allocate_overruns_header:
  assumes "bm_ok fm" and "int MaxFileSize < sz" and "hdr_typed h"
    and "divRoundUp sz (int SectorSize) \<le> int (bm_size fm - card (bm_set fm))"
  shows "FileHeader_Allocate fm sz h = Inl OutOfBounds"
proof -
  let ?n = "divRoundUp sz (int SectorSize)"
  let ?h = "h\<lparr>numBytes := sz, numSectors := ?n\<rparr>"
  have "0 \<le> sz" using assms(2) by (rule order_trans[OF of_nat_0_le_iff order_less_imp_le])
  then have "sz \<le> ?n * int SectorSize" by (rule divRoundUp_upper) (simp add: SectorSize_def)
  then have "int NumDirect < ?n" using assms(2) by (simp add: MaxFileSize_def SectorSize_def)
  then have big: "Suc NumDirect \<le> nat ?n" by linarith
  then have split: "[0..<nat ?n] = [0..<0 + NumDirect] @ NumDirect # [Suc NumDirect..<nat ?n]"
    using upt_add_eq_append[of 0 NumDirect "nat ?n - NumDirect"] by (simp add: upt_conv_Cons)
  have "Suc NumDirect \<le> bm_size fm - card (bm_set fm)" using big assms(4) by linarith
  from bm.alloc_n_ok[OF assms(1), of NumDirect] this obtain "is" fm' where
    al: "alloc_n BitMap_Find NumDirect fm = Inr (map int is, fm')" "bm_ok fm'" by fastforce
  have len: "length (dataSectors ?h) = NumDirect" using assms(3) by (simp add: hdr_typed_def)
  have first: "forR alloc_step [0..<0 + NumDirect] (?h, fm) = Inr (?h\<lparr>dataSectors := map int is @ drop NumDirect (dataSectors h)\<rparr>, fm')"
    using alloc_loop[OF len, of 0 NumDirect fm] al by simp
  obtain r where "BitMap_Find fm' = Inr r"
    using bm.find_full[OF al(2)] bm.find_free[OF al(2)] by blast
  then have "alloc_step NumDirect (h', fm') = Inl OutOfBounds" for h'
    by (cases r) (simp add: alloc_step_def)
  then have "forR alloc_step [0..<nat ?n] (?h, fm) = Inl OutOfBounds"
    unfolding split forR_append first by simp
  then show ?thesis using bm.num_clear_eq[OF assms(1)] assms(4)
    by (simp add: FileHeader_Allocate_def Let_def)
qed

theorem allocate_overruns_header_witness:
  "FileHeader_Allocate fresh_map 64513 demo_hdr = Inl OutOfBounds"
  by (rule allocate_overruns_header[OF fresh_map_ok(1) _ demo_hdr_typed])
    (simp_all add: fresh_map_ok MaxFileSize_def NumDirect_126 SectorSize_def divRoundUp_nonneg)

end
