(* ===== verification/Nachos_OpenFile.thy ===== *)
theory Nachos_OpenFile
  imports Nachos_FileHdr
begin

text \<open>
  filesys/openfile.h (the FILESYS branch) and openfile.cc: reading and writing byte ranges of a file through
  whole-sector transfers.

  \<open>file_data\<close> abstracts a header and a disk to the bytes of the file. Reading refines taking a slice of it,
  writing refines overwriting a slice. Buffers are byte lists; the bytes of a buffer fresh from \<open>new\<close> are
  an argument (\<open>junk\<close>). \<open>position + numBytes\<close> is computed in a 32-bit \<open>int\<close>.
\<close>

section \<open>Operations\<close>

record OpenFile =
  of_hdr :: FileHeader
  of_type :: int
  seekPosition :: int

text \<open>Both constructors: the one without a type leaves \<open>type\<close> as it finds it in memory.\<close>

definition OpenFile_new :: "int \<Rightarrow> int \<Rightarrow> Disk \<Rightarrow> (OpenFile \<times> Disk) res" where
  "OpenFile_new sector ty d = bindR (FileHeader_FetchFrom sector d) (\<lambda>(h, d).
     Inr (\<lparr>of_hdr = h, of_type = ty, seekPosition = 0\<rparr>, d))"

definition OpenFile_Seek :: "int \<Rightarrow> OpenFile \<Rightarrow> OpenFile" where
  "OpenFile_Seek position f = f\<lparr>seekPosition := position\<rparr>"

definition OpenFile_Length :: "OpenFile \<Rightarrow> int" where
  "OpenFile_Length f = FileLength (of_hdr f)"

text \<open>\<open>bcopy\<close> of \<open>xs\<close> into a buffer at \<open>k\<close>.\<close>

definition overwrite :: "nat \<Rightarrow> byte list \<Rightarrow> byte list \<Rightarrow> byte list" where
  "overwrite k xs buf = map (\<lambda>j. if k \<le> j \<and> j < k + length xs then xs ! (j - k) else buf ! j) [0..<length buf]"

definition block_sector :: "FileHeader \<Rightarrow> int \<Rightarrow> int res" where
  "block_sector h i = ByteToSector h (i * int SectorSize)"

text \<open>The bytes copied to \<open>into\<close>; the integer the code returns is their number.\<close>

definition OpenFile_ReadAt :: "OpenFile \<Rightarrow> int \<Rightarrow> int \<Rightarrow> Disk \<Rightarrow> (byte list \<times> Disk) res" where
  "OpenFile_ReadAt f n position d =
    (let fileLength = FileLength (of_hdr f) in
     if n \<le> 0 \<or> position \<ge> fileLength then Inr ([], d) else
     let n = (if i32 (position + n) > fileLength then fileLength - position else n);
         firstSector = divRoundDown position (int SectorSize);
         lastSector = divRoundDown (position + n - 1) (int SectorSize) in
     bindR (read_blocks SynchDisk_ReadSector (block_sector (of_hdr f)) [firstSector..lastSector] d) (\<lambda>(buf, d).
     let off = position - firstSector * int SectorSize in
     if off < 0 \<or> off + n > int (length buf) then Inl OutOfBounds
     else Inr (take (nat n) (drop (nat off) buf), d)))"

definition OpenFile_WriteAt :: "(nat \<Rightarrow> byte) \<Rightarrow> OpenFile \<Rightarrow> byte list \<Rightarrow> int \<Rightarrow> int \<Rightarrow> Disk \<Rightarrow> (int \<times> Disk) res" where
  "OpenFile_WriteAt junk f from n position d =
    (let fileLength = FileLength (of_hdr f) in
     if n \<le> 0 \<or> position \<ge> fileLength then Inr (0, d) else
     let n = (if i32 (position + n) > fileLength then fileLength - position else n);
         firstSector = divRoundDown position (int SectorSize);
         lastSector = divRoundDown (position + n - 1) (int SectorSize);
         nSectors = 1 + lastSector - firstSector;
         buf = map junk [0..<nat nSectors * SectorSize];
         firstAligned = (position = firstSector * int SectorSize);
         lastAligned = (position + n = (lastSector + 1) * int SectorSize) in
     bindR (if \<not> firstAligned
            then bindR (OpenFile_ReadAt f (int SectorSize) (firstSector * int SectorSize) d) (\<lambda>(x, d).
                   Inr (overwrite 0 x buf, d))
            else Inr (buf, d)) (\<lambda>(buf, d).
     bindR (if \<not> lastAligned \<and> (firstSector \<noteq> lastSector \<or> firstAligned)
            then bindR (OpenFile_ReadAt f (int SectorSize) (lastSector * int SectorSize) d) (\<lambda>(x, d).
                   Inr (overwrite (nat (lastSector - firstSector) * SectorSize) x buf, d))
            else Inr (buf, d)) (\<lambda>(buf, d).
     let off = position - firstSector * int SectorSize in
     if off < 0 \<or> off + n > int (length buf) \<or> n > int (length from) then Inl OutOfBounds else
     bindR (write_blocks SynchDisk_WriteSector (block_sector (of_hdr f)) [firstSector..lastSector]
              (overwrite (nat off) (take (nat n) from) buf) d) (\<lambda>d. Inr (n, d)))))"

definition OpenFile_Read :: "OpenFile \<Rightarrow> int \<Rightarrow> Disk \<Rightarrow> (byte list \<times> OpenFile \<times> Disk) res" where
  "OpenFile_Read f n d = bindR (OpenFile_ReadAt f n (seekPosition f) d) (\<lambda>(x, d).
     Inr (x, f\<lparr>seekPosition := seekPosition f + int (length x)\<rparr>, d))"

definition OpenFile_Write :: "(nat \<Rightarrow> byte) \<Rightarrow> OpenFile \<Rightarrow> byte list \<Rightarrow> int \<Rightarrow> Disk \<Rightarrow> (int \<times> OpenFile \<times> Disk) res" where
  "OpenFile_Write junk f from n d = bindR (OpenFile_WriteAt junk f from n (seekPosition f) d) (\<lambda>(r, d).
     Inr (r, f\<lparr>seekPosition := seekPosition f + r\<rparr>, d))"

definition OpenFile_GetCurrentPos :: "OpenFile \<Rightarrow> int" where
  "OpenFile_GetCurrentPos f = seekPosition f"

section \<open>The bytes of a file\<close>

definition file_byte :: "Disk \<Rightarrow> FileHeader \<Rightarrow> nat \<Rightarrow> byte" where
  "file_byte d h p = sector_content d (nat (dataSectors h ! (p div SectorSize))) ! (p mod SectorSize)"

definition file_data :: "Disk \<Rightarrow> FileHeader \<Rightarrow> byte list" where
  "file_data d h = map (file_byte d h) [0..<nat (numBytes h)]"

lemma length_overwrite [simp]: "length (overwrite k xs buf) = length buf"
  by (simp add: overwrite_def)

lemma nth_overwrite:
  "j < length buf \<Longrightarrow> overwrite k xs buf ! j = (if k \<le> j \<and> j < k + length xs then xs ! (j - k) else buf ! j)"
  by (simp add: overwrite_def)

lemma length_file_data [simp]: "length (file_data d h) = nat (numBytes h)"
  by (simp add: file_data_def)

lemma upto_int_upt: "[int a..int b] = map int [a..<Suc b]"
proof (induction "Suc b - a" arbitrary: a)
  case (Suc n)
  then have "[int a..int b] = int a # [int (Suc a)..int b]" by (simp add: upto_rec1 add.commute)
  also have "[int (Suc a)..int b] = map int [Suc a..<Suc b]"
    by (rule Suc.hyps(1)) (use Suc.hyps(2) in simp)
  finally show ?case using Suc.hyps(2) by (simp add: upt_conv_Cons del: upt_Suc)
qed simp

lemma upt_blocks: "a \<le> b \<Longrightarrow> [a * m..<Suc b * m] = [a * m..<b * m] @ [b * m..<b * m + (m :: nat)]"
  using upt_add_eq_append[of "a * m" "b * m" m] by (simp add: add.commute)

lemma concat_blocks:
  assumes "\<And>i. length (c i) = m" and "a \<le> b" and "0 < m"
  shows "concat (map c [a..<b]) = map (\<lambda>p. c (p div m) ! (p mod m)) [a * m..<b * m]"
  using assms(2)
proof (induction b)
  case (Suc b)
  show ?case
  proof (cases "a \<le> b")
    case True
    have "map (\<lambda>p. c (p div m) ! (p mod m)) [b * m..<b * m + m] = c b"
      by (rule nth_equalityI) (use assms(1,3) in \<open>simp_all\<close>)
    then show ?thesis using Suc.IH[OF True] True unfolding upt_blocks[OF True] by simp
  next
    case False
    then have "a = Suc b" using Suc.prems by simp
    then show ?thesis by simp
  qed
qed simp

text \<open>A file of a well-formed header: block \<open>i\<close> below \<open>numSectors\<close> has a valid sector.\<close>

lemma hdr_block:
  assumes "hdr_ok h" and "i < nat (numSectors h)"
  shows "block_sector h (int i) = Inr (int (nat (dataSectors h ! i)))" "int (nat (dataSectors h ! i)) < NumSectors"
    "dataSectors h ! i \<in> set (hdr_sectors h)" "dataSectors h ! i = hdr_sectors h ! i"
proof -
  have l: "length (dataSectors h) = NumDirect" "i < NumDirect" "nat (numSectors h) \<le> NumDirect"
    using assms by (auto simp: hdr_ok_def hdr_typed_def)
  then show eq: "dataSectors h ! i = hdr_sectors h ! i" using assms(2) by (simp add: hdr_sectors_def)
  have "i < length (hdr_sectors h)" using assms(2) l by (simp add: hdr_sectors_def)
  then show mem: "dataSectors h ! i \<in> set (hdr_sectors h)" by (simp add: eq)
  then have v: "0 \<le> dataSectors h ! i \<and> dataSectors h ! i < NumSectors" using assms(1) by (auto simp: hdr_ok_def)
  then show "int (nat (dataSectors h ! i)) < NumSectors" by simp
  show "block_sector h (int i) = Inr (int (nat (dataSectors h ! i)))"
    using l v by (simp add: block_sector_def ByteToSector_def sdiv_nonneg SectorSize_def)
qed

lemma block_index: "hdr_ok h \<Longrightarrow> p < nat (numBytes h) \<Longrightarrow> p div SectorSize < nat (numSectors h)"
proof -
  assume h: "hdr_ok h" and p: "p < nat (numBytes h)"
  have "numBytes h \<le> numSectors h * int SectorSize"
    using h divRoundUp_upper[of "numBytes h" "int SectorSize"] by (simp add: hdr_ok_def SectorSize_def)
  then have "p < nat (numSectors h) * SectorSize" using p by (simp add: SectorSize_def)
  then show ?thesis by (simp add: less_mult_imp_div_less)
qed

lemma blocks_distinct:
  assumes "hdr_ok h" and "i < nat (numSectors h)" and "j < nat (numSectors h)"
    and "nat (dataSectors h ! i) = nat (dataSectors h ! j)"
  shows "i = j"
proof -
  have "0 \<le> dataSectors h ! i" "0 \<le> dataSectors h ! j"
    using assms(1) hdr_block(3)[OF assms(1,2)] hdr_block(3)[OF assms(1,3)] by (simp_all add: hdr_ok_def)
  then have "dataSectors h ! i = dataSectors h ! j" using assms(4) by (simp only: eq_nat_nat_iff)
  then have "hdr_sectors h ! i = hdr_sectors h ! j" using hdr_block(4) assms by simp
  moreover have "i < length (hdr_sectors h)" "j < length (hdr_sectors h)"
    using assms by (auto simp: hdr_sectors_def hdr_ok_def hdr_typed_def)
  moreover have "distinct (hdr_sectors h)" using assms(1) by (simp add: hdr_ok_def)
  ultimately show ?thesis by (simp add: nth_eq_iff_index_eq)
qed

lemma concat_file_blocks:
  assumes "a \<le> b"
  shows "concat (map (\<lambda>i. sector_content d (nat (dataSectors h ! nat i))) [int a..int b]) =
      map (file_byte d h) [a * SectorSize..<Suc b * SectorSize]"
  unfolding upto_int_upt map_map comp_def nat_int
  by (subst concat_blocks[where m = SectorSize])
    (use assms in \<open>simp_all add: sector_content_def file_byte_def SectorSize_def\<close>)

lemma read_file_blocks:
  assumes "disk_ok d" and "hdr_ok h" and "a \<le> b" and "b < nat (numSectors h)"
  shows "\<exists>d'. read_blocks SynchDisk_ReadSector (block_sector h) [int a..int b] d
      = Inr (map (file_byte d h) [a * SectorSize..<Suc b * SectorSize], d') \<and> disk_ok d' \<and> sector_content d' = sector_content d"
proof -
  let ?f = "\<lambda>i. nat (dataSectors h ! nat i)"
  have "\<forall>i\<in>set [int a..int b]. block_sector h i = Inr (int (?f i)) \<and> int (?f i) < NumSectors"
  proof
    fix i assume "i \<in> set [int a..int b]"
    then have k: "i = int (nat i)" "nat i < nat (numSectors h)" using assms(4) by auto
    show "block_sector h i = Inr (int (?f i)) \<and> int (?f i) < NumSectors"
      using hdr_block(1,2)[OF assms(2) k(2)] by (simp only: k(1)[symmetric] simp_thms)
  qed
  from sd.read_blocks_ok[OF assms(1) this] obtain d' where
    "read_blocks SynchDisk_ReadSector (block_sector h) [int a..int b] d =
       Inr (concat (map (\<lambda>i. sector_content d (?f i)) [int a..int b]), d')" "disk_ok d'" "sector_content d' = sector_content d"
    by blast
  then show ?thesis unfolding concat_file_blocks[OF assms(3)] by blast
qed

section \<open>Reading\<close>

lemma take_drop_map_upt:
  "a + k + n \<le> b \<Longrightarrow> take n (drop k (map g [a..<b])) = map g [a + k..<a + k + n]"
  by (simp add: drop_map take_map)

lemma take_drop_file_data:
  "p + n \<le> nat (numBytes h) \<Longrightarrow> take n (drop p (file_data d h)) = map (file_byte d h) [p..<p + n]"
  using take_drop_map_upt[of 0 p n "nat (numBytes h)" "file_byte d h"] by (simp add: file_data_def)

lemma divRoundDown_nat: "divRoundDown (int p) (int SectorSize) = int (p div SectorSize)"
  by (simp add: divRoundDown_def sdiv_nonneg SectorSize_def zdiv_int)

text \<open>The clipped request: after the checks it is a nonempty range inside the file.\<close>

lemma clip_request:
  assumes "0 < n" "0 \<le> pos" "pos < L" "pos + n < 2 ^ 31"
  defines "n' \<equiv> if i32 (pos + n) > L then L - pos else n"
  shows "0 < n'" "pos + n' \<le> L" "nat n' = min (nat n) (nat L - nat pos)"
  using assms by auto

lemma ReadAt_unfold:
  assumes "\<not> (n \<le> 0 \<or> pos \<ge> numBytes (of_hdr f))"
    and "n' = (if i32 (pos + n) > numBytes (of_hdr f) then numBytes (of_hdr f) - pos else n)"
    and "divRoundDown pos (int SectorSize) = int a" and "divRoundDown (pos + n' - 1) (int SectorSize) = int b"
    and "pos - int a * int SectorSize = int off"
  shows "OpenFile_ReadAt f n pos d =
     bindR (read_blocks SynchDisk_ReadSector (block_sector (of_hdr f)) [int a..int b] d) (\<lambda>(buf, d).
     if int off + n' > int (length buf) then Inl OutOfBounds else Inr (take (nat n') (drop off buf), d))"
  using assms(1) unfolding OpenFile_ReadAt_def Let_def FileLength_def assms(2)[symmetric] assms(3-5) nat_int
  by simp

lemma OpenFile_ReadAt_spec:
  assumes "disk_ok d" and "hdr_ok (of_hdr f)" and "0 \<le> pos" and "pos + n < 2 ^ 31"
  shows "\<exists>d'. OpenFile_ReadAt f n pos d = Inr (take (nat n) (drop (nat pos) (file_data d (of_hdr f))), d')
    \<and> disk_ok d' \<and> sector_content d' = sector_content d"
proof (cases "n \<le> 0 \<or> pos \<ge> numBytes (of_hdr f)")
  case True
  then show ?thesis using assms(1) by (auto simp: OpenFile_ReadAt_def FileLength_def)
next
  case False
  let ?h = "of_hdr f"
  let ?L = "numBytes ?h"
  define n' where "n' = (if i32 (pos + n) > ?L then ?L - pos else n)"
  have c: "0 < n'" "pos + n' \<le> ?L" "nat n' = min (nat n) (nat ?L - nat pos)"
    using clip_request[of n pos ?L] False assms(3,4) by (simp_all add: n'_def)
  define p where "p = nat pos"
  define k where "k = nat n'"
  have pk: "pos = int p" "n' = int k" "0 < k" "p + k \<le> nat ?L" using c(1,2) assms(3) by (auto simp: p_def k_def)
  have last: "p + k - 1 < nat ?L" "pos + n' - 1 = int (p + k - 1)" using pk by auto
  let ?a = "p div SectorSize" and ?b = "(p + k - 1) div SectorSize"
  have ab: "?a \<le> ?b" "?b < nat (numSectors ?h)"
    using pk block_index[OF assms(2) last(1)] by (auto intro: div_le_mono)
  obtain d' where d': "read_blocks SynchDisk_ReadSector (block_sector ?h) [int ?a..int ?b] d
      = Inr (map (file_byte d ?h) [?a * SectorSize..<Suc ?b * SectorSize], d')" "disk_ok d'" "sector_content d' = sector_content d"
    using read_file_blocks[OF assms(1,2) ab] by blast
  have off: "pos - int ?a * int SectorSize = int (p mod SectorSize)"
    using pk(1) by (simp add: SectorSize_def zmod_int minus_div_mult_eq_mod[symmetric])
  have dv: "divRoundDown pos (int SectorSize) = int ?a" "divRoundDown (pos + n' - 1) (int SectorSize) = int ?b"
    unfolding last(2) unfolding pk(1) by (simp_all only: divRoundDown_nat)
  have fits: "?a * SectorSize + p mod SectorSize + k \<le> Suc ?b * SectorSize"
  proof -
    have "p + k - 1 < Suc ?b * SectorSize" by (simp add: SectorSize_def dividend_less_div_times)
    then have "p + k \<le> Suc ?b * SectorSize" using pk(3) by linarith
    moreover have "p = ?a * SectorSize + p mod SectorSize" by simp
    ultimately show ?thesis by linarith
  qed
  then have fits': "p mod SectorSize + k \<le> length [?a * SectorSize..<Suc ?b * SectorSize]"
    unfolding length_upt by linarith
  have "take k (drop (p mod SectorSize) (map (file_byte d ?h) [?a * SectorSize..<Suc ?b * SectorSize]))
      = map (file_byte d ?h) [p..<p + k]"
    using take_drop_map_upt[OF fits, of "file_byte d ?h"] by (simp del: mult_Suc upt_Suc)
  also have "\<dots> = take (nat n) (drop p (file_data d ?h))"
    using take_drop_file_data[OF pk(4), of d] c(3) by (simp add: k_def p_def min_def split: if_splits)
  finally have res: "take k (drop (p mod SectorSize) (map (file_byte d ?h) [?a * SectorSize..<Suc ?b * SectorSize]))
      = take (nat n) (drop p (file_data d ?h))" .
  have "OpenFile_ReadAt f n pos d = Inr (take (nat n) (drop p (file_data d ?h)), d')"
    unfolding ReadAt_unfold[OF False n'_def dv off] d'(1) bindR_Inr prod.case
    using fits' res pk(2) by (simp del: mult_Suc upt_Suc)
  then show ?thesis using d'(2,3) p_def by blast
qed

section \<open>Writing\<close>

lemma overwrite_Nil [simp]: "overwrite k [] buf = buf"
  by (rule nth_equalityI) (auto simp: nth_overwrite)

text \<open>Loading block \<open>c\<close> into a buffer that starts at block \<open>a\<close>.\<close>

lemma overwrite_block:
  assumes "a \<le> c" and "j < length buf"
  shows "overwrite ((c - a) * SectorSize) (take SectorSize (drop (c * SectorSize) (file_data d h))) buf ! j =
    (if (a * SectorSize + j) div SectorSize = c \<and> a * SectorSize + j < nat (numBytes h)
     then file_byte d h (a * SectorSize + j) else buf ! j)"
proof -
  let ?x = "take SectorSize (drop (c * SectorSize) (file_data d h))"
  let ?q = "a * SectorSize + j"
  have c: "(c - a) * SectorSize + a * SectorSize = c * SectorSize" using assms(1) by (simp add: distrib_right[symmetric])
  have len: "length ?x = min SectorSize (nat (numBytes h) - c * SectorSize)" by simp
  have q: "?q div SectorSize = c \<longleftrightarrow> c * SectorSize \<le> ?q \<and> ?q < c * SectorSize + SectorSize"
    unfolding SectorSize_def by (auto simp: div_nat_eqI dest: sym)
  have "((c - a) * SectorSize \<le> j \<and> j < (c - a) * SectorSize + length ?x) \<longleftrightarrow> ?q div SectorSize = c \<and> ?q < nat (numBytes h)"
    unfolding q len using c by auto
  moreover have "?x ! (j - (c - a) * SectorSize) = file_byte d h ?q"
    if "?q div SectorSize = c" "?q < nat (numBytes h)"
  proof -
    have "c * SectorSize + (j - (c - a) * SectorSize) = ?q" "j - (c - a) * SectorSize < SectorSize"
      using that(1) c unfolding q by linarith+
    then show ?thesis using that(2) by (simp add: file_data_def)
  qed
  ultimately show ?thesis using assms(2) by (auto simp: nth_overwrite)
qed

lemma in_blocks: "a \<le> q div SectorSize \<and> q div SectorSize \<le> b \<longleftrightarrow> a * SectorSize \<le> q \<and> q < Suc b * SectorSize"
proof -
  have "a \<le> q div SectorSize \<longleftrightarrow> a * SectorSize \<le> q"
    by (rule less_eq_div_iff_mult_less_eq) (simp add: SectorSize_def)
  moreover have "q div SectorSize < Suc b \<longleftrightarrow> q < Suc b * SectorSize"
    by (rule div_less_iff_less_mult) (simp add: SectorSize_def)
  ultimately show ?thesis by (simp only: less_Suc_eq_le)
qed

lemma write_file_blocks:
  assumes "disk_ok d" and "hdr_ok h" and "a \<le> b" and "b < nat (numSectors h)"
    and "length buf = (Suc b - a) * SectorSize"
  shows "\<exists>d'. write_blocks SynchDisk_WriteSector (block_sector h) [int a..int b] buf d = Inr d' \<and> disk_ok d'
    \<and> (\<forall>s. s \<notin> nat ` set (hdr_sectors h) \<longrightarrow> sector_content d' s = sector_content d s)
    \<and> (\<forall>q. q div SectorSize < nat (numSectors h) \<longrightarrow> file_byte d' h q =
        (if a \<le> q div SectorSize \<and> q div SectorSize \<le> b then buf ! (q - a * SectorSize) else file_byte d h q))"
proof -
  let ?f = "\<lambda>i. nat (dataSectors h ! nat i)"
  have "block_sector h i = Inr (int (?f i)) \<and> int (?f i) < NumSectors" if "i \<in> set [int a..int b]" for i
  proof -
    have k: "i = int (nat i)" "nat i < nat (numSectors h)" using assms(4) that by auto
    show ?thesis using hdr_block(1,2)[OF assms(2) k(2)] by (simp only: k(1)[symmetric] simp_thms)
  qed
  moreover have "distinct (map ?f [int a..int b])"
    unfolding upto_int_upt map_map comp_def nat_int distinct_map
    using blocks_distinct[OF assms(2)] assms(4) by (auto simp: inj_on_def simp del: upt_Suc)
  moreover have "length buf = SectorSize * length [int a..int b]"
    using assms(5) unfolding upto_int_upt length_map length_upt by (simp only: mult.commute)
  ultimately obtain d' where w: "write_blocks SynchDisk_WriteSector (block_sector h) [int a..int b] buf d = Inr d'" "disk_ok d'"
    "\<forall>s. s \<notin> ?f ` set [int a..int b] \<longrightarrow> sector_content d' s = sector_content d s"
    "concat (map (\<lambda>i. sector_content d' (?f i)) [int a..int b]) = buf"
    using sd.write_blocks_ok[OF assms(1), of "[int a..int b]" "block_sector h" ?f buf] by blast
  have im: "?f ` set [int a..int b] = (\<lambda>i. nat (dataSectors h ! i)) ` {a..b}"
    unfolding upto_int_upt by (auto simp: image_image simp del: upt_Suc)
  have buf: "map (file_byte d' h) [a * SectorSize..<Suc b * SectorSize] = buf"
    using w(4) unfolding concat_file_blocks[OF assms(3)] .
  have "file_byte d' h q = (if a \<le> q div SectorSize \<and> q div SectorSize \<le> b then buf ! (q - a * SectorSize) else file_byte d h q)"
    if q: "q div SectorSize < nat (numSectors h)" for q
  proof (cases "a \<le> q div SectorSize \<and> q div SectorSize \<le> b")
    case True
    then have "a * SectorSize \<le> q" "q < Suc b * SectorSize"
      by (auto simp: in_blocks)
    then have "map (file_byte d' h) [a * SectorSize..<Suc b * SectorSize] ! (q - a * SectorSize) = file_byte d' h q"
      by (simp del: mult_Suc upt_Suc)
    with True buf show ?thesis by simp
  next
    case False
    have "nat (dataSectors h ! (q div SectorSize)) \<notin> (\<lambda>i. nat (dataSectors h ! i)) ` {a..b}"
    proof
      assume "nat (dataSectors h ! (q div SectorSize)) \<in> (\<lambda>i. nat (dataSectors h ! i)) ` {a..b}"
      then obtain i where i: "nat (dataSectors h ! (q div SectorSize)) = nat (dataSectors h ! i)" "a \<le> i" "i \<le> b" by auto
      then have "q div SectorSize = i" using assms(4) by (intro blocks_distinct[OF assms(2) q]) simp_all
      with i False show False by simp
    qed
    with w(3) False im show ?thesis by (auto simp: file_byte_def)
  qed
  moreover have "sector_content d' s = sector_content d s" if "s \<notin> nat ` set (hdr_sectors h)" for s
  proof -
    have "s \<notin> (\<lambda>i. nat (dataSectors h ! i)) ` {a..b}"
      using that hdr_block(3)[OF assms(2)] assms(4) by auto
    then show ?thesis using w(3) unfolding im by blast
  qed
  ultimately show ?thesis using w(1,2) by blast
qed

text \<open>One of the two reads of a partially modified block, into the write buffer.\<close>

lemma load_block:
  assumes "disk_ok d" and "hdr_ok (of_hdr f)" and "a \<le> c" and "c < nat (numSectors (of_hdr f))"
  shows "\<exists>d' buf'. (if cnd then bindR (OpenFile_ReadAt f (int SectorSize) (int c * int SectorSize) d) (\<lambda>(x, d).
        Inr (overwrite ((c - a) * SectorSize) x buf, d)) else Inr (buf, d)) = Inr (buf', d')
    \<and> disk_ok d' \<and> sector_content d' = sector_content d \<and> length buf' = length buf
    \<and> (\<forall>j<length buf. buf' ! j = (if cnd \<and> (a * SectorSize + j) div SectorSize = c \<and> a * SectorSize + j < nat (numBytes (of_hdr f))
         then file_byte d (of_hdr f) (a * SectorSize + j) else buf ! j))"
proof (cases cnd)
  case True
  have "c < NumDirect" using assms(2,4) unfolding hdr_ok_def by linarith
  then have "int c * int SectorSize + int SectorSize < 2 ^ 31" by (simp add: NumDirect_126 SectorSize_def)
  then obtain d' where "OpenFile_ReadAt f (int SectorSize) (int c * int SectorSize) d =
      Inr (take SectorSize (drop (c * SectorSize) (file_data d (of_hdr f))), d')" "disk_ok d'" "sector_content d' = sector_content d"
    using OpenFile_ReadAt_spec[OF assms(1,2), of "int c * int SectorSize" "int SectorSize"]
    by (auto simp: nat_mult_distrib)
  then show ?thesis using True overwrite_block[OF assms(3), of _ buf d "of_hdr f"] by simp
qed (use assms(1) in simp)

lemma WriteAt_unfold:
  assumes "\<not> (n \<le> 0 \<or> pos \<ge> numBytes (of_hdr f))"
    and "n' = (if i32 (pos + n) > numBytes (of_hdr f) then numBytes (of_hdr f) - pos else n)"
    and "divRoundDown pos (int SectorSize) = int a" and "divRoundDown (pos + n' - 1) (int SectorSize) = int b"
    and "pos - int a * int SectorSize = int off" and "a \<le> b" and "n' \<le> int (length from)"
  shows "OpenFile_WriteAt junk f from n pos d =
     bindR (if off \<noteq> 0 then bindR (OpenFile_ReadAt f (int SectorSize) (int a * int SectorSize) d) (\<lambda>(x, d).
              Inr (overwrite ((a - a) * SectorSize) x (map junk [0..<(Suc b - a) * SectorSize]), d))
            else Inr (map junk [0..<(Suc b - a) * SectorSize], d)) (\<lambda>(buf, d).
     bindR (if pos + n' \<noteq> int (Suc b) * int SectorSize \<and> (a \<noteq> b \<or> off = 0)
            then bindR (OpenFile_ReadAt f (int SectorSize) (int b * int SectorSize) d) (\<lambda>(x, d).
              Inr (overwrite ((b - a) * SectorSize) x buf, d))
            else Inr (buf, d)) (\<lambda>(buf, d).
     if int off + n' > int (length buf) then Inl OutOfBounds else
     bindR (write_blocks SynchDisk_WriteSector (block_sector (of_hdr f)) [int a..int b]
              (overwrite off (take (nat n') from) buf) d) (\<lambda>d. Inr (n', d))))"
proof -
  have e: "nat (1 + int b - int a) = Suc b - a" "nat (int b - int a) = b - a" "(pos = int a * int SectorSize) = (off = 0)"
    "(int a \<noteq> int b) = (a \<noteq> b)" "int b + 1 = int (Suc b)" "int off < 0 = False" "n' > int (length from) = False"
    using assms(5,6,7) by auto
  show ?thesis
    unfolding OpenFile_WriteAt_def Let_def FileLength_def assms(2)[symmetric] if_not_P[OF assms(1)] assms(3-5) e nat_int simp_thms
    by simp
qed

lemma block_window:
  fixes p k :: nat
  assumes "0 < k"
  shows "p div SectorSize \<le> (p + k - 1) div SectorSize" "p = p div SectorSize * SectorSize + p mod SectorSize" "p mod SectorSize < SectorSize"
    "p + k \<le> Suc ((p + k - 1) div SectorSize) * SectorSize" "(p + k - 1) div SectorSize * SectorSize < p + k"
    "p div SectorSize * SectorSize + (Suc ((p + k - 1) div SectorSize) - p div SectorSize) * SectorSize = Suc ((p + k - 1) div SectorSize) * SectorSize"
proof -
  let ?b = "(p + k - 1) div SectorSize"
  have "p \<le> p + k - 1" using assms by linarith
  then show ab: "p div SectorSize \<le> ?b" by (rule div_le_mono)
  show "p = p div SectorSize * SectorSize + p mod SectorSize" "p mod SectorSize < SectorSize" by (simp_all add: SectorSize_def)
  have "p + k - 1 < Suc ?b * SectorSize" by (simp add: SectorSize_def dividend_less_div_times)
  then show "p + k \<le> Suc ?b * SectorSize" using assms by linarith
  have "?b * SectorSize \<le> p + k - 1" by simp
  then show "?b * SectorSize < p + k" using assms by linarith
  show "p div SectorSize * SectorSize + (Suc ?b - p div SectorSize) * SectorSize = Suc ?b * SectorSize"
    using ab by (simp add: distrib_right[symmetric] del: mult_Suc)
qed

text \<open>After the two partial blocks have been read, the buffer agrees with the file everywhere outside the bytes to be written.\<close>

lemma load_partial_blocks:
  fixes p k :: nat
  assumes "disk_ok d" and "hdr_ok (of_hdr f)" and k: "0 < k" "p + k \<le> nat (numBytes (of_hdr f))"
  defines "a \<equiv> p div SectorSize" and "b \<equiv> (p + k - 1) div SectorSize" and "off \<equiv> p mod SectorSize"
  defines "c2 \<equiv> int p + int k \<noteq> int (Suc b) * int SectorSize \<and> (a \<noteq> b \<or> off = 0)"
  assumes len: "length buf0 = (Suc b - a) * SectorSize"
  shows "\<exists>buf1 d1 buf2 d2.
     (if off \<noteq> 0 then bindR (OpenFile_ReadAt f (int SectorSize) (int a * int SectorSize) d) (\<lambda>(x, d).
        Inr (overwrite ((a - a) * SectorSize) x buf0, d)) else Inr (buf0, d)) = Inr (buf1, d1)
   \<and> (if c2 then bindR (OpenFile_ReadAt f (int SectorSize) (int b * int SectorSize) d1) (\<lambda>(x, d).
        Inr (overwrite ((b - a) * SectorSize) x buf1, d)) else Inr (buf1, d1)) = Inr (buf2, d2)
   \<and> disk_ok d2 \<and> sector_content d2 = sector_content d \<and> length buf2 = (Suc b - a) * SectorSize
   \<and> (\<forall>q. a * SectorSize \<le> q \<and> q < Suc b * SectorSize \<and> q < nat (numBytes (of_hdr f)) \<and> \<not> (p \<le> q \<and> q < p + k) \<longrightarrow>
        buf2 ! (q - a * SectorSize) = file_byte d (of_hdr f) q)"
proof -
  let ?h = "of_hdr f" and ?S = SectorSize and ?L = "nat (numBytes (of_hdr f))"
  note w = block_window[OF k(1), of p, folded a_def b_def off_def]
  have "p + k - 1 < ?L" using k by linarith
  then have b_lt: "b < nat (numSectors ?h)" using block_index[OF assms(2)] unfolding b_def by blast
  have a_lt: "a < nat (numSectors ?h)" using b_lt w(1) by linarith
  from load_block[OF assms(1,2) order_refl a_lt, of "off \<noteq> 0" buf0] obtain buf1 d1 where
    s1: "(if off \<noteq> 0 then bindR (OpenFile_ReadAt f (int ?S) (int a * int ?S) d) (\<lambda>(x, d).
        Inr (overwrite ((a - a) * ?S) x buf0, d)) else Inr (buf0, d)) = Inr (buf1, d1)"
    and d1: "disk_ok d1" "sector_content d1 = sector_content d" "length buf1 = length buf0"
    and g1: "\<forall>j<length buf0. buf1 ! j = (if off \<noteq> 0 \<and> (a * ?S + j) div ?S = a \<and> a * ?S + j < ?L
         then file_byte d ?h (a * ?S + j) else buf0 ! j)" by blast
  from load_block[OF d1(1) assms(2) w(1) b_lt, of c2 buf1] obtain buf2 d2 where
    s2: "(if c2 then bindR (OpenFile_ReadAt f (int ?S) (int b * int ?S) d1) (\<lambda>(x, d).
        Inr (overwrite ((b - a) * ?S) x buf1, d)) else Inr (buf1, d1)) = Inr (buf2, d2)"
    and d2: "disk_ok d2" "sector_content d2 = sector_content d1" "length buf2 = length buf1"
    and g2: "\<forall>j<length buf1. buf2 ! j = (if c2 \<and> (a * ?S + j) div ?S = b \<and> a * ?S + j < ?L
         then file_byte d1 ?h (a * ?S + j) else buf1 ! j)" by blast
  have fb: "file_byte d1 ?h = file_byte d ?h" using d1(2) by (simp add: file_byte_def fun_eq_iff)
  have "buf2 ! (q - a * ?S) = file_byte d ?h q" if q: "a * ?S \<le> q" "q < Suc b * ?S" "q < ?L" "\<not> (p \<le> q \<and> q < p + k)" for q
  proof -
    have j: "q - a * ?S < length buf0" "a * ?S + (q - a * ?S) = q" using q w(6) len by linarith+
    have "off \<noteq> 0 \<and> q div ?S = a \<or> c2 \<and> q div ?S = b"
    proof (cases "q < p")
      case True
      then have "off \<noteq> 0" "q < Suc a * ?S" using w(2,3) q(1) by auto
      then show ?thesis using q(1) by (auto intro!: div_nat_eqI simp: mult.commute)
    next
      case False
      then have "p + k \<le> q" using q(4) by linarith
      then have "q div ?S = b" "int p + int k \<noteq> int (Suc b) * int ?S" using q(2) w(5)
        by (auto intro!: div_nat_eqI simp: mult.commute simp flip: of_nat_mult of_nat_add simp del: of_nat_Suc mult_Suc)
      then show ?thesis by (auto simp: c2_def)
    qed
    moreover have "q - a * ?S < length buf1" using j(1) d1(3) by simp
    note g2[rule_format, OF this, unfolded j(2) fb] g1[rule_format, OF j(1), unfolded j(2)]
    ultimately show ?thesis using q(3) by presburger
  qed
  then show ?thesis using d1(2,3) d2 len
    by (intro exI[of _ buf1] exI[of _ d1] exI[of _ buf2] exI[of _ d2] conjI s1 s2) simp_all
qed

text \<open>The buffer with the new bytes put in, written back block by block, is the file with the new bytes put in.\<close>

lemma window_byte:
  fixes p k :: nat
  assumes k: "0 < k" "k \<le> length from" and q: "p div SectorSize \<le> q div SectorSize" "q div SectorSize \<le> (p + k - 1) div SectorSize"
    and len: "length buf = (Suc ((p + k - 1) div SectorSize) - p div SectorSize) * SectorSize"
    and keep: "\<not> (p \<le> q \<and> q < p + k) \<Longrightarrow> buf ! (q - p div SectorSize * SectorSize) = B"
  shows "overwrite (p mod SectorSize) (take k from) buf ! (q - p div SectorSize * SectorSize) = (if p \<le> q \<and> q < p + k then from ! (q - p) else B)"
proof -
  let ?j = "q - p div SectorSize * SectorSize"
  note w = block_window[OF k(1), of p]
  have qb: "p div SectorSize * SectorSize \<le> q" "q < Suc ((p + k - 1) div SectorSize) * SectorSize" using q in_blocks by blast+
  then have j: "?j < length buf" "p mod SectorSize \<le> ?j \<and> ?j < p mod SectorSize + k \<longleftrightarrow> p \<le> q \<and> q < p + k" "?j - p mod SectorSize = q - p"
    using w(2,6) len by linarith+
  have l: "length (take k from) = k" using k(2) by simp
  have "overwrite (p mod SectorSize) (take k from) buf ! ?j = (if p \<le> q \<and> q < p + k then take k from ! (q - p) else buf ! ?j)"
    unfolding nth_overwrite[OF j(1)] l j(2,3) ..
  moreover have "take k from ! (q - p) = from ! (q - p)" if "p \<le> q \<and> q < p + k" using that by (intro nth_take) linarith
  ultimately show ?thesis using keep by presburger
qed

lemma write_request:
  fixes p k :: nat
  assumes "disk_ok d" and "hdr_ok h" and k: "0 < k" "p + k \<le> nat (numBytes h)" "k \<le> length from"
  defines "a \<equiv> p div SectorSize" and "b \<equiv> (p + k - 1) div SectorSize"
  assumes len: "length buf = (Suc b - a) * SectorSize"
    and keep: "\<forall>q. a * SectorSize \<le> q \<and> q < Suc b * SectorSize \<and> q < nat (numBytes h) \<and> \<not> (p \<le> q \<and> q < p + k) \<longrightarrow>
        buf ! (q - a * SectorSize) = file_byte d h q"
  shows "\<exists>d'. write_blocks SynchDisk_WriteSector (block_sector h) [int a..int b] (overwrite (p mod SectorSize) (take k from) buf) d = Inr d'
    \<and> disk_ok d' \<and> file_data d' h = overwrite p (take k from) (file_data d h)
    \<and> (\<forall>s. s \<notin> nat ` set (hdr_sectors h) \<longrightarrow> sector_content d' s = sector_content d s)"
proof -
  let ?buf = "overwrite (p mod SectorSize) (take k from) buf"
  note w = block_window[OF k(1), of p, folded a_def b_def]
  have "p + k - 1 < nat (numBytes h)" using k by linarith
  then have b: "b < nat (numSectors h)" using block_index[OF assms(2)] unfolding b_def by blast
  have "length ?buf = (Suc b - a) * SectorSize" using len by simp
  from write_file_blocks[OF assms(1,2) w(1) b this] obtain d' where
    d': "write_blocks SynchDisk_WriteSector (block_sector h) [int a..int b] ?buf d = Inr d'" "disk_ok d'"
      "\<forall>s. s \<notin> nat ` set (hdr_sectors h) \<longrightarrow> sector_content d' s = sector_content d s"
      "\<forall>q. q div SectorSize < nat (numSectors h) \<longrightarrow> file_byte d' h q =
        (if a \<le> q div SectorSize \<and> q div SectorSize \<le> b then ?buf ! (q - a * SectorSize) else file_byte d h q)"
    by auto
  have byte: "file_byte d' h q = (if p \<le> q \<and> q < p + k then from ! (q - p) else file_byte d h q)" if q: "q < nat (numBytes h)" for q
  proof (cases "a \<le> q div SectorSize \<and> q div SectorSize \<le> b")
    case True
    then have "a * SectorSize \<le> q" "q < Suc b * SectorSize" using in_blocks by blast+
    then have "?buf ! (q - a * SectorSize) = (if p \<le> q \<and> q < p + k then from ! (q - p) else file_byte d h q)"
      using True keep q len unfolding a_def b_def by (intro window_byte[OF k(1,3)]) auto
    then show ?thesis using d'(4) block_index[OF assms(2) q] True by presburger
  next
    case False
    have "a \<le> q div SectorSize \<and> q div SectorSize \<le> b" if "p \<le> q \<and> q < p + k"
      unfolding a_def b_def using that by (intro conjI div_le_mono) linarith+
    then show ?thesis using False d'(4) block_index[OF assms(2) q] by presburger
  qed
  have "take k from ! (q - p) = from ! (q - p)" if "p \<le> q" "q < p + k" for q using that by (intro nth_take) linarith
  then have "file_data d' h = overwrite p (take k from) (file_data d h)"
    using k(3) byte by (intro nth_equalityI) (auto simp: nth_overwrite file_data_def min_def)
  then show ?thesis using d'(1-3) by blast
qed

lemma OpenFile_WriteAt_spec:
  assumes "disk_ok d" and "hdr_ok (of_hdr f)" and "0 \<le> pos" and "pos + n < 2 ^ 31" and "n \<le> int (length from)"
  defines "k \<equiv> min (nat n) (nat (numBytes (of_hdr f)) - nat pos)"
  shows "\<exists>d'. OpenFile_WriteAt junk f from n pos d = Inr (int k, d') \<and> disk_ok d'
    \<and> file_data d' (of_hdr f) = overwrite (nat pos) (take k from) (file_data d (of_hdr f))
    \<and> (\<forall>s. s \<notin> nat ` set (hdr_sectors (of_hdr f)) \<longrightarrow> sector_content d' s = sector_content d s)"
proof (cases "n \<le> 0 \<or> pos \<ge> numBytes (of_hdr f)")
  case True
  then have "k = 0" using assms(3) by (auto simp: k_def)
  then show ?thesis using True assms(1) by (auto simp: OpenFile_WriteAt_def FileLength_def)
next
  case False
  let ?h = "of_hdr f" and ?L = "numBytes (of_hdr f)" and ?S = SectorSize
  define n' where "n' = (if i32 (pos + n) > ?L then ?L - pos else n)"
  have c: "0 < n'" "pos + n' \<le> ?L" "nat n' = k"
    using clip_request[of n pos ?L] False assms(3,4) by (simp_all add: n'_def k_def)
  define p where "p = nat pos"
  have pk: "pos = int p" "n' = int k" "0 < k" "p + k \<le> nat ?L" using c assms(3) by (auto simp: p_def)
  let ?a = "p div ?S" and ?b = "(p + k - 1) div ?S" and ?off = "p mod ?S"
  note w = block_window[OF pk(3), of p]
  have dv: "divRoundDown pos (int ?S) = int ?a" "divRoundDown (pos + n' - 1) (int ?S) = int ?b"
    using pk(3) divRoundDown_nat[of "p + k - 1"] by (simp_all add: pk(1,2) divRoundDown_nat of_nat_diff)
  have off: "pos - int ?a * int ?S = int ?off"
    using pk(1) by (simp add: SectorSize_def zmod_int minus_div_mult_eq_mod[symmetric])
  have kf: "n' \<le> int (length from)" "k \<le> length from" using assms(5) pk(2) unfolding k_def by linarith+
  from load_partial_blocks[OF assms(1,2) pk(3,4), of "map junk [0..<(Suc ?b - ?a) * ?S]"] obtain buf1 d1 buf2 d2 where
    s1: "(if ?off \<noteq> 0 then bindR (OpenFile_ReadAt f (int ?S) (int ?a * int ?S) d) (\<lambda>(x, d).
        Inr (overwrite ((?a - ?a) * ?S) x (map junk [0..<(Suc ?b - ?a) * ?S]), d)) else Inr (map junk [0..<(Suc ?b - ?a) * ?S], d)) = Inr (buf1, d1)"
    and s2: "(if int p + int k \<noteq> int (Suc ?b) * int ?S \<and> (?a \<noteq> ?b \<or> ?off = 0) then bindR (OpenFile_ReadAt f (int ?S) (int ?b * int ?S) d1) (\<lambda>(x, d).
        Inr (overwrite ((?b - ?a) * ?S) x buf1, d)) else Inr (buf1, d1)) = Inr (buf2, d2)"
    and d2: "disk_ok d2" "sector_content d2 = sector_content d" "length buf2 = (Suc ?b - ?a) * ?S"
    and keep: "\<forall>q. ?a * ?S \<le> q \<and> q < Suc ?b * ?S \<and> q < nat ?L \<and> \<not> (p \<le> q \<and> q < p + k) \<longrightarrow> buf2 ! (q - ?a * ?S) = file_byte d ?h q"
    by (auto simp del: mult_Suc)
  have fb: "file_byte d2 ?h = file_byte d ?h" "file_data d2 ?h = file_data d ?h" using d2(2) by (simp_all add: file_byte_def file_data_def fun_eq_iff)
  obtain d3 where d3: "write_blocks SynchDisk_WriteSector (block_sector ?h) [int ?a..int ?b] (overwrite ?off (take k from) buf2) d2 = Inr d3"
      "disk_ok d3" "file_data d3 ?h = overwrite p (take k from) (file_data d ?h)"
      "\<forall>s. s \<notin> nat ` set (hdr_sectors ?h) \<longrightarrow> sector_content d3 s = sector_content d s"
    using write_request[OF d2(1) assms(2) pk(3,4) kf(2) d2(3)] keep unfolding fb d2(2) by blast
  have "\<not> int ?off + n' > int (length buf2)" using d2(3) pk(2) w(2,4,6) by linarith
  then have "OpenFile_WriteAt junk f from n pos d = Inr (int k, d3)"
    unfolding WriteAt_unfold[OF False n'_def dv off w(1) kf(1)] s1 bindR_Inr prod.case s2[folded pk(1,2)]
    using d3(1) pk(2) c(3) by simp
  then show ?thesis using d3(2-4) p_def by blast
qed

section \<open>Properties\<close>

text \<open>
  C15. Reading a file: \<open>ReadAt\<close> returns exactly the requested slice of the file's bytes, cut at the end of
  the file (nothing when the request is empty or starts past the end), and changes no sector.
\<close>

theorem read_at_slice:
  assumes "disk_ok d" and "hdr_ok (of_hdr f)" and "0 \<le> pos" and "pos + n < 2 ^ 31"
  shows "\<exists>d'. OpenFile_ReadAt f n pos d = Inr (take (nat n) (drop (nat pos) (file_data d (of_hdr f))), d')
    \<and> disk_ok d' \<and> sector_content d' = sector_content d"
  by (rule OpenFile_ReadAt_spec[OF assms])

text \<open>
  C16. Writing a file: \<open>WriteAt\<close> replaces exactly the bytes in the requested range, cut at the end of the
  file, keeps every other byte of the file, touches no sector outside the file, and returns the number
  of bytes written; whatever the freshly allocated buffer contained does not matter.
\<close>

theorem write_at_overwrites:
  assumes "disk_ok d" and "hdr_ok (of_hdr f)" and "0 \<le> pos" and "pos + n < 2 ^ 31" and "n \<le> int (length from)"
  shows "\<exists>k d'. OpenFile_WriteAt junk f from n pos d = Inr (int k, d') \<and> disk_ok d'
    \<and> k = min (nat n) (nat (numBytes (of_hdr f)) - nat pos)
    \<and> length (file_data d' (of_hdr f)) = length (file_data d (of_hdr f))
    \<and> (\<forall>q < length (file_data d (of_hdr f)). file_data d' (of_hdr f) ! q =
         (if nat pos \<le> q \<and> q < nat pos + k then from ! (q - nat pos) else file_data d (of_hdr f) ! q))
    \<and> (\<forall>s. s \<notin> nat ` set (hdr_sectors (of_hdr f)) \<longrightarrow> sector_content d' s = sector_content d s)"
proof -
  let ?k = "min (nat n) (nat (numBytes (of_hdr f)) - nat pos)"
  obtain d' where d': "OpenFile_WriteAt junk f from n pos d = Inr (int ?k, d')" "disk_ok d'"
    "file_data d' (of_hdr f) = overwrite (nat pos) (take ?k from) (file_data d (of_hdr f))"
    "\<forall>s. s \<notin> nat ` set (hdr_sectors (of_hdr f)) \<longrightarrow> sector_content d' s = sector_content d s"
    using OpenFile_WriteAt_spec[OF assms] by blast
  have l: "length (take ?k from) = ?k" using assms(5) by (simp add: min_def) linarith
  have "file_data d' (of_hdr f) ! q = (if nat pos \<le> q \<and> q < nat pos + ?k then from ! (q - nat pos) else file_data d (of_hdr f) ! q)"
    if q: "q < length (file_data d (of_hdr f))" for q
  proof (cases "nat pos \<le> q \<and> q < nat pos + ?k")
    case True
    then have "take ?k from ! (q - nat pos) = from ! (q - nat pos)" by (intro nth_take) linarith
    then show ?thesis using True unfolding d'(3) nth_overwrite[OF q] l by (simp only: if_True simp_thms)
  next
    case False
    then show ?thesis unfolding d'(3) nth_overwrite[OF q] l by (simp only: if_False)
  qed
  then show ?thesis using d'(1,2,4) by (intro exI[of _ ?k] exI[of _ d']) simp
qed

definition demo_file :: OpenFile where
  "demo_file = \<lparr>of_hdr = demo_hdr, of_type = 0, seekPosition = 0\<rparr>"

lemma demo_file_ok: "hdr_ok (of_hdr demo_file)" "disk_ok demo_disk"
proof -
  have "hdr_sectors demo_hdr = [7, 9]" by (simp add: hdr_sectors_def demo_hdr_def)
  then show "hdr_ok (of_hdr demo_file)"
    using demo_hdr_typed by (simp add: demo_file_def hdr_ok_def) (simp add: demo_hdr_def NumDirect_126 SectorSize_def divRoundUp_nonneg)
  show "disk_ok demo_disk" by (simp add: disk_ok_def demo_disk_def)
qed

theorem read_at_slice_witness:
  "\<exists>d'. OpenFile_ReadAt demo_file 20 690 demo_disk = Inr (take 20 (drop 690 (file_data demo_disk demo_hdr)), d')"
  using read_at_slice[OF demo_file_ok(2,1), of 690 20] by (auto simp: demo_file_def)

theorem write_at_overwrites_witness:
  "\<exists>d'. OpenFile_WriteAt (\<lambda>_. 7) demo_file [1, 2, 3, 4] 4 510 demo_disk = Inr (4, d') \<and> file_data d' demo_hdr ! 511 = 2"
  using write_at_overwrites[OF demo_file_ok(2,1), of 510 4 "[1, 2, 3, 4]" "\<lambda>_. 7"]
  by (auto simp: demo_file_def demo_hdr_def)

end
