(* ===== verification/Nachos_Directory.thy ===== *)
theory Nachos_Directory
  imports Nachos_OpenFile
begin

text \<open>
  filesys/directory.h and directory.cc: the table of file names and header sectors.

  A C string is the list of its bytes without the terminating NUL; a name field is its 10 bytes. \<open>strncmp\<close>
  and \<open>strncpy\<close> are modelled with their cut-off at \<open>FileNameMaxLen\<close>. On disk an entry is the 20 bytes of the
  C++ object on i386: the flag, three bytes of padding, the sector, the name, two bytes of padding; padding,
  which no code reads, is written as zero. \<open>dir_map\<close> abstracts a directory to a finite map from (cut-off)
  names to sectors; the locale \<open>name_table\<close> states that \<open>Find\<close>, \<open>Add\<close> and \<open>Remove\<close> implement it. \<open>Print\<close>
  is debugging output and not modelled.
\<close>

section \<open>C strings\<close>

definition FileNameMaxLen :: nat where "FileNameMaxLen = 9"

definition hd0 :: "byte list \<Rightarrow> byte" where
  "hd0 xs = (case xs of [] \<Rightarrow> 0 | x # _ \<Rightarrow> x)"

text \<open>\<open>!strncmp(a, b, n)\<close>.\<close>

fun strncmp_eq :: "nat \<Rightarrow> byte list \<Rightarrow> byte list \<Rightarrow> bool" where
  "strncmp_eq 0 a b = True"
| "strncmp_eq (Suc n) a b = (if hd0 a \<noteq> hd0 b then False else if hd0 a = 0 then True else strncmp_eq n (tl a) (tl b))"

definition strncpy :: "byte list \<Rightarrow> byte list \<Rightarrow> nat \<Rightarrow> byte list" where
  "strncpy dst src n = take n (takeWhile (\<lambda>c. c \<noteq> 0) src @ replicate n 0) @ drop n dst"

text \<open>What two names must share to be the same name for the directory.\<close>

definition name_key :: "byte list \<Rightarrow> byte list" where
  "name_key nm = take FileNameMaxLen (takeWhile (\<lambda>c. c \<noteq> 0) nm)"

lemma strncmp_eq_iff: "strncmp_eq n a b \<longleftrightarrow> take n (takeWhile (\<lambda>c. c \<noteq> 0) a) = take n (takeWhile (\<lambda>c. c \<noteq> 0) b)"
proof (induction n a b rule: strncmp_eq.induct)
  case (2 n a b)
  then show ?case by (cases a; cases b) (auto simp: hd0_def)
qed simp

lemma takeWhile_take_prefix: "takeWhile P (take n xs) = take n (takeWhile P xs)"
proof (induction n arbitrary: xs)
  case (Suc n)
  then show ?case by (cases xs) auto
qed simp

lemma name_key_strncpy: "name_key (strncpy dst src FileNameMaxLen) = name_key src"
proof -
  let ?s = "takeWhile (\<lambda>c. c \<noteq> 0) src" and ?n = FileNameMaxLen
  have nz: "\<forall>c\<in>set ?s. c \<noteq> 0" by (auto dest: set_takeWhileD)
  show ?thesis
  proof (cases "length ?s < ?n")
    case True
    then have "take ?n (?s @ replicate ?n 0) @ drop ?n dst = ?s @ 0 # (replicate (?n - length ?s - 1) 0 @ drop ?n dst)"
      by (cases "?n - length ?s") (auto simp: min_def)
    then show ?thesis using nz True by (simp add: name_key_def strncpy_def)
  next
    case False
    then have "take ?n (?s @ replicate ?n 0) = take ?n ?s" by simp
    moreover have "takeWhile (\<lambda>c. c \<noteq> 0) (take ?n ?s @ drop ?n dst) = take ?n ?s @ takeWhile (\<lambda>c. c \<noteq> 0) (drop ?n dst)"
      by (rule takeWhile_append2) (use nz in \<open>auto dest: in_set_takeD\<close>)
    moreover have "length (take ?n ?s) = ?n" using False by simp
    ultimately show ?thesis by (simp add: name_key_def strncpy_def)
  qed
qed

section \<open>Operations\<close>

record DirectoryEntry =
  inUse :: bool
  de_sector :: int
  de_name :: "byte list"

record Directory =
  tableSize :: int
  table :: "DirectoryEntry list"

text \<open>\<open>junk\<close>: what the entries fresh from \<open>new\<close> hold.\<close>

definition Directory_new :: "(nat \<Rightarrow> DirectoryEntry) \<Rightarrow> nat \<Rightarrow> Directory" where
  "Directory_new junk n = \<lparr>tableSize = int n, table = map (\<lambda>i. (junk i)\<lparr>inUse := False\<rparr>) [0..<n]\<rparr>"

definition get_entry :: "Directory \<Rightarrow> nat \<Rightarrow> DirectoryEntry res" where
  "get_entry D i = (if i < length (table D) then Inr (table D ! i) else Inl OutOfBounds)"

fun entry_loop :: "(DirectoryEntry \<Rightarrow> bool) \<Rightarrow> Directory \<Rightarrow> nat list \<Rightarrow> int res" where
  "entry_loop p D [] = Inr (-1)"
| "entry_loop p D (i # is) = bindR (get_entry D i) (\<lambda>e. if p e then Inr (int i) else entry_loop p D is)"

definition Directory_FindIndex :: "byte list \<Rightarrow> Directory \<Rightarrow> int res" where
  "Directory_FindIndex name D =
     entry_loop (\<lambda>e. inUse e \<and> strncmp_eq FileNameMaxLen (de_name e) name) D [0..<nat (tableSize D)]"

definition Directory_Find :: "byte list \<Rightarrow> Directory \<Rightarrow> int res" where
  "Directory_Find name D = bindR (Directory_FindIndex name D) (\<lambda>i.
     if i \<noteq> -1 then bindR (get_entry D (nat i)) (\<lambda>e. Inr (de_sector e)) else Inr (-1))"

definition Directory_Add :: "byte list \<Rightarrow> int \<Rightarrow> Directory \<Rightarrow> (bool \<times> Directory) res" where
  "Directory_Add name newSector D = bindR (Directory_FindIndex name D) (\<lambda>i.
     if i \<noteq> -1 then Inr (False, D)
     else bindR (entry_loop (\<lambda>e. \<not> inUse e) D [0..<nat (tableSize D)]) (\<lambda>j.
       if j = -1 then Inr (False, D)
       else bindR (get_entry D (nat j)) (\<lambda>e.
         Inr (True, D\<lparr>table := (table D)[nat j := e\<lparr>inUse := True,
                de_name := strncpy (de_name e) name FileNameMaxLen, de_sector := newSector\<rparr>]\<rparr>))))"

definition Directory_Remove :: "byte list \<Rightarrow> Directory \<Rightarrow> (bool \<times> Directory) res" where
  "Directory_Remove name D = bindR (Directory_FindIndex name D) (\<lambda>i.
     if i = -1 then Inr (False, D)
     else bindR (get_entry D (nat i)) (\<lambda>e. Inr (True, D\<lparr>table := (table D)[nat i := e\<lparr>inUse := False\<rparr>]\<rparr>)))"

text \<open>The names printed; \<open>%s\<close> reads on past a field without a NUL.\<close>

definition Directory_List :: "Directory \<Rightarrow> byte list list res" where
  "Directory_List D = forR (\<lambda>i out. bindR (get_entry D i) (\<lambda>e.
     if \<not> inUse e then Inr out
     else if 0 \<in> set (de_name e) then Inr (out @ [takeWhile (\<lambda>c. c \<noteq> 0) (de_name e)])
     else Inl OutOfBounds)) [0..<nat (tableSize D)] []"

section \<open>Disk representation\<close>

definition EntrySize :: nat where "EntrySize = 20"

definition entry_bytes :: "DirectoryEntry \<Rightarrow> byte list" where
  "entry_bytes e = [if inUse e then 1 else 0, 0, 0, 0] @ int_bytes (de_sector e) @ de_name e @ [0, 0]"

definition entry_of_bytes :: "byte list \<Rightarrow> DirectoryEntry" where
  "entry_of_bytes bs = \<lparr>inUse = bs ! 0 \<noteq> 0, de_sector = sint (le_word (take 4 (drop 4 bs))), de_name = take 10 (drop 8 bs)\<rparr>"

definition table_bytes :: "DirectoryEntry list \<Rightarrow> byte list" where
  "table_bytes t = concat (map entry_bytes t)"

primrec table_of_bytes :: "nat \<Rightarrow> byte list \<Rightarrow> DirectoryEntry list" where
  "table_of_bytes 0 bs = []"
| "table_of_bytes (Suc n) bs = entry_of_bytes (take EntrySize bs) # table_of_bytes n (drop EntrySize bs)"

text \<open>A short read overwrites a prefix of the table's memory.\<close>

definition Directory_FetchFrom :: "OpenFile \<Rightarrow> Directory \<Rightarrow> Disk \<Rightarrow> (Directory \<times> Disk) res" where
  "Directory_FetchFrom f D d = bindR (OpenFile_ReadAt f (tableSize D * int EntrySize) 0 d) (\<lambda>(x, d).
     Inr (D\<lparr>table := table_of_bytes (length (table D)) (overwrite 0 x (table_bytes (table D)))\<rparr>, d))"

definition Directory_WriteBack :: "(nat \<Rightarrow> byte) \<Rightarrow> OpenFile \<Rightarrow> Directory \<Rightarrow> Disk \<Rightarrow> Disk res" where
  "Directory_WriteBack junk f D d =
     bindR (OpenFile_WriteAt junk f (table_bytes (table D)) (tableSize D * int EntrySize) 0 d) (\<lambda>(r, d). Inr d)"

definition entry_typed :: "DirectoryEntry \<Rightarrow> bool" where
  "entry_typed e \<longleftrightarrow> int_ok (de_sector e) \<and> length (de_name e) = FileNameMaxLen + 1"

lemma length_entry_bytes [simp]: "entry_typed e \<Longrightarrow> length (entry_bytes e) = EntrySize"
  by (simp add: entry_bytes_def entry_typed_def FileNameMaxLen_def EntrySize_def)

lemma entry_roundtrip: "entry_typed e \<Longrightarrow> entry_of_bytes (entry_bytes e) = e"
  by (cases e) (simp add: entry_of_bytes_def entry_bytes_def entry_typed_def FileNameMaxLen_def sint_int_bytes)

lemma length_table_bytes: "\<forall>e\<in>set t. entry_typed e \<Longrightarrow> length (table_bytes t) = length t * EntrySize"
  by (induction t) (simp_all add: table_bytes_def)

lemma table_roundtrip: "\<forall>e\<in>set t. entry_typed e \<Longrightarrow> table_of_bytes (length t) (table_bytes t @ rest) = t"
  by (induction t) (simp_all add: table_bytes_def entry_roundtrip)

section \<open>The directory as a map\<close>

definition live_keys :: "Directory \<Rightarrow> (nat \<times> byte list) set" where
  "live_keys D = {(i, name_key (de_name (table D ! i))) | i. i < length (table D) \<and> inUse (table D ! i)}"

definition dir_ok :: "Directory \<Rightarrow> bool" where
  "dir_ok D \<longleftrightarrow> tableSize D = int (length (table D)) \<and> (\<forall>e\<in>set (table D). entry_typed e)
     \<and> (\<forall>i < length (table D). \<forall>j < length (table D). inUse (table D ! i) \<and> inUse (table D ! j)
          \<and> name_key (de_name (table D ! i)) = name_key (de_name (table D ! j)) \<longrightarrow> i = j)"

definition dir_index :: "Directory \<Rightarrow> byte list \<Rightarrow> nat option" where
  "dir_index D k = find_first (\<lambda>i. inUse (table D ! i) \<and> name_key (de_name (table D ! i)) = k) [0..<length (table D)]"

definition dir_map :: "Directory \<Rightarrow> byte list \<Rightarrow> int option" where
  "dir_map D k = map_option (\<lambda>i. de_sector (table D ! i)) (dir_index D k)"

definition dir_full :: "Directory \<Rightarrow> bool" where
  "dir_full D \<longleftrightarrow> (\<forall>e\<in>set (table D). inUse e)"

lemma entry_loop_eq:
  "\<forall>i\<in>set is. i < length (table D) \<Longrightarrow>
    entry_loop p D is = Inr (case find_first (\<lambda>i. p (table D ! i)) is of None \<Rightarrow> -1 | Some i \<Rightarrow> int i)"
  by (induction "is") (simp_all add: get_entry_def)

lemma FindIndex_eq:
  "dir_ok D \<Longrightarrow> Directory_FindIndex name D = Inr (case dir_index D (name_key name) of None \<Rightarrow> -1 | Some i \<Rightarrow> int i)"
  by (simp add: Directory_FindIndex_def entry_loop_eq dir_ok_def dir_index_def strncmp_eq_iff name_key_def)

lemma dir_index_Some:
  "dir_index D k = Some i \<Longrightarrow> i < length (table D) \<and> inUse (table D ! i) \<and> name_key (de_name (table D ! i)) = k"
  unfolding dir_index_def by (drule find_first_Some) auto

lemma dir_index_unique:
  assumes "dir_ok D" "i < length (table D)" "inUse (table D ! i)" "name_key (de_name (table D ! i)) = k"
  shows "dir_index D k = Some i"
proof (cases "dir_index D k")
  case None
  then show ?thesis using assms by (auto simp: dir_index_def find_first_None)
next
  case (Some j)
  then show ?thesis using assms dir_index_Some[OF Some] by (auto simp: dir_ok_def)
qed

lemma dir_index_None: "dir_index D k = None \<longleftrightarrow> (\<forall>i < length (table D). inUse (table D ! i) \<longrightarrow> name_key (de_name (table D ! i)) \<noteq> k)"
  by (auto simp: dir_index_def find_first_None)

text \<open>The index of a name after one entry changed.\<close>

lemma dir_index_update:
  assumes "dir_ok (D\<lparr>table := (table D)[j := e]\<rparr>)" "dir_ok D" "j < length (table D)"
    and "inUse (table D ! j) \<longrightarrow> name_key (de_name (table D ! j)) \<noteq> k" "inUse e \<longrightarrow> name_key (de_name e) \<noteq> k"
  shows "dir_index (D\<lparr>table := (table D)[j := e]\<rparr>) k = dir_index D k"
proof (cases "dir_index D k")
  case None
  then have "dir_index (D\<lparr>table := (table D)[j := e]\<rparr>) k = None"
    using assms(3-5) by (auto simp: dir_index_None nth_list_update)
  with None show ?thesis by simp
next
  case (Some i)
  have "i \<noteq> j" using dir_index_Some[OF Some] assms(4) by auto
  then show ?thesis using dir_index_Some[OF Some] Some
    by (intro dir_index_unique[OF assms(1), THEN trans]) auto
qed

lemma Directory_Find_eq:
  assumes "dir_ok D"
  shows "Directory_Find name D = Inr (case dir_map D (name_key name) of None \<Rightarrow> -1 | Some s \<Rightarrow> s)"
  using FindIndex_eq[OF assms, of name] dir_index_Some[of D "name_key name"]
  by (auto simp: Directory_Find_def dir_map_def get_entry_def split: option.splits)

lemma dir_ok_update:
  assumes "dir_ok D" "j < length (table D)" "entry_typed e"
    and "inUse e \<longrightarrow> (\<forall>i < length (table D). i \<noteq> j \<and> inUse (table D ! i) \<longrightarrow> name_key (de_name (table D ! i)) \<noteq> name_key (de_name e))"
  shows "dir_ok (D\<lparr>table := (table D)[j := e]\<rparr>)"
  using assms unfolding dir_ok_def by (auto simp: nth_list_update dest!: set_update_subset_insert[THEN subsetD])

lemma Directory_Add_eq:
  assumes "dir_ok D" "int_ok s"
  shows "if dir_map D (name_key name) \<noteq> None \<or> dir_full D then Directory_Add name s D = Inr (False, D)
    else \<exists>D'. Directory_Add name s D = Inr (True, D') \<and> dir_ok D' \<and> tableSize D' = tableSize D
       \<and> dir_map D' = (dir_map D)(name_key name \<mapsto> s)"
proof (cases "dir_map D (name_key name) \<noteq> None \<or> dir_full D")
  case True
  have "dir_full D \<Longrightarrow> find_first (\<lambda>i. \<not> inUse (table D ! i)) [0..<length (table D)] = None"
    by (auto simp: find_first_None dir_full_def)
  with True show ?thesis using FindIndex_eq[OF assms(1), of name] assms(1)
    by (auto simp: Directory_Add_def dir_map_def entry_loop_eq dir_ok_def split: option.splits)
next
  case False
  then have none: "dir_index D (name_key name) = None" by (simp add: dir_map_def)
  have "find_first (\<lambda>i. \<not> inUse (table D ! i)) [0..<length (table D)] \<noteq> None"
    using False by (fastforce simp: find_first_None dir_full_def in_set_conv_nth)
  then obtain j where j: "find_first (\<lambda>i. \<not> inUse (table D ! i)) [0..<length (table D)] = Some j" by blast
  then have jl: "j < length (table D)" "\<not> inUse (table D ! j)" using find_first_Some[OF j] by auto
  let ?e = "(table D ! j)\<lparr>inUse := True, de_name := strncpy (de_name (table D ! j)) name FileNameMaxLen, de_sector := s\<rparr>"
  let ?D = "D\<lparr>table := (table D)[j := ?e]\<rparr>"
  have key: "name_key (de_name ?e) = name_key name" by (simp add: name_key_strncpy)
  have "entry_typed (table D ! j)" using assms(1) jl by (simp add: dir_ok_def)
  then have typed: "entry_typed ?e" using assms(2) by (simp add: entry_typed_def strncpy_def)
  have ok: "dir_ok ?D" using none jl key by (intro dir_ok_update[OF assms(1) jl(1) typed]) (auto simp: dir_index_None)
  have "dir_map ?D k = ((dir_map D)(name_key name \<mapsto> s)) k" for k
  proof (cases "k = name_key name")
    case True
    have "dir_index ?D k = Some j" by (rule dir_index_unique[OF ok]) (use True jl key in auto)
    then show ?thesis using True jl by (simp add: dir_map_def)
  next
    case neq: False
    have "dir_index ?D k = dir_index D k"
      by (rule dir_index_update[OF ok assms(1) jl(1)]) (use jl neq key in auto)
    moreover have "i \<noteq> j" if "dir_index D k = Some i" for i using dir_index_Some[OF that] jl by auto
    ultimately show ?thesis using neq by (cases "dir_index D k") (auto simp: dir_map_def)
  qed
  then have "dir_map ?D = (dir_map D)(name_key name \<mapsto> s)" by (rule ext)
  moreover have "Directory_Add name s D = Inr (True, ?D)"
    using FindIndex_eq[OF assms(1), of name] none j jl assms(1)
    by (simp add: Directory_Add_def entry_loop_eq dir_ok_def get_entry_def)
  ultimately show ?thesis using False ok by (auto simp: dir_ok_def)
qed

lemma Directory_Remove_eq:
  assumes "dir_ok D"
  shows "case dir_map D (name_key name) of
      None \<Rightarrow> Directory_Remove name D = Inr (False, D)
    | Some s \<Rightarrow> \<exists>D'. Directory_Remove name D = Inr (True, D') \<and> dir_ok D' \<and> tableSize D' = tableSize D
        \<and> dir_map D' = (dir_map D)(name_key name := None)"
proof (cases "dir_index D (name_key name)")
  case None
  then show ?thesis using FindIndex_eq[OF assms, of name] by (simp add: dir_map_def Directory_Remove_def)
next
  case (Some j)
  then have j: "j < length (table D)" "inUse (table D ! j)" "name_key (de_name (table D ! j)) = name_key name"
    using dir_index_Some by blast+
  let ?D = "D\<lparr>table := (table D)[j := (table D ! j)\<lparr>inUse := False\<rparr>]\<rparr>"
  have "entry_typed (table D ! j)" using assms j by (simp add: dir_ok_def)
  then have ok: "dir_ok ?D" by (intro dir_ok_update[OF assms j(1)]) (auto simp: entry_typed_def)
  have "dir_map ?D k = ((dir_map D)(name_key name := None)) k" for k
  proof (cases "k = name_key name")
    case True
    have "dir_index ?D k = None"
      using dir_index_unique[OF assms] Some j True by (fastforce simp: dir_index_None nth_list_update)
    then show ?thesis using True by (simp add: dir_map_def)
  next
    case neq: False
    have "dir_index ?D k = dir_index D k"
      by (rule dir_index_update[OF ok assms j(1)]) (use j neq in auto)
    moreover have "i \<noteq> j" if "dir_index D k = Some i" for i using dir_index_Some[OF that] j neq by auto
    ultimately show ?thesis using neq by (cases "dir_index D k") (auto simp: dir_map_def)
  qed
  then have "dir_map ?D = (dir_map D)(name_key name := None)" by (rule ext)
  moreover have "Directory_Remove name D = Inr (True, ?D)"
    using FindIndex_eq[OF assms, of name] Some j by (simp add: Directory_Remove_def get_entry_def)
  ultimately show ?thesis using Some ok by (auto simp: dir_map_def)
qed

section \<open>The name-table interface\<close>

locale name_table =
  fixes ok :: "'t \<Rightarrow> bool"
    and abs :: "'t \<Rightarrow> byte list \<Rightarrow> int option"
    and full :: "'t \<Rightarrow> bool"
    and fnd :: "byte list \<Rightarrow> 't \<Rightarrow> int res"
    and add :: "byte list \<Rightarrow> int \<Rightarrow> 't \<Rightarrow> (bool \<times> 't) res"
    and rem :: "byte list \<Rightarrow> 't \<Rightarrow> (bool \<times> 't) res"
  assumes find_law: "ok t \<Longrightarrow> fnd nm t = Inr (case abs t (name_key nm) of None \<Rightarrow> -1 | Some s \<Rightarrow> s)"
    and add_law: "ok t \<Longrightarrow> int_ok s \<Longrightarrow> if abs t (name_key nm) \<noteq> None \<or> full t then add nm s t = Inr (False, t)
      else \<exists>t'. add nm s t = Inr (True, t') \<and> ok t' \<and> abs t' = (abs t)(name_key nm \<mapsto> s)"
    and rem_law: "ok t \<Longrightarrow> case abs t (name_key nm) of None \<Rightarrow> rem nm t = Inr (False, t)
      | Some s \<Rightarrow> \<exists>t'. rem nm t = Inr (True, t') \<and> ok t' \<and> abs t' = (abs t)(name_key nm := None)"
begin

lemma find_after_add:
  assumes "ok t" "int_ok s" "add nm s t = Inr (True, t')"
  shows "fnd nm' t' = (if name_key nm' = name_key nm then Inr s else fnd nm' t)" and "ok t'"
  using add_law[OF assms(1,2), of nm] assms(1,3) by (auto simp: find_law split: if_splits)

lemma find_after_rem:
  assumes "ok t" "rem nm t = Inr (True, t')"
  shows "fnd nm' t' = (if name_key nm' = name_key nm then Inr (-1) else fnd nm' t)" and "ok t'"
  using rem_law[OF assms(1), of nm] assms by (auto simp: find_law split: option.splits)

lemma rem_after_add:
  assumes "ok t" "int_ok s" "add nm s t = Inr (True, t')"
  shows "\<exists>t''. rem nm t' = Inr (True, t'') \<and> ok t'' \<and> abs t'' = abs t"
proof -
  have n: "abs t (name_key nm) = None" and t': "ok t'" "abs t' = (abs t)(name_key nm \<mapsto> s)"
    using add_law[OF assms(1,2), of nm] assms(3) by (auto split: if_splits)
  then show ?thesis using rem_law[OF t'(1), of nm] by (auto simp: fun_upd_idem)
qed

lemma add_fails: "ok t \<Longrightarrow> int_ok s \<Longrightarrow> add nm s t = Inr (False, t') \<Longrightarrow> t' = t \<and> (abs t (name_key nm) \<noteq> None \<or> full t)"
  using add_law[of t s nm] by (auto split: if_splits)

end

interpretation dt: name_table dir_ok dir_map dir_full Directory_Find Directory_Add Directory_Remove
proof
  fix t s nm assume a: "dir_ok t" "int_ok s"
  show "if dir_map t (name_key nm) \<noteq> None \<or> dir_full t then Directory_Add nm s t = Inr (False, t)
      else \<exists>t'. Directory_Add nm s t = Inr (True, t') \<and> dir_ok t' \<and> dir_map t' = (dir_map t)(name_key nm \<mapsto> s)"
    using Directory_Add_eq[OF a, of nm] by (auto split: if_splits)
next
  fix t nm assume a: "dir_ok t"
  show "case dir_map t (name_key nm) of None \<Rightarrow> Directory_Remove nm t = Inr (False, t)
      | Some s \<Rightarrow> \<exists>t'. Directory_Remove nm t = Inr (True, t') \<and> dir_ok t' \<and> dir_map t' = (dir_map t)(name_key nm := None)"
    using Directory_Remove_eq[OF a, of nm] by (auto split: option.splits)
qed (rule Directory_Find_eq)

text \<open>
  C17. The directory is a map from names, compared on their first nine bytes, to header sectors: after a
  successful \<open>Add\<close> the new name is found and every other lookup is unchanged, and removing the name
  again restores the map; \<open>Add\<close> refuses exactly when the name is present or the table is full.
\<close>

theorem directory_is_map:
  assumes "dir_ok D" and "int_ok s"
  shows "if dir_map D (name_key nm) \<noteq> None \<or> dir_full D then Directory_Add nm s D = Inr (False, D)
    else \<exists>D' D''. Directory_Add nm s D = Inr (True, D') \<and> dir_ok D'
      \<and> (\<forall>nm'. Directory_Find nm' D' = (if name_key nm' = name_key nm then Inr s else Directory_Find nm' D))
      \<and> Directory_Remove nm D' = Inr (True, D'') \<and> dir_ok D'' \<and> dir_map D'' = dir_map D"
proof (cases "dir_map D (name_key nm) \<noteq> None \<or> dir_full D")
  case False
  then obtain D' where D': "Directory_Add nm s D = Inr (True, D')" using dt.add_law[OF assms, of nm] by auto
  with False show ?thesis
    using dt.find_after_add[OF assms D'] dt.rem_after_add[OF assms D'] by auto
qed (use dt.add_law[OF assms, of nm] in auto)

definition demo_dir :: Directory where
  "demo_dir = Directory_new (\<lambda>_. \<lparr>inUse = True, de_sector = 3, de_name = replicate 10 0\<rparr>) 2"

theorem directory_is_map_witness:
  "dir_ok demo_dir \<and> (\<exists>D'. Directory_Add [97, 98] 7 demo_dir = Inr (True, D') \<and> Directory_Find [97, 98, 0, 5] D' = Inr 7)"
proof -
  have t: "table demo_dir = [\<lparr>inUse = False, de_sector = 3, de_name = replicate 10 0\<rparr>, \<lparr>inUse = False, de_sector = 3, de_name = replicate 10 0\<rparr>]"
    "tableSize demo_dir = 2" by (simp_all add: demo_dir_def Directory_new_def upt_rec)
  then have ok: "dir_ok demo_dir" by (auto simp: dir_ok_def entry_typed_def int_ok_def FileNameMaxLen_def nth_Cons')
  have "dir_map demo_dir (name_key [97, 98]) = None" "\<not> dir_full demo_dir"
    using t by (auto simp: dir_map_def dir_index_None dir_full_def nth_Cons')
  then show ?thesis using ok directory_is_map[OF ok, of 7 "[97, 98]"]
    by (auto simp: int_ok_def name_key_def FileNameMaxLen_def)
qed

end
