(* ===== verification/Nachos_FileSys.thy ===== *)
theory Nachos_FileSys
  imports Nachos_Directory
begin

text \<open>
  filesys/filesys.h (the FILESYS branch) and filesys.cc: the file system, and the file representation of the
  bitmap (\<open>BitMap::FetchFrom\<close>, \<open>BitMap::WriteBack\<close> of userprog/bitmap.cc).

  \<open>OpenFile\<close> objects live in a heap, because the open-file table holds pointers and several slots can point
  to the same object. Every \<open>new\<close> of an object whose constructor leaves memory uninitialised takes its
  contents from the record \<open>Junk\<close>, an argument of the operations. Names are C strings.
\<close>

section \<open>Bitmaps as files\<close>

definition words_bytes :: "word32 list \<Rightarrow> byte list" where
  "words_bytes ws = concat (map (le_bytes 4) ws)"

primrec words_of_bytes :: "nat \<Rightarrow> byte list \<Rightarrow> word32 list" where
  "words_of_bytes 0 bs = []"
| "words_of_bytes (Suc n) bs = le_word (take 4 bs) # words_of_bytes n (drop 4 bs)"

definition BitMap_FetchFrom :: "OpenFile \<Rightarrow> BitMap \<Rightarrow> Disk \<Rightarrow> (BitMap \<times> Disk) res" where
  "BitMap_FetchFrom f bm d = bindR (OpenFile_ReadAt f (numWords bm * 4) 0 d) (\<lambda>(x, d).
     Inr (bm\<lparr>bmap := words_of_bytes (length (bmap bm)) (overwrite 0 x (words_bytes (bmap bm)))\<rparr>, d))"

definition BitMap_WriteBack :: "(nat \<Rightarrow> byte) \<Rightarrow> OpenFile \<Rightarrow> BitMap \<Rightarrow> Disk \<Rightarrow> Disk res" where
  "BitMap_WriteBack junk f bm d =
     bindR (OpenFile_WriteAt junk f (words_bytes (bmap bm)) (numWords bm * 4) 0 d) (\<lambda>(r, d). Inr d)"

section \<open>State\<close>

definition FreeMapSector :: int where "FreeMapSector = 0"
definition DirectorySector :: int where "DirectorySector = 1"
definition FreeMapFileSize :: int where "FreeMapFileSize = NumSectors div 8"
definition NumDirEntries :: nat where "NumDirEntries = 10"
definition DirectoryFileSize :: int where "DirectoryFileSize = int EntrySize * int NumDirEntries"
definition MaxOpen :: nat where "MaxOpen = 15"

record Junk =
  j_word :: "nat \<Rightarrow> word32"
  j_entry :: "nat \<Rightarrow> DirectoryEntry"
  j_byte :: "nat \<Rightarrow> byte"
  j_hdr :: FileHeader
  j_type :: int

record FileSystem =
  fs_disk :: Disk
  freeMapFile :: OpenFile
  directoryFile :: OpenFile
  of_heap :: "nat \<Rightarrow> OpenFile option"
  of_brk :: nat
  openf :: "nat option list"
  fs_index :: int

definition get_openf :: "int \<Rightarrow> FileSystem \<Rightarrow> nat option res" where
  "get_openf i fs = (if 0 \<le> i \<and> i < int (length (openf fs)) then Inr (openf fs ! nat i) else Inl OutOfBounds)"

definition put_openf :: "int \<Rightarrow> nat option \<Rightarrow> FileSystem \<Rightarrow> FileSystem res" where
  "put_openf i p fs = (if 0 \<le> i \<and> i < int (length (openf fs)) then Inr (fs\<lparr>openf := (openf fs)[nat i := p]\<rparr>) else Inl OutOfBounds)"

text \<open>\<open>new OpenFile(sector, type)\<close>: the pointer and the state.\<close>

definition alloc_OpenFile :: "int \<Rightarrow> int \<Rightarrow> FileSystem \<Rightarrow> (nat \<times> FileSystem) res" where
  "alloc_OpenFile sector ty fs = bindR (OpenFile_new sector ty (fs_disk fs)) (\<lambda>(f, d).
     Inr (of_brk fs, fs\<lparr>fs_disk := d, of_heap := (of_heap fs)(of_brk fs := Some f), of_brk := of_brk fs + 1\<rparr>))"

text \<open>A fresh directory object filled from the directory file, and a fresh bitmap from the bitmap file.\<close>

definition fetch_directory :: "Junk \<Rightarrow> FileSystem \<Rightarrow> (Directory \<times> FileSystem) res" where
  "fetch_directory J fs =
     bindR (Directory_FetchFrom (directoryFile fs) (Directory_new (j_entry J) NumDirEntries) (fs_disk fs)) (\<lambda>(D, d).
     Inr (D, fs\<lparr>fs_disk := d\<rparr>))"

definition fetch_freemap :: "Junk \<Rightarrow> FileSystem \<Rightarrow> (BitMap \<times> FileSystem) res" where
  "fetch_freemap J fs = bindR (BitMap_new (j_word J) NumSectors) (\<lambda>bm.
     bindR (BitMap_FetchFrom (freeMapFile fs) bm (fs_disk fs)) (\<lambda>(bm, d). Inr (bm, fs\<lparr>fs_disk := d\<rparr>)))"

section \<open>Operations\<close>

definition FileSystem_Create :: "Junk \<Rightarrow> byte list \<Rightarrow> int \<Rightarrow> FileSystem \<Rightarrow> (bool \<times> FileSystem) res" where
  "FileSystem_Create J name initialSize fs =
    bindR (fetch_directory J fs) (\<lambda>(directory, fs).
    bindR (Directory_Find name directory) (\<lambda>found.
    if found \<noteq> -1 then Inr (False, fs) else
    bindR (fetch_freemap J fs) (\<lambda>(freeMap, fs).
    bindR (BitMap_Find freeMap) (\<lambda>(sector, freeMap).
    if sector = -1 then Inr (False, fs) else
    bindR (Directory_Add name sector directory) (\<lambda>(added, directory).
    if \<not> added then Inr (False, fs) else
    bindR (FileHeader_Allocate freeMap initialSize (j_hdr J)) (\<lambda>(ok, hdr, freeMap).
    if \<not> ok then Inr (False, fs) else
    bindR (FileHeader_WriteBack sector hdr (fs_disk fs)) (\<lambda>d.
    bindR (Directory_WriteBack (j_byte J) (directoryFile fs) directory d) (\<lambda>d.
    bindR (BitMap_WriteBack (j_byte J) (freeMapFile fs) freeMap d) (\<lambda>d.
    Inr (True, fs\<lparr>fs_disk := d\<rparr>))))))))))"

fun free_slot :: "nat option list \<Rightarrow> nat list \<Rightarrow> int res" where
  "free_slot fds [] = Inr (-1)"
| "free_slot fds (i # is) = (if i \<ge> length fds then Inl OutOfBounds
     else if fds ! i = None then Inr (int i) else free_slot fds is)"

definition FileSystem_FindFreeSlot :: "FileSystem \<Rightarrow> int res" where
  "FileSystem_FindFreeSlot fs = free_slot (openf fs) [2..<MaxOpen]"

text \<open>\<open>Open(name)\<close>: the object it opens is dropped, the slot at \<open>index\<close> is returned.\<close>

definition FileSystem_Open1 :: "Junk \<Rightarrow> byte list \<Rightarrow> FileSystem \<Rightarrow> (nat option \<times> FileSystem) res" where
  "FileSystem_Open1 J name fs =
    bindR (fetch_directory J fs) (\<lambda>(directory, fs).
    bindR (Directory_Find name directory) (\<lambda>sector.
    bindR (if sector \<ge> 0 then bindR (alloc_OpenFile sector (j_type J) fs) (\<lambda>(p, fs). Inr fs) else Inr fs) (\<lambda>fs.
    let fs = fs\<lparr>fs_index := fs_index fs + 1\<rparr> in
    bindR (get_openf (fs_index fs - 1) fs) (\<lambda>p. Inr (p, fs)))))"

definition FileSystem_Open :: "Junk \<Rightarrow> byte list \<Rightarrow> int \<Rightarrow> FileSystem \<Rightarrow> (nat option \<times> FileSystem) res" where
  "FileSystem_Open J name ty fs =
    bindR (FileSystem_FindFreeSlot fs) (\<lambda>freeSlot.
    bindR (fetch_directory J fs) (\<lambda>(directory, fs).
    bindR (Directory_Find name directory) (\<lambda>sector.
    bindR (if sector \<ge> 0 then bindR (alloc_OpenFile sector ty fs) (\<lambda>(p, fs). put_openf freeSlot (Some p) fs) else Inr fs) (\<lambda>fs.
    bindR (get_openf freeSlot fs) (\<lambda>p. Inr (p, fs))))))"

definition FileSystem_Remove :: "Junk \<Rightarrow> byte list \<Rightarrow> FileSystem \<Rightarrow> (bool \<times> FileSystem) res" where
  "FileSystem_Remove J name fs =
    bindR (fetch_directory J fs) (\<lambda>(directory, fs).
    bindR (Directory_Find name directory) (\<lambda>sector.
    if sector = -1 then Inr (False, fs) else
    bindR (FileHeader_FetchFrom sector (fs_disk fs)) (\<lambda>(fileHdr, d).
    bindR (fetch_freemap J (fs\<lparr>fs_disk := d\<rparr>)) (\<lambda>(freeMap, fs).
    bindR (FileHeader_Deallocate freeMap fileHdr) (\<lambda>freeMap.
    bindR (BitMap_Clear sector freeMap) (\<lambda>freeMap.
    bindR (Directory_Remove name directory) (\<lambda>(removed, directory).
    bindR (BitMap_WriteBack (j_byte J) (freeMapFile fs) freeMap (fs_disk fs)) (\<lambda>d.
    bindR (Directory_WriteBack (j_byte J) (directoryFile fs) directory d) (\<lambda>d.
    Inr (True, fs\<lparr>fs_disk := d\<rparr>))))))))))"

definition FileSystem_List :: "Junk \<Rightarrow> FileSystem \<Rightarrow> (byte list list \<times> FileSystem) res" where
  "FileSystem_List J fs = bindR (fetch_directory J fs) (\<lambda>(directory, fs).
     bindR (Directory_List directory) (\<lambda>names. Inr (names, fs)))"

text \<open>ASCII "stdin" and "stdout".\<close>

definition str_stdin :: "byte list" where "str_stdin = [115, 116, 100, 105, 110]"
definition str_stdout :: "byte list" where "str_stdout = [115, 116, 100, 111, 117, 116]"

text \<open>The formatting half of the constructor, up to the initial contents of the two files.\<close>

definition FileSystem_format :: "Junk \<Rightarrow> Disk \<Rightarrow> (OpenFile \<times> OpenFile \<times> Disk) res" where
  "FileSystem_format J d =
    bindR (BitMap_new (j_word J) NumSectors) (\<lambda>freeMap.
    let directory = Directory_new (j_entry J) NumDirEntries in
    bindR (BitMap_Mark FreeMapSector freeMap) (\<lambda>freeMap.
    bindR (BitMap_Mark DirectorySector freeMap) (\<lambda>freeMap.
    bindR (FileHeader_Allocate freeMap FreeMapFileSize (j_hdr J)) (\<lambda>(ok1, mapHdr, freeMap).
    bindR (ASSERT ok1) (\<lambda>_.
    bindR (FileHeader_Allocate freeMap DirectoryFileSize (j_hdr J)) (\<lambda>(ok2, dirHdr, freeMap).
    bindR (ASSERT ok2) (\<lambda>_.
    bindR (FileHeader_WriteBack FreeMapSector mapHdr d) (\<lambda>d.
    bindR (FileHeader_WriteBack DirectorySector dirHdr d) (\<lambda>d.
    bindR (OpenFile_new FreeMapSector (j_type J) d) (\<lambda>(mapFile, d).
    bindR (OpenFile_new DirectorySector (j_type J) d) (\<lambda>(dirFile, d).
    bindR (BitMap_WriteBack (j_byte J) mapFile freeMap d) (\<lambda>d.
    bindR (Directory_WriteBack (j_byte J) dirFile directory d) (\<lambda>d.
    Inr (mapFile, dirFile, d))))))))))))))"

text \<open>The object before its open-file table is filled in: fifteen null pointers, \<open>index\<close> 0.\<close>

definition initial_fs :: "OpenFile \<Rightarrow> OpenFile \<Rightarrow> Disk \<Rightarrow> FileSystem" where
  "initial_fs mapFile dirFile d =
     \<lparr>fs_disk = d, freeMapFile = mapFile, directoryFile = dirFile, of_heap = (\<lambda>_. None), of_brk = 0,
      openf = replicate MaxOpen None, fs_index = 0\<rparr>"

definition FileSystem_new :: "Junk \<Rightarrow> bool \<Rightarrow> Disk \<Rightarrow> FileSystem res" where
  "FileSystem_new J format d =
    bindR (if format then FileSystem_format J d
           else bindR (OpenFile_new FreeMapSector (j_type J) d) (\<lambda>(mapFile, d).
                bindR (OpenFile_new DirectorySector (j_type J) d) (\<lambda>(dirFile, d). Inr (mapFile, dirFile, d))))
      (\<lambda>(mapFile, dirFile, d).
    bindR (FileSystem_Open J str_stdin 2 (initial_fs mapFile dirFile d)) (\<lambda>(p, fs).
    bindR (put_openf 0 p fs) (\<lambda>fs.
    bindR (FileSystem_Open J str_stdout 3 fs) (\<lambda>(p, fs).
    bindR (put_openf 1 p (fs\<lparr>fs_index := 1\<rparr>)) (\<lambda>fs.
    bindR (FileSystem_Create J str_stdin 0 (fs\<lparr>fs_index := 2\<rparr>)) (\<lambda>(ok, fs).
    bindR (FileSystem_Create J str_stdout 0 fs) (\<lambda>(ok, fs). Inr fs)))))))"

end
