(* ===== verification/Nachos_FsInv.thy ===== *)
theory Nachos_FsInv
  imports Nachos_FileSys
begin

text \<open>
  The invariant of the file system on disk and what \<open>Create\<close> and \<open>Remove\<close> do to it.

  \<open>disk_dir\<close> and \<open>disk_map\<close> are the directory and the free map as stored on disk, \<open>hdr_at\<close> the header
  stored in a sector, \<open>own\<close> the sectors of a file: its header's and its data's. \<open>fs_ok\<close> says that the
  sectors of the two system files and of all files in the directory are disjoint and are exactly the
  sectors marked in the free map.
\<close>

section \<open>Round trips of the two system files\<close>

definition junk_ok :: "Junk \<Rightarrow> bool" where
  "junk_ok J \<longleftrightarrow> (\<forall>i. entry_typed (j_entry J i)) \<and> hdr_typed (j_hdr J)"

definition secs :: "FileHeader \<Rightarrow> nat set" where
  "secs h = nat ` set (hdr_sectors h)"

definition disk_dir :: "FileSystem \<Rightarrow> Directory" where
  "disk_dir fs = \<lparr>tableSize = int NumDirEntries,
     table = table_of_bytes NumDirEntries (file_data (fs_disk fs) (of_hdr (directoryFile fs)))\<rparr>"

definition disk_map :: "FileSystem \<Rightarrow> BitMap" where
  "disk_map fs = \<lparr>numBits = NumSectors, numWords = 32,
     bmap = words_of_bytes 32 (file_data (fs_disk fs) (of_hdr (freeMapFile fs)))\<rparr>"

definition sys_ok :: "FileSystem \<Rightarrow> bool" where
  "sys_ok fs \<longleftrightarrow> disk_ok (fs_disk fs)
     \<and> hdr_ok (of_hdr (freeMapFile fs)) \<and> numBytes (of_hdr (freeMapFile fs)) = FreeMapFileSize
     \<and> hdr_ok (of_hdr (directoryFile fs)) \<and> numBytes (of_hdr (directoryFile fs)) = DirectoryFileSize
     \<and> {0, 1} \<inter> (secs (of_hdr (freeMapFile fs)) \<union> secs (of_hdr (directoryFile fs))) = {}
     \<and> secs (of_hdr (freeMapFile fs)) \<inter> secs (of_hdr (directoryFile fs)) = {}"

lemma fs_sizes: "FreeMapFileSize = 128" "DirectoryFileSize = 200" "NumDirEntries = 10" "EntrySize = 20"
  by (simp_all add: FreeMapFileSize_def DirectoryFileSize_def NumDirEntries_def EntrySize_def)

lemma overwrite_full: "length x = length buf \<Longrightarrow> overwrite 0 x buf = x"
  by (rule nth_equalityI) (simp_all add: nth_overwrite)

lemma length_words_bytes [simp]: "length (words_bytes ws) = 4 * length ws"
  by (induction ws) (simp_all add: words_bytes_def)

lemma words_roundtrip: "words_of_bytes (length ws) (words_bytes ws) = ws"
  by (induction ws) (simp_all add: words_bytes_def)

lemma length_words_of_bytes [simp]: "length (words_of_bytes n bs) = n"
  by (induction n arbitrary: bs) simp_all

lemma length_table_of_bytes [simp]: "length (table_of_bytes n bs) = n"
  by (induction n arbitrary: bs) simp_all

lemma file_data_cong:
  assumes "hdr_ok h" and "\<And>s. s \<in> secs h \<Longrightarrow> sector_content d' s = sector_content d s"
  shows "file_data d' h = file_data d h"
proof -
  have "file_byte d' h p = file_byte d h p" if "p < nat (numBytes h)" for p
    using assms(2) hdr_block(3)[OF assms(1) block_index[OF assms(1) that]] by (simp add: file_byte_def secs_def)
  then show ?thesis by (simp add: file_data_def)
qed

lemma bm_ok_disk_map: "bm_ok (disk_map fs)"
  by (simp add: bm_ok_def disk_map_def BitsInWord_def divRoundUp_nonneg)

lemma fetch_directory_ok:
  assumes "sys_ok fs" and "junk_ok J"
  shows "\<exists>d'. fetch_directory J fs = Inr (disk_dir fs, fs\<lparr>fs_disk := d'\<rparr>) \<and> disk_ok d'
    \<and> sector_content d' = sector_content (fs_disk fs)"
proof -
  let ?f = "directoryFile fs"
  let ?D = "Directory_new (j_entry J) NumDirEntries"
  obtain d' where d': "OpenFile_ReadAt ?f 200 0 (fs_disk fs) = Inr (take 200 (file_data (fs_disk fs) (of_hdr ?f)), d')"
    "disk_ok d'" "sector_content d' = sector_content (fs_disk fs)"
    using OpenFile_ReadAt_spec[of "fs_disk fs" ?f 0 200] assms(1) by (auto simp: sys_ok_def)
  have n: "nat (numBytes (of_hdr ?f)) = 200" using assms(1) by (simp add: sys_ok_def fs_sizes)
  have "length (table_bytes (table ?D)) = 200"
    using assms(2) by (subst length_table_bytes) (auto simp: Directory_new_def junk_ok_def entry_typed_def fs_sizes)
  then have "overwrite 0 (file_data (fs_disk fs) (of_hdr ?f)) (table_bytes (table ?D)) = file_data (fs_disk fs) (of_hdr ?f)"
    using n by (intro overwrite_full) simp
  then show ?thesis using d' n
    by (intro exI[of _ d']) (simp add: fetch_directory_def Directory_FetchFrom_def disk_dir_def Directory_new_def fs_sizes)
qed

lemma fetch_freemap_ok:
  assumes "sys_ok fs"
  shows "\<exists>d'. fetch_freemap J fs = Inr (disk_map fs, fs\<lparr>fs_disk := d'\<rparr>) \<and> disk_ok d'
    \<and> sector_content d' = sector_content (fs_disk fs)"
proof -
  let ?f = "freeMapFile fs"
  obtain bm where bm: "BitMap_new (j_word J) NumSectors = Inr bm" "bm_ok bm" "numBits bm = NumSectors"
    using BitMap_new_spec[of NumSectors "j_word J"] by auto
  then have nw: "numWords bm = 32" "length (bmap bm) = 32" by (simp_all add: bm_ok_def BitsInWord_def divRoundUp_nonneg)
  obtain d' where d': "OpenFile_ReadAt ?f 128 0 (fs_disk fs) = Inr (take 128 (file_data (fs_disk fs) (of_hdr ?f)), d')"
    "disk_ok d'" "sector_content d' = sector_content (fs_disk fs)"
    using OpenFile_ReadAt_spec[of "fs_disk fs" ?f 0 128] assms(1) by (auto simp: sys_ok_def)
  have n: "nat (numBytes (of_hdr ?f)) = 128" using assms(1) by (simp add: sys_ok_def fs_sizes)
  then have "overwrite 0 (file_data (fs_disk fs) (of_hdr ?f)) (words_bytes (bmap bm)) = file_data (fs_disk fs) (of_hdr ?f)"
    using nw by (intro overwrite_full) simp
  then show ?thesis using d' n bm nw
    by (cases bm, intro exI[of _ d']) (simp add: fetch_freemap_def BitMap_FetchFrom_def disk_map_def)
qed

lemma write_whole_file:
  assumes "disk_ok d" and "hdr_ok (of_hdr f)" and "numBytes (of_hdr f) = int (length bs)" and "n = int (length bs)"
  shows "\<exists>r d'. OpenFile_WriteAt junk f bs n 0 d = Inr (r, d') \<and> disk_ok d' \<and> file_data d' (of_hdr f) = bs
    \<and> (\<forall>s. s \<notin> secs (of_hdr f) \<longrightarrow> sector_content d' s = sector_content d s)"
proof -
  have "numBytes (of_hdr f) < 2 ^ 31" using assms(2) by (simp add: hdr_ok_def hdr_typed_def int_ok_def)
  then have "(0 :: int) + n < 2 ^ 31" using assms(3,4) by simp
  then obtain d' where "OpenFile_WriteAt junk f bs n 0 d = Inr (int (min (nat n) (nat (numBytes (of_hdr f)) - nat 0)), d')"
    "disk_ok d'" "file_data d' (of_hdr f) = overwrite (nat 0) (take (min (nat n) (nat (numBytes (of_hdr f)) - nat 0)) bs) (file_data d (of_hdr f))"
    "\<forall>s. s \<notin> secs (of_hdr f) \<longrightarrow> sector_content d' s = sector_content d s"
    using OpenFile_WriteAt_spec[OF assms(1,2), of 0 n bs junk] assms(4) unfolding secs_def by blast
  moreover have "overwrite 0 bs (file_data d (of_hdr f)) = bs" using assms(3) by (intro overwrite_full) simp
  ultimately show ?thesis using assms(3,4) by simp
qed

text \<open>Storing a directory or a free map.\<close>

lemma Directory_WriteBack_ok:
  assumes "disk_ok d" and "hdr_ok (of_hdr f)" and "numBytes (of_hdr f) = DirectoryFileSize"
    and "dir_ok D" and "tableSize D = int NumDirEntries"
  shows "\<exists>d'. Directory_WriteBack junk f D d = Inr d' \<and> disk_ok d'
    \<and> table_of_bytes NumDirEntries (file_data d' (of_hdr f)) = table D
    \<and> (\<forall>s. s \<notin> secs (of_hdr f) \<longrightarrow> sector_content d' s = sector_content d s)"
proof -
  have t: "\<forall>e\<in>set (table D). entry_typed e" "length (table D) = NumDirEntries" using assms(4,5) by (auto simp: dir_ok_def)
  then have l: "length (table_bytes (table D)) = 200" by (simp add: length_table_bytes fs_sizes)
  then have nb: "numBytes (of_hdr f) = int (length (table_bytes (table D)))" "200 = int (length (table_bytes (table D)))"
    using assms(3) by (simp_all add: fs_sizes)
  obtain r d' where w: "OpenFile_WriteAt junk f (table_bytes (table D)) 200 0 d = Inr (r, d')" "disk_ok d'"
    "file_data d' (of_hdr f) = table_bytes (table D)" "\<forall>s. s \<notin> secs (of_hdr f) \<longrightarrow> sector_content d' s = sector_content d s"
    using write_whole_file[OF assms(1,2) nb, of junk] by blast
  moreover from w(3) have "table_of_bytes NumDirEntries (file_data d' (of_hdr f)) = table D"
    using table_roundtrip[OF t(1), of "[]"] t(2) by simp
  moreover have "Directory_WriteBack junk f D d = Inr d'"
    using assms(5) by (simp add: Directory_WriteBack_def fs_sizes w(1))
  ultimately show ?thesis by (intro exI[of _ d']) (simp only: simp_thms)
qed

lemma BitMap_WriteBack_ok:
  assumes "disk_ok d" and "hdr_ok (of_hdr f)" and "numBytes (of_hdr f) = FreeMapFileSize"
    and "bm_ok bm" and "numBits bm = NumSectors"
  shows "\<exists>d'. BitMap_WriteBack junk f bm d = Inr d' \<and> disk_ok d'
    \<and> \<lparr>numBits = NumSectors, numWords = 32, bmap = words_of_bytes 32 (file_data d' (of_hdr f))\<rparr> = bm
    \<and> (\<forall>s. s \<notin> secs (of_hdr f) \<longrightarrow> sector_content d' s = sector_content d s)"
proof -
  have nw: "numWords bm = 32" "length (bmap bm) = 32"
    using assms(4,5) by (simp_all add: bm_ok_def BitsInWord_def divRoundUp_nonneg)
  then have nb: "numBytes (of_hdr f) = int (length (words_bytes (bmap bm)))" "128 = int (length (words_bytes (bmap bm)))"
    using assms(3) by (simp_all add: fs_sizes)
  obtain r d' where w: "OpenFile_WriteAt junk f (words_bytes (bmap bm)) 128 0 d = Inr (r, d')" "disk_ok d'"
    "file_data d' (of_hdr f) = words_bytes (bmap bm)" "\<forall>s. s \<notin> secs (of_hdr f) \<longrightarrow> sector_content d' s = sector_content d s"
    using write_whole_file[OF assms(1,2) nb, of junk] by blast
  moreover have "\<lparr>numBits = NumSectors, numWords = 32, bmap = words_of_bytes 32 (file_data d' (of_hdr f))\<rparr> = bm"
    using words_roundtrip[of "bmap bm"] nw assms(5) w(3) by (cases bm) simp
  moreover have "BitMap_WriteBack junk f bm d = Inr d'"
    using nw by (simp add: BitMap_WriteBack_def w(1))
  ultimately show ?thesis by (intro exI[of _ d']) (simp only: simp_thms)
qed

section \<open>The invariant\<close>

definition hdr_at :: "Disk \<Rightarrow> int \<Rightarrow> FileHeader" where
  "hdr_at d s = hdr_of_bytes (sector_content d (nat s))"

definition own :: "Disk \<Rightarrow> int \<Rightarrow> nat set" where
  "own d s = insert (nat s) (secs (hdr_at d s))"

definition sys_secs :: "FileSystem \<Rightarrow> nat set" where
  "sys_secs fs = {0, 1} \<union> secs (of_hdr (freeMapFile fs)) \<union> secs (of_hdr (directoryFile fs))"

abbreviation files :: "FileSystem \<Rightarrow> byte list \<Rightarrow> int option" where
  "files fs \<equiv> dir_map (disk_dir fs)"

definition file_ok :: "FileSystem \<Rightarrow> int \<Rightarrow> bool" where
  "file_ok fs s \<longleftrightarrow> 0 \<le> s \<and> s < NumSectors \<and> hdr_ok (hdr_at (fs_disk fs) s) \<and> nat s \<notin> secs (hdr_at (fs_disk fs) s)
     \<and> own (fs_disk fs) s \<inter> sys_secs fs = {}"

definition fs_ok :: "FileSystem \<Rightarrow> bool" where
  "fs_ok fs \<longleftrightarrow> sys_ok fs \<and> dir_ok (disk_dir fs)
     \<and> (\<forall>k s. files fs k = Some s \<longrightarrow> file_ok fs s)
     \<and> (\<forall>k k' s s'. files fs k = Some s \<and> files fs k' = Some s' \<and> k \<noteq> k' \<longrightarrow> own (fs_disk fs) s \<inter> own (fs_disk fs) s' = {})
     \<and> bm_set (disk_map fs) = sys_secs fs \<union> (\<Union>s\<in>ran (files fs). own (fs_disk fs) s)"

text \<open>Everything in the invariant depends on the disk through its sector contents only.\<close>

lemma same_content:
  assumes "sector_content d' = sector_content (fs_disk fs)"
  shows "disk_dir (fs\<lparr>fs_disk := d'\<rparr>) = disk_dir fs" "disk_map (fs\<lparr>fs_disk := d'\<rparr>) = disk_map fs"
    "hdr_at d' = hdr_at (fs_disk fs)" "own d' = own (fs_disk fs)" "sys_secs (fs\<lparr>fs_disk := d'\<rparr>) = sys_secs fs"
    "file_data d' = file_data (fs_disk fs)"
proof -
  show h: "hdr_at d' = hdr_at (fs_disk fs)" using assms by (simp add: hdr_at_def fun_eq_iff)
  show fd: "file_data d' = file_data (fs_disk fs)" using assms by (simp add: file_data_def file_byte_def fun_eq_iff)
  show "own d' = own (fs_disk fs)" by (simp add: own_def h fun_eq_iff)
  show "disk_dir (fs\<lparr>fs_disk := d'\<rparr>) = disk_dir fs" "disk_map (fs\<lparr>fs_disk := d'\<rparr>) = disk_map fs"
    "sys_secs (fs\<lparr>fs_disk := d'\<rparr>) = sys_secs fs" by (simp_all add: disk_dir_def disk_map_def sys_secs_def fd)
qed

lemma sys_ok_disk: "sys_ok fs \<Longrightarrow> disk_ok d' \<Longrightarrow> sys_ok (fs\<lparr>fs_disk := d'\<rparr>)"
  by (simp add: sys_ok_def)

lemma fs_ok_same_content:
  assumes "fs_ok fs" "disk_ok d'" "sector_content d' = sector_content (fs_disk fs)"
  shows "fs_ok (fs\<lparr>fs_disk := d'\<rparr>)"
  using assms(1) same_content[OF assms(3)] sys_ok_disk[of fs d'] assms(2)
  by (auto simp: fs_ok_def file_ok_def)

text \<open>Sectors a write leaves alone keep the files stored in them.\<close>

lemma own_cong:
  assumes "\<And>t. t \<in> own d s \<Longrightarrow> sector_content d' t = sector_content d t"
  shows "own d' s = own d s" "hdr_at d' s = hdr_at d s"
proof -
  have "sector_content d' (nat s) = sector_content d (nat s)" by (rule assms) (simp add: own_def)
  then show h: "hdr_at d' s = hdr_at d s" by (simp add: hdr_at_def)
  then show "own d' s = own d s" by (simp add: own_def)
qed

section \<open>Storing directory and free map\<close>

lemma disk_dir_eq:
  assumes "table_of_bytes NumDirEntries (file_data d (of_hdr (directoryFile fs))) = table D" "tableSize D = int NumDirEntries"
  shows "disk_dir (fs\<lparr>fs_disk := d\<rparr>) = D"
  using assms by (cases D) (simp add: disk_dir_def)

lemma store_dir_map:
  assumes "sys_ok fs" "disk_ok d" "dir_ok D" "tableSize D = int NumDirEntries" "bm_ok bm" "numBits bm = NumSectors"
  shows "\<exists>d1 d2. Directory_WriteBack j (directoryFile fs) D d = Inr d1 \<and> BitMap_WriteBack j (freeMapFile fs) bm d1 = Inr d2
    \<and> disk_ok d2 \<and> disk_dir (fs\<lparr>fs_disk := d2\<rparr>) = D \<and> disk_map (fs\<lparr>fs_disk := d2\<rparr>) = bm
    \<and> (\<forall>s. s \<notin> sys_secs fs - {0, 1} \<longrightarrow> sector_content d2 s = sector_content d s)"
proof -
  let ?dh = "of_hdr (directoryFile fs)" and ?mh = "of_hdr (freeMapFile fs)"
  have h: "hdr_ok ?dh" "numBytes ?dh = DirectoryFileSize" "hdr_ok ?mh" "numBytes ?mh = FreeMapFileSize"
    "secs ?mh \<inter> secs ?dh = {}" "{0, 1} \<inter> (secs ?mh \<union> secs ?dh) = {}" using assms(1) by (auto simp: sys_ok_def)
  obtain d1 where d1: "Directory_WriteBack j (directoryFile fs) D d = Inr d1" "disk_ok d1"
    "table_of_bytes NumDirEntries (file_data d1 ?dh) = table D" "\<forall>s. s \<notin> secs ?dh \<longrightarrow> sector_content d1 s = sector_content d s"
    using Directory_WriteBack_ok[OF assms(2) h(1,2) assms(3,4)] by blast
  obtain d2 where d2: "BitMap_WriteBack j (freeMapFile fs) bm d1 = Inr d2" "disk_ok d2"
    "\<lparr>numBits = NumSectors, numWords = 32, bmap = words_of_bytes 32 (file_data d2 ?mh)\<rparr> = bm"
    "\<forall>s. s \<notin> secs ?mh \<longrightarrow> sector_content d2 s = sector_content d1 s"
    using BitMap_WriteBack_ok[OF d1(2) h(3,4) assms(5,6)] by blast
  have "file_data d2 ?dh = file_data d1 ?dh" by (rule file_data_cong[OF h(1)]) (use d2(4) h(5) in blast)
  then have "disk_dir (fs\<lparr>fs_disk := d2\<rparr>) = D" using d1(3) assms(4) by (intro disk_dir_eq) simp_all
  moreover have "disk_map (fs\<lparr>fs_disk := d2\<rparr>) = bm" using d2(3) by (simp add: disk_map_def)
  moreover have "sector_content d2 s = sector_content d s" if "s \<notin> sys_secs fs - {0, 1}" for s
  proof -
    have "s \<notin> secs ?mh" "s \<notin> secs ?dh" using that h(6) by (auto simp: sys_secs_def)
    then show ?thesis using d1(4) d2(4) by (blast intro: trans)
  qed
  ultimately show ?thesis using d1(1) d2(1,2) by blast
qed

lemma store_map_dir:
  assumes "sys_ok fs" "disk_ok d" "dir_ok D" "tableSize D = int NumDirEntries" "bm_ok bm" "numBits bm = NumSectors"
  shows "\<exists>d1 d2. BitMap_WriteBack j (freeMapFile fs) bm d = Inr d1 \<and> Directory_WriteBack j (directoryFile fs) D d1 = Inr d2
    \<and> disk_ok d2 \<and> disk_dir (fs\<lparr>fs_disk := d2\<rparr>) = D \<and> disk_map (fs\<lparr>fs_disk := d2\<rparr>) = bm
    \<and> (\<forall>s. s \<notin> sys_secs fs - {0, 1} \<longrightarrow> sector_content d2 s = sector_content d s)"
proof -
  let ?dh = "of_hdr (directoryFile fs)" and ?mh = "of_hdr (freeMapFile fs)"
  have h: "hdr_ok ?dh" "numBytes ?dh = DirectoryFileSize" "hdr_ok ?mh" "numBytes ?mh = FreeMapFileSize"
    "secs ?mh \<inter> secs ?dh = {}" "{0, 1} \<inter> (secs ?mh \<union> secs ?dh) = {}" using assms(1) by (auto simp: sys_ok_def)
  obtain d1 where d1: "BitMap_WriteBack j (freeMapFile fs) bm d = Inr d1" "disk_ok d1"
    "\<lparr>numBits = NumSectors, numWords = 32, bmap = words_of_bytes 32 (file_data d1 ?mh)\<rparr> = bm"
    "\<forall>s. s \<notin> secs ?mh \<longrightarrow> sector_content d1 s = sector_content d s"
    using BitMap_WriteBack_ok[OF assms(2) h(3,4) assms(5,6)] by blast
  obtain d2 where d2: "Directory_WriteBack j (directoryFile fs) D d1 = Inr d2" "disk_ok d2"
    "table_of_bytes NumDirEntries (file_data d2 ?dh) = table D" "\<forall>s. s \<notin> secs ?dh \<longrightarrow> sector_content d2 s = sector_content d1 s"
    using Directory_WriteBack_ok[OF d1(2) h(1,2) assms(3,4)] by blast
  have "file_data d2 ?mh = file_data d1 ?mh" by (rule file_data_cong[OF h(3)]) (use d2(4) h(5) in blast)
  then have "disk_map (fs\<lparr>fs_disk := d2\<rparr>) = bm" using d1(3) by (simp add: disk_map_def)
  moreover have "disk_dir (fs\<lparr>fs_disk := d2\<rparr>) = D" using d2(3) assms(4) by (intro disk_dir_eq) simp_all
  moreover have "sector_content d2 s = sector_content d s" if "s \<notin> sys_secs fs - {0, 1}" for s
  proof -
    have "s \<notin> secs ?mh" "s \<notin> secs ?dh" using that h(6) by (auto simp: sys_secs_def)
    then show ?thesis using d1(4) d2(4) by (blast intro: trans)
  qed
  ultimately show ?thesis using d1(1) d2(1,2) by blast
qed

text \<open>Files untouched by a change of the disk outside their sectors.\<close>

lemma file_kept:
  assumes "fs_ok fs" "files fs k = Some t" and "\<And>u. u \<in> own (fs_disk fs) t \<Longrightarrow> sector_content d u = sector_content (fs_disk fs) u"
  shows "own d t = own (fs_disk fs) t" "hdr_at d t = hdr_at (fs_disk fs) t" "file_ok (fs\<lparr>fs_disk := d\<rparr>) t"
    "file_data d (hdr_at (fs_disk fs) t) = file_data (fs_disk fs) (hdr_at (fs_disk fs) t)"
proof -
  show o: "own d t = own (fs_disk fs) t" and h: "hdr_at d t = hdr_at (fs_disk fs) t" using own_cong assms(3) by blast+
  have f: "file_ok fs t" using assms(1,2) by (auto simp: fs_ok_def)
  then show "file_ok (fs\<lparr>fs_disk := d\<rparr>) t" using o h by (simp add: file_ok_def sys_secs_def)
  show "file_data d (hdr_at (fs_disk fs) t) = file_data (fs_disk fs) (hdr_at (fs_disk fs) t)"
    by (rule file_data_cong) (use f assms(3) in \<open>auto simp: file_ok_def own_def\<close>)
qed

text \<open>The writes at the end of a successful \<open>Create\<close>.\<close>

lemma create_store:
  assumes fs: "fs_ok fs" and d: "disk_ok d" "sector_content d = sector_content (fs_disk fs)"
    and i: "i \<notin> bm_set (disk_map fs)" "int i < NumSectors"
    and h: "hdr_ok h" "secs h \<inter> insert i (bm_set (disk_map fs)) = {}"
    and bm: "bm_ok bm" "numBits bm = NumSectors" "bm_set bm = insert i (bm_set (disk_map fs)) \<union> secs h"
    and D: "dir_ok D" "tableSize D = int NumDirEntries" "dir_map D = (files fs)(key \<mapsto> int i)" "files fs key = None"
  shows "\<exists>d1 d2 d3. FileHeader_WriteBack (int i) h d = Inr d1 \<and> Directory_WriteBack j (directoryFile fs) D d1 = Inr d2
    \<and> BitMap_WriteBack j (freeMapFile fs) bm d2 = Inr d3 \<and> fs_ok (fs\<lparr>fs_disk := d3\<rparr>) \<and> disk_dir (fs\<lparr>fs_disk := d3\<rparr>) = D
    \<and> hdr_at d3 (int i) = h
    \<and> (\<forall>k t. files fs k = Some t \<longrightarrow> (\<forall>u\<in>own (fs_disk fs) t. sector_content d3 u = sector_content (fs_disk fs) u))"
proof -
  let ?used = "bm_set (disk_map fs)"
  have used: "?used = sys_secs fs \<union> (\<Union>s\<in>ran (files fs). own (fs_disk fs) s)" and sys: "sys_ok fs"
    using fs by (auto simp: fs_ok_def)
  have hl: "length (hdr_bytes h) = SectorSize" using h(1) by (simp add: hdr_ok_def length_hdr_bytes)
  obtain d1 where d1: "FileHeader_WriteBack (int i) h d = Inr d1" "disk_ok d1" "sector_content d1 = (sector_content d)(i := hdr_bytes h)"
    using sd.write_ok[OF d(1), of "int i" "hdr_bytes h"] i hl by (auto simp: FileHeader_WriteBack_def)
  obtain d2 d3 where w: "Directory_WriteBack j (directoryFile fs) D d1 = Inr d2" "BitMap_WriteBack j (freeMapFile fs) bm d2 = Inr d3"
    "disk_ok d3" "disk_dir (fs\<lparr>fs_disk := d3\<rparr>) = D" "disk_map (fs\<lparr>fs_disk := d3\<rparr>) = bm"
    "\<forall>s. s \<notin> sys_secs fs - {0, 1} \<longrightarrow> sector_content d3 s = sector_content d1 s"
    using store_dir_map[OF sys d1(2) D(1,2) bm(1,2)] by blast
  have keep: "sector_content d3 u = sector_content (fs_disk fs) u" if "u \<notin> sys_secs fs" "u \<noteq> i" for u
    using that w(6) d1(3) d(2) by simp
  have i_sys: "i \<notin> sys_secs fs" using i(1) used by auto
  then have hd: "hdr_at d3 (int i) = h" using w(6) d1(3) h(1) hdr_roundtrip by (simp add: hdr_at_def hdr_ok_def)
  have old: "sector_content d3 u = sector_content (fs_disk fs) u" if "files fs k = Some t" "u \<in> own (fs_disk fs) t" for k t u
  proof (rule keep)
    show "u \<notin> sys_secs fs" using that fs by (auto simp: fs_ok_def file_ok_def)
    show "u \<noteq> i" using that i(1) used by (auto intro: ranI)
  qed
  let ?fs = "fs\<lparr>fs_disk := d3\<rparr>"
  have kept: "own d3 t = own (fs_disk fs) t" "file_ok ?fs t" if "files fs k = Some t" for k t
    using file_kept[OF fs that old[OF that]] by blast+
  have old_disj: "own (fs_disk fs) s \<inter> own (fs_disk fs) s' = {}"
    if "files fs k = Some s" "files fs k' = Some s'" "k \<noteq> k'" for k k' s s'
    using that fs unfolding fs_ok_def by blast
  have own_i: "own d3 (int i) = insert i (secs h)" using hd by (simp add: own_def)
  have new_ok: "file_ok ?fs (int i)"
    using hd h i i_sys used own_i by (auto simp: file_ok_def sys_secs_def)
  have fm: "files ?fs = (files fs)(key \<mapsto> int i)" using w(4) D(3) by simp
  have disj: "own d3 (int i) \<inter> own (fs_disk fs) t = {}" if "files fs k = Some t" for k t
    using that own_i h(2) i(1) used by (auto intro: ranI)
  have "fs_ok ?fs"
    unfolding fs_ok_def
  proof (intro conjI allI impI)
    show "sys_ok ?fs" using sys w(3) by (rule sys_ok_disk)
    show "dir_ok (disk_dir ?fs)" using w(4) D(1) by simp
    show "file_ok ?fs s" if "files ?fs k = Some s" for k s
      using that fm new_ok kept(2)[of k s] by (auto split: if_splits)
    show "own (fs_disk ?fs) s \<inter> own (fs_disk ?fs) s' = {}"
      if "files ?fs k = Some s \<and> files ?fs k' = Some s' \<and> k \<noteq> k'" for k k' s s'
      using that fm disj[of k s] disj[of k' s'] kept(1)[of k s] kept(1)[of k' s'] old_disj[of k s k' s']
      by (auto split: if_splits)
    have "(\<Union>s\<in>ran (files fs). own d3 s) = (\<Union>s\<in>ran (files fs). own (fs_disk fs) s)"
      using kept(1) by (auto simp: ran_def)
    then show "bm_set (disk_map ?fs) = sys_secs ?fs \<union> (\<Union>s\<in>ran (files ?fs). own (fs_disk ?fs) s)"
      using w(5) bm(3) used own_i D(4) by (auto simp: fm ran_map_upd sys_secs_def)
  qed
  then show ?thesis using d1(1) w(1,2,4) hd old by blast
qed

section \<open>Create\<close>

lemma find_sector: "fs_ok fs \<Longrightarrow> Directory_Find name (disk_dir fs) = Inr (case files fs (name_key name) of None \<Rightarrow> -1 | Some s \<Rightarrow> s)"
  by (simp add: dt.find_law fs_ok_def)

lemma found_iff: "fs_ok fs \<Longrightarrow> (case files fs (name_key name) of None \<Rightarrow> -1 | Some s \<Rightarrow> s) = -1 \<longleftrightarrow> files fs (name_key name) = None"
  by (cases "files fs (name_key name)") (fastforce simp: fs_ok_def file_ok_def)+

lemma int_ok_sector: "0 \<le> s \<Longrightarrow> s < NumSectors \<Longrightarrow> int_ok s"
  by (simp add: int_ok_def)

text \<open>The steps of \<open>Create\<close> once the directory and the free map are in memory.\<close>

lemma create_steps:
  assumes "fs_ok fs" "junk_ok J" "files fs (name_key name) = None"
  shows "\<exists>d. disk_ok d \<and> sector_content d = sector_content (fs_disk fs) \<and>
    FileSystem_Create J name sz fs =
     bindR (BitMap_Find (disk_map fs)) (\<lambda>(sector, freeMap).
     if sector = -1 then Inr (False, fs\<lparr>fs_disk := d\<rparr>) else
     bindR (Directory_Add name sector (disk_dir fs)) (\<lambda>(added, directory).
     if \<not> added then Inr (False, fs\<lparr>fs_disk := d\<rparr>) else
     bindR (FileHeader_Allocate freeMap sz (j_hdr J)) (\<lambda>(ok, hdr, freeMap).
     if \<not> ok then Inr (False, fs\<lparr>fs_disk := d\<rparr>) else
     bindR (FileHeader_WriteBack sector hdr d) (\<lambda>d.
     bindR (Directory_WriteBack (j_byte J) (directoryFile fs) directory d) (\<lambda>d.
     bindR (BitMap_WriteBack (j_byte J) (freeMapFile fs) freeMap d) (\<lambda>d.
     Inr (True, fs\<lparr>fs_disk := d\<rparr>)))))))"
proof -
  have sys: "sys_ok fs" using assms(1) by (simp add: fs_ok_def)
  obtain d1 where d1: "fetch_directory J fs = Inr (disk_dir fs, fs\<lparr>fs_disk := d1\<rparr>)" "disk_ok d1"
    "sector_content d1 = sector_content (fs_disk fs)" using fetch_directory_ok[OF sys assms(2)] by blast
  obtain d2 where d2: "fetch_freemap J (fs\<lparr>fs_disk := d1\<rparr>) = Inr (disk_map fs, fs\<lparr>fs_disk := d2\<rparr>)" "disk_ok d2"
    "sector_content d2 = sector_content (fs_disk fs)"
    using fetch_freemap_ok[OF sys_ok_disk[OF sys d1(2)], of J] same_content(2)[OF d1(3)] d1(3) by auto
  show ?thesis
    by (intro exI[of _ d2] conjI d2)
      (simp add: FileSystem_Create_def d1(1) find_sector[OF assms(1)] assms(3) d2(1) case_prod_beta cong: if_cong)
qed

text \<open>When there is room for a new file: an entry of the directory, a sector for the header and those for the data.\<close>

abbreviation create_room :: "FileSystem \<Rightarrow> byte list \<Rightarrow> int \<Rightarrow> bool" where
  "create_room fs name sz \<equiv> files fs (name_key name) = None \<and> \<not> dir_full (disk_dir fs)
     \<and> divRoundUp sz (int SectorSize) + 1 \<le> NumSectors - int (card (bm_set (disk_map fs)))"

lemma disk_map_facts: "bm_ok (disk_map fs)" "bm_size (disk_map fs) = 1024" "card (bm_set (disk_map fs)) \<le> 1024"
proof -
  show b: "bm_ok (disk_map fs)" "bm_size (disk_map fs) = 1024" by (simp_all add: bm_ok_disk_map) (simp add: disk_map_def bm_size_def)
  show "card (bm_set (disk_map fs)) \<le> 1024" using card_mono[OF _ bm_set_bound[of "disk_map fs"]] b(2) by simp
qed

text \<open>The header's sector and what is left for the data.\<close>

lemma find_header_sector:
  assumes "bm_set (disk_map fs) \<noteq> {..<1024}"
  obtains i bm1 where "BitMap_Find (disk_map fs) = Inr (int i, bm1)" "i < 1024" "int_ok (int i)" "i \<notin> bm_set (disk_map fs)"
    "bm_ok bm1" "numBits bm1 = NumSectors" "bm_size bm1 = 1024" "bm_set bm1 = insert i (bm_set (disk_map fs))"
    "int (bm_size bm1 - card (bm_set bm1)) = 1024 - int (card (bm_set (disk_map fs))) - 1"
proof -
  obtain i bm1 where i: "BitMap_Find (disk_map fs) = Inr (int i, bm1)" "i < 1024" "i \<notin> bm_set (disk_map fs)" "bm_ok bm1" "bm_size bm1 = 1024"
    "bm_set bm1 = insert i (bm_set (disk_map fs))" using bm.find_free[OF disk_map_facts(1)[of fs]] assms unfolding disk_map_facts(2) by blast
  have "card (bm_set bm1) = Suc (card (bm_set (disk_map fs)))" "card (bm_set bm1) \<le> 1024"
    using i(3,6) card_mono[OF _ bm_set_bound[of bm1]] i(5) by simp_all
  then have "int (bm_size bm1 - card (bm_set bm1)) = 1024 - int (card (bm_set (disk_map fs))) - 1" using i(5) by simp
  moreover have "numBits bm1 = NumSectors" using numBits_bm_size[OF i(4)] i(5) by simp
  moreover have "int_ok (int i)" using i(2) by (intro int_ok_sector) simp_all
  ultimately show thesis using i that by blast
qed

lemma create_fails:
  assumes "fs_ok fs" and "junk_ok J" and "0 \<le> sz" and "sz \<le> int MaxFileSize" and no: "\<not> create_room fs name sz"
  shows "\<exists>d. FileSystem_Create J name sz fs = Inr (False, fs\<lparr>fs_disk := d\<rparr>) \<and> disk_ok d \<and> sector_content d = sector_content (fs_disk fs)"
proof (cases "files fs (name_key name) = None")
  case False
  have sys: "sys_ok fs" using assms(1) by (simp add: fs_ok_def)
  obtain d where "fetch_directory J fs = Inr (disk_dir fs, fs\<lparr>fs_disk := d\<rparr>)" "disk_ok d" "sector_content d = sector_content (fs_disk fs)"
    using fetch_directory_ok[OF sys assms(2)] by blast
  then show ?thesis using False found_iff[OF assms(1), of name]
    by (intro exI[of _ d]) (simp add: FileSystem_Create_def find_sector[OF assms(1)])
next
  case new: True
  have dok: "dir_ok (disk_dir fs)" using assms(1) by (simp add: fs_ok_def)
  obtain d where d: "disk_ok d" "sector_content d = sector_content (fs_disk fs)" and
    run: "FileSystem_Create J name sz fs =
       bindR (BitMap_Find (disk_map fs)) (\<lambda>(sector, freeMap).
       if sector = -1 then Inr (False, fs\<lparr>fs_disk := d\<rparr>) else
       bindR (Directory_Add name sector (disk_dir fs)) (\<lambda>(added, directory).
       if \<not> added then Inr (False, fs\<lparr>fs_disk := d\<rparr>) else
       bindR (FileHeader_Allocate freeMap sz (j_hdr J)) (\<lambda>(ok, hdr, freeMap).
       if \<not> ok then Inr (False, fs\<lparr>fs_disk := d\<rparr>) else
       bindR (FileHeader_WriteBack sector hdr d) (\<lambda>d.
       bindR (Directory_WriteBack (j_byte J) (directoryFile fs) directory d) (\<lambda>d.
       bindR (BitMap_WriteBack (j_byte J) (freeMapFile fs) freeMap d) (\<lambda>d.
       Inr (True, fs\<lparr>fs_disk := d\<rparr>)))))))"
    using create_steps[OF assms(1,2) new, of sz] by blast
  have "FileSystem_Create J name sz fs = Inr (False, fs\<lparr>fs_disk := d\<rparr>)"
  proof (cases "bm_set (disk_map fs) = {..<1024}")
    case True
    then show ?thesis using run bm.find_full[OF disk_map_facts(1), of fs] disk_map_facts(2)[of fs] by simp
  next
    case False
    obtain i bm1 where i: "BitMap_Find (disk_map fs) = Inr (int i, bm1)" "int_ok (int i)" "bm_ok bm1" "numBits bm1 = NumSectors"
        "int (bm_size bm1 - card (bm_set bm1)) = 1024 - int (card (bm_set (disk_map fs))) - 1" by (rule find_header_sector[OF False])
    show ?thesis
    proof (cases "dir_full (disk_dir fs)")
      case True
      then show ?thesis using run i(1) dt.add_law[OF dok i(2), of name] by auto
    next
      case False
      then obtain D' where "Directory_Add name (int i) (disk_dir fs) = Inr (True, D')"
        using Directory_Add_eq[OF dok i(2), of name] new by auto
      moreover have "int (bm_size bm1 - card (bm_set bm1)) < divRoundUp sz (int SectorSize)" using no new False i(5) by simp
      then obtain h' where "FileHeader_Allocate bm1 sz (j_hdr J) = Inr (False, h', bm1)"
        using allocate_spec[OF i(3,4) assms(3,4), of "j_hdr J"] assms(2) by (auto simp: junk_ok_def)
      ultimately show ?thesis using run i(1) by simp
    qed
  qed
  then show ?thesis using d by blast
qed

lemma create_succeeds:
  assumes "fs_ok fs" and "junk_ok J" and "0 \<le> sz" and "sz \<le> int MaxFileSize" and room: "create_room fs name sz"
  shows "\<exists>s fs'. FileSystem_Create J name sz fs = Inr (True, fs') \<and> fs_ok fs'
    \<and> files fs' = (files fs)(name_key name \<mapsto> s) \<and> nat s \<notin> bm_set (disk_map fs) \<and> numBytes (hdr_at (fs_disk fs') s) = sz
    \<and> (\<forall>k t. files fs k = Some t \<longrightarrow> hdr_at (fs_disk fs') t = hdr_at (fs_disk fs) t
         \<and> file_data (fs_disk fs') (hdr_at (fs_disk fs) t) = file_data (fs_disk fs) (hdr_at (fs_disk fs) t))"
proof -
  have new: "files fs (name_key name) = None" and dok: "dir_ok (disk_dir fs)" using room assms(1) by (simp_all add: fs_ok_def)
  have n0: "0 \<le> divRoundUp sz (int SectorSize)" using assms(3) by (intro divRoundUp_ge_0) (simp_all add: SectorSize_def)
  then have "card (bm_set (disk_map fs)) \<noteq> 1024" using room by simp
  then have "bm_set (disk_map fs) \<noteq> {..<1024}" by (metis card_lessThan)
  then obtain i bm1 where i: "BitMap_Find (disk_map fs) = Inr (int i, bm1)" "i < 1024" "int_ok (int i)" "i \<notin> bm_set (disk_map fs)"
    "bm_ok bm1" "numBits bm1 = NumSectors" "bm_size bm1 = 1024" "bm_set bm1 = insert i (bm_set (disk_map fs))"
    "int (bm_size bm1 - card (bm_set bm1)) = 1024 - int (card (bm_set (disk_map fs))) - 1" by (rule find_header_sector)
  obtain D' where D': "Directory_Add name (int i) (disk_dir fs) = Inr (True, D')" "dir_ok D'"
    "tableSize D' = int NumDirEntries" "dir_map D' = (files fs)(name_key name \<mapsto> int i)"
    using Directory_Add_eq[OF dok i(3), of name] room by (auto simp: disk_dir_def)
  have "\<not> int (bm_size bm1 - card (bm_set bm1)) < divRoundUp sz (int SectorSize)" using room i(9) by simp
  then obtain h bm2 where h: "FileHeader_Allocate bm1 sz (j_hdr J) = Inr (True, h, bm2)" "hdr_ok h" "numBytes h = sz"
    "bm_ok bm2" "numBits bm2 = NumSectors" "secs h \<inter> bm_set bm1 = {}" "bm_set bm2 = bm_set bm1 \<union> secs h"
    using allocate_spec[OF i(5,6) assms(3,4), of "j_hdr J"] assms(2) unfolding secs_def by (auto simp: junk_ok_def)
  have pre: "int i < NumSectors" "secs h \<inter> insert i (bm_set (disk_map fs)) = {}" "bm_set bm2 = insert i (bm_set (disk_map fs)) \<union> secs h"
    using i(2,8) h(6,7) by auto
  obtain d where d: "disk_ok d" "sector_content d = sector_content (fs_disk fs)" and
    run: "FileSystem_Create J name sz fs =
       bindR (BitMap_Find (disk_map fs)) (\<lambda>(sector, freeMap).
       if sector = -1 then Inr (False, fs\<lparr>fs_disk := d\<rparr>) else
       bindR (Directory_Add name sector (disk_dir fs)) (\<lambda>(added, directory).
       if \<not> added then Inr (False, fs\<lparr>fs_disk := d\<rparr>) else
       bindR (FileHeader_Allocate freeMap sz (j_hdr J)) (\<lambda>(ok, hdr, freeMap).
       if \<not> ok then Inr (False, fs\<lparr>fs_disk := d\<rparr>) else
       bindR (FileHeader_WriteBack sector hdr d) (\<lambda>d.
       bindR (Directory_WriteBack (j_byte J) (directoryFile fs) directory d) (\<lambda>d.
       bindR (BitMap_WriteBack (j_byte J) (freeMapFile fs) freeMap d) (\<lambda>d.
       Inr (True, fs\<lparr>fs_disk := d\<rparr>)))))))"
    using create_steps[OF assms(1,2) new, of sz] by blast
  obtain d1 d2 d3 where w: "FileHeader_WriteBack (int i) h d = Inr d1" "Directory_WriteBack (j_byte J) (directoryFile fs) D' d1 = Inr d2"
    "BitMap_WriteBack (j_byte J) (freeMapFile fs) bm2 d2 = Inr d3" "fs_ok (fs\<lparr>fs_disk := d3\<rparr>)"
    "disk_dir (fs\<lparr>fs_disk := d3\<rparr>) = D'" "hdr_at d3 (int i) = h"
    "\<forall>k t. files fs k = Some t \<longrightarrow> (\<forall>u\<in>own (fs_disk fs) t. sector_content d3 u = sector_content (fs_disk fs) u)"
    using create_store[OF assms(1) d i(4) pre(1) h(2) pre(2) h(4,5) pre(3) D'(2-4) new, of "j_byte J"] by blast
  have "hdr_at d3 t = hdr_at (fs_disk fs) t \<and> file_data d3 (hdr_at (fs_disk fs) t) = file_data (fs_disk fs) (hdr_at (fs_disk fs) t)"
    if "files fs k = Some t" for k t using file_kept(2,4)[OF assms(1) that, of d3] w(7) that by blast
  then show ?thesis using run i(1,4) D'(1,4) h(1,3) w(1-6) by (intro exI[of _ "int i"] exI[of _ "fs\<lparr>fs_disk := d3\<rparr>"]) simp
qed

text \<open>
  C18. Creating a file keeps the file system consistent. \<open>Create\<close> of at most \<open>MaxFileSize\<close> bytes never faults;
  it succeeds exactly when the name is new, the directory has a free entry and there are sectors for the
  header and the data; then exactly that name is added, its header is stored in a sector that was free, and
  every other file keeps its header and its bytes. When it fails, no sector changes.
\<close>

theorem create_consistent:
  assumes "fs_ok fs" and "junk_ok J" and "0 \<le> sz" and "sz \<le> int MaxFileSize"
  shows "\<exists>ok fs'. FileSystem_Create J name sz fs = Inr (ok, fs') \<and> fs_ok fs'
    \<and> (ok \<longleftrightarrow> files fs (name_key name) = None \<and> \<not> dir_full (disk_dir fs)
         \<and> divRoundUp sz (int SectorSize) + 1 \<le> NumSectors - int (card (bm_set (disk_map fs))))
    \<and> (if ok then \<exists>s. files fs' = (files fs)(name_key name \<mapsto> s) \<and> nat s \<notin> bm_set (disk_map fs)
           \<and> numBytes (hdr_at (fs_disk fs') s) = sz
           \<and> (\<forall>k t. files fs k = Some t \<longrightarrow> hdr_at (fs_disk fs') t = hdr_at (fs_disk fs) t
                \<and> file_data (fs_disk fs') (hdr_at (fs_disk fs) t) = file_data (fs_disk fs) (hdr_at (fs_disk fs) t))
       else sector_content (fs_disk fs') = sector_content (fs_disk fs))"
proof (cases "create_room fs name sz")
  case True
  from create_succeeds[OF assms True] obtain s fs' where "FileSystem_Create J name sz fs = Inr (True, fs')" "fs_ok fs'"
    and "files fs' = (files fs)(name_key name \<mapsto> s) \<and> nat s \<notin> bm_set (disk_map fs) \<and> numBytes (hdr_at (fs_disk fs') s) = sz
      \<and> (\<forall>k t. files fs k = Some t \<longrightarrow> hdr_at (fs_disk fs') t = hdr_at (fs_disk fs) t
         \<and> file_data (fs_disk fs') (hdr_at (fs_disk fs) t) = file_data (fs_disk fs) (hdr_at (fs_disk fs) t))" by blast
  then show ?thesis using True by (intro exI[of _ True] exI[of _ fs']) auto
next
  case False
  then obtain d where "FileSystem_Create J name sz fs = Inr (False, fs\<lparr>fs_disk := d\<rparr>)" "disk_ok d" "sector_content d = sector_content (fs_disk fs)"
    using create_fails[OF assms] by blast
  then show ?thesis using False fs_ok_same_content[OF assms(1)] by (intro exI[of _ False] exI[of _ "fs\<lparr>fs_disk := d\<rparr>"]) auto
qed

section \<open>Remove\<close>

text \<open>Every sector of \<open>hdr_sectors\<close> is recovered from its number.\<close>

lemma hdr_sectors_int: "hdr_ok h \<Longrightarrow> hdr_sectors h = map int (map nat (hdr_sectors h))"
  by (rule nth_equalityI) (auto simp: hdr_ok_def)

lemma distinct_nat_sectors: "hdr_ok h \<Longrightarrow> distinct (map nat (hdr_sectors h))"
  unfolding hdr_ok_def distinct_map inj_on_def by (metis eq_nat_nat_iff)

text \<open>Taking a file out: the free map without its sectors and the directory without its name.\<close>

lemma remove_store:
  assumes fs: "fs_ok fs" and d: "disk_ok d" "sector_content d = sector_content (fs_disk fs)"
    and key: "files fs key = Some s"
    and bm: "bm_ok bm" "numBits bm = NumSectors" "bm_set bm = bm_set (disk_map fs) - own (fs_disk fs) s"
    and D: "dir_ok D" "tableSize D = int NumDirEntries" "dir_map D = (files fs)(key := None)"
  shows "\<exists>d1 d2. BitMap_WriteBack j (freeMapFile fs) bm d = Inr d1 \<and> Directory_WriteBack j (directoryFile fs) D d1 = Inr d2
    \<and> fs_ok (fs\<lparr>fs_disk := d2\<rparr>) \<and> disk_dir (fs\<lparr>fs_disk := d2\<rparr>) = D \<and> disk_map (fs\<lparr>fs_disk := d2\<rparr>) = bm
    \<and> (\<forall>k t. files fs k = Some t \<longrightarrow> (\<forall>u\<in>own (fs_disk fs) t. sector_content d2 u = sector_content (fs_disk fs) u))"
proof -
  have used: "bm_set (disk_map fs) = sys_secs fs \<union> (\<Union>s\<in>ran (files fs). own (fs_disk fs) s)" and sys: "sys_ok fs"
    using fs by (auto simp: fs_ok_def)
  obtain d1 d2 where w: "BitMap_WriteBack j (freeMapFile fs) bm d = Inr d1" "Directory_WriteBack j (directoryFile fs) D d1 = Inr d2"
    "disk_ok d2" "disk_dir (fs\<lparr>fs_disk := d2\<rparr>) = D" "disk_map (fs\<lparr>fs_disk := d2\<rparr>) = bm"
    "\<forall>s. s \<notin> sys_secs fs - {0, 1} \<longrightarrow> sector_content d2 s = sector_content d s"
    using store_map_dir[OF sys d(1) D(1,2) bm(1,2)] by blast
  let ?fs = "fs\<lparr>fs_disk := d2\<rparr>"
  have off: "own (fs_disk fs) t \<inter> sys_secs fs = {}" if "files fs k = Some t" for k t
    using that fs by (auto simp: fs_ok_def file_ok_def)
  have old: "sector_content d2 u = sector_content (fs_disk fs) u" if "files fs k = Some t" "u \<in> own (fs_disk fs) t" for k t u
    using w(6) d(2) off[OF that(1)] that(2) by auto
  have kept: "own d2 t = own (fs_disk fs) t" "file_ok ?fs t" if "files fs k = Some t" for k t
    using file_kept[OF fs that old[OF that]] by blast+
  have disj: "own (fs_disk fs) t \<inter> own (fs_disk fs) t' = {}"
    if "files fs k = Some t" "files fs k' = Some t'" "k \<noteq> k'" for k k' t t'
    using that fs unfolding fs_ok_def by blast
  have fm: "files ?fs = (files fs)(key := None)" using w(4) D(3) by simp
  have "fs_ok ?fs"
    unfolding fs_ok_def
  proof (intro conjI allI impI)
    show "sys_ok ?fs" using sys w(3) by (rule sys_ok_disk)
    show "dir_ok (disk_dir ?fs)" using w(4) D(1) by simp
    show "file_ok ?fs t" if "files ?fs k = Some t" for k t
      using that fm kept(2)[of k t] by (auto split: if_splits)
    show "own (fs_disk ?fs) t \<inter> own (fs_disk ?fs) t' = {}"
      if "files ?fs k = Some t \<and> files ?fs k' = Some t' \<and> k \<noteq> k'" for k k' t t'
      using that fm kept(1)[of k t] kept(1)[of k' t'] disj[of k t k' t'] by (auto split: if_splits)
    have "u \<in> (\<Union>t\<in>ran ((files fs)(key := None)). own d2 t) \<longleftrightarrow> u \<in> (\<Union>t\<in>ran (files fs). own (fs_disk fs) t) - own (fs_disk fs) s" for u
    proof
      assume "u \<in> (\<Union>t\<in>ran ((files fs)(key := None)). own d2 t)"
      then obtain k t where "k \<noteq> key" "files fs k = Some t" "u \<in> own d2 t" by (auto simp: ran_def split: if_splits)
      then show "u \<in> (\<Union>t\<in>ran (files fs). own (fs_disk fs) t) - own (fs_disk fs) s"
        using kept(1)[of k t] disj[OF _ key, of k t] by (auto intro: ranI)
    next
      assume "u \<in> (\<Union>t\<in>ran (files fs). own (fs_disk fs) t) - own (fs_disk fs) s"
      then obtain k t where k: "files fs k = Some t" "u \<in> own (fs_disk fs) t" "u \<notin> own (fs_disk fs) s" by (auto simp: ran_def)
      then have "k \<noteq> key" using key by auto
      then have "t \<in> ran ((files fs)(key := None))" using k(1) by (auto simp: ran_def)
      then show "u \<in> (\<Union>t\<in>ran ((files fs)(key := None)). own d2 t)" using k kept(1)[OF k(1)] by auto
    qed
    then have "(\<Union>t\<in>ran ((files fs)(key := None)). own d2 t) = (\<Union>t\<in>ran (files fs). own (fs_disk fs) t) - own (fs_disk fs) s" by blast
    then show "bm_set (disk_map ?fs) = sys_secs ?fs \<union> (\<Union>t\<in>ran (files ?fs). own (fs_disk ?fs) t)"
      using w(5) bm(3) used off[OF key] by (auto simp: fm sys_secs_def)
  qed
  then show ?thesis using w(1,2,4,5) old by blast
qed

text \<open>
  C19. Removing a file keeps the file system consistent: \<open>Remove\<close> never faults, answers TRUE exactly when the
  name is in the directory, then drops exactly that name and frees exactly the sectors of its header and
  data, and every other file keeps its header and its bytes.
\<close>

theorem remove_consistent:
  assumes "fs_ok fs" and "junk_ok J"
  shows "\<exists>ok fs'. FileSystem_Remove J name fs = Inr (ok, fs') \<and> fs_ok fs'
    \<and> (case files fs (name_key name) of
         None \<Rightarrow> \<not> ok \<and> sector_content (fs_disk fs') = sector_content (fs_disk fs)
       | Some s \<Rightarrow> ok \<and> files fs' = (files fs)(name_key name := None)
           \<and> bm_set (disk_map fs') = bm_set (disk_map fs) - own (fs_disk fs) s
           \<and> (\<forall>k t. k \<noteq> name_key name \<and> files fs k = Some t \<longrightarrow> hdr_at (fs_disk fs') t = hdr_at (fs_disk fs) t
                \<and> file_data (fs_disk fs') (hdr_at (fs_disk fs) t) = file_data (fs_disk fs) (hdr_at (fs_disk fs) t)))"
proof -
  have sys: "sys_ok fs" and dok: "dir_ok (disk_dir fs)" using assms(1) by (auto simp: fs_ok_def)
  obtain d1 where d1: "fetch_directory J fs = Inr (disk_dir fs, fs\<lparr>fs_disk := d1\<rparr>)" "disk_ok d1"
    "sector_content d1 = sector_content (fs_disk fs)" using fetch_directory_ok[OF sys assms(2)] by blast
  show ?thesis
  proof (cases "files fs (name_key name)")
    case None
    then have "FileSystem_Remove J name fs = Inr (False, fs\<lparr>fs_disk := d1\<rparr>)"
      by (simp add: FileSystem_Remove_def d1(1) find_sector[OF assms(1)])
    then show ?thesis using None fs_ok_same_content[OF assms(1) d1(2,3)] d1(3)
      by (intro exI[of _ False] exI[of _ "fs\<lparr>fs_disk := d1\<rparr>"]) simp
  next
    case (Some s)
    let ?h = "hdr_at (fs_disk fs) s"
    have f: "file_ok fs s" using Some assms(1) by (auto simp: fs_ok_def)
    then have s: "0 \<le> s" "s < NumSectors" and h: "hdr_ok ?h" "nat s \<notin> secs ?h" by (auto simp: file_ok_def)
    have own: "own (fs_disk fs) s \<subseteq> bm_set (disk_map fs)" using assms(1) Some by (auto simp: fs_ok_def intro: ranI)
    obtain d2 where d2: "FileHeader_FetchFrom s d1 = Inr (?h, d2)" "disk_ok d2" "sector_content d2 = sector_content (fs_disk fs)"
      using sd.read_ok[OF d1(2) s] d1(3) by (auto simp: FileHeader_FetchFrom_def hdr_at_def)
    obtain d3 where d3: "fetch_freemap J (fs\<lparr>fs_disk := d2\<rparr>) = Inr (disk_map fs, fs\<lparr>fs_disk := d3\<rparr>)" "disk_ok d3"
      "sector_content d3 = sector_content (fs_disk fs)"
      using fetch_freemap_ok[OF sys_ok_disk[OF sys d2(2)], of J] same_content(2)[OF d2(3)] d2(3) by auto
    have len: "length (map nat (hdr_sectors ?h)) = nat (numSectors ?h)"
      using h(1) by (auto simp: hdr_sectors_def hdr_ok_def hdr_typed_def)
    have sub: "set (map nat (hdr_sectors ?h)) \<subseteq> bm_set (disk_map fs)" using own by (auto simp: own_def secs_def)
    obtain bm1 where bm1: "FileHeader_Deallocate (disk_map fs) ?h = Inr bm1" "bm_ok bm1" "bm_size bm1 = bm_size (disk_map fs)"
      "bm_set bm1 = bm_set (disk_map fs) - secs ?h"
      using deallocate_ok[OF bm_ok_disk_map hdr_sectors_int[OF h(1)] len distinct_nat_sectors[OF h(1)] sub] by (auto simp: secs_def)
    have sz: "bm_size (disk_map fs) = 1024" by (simp add: disk_map_def bm_size_def)
    obtain bm2 where bm2: "BitMap_Clear s bm1 = Inr bm2" "bm_ok bm2" "bm_size bm2 = 1024" "bm_set bm2 = bm_set bm1 - {nat s}"
      using BitMap_Clear_spec[OF bm1(2), of "nat s"] s bm1(3) sz by (auto simp: nat_less_iff)
    have nb: "numBits bm2 = NumSectors" using numBits_bm_size[OF bm2(2)] bm2(3) by simp
    have set2: "bm_set bm2 = bm_set (disk_map fs) - own (fs_disk fs) s" using bm2(4) bm1(4) by (auto simp: own_def)
    obtain D' where D': "Directory_Remove name (disk_dir fs) = Inr (True, D')" "dir_ok D'" "tableSize D' = int NumDirEntries"
      "dir_map D' = (files fs)(name_key name := None)"
      using Directory_Remove_eq[OF dok, of name] Some by (auto simp: disk_dir_def)
    obtain d4 d5 where w: "BitMap_WriteBack (j_byte J) (freeMapFile fs) bm2 d3 = Inr d4"
      "Directory_WriteBack (j_byte J) (directoryFile fs) D' d4 = Inr d5" "fs_ok (fs\<lparr>fs_disk := d5\<rparr>)"
      "disk_dir (fs\<lparr>fs_disk := d5\<rparr>) = D'" "disk_map (fs\<lparr>fs_disk := d5\<rparr>) = bm2"
      "\<forall>k t. files fs k = Some t \<longrightarrow> (\<forall>u\<in>own (fs_disk fs) t. sector_content d5 u = sector_content (fs_disk fs) u)"
      using remove_store[OF assms(1) d3(2,3) Some bm2(2) nb set2 D'(2-4), of "j_byte J"] by blast
    have "FileSystem_Remove J name fs = Inr (True, fs\<lparr>fs_disk := d5\<rparr>)"
      using s by (simp add: FileSystem_Remove_def d1(1) find_sector[OF assms(1)] Some d2(1) d3(1) bm1(1) bm2(1) D'(1) w(1,2))
    moreover have "hdr_at d5 t = hdr_at (fs_disk fs) t
        \<and> file_data d5 (hdr_at (fs_disk fs) t) = file_data (fs_disk fs) (hdr_at (fs_disk fs) t)" if "files fs k = Some t" for k t
      using file_kept(2,4)[OF assms(1) that, of d5] w(6) that by blast
    ultimately show ?thesis using w(3-5) D'(4) set2 Some
      by (intro exI[of _ True] exI[of _ "fs\<lparr>fs_disk := d5\<rparr>"]) auto
  qed
qed

section \<open>Formatting\<close>

lemma open_written_header:
  assumes "disk_ok d" "0 \<le> s" "s < NumSectors" "sector_content d (nat s) = hdr_bytes h" "hdr_typed h"
  shows "\<exists>d'. OpenFile_new s ty d = Inr (\<lparr>of_hdr = h, of_type = ty, seekPosition = 0\<rparr>, d') \<and> disk_ok d' \<and> sector_content d' = sector_content d"
  using sd.read_ok[OF assms(1-3)] assms(4,5) hdr_roundtrip
  by (auto simp: OpenFile_new_def FileHeader_FetchFrom_def)

lemma new_directory_empty:
  assumes "junk_ok J"
  shows "dir_ok (Directory_new (j_entry J) n)" "dir_map (Directory_new (j_entry J) n) = Map.empty"
  using assms by (auto simp: dir_ok_def Directory_new_def junk_ok_def entry_typed_def dir_map_def dir_index_None fun_eq_iff)

lemma format_map:
  obtains bm where "bindR (BitMap_new g NumSectors) (\<lambda>b. bindR (BitMap_Mark FreeMapSector b) (BitMap_Mark DirectorySector)) = Inr bm"
    "bm_ok bm" "numBits bm = NumSectors" "bm_set bm = {0, 1}"
proof -
  obtain b0 where b0: "BitMap_new g NumSectors = Inr b0" "bm_ok b0" "numBits b0 = NumSectors" "bm_set b0 = {}"
    using BitMap_new_spec[of NumSectors g] by auto
  then have s0: "bm_size b0 = 1024" by (simp add: bm_size_def)
  obtain b1 where b1: "BitMap_Mark 0 b0 = Inr b1" "bm_ok b1" "bm_size b1 = 1024" "bm_set b1 = {0}"
    using BitMap_Mark_spec[OF b0(2), of 0] s0 b0(4) by auto
  obtain b2 where b2: "BitMap_Mark 1 b1 = Inr b2" "bm_ok b2" "bm_size b2 = 1024" "bm_set b2 = {0, 1}"
    using BitMap_Mark_spec[OF b1(2), of 1] b1(3,4) by auto
  show thesis
    by (rule that[of b2]) (use b0 b1 b2 numBits_bm_size[OF b2(2)] in \<open>simp_all add: FreeMapSector_def DirectorySector_def\<close>)
qed

lemma allocate_small:
  assumes "bm_ok bm" "numBits bm = NumSectors" "hdr_typed h" "0 < sz" "sz \<le> 512" "card (bm_set bm) < 1024"
  obtains h' bm' where "FileHeader_Allocate bm sz h = Inr (True, h', bm')" "hdr_ok h'" "numBytes h' = sz" "bm_ok bm'"
    "numBits bm' = NumSectors" "secs h' \<inter> bm_set bm = {}" "bm_set bm' = bm_set bm \<union> secs h'" "card (secs h') = 1"
proof -
  have n: "divRoundUp sz (int SectorSize) = 1"
    using assms(4,5) by (cases "sz = 512") (simp_all add: divRoundUp_nonneg SectorSize_def)
  have "bm_size bm = 1024" using numBits_bm_size[OF assms(1)] assms(2) by simp
  then have "\<not> int (bm_size bm - card (bm_set bm)) < divRoundUp sz (int SectorSize)" using n assms(6) by simp
  then obtain h' bm' where h': "FileHeader_Allocate bm sz h = Inr (True, h', bm')" "hdr_ok h'" "numBytes h' = sz" "bm_ok bm'"
    "numBits bm' = NumSectors" "secs h' \<inter> bm_set bm = {}" "bm_set bm' = bm_set bm \<union> secs h'"
    using allocate_spec[OF assms(1,2) _ _ assms(3), of sz] assms(4,5) unfolding secs_def
    by (auto simp: MaxFileSize_def NumDirect_126 SectorSize_def)
  have "length (hdr_sectors h') = 1" using h'(2,3) n by (simp add: hdr_ok_def hdr_sectors_def hdr_typed_def NumDirect_126)
  then have "card (secs h') = 1" by (auto simp: secs_def length_Suc_conv)
  with h' show thesis by (rule that)
qed

lemma format_ok:
  assumes "disk_ok d" and "junk_ok J"
  shows "\<exists>mapFile dirFile d'. FileSystem_format J d = Inr (mapFile, dirFile, d')
    \<and> fs_ok (initial_fs mapFile dirFile d') \<and> files (initial_fs mapFile dirFile d') = Map.empty
    \<and> card (bm_set (disk_map (initial_fs mapFile dirFile d'))) = 4"
proof -
  have hj: "hdr_typed (j_hdr J)" using assms(2) by (simp add: junk_ok_def)
  obtain b0 where b0: "bindR (BitMap_new (j_word J) NumSectors) (\<lambda>b. bindR (BitMap_Mark FreeMapSector b) (BitMap_Mark DirectorySector)) = Inr b0"
    "bm_ok b0" "numBits b0 = NumSectors" "bm_set b0 = {0, 1}" by (rule format_map)
  obtain h1 b1 where h1: "FileHeader_Allocate b0 FreeMapFileSize (j_hdr J) = Inr (True, h1, b1)" "hdr_ok h1"
    "numBytes h1 = FreeMapFileSize" "bm_ok b1" "numBits b1 = NumSectors" "secs h1 \<inter> {0, 1} = {}" "bm_set b1 = {0, 1} \<union> secs h1" "card (secs h1) = 1"
    by (rule allocate_small[OF b0(2,3) hj, of FreeMapFileSize]) (simp_all add: fs_sizes b0(4))
  have fin: "finite (secs h)" for h by (simp add: secs_def)
  have c1: "card (bm_set b1) = 3" using h1(6-8) fin[of h1] by (subst h1(7), subst card_Un_disjoint) auto
  obtain h2 b2 where h2: "FileHeader_Allocate b1 DirectoryFileSize (j_hdr J) = Inr (True, h2, b2)" "hdr_ok h2"
    "numBytes h2 = DirectoryFileSize" "bm_ok b2" "numBits b2 = NumSectors" "secs h2 \<inter> bm_set b1 = {}" "bm_set b2 = bm_set b1 \<union> secs h2" "card (secs h2) = 1"
    by (rule allocate_small[OF h1(4,5) hj, of DirectoryFileSize]) (simp_all add: fs_sizes c1)
  have c2: "card (bm_set b2) = 4" using h2(6-8) c1 fin[of h2] by (subst h2(7), subst card_Un_disjoint) auto
  have t: "hdr_typed h1" "hdr_typed h2" using h1(2) h2(2) by (simp_all add: hdr_ok_def)
  obtain d1 where d1: "FileHeader_WriteBack 0 h1 d = Inr d1" "disk_ok d1" "sector_content d1 = (sector_content d)(0 := hdr_bytes h1)"
    using sd.write_ok[OF assms(1), of 0 "hdr_bytes h1"] length_hdr_bytes[OF t(1)] by (auto simp: FileHeader_WriteBack_def)
  obtain d2 where d2: "FileHeader_WriteBack 1 h2 d1 = Inr d2" "disk_ok d2" "sector_content d2 = (sector_content d1)(1 := hdr_bytes h2)"
    using sd.write_ok[OF d1(2), of 1 "hdr_bytes h2"] length_hdr_bytes[OF t(2)] by (auto simp: FileHeader_WriteBack_def)
  let ?mf = "\<lparr>of_hdr = h1, of_type = j_type J, seekPosition = 0\<rparr>" and ?df = "\<lparr>of_hdr = h2, of_type = j_type J, seekPosition = 0\<rparr>"
  obtain d3 where d3: "OpenFile_new 0 (j_type J) d2 = Inr (?mf, d3)" "disk_ok d3" "sector_content d3 = sector_content d2"
    using open_written_header[OF d2(2), of 0 h1] d1(3) d2(3) t by auto
  obtain d4 where d4: "OpenFile_new 1 (j_type J) d3 = Inr (?df, d4)" "disk_ok d4" "sector_content d4 = sector_content d2"
    using open_written_header[OF d3(2), of 1 h2] d2(3) d3(3) t by auto
  let ?fs = "initial_fs ?mf ?df d4" and ?D = "Directory_new (j_entry J) NumDirEntries"
  have sys: "sys_ok ?fs"
    using d4(2) h1(2,3,6,7) h2(2,3,6) by (auto simp: sys_ok_def initial_fs_def)
  obtain d5 d6 where w: "BitMap_WriteBack (j_byte J) ?mf b2 d4 = Inr d5" "Directory_WriteBack (j_byte J) ?df ?D d5 = Inr d6"
    "disk_ok d6" "disk_dir (?fs\<lparr>fs_disk := d6\<rparr>) = ?D" "disk_map (?fs\<lparr>fs_disk := d6\<rparr>) = b2"
    using store_map_dir[OF sys d4(2) new_directory_empty(1)[OF assms(2), of NumDirEntries] _ h2(4,5), of "j_byte J"]
    by (auto simp: initial_fs_def Directory_new_def)
  have fs6: "?fs\<lparr>fs_disk := d6\<rparr> = initial_fs ?mf ?df d6" by (simp add: initial_fs_def)
  have empty: "files (initial_fs ?mf ?df d6) = Map.empty" using w(4) new_directory_empty(2)[OF assms(2)] by (simp add: fs6)
  have "fs_ok (initial_fs ?mf ?df d6)"
    unfolding fs_ok_def empty
    using sys_ok_disk[OF sys w(3)] w(4,5) new_directory_empty(1)[OF assms(2)] h1(7) h2(7) unfolding fs6
    by (auto simp: sys_secs_def initial_fs_def)
  moreover have "FileSystem_format J d = Inr (?mf, ?df, d6)"
    using b0(1) h1(1) h2(1) d1(1) d2(1) d3(1) d4(1) w(1,2)
    by (auto simp: FileSystem_format_def FreeMapSector_def DirectorySector_def bindR_eq_Inr Let_def)
  ultimately show ?thesis using empty w(5) c2 fs6 by auto
qed

text \<open>The constructor then opens the two standard files, which are not there, and creates them with no bytes.\<close>

lemma dir_full_card:
  assumes "dir_ok D" and "dir_full D"
  shows "length (table D) \<le> card (dom (dir_map D))"
proof -
  let ?k = "\<lambda>i. name_key (de_name (table D ! i))"
  have use: "inUse (table D ! i)" if "i < length (table D)" for i using assms(2) that by (simp add: dir_full_def)
  then have inj: "inj_on ?k {..<length (table D)}" using assms(1) by (auto simp: inj_on_def dir_ok_def)
  have "dir_map D (?k i) \<noteq> None" if "i < length (table D)" for i
    using dir_index_unique[OF assms(1) that use[OF that]] by (simp add: dir_map_def)
  then have sub: "?k ` {..<length (table D)} \<subseteq> dom (dir_map D)" by auto
  have "dom (dir_map D) \<subseteq> ?k ` {..<length (table D)}" by (fastforce simp: dir_map_def dest: dir_index_Some)
  then have "finite (dom (dir_map D))" by (rule finite_subset) simp
  then show ?thesis using card_mono[OF _ sub] card_image[OF inj] by simp
qed

lemma Create_frame:
  assumes "FileSystem_Create J name sz fs = Inr (ok, fs')"
  shows "freeMapFile fs' = freeMapFile fs \<and> directoryFile fs' = directoryFile fs \<and> openf fs' = openf fs \<and> fs_index fs' = fs_index fs"
  using assms by (auto simp: FileSystem_Create_def fetch_directory_def fetch_freemap_def bindR_eq_Inr split: if_splits prod.splits)

lemma create_empty_file:
  assumes "fs_ok fs" and "junk_ok J" and new: "files fs (name_key name) = None" and "card (dom (files fs)) < 10" and "card (bm_set (disk_map fs)) < 1024"
  shows "\<exists>s fs'. FileSystem_Create J name 0 fs = Inr (True, fs') \<and> fs_ok fs' \<and> files fs' = (files fs)(name_key name \<mapsto> s)
    \<and> numBytes (hdr_at (fs_disk fs') s) = 0 \<and> (\<forall>t\<in>ran (files fs). hdr_at (fs_disk fs') t = hdr_at (fs_disk fs) t)
    \<and> card (bm_set (disk_map fs')) = Suc (card (bm_set (disk_map fs))) \<and> openf fs' = openf fs \<and> fs_index fs' = fs_index fs"
proof -
  have "\<not> dir_full (disk_dir fs)" using dir_full_card[of "disk_dir fs"] assms(1,4) by (auto simp: fs_ok_def disk_dir_def fs_sizes)
  then have "create_room fs name 0" using new assms(5) by (simp add: divRoundUp_nonneg SectorSize_def)
  then obtain s fs' where c: "FileSystem_Create J name 0 fs = Inr (True, fs')" "fs_ok fs'" "files fs' = (files fs)(name_key name \<mapsto> s)"
    "nat s \<notin> bm_set (disk_map fs)" "numBytes (hdr_at (fs_disk fs') s) = 0"
    and kept: "\<And>k t. files fs k = Some t \<Longrightarrow> hdr_at (fs_disk fs') t = hdr_at (fs_disk fs) t"
    using create_succeeds[OF assms(1,2), of 0 name] by auto
  note fr = Create_frame[OF c(1)]
  have "files fs' (name_key name) = Some s" using c(3) by simp
  then have "file_ok fs' s" using c(2) unfolding fs_ok_def by blast
  then have "hdr_sectors (hdr_at (fs_disk fs') s) = []" using c(5) by (simp add: file_ok_def hdr_ok_def hdr_sectors_def divRoundUp_nonneg SectorSize_def)
  then have own: "own (fs_disk fs') s = {nat s}" by (simp add: own_def secs_def)
  have kept': "hdr_at (fs_disk fs') t = hdr_at (fs_disk fs) t" if "t \<in> ran (files fs)" for t using that kept by (auto simp: ran_def)
  have "ran (files fs') = insert s (ran (files fs))" using new c(3) by simp
  moreover have "own (fs_disk fs') t = own (fs_disk fs) t" if "t \<in> ran (files fs)" for t using kept'[OF that] by (simp add: own_def)
  moreover have "sys_secs fs' = sys_secs fs" using fr by (simp add: sys_secs_def)
  ultimately have "bm_set (disk_map fs') = insert (nat s) (bm_set (disk_map fs))"
    using assms(1) c(2) own by (simp add: fs_ok_def)
  moreover have "finite (bm_set (disk_map fs))" by (simp add: bm_set_def)
  ultimately show ?thesis using c fr kept' by (intro exI[of _ s] exI[of _ fs']) simp
qed

lemma open_missing:
  assumes "fs_ok fs" and "junk_ok J" and "files fs (name_key name) = None" and "openf fs = replicate MaxOpen None"
  shows "\<exists>d'. FileSystem_Open J name ty fs = Inr (None, fs\<lparr>fs_disk := d'\<rparr>) \<and> disk_ok d' \<and> sector_content d' = sector_content (fs_disk fs)"
proof -
  obtain d' where d': "fetch_directory J fs = Inr (disk_dir fs, fs\<lparr>fs_disk := d'\<rparr>)" "disk_ok d'" "sector_content d' = sector_content (fs_disk fs)"
    using fetch_directory_ok[OF _ assms(2), of fs] assms(1) by (auto simp: fs_ok_def)
  have "FileSystem_FindFreeSlot fs = Inr 2" using assms(4) by (simp add: FileSystem_FindFreeSlot_def MaxOpen_def upt_rec)
  then show ?thesis using d' assms(3,4)
    by (intro exI[of _ d']) (simp add: FileSystem_Open_def find_sector[OF assms(1)] get_openf_def MaxOpen_def)
qed

text \<open>The tail of the constructor, on any consistent file system without files and with no file open.\<close>

lemma standard_files:
  assumes "fs_ok fs" and "junk_ok J" and "files fs = Map.empty" and "openf fs = replicate MaxOpen None" and "card (bm_set (disk_map fs)) = 4"
  shows "\<exists>fs' s1 s2. bindR (FileSystem_Open J str_stdin 2 fs) (\<lambda>(p, fs).
    bindR (put_openf 0 p fs) (\<lambda>fs.
    bindR (FileSystem_Open J str_stdout 3 fs) (\<lambda>(p, fs).
    bindR (put_openf 1 p (fs\<lparr>fs_index := 1\<rparr>)) (\<lambda>fs.
    bindR (FileSystem_Create J str_stdin 0 (fs\<lparr>fs_index := 2\<rparr>)) (\<lambda>(ok, fs).
    bindR (FileSystem_Create J str_stdout 0 fs) (\<lambda>(ok, fs). Inr fs)))))) = Inr fs'
    \<and> fs_ok fs' \<and> files fs' = [str_stdin \<mapsto> s1, str_stdout \<mapsto> s2]
    \<and> numBytes (hdr_at (fs_disk fs') s1) = 0 \<and> numBytes (hdr_at (fs_disk fs') s2) = 0
    \<and> card (bm_set (disk_map fs')) = 6 \<and> openf fs' = replicate MaxOpen None \<and> fs_index fs' = 2"
proof -
  have keys: "name_key str_stdin = str_stdin" "name_key str_stdout = str_stdout" "str_stdin \<noteq> str_stdout"
    by (simp_all add: name_key_def str_stdin_def str_stdout_def FileNameMaxLen_def)
  have none: "(replicate MaxOpen (None :: nat option))[i := None] = replicate MaxOpen None" for i
    by (cases "i < MaxOpen") (simp_all add: list_eq_iff_nth_eq nth_list_update)
  have put: "put_openf 0 None g = Inr g" "put_openf 1 None g = Inr g" if "openf g = replicate MaxOpen None" for g
    using that none by (simp_all add: put_openf_def MaxOpen_def)
  obtain d1 where d1: "FileSystem_Open J str_stdin 2 fs = Inr (None, fs\<lparr>fs_disk := d1\<rparr>)" "disk_ok d1" "sector_content d1 = sector_content (fs_disk fs)"
    using open_missing[OF assms(1,2) _ assms(4)] assms(3) by auto
  let ?f1 = "fs\<lparr>fs_disk := d1\<rparr>"
  have f1: "fs_ok ?f1" "files ?f1 = Map.empty" "openf ?f1 = replicate MaxOpen None"
    using fs_ok_same_content[OF assms(1) d1(2,3)] same_content(1)[OF d1(3)] assms(3,4) by simp_all
  obtain d2 where d2: "FileSystem_Open J str_stdout 3 ?f1 = Inr (None, ?f1\<lparr>fs_disk := d2\<rparr>)" "disk_ok d2" "sector_content d2 = sector_content (fs_disk fs)"
    using open_missing[OF f1(1) assms(2) _ f1(3)] f1(2) d1(3) by auto
  let ?f2 = "fs\<lparr>fs_disk := d2\<rparr>" and ?f3 = "fs\<lparr>fs_disk := d2, fs_index := 2\<rparr>"
  have idx: "fs_ok (g\<lparr>fs_index := i\<rparr>) = fs_ok g" "disk_dir (g\<lparr>fs_index := i\<rparr>) = disk_dir g" "disk_map (g\<lparr>fs_index := i\<rparr>) = disk_map g" for g i
    by (simp_all add: fs_ok_def sys_ok_def disk_dir_def disk_map_def file_ok_def[abs_def] sys_secs_def)
  have f3: "fs_ok ?f3" "files ?f3 = Map.empty" "card (bm_set (disk_map ?f3)) = 4"
    using fs_ok_same_content[OF assms(1) d2(2,3)] same_content(1,2)[OF d2(3)] assms(3,5) idx[of 2 ?f2] by simp_all
  obtain s1 f4 where f4: "FileSystem_Create J str_stdin 0 ?f3 = Inr (True, f4)" "fs_ok f4" "files f4 = [str_stdin \<mapsto> s1]"
    "numBytes (hdr_at (fs_disk f4) s1) = 0" "card (bm_set (disk_map f4)) = 5" "openf f4 = replicate MaxOpen None" "fs_index f4 = 2"
    using create_empty_file[OF f3(1) assms(2), of str_stdin] f3(2,3) keys(1) assms(4) by auto
  obtain s2 f5 where f5: "FileSystem_Create J str_stdout 0 f4 = Inr (True, f5)" "fs_ok f5" "files f5 = [str_stdin \<mapsto> s1, str_stdout \<mapsto> s2]"
    "numBytes (hdr_at (fs_disk f5) s2) = 0" "hdr_at (fs_disk f5) s1 = hdr_at (fs_disk f4) s1" "card (bm_set (disk_map f5)) = 6"
    "openf f5 = replicate MaxOpen None" "fs_index f5 = 2"
    using create_empty_file[OF f4(2) assms(2), of str_stdout] f4 keys(2,3) by auto
  show ?thesis using d1(1) d2(1) put f1(3) assms(4) f4(1,4) f5 by (intro exI[of _ f5] exI[of _ s1] exI[of _ s2]) simp
qed


definition demo_junk :: Junk where
  "demo_junk = \<lparr>j_word = (\<lambda>_. 0), j_entry = (\<lambda>_. \<lparr>inUse = True, de_sector = 3, de_name = replicate 10 0\<rparr>), j_byte = (\<lambda>_. 7),
     j_hdr = demo_hdr, j_type = 0\<rparr>"

lemma demo_junk_ok: "junk_ok demo_junk"
  using demo_hdr_typed by (simp add: junk_ok_def demo_junk_def entry_typed_def int_ok_def FileNameMaxLen_def)


text \<open>A consistent file system to evaluate on: the formatted disk.\<close>

definition demo_fs :: FileSystem where
  "demo_fs = (case FileSystem_format demo_junk demo_disk of Inr (mf, df, d) \<Rightarrow> initial_fs mf df d)"

lemma demo_fs_ok: "fs_ok demo_fs" "files demo_fs = Map.empty" "card (bm_set (disk_map demo_fs)) = 4"
proof -
  have ok: "disk_ok demo_disk" "junk_ok demo_junk" by (rule demo_file_ok(2) demo_junk_ok)+
  from format_ok[OF ok] show "fs_ok demo_fs" "files demo_fs = Map.empty" "card (bm_set (disk_map demo_fs)) = 4"
    by (auto simp: demo_fs_def)
qed

text \<open>The two operations on it.\<close>

theorem create_consistent_witness:
  "fs_ok demo_fs \<and> junk_ok demo_junk \<and> (\<exists>ok fs'. FileSystem_Create demo_junk [97] 700 demo_fs = Inr (ok, fs') \<and> fs_ok fs')"
  using create_consistent[OF demo_fs_ok(1) demo_junk_ok, of 700 "[97]"] demo_fs_ok(1) demo_junk_ok
  by (force simp: MaxFileSize_def NumDirect_126 SectorSize_def)

theorem remove_consistent_witness:
  "fs_ok demo_fs \<and> junk_ok demo_junk \<and> (\<exists>fs'. FileSystem_Remove demo_junk [97] demo_fs = Inr (False, fs'))"
  using remove_consistent[OF demo_fs_ok(1) demo_junk_ok, of "[97]"] demo_fs_ok demo_junk_ok by auto

end
