(* ===== verification/Nachos_Interrupt.thy ===== *)
theory Nachos_Interrupt
  imports Nachos_List Nachos_Machine
begin

text \<open>
  machine/interrupt.h, interrupt.cc and stats.h: simulated time and hardware interrupts.

  \<open>Interrupt\<close> is the object's state with the globals it works on, \<open>stats\<close> and \<open>machine\<close>. The pending
  list is kept by its contents: \<open>SortedInsert\<close> and \<open>SortedRemove\<close> are \<open>sorted_ins\<close> and taking the head,
  which is what Nachos_List proves of list.cc. The rest of the kernel extends the record, so handlers
  and \<open>currentThread->Yield()\<close> are state transformers on the extended record and arguments here
  (\<open>call\<close>, \<open>yield\<close>). A loop \<open>while (CheckIfDue(FALSE))\<close> runs as long as handlers keep firing:
  \<open>fire_due\<close> is a partial function whose value \<open>None\<close> is an endless loop. The tick counters and the times of
  pending interrupts are 32-bit integers and wrap around.

  The locale \<open>interrupt_handlers\<close> is what the loop relies on from the device handlers.
\<close>

section \<open>Statistics\<close>

record Statistics =
  totalTicks :: int
  idleTicks :: int
  systemTicks :: int
  userTicks :: int
  numConsoleCharsRead :: int
  numConsoleCharsWritten :: int
  numPageFaults :: int
  numPacketsSent :: int
  numPacketsRecvd :: int

definition Statistics_new :: Statistics where
  "Statistics_new = \<lparr>totalTicks = 0, idleTicks = 0, systemTicks = 0, userTicks = 0,
     numConsoleCharsRead = 0, numConsoleCharsWritten = 0, numPageFaults = 0,
     numPacketsSent = 0, numPacketsRecvd = 0\<rparr>"

definition UserTick :: int where "UserTick = 1"
definition SystemTick :: int where "SystemTick = 10"
definition ConsoleTime :: int where "ConsoleTime = 100"
definition NetworkTime :: int where "NetworkTime = 100"
definition TimerTicks :: int where "TimerTicks = 100"

section \<open>The interrupt object\<close>

datatype IntStatus = IntOff | IntOn

datatype IntType = TimerInt | DiskInt | ConsoleWriteInt | ConsoleReadInt | NetworkSendInt | NetworkRecvInt

text \<open>The functions the device simulators schedule: each is a static function of its device's file.\<close>

datatype HandlerFn = TimerHandler | DiskDone | ConsoleReadPoll | ConsoleWriteDone | NetworkReadPoll | NetworkSendDone

record PendingInterrupt =
  handler :: HandlerFn
  arg :: int
  iwhen :: int
  itype :: IntType

definition PendingInterrupt_new :: "HandlerFn \<Rightarrow> int \<Rightarrow> int \<Rightarrow> IntType \<Rightarrow> PendingInterrupt" where
  "PendingInterrupt_new func param time kind = \<lparr>handler = func, arg = param, iwhen = time, itype = kind\<rparr>"

record Interrupt =
  level :: IntStatus
  pending :: "PendingInterrupt alist"
  inHandler :: bool
  yieldOnReturn :: bool
  istatus :: MachineStatus
  stats :: Statistics
  machine :: "Machine option"

definition Interrupt_new :: "Statistics \<Rightarrow> Interrupt" where
  "Interrupt_new st = \<lparr>level = IntOff, pending = [], inHandler = False, yieldOnReturn = False,
     istatus = SystemMode, stats = st, machine = None\<rparr>"

abbreviation now :: "'k Interrupt_scheme \<Rightarrow> int" where
  "now s \<equiv> totalTicks (stats s)"

definition ChangeLevel :: "IntStatus \<Rightarrow> IntStatus \<Rightarrow> 'k Interrupt_scheme \<Rightarrow> 'k Interrupt_scheme" where
  "ChangeLevel old lev s = s\<lparr>level := lev\<rparr>"

definition YieldOnReturn :: "'k Interrupt_scheme \<Rightarrow> 'k Interrupt_scheme res" where
  "YieldOnReturn s = bindR (ASSERT (inHandler s)) (\<lambda>_. Inr (s\<lparr>yieldOnReturn := True\<rparr>))"

definition Schedule :: "HandlerFn \<Rightarrow> int \<Rightarrow> int \<Rightarrow> IntType \<Rightarrow> 'k Interrupt_scheme \<Rightarrow> 'k Interrupt_scheme res" where
  "Schedule h a fromNow ty s =
    (let w = i32 (now s + fromNow); toOccur = PendingInterrupt_new h a w ty
     in bindR (ASSERT (fromNow > 0)) (\<lambda>_. Inr (s\<lparr>pending := sorted_ins w toOccur (pending s)\<rparr>)))"

text \<open>\<open>machine->DelayedLoad(0, 0)\<close>, if there is a machine.\<close>

definition settle_load :: "'k Interrupt_scheme \<Rightarrow> 'k Interrupt_scheme res" where
  "settle_load s = (case machine s of None \<Rightarrow> Inr s
     | Some m \<Rightarrow> bindR (DelayedLoad 0 0 m) (\<lambda>m'. Inr (s\<lparr>machine := Some m'\<rparr>)))"

type_synonym 'k handlers = "HandlerFn \<Rightarrow> int \<Rightarrow> 'k Interrupt_scheme \<Rightarrow> 'k Interrupt_scheme res"

definition CheckIfDue :: "'k handlers \<Rightarrow> bool \<Rightarrow> 'k Interrupt_scheme \<Rightarrow> (bool \<times> 'k Interrupt_scheme) res" where
  "CheckIfDue call advanceClock s =
    (let old = istatus s in
     bindR (ASSERT (level s = IntOff)) (\<lambda>_.
     case pending s of
       [] \<Rightarrow> Inr (False, s)
     | (w, toOccur) # rest \<Rightarrow>
        (let s1 = s\<lparr>pending := rest\<rparr> in
         if w > now s \<and> \<not> advanceClock
         then Inr (False, s1\<lparr>pending := sorted_ins w toOccur (pending s1)\<rparr>)
         else (let s2 = (if w > now s
                 then s1\<lparr>stats := (stats s1)\<lparr>idleTicks := i32 (idleTicks (stats s1) + (w - now s1)), totalTicks := w\<rparr>\<rparr>
                 else s1) in
           if istatus s2 = IdleMode \<and> itype toOccur = TimerInt \<and> pending s2 = []
           then Inr (False, s2\<lparr>pending := sorted_ins w toOccur (pending s2)\<rparr>)
           else bindR (settle_load s2) (\<lambda>s3.
             bindR (call (handler toOccur) (arg toOccur) (s3\<lparr>inHandler := True, istatus := SystemMode\<rparr>)) (\<lambda>s4.
             Inr (True, s4\<lparr>istatus := old, inHandler := False\<rparr>)))))))"

partial_function (option) fire_due :: "'k handlers \<Rightarrow> 'k Interrupt_scheme \<Rightarrow> 'k Interrupt_scheme res option" where
  [code]: "fire_due call s = (case CheckIfDue call False s of
     Inl e \<Rightarrow> Some (Inl e)
   | Inr r \<Rightarrow> if fst r then fire_due call (snd r) else Some (Inr (snd r)))"

text \<open>The clock part of \<open>OneTick\<close>.\<close>

definition tick :: "'k Interrupt_scheme \<Rightarrow> 'k Interrupt_scheme" where
  "tick s = (if istatus s = SystemMode
     then s\<lparr>stats := (stats s)\<lparr>totalTicks := i32 (now s + SystemTick), systemTicks := i32 (systemTicks (stats s) + SystemTick)\<rparr>\<rparr>
     else s\<lparr>stats := (stats s)\<lparr>totalTicks := i32 (now s + UserTick), userTicks := i32 (userTicks (stats s) + UserTick)\<rparr>\<rparr>)"

text \<open>The end of \<open>OneTick\<close>: the context switch a handler asked for.\<close>

definition tick_yield ::
  "('k Interrupt_scheme \<Rightarrow> 'k Interrupt_scheme res) \<Rightarrow> MachineStatus \<Rightarrow> 'k Interrupt_scheme \<Rightarrow> 'k Interrupt_scheme res" where
  "tick_yield yield old s = (if yieldOnReturn s
     then bindR (yield (s\<lparr>yieldOnReturn := False, istatus := SystemMode\<rparr>)) (\<lambda>s'. Inr (s'\<lparr>istatus := old\<rparr>))
     else Inr s)"

definition OneTick ::
  "'k handlers \<Rightarrow> ('k Interrupt_scheme \<Rightarrow> 'k Interrupt_scheme res) \<Rightarrow> 'k Interrupt_scheme \<Rightarrow> 'k Interrupt_scheme res option" where
  "OneTick call yield s =
    (let old = istatus s in
     case fire_due call (ChangeLevel IntOn IntOff (tick s)) of
       None \<Rightarrow> None
     | Some r \<Rightarrow> Some (bindR r (\<lambda>s2. tick_yield yield old (ChangeLevel IntOff IntOn s2))))"

definition SetLevel ::
  "'k handlers \<Rightarrow> ('k Interrupt_scheme \<Rightarrow> 'k Interrupt_scheme res) \<Rightarrow> IntStatus \<Rightarrow> 'k Interrupt_scheme
    \<Rightarrow> (IntStatus \<times> 'k Interrupt_scheme) res option" where
  "SetLevel call yield lev s =
    (let old = level s in
     if lev = IntOff \<or> \<not> inHandler s
     then (let s1 = ChangeLevel old lev s in
           if lev = IntOn \<and> old = IntOff
           then (case OneTick call yield s1 of None \<Rightarrow> None | Some r \<Rightarrow> Some (bindR r (\<lambda>s2. Inr (old, s2))))
           else Some (Inr (old, s1)))
     else Some (Inl AssertFailed))"

definition Enable ::
  "'k handlers \<Rightarrow> ('k Interrupt_scheme \<Rightarrow> 'k Interrupt_scheme res) \<Rightarrow> 'k Interrupt_scheme \<Rightarrow> 'k Interrupt_scheme res option" where
  "Enable call yield s = (case SetLevel call yield IntOn s of None \<Rightarrow> None | Some r \<Rightarrow> Some (bindR r (\<lambda>(_, s'). Inr s')))"

text \<open>\<open>Idle\<close> returns, or it calls \<open>Halt\<close>, which prints the statistics and never returns.\<close>

datatype 's idle = Returned 's | Halted 's

definition Idle :: "'k handlers \<Rightarrow> 'k Interrupt_scheme \<Rightarrow> 'k Interrupt_scheme idle res option" where
  "Idle call s = (case CheckIfDue call True (s\<lparr>istatus := IdleMode\<rparr>) of
     Inl e \<Rightarrow> Some (Inl e)
   | Inr r \<Rightarrow> (if fst r
       then (case fire_due call (snd r) of None \<Rightarrow> None
             | Some q \<Rightarrow> Some (bindR q (\<lambda>s2. Inr (Returned (s2\<lparr>yieldOnReturn := False, istatus := SystemMode\<rparr>)))))
       else Some (Inr (Halted (snd r)))))"

section \<open>The pending list\<close>

text \<open>The pending interrupts are in the order of their times, and each is filed under its own time.\<close>

definition int_ok :: "'k Interrupt_scheme \<Rightarrow> bool" where
  "int_ok s \<longleftrightarrow> sorted (map fst (pending s)) \<and> (\<forall>wp\<in>set (pending s). iwhen (snd wp) = fst wp)"

definition due :: "'k Interrupt_scheme \<Rightarrow> PendingInterrupt alist" where
  "due s = filter (\<lambda>wp. fst wp \<le> now s) (pending s)"

lemma int_ok_frame [simp]:
  "int_ok (s\<lparr>level := l\<rparr>) = int_ok s" "int_ok (s\<lparr>inHandler := b\<rparr>) = int_ok s"
  "int_ok (s\<lparr>yieldOnReturn := b\<rparr>) = int_ok s" "int_ok (s\<lparr>istatus := t\<rparr>) = int_ok s"
  "int_ok (s\<lparr>stats := st\<rparr>) = int_ok s" "int_ok (s\<lparr>machine := mm\<rparr>) = int_ok s"
  by (simp_all add: int_ok_def)

lemma due_frame [simp]:
  "due (s\<lparr>level := l\<rparr>) = due s" "due (s\<lparr>inHandler := b\<rparr>) = due s"
  "due (s\<lparr>yieldOnReturn := b\<rparr>) = due s" "due (s\<lparr>istatus := t\<rparr>) = due s" "due (s\<lparr>machine := mm\<rparr>) = due s"
  by (simp_all add: due_def)

lemma sorted_ins_head: "\<forall>y\<in>set ys. k \<le> fst y \<Longrightarrow> sorted_ins k x ys = (k, x) # ys \<or> (\<exists>y zs. ys = y # zs \<and> fst y = k)"
  by (cases ys) auto

text \<open>\<open>Schedule\<close> adds one interrupt, and none that is already due unless its time wraps around.\<close>

lemma filter_sorted_ins_out: "\<not> P (k, x) \<Longrightarrow> filter P (sorted_ins k x ys) = filter P ys"
  by (induction k x ys rule: sorted_ins.induct) auto

lemma Schedule_spec:
  assumes "0 < fromNow"
  shows "\<exists>s'. Schedule h a fromNow ty s = Inr s' \<and> s' = s\<lparr>pending := pending s'\<rparr>
    \<and> mset (pending s') = add_mset (i32 (now s + fromNow), PendingInterrupt_new h a (i32 (now s + fromNow)) ty) (mset (pending s))
    \<and> (is_int (now s + fromNow) \<longrightarrow> due s' = due s) \<and> (int_ok s \<longrightarrow> int_ok s')"
  using assms
  by (auto simp: Schedule_def Let_def due_def filter_sorted_ins_out int_ok_def sorted_sorted_ins PendingInterrupt_new_def i32_int)

text \<open>A time from which the longest delay of a handler, that of a random timer, does not reach the wrap-around.\<close>

definition clock_at :: "int \<Rightarrow> bool" where
  "clock_at t \<longleftrightarrow> is_int t \<and> is_int (t + 2 * TimerTicks)"

abbreviation clock_ok :: "'k Interrupt_scheme \<Rightarrow> bool" where
  "clock_ok s \<equiv> clock_at (now s)"

lemma clock_at_max: "clock_at t \<Longrightarrow> clock_at u \<Longrightarrow> clock_at (max t u)"
  by (simp add: max_def)

lemma clock_at_delay: "clock_at t \<Longrightarrow> 0 < d \<Longrightarrow> d \<le> 2 * TimerTicks \<Longrightarrow> is_int (t + d)"
  by (simp add: clock_at_def is_int_def)

lemma settle_load_frame:
  "settle_load s = Inr s' \<Longrightarrow> \<exists>mm. s' = s\<lparr>machine := mm\<rparr>"
  by (cases "machine s") (auto simp: settle_load_def bindR_eq_Inr intro: exI[of _ "machine s"])

section \<open>What one check does\<close>

text \<open>When nothing fires, the pending list is as before; the clock moves only on request, to the time of
  the only pending interrupt, a timer's, on an idle machine.\<close>

lemma sorted_ins_back:
  assumes "sorted (map fst ((w, p) # rest))" and "\<forall>y\<in>set rest. w < fst y"
  shows "sorted_ins w p rest = (w, p) # rest"
  using assms by (cases rest) auto

lemma CheckIfDue_cases:
  assumes "CheckIfDue call adv s = Inr (b, s')"
  obtains
    (empty) "\<not> b" "pending s = []" "s' = s"
  | (early) w p rest where "\<not> b" "pending s = (w, p) # rest" "now s < w" "\<not> adv"
      "s' = s\<lparr>pending := sorted_ins w p rest\<rparr>"
  | (timer) w p where "\<not> b" "pending s = [(w, p)]" "istatus s = IdleMode" "itype p = TimerInt"
      "adv \<or> w \<le> now s" "pending s' = [(w, p)]" "now s' = max (now s) w"
      "\<exists>st. s' = s\<lparr>stats := st\<rparr>"
  | (fires) w p rest s2 s3 s4 where "b" "pending s = (w, p) # rest" "adv \<or> w \<le> now s"
      "\<not> (istatus s = IdleMode \<and> itype p = TimerInt \<and> rest = [])"
      "\<exists>st. s2 = s\<lparr>pending := rest, stats := st\<rparr>" "now s2 = max (now s) w"
      "w \<le> now s \<Longrightarrow> stats s2 = stats s"
      "settle_load s2 = Inr s3"
      "call (handler p) (arg p) (s3\<lparr>inHandler := True, istatus := SystemMode\<rparr>) = Inr s4"
      "s' = s4\<lparr>istatus := istatus s, inHandler := False\<rparr>"
proof (cases "pending s")
  case Nil
  with assms show ?thesis by (intro empty) (auto simp: CheckIfDue_def bindR_ASSERT split: if_splits)
next
  case (Cons wp rest)
  obtain w p where wp: "wp = (w, p)" by (cases wp)
  have pend: "pending s = (w, p) # rest" using Cons wp by simp
  have lev: "level s = IntOff" using assms by (auto simp: CheckIfDue_def bindR_ASSERT split: if_splits)
  show ?thesis
  proof (cases "w > now s \<and> \<not> adv")
    case True
    with assms lev pend show ?thesis by (intro early[of w p rest]) (auto simp: CheckIfDue_def)
  next
    case False
    define s2 where "s2 = (if w > now s
      then s\<lparr>pending := rest, stats := (stats s)\<lparr>idleTicks := i32 (idleTicks (stats s) + (w - now s)), totalTicks := w\<rparr>\<rparr>
      else s\<lparr>pending := rest\<rparr>)"
    have s2: "\<exists>st. s2 = s\<lparr>pending := rest, stats := st\<rparr>" "now s2 = max (now s) w" "w \<le> now s \<Longrightarrow> stats s2 = stats s"
      "istatus s2 = istatus s" "pending s2 = rest"
      unfolding s2_def by (auto intro: exI[of _ "stats s"])
    have eq: "CheckIfDue call adv s = (if istatus s2 = IdleMode \<and> itype p = TimerInt \<and> pending s2 = []
        then Inr (False, s2\<lparr>pending := sorted_ins w p (pending s2)\<rparr>)
        else bindR (settle_load s2) (\<lambda>s3.
             bindR (call (handler p) (arg p) (s3\<lparr>inHandler := True, istatus := SystemMode\<rparr>)) (\<lambda>s4.
             Inr (True, s4\<lparr>istatus := istatus s, inHandler := False\<rparr>))))"
      using False lev pend unfolding CheckIfDue_def s2_def by (auto simp: Let_def)
    show ?thesis
    proof (cases "istatus s = IdleMode \<and> itype p = TimerInt \<and> rest = []")
      case True
      then have "b = False" "s' = s2\<lparr>pending := [(w, p)]\<rparr>" using eq assms s2 by auto
      moreover have "\<exists>st. s2\<lparr>pending := [(w, p)]\<rparr> = s\<lparr>stats := st\<rparr>" using s2(1) pend True by (cases s) auto
      ultimately show ?thesis using True pend s2 False by (intro timer[of w p]) auto
    next
      case nt: False
      then have "bindR (settle_load s2) (\<lambda>s3.
             bindR (call (handler p) (arg p) (s3\<lparr>inHandler := True, istatus := SystemMode\<rparr>)) (\<lambda>s4.
             Inr (True, s4\<lparr>istatus := istatus s, inHandler := False\<rparr>))) = Inr (b, s')"
        using eq assms s2(4,5) by auto
      then obtain s3 s4 where "settle_load s2 = Inr s3"
        "call (handler p) (arg p) (s3\<lparr>inHandler := True, istatus := SystemMode\<rparr>) = Inr s4"
        "b" "s' = s4\<lparr>istatus := istatus s, inHandler := False\<rparr>" by (auto simp: bindR_eq_Inr)
      then show ?thesis using s2(1-3) pend False nt by (intro fires[of w p rest s2 s3 s4]) auto
    qed
  qed
qed

section \<open>The contract of the handlers\<close>

text \<open>
  What \<open>while (CheckIfDue(FALSE))\<close> relies on: a handler returns, with interrupts still off, without
  moving the clock, and whatever it schedules lies in the future, as long as the clock does not wrap around. \<open>I\<close> is the kernel's invariant, which
  does not depend on the interrupt object's own bookkeeping, and \<open>installed\<close> says which handlers the
  pending list may name.
\<close>

definition all_installed :: "(HandlerFn \<Rightarrow> int \<Rightarrow> bool) \<Rightarrow> 'k Interrupt_scheme \<Rightarrow> bool" where
  "all_installed inst s \<longleftrightarrow> (\<forall>wp\<in>set (pending s). inst (handler (snd wp)) (arg (snd wp)))"

lemma all_installed_frame [simp]:
  "all_installed i (s\<lparr>level := l\<rparr>) = all_installed i s" "all_installed i (s\<lparr>inHandler := b\<rparr>) = all_installed i s"
  "all_installed i (s\<lparr>yieldOnReturn := b\<rparr>) = all_installed i s" "all_installed i (s\<lparr>istatus := t\<rparr>) = all_installed i s"
  "all_installed i (s\<lparr>stats := st\<rparr>) = all_installed i s" "all_installed i (s\<lparr>machine := mm\<rparr>) = all_installed i s"
  by (simp_all add: all_installed_def)

locale interrupt_handlers =
  fixes call :: "'k handlers"
    and I :: "'k Interrupt_scheme \<Rightarrow> bool"
    and installed :: "HandlerFn \<Rightarrow> int \<Rightarrow> bool"
  assumes I_pending: "I s \<Longrightarrow> I (s\<lparr>pending := ps\<rparr>)"
    and I_stats: "I s \<Longrightarrow> I (s\<lparr>stats := st\<rparr>)"
    and I_flags: "I s \<Longrightarrow> I (s\<lparr>level := l\<rparr>)" "I s \<Longrightarrow> I (s\<lparr>inHandler := b\<rparr>)"
      "I s \<Longrightarrow> I (s\<lparr>istatus := t\<rparr>)" "I s \<Longrightarrow> I (s\<lparr>yieldOnReturn := b\<rparr>)"
    and I_load: "I s \<Longrightarrow> \<exists>s'. settle_load s = Inr s' \<and> I s'"
    and call_ok: "I s \<Longrightarrow> int_ok s \<Longrightarrow> all_installed installed s \<Longrightarrow> installed h a \<Longrightarrow> level s = IntOff \<Longrightarrow> inHandler s \<Longrightarrow> clock_ok s
      \<Longrightarrow> \<exists>s'. call h a s = Inr s' \<and> I s' \<and> int_ok s' \<and> all_installed installed s' \<and> level s' = IntOff
            \<and> now s' = now s \<and> due s' = due s"
begin

definition ready :: "'k Interrupt_scheme \<Rightarrow> bool" where
  "ready s \<longleftrightarrow> I s \<and> int_ok s \<and> all_installed installed s \<and> level s = IntOff"

lemma fire_step:
  assumes "ready s" and "pending s = (w, p) # rest" and "adv \<or> w \<le> now s"
    and "\<not> (istatus s = IdleMode \<and> itype p = TimerInt \<and> rest = [])" and clk: "clock_at (max (now s) w)"
  shows "\<exists>s'. CheckIfDue call adv s = Inr (True, s') \<and> ready s' \<and> istatus s' = istatus s
    \<and> now s' = max (now s) w \<and> (w \<le> now s \<longrightarrow> length (due s') < length (due s))"
proof -
  define st where "st = (if w > now s
    then (stats s)\<lparr>idleTicks := i32 (idleTicks (stats s) + (w - now s)), totalTicks := w\<rparr> else stats s)"
  define s2 where "s2 = s\<lparr>pending := rest, stats := st\<rparr>"
  have st: "totalTicks st = max (now s) w" by (simp add: st_def)
  have r2: "I s2" "int_ok s2" "all_installed installed s2" "level s2 = IntOff" "installed (handler p) (arg p)"
    using assms(1,2) by (auto simp: s2_def ready_def int_ok_def all_installed_def intro: I_pending I_stats)
  have d2: "w \<le> now s \<longrightarrow> length (due s2) < length (due s)"
    using assms(2) st by (simp add: due_def s2_def)
  obtain s3 where s3: "settle_load s2 = Inr s3" "I s3" using I_load[OF r2(1)] by blast
  obtain mm where mm: "s3 = s2\<lparr>machine := mm\<rparr>" using settle_load_frame[OF s3(1)] by blast
  define s3' where "s3' = s3\<lparr>inHandler := True, istatus := SystemMode\<rparr>"
  have r3: "I s3'" "int_ok s3'" "all_installed installed s3'" "level s3' = IntOff" "inHandler s3'"
    "now s3' = max (now s) w" "due s3' = due s2"
    using s3(2) r2 st by (auto simp: s3'_def mm s2_def intro: I_flags)
  obtain s4 where s4: "call (handler p) (arg p) s3' = Inr s4" "I s4" "int_ok s4" "all_installed installed s4"
    "level s4 = IntOff" "now s4 = now s3'" "due s4 = due s3'"
    using call_ok[OF r3(1-3) r2(5) r3(4,5)] r3(6) clk by auto
  define s5 where "s5 = s4\<lparr>istatus := istatus s, inHandler := False\<rparr>"
  have "I s5" using s4(2) by (auto simp: s5_def intro: I_flags)
  then have "ready s5" using s4 by (simp add: ready_def s5_def)
  moreover have "CheckIfDue call adv s = Inr (True, s5)"
    using assms s3(1) s4(1) unfolding CheckIfDue_def s5_def s3'_def s2_def st_def ready_def by (auto simp: Let_def)
  ultimately show ?thesis using s4 r3 d2 by (auto simp: s5_def)
qed

text \<open>After the loop nothing that is due is left, an idle machine's lone timer apart.\<close>

lemma fire_due_terminates:
  assumes "ready s" and "clock_ok s"
  shows "\<exists>s'. fire_due call s = Some (Inr s') \<and> ready s' \<and> istatus s' = istatus s \<and> now s' = now s
    \<and> (due s' = [] \<or> istatus s = IdleMode \<and> (\<exists>w p. pending s' = [(w, p)] \<and> itype p = TimerInt))"
  using assms
proof (induction "length (due s)" arbitrary: s rule: less_induct)
  case less
  have off: "level s = IntOff" using less.prems by (simp add: ready_def)
  show ?case
  proof (cases "pending s")
    case Nil
    then have "CheckIfDue call False s = Inr (False, s)" using off by (simp add: CheckIfDue_def)
    then have "fire_due call s = Some (Inr s)" by (subst fire_due.simps) simp
    with less.prems(1) Nil show ?thesis by (simp add: due_def)
  next
    case (Cons wp rest)
    obtain w p where "wp = (w, p)" by (cases wp)
    with Cons have pend: "pending s = (w, p) # rest" by simp
    have srt: "sorted (map fst (pending s))" using less.prems by (simp add: ready_def int_ok_def)
    consider (early) "now s < w" | (timer) "w \<le> now s" "istatus s = IdleMode \<and> itype p = TimerInt \<and> rest = []"
      | (fires) "w \<le> now s" "\<not> (istatus s = IdleMode \<and> itype p = TimerInt \<and> rest = [])" by linarith
    then show ?thesis
    proof cases
      case early
      define s' where "s' = s\<lparr>pending := sorted_ins w p rest\<rparr>"
      have "CheckIfDue call False s = Inr (False, s')" using off pend early by (simp add: CheckIfDue_def s'_def)
      then have 1: "fire_due call s = Some (Inr s')" by (subst fire_due.simps) simp
      have "I s'" using less.prems by (auto simp: s'_def ready_def intro: I_pending)
      then have "ready s'" using less.prems pend srt
        by (auto simp: ready_def s'_def int_ok_def all_installed_def sorted_sorted_ins)
      moreover have "due s' = []" using srt pend early by (force simp: due_def s'_def filter_empty_conv)
      ultimately show ?thesis using 1 by (simp add: s'_def)
    next
      case timer
      have "s\<lparr>pending := [(w, p)]\<rparr> = s" using pend timer by (cases s) simp
      then have "CheckIfDue call False s = Inr (False, s)" using off pend timer by (simp add: CheckIfDue_def)
      then have "fire_due call s = Some (Inr s)" by (subst fire_due.simps) simp
      with less.prems timer pend show ?thesis by simp
    next
      case fires
      obtain s1 where s1: "CheckIfDue call False s = Inr (True, s1)" "ready s1" "istatus s1 = istatus s"
        "now s1 = now s" "length (due s1) < length (due s)"
        using fire_step[OF less.prems(1) pend, of False] less.prems(2) fires by (auto simp: max_def)
      have "fire_due call s = fire_due call s1" using s1(1) by (subst fire_due.simps) simp
      moreover have "clock_ok s1" using less.prems(2) s1(4) by simp
      ultimately show ?thesis using less.hyps[OF s1(5,2)] s1(3,4) by simp
    qed
  qed
qed

text \<open>\<open>Idle\<close> moves the clock to the earliest pending interrupt and fires it, or halts when there is
  nothing to wait for.\<close>

lemma Idle_terminates:
  assumes "ready s" and "clock_ok s" and first: "\<And>w p rest. pending s = (w, p) # rest \<Longrightarrow> clock_at w"
  shows "\<exists>r. Idle call s = Some (Inr r) \<and>
    (case r of
       Halted s' \<Rightarrow> pending s = [] \<or> (\<exists>w p. pending s = [(w, p)] \<and> itype p = TimerInt)
     | Returned s' \<Rightarrow> (\<exists>w p rest. pending s = (w, p) # rest \<and> now s' = max (now s) w)
         \<and> ready s' \<and> istatus s' = SystemMode \<and> \<not> yieldOnReturn s')"
proof -
  let ?s = "s\<lparr>istatus := IdleMode\<rparr>"
  have "I ?s" using assms by (auto simp: ready_def intro: I_flags)
  then have r: "ready ?s" using assms by (simp add: ready_def)
  show ?thesis
  proof (cases "\<exists>w p rest. pending s = (w, p) # rest \<and> \<not> (itype p = TimerInt \<and> rest = [])")
    case True
    then obtain w p rest where pend: "pending s = (w, p) # rest" and nt: "\<not> (itype p = TimerInt \<and> rest = [])" by blast
    obtain s1 where s1: "CheckIfDue call True ?s = Inr (True, s1)" "ready s1" "now s1 = max (now s) w"
      using fire_step[OF r, of w p rest True] pend nt clock_at_max[OF assms(2) first[OF pend]] by auto
    obtain s2 where s2: "fire_due call s1 = Some (Inr s2)" "ready s2" "now s2 = now s1"
      using fire_due_terminates[OF s1(2)] s1(3) clock_at_max[OF assms(2) first[OF pend]] by metis
    let ?s3 = "s2\<lparr>yieldOnReturn := False, istatus := SystemMode\<rparr>"
    have "I ?s3" using s2(2) by (auto simp: ready_def intro: I_flags)
    then have "ready ?s3" using s2(2) by (simp add: ready_def)
    then show ?thesis using s1(1,3) s2(1,3) pend by (simp add: Idle_def)
  next
    case False
    then consider "pending s = []" | w p where "pending s = [(w, p)]" "itype p = TimerInt"
      by (cases "pending s") (auto simp: prod_eq_iff)
    then show ?thesis
    proof cases
      case 1
      then show ?thesis using assms by (simp add: Idle_def CheckIfDue_def ready_def)
    next
      case 2
      then show ?thesis using assms by (auto simp: Idle_def CheckIfDue_def ready_def Let_def)
    qed
  qed
qed

end

section \<open>Which interrupt fires\<close>

text \<open>
  C21. Interrupts fire in time order and never early: when \<open>CheckIfDue\<close> runs a handler, it is the one of
  the earliest pending interrupt, that interrupt has been removed from the list, its time has come (or
  the idle machine has moved the clock to exactly its time), and the handler runs in system mode with
  interrupts off and \<open>inHandler\<close> set. Afterwards the status is what it was before.
\<close>

theorem interrupts_fire_in_order:
  assumes "int_ok s" and "CheckIfDue call adv s = Inr (True, s')"
  shows "\<exists>w p rest s3 s4. pending s = (w, p) # rest \<and> iwhen p = w \<and> (\<forall>q\<in>set rest. w \<le> fst q)
    \<and> (adv \<or> w \<le> now s) \<and> now s3 = max (now s) w
    \<and> pending s3 = rest \<and> level s3 = IntOff \<and> inHandler s3 \<and> istatus s3 = SystemMode
    \<and> call (handler p) (arg p) s3 = Inr s4 \<and> s' = s4\<lparr>istatus := istatus s, inHandler := False\<rparr>"
  using assms(2)
proof (cases rule: CheckIfDue_cases)
  case (fires w p rest s2 s3 s4)
  have "level s = IntOff" using assms(2) by (auto simp: CheckIfDue_def bindR_ASSERT split: if_splits)
  moreover obtain mm where "s3 = s2\<lparr>machine := mm\<rparr>" using settle_load_frame[OF fires(8)] by blast
  ultimately show ?thesis using fires assms(1)
    by (intro exI[of _ w] exI[of _ p] exI[of _ rest] exI[of _ "s3\<lparr>inHandler := True, istatus := SystemMode\<rparr>"] exI[of _ s4])
      (auto simp: int_ok_def)
qed simp_all

definition demo_int :: Interrupt where
  "demo_int = (Interrupt_new Statistics_new)\<lparr>pending :=
     [(100, PendingInterrupt_new ConsoleReadPoll 0 100 ConsoleReadInt), (250, PendingInterrupt_new DiskDone 0 250 DiskInt)]\<rparr>"

lemma interrupts_fire_in_order_witness:
  "int_ok demo_int \<and> (\<exists>s'. CheckIfDue (\<lambda>_ _ s. Inr s) True demo_int = Inr (True, s') \<and> now s' = 100
     \<and> (\<exists>w p rest s3 s4. pending demo_int = (w, p) # rest \<and> iwhen p = w \<and> (\<forall>q\<in>set rest. w \<le> fst q)
        \<and> (True \<or> w \<le> now demo_int) \<and> now s3 = max (now demo_int) w
        \<and> pending s3 = rest \<and> level s3 = IntOff \<and> inHandler s3 \<and> istatus s3 = SystemMode
        \<and> Inr s3 = (Inr s4 :: Interrupt res) \<and> s' = s4\<lparr>istatus := istatus demo_int, inHandler := False\<rparr>))"
proof -
  have ok: "int_ok demo_int" by (simp add: demo_int_def int_ok_def PendingInterrupt_new_def)
  obtain s' where s': "CheckIfDue (\<lambda>_ _ s. Inr s) True demo_int = Inr (True, s')" "now s' = 100"
    by (simp add: demo_int_def CheckIfDue_def Interrupt_new_def Statistics_new_def PendingInterrupt_new_def settle_load_def)
  from interrupts_fire_in_order[OF ok s'(1)] ok s' show ?thesis by blast
qed

end
