(* ===== verification/Nachos_Thread.thy ===== *)
theory Nachos_Thread
  imports Nachos_Interrupt
begin

text \<open>
  threads/thread.cc, scheduler.cc and synch.cc: threads, the scheduler and semaphores.

  \<open>Kernel\<close> extends the interrupt object by the globals of the thread system: the live \<open>Thread\<close> objects,
  the ready list, \<open>currentThread\<close>, \<open>threadToBeDestroyed\<close> and the live semaphores. Lists are kept by their
  contents (Nachos_List). A thread's saved program counter is \<open>resume\<close>: where it goes on when \<open>SWITCH\<close>
  returns to it. \<open>Scheduler_Run\<close> therefore ends in the state in which the next thread has the CPU, with
  the code the next thread executes first (the end of \<open>Run\<close>, or \<open>ThreadRoot\<close>) already run.
  \<open>cpu\<close> says whether the running thread is inside the loop of \<open>Thread::Sleep\<close>.

  \<open>SetLevel(oldLevel)\<close> at the end of an operation restores the level here; the \<open>OneTick\<close> that follows
  when interrupts come back on is a step of its own in the step relation of Nachos_Sched.

  The value of a semaphore is a 32-bit \<open>int\<close>: \<open>value++\<close> and \<open>value--\<close> wrap around. Of a thread's stack the model has
  the word at its end, where \<open>StackAllocate\<close> puts the fencepost and which a thread that overruns its stack overwrites.
\<close>

section \<open>Address spaces on a context switch\<close>

text \<open>userprog/addrspace.h. The page table is shared with \<open>machine->pageTable\<close> while the space is
  loaded.\<close>

record AddrSpace =
  as_pageTable :: "TranslationEntry list"
  as_numPages :: nat

definition AddrSpace_InitRegisters :: "AddrSpace \<Rightarrow> Machine \<Rightarrow> Machine" where
  "AddrSpace_InitRegisters sp m =
    (let m1 = m\<lparr>registers := (\<lambda>i. if i < NumTotalRegs then 0 else registers m i)\<rparr>;
         m2 = set_reg NextPCReg 4 (set_reg PCReg 0 m1)
     in set_reg StackReg (word_of_nat (as_numPages sp) * word_of_nat PageSize - 16) m2)"

text \<open>\<open>SaveState\<close> has an empty body. The table the machine has been updating is the space's own, by
  sharing, so what the space sees after the switch is the machine's copy.\<close>

definition AddrSpace_SaveState :: "Machine \<Rightarrow> AddrSpace \<Rightarrow> AddrSpace" where
  "AddrSpace_SaveState m sp = (case pageTable m of None \<Rightarrow> sp | Some t \<Rightarrow> sp\<lparr>as_pageTable := t\<rparr>)"

definition AddrSpace_RestoreState :: "AddrSpace \<Rightarrow> Machine \<Rightarrow> Machine" where
  "AddrSpace_RestoreState sp m = m\<lparr>pageTable := Some (as_pageTable sp), pageTableSize := as_numPages sp\<rparr>"

section \<open>Threads\<close>

datatype ThreadStatus = JUST_CREATED | RUNNING | READY | BLOCKED

text \<open>The functions the kernel forks.\<close>

datatype ThreadFn = StartProcess_2 | SimpleThread | PostalHelper

text \<open>Where a thread goes on when it next gets the CPU: it has no stack yet; in \<open>ThreadRoot\<close>; after
  \<open>SWITCH\<close> in a \<open>Run\<close> called by \<open>Yield\<close>, by \<open>Sleep\<close> in \<open>P\<close>, or by \<open>Sleep\<close> in \<open>Finish\<close>, with the
  caller's \<open>oldLevel\<close>. \<open>OnCPU\<close>: it is executing.\<close>

datatype Resume = NoStack | AtThreadRoot ThreadFn int | InYield IntStatus | InP nat IntStatus | InFinish | OnCPU

definition STACK_FENCEPOST :: word32 where "STACK_FENCEPOST = 0xdeadbeef"

record Thread =
  tname :: string
  tstatus :: ThreadStatus
  stack :: "word32 option"
  processID :: int
  exitStatus :: int
  userRegisters :: "nat \<Rightarrow> word32"
  space :: "AddrSpace option"
  resume :: Resume

record Semaphore =
  sem_name :: string
  sem_value :: int
  sem_queue :: "nat list"

datatype CpuLoc = Exec | InSleep

record Kernel = Interrupt +
  threads :: "nat \<Rightarrow> Thread option"
  next_thread :: nat
  currentThread :: nat
  threadToBeDestroyed :: "nat option"
  readyList :: "nat list"
  sems :: "nat \<Rightarrow> Semaphore option"
  next_sem :: nat
  cpu :: CpuLoc

definition get_thread :: "nat \<Rightarrow> 'k Kernel_scheme \<Rightarrow> Thread res" where
  "get_thread t s = (case threads s t of None \<Rightarrow> Inl DanglingPointer | Some th \<Rightarrow> Inr th)"

definition upd_thread :: "nat \<Rightarrow> (Thread \<Rightarrow> Thread) \<Rightarrow> 'k Kernel_scheme \<Rightarrow> 'k Kernel_scheme" where
  "upd_thread t f s = s\<lparr>threads := (threads s)(t := map_option f (threads s t))\<rparr>"

definition Thread_init :: "string \<Rightarrow> (nat \<Rightarrow> word32) \<Rightarrow> Thread" where
  "Thread_init debugName junk = \<lparr>tname = debugName, tstatus = JUST_CREATED, stack = None, processID = 0,
     exitStatus = 0, userRegisters = junk, space = None, resume = NoStack\<rparr>"

text \<open>\<open>new Thread(debugName)\<close>; the constructor leaves \<open>userRegisters\<close> as the allocator gives them.\<close>

definition Thread_new :: "string \<Rightarrow> (nat \<Rightarrow> word32) \<Rightarrow> 'k Kernel_scheme \<Rightarrow> nat \<times> 'k Kernel_scheme" where
  "Thread_new debugName junk s =
    (let t = next_thread s
     in (t, s\<lparr>threads := (threads s)(t := Some (Thread_init debugName junk)), next_thread := t + 1\<rparr>))"

text \<open>\<open>delete thread\<close>.\<close>

definition Thread_delete :: "nat \<Rightarrow> 'k Kernel_scheme \<Rightarrow> 'k Kernel_scheme res" where
  "Thread_delete t s = bindR (get_thread t s) (\<lambda>_.
     bindR (ASSERT (t \<noteq> currentThread s)) (\<lambda>_. Inr (s\<lparr>threads := (threads s)(t := None)\<rparr>)))"

definition StackAllocate :: "ThreadFn \<Rightarrow> int \<Rightarrow> Thread \<Rightarrow> Thread" where
  "StackAllocate func a th = th\<lparr>stack := Some STACK_FENCEPOST, resume := AtThreadRoot func a\<rparr>"

definition CheckOverflow :: "Thread \<Rightarrow> unit res" where
  "CheckOverflow th = (case stack th of None \<Rightarrow> Inr () | Some w \<Rightarrow> ASSERT (w = STACK_FENCEPOST))"

definition SaveUserState :: "Machine \<Rightarrow> Thread \<Rightarrow> Thread" where
  "SaveUserState m th = th\<lparr>userRegisters := (\<lambda>i. if i < NumTotalRegs then registers m i else userRegisters th i)\<rparr>"

definition RestoreUserState :: "Thread \<Rightarrow> Machine \<Rightarrow> Machine" where
  "RestoreUserState th m = m\<lparr>registers := (\<lambda>i. if i < NumTotalRegs then userRegisters th i else registers m i)\<rparr>"

section \<open>The scheduler\<close>

definition ReadyToRun :: "nat \<Rightarrow> 'k Kernel_scheme \<Rightarrow> 'k Kernel_scheme res" where
  "ReadyToRun t s = bindR (get_thread t s) (\<lambda>_.
     let s1 = upd_thread t (\<lambda>th. th\<lparr>tstatus := READY\<rparr>) s
     in Inr (s1\<lparr>readyList := readyList s1 @ [t]\<rparr>))"

definition FindNextToRun :: "'k Kernel_scheme \<Rightarrow> nat option \<times> 'k Kernel_scheme" where
  "FindNextToRun s = (case readyList s of [] \<Rightarrow> (None, s) | t # ts \<Rightarrow> (Some t, s\<lparr>readyList := ts\<rparr>))"

text \<open>The beginning of \<open>Run\<close>: what the old thread does with the user state.\<close>

definition save_old :: "'k Kernel_scheme \<Rightarrow> 'k Kernel_scheme res" where
  "save_old s = bindR (get_thread (currentThread s) s) (\<lambda>th.
     case space th of
       None \<Rightarrow> Inr s
     | Some sp \<Rightarrow> (case machine s of
         None \<Rightarrow> Inl NullPointer
       | Some m \<Rightarrow> Inr (upd_thread (currentThread s)
           (\<lambda>th. (SaveUserState m th)\<lparr>space := Some (AddrSpace_SaveState m sp)\<rparr>) s)))"

text \<open>The end of \<open>Run\<close>, executed by the thread that has got the CPU back.\<close>

definition reap :: "'k Kernel_scheme \<Rightarrow> 'k Kernel_scheme res" where
  "reap s = (case threadToBeDestroyed s of None \<Rightarrow> Inr s
     | Some t \<Rightarrow> bindR (Thread_delete t s) (\<lambda>s'. Inr (s'\<lparr>threadToBeDestroyed := None\<rparr>)))"

definition restore_new :: "'k Kernel_scheme \<Rightarrow> 'k Kernel_scheme res" where
  "restore_new s = bindR (get_thread (currentThread s) s) (\<lambda>th.
     case space th of
       None \<Rightarrow> Inr s
     | Some sp \<Rightarrow> (case machine s of
         None \<Rightarrow> Inl NullPointer
       | Some m \<Rightarrow> Inr (s\<lparr>machine := Some (AddrSpace_RestoreState sp (RestoreUserState th m))\<rparr>)))"

text \<open>The first code of the thread that \<open>SWITCH\<close> starts: a new thread enters \<open>ThreadRoot\<close>, whose first
  call enables interrupts, and never executes the end of \<open>Run\<close>.\<close>

definition after_switch :: "'k Kernel_scheme \<Rightarrow> 'k Kernel_scheme res" where
  "after_switch s = bindR (get_thread (currentThread s) s) (\<lambda>th.
     case resume th of
       AtThreadRoot f a \<Rightarrow> Inr ((upd_thread (currentThread s) (\<lambda>th. th\<lparr>resume := OnCPU\<rparr>) s)\<lparr>level := IntOn\<rparr>)
     | _ \<Rightarrow> bindR (reap s) restore_new)"

text \<open>\<open>Run(nextThread)\<close>, called by a thread that will go on at \<open>r\<close>.\<close>

definition Scheduler_Run :: "nat \<Rightarrow> Resume \<Rightarrow> 'k Kernel_scheme \<Rightarrow> 'k Kernel_scheme res" where
  "Scheduler_Run nextThread r s =
    (let oldThread = currentThread s in
     bindR (save_old s) (\<lambda>s1.
     bindR (get_thread oldThread s1) (\<lambda>old.
     bindR (CheckOverflow old) (\<lambda>_.
     bindR (get_thread nextThread s1) (\<lambda>_.
     let s2 = upd_thread oldThread (\<lambda>th. th\<lparr>resume := r\<rparr>) s1;
         s3 = upd_thread nextThread (\<lambda>th. th\<lparr>tstatus := RUNNING\<rparr>) (s2\<lparr>currentThread := nextThread, cpu := Exec\<rparr>)
     in after_switch s3)))))"

section \<open>Thread operations\<close>

definition Thread_Fork :: "nat \<Rightarrow> ThreadFn \<Rightarrow> int \<Rightarrow> 'k Kernel_scheme \<Rightarrow> 'k Kernel_scheme res" where
  "Thread_Fork t func a s = bindR (get_thread t s) (\<lambda>_.
     let s1 = upd_thread t (StackAllocate func a) s; oldLevel = level s1
     in bindR (ReadyToRun t (s1\<lparr>level := IntOff\<rparr>)) (\<lambda>s2. Inr (s2\<lparr>level := oldLevel\<rparr>)))"

text \<open>\<open>Sleep\<close> by the current thread, which will go on at \<open>r\<close>: the status is set, then the loop looks for
  a thread to run (\<open>sleep_loop\<close> is one evaluation of its condition and, on success, the call of \<open>Run\<close>).\<close>

definition sleep_loop :: "Resume \<Rightarrow> 'k Kernel_scheme \<Rightarrow> 'k Kernel_scheme res" where
  "sleep_loop r s = (case FindNextToRun s of
     (None, s1) \<Rightarrow> Inr (upd_thread (currentThread s1) (\<lambda>th. th\<lparr>resume := r\<rparr>) (s1\<lparr>cpu := InSleep\<rparr>))
   | (Some t, s1) \<Rightarrow> Scheduler_Run t r s1)"

definition Thread_Sleep :: "Resume \<Rightarrow> 'k Kernel_scheme \<Rightarrow> 'k Kernel_scheme res" where
  "Thread_Sleep r s = bindR (ASSERT (level s = IntOff)) (\<lambda>_.
     sleep_loop r (upd_thread (currentThread s) (\<lambda>th. th\<lparr>tstatus := BLOCKED\<rparr>) s))"

definition Thread_Finish :: "'k Kernel_scheme \<Rightarrow> 'k Kernel_scheme res" where
  "Thread_Finish s = Thread_Sleep InFinish (s\<lparr>level := IntOff, threadToBeDestroyed := Some (currentThread s)\<rparr>)"

definition Thread_Yield :: "'k Kernel_scheme \<Rightarrow> 'k Kernel_scheme res" where
  "Thread_Yield s =
    (let oldLevel = level s; this = currentThread s in
     case FindNextToRun (s\<lparr>level := IntOff\<rparr>) of
       (None, s1) \<Rightarrow> Inr (s1\<lparr>level := oldLevel\<rparr>)
     | (Some t, s1) \<Rightarrow> bindR (ReadyToRun this s1) (\<lambda>s2. Scheduler_Run t (InYield oldLevel) s2))"

text \<open>The rest of \<open>Yield\<close>, when the thread has been rescheduled.\<close>

definition Yield_return :: "IntStatus \<Rightarrow> 'k Kernel_scheme \<Rightarrow> 'k Kernel_scheme" where
  "Yield_return oldLevel s = (upd_thread (currentThread s) (\<lambda>th. th\<lparr>resume := OnCPU\<rparr>) s)\<lparr>level := oldLevel\<rparr>"

section \<open>Semaphores\<close>

definition get_sem :: "nat \<Rightarrow> 'k Kernel_scheme \<Rightarrow> Semaphore res" where
  "get_sem i s = (case sems s i of None \<Rightarrow> Inl DanglingPointer | Some se \<Rightarrow> Inr se)"

definition put_sem :: "nat \<Rightarrow> Semaphore \<Rightarrow> 'k Kernel_scheme \<Rightarrow> 'k Kernel_scheme" where
  "put_sem i se s = s\<lparr>sems := (sems s)(i := Some se)\<rparr>"

definition Semaphore_new :: "string \<Rightarrow> int \<Rightarrow> 'k Kernel_scheme \<Rightarrow> nat \<times> 'k Kernel_scheme" where
  "Semaphore_new debugName initialValue s =
    (let i = next_sem s
     in (i, (put_sem i \<lparr>sem_name = debugName, sem_value = initialValue, sem_queue = []\<rparr> s)\<lparr>next_sem := i + 1\<rparr>))"

definition Semaphore_delete :: "nat \<Rightarrow> 'k Kernel_scheme \<Rightarrow> 'k Kernel_scheme res" where
  "Semaphore_delete i s = bindR (get_sem i s) (\<lambda>_. Inr (s\<lparr>sems := (sems s)(i := None)\<rparr>))"

text \<open>One evaluation of the loop of \<open>P\<close>: sleep on the queue, or take the value and leave.\<close>

definition P_loop :: "nat \<Rightarrow> IntStatus \<Rightarrow> 'k Kernel_scheme \<Rightarrow> 'k Kernel_scheme res" where
  "P_loop i oldLevel s = bindR (get_sem i s) (\<lambda>se.
     if sem_value se = 0
     then Thread_Sleep (InP i oldLevel) (put_sem i (se\<lparr>sem_queue := sem_queue se @ [currentThread s]\<rparr>) s)
     else Inr ((upd_thread (currentThread s) (\<lambda>th. th\<lparr>resume := OnCPU\<rparr>)
                 (put_sem i (se\<lparr>sem_value := i32 (sem_value se - 1)\<rparr>) s))\<lparr>level := oldLevel\<rparr>))"

definition Semaphore_P :: "nat \<Rightarrow> 'k Kernel_scheme \<Rightarrow> 'k Kernel_scheme res" where
  "Semaphore_P i s = P_loop i (level s) (s\<lparr>level := IntOff\<rparr>)"

definition Semaphore_V :: "nat \<Rightarrow> 'k Kernel_scheme \<Rightarrow> 'k Kernel_scheme res" where
  "Semaphore_V i s =
    (let oldLevel = level s; s0 = s\<lparr>level := IntOff\<rparr> in
     bindR (get_sem i s0) (\<lambda>se.
     bindR (case sem_queue se of
         [] \<Rightarrow> Inr s0
       | t # ts \<Rightarrow> ReadyToRun t (put_sem i (se\<lparr>sem_queue := ts\<rparr>) s0)) (\<lambda>s1.
     bindR (get_sem i s1) (\<lambda>se1.
     Inr ((put_sem i (se1\<lparr>sem_value := i32 (sem_value se1 + 1)\<rparr>) s1)\<lparr>level := oldLevel\<rparr>)))))"

section \<open>Locks and condition variables\<close>

text \<open>The bodies in synch.cc are empty, and \<open>Wait\<close> is \<open>ASSERT(FALSE)\<close>.\<close>

definition Lock_Acquire :: "'k Kernel_scheme \<Rightarrow> 'k Kernel_scheme res" where "Lock_Acquire s = Inr s"
definition Lock_Release :: "'k Kernel_scheme \<Rightarrow> 'k Kernel_scheme res" where "Lock_Release s = Inr s"
definition Condition_Wait :: "'k Kernel_scheme \<Rightarrow> 'k Kernel_scheme res" where
  "Condition_Wait s = bindR (ASSERT False) (\<lambda>_. Inr s)"
definition Condition_Signal :: "'k Kernel_scheme \<Rightarrow> 'k Kernel_scheme res" where "Condition_Signal s = Inr s"
definition Condition_Broadcast :: "'k Kernel_scheme \<Rightarrow> 'k Kernel_scheme res" where "Condition_Broadcast s = Inr s"

end
