(* ===== verification/Nachos_Sched.thy ===== *)
theory Nachos_Sched
  imports Nachos_Thread
begin

text \<open>
  The thread system as a transition system, its invariant and what follows from it.

  A step is one operation of the running thread (or the part of it up to the next context switch), the
  continuation of a thread that has been switched back in, one pass of the idle loop of \<open>Sleep\<close>, or a
  \<open>V\<close> done by an interrupt handler. Between two operations the code of a thread may create the machine and run user
  instructions on it, give a thread an address space, delete a semaphore, whoever waits on it, and overrun
  its own stack. Timer preemption is a \<open>Yield\<close> at any point where a thread executes
  with its own code, which over-approximates the points where \<open>OneTick\<close> can call it.
\<close>

section \<open>Steps\<close>

datatype kev = EvP nat | EvV nat | Tau

definition resume_of :: "'k Kernel_scheme \<Rightarrow> nat \<Rightarrow> Resume option" where
  "resume_of s t = map_option resume (threads s t)"

definition status_of :: "'k Kernel_scheme \<Rightarrow> nat \<Rightarrow> ThreadStatus option" where
  "status_of s t = map_option tstatus (threads s t)"

definition queue_of :: "'k Kernel_scheme \<Rightarrow> nat \<Rightarrow> nat list" where
  "queue_of s i = (case sems s i of None \<Rightarrow> [] | Some se \<Rightarrow> sem_queue se)"

definition value_of :: "'k Kernel_scheme \<Rightarrow> nat \<Rightarrow> int" where
  "value_of s i = (case sems s i of None \<Rightarrow> 0 | Some se \<Rightarrow> sem_value se)"

definition executing :: "'k Kernel_scheme \<Rightarrow> bool" where
  "executing s \<longleftrightarrow> cpu s = Exec \<and> resume_of s (currentThread s) = Some OnCPU"

definition P_event :: "nat \<Rightarrow> 'k Kernel_scheme \<Rightarrow> kev" where
  "P_event i s = (if value_of s i = 0 then Tau else EvP i)"

text \<open>The fields of a thread that the process code sets, and the last word of its stack.\<close>

definition set_user :: "AddrSpace option \<Rightarrow> int \<Rightarrow> int \<Rightarrow> (nat \<Rightarrow> word32) \<Rightarrow> Thread \<Rightarrow> Thread" where
  "set_user sp p e r th = th\<lparr>space := sp, processID := p, exitStatus := e, userRegisters := r\<rparr>"

definition write_stack :: "word32 \<Rightarrow> Thread \<Rightarrow> Thread" where
  "write_stack w th = th\<lparr>stack := map_option (\<lambda>_. w) (stack th)\<rparr>"

inductive kstep :: "'k Kernel_scheme \<Rightarrow> kev \<Rightarrow> 'k Kernel_scheme \<Rightarrow> bool" where
  step_P: "executing s \<Longrightarrow> Semaphore_P i s = Inr s' \<Longrightarrow> kstep s (P_event i s) s'"
| step_P_again: "cpu s = Exec \<Longrightarrow> resume_of s (currentThread s) = Some (InP i l) \<Longrightarrow> P_loop i l s = Inr s'
    \<Longrightarrow> kstep s (P_event i s) s'"
| step_V: "executing s \<or> cpu s = InSleep \<Longrightarrow> Semaphore_V i s = Inr s' \<Longrightarrow> kstep s (EvV i) s'"
| step_Yield: "executing s \<Longrightarrow> Thread_Yield s = Inr s' \<Longrightarrow> kstep s Tau s'"
| step_Yield_return: "cpu s = Exec \<Longrightarrow> resume_of s (currentThread s) = Some (InYield l)
    \<Longrightarrow> kstep s Tau (Yield_return l s)"
| step_new: "executing s \<Longrightarrow> kstep s Tau (snd (Thread_new nm junk s))"
| step_Fork: "executing s \<Longrightarrow> status_of s t = Some JUST_CREATED \<Longrightarrow> Thread_Fork t f a s = Inr s' \<Longrightarrow> kstep s Tau s'"
| step_Finish: "executing s \<Longrightarrow> Thread_Finish s = Inr s' \<Longrightarrow> kstep s Tau s'"
| step_dispatch: "cpu s = InSleep \<Longrightarrow> readyList s \<noteq> [] \<Longrightarrow> resume_of s (currentThread s) = Some r
    \<Longrightarrow> sleep_loop r s = Inr s' \<Longrightarrow> kstep s Tau s'"
| step_sem: "executing s \<Longrightarrow> is_int v \<Longrightarrow> kstep s Tau (snd (Semaphore_new nm v s))"
| step_delete: "executing s \<Longrightarrow> Semaphore_delete i s = Inr s' \<Longrightarrow> kstep s Tau s'"
| step_machine: "executing s \<Longrightarrow> kstep s Tau (s\<lparr>machine := Some m\<rparr>)"
| step_user: "executing s \<Longrightarrow> machine s \<noteq> None \<Longrightarrow> kstep s Tau (upd_thread t (set_user sp p e r) s)"
| step_stack: "executing s \<Longrightarrow> kstep s Tau (upd_thread (currentThread s) (write_stack w) s)"

inductive kruns :: "'k Kernel_scheme \<Rightarrow> kev list \<Rightarrow> 'k Kernel_scheme \<Rightarrow> bool" for s0 where
  runs_refl: "kruns s0 [] s0"
| runs_step: "kruns s0 tr s \<Longrightarrow> kstep s e s' \<Longrightarrow> kruns s0 (tr @ [e]) s'"

text \<open>The thread part of \<open>Initialize\<close> (threads/system.cc), without the timer of the option \<open>-rs\<close>: the main thread
  runs, and \<open>interrupt->Enable()\<close>, with nothing pending, advances the clock by one tick.\<close>

definition Kernel_boot :: "(nat \<Rightarrow> word32) \<Rightarrow> Kernel" where
  "Kernel_boot junk =
    (let s0 = Interrupt.extend (Interrupt_new Statistics_new)
           \<lparr>threads = (\<lambda>_. None), next_thread = 0, currentThread = 0, threadToBeDestroyed = None,
            readyList = [], sems = (\<lambda>_. None), next_sem = 0, cpu = Exec\<rparr>;
         (t, s1) = Thread_new ''main'' junk s0
     in (tick (upd_thread t (\<lambda>th. th\<lparr>tstatus := RUNNING, resume := OnCPU\<rparr>) (s1\<lparr>currentThread := t\<rparr>)))\<lparr>level := IntOn\<rparr>)"

lemma Kernel_boot_Enable:
  "Enable call yield ((Kernel_boot junk)\<lparr>level := IntOff, stats := Statistics_new\<rparr>) = Some (Inr (Kernel_boot junk))"
proof -
  have "fire_due call s = Some (Inr s)" if "pending s = []" "level s = IntOff" for s :: Kernel
    using that by (subst fire_due.simps) (simp add: CheckIfDue_def)
  then show ?thesis
    by (simp add: Enable_def SetLevel_def OneTick_def Kernel_boot_def Thread_new_def Let_def tick_def ChangeLevel_def tick_yield_def
        Interrupt.defs Interrupt_new_def Statistics_new_def upd_thread_def)
qed

section \<open>The invariant\<close>

text \<open>What the switch code needs of every thread object: a machine if there is an address space; objects are
  allocated below the allocation pointers.\<close>

definition env_ok :: "'k Kernel_scheme \<Rightarrow> bool" where
  "env_ok s \<longleftrightarrow> (\<forall>t th. threads s t = Some th \<longrightarrow> t < next_thread s \<and> (space th \<noteq> None \<longrightarrow> machine s \<noteq> None))
     \<and> (\<forall>i se. sems s i = Some se \<longrightarrow> i < next_sem s)"

text \<open>A thread that overruns its stack is stopped by the \<open>ASSERT\<close> of \<open>CheckOverflow\<close> when it is switched out:
  a result is as \<open>Q\<close> says, or the running thread has overrun its stack and this assertion fails.\<close>

definition overflowed :: "'k Kernel_scheme \<Rightarrow> bool" where
  "overflowed s \<longleftrightarrow> (case threads s (currentThread s) of None \<Rightarrow> False | Some th \<Rightarrow> stack th \<notin> {None, Some STACK_FENCEPOST})"

definition served :: "bool \<Rightarrow> 'a res \<Rightarrow> ('a \<Rightarrow> bool) \<Rightarrow> bool" where
  "served ov r Q \<longleftrightarrow> (\<exists>s'. r = Inr s' \<and> Q s') \<or> ov \<and> r = Inl AssertFailed"

lemma servedI: "\<exists>s'. r = Inr s' \<and> Q s' \<Longrightarrow> served ov r Q"
  by (simp add: served_def)

lemma served_Inr: "served ov r Q \<Longrightarrow> r = Inr s' \<Longrightarrow> Q s'"
  by (auto simp: served_def)

lemma served_mono: "served ov r Q \<Longrightarrow> (\<And>s'. Q s' \<Longrightarrow> Q' s') \<Longrightarrow> served ov r Q'"
  by (auto simp: served_def)

text \<open>So the only fault is this one.\<close>

definition only_overflow :: "'k Kernel_scheme \<Rightarrow> 'a res \<Rightarrow> bool" where
  "only_overflow s r \<longleftrightarrow> (\<forall>f. r = Inl f \<longrightarrow> overflowed s \<and> f = AssertFailed)"

lemma served_only: "served (overflowed s) r Q \<Longrightarrow> only_overflow s r"
  by (auto simp: served_def only_overflow_def)

text \<open>The scheduler's view of the state: per thread its status and where it goes on, per semaphore its
  value and queue.\<close>

record Sched =
  s_core :: "nat \<Rightarrow> (ThreadStatus \<times> Resume) option"
  s_sem :: "nat \<Rightarrow> (int \<times> nat list) option"
  s_ready :: "nat list"
  s_cur :: nat
  s_cpu :: CpuLoc
  s_level :: IntStatus
  s_tbd :: "nat option"
  s_next :: nat

definition core :: "Thread \<Rightarrow> ThreadStatus \<times> Resume" where
  "core th = (tstatus th, resume th)"

definition view :: "'k Kernel_scheme \<Rightarrow> Sched" where
  "view s = \<lparr>s_core = (\<lambda>t. map_option core (threads s t)),
     s_sem = (\<lambda>i. map_option (\<lambda>se. (sem_value se, sem_queue se)) (sems s i)),
     s_ready = readyList s, s_cur = currentThread s, s_cpu = cpu s, s_level = level s, s_tbd = threadToBeDestroyed s,
     s_next = next_sem s\<rparr>"

text \<open>Where each thread is: the running thread is the current one, the ready threads are the ready list,
  the blocked ones are in the queue of the semaphore they wait for, or finished.\<close>

definition places_ok :: "Sched \<Rightarrow> bool" where
  "places_ok v \<longleftrightarrow> s_core v (s_cur v) \<noteq> None
     \<and> (\<forall>t r. s_core v t = Some (RUNNING, r) \<longrightarrow> t = s_cur v \<and> s_cpu v = Exec)
     \<and> (s_cpu v = Exec \<longrightarrow> (\<exists>r. s_core v (s_cur v) = Some (RUNNING, r)))
     \<and> distinct (s_ready v) \<and> (\<forall>t. t \<in> set (s_ready v) \<longleftrightarrow> (\<exists>r. s_core v t = Some (READY, r)))
     \<and> (\<forall>i n q. s_sem v i = Some (n, q) \<longrightarrow> distinct q
          \<and> (\<forall>t. t \<in> set q \<longleftrightarrow> (\<exists>l. s_core v t = Some (BLOCKED, InP i l))))"

text \<open>Where each thread will go on agrees with its status; a semaphore it waits for has existed. Interrupts are off
  while the CPU is in the scheduler.\<close>

fun fits :: "nat \<Rightarrow> ThreadStatus \<Rightarrow> Resume \<Rightarrow> bool" where
  "fits n st NoStack = (st = JUST_CREATED)"
| "fits n st (AtThreadRoot f a) = (st = READY)"
| "fits n st (InYield l) = (st = READY \<or> st = RUNNING)"
| "fits n st (InP i l) = (st \<noteq> JUST_CREATED \<and> i < n)"
| "fits n st InFinish = (st = BLOCKED)"
| "fits n st OnCPU = (st = RUNNING)"

definition resume_ok :: "Sched \<Rightarrow> bool" where
  "resume_ok v \<longleftrightarrow> (\<forall>t st r. s_core v t = Some (st, r) \<longrightarrow> fits (s_next v) st r) \<and> (\<forall>i \<in> dom (s_sem v). i < s_next v)
     \<and> (s_cpu v = InSleep \<longrightarrow> s_level v = IntOff)
     \<and> (s_cpu v = Exec \<and> s_core v (s_cur v) \<noteq> Some (RUNNING, OnCPU) \<longrightarrow> s_level v = IntOff)
     \<and> (\<forall>t. s_tbd v = Some t \<longrightarrow> s_core v t = Some (BLOCKED, InFinish))"

text \<open>Threads woken from semaphore \<open>i\<close> that have not yet retested its value. If someone still waits, there
  is a woken thread for every unit of the value, counted without the sign.\<close>

definition woken :: "Sched \<Rightarrow> nat \<Rightarrow> nat set" where
  "woken v i = {t. \<exists>st l. s_core v t = Some (st, InP i l) \<and> st \<noteq> BLOCKED}"

definition wakeups_ok :: "Sched \<Rightarrow> bool" where
  "wakeups_ok v \<longleftrightarrow> finite (dom (s_core v))
     \<and> (\<forall>i n q. s_sem v i = Some (n, q) \<longrightarrow> is_int n)
     \<and> (\<forall>i n q. s_sem v i = Some (n, q) \<longrightarrow> q \<noteq> [] \<longrightarrow> n mod 2 ^ 32 \<le> int (card (woken v i)))"

definition vinv :: "Sched \<Rightarrow> bool" where
  "vinv v \<longleftrightarrow> places_ok v \<and> resume_ok v \<and> wakeups_ok v"

definition kinv :: "'k Kernel_scheme \<Rightarrow> bool" where
  "kinv s \<longleftrightarrow> env_ok s \<and> vinv (view s)"

section \<open>The abstract scheduler\<close>

text \<open>Dispatch: the first ready thread gets the CPU; a new one starts in \<open>ThreadRoot\<close> with interrupts on,
  another one returns from \<open>SWITCH\<close> and reaps the finished thread.\<close>

definition a_run :: "nat \<Rightarrow> Sched \<Rightarrow> Sched" where
  "a_run t v = (let r = snd (the (s_core v t)) in
     case r of
       AtThreadRoot f a \<Rightarrow> v\<lparr>s_core := (s_core v)(t \<mapsto> (RUNNING, OnCPU)), s_cur := t, s_cpu := Exec, s_level := IntOn\<rparr>
     | _ \<Rightarrow> v\<lparr>s_core := (case s_tbd v of None \<Rightarrow> (s_core v)(t \<mapsto> (RUNNING, r)) | Some d \<Rightarrow> ((s_core v)(t \<mapsto> (RUNNING, r)))(d := None)),
              s_cur := t, s_cpu := Exec, s_tbd := None\<rparr>)"

definition a_loop :: "Sched \<Rightarrow> Sched" where
  "a_loop v = (case s_ready v of [] \<Rightarrow> v | t # ts \<Rightarrow> a_run t (v\<lparr>s_ready := ts\<rparr>))"

text \<open>The current thread leaves the CPU with a status and a place to go on.\<close>

definition a_park :: "ThreadStatus \<Rightarrow> Resume \<Rightarrow> Sched \<Rightarrow> Sched" where
  "a_park st r v = v\<lparr>s_core := (s_core v)(s_cur v \<mapsto> (st, r)), s_cpu := InSleep, s_level := IntOff\<rparr>"

definition a_P :: "nat \<Rightarrow> IntStatus \<Rightarrow> Sched \<Rightarrow> Sched" where
  "a_P i l v = (case s_sem v i of None \<Rightarrow> v | Some (n, q) \<Rightarrow>
     if n = 0 then a_loop (a_park BLOCKED (InP i l) (v\<lparr>s_sem := (s_sem v)(i \<mapsto> (n, q @ [s_cur v]))\<rparr>))
     else v\<lparr>s_sem := (s_sem v)(i \<mapsto> (i32 (n - 1), q)), s_core := (s_core v)(s_cur v \<mapsto> (RUNNING, OnCPU)), s_level := l\<rparr>)"

definition a_V :: "nat \<Rightarrow> Sched \<Rightarrow> Sched" where
  "a_V i v = (case s_sem v i of None \<Rightarrow> v
     | Some (n, []) \<Rightarrow> v\<lparr>s_sem := (s_sem v)(i \<mapsto> (i32 (n + 1), []))\<rparr>
     | Some (n, t # q) \<Rightarrow> v\<lparr>s_sem := (s_sem v)(i \<mapsto> (i32 (n + 1), q)),
         s_core := (s_core v)(t \<mapsto> (READY, snd (the (s_core v t)))), s_ready := s_ready v @ [t]\<rparr>)"

definition a_Yield :: "Sched \<Rightarrow> Sched" where
  "a_Yield v = (if s_ready v = [] then v
     else a_loop ((a_park READY (InYield (s_level v)) v)\<lparr>s_ready := s_ready v @ [s_cur v]\<rparr>))"

section \<open>The code implements the abstract scheduler\<close>

lemma a_park_simps [simp]: "s_ready (a_park st r v) = s_ready v" "s_cur (a_park st r v) = s_cur v" "s_tbd (a_park st r v) = s_tbd v" "s_next (a_park st r v) = s_next v"
  by (simp_all add: a_park_def)

lemma view_simps [simp]:
  "view (s\<lparr>readyList := x1\<rparr>) = (view s)\<lparr>s_ready := x1\<rparr>" "view (s\<lparr>currentThread := x2\<rparr>) = (view s)\<lparr>s_cur := x2\<rparr>"
  "view (s\<lparr>cpu := x3\<rparr>) = (view s)\<lparr>s_cpu := x3\<rparr>" "view (s\<lparr>level := x4\<rparr>) = (view s)\<lparr>s_level := x4\<rparr>"
  "view (s\<lparr>threadToBeDestroyed := x5\<rparr>) = (view s)\<lparr>s_tbd := x5\<rparr>" "view (s\<lparr>machine := x6\<rparr>) = view s"
  "view (s\<lparr>next_thread := x7\<rparr>) = view s" "view (s\<lparr>next_sem := x7\<rparr>) = (view s)\<lparr>s_next := x7\<rparr>"
  "s_ready (view s) = readyList s" "s_cur (view s) = currentThread s" "s_cpu (view s) = cpu s"
  "s_level (view s) = level s" "s_tbd (view s) = threadToBeDestroyed s" "s_next (view s) = next_sem s"
  by (simp_all add: view_def)

lemma view_put_sem [simp]:
  "view (put_sem i se s) = (view s)\<lparr>s_sem := (s_sem (view s))(i \<mapsto> (sem_value se, sem_queue se))\<rparr>"
  by (auto simp: view_def put_sem_def)

lemma view_upd_thread:
  "threads s t = Some th \<Longrightarrow> view (upd_thread t f s) = (view s)\<lparr>s_core := (s_core (view s))(t \<mapsto> core (f th))\<rparr>"
  by (auto simp: view_def upd_thread_def)

lemma view_delete:
  "view (s\<lparr>threads := (threads s)(t := None)\<rparr>) = (view s)\<lparr>s_core := (s_core (view s))(t := None)\<rparr>"
  by (auto simp: view_def)

lemma view_core: "s_core (view s) t = map_option core (threads s t)"
  by (simp add: view_def)

lemma view_sem: "s_sem (view s) i = map_option (\<lambda>se. (sem_value se, sem_queue se)) (sems s i)"
  by (simp add: view_def)

lemma env_ok_simps [simp]:
  "env_ok (s\<lparr>readyList := x1\<rparr>) = env_ok s" "env_ok (s\<lparr>currentThread := x2\<rparr>) = env_ok s"
  "env_ok (s\<lparr>cpu := x3\<rparr>) = env_ok s" "env_ok (s\<lparr>level := x4\<rparr>) = env_ok s"
  "env_ok (s\<lparr>threadToBeDestroyed := x5\<rparr>) = env_ok s"
  by (simp_all add: env_ok_def)

lemma upd_thread_simps [simp]:
  "currentThread (upd_thread t f s) = currentThread s" "readyList (upd_thread t f s) = readyList s"
  "level (upd_thread t f s) = level s" "sems (upd_thread t f s) = sems s" "machine (upd_thread t f s) = machine s"
  "threadToBeDestroyed (upd_thread t f s) = threadToBeDestroyed s" "cpu (upd_thread t f s) = cpu s"
  "threads (upd_thread t f s) = (threads s)(t := map_option f (threads s t))" "next_sem (upd_thread t f s) = next_sem s"
  by (simp_all add: upd_thread_def)

lemma put_sem_simps [simp]:
  "currentThread (put_sem i se s) = currentThread s" "readyList (put_sem i se s) = readyList s"
  "level (put_sem i se s) = level s" "threads (put_sem i se s) = threads s"
  "threadToBeDestroyed (put_sem i se s) = threadToBeDestroyed s"
  "sems (put_sem i se s) = (sems s)(i \<mapsto> se)"
  by (simp_all add: put_sem_def)

lemma overflowed_simps [simp]:
  "overflowed (s\<lparr>readyList := x1\<rparr>) = overflowed s" "overflowed (s\<lparr>cpu := x3\<rparr>) = overflowed s" "overflowed (s\<lparr>level := x4\<rparr>) = overflowed s"
  "overflowed (s\<lparr>threadToBeDestroyed := x5\<rparr>) = overflowed s" "overflowed (put_sem i se s) = overflowed s"
  by (simp_all add: overflowed_def put_sem_def)

lemma overflowed_upd_thread: "(\<And>th. stack (f th) = stack th) \<Longrightarrow> overflowed (upd_thread t f s) = overflowed s"
  by (cases "threads s t") (auto simp: overflowed_def upd_thread_def split: option.splits)

lemma env_ok_thread:
  "env_ok s \<Longrightarrow> threads s t = Some th \<Longrightarrow> t < next_thread s \<and> (space th \<noteq> None \<longrightarrow> machine s \<noteq> None)"
  unfolding env_ok_def by blast

lemma env_ok_upd_thread:
  assumes "env_ok s" and f: "\<And>th. threads s t = Some th \<Longrightarrow> space (f th) \<noteq> None \<Longrightarrow> space th \<noteq> None \<or> machine s \<noteq> None"
  shows "env_ok (upd_thread t f s)"
proof (cases "threads s t")
  case None
  then have "upd_thread t f s = s" by (cases s) (simp add: upd_thread_def fun_upd_idem)
  then show ?thesis using assms(1) by simp
next
  case (Some th)
  have "t < next_thread s \<and> (space (f th) \<noteq> None \<longrightarrow> machine s \<noteq> None)"
    using env_ok_thread[OF assms(1) Some] f[OF Some] by auto
  then show ?thesis using assms(1) Some by (auto simp: env_ok_def upd_thread_def)
qed

lemma env_ok_put_sem: "env_ok s \<Longrightarrow> sems s i \<noteq> None \<Longrightarrow> env_ok (put_sem i se s)"
  by (auto simp: env_ok_def put_sem_def)

lemma env_ok_machine: "env_ok s \<Longrightarrow> env_ok (s\<lparr>machine := Some m\<rparr>)"
  by (auto simp: env_ok_def)

lemma env_ok_delete: "env_ok s \<Longrightarrow> env_ok (s\<lparr>threads := (threads s)(t := None)\<rparr>)"
  by (auto simp: env_ok_def)

lemma core_simps [simp]:
  "core (th\<lparr>tstatus := st\<rparr>) = (st, resume th)" "core (th\<lparr>resume := r\<rparr>) = (tstatus th, r)"
  "core (th\<lparr>space := sp\<rparr>) = core th" "core (SaveUserState m th) = core th"
  by (simp_all add: core_def SaveUserState_def)

lemma a_run_new:
  "s_core v t = Some (st, AtThreadRoot f a) \<Longrightarrow>
    a_run t v = v\<lparr>s_core := (s_core v)(t \<mapsto> (RUNNING, OnCPU)), s_cur := t, s_cpu := Exec, s_level := IntOn\<rparr>"
  by (simp add: a_run_def)

lemma a_run_old:
  assumes "s_core v t = Some (st, r)" and "\<And>f a. r \<noteq> AtThreadRoot f a"
  shows "a_run t v = v\<lparr>s_core := (case s_tbd v of None \<Rightarrow> (s_core v)(t \<mapsto> (RUNNING, r)) | Some d \<Rightarrow> ((s_core v)(t \<mapsto> (RUNNING, r)))(d := None)),
              s_cur := t, s_cpu := Exec, s_tbd := None\<rparr>"
  using assms by (cases r) (auto simp: a_run_def Let_def)

lemma save_old_ok:
  assumes "env_ok s" and "threads s (currentThread s) = Some th"
  shows "\<exists>s1 th1. save_old s = Inr s1 \<and> env_ok s1 \<and> view s1 = view s \<and> sems s1 = sems s \<and> machine s1 = machine s
    \<and> threads s1 (currentThread s) = Some th1 \<and> core th1 = core th \<and> stack th1 = stack th"
proof (cases "space th")
  case None
  then show ?thesis using assms by (simp add: save_old_def get_thread_def)
next
  case (Some sp)
  then obtain m where m: "machine s = Some m" using assms by (fastforce simp: env_ok_def)
  let ?f = "\<lambda>th. (SaveUserState m th)\<lparr>space := Some (AddrSpace_SaveState m sp)\<rparr>"
  let ?s = "upd_thread (currentThread s) ?f s"
  have "env_ok ?s" using assms Some by (intro env_ok_upd_thread) (auto simp: SaveUserState_def)
  moreover have "view ?s = view s" using assms(2) by (subst view_upd_thread) (auto simp: view_core fun_upd_idem)
  ultimately show ?thesis using assms(2) Some m by (simp add: save_old_def get_thread_def SaveUserState_def core_def)
qed

lemma restore_new_ok:
  assumes "env_ok s" and "threads s (currentThread s) \<noteq> None"
  shows "\<exists>s'. restore_new s = Inr s' \<and> env_ok s' \<and> view s' = view s"
proof -
  obtain th where th: "threads s (currentThread s) = Some th" using assms(2) by blast
  show ?thesis
  proof (cases "space th")
    case None
    then show ?thesis using th assms(1) by (simp add: restore_new_def get_thread_def)
  next
    case (Some sp)
    then obtain m where m: "machine s = Some m" using assms th by (fastforce simp: env_ok_def)
    then show ?thesis using th Some assms(1) by (simp add: restore_new_def get_thread_def env_ok_machine)
  qed
qed

lemma reap_ok:
  assumes "env_ok s" and "\<And>d. threadToBeDestroyed s = Some d \<Longrightarrow> threads s d \<noteq> None \<and> d \<noteq> currentThread s"
  shows "\<exists>s'. reap s = Inr s' \<and> env_ok s' \<and> view s' = (view s)\<lparr>s_tbd := None, s_core :=
      (case threadToBeDestroyed s of None \<Rightarrow> s_core (view s) | Some d \<Rightarrow> (s_core (view s))(d := None))\<rparr>
    \<and> currentThread s' = currentThread s
    \<and> (threads s (currentThread s) \<noteq> None \<longrightarrow> threads s' (currentThread s) \<noteq> None)"
proof (cases "threadToBeDestroyed s")
  case None
  then have "(view s)\<lparr>s_tbd := None\<rparr> = view s" by (simp add: view_def)
  with None show ?thesis using assms(1) by (simp add: reap_def)
next
  case (Some d)
  then obtain th where "threads s d = Some th" "d \<noteq> currentThread s" using assms(2) by blast
  with Some show ?thesis using assms(1)
    by (simp add: reap_def Thread_delete_def get_thread_def view_delete env_ok_delete)
qed

text \<open>\<open>Run\<close> stops a thread that has overrun its stack.\<close>

lemma Run_overflow:
  assumes "env_ok s" and "overflowed s"
  shows "Scheduler_Run t r s = Inl AssertFailed"
proof -
  obtain old where cur: "threads s (currentThread s) = Some old" using assms(2) by (auto simp: overflowed_def split: option.splits)
  obtain s1 old1 where "save_old s = Inr s1" "threads s1 (currentThread s) = Some old1" "stack old1 = stack old"
    using save_old_ok[OF assms(1) cur] by blast
  moreover from this have "CheckOverflow old1 = Inl AssertFailed"
    using assms(2) cur by (auto simp: overflowed_def CheckOverflow_def ASSERT_def split: option.splits)
  ultimately show ?thesis by (simp add: Scheduler_Run_def get_thread_def Let_def)
qed

text \<open>\<open>Run\<close> as seen by the scheduler.\<close>

lemma Run_view:
  assumes env: "env_ok s" and cur: "threads s (currentThread s) = Some old" and nxt: "threads s t \<noteq> None"
    and tbd: "\<And>d. threadToBeDestroyed s = Some d \<Longrightarrow> threads s d \<noteq> None \<and> d \<noteq> t"
    and off: "level s = IntOff"
  shows "served (overflowed s) (Scheduler_Run t r s) (\<lambda>s'. env_ok s' \<and> view s' = a_run t (a_park (tstatus old) r (view s)))"
proof (cases "overflowed s")
  case True
  then show ?thesis using Run_overflow[OF env True, of t r] by (simp add: served_def)
next
  case intact: False
  let ?c = "currentThread s"
  obtain s1 old1 where s1: "save_old s = Inr s1" "env_ok s1" "view s1 = view s" "threads s1 ?c = Some old1" "core old1 = core old" "stack old1 = stack old"
    using save_old_ok[OF env cur] by blast
  have fields: "currentThread s1 = ?c" "threadToBeDestroyed s1 = threadToBeDestroyed s" "level s1 = IntOff"
    using arg_cong[OF s1(3), of s_cur] arg_cong[OF s1(3), of s_tbd] arg_cong[OF s1(3), of s_level] off by simp_all
  have dom1: "threads s1 x \<noteq> None \<longleftrightarrow> threads s x \<noteq> None" for x
    using fun_cong[OF arg_cong[OF s1(3), of s_core], of x] by (cases "threads s x"; cases "threads s1 x") (simp_all add: view_core)
  have co: "CheckOverflow old1 = Inr ()" using intact cur s1(6) by (auto simp: overflowed_def CheckOverflow_def)
  define s2 where "s2 = upd_thread ?c (\<lambda>th. th\<lparr>resume := r\<rparr>) s1"
  define s3 where "s3 = upd_thread t (\<lambda>th. th\<lparr>tstatus := RUNNING\<rparr>) (s2\<lparr>currentThread := t, cpu := Exec\<rparr>)"
  have e2: "env_ok s2" unfolding s2_def using s1(2) by (intro env_ok_upd_thread) auto
  have v2: "view s2 = (view s)\<lparr>s_core := (s_core (view s))(?c \<mapsto> (tstatus old, r))\<rparr>"
    unfolding s2_def view_upd_thread[OF s1(4)] s1(3) using s1(5) by (simp add: core_def)
  obtain th2 where th2: "threads s2 t = Some th2" using nxt dom1[of t] s1(4) by (cases "t = currentThread s") (auto simp: s2_def)
  have e3: "env_ok s3" unfolding s3_def using e2 by (intro env_ok_upd_thread) auto
  have "s_core (view s2) t = Some (core th2)" using th2 by (simp add: view_core)
  then have c2: "s_core (a_park (tstatus old) r (view s)) t = Some (core th2)" unfolding v2 by (simp add: a_park_def)
  have v3: "view s3 = (view s2)\<lparr>s_cur := t, s_cpu := Exec, s_core := (s_core (view s2))(t \<mapsto> (RUNNING, resume th2))\<rparr>"
    unfolding s3_def using th2 by (subst view_upd_thread) auto
  have th3: "threads s3 t = Some (th2\<lparr>tstatus := RUNNING\<rparr>)" "currentThread s3 = t" "threadToBeDestroyed s3 = threadToBeDestroyed s"
    using th2 fields by (simp_all add: s3_def s2_def)
  have run: "Scheduler_Run t r s = after_switch s3"
  proof -
    obtain th1 where "threads s1 t = Some th1" using nxt dom1[of t] by blast
    then show ?thesis using s1 co by (simp add: Scheduler_Run_def get_thread_def s2_def s3_def Let_def)
  qed
  show ?thesis
  proof (cases "\<exists>f a. resume th2 = AtThreadRoot f a")
    case True
    let ?s = "(upd_thread t (\<lambda>th. th\<lparr>resume := OnCPU\<rparr>) s3)\<lparr>level := IntOn\<rparr>"
    have "after_switch s3 = Inr ?s" using th3 True by (auto simp: after_switch_def get_thread_def)
    moreover have "env_ok ?s" using e3 by simp (intro env_ok_upd_thread, auto)
    moreover have "view ?s = a_run t (a_park (tstatus old) r (view s))"
      using th3 True c2 by (auto simp: view_upd_thread[OF th3(1)] v3 v2 a_run_new core_def a_park_def)
    ultimately show ?thesis using run by (simp add: served_def)
  next
    case False
    then have sw: "after_switch s3 = bindR (reap s3) restore_new"
      using th3 by (cases "resume th2") (auto simp: after_switch_def get_thread_def)
    have "\<And>d. threadToBeDestroyed s3 = Some d \<Longrightarrow> threads s3 d \<noteq> None \<and> d \<noteq> currentThread s3"
      using tbd th3 dom1 by (auto simp: s3_def s2_def)
    then obtain s4 where s4: "reap s3 = Inr s4" "env_ok s4" "currentThread s4 = t" "threads s4 t \<noteq> None"
      "view s4 = (view s3)\<lparr>s_tbd := None, s_core :=
        (case threadToBeDestroyed s3 of None \<Rightarrow> s_core (view s3) | Some d \<Rightarrow> (s_core (view s3))(d := None))\<rparr>"
      using reap_ok[OF e3] th3 by auto
    obtain s5 where s5: "restore_new s4 = Inr s5" "env_ok s5" "view s5 = view s4"
      using restore_new_ok[OF s4(2)] s4(3,4) by auto
    have "view s5 = a_run t (a_park (tstatus old) r (view s))"
      using c2 False s5(3) off unfolding s4(5) v3 v2 th3(3)
      by (subst a_run_old[of _ _ "tstatus th2" "resume th2"])
        (auto simp: core_def a_park_def view_def th3 split: option.splits)
    then show ?thesis using run sw s4(1) s5 by (simp add: served_def)
  qed
qed

text \<open>The operations.\<close>

definition tbd_ok :: "'k Kernel_scheme \<Rightarrow> bool" where
  "tbd_ok s \<longleftrightarrow> (\<forall>d. threadToBeDestroyed s = Some d \<longrightarrow> threads s d \<noteq> None \<and> d \<notin> set (readyList s))"

lemma sleep_loop_view:
  assumes "env_ok s" and "threads s (currentThread s) = Some th" and "level s = IntOff"
    and "\<And>t. t \<in> set (readyList s) \<Longrightarrow> threads s t \<noteq> None" and "tbd_ok s"
  shows "served (overflowed s) (sleep_loop r s) (\<lambda>s'. env_ok s' \<and> view s' = a_loop (a_park (tstatus th) r (view s)))"
proof (cases "readyList s")
  case Nil
  let ?s = "upd_thread (currentThread s) (\<lambda>th. th\<lparr>resume := r\<rparr>) (s\<lparr>cpu := InSleep\<rparr>)"
  have "env_ok ?s" using assms(1) by (intro env_ok_upd_thread) auto
  moreover have "view ?s = a_loop (a_park (tstatus th) r (view s))"
    using assms(2,3) Nil by (subst view_upd_thread) (auto simp: a_loop_def a_park_def view_def)
  ultimately show ?thesis using Nil by (simp add: sleep_loop_def FindNextToRun_def served_def)
next
  case (Cons t ts)
  let ?s = "s\<lparr>readyList := ts\<rparr>"
  have "served (overflowed ?s) (Scheduler_Run t r ?s) (\<lambda>s'. env_ok s' \<and> view s' = a_run t (a_park (tstatus th) r (view ?s)))"
    using assms Cons by (intro Run_view) (auto simp: tbd_ok_def)
  moreover have "a_park (tstatus th) r (view ?s) = (a_park (tstatus th) r (view s))\<lparr>s_ready := ts\<rparr>"
    by (simp add: a_park_def)
  ultimately show ?thesis using Cons by (simp add: sleep_loop_def FindNextToRun_def a_loop_def)
qed

lemma Sleep_view:
  assumes "env_ok s" and "threads s (currentThread s) \<noteq> None" and "level s = IntOff"
    and "\<And>t. t \<in> set (readyList s) \<Longrightarrow> threads s t \<noteq> None" and "tbd_ok s"
  shows "served (overflowed s) (Thread_Sleep r s) (\<lambda>s'. env_ok s' \<and> view s' = a_loop (a_park BLOCKED r (view s)))"
proof -
  obtain th where th: "threads s (currentThread s) = Some th" using assms(2) by blast
  let ?s = "upd_thread (currentThread s) (\<lambda>th. th\<lparr>tstatus := BLOCKED\<rparr>) s"
  have "env_ok ?s" using assms(1) by (intro env_ok_upd_thread) auto
  then have "served (overflowed ?s) (sleep_loop r ?s) (\<lambda>s'. env_ok s' \<and> view s' = a_loop (a_park (tstatus (th\<lparr>tstatus := BLOCKED\<rparr>)) r (view ?s)))"
    using assms th by (intro sleep_loop_view) (auto simp: tbd_ok_def)
  moreover have "a_park BLOCKED r (view ?s) = a_park BLOCKED r (view s)"
    using th by (simp add: view_upd_thread a_park_def)
  moreover have "overflowed ?s = overflowed s" by (rule overflowed_upd_thread) simp
  ultimately show ?thesis using assms(3) by (simp add: Thread_Sleep_def)
qed

lemma P_loop_view:
  assumes "env_ok s" and "threads s (currentThread s) = Some th" and "tstatus th = RUNNING" and "level s = IntOff"
    and "\<And>t. t \<in> set (readyList s) \<Longrightarrow> threads s t \<noteq> None" and "tbd_ok s" and "sems s i \<noteq> None"
  shows "served (overflowed s) (P_loop i l s) (\<lambda>s'. env_ok s' \<and> view s' = a_P i l (view s))"
proof -
  obtain se where se: "sems s i = Some se" using assms(7) by blast
  show ?thesis
  proof (cases "sem_value se = 0")
    case True
    let ?s = "put_sem i (se\<lparr>sem_queue := sem_queue se @ [currentThread s]\<rparr>) s"
    have "env_ok ?s" using assms(1,7) True by (intro env_ok_put_sem) auto
    then have "served (overflowed ?s) (Thread_Sleep (InP i l) ?s) (\<lambda>s'. env_ok s' \<and> view s' = a_loop (a_park BLOCKED (InP i l) (view ?s)))"
      using assms by (intro Sleep_view) (auto simp: tbd_ok_def)
    then show ?thesis using se True by (simp add: P_loop_def get_sem_def a_P_def view_sem)
  next
    case False
    let ?s1 = "put_sem i (se\<lparr>sem_value := i32 (sem_value se - 1)\<rparr>) s"
    let ?s = "(upd_thread (currentThread s) (\<lambda>th. th\<lparr>resume := OnCPU\<rparr>) ?s1)\<lparr>level := l\<rparr>"
    have "env_ok ?s1" using assms(1,7) by (intro env_ok_put_sem) auto
    then have "env_ok ?s" by simp (intro env_ok_upd_thread, auto)
    moreover have "view ?s = a_P i l (view s)"
      using se False assms(2,3) by (simp add: view_upd_thread[of _ _ th] a_P_def view_sem)
    ultimately show ?thesis using se False by (simp add: P_loop_def get_sem_def served_def)
  qed
qed

lemma V_view:
  assumes "env_ok s" and "sems s i = Some se" and "\<And>t. t \<in> set (sem_queue se) \<Longrightarrow> threads s t \<noteq> None"
  shows "\<exists>s'. Semaphore_V i s = Inr s' \<and> env_ok s' \<and> view s' = a_V i (view s)"
proof -
  have lev: "(view s)\<lparr>s_level := level s\<rparr> = view s" by (simp add: view_def)
  show ?thesis
  proof (cases "sem_queue se")
    case Nil
    let ?s = "put_sem i (se\<lparr>sem_value := i32 (sem_value se + 1)\<rparr>) (s\<lparr>level := IntOff\<rparr>)\<lparr>level := level s\<rparr>"
    have "env_ok ?s" using assms(1,2) by simp (intro env_ok_put_sem, auto)
    then show ?thesis using assms(2) Nil
      by (simp add: Semaphore_V_def get_sem_def a_V_def view_sem Let_def lev)
  next
    case (Cons t ts)
    then obtain th where th: "threads s t = Some th" using assms(3) by force
    let ?s1 = "put_sem i (se\<lparr>sem_queue := ts\<rparr>) (s\<lparr>level := IntOff\<rparr>)"
    let ?s2 = "(upd_thread t (\<lambda>th. th\<lparr>tstatus := READY\<rparr>) ?s1)\<lparr>readyList := readyList s @ [t]\<rparr>"
    let ?s3 = "put_sem i (se\<lparr>sem_queue := ts, sem_value := i32 (sem_value se + 1)\<rparr>) ?s2\<lparr>level := level s\<rparr>"
    have "env_ok ?s1" using assms(1,2) by (intro env_ok_put_sem) auto
    then have "env_ok ?s2" by simp (intro env_ok_upd_thread, auto)
    then have "env_ok ?s3" by simp (intro env_ok_put_sem, auto)
    moreover have "Semaphore_V i s = Inr ?s3" using assms(2) Cons th
      by (simp add: Semaphore_V_def get_sem_def ReadyToRun_def get_thread_def Let_def)
    moreover have "view ?s3 = a_V i (view s)" using assms(2) Cons th
      by (simp add: a_V_def view_sem view_core core_def view_upd_thread[of _ t th])
    ultimately show ?thesis by blast
  qed
qed

text \<open>A \<open>V\<close> leaves the interrupt object and the rest of the kernel alone, and no new thread gets into a queue.\<close>

lemma V_frame:
  assumes "Semaphore_V i s = Inr s'"
  shows "pending s' = pending s \<and> stats s' = stats s \<and> level s' = level s \<and> machine s' = machine s
    \<and> Kernel.more s' = Kernel.more s \<and> dom (threads s') = dom (threads s) \<and> dom (sems s') = dom (sems s)
    \<and> currentThread s' = currentThread s \<and> next_thread s' = next_thread s \<and> next_sem s' = next_sem s
    \<and> (\<forall>t. map_option processID (threads s' t) = map_option processID (threads s t))
    \<and> (\<forall>j se'. sems s' j = Some se' \<longrightarrow> (\<exists>se. sems s j = Some se \<and> set (sem_queue se') \<subseteq> set (sem_queue se)))"
  using assms
  by (auto simp: Semaphore_V_def Let_def bindR_eq_Inr get_sem_def ReadyToRun_def get_thread_def put_sem_def upd_thread_def
      split: option.splits list.splits if_splits)

definition queues_live :: "'k Kernel_scheme \<Rightarrow> bool" where
  "queues_live s \<longleftrightarrow> (\<forall>i se t. sems s i = Some se \<longrightarrow> t \<in> set (sem_queue se) \<longrightarrow> threads s t \<noteq> None)"

text \<open>Where the queues hold live threads only, a \<open>V\<close> succeeds, and they still do.\<close>

lemma V_served:
  assumes "env_ok s" and "queues_live s" and "sems s i \<noteq> None"
  obtains s' where "Semaphore_V i s = Inr s'" "env_ok s'" "queues_live s'"
proof -
  obtain se where se: "sems s i = Some se" using assms(3) by blast
  obtain s' where s': "Semaphore_V i s = Inr s'" "env_ok s'"
    using V_view[OF assms(1) se] assms(2) se unfolding queues_live_def by blast
  note fr = V_frame[OF s'(1)]
  have "queues_live s'"
    unfolding queues_live_def
  proof (intro allI impI)
    fix j se' t assume "sems s' j = Some se'" "t \<in> set (sem_queue se')"
    then obtain se0 where "sems s j = Some se0" "t \<in> set (sem_queue se0)" using fr by blast
    then have "t \<in> dom (threads s)" using assms(2) by (auto simp: queues_live_def)
    then show "threads s' t \<noteq> None" using fr by blast
  qed
  then show thesis using that s' by blast
qed

text \<open>A \<open>P\<close> that finds the value not zero only takes one from it.\<close>

lemma P_takes:
  assumes "executing s" and "sems s i = Some se" and "sem_value se \<noteq> 0"
  shows "Semaphore_P i s = Inr (put_sem i (se\<lparr>sem_value := i32 (sem_value se - 1)\<rparr>) s)"
proof -
  obtain th where th: "threads s (currentThread s) = Some th" "resume th = OnCPU" using assms(1) by (auto simp: executing_def resume_of_def)
  then have "map_option (\<lambda>th. th\<lparr>resume := OnCPU\<rparr>) (threads s (currentThread s)) = threads s (currentThread s)" by simp
  then show ?thesis using assms(2,3)
    by (simp add: Semaphore_P_def P_loop_def get_sem_def put_sem_def upd_thread_def fun_upd_idem)
qed

lemma Yield_view:
  assumes "env_ok s" and "threads s (currentThread s) \<noteq> None" and "tbd_ok s"
    and "\<And>t. t \<in> set (readyList s) \<Longrightarrow> threads s t \<noteq> None" and "threadToBeDestroyed s \<noteq> Some (currentThread s)"
  shows "served (overflowed s) (Thread_Yield s) (\<lambda>s'. env_ok s' \<and> view s' = a_Yield (view s))"
proof (cases "readyList s")
  case Nil
  then show ?thesis using assms(1)
    by (simp add: Thread_Yield_def FindNextToRun_def Let_def a_Yield_def served_def)
next
  case (Cons t ts)
  obtain th where th: "threads s (currentThread s) = Some th" using assms(2) by blast
  let ?s = "(upd_thread (currentThread s) (\<lambda>th. th\<lparr>tstatus := READY\<rparr>) (s\<lparr>level := IntOff, readyList := ts\<rparr>))\<lparr>readyList := ts @ [currentThread s]\<rparr>"
  have "env_ok ?s" using assms(1) by simp (intro env_ok_upd_thread, auto)
  then have "served (overflowed ?s) (Scheduler_Run t (InYield (level s)) ?s) (\<lambda>s'. env_ok s'
      \<and> view s' = a_run t (a_park (tstatus (th\<lparr>tstatus := READY\<rparr>)) (InYield (level s)) (view ?s)))"
    using assms th Cons by (intro Run_view) (auto simp: tbd_ok_def)
  moreover have "a_park (tstatus (th\<lparr>tstatus := READY\<rparr>)) (InYield (level s)) (view ?s)
      = (a_park READY (InYield (level s)) (view s))\<lparr>s_ready := ts @ [currentThread s]\<rparr>"
    using th by (simp add: view_upd_thread[of _ _ th] a_park_def)
  moreover have "overflowed ?s = overflowed s" by (simp add: overflowed_upd_thread)
  ultimately show ?thesis using th Cons
    by (simp add: Thread_Yield_def FindNextToRun_def ReadyToRun_def get_thread_def Let_def a_Yield_def a_loop_def)
qed

section \<open>The abstract scheduler keeps the invariant\<close>

lemma woken_core: "t \<in> woken v i \<longleftrightarrow> (\<exists>st l. s_core v t = Some (st, InP i l) \<and> st \<noteq> BLOCKED)"
  by (simp add: woken_def)

lemma woken_finite: "finite (dom (s_core v)) \<Longrightarrow> finite (woken v i)"
  by (rule finite_subset[of _ "dom (s_core v)"]) (auto simp: woken_def)

lemma wakeups_okI:
  assumes "finite (dom (s_core v'))" and "wakeups_ok v"
    and "\<And>i n' q'. s_sem v' i = Some (n', q') \<Longrightarrow> is_int n'"
    and "\<And>i n' q'. s_sem v' i = Some (n', q') \<Longrightarrow> q' \<noteq> [] \<Longrightarrow>
      n' = 0 \<or> (\<exists>n q. s_sem v i = Some (n, q) \<and> q \<noteq> [] \<and> n' mod 2 ^ 32 - n mod 2 ^ 32 \<le> int (card (woken v' i)) - int (card (woken v i)))"
  shows "wakeups_ok v'"
  unfolding wakeups_ok_def
proof (intro conjI allI impI)
  fix i n' q' assume a: "s_sem v' i = Some (n', q')" "q' \<noteq> []"
  from assms(4)[OF a] show "n' mod 2 ^ 32 \<le> int (card (woken v' i))"
  proof
    assume "\<exists>n q. s_sem v i = Some (n, q) \<and> q \<noteq> [] \<and> n' mod 2 ^ 32 - n mod 2 ^ 32 \<le> int (card (woken v' i)) - int (card (woken v i))"
    then obtain n q where n: "s_sem v i = Some (n, q)" "q \<noteq> []" "n' mod 2 ^ 32 - n mod 2 ^ 32 \<le> int (card (woken v' i)) - int (card (woken v i))" by blast
    have "n mod 2 ^ 32 \<le> int (card (woken v i))" using assms(2) n(1,2) unfolding wakeups_ok_def by blast
    with n(3) show ?thesis by linarith
  qed simp
qed (use assms(1,3) in auto)

text \<open>How the unsigned value moves.\<close>

lemma value_up: "i32 (n + 1) mod 2 ^ 32 \<le> n mod 2 ^ 32 + 1"
  unfolding i32_mod by (rule mod_step(1)) simp

lemma value_down: "is_int n \<Longrightarrow> n \<noteq> 0 \<Longrightarrow> i32 (n - 1) mod 2 ^ 32 = n mod 2 ^ 32 - 1"
  unfolding i32_mod by (rule mod_step(2)) (simp, simp only: is_int_mod_0 not_False_eq_True)

lemma wakeups_same:
  "wakeups_ok v \<Longrightarrow> finite (dom (s_core v')) \<Longrightarrow> s_sem v' = s_sem v \<Longrightarrow> (\<And>i. woken v' i = woken v i) \<Longrightarrow> wakeups_ok v'"
  by (simp add: wakeups_ok_def)

lemma queue_iff: "vinv v \<Longrightarrow> s_sem v i = Some (n, q) \<Longrightarrow> t \<in> set q \<longleftrightarrow> (\<exists>l. s_core v t = Some (BLOCKED, InP i l))"
  by (simp add: vinv_def places_ok_def)

lemma queue_distinct: "vinv v \<Longrightarrow> s_sem v i = Some (n, q) \<Longrightarrow> distinct q"
  by (simp add: vinv_def places_ok_def)

lemma fits_core: "vinv v \<Longrightarrow> s_core v t = Some (st, r) \<Longrightarrow> fits (s_next v) st r"
  by (simp add: vinv_def resume_ok_def)

lemma sem_below: "vinv v \<Longrightarrow> s_sem v i = Some (n, q) \<Longrightarrow> i < s_next v"
  by (auto simp: vinv_def resume_ok_def)

lemma sem_is_int: "vinv v \<Longrightarrow> s_sem v i = Some (n, q) \<Longrightarrow> is_int n"
  by (auto simp: vinv_def wakeups_ok_def)

lemma vinv_wakeups: "vinv v \<Longrightarrow> wakeups_ok v" "vinv v \<Longrightarrow> finite (dom (s_core v))"
  by (simp_all add: vinv_def wakeups_ok_def)

text \<open>Dispatching from the scheduler.\<close>

lemma a_run_inv:
  assumes "vinv v" and "s_cpu v = InSleep" and "s_ready v = t # ts"
  shows "vinv (a_run t (v\<lparr>s_ready := ts\<rparr>))"
proof -
  obtain r where r: "s_core v t = Some (READY, r)"
    using assms by (fastforce simp: vinv_def places_ok_def)
  have fin: "finite (dom (s_core v))" using assms(1) by (simp add: vinv_def wakeups_ok_def)
  have norun: "s_core v x \<noteq> Some (RUNNING, y)" for x y using assms(1,2) by (auto simp: vinv_def places_ok_def)
  show ?thesis
  proof (cases "\<exists>f a. r = AtThreadRoot f a")
    case True
    then obtain f a where ra: "r = AtThreadRoot f a" by blast
    let ?v = "v\<lparr>s_ready := ts, s_core := (s_core v)(t \<mapsto> (RUNNING, OnCPU)), s_cur := t, s_cpu := Exec, s_level := IntOn\<rparr>"
    have eq: "a_run t (v\<lparr>s_ready := ts\<rparr>) = ?v" using r ra by (simp add: a_run_new)
    have "places_ok ?v" using assms r norun unfolding vinv_def places_ok_def by auto
    moreover have "resume_ok ?v" using assms r unfolding vinv_def resume_ok_def by auto
    moreover have "wakeups_ok ?v"
      by (rule wakeups_same[of v]) (use assms(1) fin r ra in \<open>auto simp: vinv_def woken_def\<close>)
    ultimately show ?thesis unfolding eq vinv_def by blast
  next
    case False
    define c where "c = (case s_tbd v of None \<Rightarrow> (s_core v)(t \<mapsto> (RUNNING, r)) | Some d \<Rightarrow> ((s_core v)(t \<mapsto> (RUNNING, r)))(d := None))"
    let ?v = "v\<lparr>s_ready := ts, s_core := c, s_cur := t, s_cpu := Exec, s_tbd := None\<rparr>"
    have eq: "a_run t (v\<lparr>s_ready := ts\<rparr>) = ?v" using r False by (cases "s_tbd v") (simp_all add: a_run_old c_def)
    have tbd: "s_tbd v = Some d \<Longrightarrow> s_core v d = Some (BLOCKED, InFinish)" for d
      using assms(1) by (simp add: vinv_def resume_ok_def)
    have c: "c x = (if x = t then Some (RUNNING, r) else if s_tbd v = Some x then None else s_core v x)" for x
      using tbd r by (auto simp: c_def split: option.splits)
    have lev: "s_level v = IntOff" using assms by (simp add: vinv_def resume_ok_def)
    have "places_ok ?v" using assms r norun tbd unfolding vinv_def places_ok_def by (auto simp: c)
    moreover have "resume_ok ?v" using assms r lev False unfolding vinv_def resume_ok_def
      by (auto simp: c) (metis ThreadStatus.distinct fits.simps Resume.exhaust)
    moreover have "wakeups_ok ?v"
    proof (rule wakeups_same[of v])
      have "dom c \<subseteq> insert t (dom (s_core v))" by (auto simp: c split: if_splits)
      then show "finite (dom (s_core ?v))" using fin by (simp add: finite_subset)
      show "woken ?v i = woken v i" for i using r tbd by (auto simp: woken_def c)
    qed (use assms(1) in \<open>auto simp: vinv_def\<close>)
    ultimately show ?thesis unfolding eq vinv_def by blast
  qed
qed

lemma a_loop_inv: "vinv v \<Longrightarrow> s_cpu v = InSleep \<Longrightarrow> vinv (a_loop v)"
  by (cases "s_ready v") (auto simp: a_loop_def intro: a_run_inv)


lemma vinv_cur:
  assumes "vinv v" and "s_cpu v = Exec"
  obtains r where "s_core v (s_cur v) = Some (RUNNING, r)" "s_cur v \<notin> set (s_ready v)"
    "\<And>i n q. s_sem v i = Some (n, q) \<Longrightarrow> s_cur v \<notin> set q" "s_tbd v \<noteq> Some (s_cur v)"
proof -
  obtain r where r: "s_core v (s_cur v) = Some (RUNNING, r)" using assms by (auto simp: vinv_def places_ok_def)
  show ?thesis using assms r by (intro that[of r]) (auto simp: vinv_def places_ok_def resume_ok_def)
qed

text \<open>The current thread leaves the CPU.\<close>

lemma park_P_inv:
  assumes "vinv v" and "s_cpu v = Exec" and "s_sem v i = Some (0, q)"
    and "snd (the (s_core v (s_cur v))) \<in> {OnCPU, InP i l'}"
  shows "vinv (a_park BLOCKED (InP i l) (v\<lparr>s_sem := (s_sem v)(i \<mapsto> (0, q @ [s_cur v]))\<rparr>))" (is "vinv ?v")
proof -
  obtain r where r: "s_core v (s_cur v) = Some (RUNNING, r)" "s_cur v \<notin> set (s_ready v)"
    "\<And>i n q. s_sem v i = Some (n, q) \<Longrightarrow> s_cur v \<notin> set q" "s_tbd v \<noteq> Some (s_cur v)"
    by (rule vinv_cur[OF assms(1,2)]) blast
  have rr: "r = OnCPU \<or> (r = InP i l')" using assms(4) r(1) by auto
  have fin: "finite (dom (s_core v))" using assms(1) by (simp add: vinv_def wakeups_ok_def)
  have "places_ok ?v" using assms(1-3) r unfolding vinv_def places_ok_def a_park_def by auto
  moreover have "i < s_next v" using sem_below[OF assms(1,3)] .
  then have "resume_ok ?v" using assms(1-3) r unfolding vinv_def resume_ok_def a_park_def by auto
  moreover have "wakeups_ok ?v"
  proof (rule wakeups_okI[of _ v])
    fix j n' q' assume a: "s_sem ?v j = Some (n', q')" "q' \<noteq> []"
    show "n' = 0 \<or> (\<exists>n q. s_sem v j = Some (n, q) \<and> q \<noteq> [] \<and> n' mod 2 ^ 32 - n mod 2 ^ 32 \<le> int (card (woken ?v j)) - int (card (woken v j)))"
    proof (cases "j = i")
      case False
      then have "woken ?v j = woken v j" using r rr by (auto simp: woken_def a_park_def)
      with False a show ?thesis by (simp add: a_park_def)
    qed (use a in \<open>simp add: a_park_def\<close>)
  next
    show "is_int n'" if "s_sem ?v j = Some (n', q')" for j n' q'
      using that sem_is_int[OF assms(1)] by (auto simp: a_park_def is_int_def split: if_splits)
  qed (use assms(1) fin in \<open>auto simp: vinv_def a_park_def\<close>)
  ultimately show ?thesis by (simp add: vinv_def)
qed

lemma park_Yield_inv:
  assumes "vinv v" and "s_cpu v = Exec" and "s_core v (s_cur v) = Some (RUNNING, OnCPU)"
  shows "vinv ((a_park READY (InYield l) v)\<lparr>s_ready := s_ready v @ [s_cur v]\<rparr>)" (is "vinv ?v")
proof -
  obtain r where r: "s_cur v \<notin> set (s_ready v)"
    "\<And>i n q. s_sem v i = Some (n, q) \<Longrightarrow> s_cur v \<notin> set q" "s_tbd v \<noteq> Some (s_cur v)"
    by (rule vinv_cur[OF assms(1,2)]) blast
  have fin: "finite (dom (s_core v))" using assms(1) by (simp add: vinv_def wakeups_ok_def)
  have "places_ok ?v" using assms r unfolding vinv_def places_ok_def a_park_def by auto
  moreover have "resume_ok ?v" using assms r unfolding vinv_def resume_ok_def a_park_def by auto
  moreover have "wakeups_ok ?v"
    by (rule wakeups_same[of v]) (use assms fin in \<open>auto simp: vinv_def a_park_def woken_def\<close>)
  ultimately show ?thesis by (simp add: vinv_def)
qed

lemma park_Finish_inv:
  assumes "vinv v" and "s_cpu v = Exec" and "s_core v (s_cur v) = Some (RUNNING, OnCPU)"
  shows "vinv (a_park BLOCKED InFinish (v\<lparr>s_tbd := Some (s_cur v)\<rparr>))" (is "vinv ?v")
proof -
  obtain r where r: "s_cur v \<notin> set (s_ready v)"
    "\<And>i n q. s_sem v i = Some (n, q) \<Longrightarrow> s_cur v \<notin> set q"
    by (rule vinv_cur[OF assms(1,2)]) blast
  have fin: "finite (dom (s_core v))" using assms(1) by (simp add: vinv_def wakeups_ok_def)
  have "places_ok ?v" using assms r unfolding vinv_def places_ok_def a_park_def by auto
  moreover have "resume_ok ?v" using assms r unfolding vinv_def resume_ok_def a_park_def by auto
  moreover have "wakeups_ok ?v"
    by (rule wakeups_same[of v]) (use assms fin in \<open>auto simp: vinv_def a_park_def woken_def\<close>)
  ultimately show ?thesis by (simp add: vinv_def)
qed

text \<open>Semaphores.\<close>

lemma a_P_inv:
  assumes "vinv v" and "s_cpu v = Exec" and "s_sem v i \<noteq> None"
    and "snd (the (s_core v (s_cur v))) \<in> {OnCPU, InP i l'}"
  shows "vinv (a_P i l v)"
proof -
  obtain n q where sem: "s_sem v i = Some (n, q)" using assms(3) by auto
  show ?thesis
  proof (cases "n = 0")
    case True
    then show ?thesis using sem a_loop_inv[OF park_P_inv[OF assms(1,2) _ assms(4), of q l]]
      by (simp add: a_P_def a_park_def)
  next
    case False
    obtain r where r: "s_core v (s_cur v) = Some (RUNNING, r)" "s_cur v \<notin> set (s_ready v)"
      "\<And>i n q. s_sem v i = Some (n, q) \<Longrightarrow> s_cur v \<notin> set q" "s_tbd v \<noteq> Some (s_cur v)"
      by (rule vinv_cur[OF assms(1,2)]) blast
    have rr: "r = OnCPU \<or> r = InP i l'" using assms(4) r(1) by auto
    have fin: "finite (dom (s_core v))" using assms(1) by (simp add: vinv_def wakeups_ok_def)
    let ?v = "v\<lparr>s_sem := (s_sem v)(i \<mapsto> (i32 (n - 1), q)), s_core := (s_core v)(s_cur v \<mapsto> (RUNNING, OnCPU)), s_level := l\<rparr>"
    have "places_ok ?v" using assms(1-3) r sem unfolding vinv_def places_ok_def by auto
    moreover have "i < s_next v" using sem_below[OF assms(1) sem] .
    then have "resume_ok ?v" using assms(1-3) r sem unfolding vinv_def resume_ok_def by auto
    moreover have "wakeups_ok ?v"
    proof (rule wakeups_okI[of _ v])
      fix j n' q' assume a: "s_sem ?v j = Some (n', q')" "q' \<noteq> []"
      have w: "woken ?v j = (if j = i \<and> r \<noteq> OnCPU then woken v j - {s_cur v} else woken v j)"
        using r(1) rr by (auto simp: woken_def)
      note dn = value_down[OF sem_is_int[OF assms(1) sem] False]
      show "n' = 0 \<or> (\<exists>n q. s_sem v j = Some (n, q) \<and> q \<noteq> [] \<and> n' mod 2 ^ 32 - n mod 2 ^ 32 \<le> int (card (woken ?v j)) - int (card (woken v j)))"
      proof (cases "j = i \<and> r \<noteq> OnCPU")
        case True
        have "card (woken v i) \<le> Suc (card (woken v i - {s_cur v}))" 
          using card_Suc_Diff1[OF woken_finite[OF fin], of "s_cur v" i] by (cases "s_cur v \<in> woken v i") simp_all
        moreover have "n' = i32 (n - 1)" "q' = q" using a True by auto
        ultimately show ?thesis using a(2) w True sem dn by auto
      next
        case F: False
        show ?thesis
        proof (cases "j = i")
          case True
          then have "n' = i32 (n - 1)" "q' = q" using a by auto
          then show ?thesis using a(2) w F sem dn True by auto
        qed (use a w in auto)
      qed
    next
      show "is_int n'" if "s_sem ?v j = Some (n', q')" for j n' q'
        using that sem_is_int[OF assms(1)] by (auto split: if_splits)
    qed (use assms(1) fin in \<open>auto simp: vinv_def\<close>)
    ultimately show ?thesis using sem False by (simp add: vinv_def a_P_def)
  qed
qed

lemma a_V_inv:
  assumes "vinv v" and "s_sem v i = Some (n, q)"
  shows "vinv (a_V i v)"
proof (cases q)
  case Nil
  let ?v = "v\<lparr>s_sem := (s_sem v)(i \<mapsto> (i32 (n + 1), []))\<rparr>"
  have "\<And>t l. s_core v t \<noteq> Some (BLOCKED, InP i l)" using queue_iff[OF assms] Nil by auto
  then have "places_ok ?v" using assms Nil unfolding vinv_def places_ok_def by auto
  moreover have "i < s_next v" using sem_below[OF assms] .
  then have "resume_ok ?v" using assms Nil unfolding vinv_def resume_ok_def by auto
  moreover have "wakeups_ok ?v" using assms Nil unfolding vinv_def wakeups_ok_def woken_def by auto
  ultimately show ?thesis using assms Nil by (simp add: vinv_def a_V_def)
next
  case (Cons t ts)
  obtain l where t: "s_core v t = Some (BLOCKED, InP i l)" using queue_iff[OF assms, of t] Cons by auto
  have only: "t \<in> set q' \<Longrightarrow> s_sem v j = Some (n', q') \<Longrightarrow> j = i" for j n' q'
    using assms(1) t by (auto simp: vinv_def places_ok_def)
  have dis: "distinct (t # ts)" using queue_distinct[OF assms] Cons by simp
  have qi: "x \<in> set (t # ts) \<longleftrightarrow> (\<exists>l. s_core v x = Some (BLOCKED, InP i l))" for x
    using queue_iff[OF assms] Cons by blast
  have nr: "t \<notin> set (s_ready v)" using assms(1) t by (auto simp: vinv_def places_ok_def)
  have fin: "finite (dom (s_core v))" using assms(1) by (simp add: vinv_def wakeups_ok_def)
  let ?v = "v\<lparr>s_sem := (s_sem v)(i \<mapsto> (i32 (n + 1), ts)), s_core := (s_core v)(t \<mapsto> (READY, InP i l)), s_ready := s_ready v @ [t]\<rparr>"
  have "x \<in> set ts \<longleftrightarrow> x \<noteq> t \<and> (\<exists>l. s_core v x = Some (BLOCKED, InP i l))" for x using qi[of x] dis by auto
  then have "places_ok ?v" using assms t nr dis unfolding vinv_def places_ok_def by auto
  moreover have "i < s_next v" using sem_below[OF assms] .
  then have "resume_ok ?v" using assms t unfolding vinv_def resume_ok_def by auto
  moreover have "wakeups_ok ?v"
  proof (rule wakeups_okI[of _ v])
    fix j n' q' assume a: "s_sem ?v j = Some (n', q')" "q' \<noteq> []"
    have w: "woken ?v j = (if j = i then insert t (woken v j) else woken v j)" using t by (auto simp: woken_def)
    have "t \<notin> woken v i" using t by (simp add: woken_def)
    moreover have "woken ?v i = insert t (woken v i)" using t by (auto simp: woken_def)
    ultimately have c: "int (card (woken ?v i)) = int (card (woken v i)) + 1" using woken_finite[OF fin, of i] by simp
    show "n' = 0 \<or> (\<exists>n q. s_sem v j = Some (n, q) \<and> q \<noteq> [] \<and> n' mod 2 ^ 32 - n mod 2 ^ 32 \<le> int (card (woken ?v j)) - int (card (woken v j)))"
    proof (cases "j = i")
      case True
      then have "n' = i32 (n + 1)" using a by auto
      then show ?thesis using True assms(2) Cons c value_up[of n] by auto
    qed (use a w in auto)
  next
    show "is_int n'" if "s_sem ?v j = Some (n', q')" for j n' q'
      using that sem_is_int[OF assms(1)] by (auto split: if_splits)
  qed (use assms(1) fin in \<open>auto simp: vinv_def\<close>)
  ultimately show ?thesis using assms(2) Cons t by (simp add: vinv_def a_V_def)
qed


lemma a_new_inv:
  assumes "vinv v" and "s_core v t = None"
  shows "vinv (v\<lparr>s_core := (s_core v)(t \<mapsto> (JUST_CREATED, NoStack))\<rparr>)" (is "vinv ?v")
proof -
  have "places_ok ?v" using assms unfolding vinv_def places_ok_def by auto
  moreover have "resume_ok ?v" using assms unfolding vinv_def resume_ok_def by auto
  moreover have "wakeups_ok ?v"
    by (rule wakeups_same[of v]) (use assms in \<open>auto simp: vinv_def woken_def wakeups_ok_def\<close>)
  ultimately show ?thesis by (simp add: vinv_def)
qed

lemma a_fork_inv:
  assumes "vinv v" and "s_core v t = Some (JUST_CREATED, r)"
  shows "vinv (v\<lparr>s_core := (s_core v)(t \<mapsto> (READY, AtThreadRoot f a)), s_ready := s_ready v @ [t]\<rparr>)" (is "vinv ?v")
proof -
  have "t \<notin> set (s_ready v)" using assms by (auto simp: vinv_def places_ok_def)
  then have "places_ok ?v" using assms unfolding vinv_def places_ok_def by auto
  moreover have "resume_ok ?v" using assms unfolding vinv_def resume_ok_def by auto
  moreover have "\<And>i l. r \<noteq> InP i l" using fits_core[OF assms] by auto
  then have "\<And>i l st. s_core v t \<noteq> Some (st, InP i l)" using assms(2) by simp
  then have w: "woken ?v i = woken v i" for i unfolding woken_def by (intro Collect_cong) auto
  have "wakeups_ok ?v"
    by (rule wakeups_same[OF vinv_wakeups(1)[OF assms(1)] _ _ w]) (simp_all add: vinv_wakeups(2)[OF assms(1)])
  ultimately show ?thesis by (simp add: vinv_def)
qed

lemma a_return_inv:
  assumes "vinv v" and "s_cpu v = Exec" and "s_core v (s_cur v) = Some (RUNNING, InYield l')"
  shows "vinv (v\<lparr>s_core := (s_core v)(s_cur v \<mapsto> (RUNNING, OnCPU)), s_level := l\<rparr>)" (is "vinv ?v")
proof -
  have "places_ok ?v" using assms unfolding vinv_def places_ok_def by auto
  moreover have "resume_ok ?v" using assms unfolding vinv_def resume_ok_def by auto
  moreover have "wakeups_ok ?v"
    by (rule wakeups_same[of v]) (use assms in \<open>auto simp: vinv_def woken_def wakeups_ok_def\<close>)
  ultimately show ?thesis by (simp add: vinv_def)
qed

lemma a_sem_inv:
  assumes "vinv v" and "is_int n"
  shows "vinv (v\<lparr>s_sem := (s_sem v)(s_next v \<mapsto> (n, [])), s_next := Suc (s_next v)\<rparr>)" (is "vinv ?v")
proof -
  have none: "s_core v t \<noteq> Some (st, InP (s_next v) l)" for t st l using fits_core[OF assms(1), of t st "InP (s_next v) l"] by auto
  have mono: "fits k st r \<Longrightarrow> fits (Suc k) st r" for k st r by (cases r) auto
  have "places_ok ?v" using assms none unfolding vinv_def places_ok_def by auto
  moreover have "resume_ok ?v" using assms mono unfolding vinv_def resume_ok_def by (auto simp: less_Suc_eq)
  moreover have "wakeups_ok ?v" using assms unfolding vinv_def wakeups_ok_def woken_def by auto
  ultimately show ?thesis by (simp add: vinv_def)
qed

lemma a_delete_inv:
  assumes "vinv v"
  shows "vinv (v\<lparr>s_sem := (s_sem v)(i := None)\<rparr>)" (is "vinv ?v")
proof -
  have "places_ok ?v" using assms unfolding vinv_def places_ok_def by auto
  moreover have "resume_ok ?v" using assms unfolding vinv_def resume_ok_def by auto
  moreover have "wakeups_ok ?v" using assms unfolding vinv_def wakeups_ok_def woken_def by auto
  ultimately show ?thesis by (simp add: vinv_def)
qed

section \<open>Every operation returns and keeps the invariant\<close>

lemma kinvD:
  assumes "kinv s"
  shows "env_ok s" "vinv (view s)" "threads s (currentThread s) \<noteq> None" "tbd_ok s"
    "\<And>t. t \<in> set (readyList s) \<Longrightarrow> threads s t \<noteq> None"
    "\<And>i se t. sems s i = Some se \<Longrightarrow> t \<in> set (sem_queue se) \<Longrightarrow> threads s t \<noteq> None"
proof -
  have v: "env_ok s" "vinv (view s)" using assms by (simp_all add: kinv_def)
  then show "env_ok s" "vinv (view s)" by auto
  from v(2) show "threads s (currentThread s) \<noteq> None" by (auto simp: vinv_def places_ok_def view_core)
  have rdy: "t \<in> set (readyList s) \<Longrightarrow> \<exists>r. s_core (view s) t = Some (READY, r)" for t
    using v(2) by (auto simp: vinv_def places_ok_def)
  then show "t \<in> set (readyList s) \<Longrightarrow> threads s t \<noteq> None" for t by (fastforce simp: view_core)
  have "threadToBeDestroyed s = Some d \<Longrightarrow> s_core (view s) d = Some (BLOCKED, InFinish)" for d
    using v(2) by (auto simp: vinv_def resume_ok_def)
  with rdy show "tbd_ok s" unfolding tbd_ok_def by (fastforce simp: view_core)
  show "threads s t \<noteq> None" if "sems s i = Some se" "t \<in> set (sem_queue se)" for i se t
    using queue_iff[OF v(2), of i "sem_value se" "sem_queue se" t] that by (auto simp: view_sem view_core)
qed

lemma kinv_exec:
  assumes "kinv s" and "cpu s = Exec" and "resume_of s (currentThread s) = Some r"
  shows "s_core (view s) (currentThread s) = Some (RUNNING, r)" "\<exists>th. threads s (currentThread s) = Some th \<and> tstatus th = RUNNING \<and> resume th = r"
    "threadToBeDestroyed s \<noteq> Some (currentThread s)" "r \<noteq> OnCPU \<Longrightarrow> level s = IntOff"
proof -
  obtain r' where r': "s_core (view s) (currentThread s) = Some (RUNNING, r')" "threadToBeDestroyed s \<noteq> Some (currentThread s)"
    by (rule vinv_cur[OF kinvD(2)[OF assms(1)]]) (auto simp: assms(2))
  then have "r' = r" using assms(3) by (auto simp: view_core core_def resume_of_def)
  with r' show g: "s_core (view s) (currentThread s) = Some (RUNNING, r)" "threadToBeDestroyed s \<noteq> Some (currentThread s)" by auto
  from g(1) show "\<exists>th. threads s (currentThread s) = Some th \<and> tstatus th = RUNNING \<and> resume th = r"
    by (auto simp: view_core core_def)
  show "r \<noteq> OnCPU \<Longrightarrow> level s = IntOff" using kinvD(2)[OF assms(1)] g(1) assms(2) by (auto simp: vinv_def resume_ok_def)
qed

lemmas executing_exec = kinv_exec[of _ OnCPU, OF _ executing_def[THEN iffD1, THEN conjunct1] executing_def[THEN iffD1, THEN conjunct2]]

lemma P_loop_ok:
  assumes "kinv s" and "cpu s = Exec" and "resume_of s (currentThread s) = Some r" and "r \<in> {OnCPU, InP i l'}" and "sems s i \<noteq> None"
  shows "served (overflowed s) (P_loop i l (s\<lparr>level := IntOff\<rparr>)) (\<lambda>s'. kinv s' \<and> view s' = a_P i l ((view s)\<lparr>s_level := IntOff\<rparr>))"
proof -
  obtain th where th: "threads s (currentThread s) = Some th" "tstatus th = RUNNING" using kinv_exec(2)[OF assms(1-3)] by blast
  let ?s = "s\<lparr>level := IntOff\<rparr>"
  have "vinv (view ?s)" using kinvD(2)[OF assms(1)] by (auto simp: vinv_def places_ok_def resume_ok_def wakeups_ok_def woken_def)
  then have "vinv (a_P i l (view ?s))"
    using kinv_exec(1)[OF assms(1-3)] assms(2,4,5) by (intro a_P_inv[of _ _ l']) (auto simp: view_sem)
  moreover have "served (overflowed ?s) (P_loop i l ?s) (\<lambda>s'. env_ok s' \<and> view s' = a_P i l (view ?s))"
    using kinvD[OF assms(1)] th assms(5) by (intro P_loop_view[of ?s th]) (auto simp: tbd_ok_def)
  ultimately show ?thesis by (auto simp: kinv_def elim: served_mono)
qed

lemma P_ok:
  assumes "kinv s" and "executing s" and "sems s i \<noteq> None"
  shows "served (overflowed s) (Semaphore_P i s) (\<lambda>s'. kinv s' \<and> view s' = a_P i (level s) ((view s)\<lparr>s_level := IntOff\<rparr>))"
  using P_loop_ok[OF assms(1), of OnCPU] assms(2,3) by (simp add: Semaphore_P_def executing_def)

lemma P_again_ok:
  assumes "kinv s" and "cpu s = Exec" and "resume_of s (currentThread s) = Some (InP i l)" and "sems s i \<noteq> None"
  shows "served (overflowed s) (P_loop i l s) (\<lambda>s'. kinv s' \<and> view s' = a_P i l (view s))"
proof -
  have "s\<lparr>level := IntOff\<rparr> = s" using kinv_exec(4)[OF assms(1-3)] by simp
  then show ?thesis using P_loop_ok[OF assms(1-3), of i l l] assms(4) by (auto simp flip: view_simps(4))
qed

lemma V_ok:
  assumes "kinv s" and "sems s i \<noteq> None"
  shows "\<exists>s'. Semaphore_V i s = Inr s' \<and> kinv s' \<and> view s' = a_V i (view s)"
proof -
  obtain se where se: "sems s i = Some se" using assms(2) by blast
  have "vinv (a_V i (view s))" using se by (intro a_V_inv[OF kinvD(2)[OF assms(1)]]) (simp add: view_sem)
  then show ?thesis using V_view[OF kinvD(1)[OF assms(1)] se kinvD(6)[OF assms(1) se]] by (auto simp: kinv_def)
qed

lemma Yield_ok:
  assumes "kinv s" and "executing s"
  shows "served (overflowed s) (Thread_Yield s) (\<lambda>s'. kinv s' \<and> view s' = a_Yield (view s))"
proof -
  note ex = executing_exec[OF assms(1) assms(2) assms(2)]
  have "cpu s = Exec" using assms(2) by (simp add: executing_def)
  then have "vinv (a_Yield (view s))"
    using park_Yield_inv[OF kinvD(2)[OF assms(1)], of "level s"] ex(1) kinvD(2)[OF assms(1)]
    by (auto simp: a_Yield_def a_park_def intro: a_loop_inv)
  moreover have "served (overflowed s) (Thread_Yield s) (\<lambda>s'. env_ok s' \<and> view s' = a_Yield (view s))"
    using kinvD[OF assms(1)] ex(3) by (intro Yield_view) auto
  ultimately show ?thesis by (auto simp: kinv_def elim: served_mono)
qed

lemma Finish_ok:
  assumes "kinv s" and "executing s"
  shows "served (overflowed s) (Thread_Finish s) (\<lambda>s'. kinv s'
    \<and> view s' = a_loop (a_park BLOCKED InFinish ((view s)\<lparr>s_tbd := Some (currentThread s)\<rparr>)))"
proof -
  note ex = executing_exec[OF assms(1) assms(2) assms(2)]
  have c: "cpu s = Exec" using assms(2) by (simp add: executing_def)
  let ?s = "s\<lparr>level := IntOff, threadToBeDestroyed := Some (currentThread s)\<rparr>"
  have "currentThread s \<notin> set (readyList s)"
    using ex(1) kinvD(2)[OF assms(1)] by (auto simp: vinv_def places_ok_def)
  then have "served (overflowed ?s) (Thread_Sleep InFinish ?s) (\<lambda>s'. env_ok s' \<and> view s' = a_loop (a_park BLOCKED InFinish (view ?s)))"
    using kinvD[OF assms(1)] by (intro Sleep_view) (auto simp: tbd_ok_def)
  moreover have "a_park BLOCKED InFinish (view ?s) = a_park BLOCKED InFinish ((view s)\<lparr>s_tbd := Some (currentThread s)\<rparr>)"
    by (simp add: a_park_def)
  moreover have "vinv (a_loop (a_park BLOCKED InFinish ((view s)\<lparr>s_tbd := Some (currentThread s)\<rparr>)))"
    using park_Finish_inv[OF kinvD(2)[OF assms(1)]] ex(1) c by (intro a_loop_inv) (auto simp: a_park_def)
  ultimately show ?thesis by (auto simp: Thread_Finish_def kinv_def elim: served_mono)
qed

lemma dispatch_ok:
  assumes "kinv s" and "cpu s = InSleep" and "resume_of s (currentThread s) = Some r"
  shows "served (overflowed s) (sleep_loop r s) (\<lambda>s'. kinv s' \<and> view s' = a_loop (view s))"
proof -
  obtain th where th: "threads s (currentThread s) = Some th" "resume th = r" using assms(3) by (auto simp: resume_of_def)
  have lev: "level s = IntOff" using kinvD(2)[OF assms(1)] assms(2) by (auto simp: vinv_def resume_ok_def)
  have "served (overflowed s) (sleep_loop r s) (\<lambda>s'. env_ok s' \<and> view s' = a_loop (a_park (tstatus th) r (view s)))"
    using kinvD[OF assms(1)] th lev by (intro sleep_loop_view) auto
  moreover have "a_park (tstatus th) r (view s) = view s"
    using th lev assms(2) by (auto simp: a_park_def view_def core_def fun_upd_idem)
  ultimately show ?thesis using a_loop_inv[OF kinvD(2)[OF assms(1)]] assms(2) by (auto simp: kinv_def elim: served_mono)
qed

lemma Yield_return_ok:
  assumes "kinv s" and "cpu s = Exec" and "resume_of s (currentThread s) = Some (InYield l)"
  shows "kinv (Yield_return l s) \<and> sems (Yield_return l s) = sems s \<and> next_sem (Yield_return l s) = next_sem s"
proof -
  obtain th where th: "threads s (currentThread s) = Some th" "tstatus th = RUNNING" using kinv_exec(2)[OF assms] by blast
  have "env_ok (Yield_return l s)" using kinvD(1)[OF assms(1)] unfolding Yield_return_def by simp (intro env_ok_upd_thread, auto)
  moreover have "vinv (view (Yield_return l s))"
    using a_return_inv[OF kinvD(2)[OF assms(1)]] kinv_exec(1)[OF assms] assms(2) th
    by (simp add: Yield_return_def view_upd_thread[OF th(1)])
  ultimately show ?thesis by (simp add: kinv_def Yield_return_def upd_thread_def)
qed

lemma new_ok:
  assumes "kinv s"
  shows "kinv (snd (Thread_new nm junk s)) \<and> sems (snd (Thread_new nm junk s)) = sems s \<and> next_sem (snd (Thread_new nm junk s)) = next_sem s"
proof -
  let ?s = "snd (Thread_new nm junk s)"
  have fresh: "threads s (next_thread s) = None" using env_ok_thread[OF kinvD(1)[OF assms], of "next_thread s"] by (cases "threads s (next_thread s)") auto
  have "env_ok ?s" using kinvD(1)[OF assms] by (auto simp: env_ok_def Thread_new_def Thread_init_def Let_def less_Suc_eq)
  moreover have "view ?s = (view s)\<lparr>s_core := (s_core (view s))(next_thread s \<mapsto> (JUST_CREATED, NoStack))\<rparr>"
    by (auto simp: Thread_new_def Thread_init_def Let_def view_def core_def)
  ultimately show ?thesis using a_new_inv[OF kinvD(2)[OF assms], of "next_thread s"] fresh
    by (simp add: kinv_def view_core Thread_new_def Let_def)
qed

lemma Fork_ok:
  assumes "kinv s" and "status_of s t = Some JUST_CREATED"
  shows "\<exists>s'. Thread_Fork t f a s = Inr s' \<and> kinv s' \<and> sems s' = sems s \<and> next_sem s' = next_sem s"
proof -
  obtain th where th: "threads s t = Some th" "tstatus th = JUST_CREATED" using assms(2) by (auto simp: status_of_def)
  let ?s1 = "(upd_thread t (StackAllocate f a) s)\<lparr>level := IntOff\<rparr>"
  let ?s2 = "(upd_thread t (\<lambda>th. th\<lparr>tstatus := READY\<rparr>) ?s1)\<lparr>readyList := readyList s @ [t]\<rparr>"
  let ?s3 = "?s2\<lparr>level := level s\<rparr>"
  have "env_ok ?s1" using kinvD(1)[OF assms(1)] by simp (intro env_ok_upd_thread, auto simp: StackAllocate_def)
  then have "env_ok ?s3" by simp (intro env_ok_upd_thread, auto)
  moreover have "view ?s3 = (view s)\<lparr>s_core := (s_core (view s))(t \<mapsto> (READY, AtThreadRoot f a)), s_ready := readyList s @ [t]\<rparr>"
    using th by (auto simp: view_def upd_thread_def core_def StackAllocate_def)
  moreover have "Thread_Fork t f a s = Inr ?s3"
    using th by (simp add: Thread_Fork_def get_thread_def ReadyToRun_def Let_def)
  moreover have "s_core (view s) t = Some (JUST_CREATED, resume th)" using th by (simp add: view_core core_def)
  ultimately show ?thesis using a_fork_inv[OF kinvD(2)[OF assms(1)]] by (simp add: kinv_def)
qed

lemma Semaphore_new_ok:
  assumes "kinv s" and "is_int v"
  shows "kinv (snd (Semaphore_new nm v s)) \<and> next_sem (snd (Semaphore_new nm v s)) = Suc (next_sem s)
    \<and> (\<forall>i<next_sem s. sems (snd (Semaphore_new nm v s)) i = sems s i)"
proof -
  let ?s = "snd (Semaphore_new nm v s)"
  have "env_ok ?s" using kinvD(1)[OF assms(1)] by (auto simp: env_ok_def Semaphore_new_def Let_def put_sem_def less_Suc_eq)
  moreover have "view ?s = (view s)\<lparr>s_sem := (s_sem (view s))(next_sem s \<mapsto> (v, [])), s_next := Suc (next_sem s)\<rparr>"
    by (simp add: Semaphore_new_def Let_def)
  ultimately show ?thesis using a_sem_inv[OF kinvD(2)[OF assms(1)] assms(2)]
    by (auto simp: kinv_def Semaphore_new_def Let_def)
qed

lemma Semaphore_new_keeps: "kinv s \<Longrightarrow> sems s i \<noteq> None \<Longrightarrow> sems (snd (Semaphore_new nm v s)) i = sems s i"
  using kinvD(1)[of s] by (auto simp: env_ok_def Semaphore_new_def Let_def)

lemma Semaphore_delete_ok:
  assumes "kinv s" and "Semaphore_delete i s = Inr s'"
  shows "kinv s' \<and> next_sem s' = next_sem s \<and> (\<forall>j. sems s' j \<noteq> None \<longrightarrow> sems s' j = sems s j)"
proof -
  have s': "s' = s\<lparr>sems := (sems s)(i := None)\<rparr>"
    using assms(2) by (auto simp: Semaphore_delete_def bindR_eq_Inr)
  have "env_ok s'" using kinvD(1)[OF assms(1)] unfolding s' by (auto simp: env_ok_def)
  moreover have "view s' = (view s)\<lparr>s_sem := (s_sem (view s))(i := None)\<rparr>" unfolding s' by (auto simp: view_def)
  ultimately show ?thesis using a_delete_inv[OF kinvD(2)[OF assms(1)], of i] by (simp add: kinv_def s')
qed

text \<open>What the code of a thread does outside the thread system does not concern the scheduler.\<close>

lemma machine_ok: "kinv s \<Longrightarrow> kinv (s\<lparr>machine := Some m\<rparr>)"
  by (simp add: kinv_def env_ok_machine)

lemma view_upd_same: "(\<And>th. core (f th) = core th) \<Longrightarrow> view (upd_thread t f s) = view s"
  by (cases "threads s t") (auto simp: view_def upd_thread_def fun_eq_iff)

lemma user_ok: "kinv s \<Longrightarrow> machine s \<noteq> None \<Longrightarrow> kinv (upd_thread t (set_user sp p e r) s)"
  unfolding kinv_def by (subst view_upd_same) (auto simp: core_def set_user_def intro: env_ok_upd_thread)

lemma stack_ok: "kinv s \<Longrightarrow> kinv (upd_thread t (write_stack w) s)"
  unfolding kinv_def by (subst view_upd_same) (auto simp: core_def write_stack_def intro: env_ok_upd_thread)

lemma boot_kinv: "kinv (Kernel_boot junk)"
  by (auto simp: Kernel_boot_def Thread_new_def Thread_init_def upd_thread_def Let_def kinv_def env_ok_def vinv_def places_ok_def
      resume_ok_def wakeups_ok_def view_def core_def Interrupt.defs Interrupt_new_def tick_def Statistics_new_def woken_def split: if_splits
      intro: finite_subset[of _ "{0}"])


section \<open>Runs\<close>

lemma s_sem_simps [simp]: "s_sem (a_park st r v) = s_sem v" "s_sem (a_run t v) = s_sem v" "s_sem (a_loop v) = s_sem v"
proof -
  show "s_sem (a_park st r v) = s_sem v" by (simp add: a_park_def)
  show r: "s_sem (a_run t v) = s_sem v" for t v by (simp add: a_run_def Let_def split: Resume.split)
  show "s_sem (a_loop v) = s_sem v" by (simp add: a_loop_def r split: list.split)
qed

definition vval :: "Sched \<Rightarrow> nat \<Rightarrow> int" where
  "vval v i = (case s_sem v i of None \<Rightarrow> 0 | Some (n, q) \<Rightarrow> n)"

lemma value_of_view: "value_of s i = vval (view s) i"
  by (simp add: value_of_def vval_def view_sem split: option.split)

lemma vval_P: "s_sem v i \<noteq> None \<Longrightarrow> vval (a_P i l v) j = (if j = i \<and> vval v i \<noteq> 0 then i32 (vval v j - 1) else vval v j)"
  by (auto simp: a_P_def vval_def split: prod.splits)

lemma vval_level [simp]: "vval (v\<lparr>s_level := x\<rparr>) j = vval v j"
  by (simp add: vval_def)

lemma vval_V: "s_sem v i \<noteq> None \<Longrightarrow> vval (a_V i v) j = (if j = i then i32 (vval v j + 1) else vval v j)"
  by (auto simp: a_V_def vval_def split: prod.splits list.splits)

lemma dom_P: "dom (s_sem (a_P i l v)) = dom (s_sem v)"
  by (auto simp: a_P_def split: option.splits prod.splits)

lemma dom_V: "dom (s_sem (a_V i v)) = dom (s_sem v)"
  by (auto simp: a_V_def split: option.splits prod.splits list.splits if_splits)

lemma a_Yield_sem [simp]: "s_sem (a_Yield v) = s_sem v"
  by (simp add: a_Yield_def)

lemma s_next_simps [simp]: "s_next (a_run t v) = s_next v" "s_next (a_loop v) = s_next v" "s_next (a_Yield v) = s_next v"
  "s_next (a_P i l v) = s_next v" "s_next (a_V i v) = s_next v"
proof -
  show r: "s_next (a_run t v) = s_next v" for t v by (simp add: a_run_def Let_def split: Resume.split)
  show l: "s_next (a_loop v) = s_next v" for v by (simp add: a_loop_def r split: list.split)
  show "s_next (a_Yield v) = s_next v" by (simp add: a_Yield_def l)
  show "s_next (a_P i l v) = s_next v" by (auto simp: a_P_def l split: option.split)
  show "s_next (a_V i v) = s_next v" by (auto simp: a_V_def split: option.split list.split)
qed

lemma dom_sems: "dom (sems s) = dom (s_sem (view s))"
  by (auto simp: view_sem)

definition delta :: "kev \<Rightarrow> nat \<Rightarrow> int" where
  "delta e i = (if e = EvV i then 1 else if e = EvP i then - 1 else 0)"

lemma delta_P: "delta (P_event i s) j = - (if j = i \<and> value_of s i \<noteq> 0 then 1 else 0)"
  by (auto simp: delta_def P_event_def)

lemma P_sem: "P_loop i l s = Inr s' \<Longrightarrow> sems s i \<noteq> None"
  by (auto simp: P_loop_def get_sem_def bindR_eq_Inr split: option.splits)

lemma V_sem: "Semaphore_V i s = Inr s' \<Longrightarrow> sems s i \<noteq> None"
  by (auto simp: Semaphore_V_def Let_def get_sem_def bindR_eq_Inr split: option.splits)

lemma value_is_int: "kinv s \<Longrightarrow> is_int (value_of s i)"
  using sem_is_int[OF kinvD(2), of s i] by (cases "sems s i") (auto simp: value_of_def view_sem is_int_def)

text \<open>How the semaphores change: none that was deleted comes back, and the value of one that is there moves by \<open>d\<close>.\<close>

definition sems_move :: "'k Kernel_scheme \<Rightarrow> (nat \<Rightarrow> int) \<Rightarrow> 'k Kernel_scheme \<Rightarrow> bool" where
  "sems_move s d s' \<longleftrightarrow> next_sem s \<le> next_sem s'
     \<and> (\<forall>j<next_sem s. sems s' j \<noteq> None \<longrightarrow> sems s j \<noteq> None \<and> value_of s' j = i32 (value_of s j + d j))"

lemma sems_moveI:
  assumes "kinv s" and "next_sem s \<le> next_sem s'" and "\<And>j. j < next_sem s \<Longrightarrow> sems s' j \<noteq> None \<Longrightarrow> sems s' j = sems s j"
  shows "sems_move s (\<lambda>_. 0) s'"
proof -
  have "value_of s' j = i32 (value_of s j)" if "j < next_sem s" "sems s' j \<noteq> None" for j
    using assms(3)[OF that] i32_int[OF value_is_int[OF assms(1)], of j] by (simp add: value_of_def)
  then show ?thesis using assms(2,3) by (simp add: sems_move_def)
qed

lemma sems_move_view:
  assumes "kinv s" and "next_sem s' = next_sem s" and "dom (s_sem (view s')) = dom (s_sem (view s))"
    and "\<And>j. vval (view s') j = (if d j = 0 then vval (view s) j else i32 (vval (view s) j + d j))"
  shows "sems_move s d s'"
proof -
  have "value_of s' j = i32 (value_of s j + d j)" for j
    using assms(4)[of j] value_is_int[OF assms(1), of j] by (auto simp: value_of_view i32_int split: if_splits)
  moreover have "sems s' j \<noteq> None \<longleftrightarrow> sems s j \<noteq> None" for j using assms(3) unfolding dom_sems[symmetric] by blast
  ultimately show ?thesis using assms(2) by (simp add: sems_move_def)
qed

lemma sems_move_P:
  assumes "kinv s" and "sems s i \<noteq> None" and v: "view s' = a_P i l ((view s)\<lparr>s_level := x\<rparr>)"
  shows "sems_move s (delta (P_event i s)) s'"
proof (rule sems_move_view[OF assms(1)])
  show "next_sem s' = next_sem s" using arg_cong[OF v, of s_next] by simp
qed (use assms(2) in \<open>simp_all add: v dom_P vval_P view_sem delta_P value_of_view\<close>)

lemma sems_move_same: "kinv s \<Longrightarrow> s_sem (view s') = s_sem (view s) \<Longrightarrow> next_sem s' = next_sem s \<Longrightarrow> sems_move s (\<lambda>_. 0) s'"
  by (rule sems_move_view) (simp_all add: vval_def)

lemma delta_Tau [simp]: "delta Tau = (\<lambda>_. 0)"
  by (simp add: delta_def fun_eq_iff)

text \<open>One step keeps the invariant, and changes the semaphores as its event says.\<close>

lemma kstep_ok:
  assumes "kstep s e s'" and "kinv s"
  shows "kinv s' \<and> sems_move s (delta e) s'"
  using assms
proof cases
  case (step_P i)
  then have sem: "sems s i \<noteq> None" using P_sem by (fastforce simp: Semaphore_P_def)
  note q = served_Inr[OF P_ok[OF assms(2) step_P(2) sem] step_P(3)]
  then show ?thesis unfolding step_P(1) using sems_move_P[OF assms(2) sem] by blast
next
  case (step_P_again i l)
  have sem: "sems s i \<noteq> None" using P_sem step_P_again(4) by blast
  note q = served_Inr[OF P_again_ok[OF assms(2) step_P_again(2,3) sem] step_P_again(4)]
  moreover have lev: "(view s)\<lparr>s_level := level s\<rparr> = view s" by (simp add: view_def)
  ultimately show ?thesis unfolding step_P_again(1) using sems_move_P[OF assms(2) sem, of s' l "level s", unfolded lev] by blast
next
  case (step_V i)
  then have sem: "sems s i \<noteq> None" using V_sem by blast
  then have k: "kinv s'" and v: "view s' = a_V i (view s)" using V_ok[OF assms(2), of i] step_V(3) by auto
  have "sems_move s (delta (EvV i)) s'"
  proof (rule sems_move_view[OF assms(2)])
    show "next_sem s' = next_sem s" using arg_cong[OF v, of s_next] by simp
  qed (use sem in \<open>simp_all add: v dom_V vval_V view_sem delta_def\<close>)
  with k show ?thesis unfolding step_V(1) by blast
next
  case step_Yield
  note q = served_Inr[OF Yield_ok[OF assms(2) step_Yield(2)] step_Yield(3)]
  have "next_sem s' = next_sem s" using arg_cong[OF conjunct2[OF q], of s_next] by simp
  with q step_Yield(1) show ?thesis by (simp add: sems_move_same[OF assms(2)])
next
  case (step_Yield_return l)
  then show ?thesis using Yield_return_ok[OF assms(2)] by (simp add: sems_moveI[OF assms(2)])
next
  case (step_new nm junk)
  then show ?thesis using new_ok[OF assms(2)] by (simp add: sems_moveI[OF assms(2)])
next
  case (step_Fork t f a)
  then show ?thesis using Fork_ok[OF assms(2), of t f a] by (auto intro!: sems_moveI[OF assms(2)])
next
  case step_Finish
  note q = served_Inr[OF Finish_ok[OF assms(2) step_Finish(2)] step_Finish(3)]
  have "next_sem s' = next_sem s" using arg_cong[OF conjunct2[OF q], of s_next] by simp
  with q step_Finish(1) show ?thesis by (simp add: sems_move_same[OF assms(2)])
next
  case (step_dispatch r)
  note q = served_Inr[OF dispatch_ok[OF assms(2) step_dispatch(2,4)] step_dispatch(5)]
  have "next_sem s' = next_sem s" using arg_cong[OF conjunct2[OF q], of s_next] by simp
  with q step_dispatch(1) show ?thesis by (simp add: sems_move_same[OF assms(2)])
next
  case (step_sem v nm)
  then show ?thesis using Semaphore_new_ok[OF assms(2), of v nm] by (simp add: sems_moveI[OF assms(2)])
next
  case (step_delete i)
  then show ?thesis using Semaphore_delete_ok[OF assms(2) step_delete(3)] by (auto intro!: sems_moveI[OF assms(2)])
next
  case (step_machine m)
  then show ?thesis by (simp add: sems_moveI[OF assms(2)] machine_ok[OF assms(2)])
next
  case (step_user t sp p e r)
  then show ?thesis using user_ok[OF assms(2) step_user(4)] by (simp add: sems_moveI[OF assms(2)])
next
  case (step_stack w)
  then show ?thesis using stack_ok[OF assms(2)] by (simp add: sems_moveI[OF assms(2)])
qed

definition balance :: "kev list \<Rightarrow> nat \<Rightarrow> int" where
  "balance tr i = int (count_list tr (EvV i)) - int (count_list tr (EvP i))"

lemma balance_snoc: "balance (tr @ [e]) i = balance tr i + delta e i"
  by (auto simp: balance_def delta_def)

lemma sems_move_trans:
  assumes "sems_move s d s1" and "sems_move s1 d' s2"
  shows "sems_move s (\<lambda>j. d j + d' j) s2"
  using assms unfolding sems_move_def
proof (intro conjI allI impI)
  fix j assume "j < next_sem s" "sems s2 j \<noteq> None"
  with assms have "sems s1 j \<noteq> None" "value_of s2 j = i32 (value_of s1 j + d' j)" "sems s j \<noteq> None" "value_of s1 j = i32 (value_of s j + d j)"
    unfolding sems_move_def by (meson order_less_le_trans)+
  then show "sems s j \<noteq> None" "value_of s2 j = i32 (value_of s j + (d j + d' j))" by (simp_all add: i32_add add.assoc)
qed simp

lemma kruns_ok:
  assumes "kruns s0 tr s" and "kinv s0"
  shows "kinv s \<and> sems_move s0 (balance tr) s"
  using assms
proof (induction rule: kruns.induct)
  case runs_refl
  then have "sems_move s0 (\<lambda>_. 0) s0" by (intro sems_moveI) simp_all
  then show ?case using runs_refl by (simp add: balance_def[abs_def])
next
  case (runs_step tr s e s')
  then have ih: "kinv s" "sems_move s0 (balance tr) s" by auto
  note st = kstep_ok[OF runs_step(2) ih(1)]
  have "balance (tr @ [e]) = (\<lambda>j. balance tr j + delta e j)" by (simp add: balance_snoc fun_eq_iff)
  then show ?case using st sems_move_trans[OF ih(2), of "delta e" s'] by simp
qed

text \<open>A \<open>P\<close> is an event only when it takes from a value that is not zero.\<close>

lemma P_event_value: "kstep s (EvP i) s' \<Longrightarrow> value_of s i \<noteq> 0"
  by (cases rule: kstep.cases) (auto simp: P_event_def split: if_splits)

text \<open>As long as the \<open>int\<close> does not overflow, the value is exact and never negative.\<close>

lemma kruns_exact:
  assumes "kruns s0 tr s" and "kinv s0" and "i < next_sem s0" and "sems s i \<noteq> None" and "0 \<le> value_of s0 i"
    and "value_of s0 i + int (count_list tr (EvV i)) < 2 ^ 31"
  shows "value_of s i = value_of s0 i + balance tr i \<and> 0 \<le> value_of s i"
  using assms
proof (induction rule: kruns.induct)
  case runs_refl
  then show ?case by (simp add: balance_def)
next
  case (runs_step tr s e s')
  note run = kruns_ok[OF runs_step.hyps(1) runs_step.prems(1)]
  note st = kstep_ok[OF runs_step.hyps(2) conjunct1[OF run]]
  have "i < next_sem s" using run runs_step.prems(2) by (auto simp: sems_move_def)
  then have s: "sems s i \<noteq> None" "value_of s' i = i32 (value_of s i + delta e i)"
    using st runs_step.prems(3) by (auto simp: sems_move_def)
  have ih: "value_of s i = value_of s0 i + balance tr i" "0 \<le> value_of s i"
    using runs_step.IH runs_step.prems s(1) by auto
  have "0 \<le> value_of s i + delta e i" using ih(2) P_event_value[of s i s'] runs_step.hyps(2) by (auto simp: delta_def)
  moreover have "value_of s i + delta e i < 2 ^ 31"
    using ih(1) runs_step.prems(5) by (auto simp: balance_snoc[symmetric] add.assoc) (auto simp: balance_def)
  ultimately show ?case using s(2) ih(1) by (simp add: i32_int is_int_def balance_snoc)
qed

lemma status_core: "status_of s t = Some st \<longleftrightarrow> (\<exists>r. s_core (view s) t = Some (st, r))"
  by (auto simp: status_of_def view_core core_def)

lemma status_resume_core: "status_of s t = Some st \<and> resume_of s t = Some r \<longleftrightarrow> s_core (view s) t = Some (st, r)"
  by (auto simp: status_of_def resume_of_def view_core core_def)

lemma queue_of_view: "queue_of s i = (case s_sem (view s) i of None \<Rightarrow> [] | Some (n, q) \<Rightarrow> q)"
  by (simp add: queue_of_def view_sem split: option.split)

lemma queue_set:
  assumes "kinv s" and "sems s i \<noteq> None"
  shows "t \<in> set (queue_of s i) \<longleftrightarrow> (\<exists>l. s_core (view s) t = Some (BLOCKED, InP i l))"
proof -
  obtain se where "sems s i = Some se" using assms(2) by blast
  then show ?thesis using queue_iff[OF kinvD(2)[OF assms(1)], of i "sem_value se" "sem_queue se" t] by (simp add: queue_of_def view_sem)
qed


text \<open>The overrun is noticed at the next context switch.\<close>

lemma Yield_overflow:
  assumes "kinv s" and "overflowed s" and "readyList s \<noteq> []"
  shows "Thread_Yield s = Inl AssertFailed"
proof -
  obtain t ts where r: "readyList s = t # ts" using assms(3) by (cases "readyList s") auto
  obtain th where th: "threads s (currentThread s) = Some th" using kinvD(3)[OF assms(1)] by blast
  let ?s = "(upd_thread (currentThread s) (\<lambda>th. th\<lparr>tstatus := READY\<rparr>) (s\<lparr>level := IntOff, readyList := ts\<rparr>))\<lparr>readyList := ts @ [currentThread s]\<rparr>"
  have "env_ok ?s" using kinvD(1)[OF assms(1)] by simp (intro env_ok_upd_thread, auto)
  moreover have "overflowed ?s" using assms(2) by (simp add: overflowed_upd_thread)
  ultimately have "Scheduler_Run t (InYield (level s)) ?s = Inl AssertFailed" by (rule Run_overflow)
  then show ?thesis using r th by (simp add: Thread_Yield_def FindNextToRun_def ReadyToRun_def get_thread_def Let_def)
qed


text \<open>
  C24. Semaphore accounting: along every run from a well-formed state, the value of a semaphore that is still there is its
  initial value plus the completed \<open>V\<close>s minus the completed \<open>P\<close>s, as a 32-bit \<open>int\<close>. If the initial value is not negative and
  it and the \<open>V\<close>s stay below \<open>2 ^ 31\<close>, this is the exact value, and it is never negative: no more \<open>P\<close>s
  complete than the initial value and the \<open>V\<close>s allow.
\<close>

theorem semaphore_conservation:
  assumes "kinv s0" and "kruns s0 tr s" and "sems s0 i \<noteq> None" and "sems s i \<noteq> None"
  shows "value_of s i = i32 (value_of s0 i + int (count_list tr (EvV i)) - int (count_list tr (EvP i)))
    \<and> (0 \<le> value_of s0 i \<and> value_of s0 i + int (count_list tr (EvV i)) < 2 ^ 31 \<longrightarrow>
        value_of s i = value_of s0 i + int (count_list tr (EvV i)) - int (count_list tr (EvP i)) \<and> 0 \<le> value_of s i)"
proof -
  have i: "i < next_sem s0" using kinvD(1)[OF assms(1)] assms(3) by (auto simp: env_ok_def)
  then have "value_of s i = i32 (value_of s0 i + balance tr i)" using kruns_ok[OF assms(2,1)] assms(4) by (auto simp: sems_move_def)
  then show ?thesis using kruns_exact[OF assms(2,1) i assms(4)] by (auto simp: balance_def add_diff_eq)
qed

text \<open>
  C25. No wake-up is lost: when the CPU idles in \<open>Sleep\<close> with no thread ready, a thread that still waits
  on a semaphore waits for a reason, the value of the semaphore is zero.
\<close>

theorem no_lost_wakeup:
  assumes "kruns (Kernel_boot junk) tr s" and "cpu s = InSleep" and "readyList s = []" and "t \<in> set (queue_of s i)"
  shows "value_of s i = 0"
proof -
  have k: "kinv s" using kruns_ok[OF assms(1) boot_kinv] by blast
  note v = kinvD(2)[OF k]
  have off: "s_core (view s) x \<noteq> Some (RUNNING, r)" "s_core (view s) x \<noteq> Some (READY, r)" for x r
    using v assms(2,3) by (auto simp: vinv_def places_ok_def)
  have "st = BLOCKED" if "s_core (view s) x = Some (st, InP i l)" for x st l
    using off fits_core[OF v that] that by (cases st) auto
  then have w: "woken (view s) i = {}" unfolding woken_def by blast
  obtain n q where nq: "s_sem (view s) i = Some (n, q)" "q \<noteq> []"
    using assms(4) by (cases "s_sem (view s) i") (force simp: queue_of_view)+
  then have "n mod 2 ^ 32 \<le> int (card (woken (view s) i))" using vinv_wakeups(1)[OF v] unfolding wakeups_ok_def by blast
  then have "n mod 2 ^ 32 \<le> 0" by (simp add: w)
  moreover have "0 \<le> n mod 2 ^ 32" by simp
  ultimately have "n mod 2 ^ 32 = 0" by (rule order_antisym)
  then have "n = 0" using is_int_mod_0[OF sem_is_int[OF v nq(1)]] by simp
  then show ?thesis using nq(1) by (simp add: value_of_view vval_def)
qed

text \<open>A run for the witnesses: a semaphore of value 0, and the main thread's \<open>P\<close> on it.\<close>

definition demo_k1 :: Kernel where
  "demo_k1 = snd (Semaphore_new ''sem'' 0 (Kernel_boot (\<lambda>_. 0)))"

definition demo_k2 :: Kernel where
  "demo_k2 = (case Semaphore_P 0 demo_k1 of Inr s \<Rightarrow> s | Inl _ \<Rightarrow> demo_k1)"

lemmas demo_defs = demo_k1_def demo_k2_def Kernel_boot_def Thread_new_def Thread_init_def Semaphore_new_def Let_def
  Interrupt.defs Interrupt_new_def Statistics_new_def tick_def upd_thread_def put_sem_def executing_def resume_of_def status_of_def
  Semaphore_P_def P_loop_def get_sem_def Thread_Sleep_def sleep_loop_def FindNextToRun_def

lemma demo_run: "kruns (Kernel_boot (\<lambda>_. 0)) [Tau, Tau] demo_k2"
proof -
  have ex: "executing (Kernel_boot (\<lambda>_. 0))" "executing demo_k1" by (simp_all add: demo_defs)
  have "kstep (Kernel_boot (\<lambda>_. 0)) Tau demo_k1" unfolding demo_k1_def by (rule step_sem[OF ex(1)]) (simp add: is_int_def)
  then have "kruns (Kernel_boot (\<lambda>_. 0)) ([] @ [Tau]) demo_k1" by (rule runs_step[OF runs_refl])
  moreover have "Semaphore_P 0 demo_k1 = Inr demo_k2" by (simp add: demo_defs)
  then have "kstep demo_k1 (P_event 0 demo_k1) demo_k2" by (rule step_P[OF ex(2)])
  moreover have "P_event 0 demo_k1 = Tau" by (simp add: P_event_def value_of_def demo_defs)
  ultimately show ?thesis using runs_step[of "Kernel_boot (\<lambda>_. 0)" "[Tau]" demo_k1 Tau demo_k2] by simp
qed



lemma semaphore_conservation_witness:
  "kinv demo_k1 \<and> kruns demo_k1 [EvV 0] (case Semaphore_V 0 demo_k1 of Inr s \<Rightarrow> s | Inl _ \<Rightarrow> demo_k1)
    \<and> value_of (case Semaphore_V 0 demo_k1 of Inr s \<Rightarrow> s | Inl _ \<Rightarrow> demo_k1) 0 = 1"
proof -
  have k: "kinv demo_k1" using Semaphore_new_ok[OF boot_kinv] by (simp add: demo_k1_def is_int_def)
  have sem: "sems demo_k1 0 \<noteq> None" "value_of demo_k1 0 = 0" by (simp_all add: demo_defs value_of_def)
  obtain s where s: "Semaphore_V 0 demo_k1 = Inr s" using V_ok[OF k sem(1)] by blast
  have "executing demo_k1" by (simp add: demo_defs)
  then have "kstep demo_k1 (EvV 0) s" using s by (intro step_V) simp_all
  then have r: "kruns demo_k1 [EvV 0] s" using runs_step[OF runs_refl] by fastforce
  have "sems s 0 \<noteq> None" using V_frame[OF s] sem(1) by blast
  from semaphore_conservation[OF k r sem(1) this] sem(2) k r s show ?thesis by simp
qed

lemma no_lost_wakeup_witness:
  "kruns (Kernel_boot (\<lambda>_. 0)) [Tau, Tau] demo_k2 \<and> cpu demo_k2 = InSleep \<and> readyList demo_k2 = []
    \<and> (0::nat) \<in> set (queue_of demo_k2 0) \<and> value_of demo_k2 0 = 0"
proof -
  have "cpu demo_k2 = InSleep" "readyList demo_k2 = []" "0 \<in> set (queue_of demo_k2 0)"
    by (simp_all add: queue_of_def demo_defs)
  with no_lost_wakeup[OF demo_run] demo_run show ?thesis by blast
qed

end
