(* ===== verification/Nachos_Console.thy ===== *)
theory Nachos_Console
  imports Nachos_Interrupt
begin

text \<open>
  machine/console.cc and threads/synchcons.cc: the console device and the synchronous console on it.

  The UNIX files behind the keyboard and the display are \<open>keys\<close>, the characters still to be typed, and
  \<open>screen\<close>, the characters displayed. \<open>Console_CheckCharAvail\<close> and \<open>Console_WriteDone\<close> are the device
  parts of the two interrupt handlers; scheduling the next interrupt and the \<open>V\<close> of the synchronous
  layer are added in Nachos_System, where the whole handlers are. As seen by its caller, a synchronous
  operation is the request, the wait for the interrupt on the semaphore, and the device's part of that
  interrupt; a read for which no more characters are ever typed does not return (\<open>None\<close>).
\<close>

text \<open>\<open>EOF\<close>, that is -1, in a variable of type \<open>char\<close>.\<close>

definition EOFc :: byte where "EOFc = 0xff"

record Console =
  keys :: "byte list"
  screen :: "byte list"
  putBusy :: bool
  incoming :: byte
  charsRead :: int
  charsWritten :: int

definition Console_new :: "byte list \<Rightarrow> Console" where
  "Console_new input = \<lparr>keys = input, screen = [], putBusy = False, incoming = EOFc, charsRead = 0, charsWritten = 0\<rparr>"

text \<open>Whether a character arrived is the Boolean: then \<open>readHandler\<close> is called.\<close>

definition Console_CheckCharAvail :: "Console \<Rightarrow> bool \<times> Console" where
  "Console_CheckCharAvail c = (if incoming c \<noteq> EOFc then (False, c) else
     case keys c of [] \<Rightarrow> (False, c)
     | ch # rest \<Rightarrow> (True, c\<lparr>keys := rest, incoming := ch, charsRead := charsRead c + 1\<rparr>))"

definition Console_WriteDone :: "Console \<Rightarrow> Console" where
  "Console_WriteDone c = c\<lparr>putBusy := False, charsWritten := charsWritten c + 1\<rparr>"

definition Console_GetChar :: "Console \<Rightarrow> byte \<times> Console" where
  "Console_GetChar c = (incoming c, c\<lparr>incoming := EOFc\<rparr>)"

definition Console_PutChar :: "byte \<Rightarrow> Console \<Rightarrow> Console res" where
  "Console_PutChar ch c = bindR (ASSERT (\<not> putBusy c)) (\<lambda>_. Inr (c\<lparr>screen := screen c @ [ch], putBusy := True\<rparr>))"

section \<open>The synchronous console\<close>

text \<open>The loop of \<open>Write\<close>: put a character, wait for it to be written. \<open>from\<close> is the buffer, read at
  the indices of the loop.\<close>

definition write_char :: "byte list \<Rightarrow> nat \<Rightarrow> Console \<Rightarrow> Console res" where
  "write_char from i c = (if i < length from
     then bindR (Console_PutChar (from ! i) c) (\<lambda>c. Inr (Console_WriteDone c)) else Inl OutOfBounds)"

definition SynchConsole_Write :: "byte list \<Rightarrow> int \<Rightarrow> Console \<Rightarrow> (int \<times> Console) res" where
  "SynchConsole_Write from numBytes c =
     bindR (forR (write_char from) [0..<nat numBytes] c) (\<lambda>c. Inr (numBytes, c))"

text \<open>The inner loop of \<open>Read\<close>: wait for a character, take it, again if it was \<open>EOF\<close>.\<close>

function SynchConsole_getc :: "Console \<Rightarrow> (byte \<times> Console) option" where
  "SynchConsole_getc c = (if incoming c = EOFc \<and> keys c = [] then None
     else (let c1 = snd (Console_CheckCharAvail c); ch = fst (Console_GetChar c1); c2 = snd (Console_GetChar c1)
           in if ch = EOFc then SynchConsole_getc c2 else Some (ch, c2)))"
  by pat_completeness auto
termination
  by (relation "measure (\<lambda>c. length (keys c))")
    (auto simp: Console_CheckCharAvail_def Console_GetChar_def split: list.splits if_splits)

declare SynchConsole_getc.simps [simp del]

text \<open>The outer loop: at most \<open>n\<close> more characters; the result is the characters stored, the last
  character taken and the console.\<close>

fun read_line :: "nat \<Rightarrow> byte \<Rightarrow> Console \<Rightarrow> (byte list \<times> byte \<times> Console) option" where
  "read_line 0 ch c = Some ([], ch, c)"
| "read_line (Suc n) _ c = (case SynchConsole_getc c of None \<Rightarrow> None
     | Some (ch, c) \<Rightarrow> if ch = 10 \<or> ch = 1 then Some ([], ch, c)
         else (case read_line n ch c of None \<Rightarrow> None | Some (bs, lst, c) \<Rightarrow> Some (ch # bs, lst, c)))"

text \<open>\<open>Read(into, numBytes)\<close>: the return value and the \<open>numBytes\<close> bytes of the buffer, cleared first.
  \<open>junk\<close> is the uninitialised \<open>ch\<close>, which the test after the loop reads if no character was asked for.\<close>

definition SynchConsole_Read :: "byte \<Rightarrow> int \<Rightarrow> Console \<Rightarrow> (int \<times> byte list \<times> Console) option" where
  "SynchConsole_Read junk numBytes c = (case read_line (nat numBytes) junk c of None \<Rightarrow> None
     | Some (bs, lst, c) \<Rightarrow> Some (if lst = 1 then -1 else int (length bs),
         bs @ replicate (nat numBytes - length bs) 0, c))"

section \<open>What the calls do\<close>

lemma write_loop:
  assumes "\<not> putBusy c" and "n \<le> length from"
  shows "forR (write_char from) [0..<n] c
    = Inr (c\<lparr>screen := screen c @ take n from, charsWritten := charsWritten c + int n\<rparr>)"
  using assms(2)
proof (induction n)
  case (Suc n)
  then show ?case using assms(1)
    by (simp add: forR_append write_char_def Console_PutChar_def Console_WriteDone_def take_Suc_conv_app_nth)
qed simp

lemma SynchConsole_Write_spec:
  assumes "\<not> putBusy c" and "0 \<le> n" and "n \<le> int (length from)"
  shows "SynchConsole_Write from n c
    = Inr (n, c\<lparr>screen := screen c @ take (nat n) from, charsWritten := charsWritten c + n\<rparr>)"
  using assms write_loop[of c "nat n" "from"] by (simp add: SynchConsole_Write_def)

lemma getc_typed:
  assumes "incoming c = EOFc" and "keys c = ch # rest" and "ch \<noteq> EOFc"
  shows "SynchConsole_getc c = Some (ch, c\<lparr>keys := rest, charsRead := charsRead c + 1\<rparr>)"
  using assms by (subst SynchConsole_getc.simps) (cases c; simp add: Console_CheckCharAvail_def Console_GetChar_def Let_def)

lemma getc_pending: "incoming c \<noteq> EOFc \<Longrightarrow> SynchConsole_getc c = Some (incoming c, c\<lparr>incoming := EOFc\<rparr>)"
  by (subst SynchConsole_getc.simps) (simp add: Console_CheckCharAvail_def Console_GetChar_def Let_def)

definition plain :: "byte \<Rightarrow> bool" where
  "plain ch \<longleftrightarrow> ch \<noteq> EOFc \<and> ch \<noteq> 10 \<and> ch \<noteq> 1"

lemma read_line_typed:
  assumes "incoming c = EOFc" and "keys c = bs @ e # rest" and "list_all plain bs" and "e = 10 \<or> e = 1" and "length bs < n"
  shows "read_line n ch c = Some (bs, e, c\<lparr>keys := rest, charsRead := charsRead c + int (length bs) + 1\<rparr>)"
  using assms
proof (induction bs arbitrary: c n ch)
  case Nil
  then obtain m where "n = Suc m" by (cases n) auto
  with Nil show ?case by (auto simp: getc_typed EOFc_def)
next
  case (Cons b bs)
  then obtain m where m: "n = Suc m" "length bs < m" by (cases n) auto
  have g: "SynchConsole_getc c = Some (b, c\<lparr>keys := bs @ e # rest, charsRead := charsRead c + 1\<rparr>)"
    using Cons.prems by (intro getc_typed) (simp_all add: plain_def)
  show ?case using g m Cons.prems Cons.IH[of "c\<lparr>keys := bs @ e # rest, charsRead := charsRead c + 1\<rparr>" m b]
    by (simp add: plain_def)
qed

lemma read_line_full:
  assumes "incoming c = EOFc" and "keys c = bs @ rest" and "list_all plain bs" and "bs \<noteq> []"
  shows "read_line (length bs) ch c = Some (bs, last bs, c\<lparr>keys := rest, charsRead := charsRead c + int (length bs)\<rparr>)"
  using assms
proof (induction bs arbitrary: c ch)
  case (Cons b bs)
  have g: "SynchConsole_getc c = Some (b, c\<lparr>keys := bs @ rest, charsRead := charsRead c + 1\<rparr>)"
    using Cons.prems by (intro getc_typed) (simp_all add: plain_def)
  show ?case using g Cons.prems Cons.IH[of "c\<lparr>keys := bs @ rest, charsRead := charsRead c + 1\<rparr>" b]
    by (cases "bs = []") (auto simp: plain_def)
qed simp

text \<open>
  A line typed at the keyboard is what \<open>SynchConsole::Read\<close> returns: with \<open>numBytes\<close> larger than the
  line, the buffer holds the line and then zero bytes, the terminator is consumed and nothing after it,
  and the result is the length of the line, or -1 when it was ended by control-A.
\<close>

theorem console_reads_line:
  assumes "incoming c = EOFc" and "keys c = bs @ e # rest" and "list_all plain bs" and "e = 10 \<or> e = 1"
    and "int (length bs) < numBytes"
  shows "SynchConsole_Read junk numBytes c = Some (if e = 1 then -1 else int (length bs),
    bs @ replicate (nat numBytes - length bs) 0,
    c\<lparr>keys := rest, charsRead := charsRead c + int (length bs) + 1\<rparr>)"
proof -
  have "length bs < nat numBytes" using assms(5) by linarith
  then show ?thesis using read_line_typed[OF assms(1-4), of "nat numBytes" junk] by (simp add: SynchConsole_Read_def)
qed

lemma console_reads_line_witness:
  "SynchConsole_Read 0 4 (Console_new [104, 105, 10, 120])
    = Some (2, [104, 105, 0, 0], (Console_new [])\<lparr>keys := [120], charsRead := 3\<rparr>)"
proof -
  have "list_all plain [104, 105]" by (simp add: plain_def EOFc_def)
  moreover have "replicate 2 (0 :: byte) = [0, 0]" by (simp add: numeral_2_eq_2)
  ultimately show ?thesis using console_reads_line[of "Console_new [104, 105, 10, 120]" "[104, 105]" 10 "[120]" 4 0]
    by (simp add: Console_new_def)
qed

end
