(* ===== verification/Nachos_System.thy ===== *)
theory Nachos_System
  imports Nachos_Sched Nachos_Console Nachos_Disk
begin

text \<open>
  The devices on the interrupt controller: machine/timer.cc, the interrupt sides of machine/console.cc,
  threads/synchcons.cc, machine/disk.cc and filesys/synchdisk.cc, and the timer handler of
  threads/system.cc.

  \<open>System\<close> extends the kernel by the devices. \<open>dev_call\<close> is the table of the functions that the devices
  pass to \<open>interrupt->Schedule\<close>. The interpretation \<open>dev\<close> shows that these handlers meet the contract
  \<open>interrupt_handlers\<close>, so that every \<open>while (CheckIfDue(FALSE))\<close> loop ends and \<open>Idle\<close> returns or halts.
  \<open>Random()\<close> is the host's generator: the values it will return are the sequence \<open>randoms\<close>.
\<close>

record System = Kernel +
  randomize :: bool
  randoms :: "nat \<Rightarrow> int"
  random_pos :: nat
  console :: Console
  synchReadAvail :: nat
  synchWriteAvail :: nat
  disk :: Disk
  diskSem :: nat

section \<open>The timer\<close>

definition Random :: "'k System_scheme \<Rightarrow> int \<times> 'k System_scheme" where
  "Random s = (randoms s (random_pos s), s\<lparr>random_pos := random_pos s + 1\<rparr>)"

definition TimeOfNextInterrupt :: "'k System_scheme \<Rightarrow> int \<times> 'k System_scheme" where
  "TimeOfNextInterrupt s = (if randomize s
     then (let (r, s1) = Random s in (1 + r smod (TimerTicks * 2), s1))
     else (TimerTicks, s))"

text \<open>The constructor's last call, which is also the first call of \<open>TimerExpired\<close>.\<close>

definition Timer_schedule :: "'k System_scheme \<Rightarrow> 'k System_scheme res" where
  "Timer_schedule s = (let (ticks, s1) = TimeOfNextInterrupt s in Schedule TimerHandler 0 ticks TimerInt s1)"

definition Timer_new :: "bool \<Rightarrow> 'k System_scheme \<Rightarrow> 'k System_scheme res" where
  "Timer_new doRandom s = Timer_schedule (s\<lparr>randomize := doRandom\<rparr>)"

text \<open>threads/system.cc.\<close>

definition TimerInterruptHandler :: "'k System_scheme \<Rightarrow> 'k System_scheme res" where
  "TimerInterruptHandler s = (if istatus s \<noteq> IdleMode then YieldOnReturn s else Inr s)"

definition TimerExpired :: "'k System_scheme \<Rightarrow> 'k System_scheme res" where
  "TimerExpired s = bindR (Timer_schedule s) TimerInterruptHandler"

section \<open>The console\<close>

definition CheckCharAvail :: "'k System_scheme \<Rightarrow> 'k System_scheme res" where
  "CheckCharAvail s = bindR (Schedule ConsoleReadPoll 0 ConsoleTime ConsoleReadInt s) (\<lambda>s.
     let (arrived, c) = Console_CheckCharAvail (console s); s = s\<lparr>console := c\<rparr>
     in if arrived then Semaphore_V (synchReadAvail s) s else Inr s)"

definition WriteDone :: "'k System_scheme \<Rightarrow> 'k System_scheme res" where
  "WriteDone s = Semaphore_V (synchWriteAvail s) (s\<lparr>console := Console_WriteDone (console s)\<rparr>)"

definition PutChar :: "byte \<Rightarrow> 'k System_scheme \<Rightarrow> 'k System_scheme res" where
  "PutChar ch s = bindR (Console_PutChar ch (console s)) (\<lambda>c.
     Schedule ConsoleWriteDone 0 ConsoleTime ConsoleWriteInt (s\<lparr>console := c\<rparr>))"

section \<open>The disk\<close>

text \<open>\<open>Disk::HandleInterrupt\<close> and \<open>SynchDisk::RequestDone\<close>.\<close>

definition DiskRequestDone :: "'k System_scheme \<Rightarrow> 'k System_scheme res" where
  "DiskRequestDone s = Semaphore_V (diskSem s) (s\<lparr>disk := HandleInterrupt (disk s)\<rparr>)"

text \<open>The first half of \<open>SynchDisk::ReadSector\<close> and \<open>WriteSector\<close>, up to the \<open>P\<close>: the request, with its
  completion interrupt. The disk reads the clock from the statistics.\<close>

definition disk_at :: "'k System_scheme \<Rightarrow> Disk" where
  "disk_at s = (disk s)\<lparr>clock := now s\<rparr>"

definition start_read :: "int \<Rightarrow> 'k System_scheme \<Rightarrow> (byte list \<times> 'k System_scheme) res" where
  "start_read sector s = bindR (Lock_Acquire s) (\<lambda>s.
     bindR (ReadRequest sector (disk_at s)) (\<lambda>(data, ticks, d).
     bindR (Schedule DiskDone 0 ticks DiskInt (s\<lparr>disk := d\<rparr>)) (\<lambda>s. Inr (data, s))))"

definition start_write :: "int \<Rightarrow> byte list \<Rightarrow> 'k System_scheme \<Rightarrow> 'k System_scheme res" where
  "start_write sector data s = bindR (Lock_Acquire s) (\<lambda>s.
     bindR (WriteRequest sector data (disk_at s)) (\<lambda>(ticks, d).
     Schedule DiskDone 0 ticks DiskInt (s\<lparr>disk := d\<rparr>)))"

section \<open>The handlers\<close>

text \<open>The build has no network device.\<close>

definition dev_call :: "HandlerFn \<Rightarrow> int \<Rightarrow> 'k System_scheme \<Rightarrow> 'k System_scheme res" where
  "dev_call h a s = (case h of
     TimerHandler \<Rightarrow> TimerExpired s
   | DiskDone \<Rightarrow> DiskRequestDone s
   | ConsoleReadPoll \<Rightarrow> CheckCharAvail s
   | ConsoleWriteDone \<Rightarrow> WriteDone s
   | NetworkReadPoll \<Rightarrow> Inl NullPointer
   | NetworkSendDone \<Rightarrow> Inl NullPointer)"

definition dev_installed :: "HandlerFn \<Rightarrow> int \<Rightarrow> bool" where
  "dev_installed h a \<longleftrightarrow> h \<notin> {NetworkReadPoll, NetworkSendDone}"

text \<open>What the handlers need of the kernel: their semaphores are alive, and so are the threads in the
  queues; the register number of the pending delayed load is in range.\<close>

definition load_ok :: "Machine \<Rightarrow> bool" where
  "load_ok m \<longleftrightarrow> 0 \<le> sint (reg m LoadReg) \<and> sint (reg m LoadReg) < int NumTotalRegs"

definition dev_inv :: "'k System_scheme \<Rightarrow> bool" where
  "dev_inv s \<longleftrightarrow> env_ok s \<and> queues_live s \<and> (\<forall>m. machine s = Some m \<longrightarrow> load_ok m)
     \<and> sems s (synchReadAvail s) \<noteq> None \<and> sems s (synchWriteAvail s) \<noteq> None \<and> sems s (diskSem s) \<noteq> None
     \<and> (\<forall>n. 0 \<le> randoms s n)"

lemma System_more:
  "Kernel.more s' = Kernel.more s \<Longrightarrow> synchReadAvail s' = synchReadAvail s \<and> synchWriteAvail s' = synchWriteAvail s
    \<and> diskSem s' = diskSem s \<and> randoms s' = randoms s"
  by (cases s; cases s') simp

lemma int_frame:
  "pending s' = pending s \<Longrightarrow> int_ok s' = int_ok s" "pending s' = pending s \<Longrightarrow> all_installed h s' = all_installed h s"
  "pending s' = pending s \<Longrightarrow> stats s' = stats s \<Longrightarrow> due s' = due s"
  by (simp_all add: int_ok_def all_installed_def due_def)

text \<open>What every handler does, in the words of the contract.\<close>

definition dev_pre :: "'k System_scheme \<Rightarrow> bool" where
  "dev_pre s \<longleftrightarrow> dev_inv s \<and> int_ok s \<and> all_installed dev_installed s \<and> level s = IntOff"

lemma V_dev:
  assumes "dev_pre s" and "sems s i \<noteq> None"
  shows "\<exists>s'. Semaphore_V i s = Inr s' \<and> dev_inv s' \<and> int_ok s' \<and> all_installed dev_installed s' \<and> level s' = IntOff
    \<and> now s' = now s \<and> due s' = due s"
proof -
  obtain s' where s': "Semaphore_V i s = Inr s'" "env_ok s'" "queues_live s'"
    using V_served[of s i] assms by (auto simp: dev_pre_def dev_inv_def)
  note fr = V_frame[OF s'(1)]
  have "sems s' j \<noteq> None \<longleftrightarrow> sems s j \<noteq> None" for j using fr by blast
  then have "dev_inv s'" using assms(1) s'(2,3) fr System_more[of s' s] by (simp add: dev_pre_def dev_inv_def)
  then show ?thesis using s'(1) fr int_frame[of s' s] assms(1) by (simp add: dev_pre_def)
qed

lemma dev_inv_frame [simp]:
  "dev_inv (s\<lparr>pending := ps\<rparr>) = dev_inv s" "dev_inv (s\<lparr>stats := st\<rparr>) = dev_inv s" "dev_inv (s\<lparr>level := l\<rparr>) = dev_inv s"
  "dev_inv (s\<lparr>inHandler := b\<rparr>) = dev_inv s" "dev_inv (s\<lparr>istatus := t\<rparr>) = dev_inv s" "dev_inv (s\<lparr>yieldOnReturn := b\<rparr>) = dev_inv s"
  "dev_inv (s\<lparr>console := c\<rparr>) = dev_inv s" "dev_inv (s\<lparr>disk := d\<rparr>) = dev_inv s" "dev_inv (s\<lparr>random_pos := p\<rparr>) = dev_inv s"
  by (simp_all add: dev_inv_def env_ok_def queues_live_def)

lemma dev_pre_frame [simp]:
  "dev_pre (s\<lparr>inHandler := b\<rparr>) = dev_pre s" "dev_pre (s\<lparr>istatus := t\<rparr>) = dev_pre s" "dev_pre (s\<lparr>yieldOnReturn := b\<rparr>) = dev_pre s"
  "dev_pre (s\<lparr>console := c\<rparr>) = dev_pre s" "dev_pre (s\<lparr>disk := d\<rparr>) = dev_pre s" "dev_pre (s\<lparr>random_pos := p\<rparr>) = dev_pre s"
  by (simp_all add: dev_pre_def int_ok_def all_installed_def)

text \<open>\<open>Schedule\<close> for any set of installed handlers.\<close>

lemma Schedule_installed:
  assumes "0 < ticks" and "is_int (now s + ticks)" and "inst h a" and "int_ok s" and "all_installed inst s"
  shows "\<exists>ps. Schedule h a ticks ty s = Inr (s\<lparr>pending := ps\<rparr>) \<and> int_ok (s\<lparr>pending := ps\<rparr>)
    \<and> all_installed inst (s\<lparr>pending := ps\<rparr>) \<and> due (s\<lparr>pending := ps\<rparr>) = due s"
proof -
  obtain s' where s': "Schedule h a ticks ty s = Inr s'" "s' = s\<lparr>pending := pending s'\<rparr>"
    "mset (pending s') = add_mset (now s + ticks, PendingInterrupt_new h a (now s + ticks) ty) (mset (pending s))"
    "due s' = due s" "int_ok s \<longrightarrow> int_ok s'"
    using Schedule_spec[OF assms(1), of h a ty s] assms(2) unfolding i32_int[OF assms(2)] by blast
  have "set (pending s') = insert (now s + ticks, PendingInterrupt_new h a (now s + ticks) ty) (set (pending s))"
    using arg_cong[OF s'(3), of set_mset] by simp
  then have "all_installed inst s'" using assms(3,5) by (simp add: all_installed_def PendingInterrupt_new_def)
  then show ?thesis using s' assms(4) by metis
qed

lemma Schedule_dev:
  assumes "dev_pre s" and "clock_ok s" and "0 < ticks" and "ticks \<le> 2 * TimerTicks" and "dev_installed h a"
  shows "\<exists>s'. Schedule h a ticks ty s = Inr s' \<and> dev_pre s' \<and> due s' = due s \<and> (\<exists>ps. s' = s\<lparr>pending := ps\<rparr>)"
  using Schedule_installed[OF assms(3) clock_at_delay[OF assms(2-4)], of dev_installed h a ty] assms(1,5) by (auto simp: dev_pre_def)

lemma dev_call_served:
  assumes "dev_pre s" and "dev_installed h a" and "inHandler s" and "clock_ok s"
  shows "\<exists>s'. dev_call h a s = Inr s' \<and> dev_inv s' \<and> int_ok s' \<and> all_installed dev_installed s' \<and> level s' = IntOff
    \<and> now s' = now s \<and> due s' = due s"
proof (cases h)
  case TimerHandler
  define s1 where "s1 = snd (TimeOfNextInterrupt s)"
  define ticks where "ticks = fst (TimeOfNextInterrupt s)"
  have rnd: "0 \<le> randoms s (random_pos s)" using assms(1) by (simp add: dev_pre_def dev_inv_def)
  then have "0 \<le> randoms s (random_pos s) smod 200" "randoms s (random_pos s) smod 200 < 200" by (simp_all add: smod_nonneg)
  then have t: "0 < ticks" "ticks \<le> 2 * TimerTicks" by (auto simp: ticks_def TimeOfNextInterrupt_def Random_def TimerTicks_def)
  have s1: "dev_pre s1" "due s1 = due s" "now s1 = now s" "inHandler s1"
    using assms(1,3) by (auto simp: s1_def TimeOfNextInterrupt_def Random_def due_def)
  obtain s2 ps where s2: "Schedule TimerHandler 0 ticks TimerInt s1 = Inr s2" "dev_pre s2" "due s2 = due s1" "s2 = s1\<lparr>pending := ps\<rparr>"
    using Schedule_dev[OF s1(1) _ t, of TimerHandler 0 TimerInt] assms(4) s1(3) by (auto simp: dev_installed_def)
  have "dev_call h a s = TimerInterruptHandler s2"
    using s2(1) TimerHandler by (simp add: dev_call_def TimerExpired_def Timer_schedule_def s1_def ticks_def case_prod_beta Let_def)
  moreover have "inHandler s2" "now s2 = now s1" using s2(4) s1(4) by simp_all
  ultimately show ?thesis using s2(2,3) s1
    by (auto simp: TimerInterruptHandler_def YieldOnReturn_def dev_pre_def)
next
  case DiskDone
  have "dev_pre (s\<lparr>disk := HandleInterrupt (disk s)\<rparr>)" using assms(1) by simp
  moreover have "sems s (diskSem s) \<noteq> None" using assms(1) by (simp add: dev_pre_def dev_inv_def)
  ultimately show ?thesis using V_dev[of "s\<lparr>disk := HandleInterrupt (disk s)\<rparr>" "diskSem s"] DiskDone
    by (simp add: dev_call_def DiskRequestDone_def due_def)
next
  case ConsoleReadPoll
  obtain s1 ps where s1: "Schedule HandlerFn.ConsoleReadPoll 0 ConsoleTime ConsoleReadInt s = Inr s1" "dev_pre s1" "due s1 = due s"
    "s1 = s\<lparr>pending := ps\<rparr>"
    using Schedule_dev[OF assms(1,4), of ConsoleTime HandlerFn.ConsoleReadPoll 0 ConsoleReadInt]
    by (auto simp: dev_installed_def ConsoleTime_def TimerTicks_def)
  define c where "c = snd (Console_CheckCharAvail (console s1))"
  have live: "sems s1 (synchReadAvail s1) \<noteq> None" using s1(2) by (simp add: dev_pre_def dev_inv_def)
  have "dev_pre (s1\<lparr>console := c\<rparr>)" using s1(2) by simp
  note v = V_dev[OF this, of "synchReadAvail s1"]
  show ?thesis
  proof (cases "fst (Console_CheckCharAvail (console s1))")
    case True
    then have "dev_call h a s = Semaphore_V (synchReadAvail s1) (s1\<lparr>console := c\<rparr>)"
      using s1(1) ConsoleReadPoll by (simp add: dev_call_def CheckCharAvail_def case_prod_beta Let_def c_def)
    then show ?thesis using v live s1(3,4) by (simp add: due_def)
  next
    case False
    then have "dev_call h a s = Inr (s1\<lparr>console := c\<rparr>)"
      using s1(1) ConsoleReadPoll by (simp add: dev_call_def CheckCharAvail_def case_prod_beta Let_def c_def)
    then show ?thesis using s1 by (simp add: dev_pre_def due_def int_ok_def all_installed_def)
  qed
next
  case ConsoleWriteDone
  have "dev_pre (s\<lparr>console := Console_WriteDone (console s)\<rparr>)" using assms(1) by simp
  moreover have "sems s (synchWriteAvail s) \<noteq> None" using assms(1) by (simp add: dev_pre_def dev_inv_def)
  ultimately show ?thesis using V_dev[of "s\<lparr>console := Console_WriteDone (console s)\<rparr>" "synchWriteAvail s"] ConsoleWriteDone
    by (simp add: dev_call_def WriteDone_def due_def)
qed (use assms(2) in \<open>simp_all add: dev_installed_def\<close>)

lemma settle_load_ok:
  assumes "\<forall>m. machine s = Some m \<longrightarrow> load_ok m"
  obtains m' where "settle_load s = Inr (s\<lparr>machine := m'\<rparr>)" "m' = None \<longleftrightarrow> machine s = None" "\<forall>m. m' = Some m \<longrightarrow> load_ok m"
proof (cases "machine s")
  case None
  then show thesis using that[of None] by (simp add: settle_load_def)
next
  case (Some m)
  have "load_ok m" using assms Some by simp
  then obtain m' where m': "DelayedLoad 0 0 m = Inr m'" "reg m' LoadReg = 0"
    by (simp add: DelayedLoad_def Let_def load_ok_def set_reg_def reg_defs not_less)
  then have "load_ok m'" by (simp add: load_ok_def NumTotalRegs_def)
  then show thesis using that[of "Some m'"] m' Some by (simp add: settle_load_def)
qed

lemma settle_load_dev:
  assumes "dev_inv s"
  shows "\<exists>s'. settle_load s = Inr s' \<and> dev_inv s'"
proof -
  obtain m' where m': "settle_load s = Inr (s\<lparr>machine := m'\<rparr>)" "m' = None \<longleftrightarrow> machine s = None" "\<forall>m. m' = Some m \<longrightarrow> load_ok m"
    using settle_load_ok[of s] assms by (auto simp: dev_inv_def)
  then have "dev_inv (s\<lparr>machine := m'\<rparr>)" using assms by (simp add: dev_inv_def env_ok_def queues_live_def)
  then show ?thesis using m'(1) by blast
qed

text \<open>The device handlers meet the contract of the interrupt controller.\<close>

interpretation dev: interrupt_handlers dev_call dev_inv dev_installed
proof unfold_locales
  fix s :: "'a System_scheme" and h a
  assume "dev_inv s" "int_ok s" "all_installed dev_installed s" "dev_installed h a" "level s = IntOff" "inHandler s" "clock_ok s"
  then show "\<exists>s'. dev_call h a s = Inr s' \<and> dev_inv s' \<and> int_ok s' \<and> all_installed dev_installed s' \<and> level s' = IntOff
    \<and> now s' = now s \<and> due s' = due s"
    by (intro dev_call_served) (simp_all add: dev_pre_def)
qed (use settle_load_dev in auto)

section \<open>Interrupts are served\<close>

text \<open>
  C27. The interrupt loop terminates: with the kernel's device handlers, and the clock more than the longest delay of a
  handler (200 ticks) before the wrap-around of the 32-bit tick counter, \<open>while (CheckIfDue(FALSE))\<close>
  ends without a fault after finitely many handlers. No handler moves the clock, the kernel state stays
  well formed, interrupts are still off, the machine status is restored, and no interrupt that is due is
  left pending, except the timer of an idle machine that has nothing else to wait for. (Closer to \<open>2 ^ 31\<close> ticks the console poll
  schedules itself at a time that has wrapped around and is already due, and the loop does not end.)
\<close>

theorem interrupt_loop_terminates:
  fixes s :: "'k System_scheme"
  assumes "dev_inv s" and "int_ok s" and "all_installed dev_installed s" and "level s = IntOff" and "clock_ok s"
  shows "\<exists>s'. fire_due dev_call s = Some (Inr s') \<and> dev_inv s' \<and> int_ok s' \<and> all_installed dev_installed s'
    \<and> level s' = IntOff \<and> istatus s' = istatus s \<and> now s' = now s
    \<and> (due s' = [] \<or> istatus s = IdleMode \<and> (\<exists>w p. pending s' = [(w, p)] \<and> itype p = TimerInt))"
  using dev.fire_due_terminates[of s, unfolded dev.ready_def] assms by blast

text \<open>
  C28. \<open>Interrupt::Idle\<close> returns or halts, if neither the clock nor the time of the earliest pending interrupt is within
  200 ticks of the wrap-around of the tick counter: with nothing pending, or only the timer, it halts the machine;
  otherwise the clock moves exactly to the time of the earliest pending interrupt (never backwards), that
  interrupt and all others then due are served, and \<open>Idle\<close> returns in system mode.
\<close>

theorem idle_returns_or_halts:
  fixes s :: "'k System_scheme"
  assumes "dev_inv s" and "int_ok s" and "all_installed dev_installed s" and "level s = IntOff" and "clock_ok s"
    and "\<And>w p rest. pending s = (w, p) # rest \<Longrightarrow> clock_at w"
  shows "\<exists>r. Idle dev_call s = Some (Inr r) \<and>
    (case r of
       Halted s' \<Rightarrow> pending s = [] \<or> (\<exists>w p. pending s = [(w, p)] \<and> itype p = TimerInt)
     | Returned s' \<Rightarrow> (\<exists>w p rest. pending s = (w, p) # rest \<and> now s' = max (now s) w)
         \<and> dev_inv s' \<and> int_ok s' \<and> all_installed dev_installed s' \<and> level s' = IntOff
         \<and> istatus s' = SystemMode \<and> \<not> yieldOnReturn s')"
proof -
  have "dev.ready s" using assms(1-4) by (simp add: dev.ready_def)
  from dev.Idle_terminates[OF this assms(5)] assms(6) show ?thesis unfolding dev.ready_def conj_assoc by blast
qed

text \<open>A system for the witnesses: three semaphores, the console polling the keyboard at time 100 and a
  disk request done at time 600.\<close>

definition demo_sys :: System where
  "demo_sys =
    (let k = snd (Semaphore_new ''d'' 0 (snd (Semaphore_new ''w'' 0 (snd (Semaphore_new ''r'' 0 (Kernel_boot (\<lambda>_. 0)))))));
         d = \<lparr>dfile = (\<lambda>_. 0), active = True, lastSector = 0, bufferInit = 0, clock = 0, numDiskReads = 0, numDiskWrites = 0\<rparr>
     in (Kernel.extend k \<lparr>randomize = False, randoms = (\<lambda>_. 0), random_pos = 0, console = Console_new [97],
          synchReadAvail = 0, synchWriteAvail = 1, disk = d, diskSem = 2\<rparr>)
          \<lparr>level := IntOff, pending := [(100, PendingInterrupt_new ConsoleReadPoll 0 100 ConsoleReadInt),
             (600, PendingInterrupt_new DiskDone 0 600 DiskInt)]\<rparr>)"

lemmas demo_sys_defs = demo_sys_def Kernel_boot_def Thread_new_def Thread_init_def Semaphore_new_def Let_def
  Interrupt.defs Kernel.defs Interrupt_new_def upd_thread_def put_sem_def Statistics_new_def tick_def SystemTick_def

lemma demo_sys_ok: "dev_inv demo_sys" "int_ok demo_sys" "all_installed dev_installed demo_sys" "level demo_sys = IntOff" "clock_ok demo_sys"
  by (auto simp: clock_at_def is_int_def TimerTicks_def demo_sys_defs dev_inv_def env_ok_def queues_live_def int_ok_def all_installed_def dev_installed_def
      PendingInterrupt_new_def split: if_splits)

lemma interrupt_loop_terminates_witness:
  "dev_inv demo_sys \<and> int_ok demo_sys \<and> all_installed dev_installed demo_sys \<and> level demo_sys = IntOff
    \<and> (\<exists>s'. fire_due dev_call demo_sys = Some (Inr s') \<and> due s' = [] \<and> now s' = 10)"
proof -
  have "istatus demo_sys = SystemMode" "now demo_sys = 10" by (simp_all add: demo_sys_defs)
  with interrupt_loop_terminates[OF demo_sys_ok] demo_sys_ok show ?thesis by auto
qed

lemma idle_returns_or_halts_witness:
  "dev_inv demo_sys \<and> int_ok demo_sys \<and> all_installed dev_installed demo_sys \<and> level demo_sys = IntOff
    \<and> (\<exists>s'. Idle dev_call demo_sys = Some (Inr (Returned s')) \<and> now s' = 100 \<and> istatus s' = SystemMode)"
proof -
  have d: "now demo_sys = 10" "pending demo_sys = [(100, PendingInterrupt_new ConsoleReadPoll 0 100 ConsoleReadInt),
             (600, PendingInterrupt_new DiskDone 0 600 DiskInt)]" by (simp_all add: demo_sys_defs)
  have "pending demo_sys = (w, p) # rest \<Longrightarrow> clock_at w" for w p rest by (auto simp: d(2) clock_at_def is_int_def TimerTicks_def)
  then obtain r where r: "Idle dev_call demo_sys = Some (Inr r)" "case r of
       Halted s' \<Rightarrow> pending demo_sys = [] \<or> (\<exists>w p. pending demo_sys = [(w, p)] \<and> itype p = TimerInt)
     | Returned s' \<Rightarrow> (\<exists>w p rest. pending demo_sys = (w, p) # rest \<and> now s' = max (now demo_sys) w)
         \<and> dev_inv s' \<and> int_ok s' \<and> all_installed dev_installed s' \<and> level s' = IntOff
         \<and> istatus s' = SystemMode \<and> \<not> yieldOnReturn s'"
    using idle_returns_or_halts[OF demo_sys_ok] by blast
  then show ?thesis using demo_sys_ok d by (cases r) auto
qed

end
