(* ===== verification/Nachos_HostFS.thy ===== *)
theory Nachos_HostFS
  imports Nachos_Prelude
begin

text \<open>
  The file system of the userprog build (\<open>FILESYS_STUB\<close>): the inline classes of filesys/openfile.h and
  filesys/filesys.h on the UNIX calls of machine/sysdep.cc.

  \<open>Unix\<close> is the host: named regular files as byte sequences behind inode numbers, and the descriptor
  table with an offset per descriptor; \<open>unix_*\<close> are the POSIX calls on it, -1 for an error. File
  permissions, directories and host failures other than a full descriptor table are not modelled.
\<close>

section \<open>The host\<close>

record Unix =
  names :: "byte list \<Rightarrow> nat option"
  inodes :: "nat \<Rightarrow> byte list"
  next_inode :: nat
  fds :: "nat \<Rightarrow> (nat \<times> nat) option"

definition free_fd :: "Unix \<Rightarrow> nat option" where
  "free_fd u = find_first (\<lambda>fd. fds u fd = None) [3..<1024]"

text \<open>\<open>open\<close> with \<open>O_RDWR\<close>, and \<open>O_CREAT|O_TRUNC\<close> if \<open>creat\<close>.\<close>

definition unix_open :: "byte list \<Rightarrow> bool \<Rightarrow> Unix \<Rightarrow> int \<times> Unix" where
  "unix_open name creat u = (case free_fd u of None \<Rightarrow> (-1, u) | Some fd \<Rightarrow>
     (case names u name of
        Some ino \<Rightarrow> (int fd, u\<lparr>fds := (fds u)(fd \<mapsto> (ino, 0)), inodes := (if creat then (inodes u)(ino := []) else inodes u)\<rparr>)
      | None \<Rightarrow> if creat \<and> name \<noteq> []
          then (int fd, u\<lparr>names := (names u)(name \<mapsto> next_inode u), inodes := (inodes u)(next_inode u := []),
                  next_inode := next_inode u + 1, fds := (fds u)(fd \<mapsto> (next_inode u, 0))\<rparr>)
          else (-1, u)))"

definition unix_fd :: "int \<Rightarrow> Unix \<Rightarrow> (nat \<times> nat) option" where
  "unix_fd fd u = (if fd < 0 then None else fds u (nat fd))"

definition unix_read :: "int \<Rightarrow> int \<Rightarrow> Unix \<Rightarrow> (int \<times> byte list \<times> Unix) res" where
  "unix_read fd n u = (if n < 0 then Inl OutOfBounds else Inr (case unix_fd fd u of None \<Rightarrow> (-1, [], u)
     | Some (ino, off) \<Rightarrow> let data = take (nat n) (drop off (inodes u ino))
         in (int (length data), data, u\<lparr>fds := (fds u)(nat fd \<mapsto> (ino, off + length data))\<rparr>)))"

text \<open>The bytes of a file after a write at an offset; a gap reads as zeros.\<close>

definition splice :: "nat \<Rightarrow> byte list \<Rightarrow> byte list \<Rightarrow> byte list" where
  "splice off new old = take off (old @ replicate (off - length old) 0) @ new @ drop (off + length new) old"

definition unix_write :: "int \<Rightarrow> byte list \<Rightarrow> Unix \<Rightarrow> int \<times> Unix" where
  "unix_write fd data u = (case unix_fd fd u of None \<Rightarrow> (-1, u)
     | Some (ino, off) \<Rightarrow> (int (length data), u\<lparr>inodes := (inodes u)(ino := splice off data (inodes u ino)),
         fds := (fds u)(nat fd \<mapsto> (ino, off + length data))\<rparr>))"

definition unix_lseek :: "int \<Rightarrow> int \<Rightarrow> int \<Rightarrow> Unix \<Rightarrow> int \<times> Unix" where
  "unix_lseek fd offset whence u = (case unix_fd fd u of None \<Rightarrow> (-1, u)
     | Some (ino, off) \<Rightarrow>
        (let pos = offset + (if whence = 0 then 0 else if whence = 1 then int off else int (length (inodes u ino)))
         in if pos < 0 then (-1, u) else (pos, u\<lparr>fds := (fds u)(nat fd \<mapsto> (ino, nat pos))\<rparr>)))"

definition unix_close :: "int \<Rightarrow> Unix \<Rightarrow> int \<times> Unix" where
  "unix_close fd u = (case unix_fd fd u of None \<Rightarrow> (-1, u) | Some _ \<Rightarrow> (0, u\<lparr>fds := (fds u)(nat fd := None)\<rparr>))"

definition unix_unlink :: "byte list \<Rightarrow> Unix \<Rightarrow> int \<times> Unix" where
  "unix_unlink name u = (case names u name of None \<Rightarrow> (-1, u) | Some _ \<Rightarrow> (0, u\<lparr>names := (names u)(name := None)\<rparr>))"

section \<open>machine/sysdep.cc\<close>

definition OpenForWrite :: "byte list \<Rightarrow> Unix \<Rightarrow> (int \<times> Unix) res" where
  "OpenForWrite name u = (let (fd, u1) = unix_open name True u in bindR (ASSERT (fd \<ge> 0)) (\<lambda>_. Inr (fd, u1)))"

definition OpenForReadWrite :: "byte list \<Rightarrow> bool \<Rightarrow> Unix \<Rightarrow> (int \<times> Unix) res" where
  "OpenForReadWrite name crashOnError u = (let (fd, u1) = unix_open name False u
     in bindR (ASSERT (\<not> crashOnError \<or> fd \<ge> 0)) (\<lambda>_. Inr (fd, u1)))"

definition ReadPartial :: "int \<Rightarrow> int \<Rightarrow> Unix \<Rightarrow> (int \<times> byte list \<times> Unix) res" where
  "ReadPartial fd nBytes u = unix_read fd nBytes u"

definition Read :: "int \<Rightarrow> int \<Rightarrow> Unix \<Rightarrow> (byte list \<times> Unix) res" where
  "Read fd nBytes u = bindR (unix_read fd nBytes u) (\<lambda>(retVal, data, u). bindR (ASSERT (retVal = nBytes)) (\<lambda>_. Inr (data, u)))"

text \<open>\<open>WriteFile(fd, buffer, nBytes)\<close>: \<open>data\<close> is the buffer, of which \<open>nBytes\<close> bytes are written.\<close>

definition WriteFile :: "int \<Rightarrow> byte list \<Rightarrow> int \<Rightarrow> Unix \<Rightarrow> Unix res" where
  "WriteFile fd data nBytes u = (if nBytes < 0 \<or> nBytes > int (length data) then Inl OutOfBounds
     else (let (retVal, u1) = unix_write fd (take (nat nBytes) data) u in bindR (ASSERT (retVal = nBytes)) (\<lambda>_. Inr u1)))"

definition Lseek :: "int \<Rightarrow> int \<Rightarrow> int \<Rightarrow> Unix \<Rightarrow> Unix res" where
  "Lseek fd offset whence u = (let (retVal, u1) = unix_lseek fd offset whence u in bindR (ASSERT (retVal \<ge> 0)) (\<lambda>_. Inr u1))"

definition Tell :: "int \<Rightarrow> Unix \<Rightarrow> int" where
  "Tell fd u = fst (unix_lseek fd 0 1 u)"

definition Close :: "int \<Rightarrow> Unix \<Rightarrow> Unix res" where
  "Close fd u = (let (retVal, u1) = unix_close fd u in bindR (ASSERT (retVal \<ge> 0)) (\<lambda>_. Inr u1))"

definition Unlink :: "byte list \<Rightarrow> Unix \<Rightarrow> int \<times> Unix" where
  "Unlink name u = unix_unlink name u"

section \<open>OpenFile\<close>

record StubFile =
  fileno :: int
  currentOffset :: int
  ftype :: int

text \<open>The constructor without a type leaves \<open>type\<close> as the allocator gives it.\<close>

definition StubFile_new :: "int \<Rightarrow> int \<Rightarrow> StubFile" where
  "StubFile_new f t = \<lparr>fileno = f, currentOffset = 0, ftype = t\<rparr>"

definition StubFile_Seek :: "int \<Rightarrow> StubFile \<Rightarrow> Unix \<Rightarrow> (int \<times> StubFile \<times> Unix) res" where
  "StubFile_Seek pos f u = bindR (Lseek (fileno f) pos 0 u) (\<lambda>u.
     let f1 = f\<lparr>currentOffset := Tell (fileno f) u\<rparr> in Inr (currentOffset f1, f1, u))"

definition StubFile_ReadAt :: "int \<Rightarrow> int \<Rightarrow> StubFile \<Rightarrow> Unix \<Rightarrow> (int \<times> byte list \<times> Unix) res" where
  "StubFile_ReadAt numBytes position f u = bindR (Lseek (fileno f) position 0 u) (ReadPartial (fileno f) numBytes)"

definition StubFile_WriteAt :: "byte list \<Rightarrow> int \<Rightarrow> int \<Rightarrow> StubFile \<Rightarrow> Unix \<Rightarrow> (int \<times> Unix) res" where
  "StubFile_WriteAt data numBytes position f u = bindR (Lseek (fileno f) position 0 u) (\<lambda>u.
     bindR (WriteFile (fileno f) data numBytes u) (\<lambda>u. Inr (numBytes, u)))"

definition StubFile_Read :: "int \<Rightarrow> StubFile \<Rightarrow> Unix \<Rightarrow> (int \<times> byte list \<times> StubFile \<times> Unix) res" where
  "StubFile_Read numBytes f u = bindR (StubFile_ReadAt numBytes (currentOffset f) f u) (\<lambda>(numRead, data, u).
     Inr (numRead, data, f\<lparr>currentOffset := currentOffset f + numRead\<rparr>, u))"

definition StubFile_Write :: "byte list \<Rightarrow> int \<Rightarrow> StubFile \<Rightarrow> Unix \<Rightarrow> (int \<times> StubFile \<times> Unix) res" where
  "StubFile_Write data numBytes f u = bindR (StubFile_WriteAt data numBytes (currentOffset f) f u) (\<lambda>(numWritten, u).
     Inr (numWritten, f\<lparr>currentOffset := currentOffset f + numWritten\<rparr>, u))"

definition StubFile_Length :: "StubFile \<Rightarrow> Unix \<Rightarrow> (int \<times> Unix) res" where
  "StubFile_Length f u = bindR (Lseek (fileno f) 0 2 u) (\<lambda>u. Inr (Tell (fileno f) u, u))"

definition StubFile_GetCurrentPos :: "StubFile \<Rightarrow> Unix \<Rightarrow> int \<times> StubFile" where
  "StubFile_GetCurrentPos f u = (let f1 = f\<lparr>currentOffset := Tell (fileno f) u\<rparr> in (currentOffset f1, f1))"

definition StubFile_delete :: "StubFile \<Rightarrow> Unix \<Rightarrow> Unix res" where
  "StubFile_delete f u = Close (fileno f) u"

section \<open>FileSystem\<close>

text \<open>The open-file table holds pointers to \<open>OpenFile\<close> objects; a deleted object is \<open>None\<close> in the heap.\<close>

record StubFS =
  host :: Unix
  sf_heap :: "nat \<Rightarrow> StubFile option"
  sf_brk :: nat
  openf :: "nat option list"
  index :: int

definition StubFS_Create :: "byte list \<Rightarrow> int \<Rightarrow> StubFS \<Rightarrow> (bool \<times> StubFS) res" where
  "StubFS_Create name initialSize fs = bindR (OpenForWrite name (host fs)) (\<lambda>(fd, u).
     if fd = -1 then Inr (False, fs\<lparr>host := u\<rparr>)
     else bindR (Close fd u) (\<lambda>u. Inr (True, fs\<lparr>host := u\<rparr>)))"

definition StubFS_Open :: "byte list \<Rightarrow> int \<Rightarrow> StubFS \<Rightarrow> (nat option \<times> StubFS) res" where
  "StubFS_Open name ty fs = bindR (OpenForReadWrite name False (host fs)) (\<lambda>(fd, u).
     if fd = -1 then Inr (None, fs\<lparr>host := u\<rparr>)
     else Inr (Some (sf_brk fs), fs\<lparr>host := u, sf_heap := (sf_heap fs)(sf_brk fs \<mapsto> StubFile_new fd ty), sf_brk := sf_brk fs + 1\<rparr>))"

definition StubFS_FindFreeSlot :: "StubFS \<Rightarrow> int" where
  "StubFS_FindFreeSlot fs = (case find_first (\<lambda>i. i < length (openf fs) \<and> openf fs ! i = None) [2..<15] of None \<Rightarrow> -1 | Some i \<Rightarrow> int i)"

definition StubFS_Remove :: "byte list \<Rightarrow> StubFS \<Rightarrow> bool \<times> StubFS" where
  "StubFS_Remove name fs = (let (r, u) = Unlink name (host fs) in (r = 0, fs\<lparr>host := u\<rparr>))"

definition stub_stdin :: "byte list" where "stub_stdin = [115, 116, 100, 105, 110]"
definition stub_stdout :: "byte list" where "stub_stdout = [115, 116, 100, 111, 117, 116]"

text \<open>The constructor: a table of fifteen null pointers, then the console pseudo-files in slots 0 and 1.\<close>

definition StubFS_new :: "Unix \<Rightarrow> StubFS res" where
  "StubFS_new u =
    (let fs0 = \<lparr>host = u, sf_heap = (\<lambda>_. None), sf_brk = 0, openf = replicate 15 None, index = 0\<rparr> in
     bindR (StubFS_Create stub_stdin 0 fs0) (\<lambda>(_, fs).
     bindR (StubFS_Create stub_stdout 0 fs) (\<lambda>(_, fs).
     bindR (StubFS_Open stub_stdin 2 fs) (\<lambda>(p, fs).
     bindR (StubFS_Open stub_stdout 3 (fs\<lparr>openf := (openf fs)[0 := p], index := 1\<rparr>)) (\<lambda>(p, fs).
     Inr (fs\<lparr>openf := (openf fs)[1 := p], index := 2\<rparr>))))))"

text \<open>\<open>delete file\<close> through a pointer.\<close>

definition delete_file :: "nat \<Rightarrow> StubFS \<Rightarrow> StubFS res" where
  "delete_file p fs = (case sf_heap fs p of None \<Rightarrow> Inl DanglingPointer
     | Some f \<Rightarrow> bindR (StubFile_delete f (host fs)) (\<lambda>u. Inr (fs\<lparr>host := u, sf_heap := (sf_heap fs)(p := None)\<rparr>)))"

section \<open>Files keep what is written\<close>

lemma length_splice: "length (splice off new old) = max (length old) (off + length new)"
  by (auto simp: splice_def)

lemma splice_inside: "take (length new) (drop off (splice off new old)) = new"
  by (auto simp: splice_def)

lemma splice_outside: "off + length new \<le> i \<or> i < off \<Longrightarrow> i < length old \<Longrightarrow> splice off new old ! i = old ! i"
  by (auto simp: splice_def nth_append min_def)

lemma Lseek_set:
  assumes "unix_fd fd u = Some (ino, off)" and "0 \<le> pos"
  shows "Lseek fd pos 0 u = Inr (u\<lparr>fds := (fds u)(nat fd \<mapsto> (ino, nat pos))\<rparr>)"
  using assms by (simp add: Lseek_def unix_lseek_def)

lemma unix_fd_upd: "unix_fd fd u = Some x \<Longrightarrow> unix_fd fd (u\<lparr>fds := (fds u)(nat fd \<mapsto> y)\<rparr>) = Some y"
  by (simp add: unix_fd_def split: if_splits)

lemma WriteAt_spec:
  assumes "unix_fd (fileno f) u = Some (ino, off)" and "0 \<le> pos"
  shows "StubFile_WriteAt data (int (length data)) pos f u = Inr (int (length data),
    u\<lparr>inodes := (inodes u)(ino := splice (nat pos) data (inodes u ino)),
      fds := (fds u)(nat (fileno f) \<mapsto> (ino, nat pos + length data))\<rparr>)"
  using unix_fd_upd[OF assms(1), of "(ino, nat pos)"]
  by (simp add: StubFile_WriteAt_def Lseek_set[OF assms] WriteFile_def unix_write_def)

lemma ReadAt_spec:
  assumes "unix_fd (fileno f) u = Some (ino, off)" and "0 \<le> pos" and "0 \<le> n"
  shows "StubFile_ReadAt n pos f u = (let data = take (nat n) (drop (nat pos) (inodes u ino))
    in Inr (int (length data), data, u\<lparr>fds := (fds u)(nat (fileno f) \<mapsto> (ino, nat pos + length data))\<rparr>))"
  using unix_fd_upd[OF assms(1), of "(ino, nat pos)"] assms(3)
  by (simp add: StubFile_ReadAt_def Lseek_set[OF assms(1,2)] ReadPartial_def unix_read_def Let_def)

text \<open>
  A file keeps what is written to it: on an open file of the userprog build, \<open>WriteAt\<close> at any
  position (also beyond the end) followed by \<open>ReadAt\<close> of the same range returns exactly the bytes
  written; the rest of the file keeps its bytes, and no other file of the host changes.
\<close>

theorem host_write_read:
  assumes "unix_fd (fileno f) u = Some (ino, off)" and "0 \<le> pos"
  shows "\<exists>u1 u2. StubFile_WriteAt data (int (length data)) pos f u = Inr (int (length data), u1)
    \<and> StubFile_ReadAt (int (length data)) pos f u1 = Inr (int (length data), data, u2)
    \<and> names u2 = names u
    \<and> (\<forall>j. j \<noteq> ino \<longrightarrow> inodes u2 j = inodes u j)
    \<and> (\<forall>i < length (inodes u ino). i < nat pos \<or> nat pos + length data \<le> i \<longrightarrow> inodes u2 ino ! i = inodes u ino ! i)"
proof -
  define u1 where "u1 = u\<lparr>inodes := (inodes u)(ino := splice (nat pos) data (inodes u ino)),
      fds := (fds u)(nat (fileno f) \<mapsto> (ino, nat pos + length data))\<rparr>"
  have "0 \<le> fileno f" using assms(1) by (simp add: unix_fd_def split: if_splits)
  then have "unix_fd (fileno f) u1 = Some (ino, nat pos + length data)" by (simp add: u1_def unix_fd_def)
  note rd = ReadAt_spec[OF this assms(2), of "int (length data)"]
  have "take (length data) (drop (nat pos) (inodes u1 ino)) = data" by (simp add: u1_def splice_inside)
  then obtain u2 where "StubFile_ReadAt (int (length data)) pos f u1 = Inr (int (length data), data, u2)"
    "names u2 = names u1" "inodes u2 = inodes u1" using rd by (simp add: Let_def)
  moreover have "StubFile_WriteAt data (int (length data)) pos f u = Inr (int (length data), u1)"
    using WriteAt_spec[OF assms] by (simp add: u1_def)
  ultimately show ?thesis by (auto simp: u1_def splice_outside)
qed

definition demo_unix :: Unix where
  "demo_unix = \<lparr>names = (\<lambda>n. if n = [97] then Some 0 else None), inodes = (\<lambda>i. if i = 0 then [1, 2, 3] else []),
     next_inode = 1, fds = (\<lambda>d. if d = 3 then Some (0, 0) else None)\<rparr>"

lemma host_write_read_witness:
  "unix_fd 3 demo_unix = Some (0, 0)
    \<and> (\<exists>u1 u2. StubFile_WriteAt [7, 8] 2 1 (StubFile_new 3 0) demo_unix = Inr (2, u1)
      \<and> StubFile_ReadAt 2 1 (StubFile_new 3 0) u1 = Inr (2, [7, 8], u2) \<and> inodes u2 0 ! 0 = 1)"
proof -
  have "unix_fd (fileno (StubFile_new 3 0)) demo_unix = Some (0, 0)" "unix_fd 3 demo_unix = Some (0, 0)"
    "0 < length (inodes demo_unix 0)" "inodes demo_unix 0 ! 0 = 1"
    by (simp_all add: unix_fd_def demo_unix_def StubFile_new_def)
  with host_write_read[OF this(1), of 1 "[7, 8]"] show ?thesis by fastforce
qed

end
