(* ===== verification/Nachos_Process.thy ===== *)
theory Nachos_Process
  imports Nachos_Sched Nachos_BitMap Nachos_Console Nachos_HostFS
begin

text \<open>
  threads/pcb.*, ptable.*, stable.*: processes, the process table and the table of named semaphores.

  \<open>OS\<close> extends the kernel by the tables, the userprog file system, the console and the bitmap of physical
  pages. PCB objects are in a heap (\<open>None\<close>: deleted) and the table holds pointers to them.

  These operations call \<open>P\<close>, which may not return before other threads have run. Their code is therefore a
  tree: \<open>KP i s k\<close> is the call of \<open>P\<close> on semaphore \<open>i\<close> in state \<open>s\<close>, and \<open>k\<close> the rest of the code, run in
  the state in which \<open>P\<close> returns. \<open>KFinish\<close> is the call of \<open>Thread::Finish\<close>, which does not return, and
  \<open>KHalt\<close> that of \<open>Interrupt::Halt\<close>. \<open>KInput\<close> is a console read for which nothing more is typed. \<open>uncontended\<close> runs through every \<open>P\<close> that does not have to wait.
\<close>

section \<open>Code that may wait\<close>

datatype 's kprog = KRet int 's | KFault fault | KHalt 's | KFinish 's | KInput 's | KP nat 's "'s \<Rightarrow> 's kprog"

primrec bindK :: "'s kprog \<Rightarrow> (int \<Rightarrow> 's \<Rightarrow> 's kprog) \<Rightarrow> 's kprog" where
  "bindK (KRet r s) f = f r s"
| "bindK (KFault e) f = KFault e"
| "bindK (KHalt s) f = KHalt s"
| "bindK (KFinish s) f = KFinish s"
| "bindK (KInput s) f = KInput s"
| "bindK (KP i s k) f = KP i s (\<lambda>s. bindK (k s) f)"

definition liftK :: "'a res \<Rightarrow> ('a \<Rightarrow> 's kprog) \<Rightarrow> 's kprog" where
  "liftK r f = (case r of Inl e \<Rightarrow> KFault e | Inr x \<Rightarrow> f x)"

lemma liftK_simps [simp]: "liftK (Inr x) f = f x" "liftK (Inl e) f = KFault e"
  by (simp_all add: liftK_def)

definition semP :: "nat \<Rightarrow> 's \<Rightarrow> 's kprog" where
  "semP i s = KP i s (KRet 0)"

definition semV :: "nat \<Rightarrow> 'k Kernel_scheme \<Rightarrow> 'k Kernel_scheme kprog" where
  "semV i s = liftK (Semaphore_V i s) (KRet 0)"

text \<open>A \<open>P\<close> that finds the value positive returns at once.\<close>

definition took :: "nat \<Rightarrow> 'k Kernel_scheme \<Rightarrow> 'k Kernel_scheme" where
  "took i s = (case Semaphore_P i s of Inr s' \<Rightarrow> s' | Inl _ \<Rightarrow> s)"

primrec uncontended :: "('k Kernel_scheme) kprog \<Rightarrow> ('k Kernel_scheme) kprog" where
  "uncontended (KRet r s) = KRet r s"
| "uncontended (KFault e) = KFault e"
| "uncontended (KHalt s) = KHalt s"
| "uncontended (KFinish s) = KFinish s"
| "uncontended (KInput s) = KInput s"
| "uncontended (KP i s k) = (if sems s i = None then KFault DanglingPointer
     else if value_of s i = 0 then KP i s k else (\<lambda>s. uncontended (k s)) (took i s))"

section \<open>State\<close>

definition MAX_PROCESS :: nat where "MAX_PROCESS = 10"
definition MAX_SEMAPHORE :: nat where "MAX_SEMAPHORE = 10"

record PCB =
  joinsem :: nat
  exitsem :: nat
  multex :: nat
  exitcode :: int
  numwait :: int
  pcb_name :: "byte list"
  pcb_thread :: "nat option"
  parentID :: int
  pid :: int

record Sem =
  sm_name :: "byte list"
  sm_sem :: nat

record OS = Kernel +
  fs :: StubFS
  cons :: Console
  gPhysPageBitMap :: BitMap
  addrLock :: nat
  psize :: int
  pcb :: "nat option list"
  pcb_heap :: "nat \<Rightarrow> PCB option"
  pcb_brk :: nat
  bmsem :: nat
  st_bm :: BitMap
  semTab :: "Sem option list"
  consSems :: "nat list"

text \<open>A C string in a buffer: the bytes before the first zero byte.\<close>

definition cstr :: "byte list \<Rightarrow> byte list" where
  "cstr bs = takeWhile (\<lambda>b. b \<noteq> 0) bs"

definition to_string :: "byte list \<Rightarrow> string" where
  "to_string bs = map (\<lambda>b. char_of (unat b)) (cstr bs)"

definition get_pcb :: "int \<Rightarrow> 'k OS_scheme \<Rightarrow> (nat \<times> PCB) res" where
  "get_pcb i s = (if i < 0 \<or> i \<ge> int (length (pcb s)) then Inl OutOfBounds
     else (case pcb s ! nat i of None \<Rightarrow> Inl NullPointer
       | Some a \<Rightarrow> (case pcb_heap s a of None \<Rightarrow> Inl DanglingPointer | Some p \<Rightarrow> Inr (a, p))))"

definition put_pcb :: "nat \<Rightarrow> PCB \<Rightarrow> 'k OS_scheme \<Rightarrow> 'k OS_scheme" where
  "put_pcb a p s = s\<lparr>pcb_heap := (pcb_heap s)(a \<mapsto> p)\<rparr>"

definition deref_pcb :: "nat \<Rightarrow> 'k OS_scheme \<Rightarrow> PCB res" where
  "deref_pcb a s = (case pcb_heap s a of None \<Rightarrow> Inl DanglingPointer | Some p \<Rightarrow> Inr p)"

section \<open>PCB\<close>

text \<open>\<open>new PCB(id)\<close>. The constructor creates the semaphores and nothing else: the other fields, and \<open>pid\<close>
  among them, are what the allocator returns (\<open>junk\<close>).\<close>

definition PCB_new :: "PCB \<Rightarrow> int \<Rightarrow> 'k OS_scheme \<Rightarrow> nat \<times> 'k OS_scheme" where
  "PCB_new junk i s =
    (let (j, s) = Semaphore_new ''joinsem'' 0 s;
         (e, s) = Semaphore_new ''exitsem'' 0 s;
         (m, s) = Semaphore_new ''multex'' 1 s;
         a = pcb_brk s
     in (a, (put_pcb a (junk\<lparr>joinsem := j, exitsem := e, multex := m\<rparr>) s)\<lparr>pcb_brk := a + 1\<rparr>))"

definition PCB_Exec :: "byte list \<Rightarrow> int \<Rightarrow> nat \<Rightarrow> (nat \<Rightarrow> word32) \<Rightarrow> 'k OS_scheme \<Rightarrow> ('k OS_scheme) kprog" where
  "PCB_Exec filename i a regs s =
    liftK (deref_pcb a s) (\<lambda>p.
    bindK (semP (multex p) s) (\<lambda>_ s.
    let (t, s) = Thread_new (to_string filename) regs s;
        s = upd_thread t (\<lambda>th. th\<lparr>processID := i\<rparr>) s in
    liftK (deref_pcb a s) (\<lambda>p.
    liftK (get_thread (currentThread s) s) (\<lambda>cur.
    let s = put_pcb a (p\<lparr>pcb_thread := Some t, parentID := processID cur\<rparr>) s in
    liftK (Thread_Fork t StartProcess_2 i s) (\<lambda>s.
    bindK (semV (multex p) s) (\<lambda>_ s. KRet i s))))))"

definition PCB_JoinWait :: "nat \<Rightarrow> 'k OS_scheme \<Rightarrow> ('k OS_scheme) kprog" where
  "PCB_JoinWait a s = liftK (deref_pcb a s) (\<lambda>p. semP (joinsem p) s)"

definition PCB_ExitWait :: "nat \<Rightarrow> 'k OS_scheme \<Rightarrow> ('k OS_scheme) kprog" where
  "PCB_ExitWait a s = liftK (deref_pcb a s) (\<lambda>p. semP (exitsem p) s)"

definition PCB_JoinRelease :: "nat \<Rightarrow> 'k OS_scheme \<Rightarrow> ('k OS_scheme) kprog" where
  "PCB_JoinRelease a s = liftK (deref_pcb a s) (\<lambda>p. semV (joinsem p) s)"

definition PCB_ExitRelease :: "nat \<Rightarrow> 'k OS_scheme \<Rightarrow> ('k OS_scheme) kprog" where
  "PCB_ExitRelease a s = liftK (deref_pcb a s) (\<lambda>p. semV (exitsem p) s)"

definition PCB_IncNumWait :: "nat \<Rightarrow> 'k OS_scheme \<Rightarrow> ('k OS_scheme) kprog" where
  "PCB_IncNumWait a s = liftK (deref_pcb a s) (\<lambda>p.
    bindK (semP (multex p) s) (\<lambda>_ s.
    liftK (deref_pcb a s) (\<lambda>p. semV (multex p) (put_pcb a (p\<lparr>numwait := i32 (numwait p + 1)\<rparr>) s))))"

definition PCB_DecNumWait :: "nat \<Rightarrow> 'k OS_scheme \<Rightarrow> ('k OS_scheme) kprog" where
  "PCB_DecNumWait a s = liftK (deref_pcb a s) (\<lambda>p.
    bindK (semP (multex p) s) (\<lambda>_ s.
    liftK (deref_pcb a s) (\<lambda>p. semV (multex p)
      (put_pcb a (if numwait p \<noteq> 0 then p\<lparr>numwait := i32 (numwait p - 1)\<rparr> else p) s))))"

definition PCB_SetExitCode :: "int \<Rightarrow> nat \<Rightarrow> 'k OS_scheme \<Rightarrow> ('k OS_scheme) res" where
  "PCB_SetExitCode ec a s = bindR (deref_pcb a s) (\<lambda>p. Inr (put_pcb a (p\<lparr>exitcode := ec\<rparr>) s))"

text \<open>\<open>strcpy\<close> into an array of 255 bytes.\<close>

definition PCB_SetFileName :: "byte list \<Rightarrow> nat \<Rightarrow> 'k OS_scheme \<Rightarrow> ('k OS_scheme) res" where
  "PCB_SetFileName fn a s = bindR (deref_pcb a s) (\<lambda>p.
     if length (cstr fn) \<ge> 255 then Inl OutOfBounds else Inr (put_pcb a (p\<lparr>pcb_name := cstr fn @ [0]\<rparr>) s))"

text \<open>\<open>delete pcb\<close>. \<open>FreeSpace\<close> frees the address space object; the pointer to it stays, and the only later
  use of it is the empty \<open>SaveState\<close>. \<open>Finish\<close> does not return, so nothing after it is executed; without a
  thread the next statement is \<open>delete[] name\<close> on an array inside the object, which is not the allocator's.\<close>

definition PCB_delete :: "nat \<Rightarrow> 'k OS_scheme \<Rightarrow> ('k OS_scheme) kprog" where
  "PCB_delete a s =
    liftK (deref_pcb a s) (\<lambda>p.
    liftK (Semaphore_delete (joinsem p) s) (\<lambda>s.
    liftK (Semaphore_delete (exitsem p) s) (\<lambda>s.
    liftK (Semaphore_delete (multex p) s) (\<lambda>s.
    case pcb_thread p of
      Some t \<Rightarrow> if t = currentThread s then KFinish s else KFault AssertFailed
    | None \<Rightarrow> KFault DanglingPointer))))"

section \<open>PTable\<close>

definition PTable_new :: "(nat \<Rightarrow> word32) \<Rightarrow> PCB \<Rightarrow> int \<Rightarrow> 'k OS_scheme \<Rightarrow> ('k OS_scheme) res" where
  "PTable_new jw junk sz s = (if sz < 0 \<or> sz > 10 then Inr s else
    bindR (BitMap_new jw sz) (\<lambda>bm.
    bindR (BitMap_Mark 0 bm) (\<lambda>bm.
    let s = s\<lparr>psize := sz, pcb := replicate (nat sz) None @ drop (nat sz) (pcb s)\<rparr>;
        (b, s) = Semaphore_new ''bmsem'' 1 s;
        (a, s) = PCB_new junk 0 (s\<lparr>bmsem := b\<rparr>)
    in bindR (deref_pcb a s) (\<lambda>p. Inr (put_pcb a (p\<lparr>parentID := -1\<rparr>) (s\<lparr>pcb := (pcb s)[0 := Some a]\<rparr>))))))"

definition GetFreeSlot :: "'k OS_scheme \<Rightarrow> int" where
  "GetFreeSlot s = (case find_first (\<lambda>i. pcb s ! i = None) [0..<nat (psize s)] of None \<Rightarrow> -1 | Some i \<Rightarrow> int i)"

definition IsExist :: "int \<Rightarrow> 'k OS_scheme \<Rightarrow> bool res" where
  "IsExist i s = (if i < 0 \<or> i \<ge> int (length (pcb s)) then Inl OutOfBounds else Inr (pcb s ! nat i \<noteq> None))"

definition PTable_GetFileName :: "int \<Rightarrow> 'k OS_scheme \<Rightarrow> (byte list) res" where
  "PTable_GetFileName i s = bindR (get_pcb i s) (\<lambda>(a, p). Inr (pcb_name p))"

text \<open>\<open>Remove\<close>: the slot is cleared after the destructor, if that returns.\<close>

definition PTable_Remove :: "int \<Rightarrow> 'k OS_scheme \<Rightarrow> ('k OS_scheme) kprog" where
  "PTable_Remove i s = (if i < 0 \<or> i \<ge> int (length (pcb s)) then KFault OutOfBounds else
     (case pcb s ! nat i of None \<Rightarrow> KRet 0 s
      | Some a \<Rightarrow> bindK (PCB_delete a s) (\<lambda>_ s. KRet 0 (s\<lparr>pcb := (pcb s)[nat i := None]\<rparr>))))"

definition ExecUpdate :: "PCB \<Rightarrow> (nat \<Rightarrow> word32) \<Rightarrow> int \<Rightarrow> byte list \<Rightarrow> 'k OS_scheme \<Rightarrow> ('k OS_scheme) kprog" where
  "ExecUpdate junk regs jt name s =
    bindK (semP (bmsem s) s) (\<lambda>_ s.
    liftK (StubFS_Open (cstr name) jt (fs s)) (\<lambda>(executable, f).
    let s = s\<lparr>fs := f\<rparr> in
    if executable = None then bindK (semV (bmsem s) s) (\<lambda>_ s. KRet (-1) s) else
    liftK (get_thread (currentThread s) s) (\<lambda>cur.
    if to_string name = tname cur then bindK (semV (bmsem s) s) (\<lambda>_ s. KRet (-1) s) else
    let ix = GetFreeSlot s in
    if ix < 0 then bindK (semV (bmsem s) s) (\<lambda>_ s. KRet (-1) s) else
    let (a, s) = PCB_new junk ix s;
        s = s\<lparr>pcb := (pcb s)[nat ix := Some a]\<rparr> in
    liftK (PCB_SetFileName name a s) (\<lambda>s.
    liftK (deref_pcb a s) (\<lambda>p.
    let s = put_pcb a (p\<lparr>parentID := processID cur\<rparr>) s in
    bindK (PCB_Exec name ix a regs s) (\<lambda>r s.
    bindK (semV (bmsem s) s) (\<lambda>_ s. KRet r s)))))))"

definition ExitUpdate :: "int \<Rightarrow> 'k OS_scheme \<Rightarrow> ('k OS_scheme) kprog" where
  "ExitUpdate extcode s =
    liftK (get_thread (currentThread s) s) (\<lambda>cur.
    let i = processID cur in
    if i = 0 then KHalt s else
    liftK (IsExist i s) (\<lambda>ex.
    if \<not> ex then KRet (-1) s else
    liftK (get_pcb i s) (\<lambda>(a, p).
    liftK (PCB_SetExitCode extcode a s) (\<lambda>s.
    liftK (get_pcb (parentID p) s) (\<lambda>(b, q).
    bindK (PCB_DecNumWait b s) (\<lambda>_ s.
    liftK (get_pcb i s) (\<lambda>(a, _).
    bindK (PCB_JoinRelease a s) (\<lambda>_ s.
    bindK (PCB_ExitWait a s) (\<lambda>_ s.
    bindK (PTable_Remove i s) (\<lambda>_ s. KRet extcode s))))))))))"

definition JoinUpdate :: "int \<Rightarrow> 'k OS_scheme \<Rightarrow> ('k OS_scheme) kprog" where
  "JoinUpdate i s =
    liftK (get_thread (currentThread s) s) (\<lambda>cur.
    if i < 0 \<or> i \<ge> psize s \<or> pcb s ! nat i = None then KRet (-1) s else
    liftK (get_pcb i s) (\<lambda>(a, p).
    if parentID p \<noteq> processID cur then KRet (-1) s else
    liftK (get_pcb (parentID p) s) (\<lambda>(b, q).
    bindK (PCB_IncNumWait b s) (\<lambda>_ s.
    liftK (get_pcb i s) (\<lambda>(a, _).
    bindK (PCB_JoinWait a s) (\<lambda>_ s.
    liftK (get_pcb i s) (\<lambda>(a, p).
    let extcode = exitcode p in
    bindK (PCB_ExitRelease a s) (\<lambda>_ s. KRet extcode s))))))))"

section \<open>STable\<close>

text \<open>\<open>new Sem(na, i)\<close>: \<open>strcpy\<close> into an array of 50 bytes.\<close>

definition Sem_new :: "byte list \<Rightarrow> int \<Rightarrow> 'k OS_scheme \<Rightarrow> (Sem \<times> 'k OS_scheme) res" where
  "Sem_new na i s = (if length (cstr na) \<ge> 50 then Inl OutOfBounds else
     (let (j, s) = Semaphore_new (to_string na) i s in Inr (\<lparr>sm_name = cstr na @ [0], sm_sem = j\<rparr>, s)))"

definition STable_new :: "(nat \<Rightarrow> word32) \<Rightarrow> 'k OS_scheme \<Rightarrow> ('k OS_scheme) res" where
  "STable_new jw s = bindR (BitMap_new jw (int MAX_SEMAPHORE)) (\<lambda>bm.
     Inr (s\<lparr>st_bm := bm, semTab := replicate MAX_SEMAPHORE None\<rparr>))"

definition get_Sem :: "nat \<Rightarrow> 'k OS_scheme \<Rightarrow> Sem res" where
  "get_Sem i s = (if i \<ge> length (semTab s) then Inl OutOfBounds
     else (case semTab s ! i of None \<Rightarrow> Inl NullPointer | Some se \<Rightarrow> Inr se))"

text \<open>The search loop that \<open>Create\<close>, \<open>Wait\<close> and \<open>Signal\<close> share: the first used slot with the name.\<close>

fun st_search :: "byte list \<Rightarrow> 'k OS_scheme \<Rightarrow> nat list \<Rightarrow> (nat option) res" where
  "st_search name s [] = Inr None"
| "st_search name s (i # is) = bindR (BitMap_Test (int i) (st_bm s)) (\<lambda>t.
     if t then bindR (get_Sem i s) (\<lambda>se. if cstr name = cstr (sm_name se) then Inr (Some i) else st_search name s is)
     else st_search name s is)"

definition STable_FindFreeSlot :: "'k OS_scheme \<Rightarrow> (int \<times> 'k OS_scheme) res" where
  "STable_FindFreeSlot s = bindR (BitMap_Find (st_bm s)) (\<lambda>(i, bm). Inr (i, s\<lparr>st_bm := bm\<rparr>))"

definition STable_Create :: "byte list \<Rightarrow> int \<Rightarrow> 'k OS_scheme \<Rightarrow> (int \<times> 'k OS_scheme) res" where
  "STable_Create name init s =
    bindR (st_search name s [0..<MAX_SEMAPHORE]) (\<lambda>found.
    if found \<noteq> None then Inr (-1, s) else
    bindR (STable_FindFreeSlot s) (\<lambda>(i, s).
    if i < 0 then Inr (-1, s) else
    bindR (Sem_new name init s) (\<lambda>(se, s). Inr (0, s\<lparr>semTab := (semTab s)[nat i := Some se]\<rparr>))))"

definition STable_Wait :: "byte list \<Rightarrow> 'k OS_scheme \<Rightarrow> ('k OS_scheme) kprog" where
  "STable_Wait name s =
    liftK (st_search name s [0..<MAX_SEMAPHORE]) (\<lambda>found. case found of
      None \<Rightarrow> KRet (-1) s
    | Some i \<Rightarrow> liftK (get_Sem i s) (\<lambda>se. bindK (semP (sm_sem se) s) (\<lambda>_ s. KRet 0 s)))"

definition STable_Signal :: "byte list \<Rightarrow> 'k OS_scheme \<Rightarrow> ('k OS_scheme) kprog" where
  "STable_Signal name s =
    liftK (st_search name s [0..<MAX_SEMAPHORE]) (\<lambda>found. case found of
      None \<Rightarrow> KRet (-1) s
    | Some i \<Rightarrow> liftK (get_Sem i s) (\<lambda>se. bindK (semV (sm_sem se) s) (\<lambda>_ s. KRet 0 s)))"

section \<open>Initialize\<close>

text \<open>
  threads/system.cc: the kernel objects of the userprog build, in the order in which \<open>Initialize\<close> creates
  them, from zeroed globals. \<open>junk\<close>, \<open>jw\<close> and \<open>jp\<close> are what the allocator returns for a thread's registers,
  for the words of a bitmap and for a PCB; \<open>input\<close> is what will be typed and \<open>u\<close> the host. The constructor of the
  console starts the polling of the keyboard and creates its four semaphores (\<open>consSems\<close>); there is no timer without the option \<open>-rs\<close>.
\<close>

definition globals0 :: "Kernel \<Rightarrow> byte list \<Rightarrow> Unix \<Rightarrow> OS" where
  "globals0 k input u = Kernel.extend k
     \<lparr>fs = \<lparr>host = u, sf_heap = (\<lambda>_. None), sf_brk = 0, openf = [], index = 0\<rparr>, cons = Console_new input,
      gPhysPageBitMap = \<lparr>numBits = 0, numWords = 0, bmap = []\<rparr>, addrLock = 0, psize = 0,
      pcb = replicate MAX_PROCESS None, pcb_heap = (\<lambda>_. None), pcb_brk = 0, bmsem = 0,
      st_bm = \<lparr>numBits = 0, numWords = 0, bmap = []\<rparr>, semTab = [], consSems = []\<rparr>"

definition Initialize_console :: "'k OS_scheme \<Rightarrow> 'k OS_scheme res" where
  "Initialize_console s = bindR (Schedule ConsoleReadPoll 0 ConsoleTime ConsoleReadInt s) (\<lambda>s.
     let (r, s) = Semaphore_new ''Synch Read Avail'' 0 s;
         (w, s) = Semaphore_new ''Synch Write Avail'' 0 s;
         (rl, s) = Semaphore_new ''Read Synch Line Block'' 1 s;
         (wl, s) = Semaphore_new ''Write Synch Line Block'' 1 s
     in Inr (s\<lparr>consSems := [r, w, rl, wl]\<rparr>))"

definition Initialize :: "(nat \<Rightarrow> word32) \<Rightarrow> (nat \<Rightarrow> word32) \<Rightarrow> PCB \<Rightarrow> Machine \<Rightarrow> byte list \<Rightarrow> Unix \<Rightarrow> OS res" where
  "Initialize junk jw jp m input u =
    bindR (Initialize_console (globals0 ((Kernel_boot junk)\<lparr>machine := Some m\<rparr>) input u)) (\<lambda>s.
    bindR (BitMap_new jw 256) (\<lambda>bm.
    bindR (PTable_new jw jp 10 (s\<lparr>gPhysPageBitMap := bm\<rparr>)) (\<lambda>s.
    let (l, s) = Semaphore_new ''addrLock'' 1 s in
    bindR (STable_new jw (s\<lparr>addrLock := l\<rparr>)) (\<lambda>s.
    bindR (StubFS_new u) (\<lambda>f. Inr (s\<lparr>fs := f\<rparr>))))))"

end
