(* ===== verification/Nachos_ProcInv.thy ===== *)
theory Nachos_ProcInv
  imports Nachos_Process
begin

text \<open>
  What the tables of processes and of named semaphores promise: the semaphore table is a map from names to
  semaphores (C30); a Join waits for the child's Exit and returns its exit code (C31, C32); a slot of the
  process table is never released (C33); \<open>Initialize\<close> establishes the invariants (C34).
\<close>

section \<open>The semaphore table is a map\<close>

lemma cstr_idem [simp]: "cstr (cstr bs @ [0]) = cstr bs" "cstr (cstr bs) = cstr bs"
proof -
  have "\<forall>b\<in>set (cstr bs). b \<noteq> 0" by (auto simp: cstr_def dest: set_takeWhileD)
  then show "cstr (cstr bs @ [0]) = cstr bs" "cstr (cstr bs) = cstr bs"
    by (simp_all add: cstr_def takeWhile_append2)
qed

lemma find_first_unique: "i \<in> set is \<Longrightarrow> (\<And>j. j \<in> set is \<Longrightarrow> p j \<longleftrightarrow> j = i) \<Longrightarrow> find_first p is = Some i"
  by (induction "is") auto

definition st_at :: "'k OS_scheme \<Rightarrow> byte list \<Rightarrow> nat \<Rightarrow> bool" where
  "st_at s k i \<longleftrightarrow> i \<in> bm_set (st_bm s) \<and> (\<exists>se. semTab s ! i = Some se \<and> cstr (sm_name se) = k)"

text \<open>The semaphore a name stands for.\<close>

definition st_map :: "'k OS_scheme \<Rightarrow> byte list \<Rightarrow> nat option" where
  "st_map s k = map_option (\<lambda>i. sm_sem (the (semTab s ! i))) (find_first (st_at s k) [0..<MAX_SEMAPHORE])"

definition st_ok :: "'k OS_scheme \<Rightarrow> bool" where
  "st_ok s \<longleftrightarrow> bm_ok (st_bm s) \<and> bm_size (st_bm s) = MAX_SEMAPHORE \<and> length (semTab s) = MAX_SEMAPHORE
     \<and> (\<forall>i\<in>bm_set (st_bm s). semTab s ! i \<noteq> None)"

lemma st_search_eq:
  assumes "st_ok s" and "set is \<subseteq> {..<MAX_SEMAPHORE}"
  shows "st_search name s is = Inr (find_first (st_at s (cstr name)) is)"
  using assms(2)
proof (induction "is")
  case (Cons i "is")
  then have i: "i < MAX_SEMAPHORE" by simp
  then have t: "BitMap_Test (int i) (st_bm s) = Inr (i \<in> bm_set (st_bm s))"
    using assms(1) by (simp add: BitMap_Test_eq st_ok_def)
  show ?case
  proof (cases "i \<in> bm_set (st_bm s)")
    case True
    then obtain se where "semTab s ! i = Some se" using assms(1) by (auto simp: st_ok_def)
    then show ?thesis using Cons t True i assms(1) by (auto simp: get_Sem_def st_at_def st_ok_def)
  next
    case False
    then show ?thesis using Cons t by (simp add: st_at_def)
  qed
qed simp

lemma st_search_map:
  assumes "st_ok s"
  shows "st_search name s [0..<MAX_SEMAPHORE] = Inr (find_first (st_at s (cstr name)) [0..<MAX_SEMAPHORE])"
  using assms by (intro st_search_eq) auto

lemma st_slot:
  assumes "find_first (st_at s k) [0..<MAX_SEMAPHORE] = Some i" and "st_ok s"
  obtains se where "get_Sem i s = Inr se" "st_map s k = Some (sm_sem se)"
proof -
  from find_first_Some[OF assms(1)] have i: "i < MAX_SEMAPHORE" "st_at s k i" by auto
  then obtain se where "semTab s ! i = Some se" by (auto simp: st_at_def)
  with i assms show ?thesis by (intro that[of se]) (simp_all add: get_Sem_def st_ok_def st_map_def)
qed

lemma Semaphore_new_frame:
  "Semaphore_new nm v s = (i, s') \<Longrightarrow> i = next_sem s \<and> s' = s\<lparr>sems := (sems s)(i \<mapsto> \<lparr>sem_name = nm, sem_value = v, sem_queue = []\<rparr>), next_sem := i + 1\<rparr>"
  by (auto simp: Semaphore_new_def Let_def put_sem_def)

lemma create_new:
  assumes "st_ok s" and "st_map s (cstr name) = None" and "bm_set (st_bm s) \<noteq> {..<MAX_SEMAPHORE}" and "length (cstr name) < 50"
  shows "\<exists>s'. STable_Create name init s = Inr (0, s') \<and> st_ok s' \<and> st_map s' = (st_map s)(cstr name \<mapsto> next_sem s)
    \<and> sems s' = (sems s)(next_sem s \<mapsto> \<lparr>sem_name = to_string name, sem_value = init, sem_queue = []\<rparr>)"
proof -
  have none: "find_first (st_at s (cstr name)) [0..<MAX_SEMAPHORE] = None" using assms(2) by (simp add: st_map_def)
  obtain i bm where bm: "BitMap_Find (st_bm s) = Inr (int i, bm)" "i < MAX_SEMAPHORE" "i \<notin> bm_set (st_bm s)"
    "bm_ok bm" "bm_size bm = MAX_SEMAPHORE" "bm_set bm = insert i (bm_set (st_bm s))"
    using bm.find_free[of "st_bm s"] assms(1,3) by (auto simp: st_ok_def)
  define se where "se = \<lparr>sm_name = cstr name @ [0], sm_sem = next_sem s\<rparr>"
  define s' where "s' = s\<lparr>st_bm := bm, sems := (sems s)(next_sem s \<mapsto> \<lparr>sem_name = to_string name, sem_value = init, sem_queue = []\<rparr>),
    next_sem := next_sem s + 1, semTab := (semTab s)[i := Some se]\<rparr>"
  have "STable_Create name init s = Inr (0, s')"
    using st_search_map[OF assms(1)] none bm(1) assms(4)
    by (simp add: STable_Create_def STable_FindFreeSlot_def Sem_new_def Semaphore_new_def put_sem_def Let_def s'_def se_def)
  moreover have len: "length (semTab s) = MAX_SEMAPHORE" using assms(1) by (simp add: st_ok_def)
  then have "st_ok s'" using assms(1) bm by (auto simp: st_ok_def s'_def nth_list_update)
  moreover have "st_map s' k = ((st_map s)(cstr name \<mapsto> next_sem s)) k" for k
  proof (cases "k = cstr name")
    case True
    have "st_at s' k j \<longleftrightarrow> j = i" if "j < MAX_SEMAPHORE" for j
      using none that bm len True unfolding find_first_None by (auto simp: st_at_def s'_def se_def nth_list_update)
    then have "find_first (st_at s' k) [0..<MAX_SEMAPHORE] = Some i" using bm(2) by (intro find_first_unique) auto
    then show ?thesis using True bm(2) len by (simp add: st_map_def s'_def se_def)
  next
    case False
    have eq: "st_at s' k j \<longleftrightarrow> st_at s k j" if "j < MAX_SEMAPHORE" for j
      using False that bm len by (auto simp: st_at_def s'_def se_def nth_list_update)
    have "find_first (st_at s' k) [0..<MAX_SEMAPHORE] = find_first (st_at s k) [0..<MAX_SEMAPHORE]"
      by (rule find_first_cong) (simp add: eq)
    moreover have "j \<noteq> i" if "find_first (st_at s k) [0..<MAX_SEMAPHORE] = Some j" for j
      using find_first_Some[OF that] bm(3) by (auto simp: st_at_def)
    ultimately show ?thesis using False
      by (cases "find_first (st_at s k) [0..<MAX_SEMAPHORE]") (auto simp: st_map_def s'_def)
  qed
  ultimately show ?thesis by (auto simp: s'_def)
qed

lemma create_rejects:
  assumes "st_ok s" and "st_map s (cstr name) \<noteq> None \<or> bm_set (st_bm s) = {..<MAX_SEMAPHORE}"
  shows "STable_Create name init s = Inr (-1, s)"
proof (cases "st_map s (cstr name)")
  case None
  then have "find_first (st_at s (cstr name)) [0..<MAX_SEMAPHORE] = None" by (simp add: st_map_def)
  moreover have "BitMap_Find (st_bm s) = Inr (-1, st_bm s)"
    using bm.find_full[of "st_bm s"] assms None by (simp add: st_ok_def)
  ultimately show ?thesis using st_search_map[OF assms(1)]
    by (simp add: STable_Create_def STable_FindFreeSlot_def)
next
  case (Some j)
  then show ?thesis using st_search_map[OF assms(1), of name]
    by (cases "find_first (st_at s (cstr name)) [0..<MAX_SEMAPHORE]") (simp_all add: st_map_def STable_Create_def)
qed

lemma wait_signal_map:
  assumes "st_ok s"
  shows "STable_Wait name s = (case st_map s (cstr name) of None \<Rightarrow> KRet (-1) s | Some i \<Rightarrow> KP i s (KRet 0))"
    and "STable_Signal name s = (case st_map s (cstr name) of None \<Rightarrow> KRet (-1) s | Some i \<Rightarrow> liftK (Semaphore_V i s) (KRet 0))"
proof -
  note sm = st_search_map[OF assms, of name]
  show "STable_Wait name s = (case st_map s (cstr name) of None \<Rightarrow> KRet (-1) s | Some i \<Rightarrow> KP i s (KRet 0))"
  proof (cases "find_first (st_at s (cstr name)) [0..<MAX_SEMAPHORE]")
    case None
    then show ?thesis using sm by (simp add: STable_Wait_def st_map_def)
  next
    case (Some i)
    then show ?thesis using sm by (rule_tac st_slot[OF Some assms]) (simp add: STable_Wait_def semP_def)
  qed
  show "STable_Signal name s = (case st_map s (cstr name) of None \<Rightarrow> KRet (-1) s | Some i \<Rightarrow> liftK (Semaphore_V i s) (KRet 0))"
  proof (cases "find_first (st_at s (cstr name)) [0..<MAX_SEMAPHORE]")
    case None
    then show ?thesis using sm by (simp add: STable_Signal_def st_map_def)
  next
    case (Some i)
    obtain se where "get_Sem i s = Inr se" "st_map s (cstr name) = Some (sm_sem se)" by (rule st_slot[OF Some assms])
    then show ?thesis using sm Some
      by (cases "Semaphore_V (sm_sem se) s") (simp_all add: STable_Signal_def semV_def)
  qed
qed

section \<open>Join and Exit\<close>

lemma bindK_assoc: "bindK (bindK t f) g = bindK t (\<lambda>r s. bindK (f r s) g)"
  by (induction t) simp_all

lemma bindK_liftK: "bindK (liftK r f) g = liftK r (\<lambda>x. bindK (f x) g)"
  by (cases r) simp_all

lemma bindK_semV: "bindK (semV i s) f = liftK (Semaphore_V i s) (f 0)"
  by (cases "Semaphore_V i s") (simp_all add: semV_def)

lemma OS_more:
  "Kernel.more s' = Kernel.more s \<Longrightarrow> pcb s' = pcb s \<and> pcb_heap s' = pcb_heap s \<and> psize s' = psize s \<and> pcb_brk s' = pcb_brk s"
  by (cases s; cases s') simp

lemma put_pcb_frame [simp]:
  "kinv (put_pcb a p s) = kinv s" "value_of (put_pcb a p s) = value_of s" "sems (put_pcb a p s) = sems s"
  "pcb (put_pcb a p s) = pcb s" "pcb_heap (put_pcb a p s) = (pcb_heap s)(a \<mapsto> p)" "psize (put_pcb a p s) = psize s"
  "threads (put_pcb a p s) = threads s" "currentThread (put_pcb a p s) = currentThread s"
  by (simp_all add: put_pcb_def kinv_def env_ok_def view_def value_of_def fun_eq_iff)

lemma took_eq:
  assumes "executing s" and "sems s i = Some se" and "sem_value se \<noteq> 0"
  shows "took i s = put_sem i (se\<lparr>sem_value := i32 (sem_value se - 1)\<rparr>) s"
  using P_takes[OF assms] by (simp add: took_def)

lemma uncontended_P:
  assumes "executing s" and "sems s i = Some se" and "sem_value se \<noteq> 0"
  shows "uncontended (bindK (semP i s) f) = uncontended (f 0 (put_sem i (se\<lparr>sem_value := i32 (sem_value se - 1)\<rparr>) s))"
  using assms by (simp add: semP_def took_eq value_of_def)

lemma value_put_sem [simp]: "value_of (put_sem i se s) j = (if j = i then sem_value se else value_of s j)"
  by (simp add: value_of_def)

lemma pcb_put_sem [simp]: "pcb (put_sem i se s) = pcb s" "pcb_heap (put_sem i se s) = pcb_heap s" "psize (put_sem i se s) = psize s"
  by (simp_all add: put_sem_def)

text \<open>\<open>V\<close> in a well-formed state.\<close>

lemma V_os:
  assumes "kinv s" and "sems s i \<noteq> None"
  shows "\<exists>s'. Semaphore_V i s = Inr s' \<and> kinv s' \<and> pcb s' = pcb s \<and> pcb_heap s' = pcb_heap s \<and> psize s' = psize s
    \<and> dom (sems s') = dom (sems s) \<and> (\<forall>j. value_of s' j = (if j = i then i32 (value_of s j + 1) else value_of s j))"
proof -
  obtain s' where s': "Semaphore_V i s = Inr s'" "kinv s'" "view s' = a_V i (view s)" using V_ok[OF assms] by blast
  have "\<forall>j. value_of s' j = (if j = i then i32 (value_of s j + 1) else value_of s j)"
    using assms(2) by (auto simp: value_of_view s'(3) vval_V view_sem)
  then show ?thesis using s'(1,2) V_frame[OF s'(1)] OS_more[of s' s] by blast
qed

text \<open>\<open>IncNumWait\<close> and \<open>DecNumWait\<close> with the mutex free.\<close>

lemma numwait_section:
  assumes "kinv s" and "executing s" and "pcb_heap s b = Some q" and "sems s (multex q) = Some se" and "sem_value se \<noteq> 0"
    and "multex (g q) = multex q"
  shows "\<exists>s'. uncontended (bindK (liftK (deref_pcb b s) (\<lambda>p. bindK (semP (multex p) s) (\<lambda>_ s.
        liftK (deref_pcb b s) (\<lambda>p. semV (multex p) (put_pcb b (g p) s))))) f) = uncontended (f 0 s')
    \<and> kinv s' \<and> pcb s' = pcb s \<and> psize s' = psize s \<and> pcb_heap s' = (pcb_heap s)(b \<mapsto> g q) \<and> dom (sems s') = dom (sems s)
    \<and> value_of s' = value_of s"
proof -
  define s1 where "s1 = put_sem (multex q) (se\<lparr>sem_value := i32 (sem_value se - 1)\<rparr>) s"
  have "kinv s1" using served_Inr[OF P_ok[OF assms(1,2), of "multex q"] P_takes[OF assms(2,4,5)]] assms(4) by (simp add: s1_def)
  then have k: "kinv (put_pcb b (g q) s1)" by simp
  have nn: "sems (put_pcb b (g q) s1) (multex q) \<noteq> None" by (simp add: s1_def)
  obtain s' where s': "Semaphore_V (multex q) (put_pcb b (g q) s1) = Inr s'" "kinv s'" "pcb s' = pcb s1"
      "pcb_heap s' = (pcb_heap s1)(b \<mapsto> g q)" "psize s' = psize s1" "dom (sems s') = dom (sems s1)"
      "\<forall>j. value_of s' j = (if j = multex q then i32 (value_of s1 j + 1) else value_of s1 j)"
    using V_os[OF k nn] by auto
  have "i32 (i32 (sem_value se - 1) + 1) = sem_value se"
    using i32_int[OF value_is_int[OF assms(1)], of "multex q"] assms(4) by (simp add: i32_add value_of_def)
  then have "value_of s' = value_of s" using s'(7) assms(4) by (auto simp: s1_def value_of_def)
  moreover have "dom (sems s') = dom (sems s)" using s'(6) assms(4) by (auto simp: s1_def)
  moreover have "uncontended (bindK (liftK (deref_pcb b s) (\<lambda>p. bindK (semP (multex p) s) (\<lambda>_ s.
        liftK (deref_pcb b s) (\<lambda>p. semV (multex p) (put_pcb b (g p) s))))) f) = uncontended (f 0 s')"
    using assms(3) s'(1) uncontended_P[OF assms(2,4,5)]
    by (simp add: deref_pcb_def bindK_assoc bindK_liftK bindK_semV s1_def)
  ultimately show ?thesis using s' by (auto simp: s1_def)
qed

text \<open>
  What the two calls need of the tables: process \<open>i\<close> has a PCB \<open>p\<close> at \<open>a\<close>, its parent's PCB \<open>q\<close> is at
  another address \<open>b\<close>, the semaphores of \<open>p\<close> are alive and the parent's mutex is free.
\<close>

definition linked :: "'k OS_scheme \<Rightarrow> int \<Rightarrow> nat \<Rightarrow> PCB \<Rightarrow> nat \<Rightarrow> PCB \<Rightarrow> bool" where
  "linked s i a p b q \<longleftrightarrow> 0 \<le> i \<and> i < psize s \<and> psize s \<le> int (length (pcb s))
     \<and> get_pcb i s = Inr (a, p) \<and> get_pcb (parentID p) s = Inr (b, q) \<and> a \<noteq> b
     \<and> sems s (joinsem p) \<noteq> None \<and> sems s (exitsem p) \<noteq> None \<and> sems s (multex q) \<noteq> None \<and> value_of s (multex q) \<noteq> 0"

lemma get_pcb_heap: "get_pcb i s = Inr (a, p) \<Longrightarrow> pcb_heap s a = Some p \<and> 0 \<le> i \<and> i < int (length (pcb s)) \<and> pcb s ! nat i = Some a"
  by (auto simp: get_pcb_def split: if_splits option.splits)

lemma get_pcbI: "0 \<le> i \<Longrightarrow> i < int (length (pcb s)) \<Longrightarrow> pcb s ! nat i = Some a \<Longrightarrow> pcb_heap s a = Some p \<Longrightarrow> get_pcb i s = Inr (a, p)"
  by (simp add: get_pcb_def)

lemma value_sem: "sems s i \<noteq> None \<Longrightarrow> \<exists>se. sems s i = Some se \<and> value_of s i = sem_value se"
  by (auto simp: value_of_def)

text \<open>
  C31. \<open>JoinUpdate\<close> waits for the child's exit and returns its exit code: a parent that joins a live child
  comes to wait on the child's \<open>joinsem\<close>, with the process table and the child's PCB unchanged; and in whatever
  state that wait ends, as long as the child's PCB is still there, the call returns the exit code then in the
  PCB and signals \<open>exitsem\<close>, which lets the child go.
\<close>

theorem join_waits_for_exit:
  assumes "kinv s" and "executing s" and "threads s (currentThread s) = Some cur" and "linked s i a p b q"
    and "parentID p = processID cur" and "value_of s (joinsem p) = 0"
  shows "\<exists>s1 k. uncontended (JoinUpdate i s) = KP (joinsem p) s1 k
    \<and> pcb s1 = pcb s \<and> pcb_heap s1 a = Some p \<and> value_of s1 = value_of s
    \<and> (\<forall>s4 p'. kinv s4 \<and> pcb s4 = pcb s \<and> pcb_heap s4 a = Some p' \<and> sems s4 (exitsem p') \<noteq> None \<longrightarrow>
         (\<exists>s5. k s4 = KRet (exitcode p') s5 \<and> value_of s5 (exitsem p') = i32 (value_of s4 (exitsem p') + 1)))"
proof -
  note l = assms(4)[unfolded linked_def]
  obtain se where se: "sems s (multex q) = Some se" "sem_value se \<noteq> 0" using l value_sem[of s "multex q"] by force
  have hb: "pcb_heap s b = Some q" and ha: "pcb_heap s a = Some p" "pcb s ! nat i = Some a" "i < int (length (pcb s))"
    using l get_pcb_heap by blast+
  let ?g = "\<lambda>p. p\<lparr>numwait := i32 (numwait p + 1)\<rparr>"
  define rest where "rest = (\<lambda>(s :: 'a OS_scheme). liftK (get_pcb i s) (\<lambda>(a, p). bindK (PCB_ExitRelease a s) (\<lambda>_ s. KRet (exitcode p) s)))"
  define f where "f = (\<lambda>(_ :: int) s. liftK (get_pcb i s) (\<lambda>(a, _). bindK (PCB_JoinWait a s) (\<lambda>_ s. rest s)))"
  have start: "JoinUpdate i s = bindK (PCB_IncNumWait b s) f"
    using assms(3,5) l ha(2) by (simp add: JoinUpdate_def get_thread_def f_def rest_def)
  obtain s' where s': "uncontended (bindK (PCB_IncNumWait b s) f) = uncontended (f 0 s')" "pcb s' = pcb s"
    "pcb_heap s' = (pcb_heap s)(b \<mapsto> ?g q)" "dom (sems s') = dom (sems s)" "value_of s' = value_of s"
    using numwait_section[OF assms(1,2) hb se, of ?g f] unfolding PCB_IncNumWait_def by force
  have ha': "pcb_heap s' a = Some p" using s'(3) ha(1) l by simp
  then have gp: "get_pcb i s' = Inr (a, p)" using ha l s'(2) by (intro get_pcbI) auto
  have "sems s' (joinsem p) \<noteq> None" using l s'(4) by auto
  then have "uncontended (f 0 s') = KP (joinsem p) s' rest"
    using gp ha' s'(5) assms(6) by (simp add: f_def PCB_JoinWait_def deref_pcb_def semP_def bindK_liftK)
  moreover have "\<exists>s5. rest s4 = KRet (exitcode p') s5 \<and> value_of s5 (exitsem p') = i32 (value_of s4 (exitsem p') + 1)"
    if k: "kinv s4" "pcb s4 = pcb s" "pcb_heap s4 a = Some p'" "sems s4 (exitsem p') \<noteq> None" for s4 :: "'a OS_scheme" and p'
  proof -
    have "get_pcb i s4 = Inr (a, p')" using k ha l by (intro get_pcbI) auto
    moreover obtain s5 where "Semaphore_V (exitsem p') s4 = Inr s5" "value_of s5 (exitsem p') = i32 (value_of s4 (exitsem p') + 1)"
      using V_os[OF k(1,4)] by auto
    ultimately show ?thesis using k(3) by (simp add: rest_def PCB_ExitRelease_def deref_pcb_def bindK_liftK semV_def)
  qed
  ultimately show ?thesis using start s' ha' by auto
qed

text \<open>
  C32. \<open>ExitUpdate\<close> is the other half: a process that exits posts its exit code in its PCB, signals its
  \<open>joinsem\<close> exactly once and then waits on its \<open>exitsem\<close>; when that wait ends the thread finishes, and the slot
  of the process table is still occupied.
\<close>

theorem exit_hands_over_code:
  assumes "kinv s" and "executing s" and "threads s (currentThread s) = Some cur" and "processID cur = i" and "i \<noteq> 0"
    and "linked s i a p b q" and "value_of s (exitsem p) = 0" and "joinsem p \<noteq> exitsem p"
  shows "\<exists>s1 k. uncontended (ExitUpdate ec s) = KP (exitsem p) s1 k
    \<and> pcb s1 = pcb s \<and> pcb_heap s1 a = Some (p\<lparr>exitcode := ec\<rparr>)
    \<and> value_of s1 (joinsem p) = i32 (value_of s (joinsem p) + 1)
    \<and> (\<forall>s2 p' t. pcb s2 = pcb s \<and> pcb_heap s2 a = Some p' \<and> pcb_thread p' = Some t \<and> currentThread s2 = t
         \<and> sems s2 (joinsem p') \<noteq> None \<and> sems s2 (exitsem p') \<noteq> None \<and> sems s2 (multex p') \<noteq> None
         \<and> distinct [joinsem p', exitsem p', multex p']
         \<longrightarrow> (\<exists>s3. k s2 = KFinish s3 \<and> pcb s3 = pcb s2))"
proof -
  note l = assms(6)[unfolded linked_def]
  obtain se where se: "sems s (multex q) = Some se" "sem_value se \<noteq> 0" using l value_sem[of s "multex q"] by force
  have hb: "pcb_heap s b = Some q" and ha: "pcb_heap s a = Some p" "pcb s ! nat i = Some a" "i < int (length (pcb s))"
    and hq: "0 \<le> parentID p" "parentID p < int (length (pcb s))" "pcb s ! nat (parentID p) = Some b"
    using l get_pcb_heap by blast+
  let ?g = "\<lambda>p. if numwait p \<noteq> 0 then p\<lparr>numwait := i32 (numwait p - 1)\<rparr> else p"
  let ?s0 = "put_pcb a (p\<lparr>exitcode := ec\<rparr>) s"
  define rest where "rest = (\<lambda>(s :: 'a OS_scheme). bindK (PTable_Remove i s) (\<lambda>_ s. KRet ec s))"
  define f where "f = (\<lambda>(_ :: int) s. liftK (get_pcb i s) (\<lambda>(a, _). bindK (PCB_JoinRelease a s) (\<lambda>_ s. bindK (PCB_ExitWait a s) (\<lambda>_ s. rest s))))"
  have gq: "get_pcb (parentID p) ?s0 = Inr (b, q)" using hq hb l by (intro get_pcbI) auto
  have start: "ExitUpdate ec s = bindK (PCB_DecNumWait b ?s0) f"
    using assms(3-5) l ha gq
    by (simp add: ExitUpdate_def get_thread_def IsExist_def PCB_SetExitCode_def deref_pcb_def f_def rest_def)
  have pre: "kinv ?s0" "executing ?s0" "pcb_heap ?s0 b = Some q" "sems ?s0 (multex q) = Some se"
    using assms(1,2) hb l se by (auto simp: executing_def resume_of_def put_pcb_def[of _ _ s] kinv_def env_ok_def view_def)
  obtain s' where s': "uncontended (bindK (PCB_DecNumWait b ?s0) f) = uncontended (f 0 s')" "kinv s'" "pcb s' = pcb s"
    "pcb_heap s' = (pcb_heap ?s0)(b \<mapsto> ?g q)" "dom (sems s') = dom (sems s)" "value_of s' = value_of s"
    using numwait_section[OF pre se(2), of ?g f] unfolding PCB_DecNumWait_def by (force split: if_splits)
  have ha': "pcb_heap s' a = Some (p\<lparr>exitcode := ec\<rparr>)" using s'(4) l by simp
  then have gp: "get_pcb i s' = Inr (a, p\<lparr>exitcode := ec\<rparr>)" using ha l s'(3) by (intro get_pcbI) auto
  have js: "sems s' (joinsem p) \<noteq> None" using l s'(5) by auto
  obtain s1 where s1: "Semaphore_V (joinsem p) s' = Inr s1" "pcb s1 = pcb s'" "pcb_heap s1 = pcb_heap s'"
    "dom (sems s1) = dom (sems s')" "\<forall>j. value_of s1 j = (if j = joinsem p then i32 (value_of s' j + 1) else value_of s' j)"
    using V_os[OF s'(2) js] by blast
  have es: "sems s1 (exitsem p) \<noteq> None" "value_of s1 (exitsem p) = 0" using l s1(4,5) s'(5,6) assms(7,8) by auto
  have "uncontended (f 0 s') = KP (exitsem p) s1 rest"
    using gp ha' s1 es by (simp add: f_def PCB_JoinRelease_def PCB_ExitWait_def deref_pcb_def semP_def bindK_liftK bindK_semV)
  moreover have "\<exists>s3. rest s2 = KFinish s3 \<and> pcb s3 = pcb s2"
    if k: "pcb s2 = pcb s" "pcb_heap s2 a = Some p'" "pcb_thread p' = Some t" "currentThread s2 = t"
      "sems s2 (joinsem p') \<noteq> None" "sems s2 (exitsem p') \<noteq> None" "sems s2 (multex p') \<noteq> None"
      "distinct [joinsem p', exitsem p', multex p']" for s2 :: "'a OS_scheme" and p' t
    using k ha l by (auto simp: rest_def PTable_Remove_def PCB_delete_def deref_pcb_def Semaphore_delete_def get_sem_def)
  ultimately show ?thesis using start s'(1,3,6) s1 ha' by auto
qed

section \<open>Slots of the process table\<close>

definition my_pid :: "'k OS_scheme \<Rightarrow> int option" where
  "my_pid s = map_option processID (threads s (currentThread s))"

text \<open>What is always true of the tables: a process whose slot is empty, or whose PCB has no thread yet,
  has no thread; PCBs and threads are allocated below their allocation pointers.\<close>

definition proc_ok :: "'k OS_scheme \<Rightarrow> bool" where
  "proc_ok s \<longleftrightarrow> psize s \<le> int (length (pcb s)) \<and> threads s (currentThread s) \<noteq> None
     \<and> (\<forall>t th. threads s t = Some th \<longrightarrow> t < next_thread s)
     \<and> (\<forall>i a. i < length (pcb s) \<longrightarrow> pcb s ! i = Some a \<longrightarrow> a < pcb_brk s)
     \<and> (\<forall>i t th. 0 < i \<longrightarrow> i < length (pcb s) \<longrightarrow> threads s t = Some th \<longrightarrow> processID th = int i \<longrightarrow>
          (\<exists>a. pcb s ! i = Some a \<and> (\<forall>p. pcb_heap s a = Some p \<longrightarrow> pcb_thread p \<noteq> None)))"

text \<open>What an operation guarantees, and relies on from the other threads while it waits: a used slot stays
  as it is, and a thread keeps its process id.\<close>

definition same_slots :: "'k OS_scheme \<Rightarrow> 'k OS_scheme \<Rightarrow> bool" where
  "same_slots s s' \<longleftrightarrow> length (pcb s') = length (pcb s) \<and> psize s' = psize s \<and> (\<forall>i<length (pcb s). pcb s ! i \<noteq> None \<longrightarrow> pcb s' ! i = pcb s ! i)
     \<and> my_pid s' = my_pid s"

lemma same_slots_refl [simp]: "same_slots s s"
  by (simp add: same_slots_def)

lemma same_slots_trans: "same_slots s s' \<Longrightarrow> same_slots s' s'' \<Longrightarrow> same_slots s s''"
  by (auto simp: same_slots_def)

primrec keeps_slots :: "('k OS_scheme) kprog \<Rightarrow> 'k OS_scheme \<Rightarrow> bool" where
  "keeps_slots (KRet r s) s0 = (proc_ok s \<and> same_slots s0 s)"
| "keeps_slots (KFault e) s0 = True"
| "keeps_slots (KHalt s) s0 = True"
| "keeps_slots (KFinish s) s0 = (proc_ok s \<and> same_slots s0 s)"
| "keeps_slots (KInput s) s0 = (proc_ok s \<and> same_slots s0 s)"
| "keeps_slots (KP i s k) s0 = (proc_ok s \<and> same_slots s0 s \<and>
     (\<forall>s'. proc_ok s' \<and> same_slots s s' \<longrightarrow> (\<lambda>x. keeps_slots (k x)) s' s'))"

lemma keeps_trans: "keeps_slots t s \<Longrightarrow> same_slots s0 s \<Longrightarrow> keeps_slots t s0"
  by (cases t) (auto intro: same_slots_trans)

lemma keeps_bind:
  "keeps_slots t s0 \<Longrightarrow> (\<And>r s. proc_ok s \<Longrightarrow> same_slots s0 s \<Longrightarrow> keeps_slots (f r s) s) \<Longrightarrow> keeps_slots (bindK t f) s0"
proof (induction t arbitrary: s0)
  case (KRet r s)
  then show ?case by (auto intro: keeps_trans)
next
  case (KP i s k)
  have "keeps_slots (bindK (k s') f) s'" if s': "proc_ok s'" "same_slots s s'" for s'
  proof (rule KP.IH)
    show "keeps_slots (k s') s'" using KP.prems(1) s' by simp
    fix r s'' assume "proc_ok s''" "same_slots s' s''"
    moreover have "same_slots s0 s''" using KP.prems(1) s'(2) \<open>same_slots s' s''\<close> by (auto intro: same_slots_trans)
    ultimately show "keeps_slots (f r s'') s''" by (intro KP.prems(2))
  qed simp
  then show ?case using KP.prems(1) by simp
qed simp_all

lemma keeps_lift: "(\<And>x. r = Inr x \<Longrightarrow> keeps_slots (f x) s) \<Longrightarrow> keeps_slots (liftK r f) s"
  by (cases r) simp_all

lemma keeps_P: "proc_ok s \<Longrightarrow> keeps_slots (semP i s) s"
  by (simp add: semP_def)

text \<open>The state changes of the operations.\<close>

lemma proc_ok_cong:
  assumes "proc_ok s" and "pcb s' = pcb s" "pcb_heap s' = pcb_heap s" "psize s' = psize s" "pcb_brk s' = pcb_brk s"
    "currentThread s' = currentThread s" "next_thread s' = next_thread s"
    and th: "\<And>t. map_option processID (threads s' t) = map_option processID (threads s t)"
  shows "proc_ok s'" "same_slots s s'"
proof -
  have ex: "\<exists>th. threads s t = Some th \<and> processID th = processID th'" if "threads s' t = Some th'" for t th'
    using th[of t] that by (cases "threads s t") auto
  have cur: "threads s' (currentThread s) \<noteq> None" using th[of "currentThread s"] assms(1) by (auto simp: proc_ok_def)
  have "\<exists>a. pcb s ! i = Some a \<and> (\<forall>p. pcb_heap s a = Some p \<longrightarrow> pcb_thread p \<noteq> None)"
    if a: "0 < i" "i < length (pcb s)" "threads s' t = Some th'" "processID th' = int i" for i t th'
  proof -
    obtain th where "threads s t = Some th" "processID th = int i" using ex[OF a(3)] a(4) by auto
    then show ?thesis using assms(1) a(1,2) unfolding proc_ok_def by blast
  qed
  moreover have "t < next_thread s" if "threads s' t = Some th'" for t th'
    using ex[OF that] assms(1) by (auto simp: proc_ok_def)
  ultimately show "proc_ok s'" using assms(1-7) cur unfolding proc_ok_def by simp
  show "same_slots s s'" using assms(2,4,6) th by (simp add: same_slots_def my_pid_def)
qed

lemma keeps_V: "proc_ok s \<Longrightarrow> keeps_slots (semV i s) s"
proof (unfold semV_def, rule keeps_lift)
  fix s' assume "proc_ok s" and v: "Semaphore_V i s = Inr s'"
  then show "keeps_slots (KRet 0 s') s"
    using proc_ok_cong[of s s'] V_frame[OF v] OS_more[of s' s] by simp
qed

lemma put_pcb_ok:
  assumes "proc_ok s" and "pcb_heap s a = Some p" and "pcb_thread p' = None \<Longrightarrow> pcb_thread p = None"
  shows "proc_ok (put_pcb a p' s)" "same_slots s (put_pcb a p' s)"
proof -
  have nt: "next_thread (put_pcb a p' s) = next_thread s" "pcb_brk (put_pcb a p' s) = pcb_brk s" by (simp_all add: put_pcb_def)
  have "\<exists>b. pcb s ! i = Some b \<and> (\<forall>q. ((pcb_heap s)(a \<mapsto> p')) b = Some q \<longrightarrow> pcb_thread q \<noteq> None)"
    if i: "0 < i" "i < length (pcb s)" "threads s t = Some th" "processID th = int i" for i t th
  proof -
    obtain b where b: "pcb s ! i = Some b" "\<forall>q. pcb_heap s b = Some q \<longrightarrow> pcb_thread q \<noteq> None"
      using assms(1) i unfolding proc_ok_def by blast
    have "\<forall>q. ((pcb_heap s)(a \<mapsto> p')) b = Some q \<longrightarrow> pcb_thread q \<noteq> None"
      using b(2) assms(2,3) by (cases "b = a"; cases "pcb_thread p'") auto
    with b(1) show ?thesis by blast
  qed
  then show "proc_ok (put_pcb a p' s)" using assms(1) nt unfolding proc_ok_def by simp
  show "same_slots s (put_pcb a p' s)" by (simp add: same_slots_def my_pid_def)
qed

lemma deref_heap: "deref_pcb a s = Inr p \<Longrightarrow> pcb_heap s a = Some p"
  by (simp add: deref_pcb_def split: option.splits)

lemma keeps_numwait:
  assumes "proc_ok s" and "\<And>p. pcb_thread (g p) = pcb_thread p"
  shows "keeps_slots (liftK (deref_pcb b s) (\<lambda>p. bindK (semP (multex p) s) (\<lambda>_ s.
        liftK (deref_pcb b s) (\<lambda>p. semV (multex p) (put_pcb b (g p) s))))) s"
proof (intro keeps_lift keeps_bind keeps_P assms(1))
  fix p s1 p1 assume s1: "proc_ok s1" "deref_pcb b s1 = Inr p1"
  have "proc_ok (put_pcb b (g p1) s1)" "same_slots s1 (put_pcb b (g p1) s1)"
    using put_pcb_ok[OF s1(1) deref_heap[OF s1(2)], of "g p1"] assms(2) by simp_all
  then show "keeps_slots (semV (multex p1) (put_pcb b (g p1) s1)) s1" by (intro keeps_trans[OF keeps_V])
qed

lemma keeps_Inc: "proc_ok s \<Longrightarrow> keeps_slots (PCB_IncNumWait b s) s"
  unfolding PCB_IncNumWait_def by (rule keeps_numwait) simp_all

lemma keeps_Dec: "proc_ok s \<Longrightarrow> keeps_slots (PCB_DecNumWait b s) s"
  unfolding PCB_DecNumWait_def by (rule keeps_numwait) simp_all

lemma keeps_Join: "proc_ok s \<Longrightarrow> keeps_slots (JoinUpdate i s) s"
  unfolding JoinUpdate_def PCB_JoinWait_def PCB_ExitRelease_def Let_def
  by (auto intro!: keeps_lift keeps_bind keeps_P keeps_V keeps_Inc split: prod.splits)

text \<open>The destructor of a PCB with a thread never returns.\<close>

lemma PCB_delete_finishes:
  assumes "\<And>p. pcb_heap s a = Some p \<Longrightarrow> pcb_thread p \<noteq> None"
  shows "(\<exists>e. PCB_delete a s = KFault e) \<or> (\<exists>ss. PCB_delete a s = KFinish (s\<lparr>sems := ss\<rparr>))"
proof (cases "pcb_heap s a")
  case (Some p)
  then obtain t where "pcb_thread p = Some t" using assms by blast
  with Some show ?thesis
    by (auto simp: PCB_delete_def deref_pcb_def Semaphore_delete_def get_sem_def split: option.splits)
qed (simp add: PCB_delete_def deref_pcb_def)

lemma keeps_Remove:
  assumes "proc_ok s" and "my_pid s = Some i" and "i \<noteq> 0"
  shows "keeps_slots (PTable_Remove i s) s"
proof (cases "i < 0 \<or> i \<ge> int (length (pcb s))")
  case False
  obtain th where "threads s (currentThread s) = Some th" "processID th = i" using assms(2) by (auto simp: my_pid_def)
  moreover have "0 < nat i" "nat i < length (pcb s)" "int (nat i) = i" using False assms(3) by auto
  ultimately obtain a where a: "pcb s ! nat i = Some a" and th: "\<And>p. pcb_heap s a = Some p \<Longrightarrow> pcb_thread p \<noteq> None"
    using assms(1) unfolding proc_ok_def by metis
  have "proc_ok (s\<lparr>sems := ss\<rparr>)" "same_slots s (s\<lparr>sems := ss\<rparr>)" for ss
    using proc_ok_cong[OF assms(1), of "s\<lparr>sems := ss\<rparr>"] by simp_all
  note ok = this
  have "(\<exists>e. PCB_delete a s = KFault e) \<or> (\<exists>ss. PCB_delete a s = KFinish (s\<lparr>sems := ss\<rparr>))"
    by (rule PCB_delete_finishes) (rule th)
  then show ?thesis
  proof (elim disjE exE)
    fix ss assume "PCB_delete a s = KFinish (s\<lparr>sems := ss\<rparr>)"
    then show ?thesis using False a ok[of ss] by (simp add: PTable_Remove_def)
  qed (use False a in \<open>simp add: PTable_Remove_def\<close>)
qed (simp add: PTable_Remove_def)

lemma keeps_Exit:
  assumes "proc_ok s"
  shows "keeps_slots (ExitUpdate ec s) s"
  unfolding ExitUpdate_def Let_def
proof (intro keeps_lift)
  fix cur assume cur: "get_thread (currentThread s) s = Inr cur"
  then have me: "my_pid s = Some (processID cur)" by (simp add: get_thread_def my_pid_def split: option.splits)
  have tail: "keeps_slots (bindK (PCB_DecNumWait b s1) (\<lambda>_ s. liftK (get_pcb (processID cur) s) (\<lambda>(a, _).
      bindK (PCB_JoinRelease a s) (\<lambda>_ s. bindK (PCB_ExitWait a s) (\<lambda>_ s.
      bindK (PTable_Remove (processID cur) s) (\<lambda>_ s. KRet ec s)))))) s1"
    if s1: "proc_ok s1" "my_pid s1 = Some (processID cur)" and "processID cur \<noteq> 0" for b and s1 :: "'a OS_scheme"
  proof (rule keeps_bind[OF keeps_Dec[OF s1(1)]])
    fix r s2 assume s2: "proc_ok s2" "same_slots s1 s2"
    show "keeps_slots (liftK (get_pcb (processID cur) s2) (\<lambda>(a, _). bindK (PCB_JoinRelease a s2) (\<lambda>_ s. bindK (PCB_ExitWait a s)
        (\<lambda>_ s. bindK (PTable_Remove (processID cur) s) (\<lambda>_ s. KRet ec s))))) s2"
      unfolding PCB_JoinRelease_def PCB_ExitWait_def
    proof (auto intro!: keeps_lift keeps_bind keeps_P keeps_V s2(1) split: prod.splits)
      fix s3 s4 assume "same_slots s2 s3" "proc_ok s4" "same_slots s3 s4"
      then have "my_pid s4 = Some (processID cur)" using s1(2) s2(2) by (simp add: same_slots_def)
      then show "keeps_slots (PTable_Remove (processID cur) s4) s4" using \<open>proc_ok s4\<close> that(3) by (intro keeps_Remove)
    qed
  qed
  show "keeps_slots (if processID cur = 0 then KHalt s else
    liftK (IsExist (processID cur) s) (\<lambda>ex. if \<not> ex then KRet (-1) s else
    liftK (get_pcb (processID cur) s) (\<lambda>(a, p).
    liftK (PCB_SetExitCode ec a s) (\<lambda>s.
    liftK (get_pcb (parentID p) s) (\<lambda>(b, q).
    bindK (PCB_DecNumWait b s) (\<lambda>_ s. liftK (get_pcb (processID cur) s) (\<lambda>(a, _).
      bindK (PCB_JoinRelease a s) (\<lambda>_ s. bindK (PCB_ExitWait a s) (\<lambda>_ s.
      bindK (PTable_Remove (processID cur) s) (\<lambda>_ s. KRet ec s)))))))))) s"
  proof (auto intro!: keeps_lift simp: assms split: prod.splits)
    fix a p s1 b q assume nz: "processID cur \<noteq> 0" and s1: "PCB_SetExitCode ec a s = Inr s1"
    then obtain p' where p': "pcb_heap s a = Some p'" "s1 = put_pcb a (p'\<lparr>exitcode := ec\<rparr>) s"
      by (auto simp: PCB_SetExitCode_def bindR_eq_Inr dest: deref_heap)
    have k: "proc_ok s1" "same_slots s s1" unfolding p'(2) by (rule put_pcb_ok[OF assms p'(1)]; simp)+
    then have "my_pid s1 = Some (processID cur)" using me by (simp add: same_slots_def)
    from keeps_trans[OF tail[OF k(1) this nz] k(2)]
    show "keeps_slots (bindK (PCB_DecNumWait b s1) (\<lambda>_ s. liftK (get_pcb (processID cur) s) (\<lambda>x. case x of (a, _) \<Rightarrow>
      bindK (PCB_JoinRelease a s) (\<lambda>_ s. bindK (PCB_ExitWait a s) (\<lambda>_ s.
      bindK (PTable_Remove (processID cur) s) (\<lambda>_ s. KRet ec s)))))) s" .
  qed
qed


text \<open>\<open>ExecUpdate\<close> fills an empty slot, with a PCB and then with a thread.\<close>

lemma new_slot_ok:
  assumes ok: "proc_ok s" and ix: "ix < length (pcb s)" "pcb s ! ix = None" and new: "PCB_new junk j s = (a, s1)"
  shows "proc_ok (s1\<lparr>pcb := (pcb s1)[ix := Some a]\<rparr>)" "same_slots s (s1\<lparr>pcb := (pcb s1)[ix := Some a]\<rparr>)"
    "pcb_heap s1 a \<noteq> None"
proof -
  let ?s2 = "s1\<lparr>pcb := (pcb s1)[ix := Some a]\<rparr>"
  have f: "pcb s1 = pcb s" "psize s1 = psize s" "threads s1 = threads s" "currentThread s1 = currentThread s"
    "next_thread s1 = next_thread s" "a = pcb_brk s" "pcb_brk s1 = pcb_brk s + 1" "\<And>b. b \<noteq> a \<Longrightarrow> pcb_heap s1 b = pcb_heap s b"
    "pcb_heap s1 a \<noteq> None"
    using new by (auto simp: PCB_new_def Semaphore_new_def put_sem_def put_pcb_def Let_def)
  have none: "processID th \<noteq> int ix \<or> ix = 0" if "threads s t = Some th" for t th
  proof (rule ccontr)
    assume "\<not> ?thesis"
    then have "\<exists>a. pcb s ! ix = Some a" using ok ix(1) that unfolding proc_ok_def by blast
    then show False using ix(2) by simp
  qed
  have "\<exists>b. pcb s ! i = Some b \<and> b \<noteq> a \<and> (\<forall>p. pcb_heap s b = Some p \<longrightarrow> pcb_thread p \<noteq> None)"
    if i: "0 < i" "i < length (pcb s)" "threads s t = Some th" "processID th = int i" for i t th
  proof -
    obtain b where b: "pcb s ! i = Some b" "\<forall>p. pcb_heap s b = Some p \<longrightarrow> pcb_thread p \<noteq> None"
      using ok i unfolding proc_ok_def by blast
    moreover have "b < pcb_brk s" using ok i(2) b(1) by (simp add: proc_ok_def)
    ultimately show ?thesis using f(6) by auto
  qed
  then have "\<exists>b. (pcb s)[ix := Some a] ! i = Some b \<and> (\<forall>p. pcb_heap s1 b = Some p \<longrightarrow> pcb_thread p \<noteq> None)"
    if i: "0 < i" "i < length (pcb s)" "threads s t = Some th" "processID th = int i" for i t th
    using none[OF i(3)] i f(8) by (metis nth_list_update_neq not_gr_zero)
  moreover have "b < pcb_brk s1" if "i < length (pcb s)" "(pcb s)[ix := Some a] ! i = Some b" for i b
  proof (cases "i = ix")
    case False
    then have "b < pcb_brk s" using that ok by (simp add: proc_ok_def)
    then show ?thesis using f(7) by simp
  qed (use that f(6,7) in simp)
  ultimately show "proc_ok ?s2" using ok f(1-5) by (simp add: proc_ok_def)
  show "same_slots s ?s2" using f(1,2,3,4) ix by (auto simp: same_slots_def my_pid_def nth_list_update)
  show "pcb_heap s1 a \<noteq> None" by (rule f(9))
qed

lemma add_thread_ok:
  assumes ok: "proc_ok s" and a: "pcb s ! i = Some a" and p: "pcb_thread p \<noteq> None"
    and th: "threads s2 = (threads s)(next_thread s \<mapsto> th)" "processID th = int i"
    and f: "pcb s2 = pcb s" "psize s2 = psize s" "pcb_brk s2 = pcb_brk s" "currentThread s2 = currentThread s"
      "next_thread s2 = next_thread s + 1" "pcb_heap s2 = (pcb_heap s)(a \<mapsto> p)"
  shows "proc_ok s2" "same_slots s s2"
proof -
  have cur: "currentThread s \<noteq> next_thread s" using ok by (auto simp: proc_ok_def)
  have "\<exists>b. pcb s ! j = Some b \<and> (\<forall>q. pcb_heap s2 b = Some q \<longrightarrow> pcb_thread q \<noteq> None)"
    if j: "0 < j" "j < length (pcb s)" "threads s2 u = Some th'" "processID th' = int j" for j u th'
  proof (cases "u = next_thread s")
    case True
    then show ?thesis using j(3,4) th a p f(6) by auto
  next
    case False
    then obtain b where "pcb s ! j = Some b" "\<forall>q. pcb_heap s b = Some q \<longrightarrow> pcb_thread q \<noteq> None"
      using ok j th(1) unfolding proc_ok_def by (metis fun_upd_other)
    then show ?thesis using p f(6) by auto
  qed
  moreover have "u < next_thread s2" if u: "threads s2 u = Some th'" for u th'
  proof (cases "u = next_thread s")
    case False
    then have "threads s u = Some th'" using u th(1) by simp
    then have "u < next_thread s" using ok by (simp add: proc_ok_def)
    then show ?thesis by (simp add: f)
  qed (simp add: f)
  ultimately show "proc_ok s2" using ok f(1-4) cur th(1) unfolding proc_ok_def by simp
  show "same_slots s s2" using f(1,2,4) th cur by (simp add: same_slots_def my_pid_def)
qed

lemma new_thread_ok:
  assumes ok: "proc_ok s" and a: "pcb s ! i = Some a" and new: "Thread_new nm regs s = (t, s1)"
    and p: "pcb_thread p \<noteq> None"
  shows "proc_ok (put_pcb a p (upd_thread t (\<lambda>th. th\<lparr>processID := int i\<rparr>) s1))"
    "same_slots s (put_pcb a p (upd_thread t (\<lambda>th. th\<lparr>processID := int i\<rparr>) s1))"
proof -
  have "t = next_thread s" "s1 = s\<lparr>threads := (threads s)(t \<mapsto> Thread_init nm regs), next_thread := t + 1\<rparr>"
    using new by (auto simp: Thread_new_def Let_def)
  then show "proc_ok (put_pcb a p (upd_thread t (\<lambda>th. th\<lparr>processID := int i\<rparr>) s1))"
    "same_slots s (put_pcb a p (upd_thread t (\<lambda>th. th\<lparr>processID := int i\<rparr>) s1))"
    using add_thread_ok[OF ok a p, of "put_pcb a p (upd_thread t (\<lambda>th. th\<lparr>processID := int i\<rparr>) s1)"
        "(Thread_init nm regs)\<lparr>processID := int i\<rparr>"]
    by (simp_all add: put_pcb_def upd_thread_def)
qed

lemma Fork_frame:
  assumes "Thread_Fork t f a s = Inr s'"
  shows "Kernel.more s' = Kernel.more s \<and> currentThread s' = currentThread s \<and> next_thread s' = next_thread s
    \<and> (\<forall>t. map_option processID (threads s' t) = map_option processID (threads s t))"
  using assms
  by (auto simp: Thread_Fork_def Let_def bindR_eq_Inr ReadyToRun_def get_thread_def upd_thread_def StackAllocate_def
      split: option.splits if_splits)

lemma keeps_return:
  assumes "proc_ok s" and "same_slots s0 s"
  shows "keeps_slots (bindK (semV i s) (\<lambda>_ s. KRet r s)) s0"
  by (rule keeps_trans[OF keeps_bind[OF keeps_V[OF assms(1)]] assms(2)]) simp

lemma keeps_PCB_Exec:
  assumes ok: "proc_ok s" and a: "i < length (pcb s)" "pcb s ! i = Some a"
  shows "keeps_slots (PCB_Exec nm (int i) a regs s) s"
  unfolding PCB_Exec_def Let_def
proof (rule keeps_lift, rule keeps_bind[OF keeps_P[OF ok]], clarsimp split: prod.split, intro keeps_lift)
  fix p s1 t s2 q cur s4
  assume s1: "proc_ok s1" "same_slots s s1" and new: "Thread_new (to_string nm) regs s1 = (t, s2)"
    and s4: "Thread_Fork t StartProcess_2 (int i) (put_pcb a (q\<lparr>pcb_thread := Some t, parentID := processID cur\<rparr>)
      (upd_thread t (\<lambda>th. th\<lparr>processID := int i\<rparr>) s2)) = Inr s4"
  let ?s3 = "put_pcb a (q\<lparr>pcb_thread := Some t, parentID := processID cur\<rparr>) (upd_thread t (\<lambda>th. th\<lparr>processID := int i\<rparr>) s2)"
  have a1: "i < length (pcb s1)" "pcb s1 ! i = Some a" using s1(2) a by (auto simp: same_slots_def)
  have s3: "proc_ok ?s3" "same_slots s1 ?s3" by (rule new_thread_ok[OF s1(1) a1(2) new]; simp)+
  have "proc_ok s4" "same_slots ?s3 s4"
    using proc_ok_cong[OF s3(1), of s4] Fork_frame[OF s4] OS_more[of s4 ?s3] by auto
  with s3(2) show "keeps_slots (bindK (semV (multex q) s4) (\<lambda>_. KRet (int i))) s1"
    by (intro keeps_return) (auto intro: same_slots_trans)
qed

lemma GetFreeSlot_empty:
  assumes "proc_ok s" and "GetFreeSlot s = i" and "\<not> i < 0"
  shows "nat i < length (pcb s)" "pcb s ! nat i = None" "int (nat i) = i"
  using assms by (auto simp: GetFreeSlot_def proc_ok_def split: option.splits dest!: find_first_Some)


lemma SetFileName_ok:
  assumes "proc_ok s" and "PCB_SetFileName nm a s = Inr s'"
  shows "proc_ok s'" "same_slots s s'"
proof -
  obtain p where "pcb_heap s a = Some p" "s' = put_pcb a (p\<lparr>pcb_name := cstr nm @ [0]\<rparr>) s"
    using assms(2) by (auto simp: PCB_SetFileName_def bindR_eq_Inr split: if_splits dest: deref_heap)
  then show "proc_ok s'" "same_slots s s'" using put_pcb_ok[OF assms(1), of a p "p\<lparr>pcb_name := cstr nm @ [0]\<rparr>"] by simp_all
qed

text \<open>\<open>ExecUpdate\<close> after the free slot has been found.\<close>

lemma keeps_fill_slot:
  assumes ok: "proc_ok s" and ix: "ix < length (pcb s)" "pcb s ! ix = None"
  shows "keeps_slots (let (a, s) = PCB_new junk (int ix) s;
        s = s\<lparr>pcb := (pcb s)[ix := Some a]\<rparr> in
    liftK (PCB_SetFileName nm a s) (\<lambda>s.
    liftK (deref_pcb a s) (\<lambda>p.
    let s = put_pcb a (p\<lparr>parentID := par\<rparr>) s in
    bindK (PCB_Exec nm (int ix) a regs s) (\<lambda>r s.
    bindK (semV (bmsem s) s) (\<lambda>_ s. KRet r s))))) s"
proof -
  obtain a s1 where new: "PCB_new junk (int ix) s = (a, s1)" by fastforce
  define s2 where "s2 = s1\<lparr>pcb := (pcb s1)[ix := Some a]\<rparr>"
  have s2: "proc_ok s2" "same_slots s s2" unfolding s2_def by (rule new_slot_ok[OF ok ix new])+
  have a: "pcb s2 ! ix = Some a" "ix < length (pcb s2)"
    using ix new by (auto simp: s2_def PCB_new_def Semaphore_new_def put_sem_def put_pcb_def Let_def)
  have "keeps_slots (liftK (PCB_SetFileName nm a s2) (\<lambda>s. liftK (deref_pcb a s) (\<lambda>p.
    let s = put_pcb a (p\<lparr>parentID := par\<rparr>) s in
    bindK (PCB_Exec nm (int ix) a regs s) (\<lambda>r s. bindK (semV (bmsem s) s) (\<lambda>_ s. KRet r s))))) s2"
    unfolding Let_def
  proof (intro keeps_lift)
    fix s3 p assume s3: "PCB_SetFileName nm a s2 = Inr s3" and p: "deref_pcb a s3 = Inr p"
    note k3 = SetFileName_ok[OF s2(1) s3]
    let ?s4 = "put_pcb a (p\<lparr>parentID := par\<rparr>) s3"
    have k4: "proc_ok ?s4" "same_slots s3 ?s4" using put_pcb_ok[OF k3(1) deref_heap[OF p], of "p\<lparr>parentID := par\<rparr>"] by simp_all
    have "same_slots s2 ?s4" by (rule same_slots_trans[OF k3(2) k4(2)])
    moreover from this have "ix < length (pcb ?s4)" "pcb ?s4 ! ix = Some a"
      using a unfolding same_slots_def by (simp_all del: put_pcb_frame)
    then have "keeps_slots (bindK (PCB_Exec nm (int ix) a regs ?s4) (\<lambda>r s. bindK (semV (bmsem s) s) (\<lambda>_ s. KRet r s))) ?s4"
      by (intro keeps_bind[OF keeps_PCB_Exec[OF k4(1)]] keeps_return) simp_all
    ultimately show "keeps_slots (bindK (PCB_Exec nm (int ix) a regs ?s4) (\<lambda>r s. bindK (semV (bmsem s) s) (\<lambda>_ s. KRet r s))) s2"
      by (rule_tac keeps_trans)
  qed
  from keeps_trans[OF this s2(2)] show ?thesis using new by (simp add: s2_def)
qed

lemma keeps_Exec:
  assumes ok: "proc_ok s"
  shows "keeps_slots (ExecUpdate junk regs jt nm s) s"
  unfolding ExecUpdate_def
proof (rule keeps_bind[OF keeps_P[OF ok]], rule keeps_lift)
  fix s1 :: "'a OS_scheme" and x :: "nat option \<times> StubFS" assume s1: "proc_ok s1"
  obtain e f where x: "x = (e, f)" by (cases x)
  define s2 where "s2 = s1\<lparr>fs := f\<rparr>"
  have s2: "proc_ok s2" "same_slots s1 s2" using proc_ok_cong[OF s1, of s2] by (simp_all add: s2_def)
  have "keeps_slots (if e = None then bindK (semV (bmsem s2) s2) (\<lambda>_ s. KRet (-1) s) else
    liftK (get_thread (currentThread s2) s2) (\<lambda>cur.
    if to_string nm = tname cur then bindK (semV (bmsem s2) s2) (\<lambda>_ s. KRet (-1) s) else
    let ix = GetFreeSlot s2 in
    if ix < 0 then bindK (semV (bmsem s2) s2) (\<lambda>_ s. KRet (-1) s) else
    let (a, s) = PCB_new junk ix s2; s = s\<lparr>pcb := (pcb s)[nat ix := Some a]\<rparr> in
    liftK (PCB_SetFileName nm a s) (\<lambda>s. liftK (deref_pcb a s) (\<lambda>p.
    let s = put_pcb a (p\<lparr>parentID := processID cur\<rparr>) s in
    bindK (PCB_Exec nm ix a regs s) (\<lambda>r s. bindK (semV (bmsem s) s) (\<lambda>_ s. KRet r s)))))) s2" (is "keeps_slots (if _ then ?r else liftK _ ?body) _")
  proof (cases "e = None")
    case False
    have "keeps_slots (?body cur) s2" for cur
    proof (cases "to_string nm = tname cur \<or> GetFreeSlot s2 < 0")
      case True
      then show ?thesis using keeps_return[OF s2(1) same_slots_refl, of "bmsem s2" "-1"] by (auto simp: Let_def)
    next
      case False
      then have "\<not> GetFreeSlot s2 < 0" by simp
      note ix = GetFreeSlot_empty[OF s2(1) refl this]
      show ?thesis using keeps_fill_slot[OF s2(1) ix(1,2), unfolded ix(3)] False by (simp add: Let_def)
    qed
    then show ?thesis unfolding if_not_P[OF False] by (rule keeps_lift)
  qed (simp add: keeps_return[OF s2(1) same_slots_refl])
  from keeps_trans[OF this s2(2)]
  show "keeps_slots (case x of (executable, f) \<Rightarrow> let s = s1\<lparr>fs := f\<rparr> in
    if executable = None then bindK (semV (bmsem s) s) (\<lambda>_ s. KRet (-1) s) else
    liftK (get_thread (currentThread s) s) (\<lambda>cur.
    if to_string nm = tname cur then bindK (semV (bmsem s) s) (\<lambda>_ s. KRet (-1) s) else
    let ix = GetFreeSlot s in
    if ix < 0 then bindK (semV (bmsem s) s) (\<lambda>_ s. KRet (-1) s) else
    let (a, s) = PCB_new junk ix s; s = s\<lparr>pcb := (pcb s)[nat ix := Some a]\<rparr> in
    liftK (PCB_SetFileName nm a s) (\<lambda>s. liftK (deref_pcb a s) (\<lambda>p.
    let s = put_pcb a (p\<lparr>parentID := processID cur\<rparr>) s in
    bindK (PCB_Exec nm ix a regs s) (\<lambda>r s. bindK (semV (bmsem s) s) (\<lambda>_ s. KRet r s)))))) s1"
    by (simp only: x prod.case Let_def s2_def)
qed

lemma full_stays_full:
  assumes "proc_ok s" and "same_slots s s'" and "GetFreeSlot s = -1"
  shows "GetFreeSlot s' = -1"
proof -
  have "pcb s ! i \<noteq> None" if "i < nat (psize s)" for i
    using assms(3) that by (auto simp: GetFreeSlot_def find_first_None split: option.splits)
  moreover have "nat (psize s) \<le> length (pcb s)" using assms(1) by (auto simp: proc_ok_def)
  ultimately have "\<forall>i\<in>set [0..<nat (psize s')]. pcb s' ! i \<noteq> None"
    using assms(2) unfolding same_slots_def by simp
  then have "find_first (\<lambda>i. pcb s' ! i = None) [0..<nat (psize s')] = None" by (simp add: find_first_None)
  then show ?thesis by (simp add: GetFreeSlot_def)
qed

section \<open>Initialize\<close>

lemma kinv_fields:
  assumes "env_ok s \<longleftrightarrow> env_ok k" and "view s = view k"
  shows "kinv s \<longleftrightarrow> kinv k"
  using assms by (simp add: kinv_def)

lemma kinv_OS [simp]:
  "kinv (s\<lparr>gPhysPageBitMap := bm\<rparr>) = kinv s" "kinv (s\<lparr>addrLock := l\<rparr>) = kinv s" "kinv (s\<lparr>fs := f\<rparr>) = kinv s"
  "kinv (s\<lparr>psize := n\<rparr>) = kinv s" "kinv (s\<lparr>pcb := x\<rparr>) = kinv s" "kinv (s\<lparr>bmsem := b\<rparr>) = kinv s"
  "kinv (s\<lparr>st_bm := bm\<rparr>) = kinv s" "kinv (s\<lparr>semTab := y\<rparr>) = kinv s" "kinv (s\<lparr>pcb_brk := z\<rparr>) = kinv s"
  "kinv (s\<lparr>consSems := cs\<rparr>) = kinv s"
  by (simp_all add: kinv_def env_ok_def view_def)

lemma kinv_globals0: "kinv (globals0 ((Kernel_boot junk)\<lparr>machine := Some m\<rparr>) input u)"
proof -
  have "view (globals0 ((Kernel_boot junk)\<lparr>machine := Some m\<rparr>) input u) = view (Kernel_boot junk)"
    by (simp add: globals0_def view_def Kernel.defs core_def fun_eq_iff)
  moreover have "env_ok (globals0 ((Kernel_boot junk)\<lparr>machine := Some m\<rparr>) input u)"
    using boot_kinv[of junk] by (simp add: globals0_def Kernel.defs kinv_def env_ok_def)
  ultimately show ?thesis using boot_kinv[of junk] by (simp add: kinv_def)
qed

lemma Semaphore_new_kinv: "kinv s \<Longrightarrow> is_int v \<Longrightarrow> kinv (snd (Semaphore_new nm v s))"
  using Semaphore_new_ok by blast

lemma Semaphore_new_kinv': "Semaphore_new nm v s = (i, s') \<Longrightarrow> kinv s \<Longrightarrow> is_int v \<Longrightarrow> kinv s'"
  using Semaphore_new_kinv[of s v nm] by simp

lemma PCB_new_kinv:
  assumes "kinv s" and "PCB_new junk i s = (a, s')"
  shows "kinv s'"
proof -
  obtain j s1 where s1: "Semaphore_new ''joinsem'' 0 s = (j, s1)" by fastforce
  obtain e s2 where s2: "Semaphore_new ''exitsem'' 0 s1 = (e, s2)" by fastforce
  obtain x s3 where s3: "Semaphore_new ''multex'' 1 s2 = (x, s3)" by fastforce
  have "kinv s3" using Semaphore_new_kinv'[OF s3 Semaphore_new_kinv'[OF s2 Semaphore_new_kinv'[OF s1 assms(1)]]] by (simp add: is_int_def)
  then show ?thesis using assms(2) s1 s2 s3 by (auto simp: PCB_new_def Let_def)
qed

text \<open>
  C30. The semaphore table is a bounded map from names to semaphores: \<open>Create\<close> adds a fresh semaphore
  with the initial value under a new name, and refuses (with -1, changing nothing) a name in use or an eleventh
  semaphore; \<open>Wait\<close> and \<open>Signal\<close> are \<open>P\<close> and \<open>V\<close> on the semaphore of the name, and -1 for an unknown name.
  The hypothesis on the length is the size of the array the name is copied to, which the code does not check.
\<close>

theorem semaphore_table_is_map:
  assumes "st_ok s" and "length (cstr name) < 50"
  shows "(st_map s (cstr name) = None \<and> bm_set (st_bm s) \<noteq> {..<MAX_SEMAPHORE} \<longrightarrow>
      (\<exists>s'. STable_Create name init s = Inr (0, s') \<and> st_ok s' \<and> st_map s' = (st_map s)(cstr name \<mapsto> next_sem s)
        \<and> sems s' = (sems s)(next_sem s \<mapsto> \<lparr>sem_name = to_string name, sem_value = init, sem_queue = []\<rparr>)))
    \<and> (st_map s (cstr name) \<noteq> None \<or> bm_set (st_bm s) = {..<MAX_SEMAPHORE} \<longrightarrow> STable_Create name init s = Inr (-1, s))
    \<and> STable_Wait name s = (case st_map s (cstr name) of None \<Rightarrow> KRet (-1) s | Some i \<Rightarrow> KP i s (KRet 0))
    \<and> STable_Signal name s = (case st_map s (cstr name) of None \<Rightarrow> KRet (-1) s | Some i \<Rightarrow> liftK (Semaphore_V i s) (KRet 0))"
  using create_new[OF assms(1) _ _ assms(2)] create_rejects[OF assms(1)] wait_signal_map[OF assms(1)] by blast

text \<open>
  C33. No slot of the process table is ever released. Whatever the other processes do in between (they keep the
  same promise), \<open>ExecUpdate\<close>, \<open>JoinUpdate\<close> and \<open>ExitUpdate\<close> leave every occupied slot as it is, at every
  point where they wait, return or finish the thread: the destructor of a PCB calls \<open>Finish\<close>, which does not
  return to the statement that would clear the slot. So once \<open>GetFreeSlot\<close> finds none, it never will again.
\<close>

theorem slots_never_released:
  assumes "proc_ok s"
  shows "keeps_slots (ExecUpdate junk regs jt nm s) s \<and> keeps_slots (JoinUpdate i s) s \<and> keeps_slots (ExitUpdate ec s) s
    \<and> (GetFreeSlot s = -1 \<longrightarrow> (\<forall>s'. same_slots s s' \<longrightarrow> GetFreeSlot s' = -1))"
  using keeps_Exec[OF assms] keeps_Join[OF assms] keeps_Exit[OF assms] full_stays_full[OF assms] by blast

lemma PTable_new_10:
  assumes "kinv s" and "length (pcb s) = 10"
  shows "\<exists>s'. PTable_new jw jp 10 s = Inr s' \<and> kinv s' \<and> psize s' = 10 \<and> pcb s' = Some (pcb_brk s) # replicate 9 None
    \<and> pcb_brk s' = pcb_brk s + 1 \<and> threads s' = threads s \<and> currentThread s' = currentThread s \<and> cpu s' = cpu s
    \<and> next_thread s' = next_thread s \<and> gPhysPageBitMap s' = gPhysPageBitMap s \<and> machine s' = machine s
    \<and> consSems s' = consSems s \<and> pending s' = pending s \<and> (\<forall>i<next_sem s. sems s' i = sems s i) \<and> next_sem s \<le> next_sem s'"
proof -
  obtain bm where bm0: "BitMap_new jw 10 = Inr bm" "bm_ok bm" "numBits bm = 10" using BitMap_new_spec[of 10 jw] by auto
  then obtain bm' where bm: "BitMap_new jw 10 = Inr bm" "BitMap_Mark 0 bm = Inr bm'"
    using BitMap_Mark_spec[of bm 0] by (auto simp: bm_size_def)
  obtain b s1 where s1: "Semaphore_new ''bmsem'' 1 (s\<lparr>psize := 10, pcb := replicate 10 None\<rparr>) = (b, s1)" by fastforce
  obtain a s2 where s2: "PCB_new jp 0 (s1\<lparr>bmsem := b\<rparr>) = (a, s2)" by fastforce
  have k: "kinv s1" using Semaphore_new_ok[of "s\<lparr>psize := 10, pcb := replicate 10 None\<rparr>" 1 "''bmsem''"] assms(1) s1 by (simp add: is_int_def)
  have "kinv s2" by (rule PCB_new_kinv[OF _ s2]) (simp add: k)
  moreover obtain p where "pcb_heap s2 a = Some p" "a = pcb_brk s" "pcb s2 = replicate 10 None" "psize s2 = 10" "pcb_brk s2 = pcb_brk s + 1"
      "threads s2 = threads s" "currentThread s2 = currentThread s" "cpu s2 = cpu s" "next_thread s2 = next_thread s"
      "gPhysPageBitMap s2 = gPhysPageBitMap s" "machine s2 = machine s" "consSems s2 = consSems s" "pending s2 = pending s"
      "\<forall>i<next_sem s. sems s2 i = sems s i" "next_sem s \<le> next_sem s2"
    using s1 s2 by (auto simp: Semaphore_new_def PCB_new_def put_sem_def put_pcb_def Let_def)
  moreover have "(replicate 10 None)[0 := Some a] = Some a # replicate 9 None" by (simp add: eval_nat_numeral)
  ultimately show ?thesis using bm s1 s2 assms(2)
    by (simp add: PTable_new_def deref_pcb_def) (simp add: put_pcb_def)
qed

lemma boot_fields:
  "threads (Kernel_boot junk) = (\<lambda>_. None)(0 \<mapsto> (Thread_init ''main'' junk)\<lparr>tstatus := RUNNING, resume := OnCPU\<rparr>)"
  "currentThread (Kernel_boot junk) = 0" "next_thread (Kernel_boot junk) = 1" "cpu (Kernel_boot junk) = Exec"
  by (auto simp: Kernel_boot_def Thread_new_def upd_thread_def Let_def Interrupt.defs fun_eq_iff tick_def)

lemma boot_clock: "now (Kernel_boot junk) = 10" "pending (Kernel_boot junk) = []" "sems (Kernel_boot junk) = (\<lambda>_. None)" "next_sem (Kernel_boot junk) = 0"
  by (simp_all add: Kernel_boot_def Thread_new_def upd_thread_def Let_def Interrupt.defs Interrupt_new_def Statistics_new_def tick_def SystemTick_def)

lemma Semaphore_new_fields:
  assumes "Semaphore_new nm v s = (i, s')"
  shows "i = next_sem s" "next_sem s' = Suc (next_sem s)" "sems s' = (sems s)(i \<mapsto> \<lparr>sem_name = nm, sem_value = v, sem_queue = []\<rparr>)"
    "Kernel.more s' = Kernel.more s" "pending s' = pending s" "threads s' = threads s" "currentThread s' = currentThread s" "cpu s' = cpu s"
    "next_thread s' = next_thread s" "machine s' = machine s"
  using assms by (auto simp: Semaphore_new_def put_sem_def Let_def)

lemma Schedule_kinv: "Schedule h a t ty s = Inr s' \<Longrightarrow> kinv s' = kinv s"
  by (auto simp: Schedule_def bindR_ASSERT Let_def kinv_def env_ok_def view_def split: if_splits)

text \<open>The console of a new kernel.\<close>

lemma Initialize_console_ok:
  assumes "kinv s" and "now s = 10" and "pending s = []" and "next_sem s = 0"
  shows "\<exists>s'. Initialize_console s = Inr s' \<and> kinv s' \<and> consSems s' = [0, 1, 2, 3] \<and> map (value_of s') [0, 1, 2, 3] = [0, 0, 1, 1]
    \<and> pending s' = [(110, PendingInterrupt_new ConsoleReadPoll 0 110 ConsoleReadInt)] \<and> next_sem s' = 4
    \<and> pcb s' = pcb s \<and> pcb_brk s' = pcb_brk s \<and> threads s' = threads s \<and> currentThread s' = currentThread s \<and> cpu s' = cpu s
    \<and> next_thread s' = next_thread s \<and> machine s' = machine s"
proof -
  let ?s1 = "s\<lparr>pending := [(110, PendingInterrupt_new ConsoleReadPoll 0 110 ConsoleReadInt)]\<rparr>"
  have s1: "Schedule ConsoleReadPoll 0 ConsoleTime ConsoleReadInt s = Inr ?s1"
    using assms(2,3) by (simp add: Schedule_def ConsoleTime_def)
  then have k1: "kinv ?s1" using Schedule_kinv[OF s1] assms(1) by simp
  obtain r s2 where s2: "Semaphore_new ''Synch Read Avail'' 0 ?s1 = (r, s2)" by fastforce
  obtain w s3 where s3: "Semaphore_new ''Synch Write Avail'' 0 s2 = (w, s3)" by fastforce
  obtain rl s4 where s4: "Semaphore_new ''Read Synch Line Block'' 1 s3 = (rl, s4)" by fastforce
  obtain wl s5 where s5: "Semaphore_new ''Write Synch Line Block'' 1 s4 = (wl, s5)" by fastforce
  have k: "kinv s5"
    using Semaphore_new_kinv'[OF s5 Semaphore_new_kinv'[OF s4 Semaphore_new_kinv'[OF s3 Semaphore_new_kinv'[OF s2 k1]]]] by (simp add: is_int_def)
  note fr = Semaphore_new_fields[OF s2] Semaphore_new_fields[OF s3] Semaphore_new_fields[OF s4] Semaphore_new_fields[OF s5]
  have "Initialize_console s = Inr (s5\<lparr>consSems := [r, w, rl, wl]\<rparr>)" using s1 s2 s3 s4 s5 by (simp add: Initialize_console_def)
  moreover have "pcb s5 = pcb s" "pcb_brk s5 = pcb_brk s" using fr OS_more[of s5 ?s1] by simp_all
  ultimately show ?thesis using fr k assms(4) by (simp add: value_of_def)
qed

text \<open>
  C34. \<open>Initialize\<close> sets up the kernel: when the host lets the file system object be created, every other
  object is created too, in a state that satisfies the scheduler's invariant with the main thread
  executing, the console polling the keyboard from tick 110 on with its four semaphores at 0, 0, 1 and 1, the process table's invariant with slot 0 alone in use, and the semaphore table's invariant with
  no name in use; every bit of the page bitmap is clear, and it has 256 bits, more than the machine has pages.
\<close>

theorem initialize_establishes_invariants:
  assumes "StubFS_new u = Inr f"
  shows "\<exists>s. Initialize junk jw jp m input u = Inr s \<and> kinv s \<and> executing s \<and> machine s = Some m \<and> fs s = f
    \<and> pending s = [(110, PendingInterrupt_new ConsoleReadPoll 0 110 ConsoleReadInt)] \<and> map (value_of s) (consSems s) = [0, 0, 1, 1] \<and> distinct (consSems s)
    \<and> proc_ok s \<and> pcb s = Some 0 # replicate 9 None \<and> st_ok s \<and> (\<forall>k. st_map s k = None)
    \<and> bm_ok (gPhysPageBitMap s) \<and> bm_set (gPhysPageBitMap s) = {} \<and> bm_size (gPhysPageBitMap s) = 256 \<and> NumPhysPages = 128"
proof -
  obtain bm where bm: "BitMap_new jw 256 = Inr bm" "bm_ok bm" "numBits bm = 256" "bm_set bm = {}"
    using BitMap_new_spec[of 256 jw] by auto
  obtain sb where sb: "BitMap_new jw (int MAX_SEMAPHORE) = Inr sb" "bm_ok sb" "numBits sb = int MAX_SEMAPHORE" "bm_set sb = {}"
    using BitMap_new_spec[of "int MAX_SEMAPHORE" jw] by auto
  let ?k = "(Kernel_boot junk)\<lparr>machine := Some m\<rparr>"
  let ?g = "globals0 ?k input u"
  have g: "length (pcb ?g) = 10" "pcb_brk ?g = 0" "threads ?g = threads (Kernel_boot junk)" "currentThread ?g = 0"
     "cpu ?g = Exec" "next_thread ?g = 1" "machine ?g = Some m" "now ?g = 10" "pending ?g = []" "next_sem ?g = 0"
    by (simp_all add: globals0_def Kernel.defs MAX_PROCESS_def boot_fields boot_clock)
  obtain c where c: "Initialize_console ?g = Inr c" "kinv c" "consSems c = [0, 1, 2, 3]" "map (value_of c) [0, 1, 2, 3] = [0, 0, 1, 1]"
     "pending c = [(110, PendingInterrupt_new ConsoleReadPoll 0 110 ConsoleReadInt)]" "next_sem c = 4" "pcb c = pcb ?g" "pcb_brk c = 0"
     "threads c = threads (Kernel_boot junk)" "currentThread c = 0" "cpu c = Exec" "next_thread c = 1" "machine c = Some m"
    using Initialize_console_ok[OF kinv_globals0 g(8-10)] g by auto
  let ?s0 = "c\<lparr>gPhysPageBitMap := bm\<rparr>"
  have k0: "kinv ?s0" "length (pcb ?s0) = 10" using c(2,7) g(1) by simp_all
  obtain s1 where s1: "PTable_new jw jp 10 ?s0 = Inr s1" "kinv s1" "psize s1 = 10" "pcb s1 = Some 0 # replicate 9 None" "pcb_brk s1 = 1"
     "threads s1 = threads (Kernel_boot junk)" "currentThread s1 = 0" "cpu s1 = Exec" "next_thread s1 = 1" "gPhysPageBitMap s1 = bm"
     "machine s1 = Some m" "consSems s1 = [0, 1, 2, 3]" "pending s1 = pending c" "\<forall>i<4. sems s1 i = sems c i" "4 \<le> next_sem s1"
    using PTable_new_10[OF k0, of jw jp] c by auto
  obtain l s2 where s2: "Semaphore_new ''addrLock'' 1 s1 = (l, s2)" by fastforce
  have k2: "kinv s2" using Semaphore_new_ok[OF s1(2), of 1 "''addrLock''"] s2 by (simp add: is_int_def)
  let ?s = "s2\<lparr>addrLock := l, st_bm := sb, semTab := replicate MAX_SEMAPHORE None, fs := f\<rparr>"
  have "Initialize junk jw jp m input u = Inr ?s"
    using c(1) bm(1) s1(1) s2 sb(1) assms by (simp add: Initialize_def STable_new_def)
  moreover have fr: "pcb s2 = pcb s1" "psize s2 = psize s1" "pcb_brk s2 = pcb_brk s1" "threads s2 = threads s1"
    "currentThread s2 = 0" "cpu s2 = Exec" "next_thread s2 = 1" "gPhysPageBitMap s2 = bm" "machine s2 = Some m"
    "consSems s2 = [0, 1, 2, 3]" "pending s2 = pending c" "\<forall>i<4. sems s2 i = sems c i"
    using s2 s1 by (auto simp: Semaphore_new_def put_sem_def Let_def)
  moreover have "map (value_of ?s) [0, 1, 2, 3] = [0, 0, 1, 1]" using c(4) fr(12) by (simp add: value_of_def)
  moreover have "executing ?s" using fr s1(6) by (simp add: executing_def resume_of_def boot_fields)
  moreover have "proc_ok ?s" using fr s1
    by (auto simp: proc_ok_def boot_fields Thread_init_def nth_Cons split: if_splits nat.splits)
  moreover have "st_ok ?s" "\<forall>k. st_map ?s k = None" using sb
    by (auto simp: st_ok_def bm_size_def st_map_def st_at_def find_first_None)
  moreover have "kinv ?s" using k2 by simp
  ultimately show ?thesis using bm s1(4) c(5) by (simp add: bm_size_def NumPhysPages_def)
qed

section \<open>Concrete states\<close>

text \<open>A kernel with two processes: 0 (the parent, PCB 0) and 1 (PCB 1), the semaphores of the latter being 3, 4 and 5.
  The thread that executes belongs to process \<open>i\<close>.\<close>

definition demo_sems :: "Kernel \<Rightarrow> Kernel" where
  "demo_sems k = fold (\<lambda>(nm, v) k. snd (Semaphore_new nm v k))
     [(''joinsem'', 0), (''exitsem'', 0), (''multex'', 1), (''joinsem'', 0), (''exitsem'', 0), (''multex'', 1)] k"

definition demo_pcb :: "nat \<Rightarrow> int \<Rightarrow> PCB" where
  "demo_pcb n par = \<lparr>joinsem = n, exitsem = n + 1, multex = n + 2, exitcode = 0, numwait = 0, pcb_name = [0],
     pcb_thread = Some 0, parentID = par, pid = 0\<rparr>"

definition demo_os :: "int \<Rightarrow> OS" where
  "demo_os i = (globals0 (upd_thread 0 (\<lambda>th. th\<lparr>processID := i\<rparr>) (demo_sems (Kernel_boot (\<lambda>_. 0)))) [] demo_unix)
     \<lparr>psize := 10, pcb := [Some 0, Some 1, None, None, None, None, None, None, None, None],
      pcb_heap := [0 \<mapsto> demo_pcb 0 (-1), 1 \<mapsto> demo_pcb 3 0], pcb_brk := 2,
      st_bm := \<lparr>numBits = 10, numWords = 1, bmap = [0]\<rparr>, semTab := replicate 10 None\<rparr>"

lemma demo_kinv: "kinv (demo_os i)"
proof -
  let ?k = "demo_sems (Kernel_boot (\<lambda>_. 0))"
  have k: "kinv ?k" by (simp add: demo_sems_def Semaphore_new_kinv boot_kinv is_int_def)
  have "view (demo_os i) = view ?k"
    by (auto simp: demo_os_def globals0_def view_def Kernel.defs core_def[abs_def] upd_thread_def fun_eq_iff option.map_comp comp_def)
  moreover have "env_ok (upd_thread 0 (\<lambda>th. th\<lparr>processID := i\<rparr>) ?k)" using k by (intro env_ok_upd_thread) (auto simp: kinv_def)
  then have "env_ok (demo_os i)" by (simp add: demo_os_def globals0_def Kernel.defs env_ok_def)
  ultimately show ?thesis using k by (simp add: kinv_def)
qed

lemma demo_fields:
  "executing (demo_os i)" "currentThread (demo_os i) = 0"
  "threads (demo_os i) 0 = Some ((Thread_init ''main'' (\<lambda>_. 0))\<lparr>tstatus := RUNNING, processID := i, resume := OnCPU\<rparr>)"
  "\<And>t. t \<noteq> 0 \<Longrightarrow> threads (demo_os i) t = None" "next_thread (demo_os i) = 1"
  "linked (demo_os i) 1 1 (demo_pcb 3 0) 0 (demo_pcb 0 (-1))"
  "value_of (demo_os i) 3 = 0" "value_of (demo_os i) 4 = 0"
  by (simp_all add: executing_def resume_of_def demo_os_def globals0_def Kernel.defs upd_thread_def demo_sems_def Semaphore_new_def
      put_sem_def Let_def boot_fields Kernel_boot_def tick_def Thread_new_def Thread_init_def Interrupt.defs value_of_def linked_def get_pcb_def demo_pcb_def)

lemma semaphore_table_is_map_witness:
  "st_ok (demo_os 0) \<and> length (cstr [97, 0]) < 50
    \<and> (\<exists>s'. STable_Create [97, 0] 2 (demo_os 0) = Inr (0, s') \<and> st_map s' [97] = Some 6)
    \<and> STable_Wait [97, 0] (demo_os 0) = KRet (-1) (demo_os 0)"
proof -
  have ok: "st_ok (demo_os 0)" and none: "bm_set (st_bm (demo_os 0)) = {}" and len: "length (cstr [97, 0]) < 50" and nm: "cstr [97, 0] = [97]"
    and ns: "next_sem (demo_os 0) = 6"
    by (simp_all add: st_ok_def demo_os_def bm_ok_def bm_set_def bm_size_def bm_bit_def divRoundUp_def BitsInWord_def MAX_SEMAPHORE_def cstr_def
      globals0_def Kernel.defs upd_thread_def demo_sems_def Semaphore_new_def put_sem_def Let_def Kernel_boot_def tick_def
      Thread_new_def Interrupt.defs)
  have "st_map (demo_os 0) [97] = None" using none by (simp add: st_map_def st_at_def find_first_None)
  moreover have "{} \<noteq> {..<MAX_SEMAPHORE}" by (metis MAX_SEMAPHORE_def lessThan_iff empty_iff zero_less_numeral)
  ultimately show ?thesis using semaphore_table_is_map[OF ok len, of 2] ok len none nm ns by force
qed

lemma join_waits_for_exit_witness:
  "linked (demo_os 0) 1 1 (demo_pcb 3 0) 0 (demo_pcb 0 (-1))
    \<and> (\<exists>s1 k. uncontended (JoinUpdate 1 (demo_os 0)) = KP 3 s1 k
        \<and> (\<exists>s5. k (demo_os 0) = KRet 0 s5 \<and> value_of s5 4 = 1))"
proof -
  have par: "parentID (demo_pcb 3 0) = processID ((Thread_init ''main'' (\<lambda>_. 0))\<lparr>tstatus := RUNNING, processID := 0, resume := OnCPU\<rparr>)"
    "value_of (demo_os 0) (joinsem (demo_pcb 3 0)) = 0"
    using demo_fields(7) by (simp_all add: demo_pcb_def)
  have h: "pcb_heap (demo_os 0) 1 = Some (demo_pcb 3 0)" "sems (demo_os 0) (exitsem (demo_pcb 3 0)) \<noteq> None"
    using demo_fields(6)[of 0] get_pcb_heap[of 1 "demo_os 0"] by (auto simp: linked_def)
  obtain s1 k where "uncontended (JoinUpdate 1 (demo_os 0)) = KP (joinsem (demo_pcb 3 0)) s1 k"
    "\<exists>s5. k (demo_os 0) = KRet (exitcode (demo_pcb 3 0)) s5 \<and> value_of s5 (exitsem (demo_pcb 3 0)) = i32 (value_of (demo_os 0) (exitsem (demo_pcb 3 0)) + 1)"
    using join_waits_for_exit[OF demo_kinv demo_fields(1) demo_fields(3)[folded demo_fields(2)[of 0]] demo_fields(6) par] h demo_kinv by blast
  then show ?thesis using demo_fields(6,8)[of 0] by (auto simp: demo_pcb_def)
qed

lemma exit_hands_over_code_witness:
  "linked (demo_os 1) 1 1 (demo_pcb 3 0) 0 (demo_pcb 0 (-1))
    \<and> (\<exists>s1 k. uncontended (ExitUpdate 7 (demo_os 1)) = KP 4 s1 k
        \<and> pcb_heap s1 1 = Some ((demo_pcb 3 0)\<lparr>exitcode := 7\<rparr>) \<and> value_of s1 3 = 1)"
proof -
  have p: "value_of (demo_os 1) (exitsem (demo_pcb 3 0)) = 0" "joinsem (demo_pcb 3 0) \<noteq> exitsem (demo_pcb 3 0)"
    using demo_fields(8) by (simp_all add: demo_pcb_def)
  obtain s1 k where "uncontended (ExitUpdate 7 (demo_os 1)) = KP (exitsem (demo_pcb 3 0)) s1 k"
    "pcb_heap s1 1 = Some ((demo_pcb 3 0)\<lparr>exitcode := 7\<rparr>)" "value_of s1 (joinsem (demo_pcb 3 0)) = i32 (value_of (demo_os 1) (joinsem (demo_pcb 3 0)) + 1)"
    using exit_hands_over_code[OF demo_kinv demo_fields(1) demo_fields(3)[folded demo_fields(2)[of 1]] _ _ demo_fields(6) p, of 7] by auto
  then show ?thesis using demo_fields(6,7)[of 1] by (auto simp: demo_pcb_def)
qed

lemma slots_never_released_witness:
  "proc_ok (demo_os 1) \<and> keeps_slots (ExitUpdate 7 (demo_os 1)) (demo_os 1)"
proof -
  have t: "threads (demo_os 1) t = Some th \<Longrightarrow> t = 0 \<and> processID th = 1" for t th
    using demo_fields(3)[of 1] demo_fields(4)[of t 1] by (cases "t = 0") auto
  have p: "pcb (demo_os 1) = [Some 0, Some 1, None, None, None, None, None, None, None, None]" "psize (demo_os 1) = 10"
    "pcb_heap (demo_os 1) = [0 \<mapsto> demo_pcb 0 (-1), 1 \<mapsto> demo_pcb 3 0]" "pcb_brk (demo_os 1) = 2"
    by (simp_all add: demo_os_def)
  have a: "a < 2" if "i < 10" "[Some 0, Some 1, None, None, None, None, None, None, None, None] ! i = Some a" for i a :: nat
    using that by (simp add: nth_Cons split: nat.splits)
  have h: "\<exists>a. pcb (demo_os 1) ! i = Some a \<and> (\<forall>p. pcb_heap (demo_os 1) a = Some p \<longrightarrow> pcb_thread p \<noteq> None)"
    if "threads (demo_os 1) t = Some th" "processID th = int i" for i t th
    using t[OF that(1)] that(2) by (simp add: p demo_pcb_def)
  have "proc_ok (demo_os 1)"
    unfolding proc_ok_def
  proof (intro conjI allI impI)
    show "psize (demo_os 1) \<le> int (length (pcb (demo_os 1)))" by (simp add: p)
    show "threads (demo_os 1) (currentThread (demo_os 1)) \<noteq> None" by (simp add: demo_fields(2,3))
    show "u < next_thread (demo_os 1)" if "threads (demo_os 1) u = Some th" for u th
      using t[OF that] by (simp add: demo_fields(5))
    show "x < pcb_brk (demo_os 1)" if "i < length (pcb (demo_os 1))" "pcb (demo_os 1) ! i = Some x" for i x
      using a[of i x] that by (simp add: p)
  qed (rule h)
  then show ?thesis using slots_never_released[of "demo_os 1" "demo_pcb 0 0" "\<lambda>_. 0" 0 "[]" 0 7] by blast
qed

lemma demo_fs: "\<exists>f. StubFS_new demo_unix = Inr f"
  by (simp add: StubFS_new_def StubFS_Create_def StubFS_Open_def OpenForWrite_def OpenForReadWrite_def unix_open_def Close_def
      unix_close_def demo_unix_def stub_stdin_def stub_stdout_def free_fd_def Let_def ASSERT_def unix_fd_def upt_rec)

lemma initialize_establishes_invariants_witness:
  "\<exists>f s. StubFS_new demo_unix = Inr f
    \<and> Initialize (\<lambda>_. 0) (\<lambda>_. 0) (demo_pcb 0 0) (Machine_new False 0 0) [] demo_unix = Inr s \<and> kinv s \<and> proc_ok s"
proof -
  obtain f where f: "StubFS_new demo_unix = Inr f" using demo_fs by blast
  with initialize_establishes_invariants[OF f, of "\<lambda>_. 0" "\<lambda>_. 0" "demo_pcb 0 0" "Machine_new False 0 0" "[]"]
  show ?thesis by blast
qed

end
