(* ===== verification/Nachos_AddrSpace.thy ===== *)
theory Nachos_AddrSpace
  imports Nachos_ProcInv Nachos_CPU
begin

text \<open>
  userprog/addrspace.cc, bin/noff.h and the two entry points of userprog/progtest.cc that start a user
  program: reading the NOFF header, allocating frames, loading the segments.

  The fields of the header are 32-bit words, read as signed or unsigned where the code does. A constructor
  waits for \<open>addrLock\<close>, so the object is handed to the rest of the code (\<open>k\<close>) and not returned. A write
  outside \<open>mainMemory\<close> is a fault. \<open>jsp\<close> is an uninitialised \<open>AddrSpace\<close>, \<open>jh\<close> the uninitialised header.
  The C35 theorem is the loader's contract: what the program sees in its memory. C36 is what the
  oversized page bitmap lets happen.
\<close>

section \<open>The NOFF header\<close>

record Segment =
  virtualAddr :: word32
  inFileAddr :: word32
  seg_size :: word32

record NoffHeader =
  noffMagic :: word32
  code :: Segment
  initData :: Segment
  uninitData :: Segment

definition NOFFMAGIC :: word32 where "NOFFMAGIC = 0xbadfad"
definition UserStackSize :: word32 where "UserStackSize = 1024"

definition Segment_at :: "byte list \<Rightarrow> nat \<Rightarrow> Segment" where
  "Segment_at bs k = \<lparr>virtualAddr = word_at bs k, inFileAddr = word_at bs (k + 4), seg_size = word_at bs (k + 8)\<rparr>"

definition NoffHeader_of :: "byte list \<Rightarrow> NoffHeader" where
  "NoffHeader_of bs = \<lparr>noffMagic = word_at bs 0, code = Segment_at bs 4, initData = Segment_at bs 16,
     uninitData = Segment_at bs 28\<rparr>"

definition SwapSegment :: "Segment \<Rightarrow> Segment" where
  "SwapSegment g = \<lparr>virtualAddr = WordToHost (virtualAddr g), inFileAddr = WordToHost (inFileAddr g),
     seg_size = WordToHost (seg_size g)\<rparr>"

definition SwapHeader :: "NoffHeader \<Rightarrow> NoffHeader" where
  "SwapHeader h = \<lparr>noffMagic = WordToHost (noffMagic h), code = SwapSegment (code h),
     initData = SwapSegment (initData h), uninitData = SwapSegment (uninitData h)\<rparr>"

section \<open>Memory and file access\<close>

definition get_machine :: "'k Interrupt_scheme \<Rightarrow> Machine res" where
  "get_machine s = (case machine s of None \<Rightarrow> Inl NullPointer | Some m \<Rightarrow> Inr m)"

definition mem_write :: "int \<Rightarrow> byte list \<Rightarrow> 'k Interrupt_scheme \<Rightarrow> 'k Interrupt_scheme res" where
  "mem_write dst bs s = bindR (get_machine s) (\<lambda>m.
     if dst < 0 \<or> dst + int (length bs) > int MemorySize then Inl OutOfBounds
     else Inr (s\<lparr>machine := Some (m\<lparr>mainMemory := blit (mainMemory m) (nat dst) bs\<rparr>)\<rparr>))"

definition get_file :: "nat \<Rightarrow> StubFS \<Rightarrow> StubFile res" where
  "get_file a f = (case sf_heap f a of None \<Rightarrow> Inl DanglingPointer | Some x \<Rightarrow> Inr x)"

definition file_ReadAt :: "nat \<Rightarrow> int \<Rightarrow> int \<Rightarrow> 'k OS_scheme \<Rightarrow> (byte list \<times> 'k OS_scheme) res" where
  "file_ReadAt a n pos s = bindR (get_file a (fs s)) (\<lambda>f.
     bindR (StubFile_ReadAt n pos f (host (fs s))) (\<lambda>(_, data, u). Inr (data, s\<lparr>fs := (fs s)\<lparr>host := u\<rparr>\<rparr>)))"

text \<open>The first part of both constructors: the header, swapped if need be, with the assertion on its magic.\<close>

definition read_header :: "byte list \<Rightarrow> nat \<Rightarrow> 'k OS_scheme \<Rightarrow> (NoffHeader \<times> 'k OS_scheme) res" where
  "read_header jh a s = bindR (file_ReadAt a 40 0 s) (\<lambda>(data, s).
     let h = NoffHeader_of (data @ drop (length data) jh);
         h = (if noffMagic h \<noteq> NOFFMAGIC \<and> WordToHost (noffMagic h) = NOFFMAGIC then SwapHeader h else h)
     in bindR (ASSERT (noffMagic h = NOFFMAGIC)) (\<lambda>_. Inr (h, s)))"

section \<open>Frames\<close>

text \<open>\<open>divRoundUp\<close> on unsigned operands.\<close>

definition udivRoundUp :: "word32 \<Rightarrow> word32 \<Rightarrow> word32" where
  "udivRoundUp n s = n div s + (if n mod s > 0 then 1 else 0)"

definition num_pages :: "NoffHeader \<Rightarrow> word32" where
  "num_pages h = udivRoundUp (seg_size (code h) + seg_size (initData h) + seg_size (uninitData h) + UserStackSize)
     (word_of_nat PageSize)"

text \<open>One iteration of the loop that fills the page table: entry \<open>i\<close>, whose frame is cleared.\<close>

definition alloc_page :: "nat \<Rightarrow> TranslationEntry list \<times> 'k OS_scheme \<Rightarrow> (TranslationEntry list \<times> 'k OS_scheme) res" where
  "alloc_page i = (\<lambda>(pt, s). bindR (BitMap_Find (gPhysPageBitMap s)) (\<lambda>(p, bm).
     let s = s\<lparr>gPhysPageBitMap := bm\<rparr>;
         e = \<lparr>virtualPage = word_of_nat i, physicalPage = word_of_int p, valid = True, readOnly = False,
              te_use = False, te_dirty = False\<rparr>
     in bindR (mem_write (p * int PageSize) (replicate PageSize 0) s) (\<lambda>s. Inr (pt @ [e], s))))"

definition AddrSpace_alloc :: "NoffHeader \<Rightarrow> 'k OS_scheme \<Rightarrow> (TranslationEntry list option \<times> 'k OS_scheme) res" where
  "AddrSpace_alloc h s = bindR (BitMap_NumClear (gPhysPageBitMap s)) (\<lambda>n.
     if uint (num_pages h) > n then Inr (None, s)
     else bindR (forR alloc_page [0..<unat (num_pages h)] ([], s)) (\<lambda>(pt, s). Inr (Some pt, s)))"

section \<open>Loading\<close>

definition numCodePage :: "NoffHeader \<Rightarrow> word32" where
  "numCodePage h = word_of_int (divRoundUp (sint (seg_size (code h))) (int PageSize))"

definition lastCodePageSize :: "NoffHeader \<Rightarrow> word32" where
  "lastCodePageSize h = seg_size (code h) - (numCodePage h - 1) * word_of_nat PageSize"

definition tempDataSize :: "NoffHeader \<Rightarrow> word32" where
  "tempDataSize h = seg_size (initData h) - (word_of_nat PageSize - lastCodePageSize h)"

definition numDataPage :: "NoffHeader \<Rightarrow> word32" where
  "numDataPage h = (if sint (tempDataSize h) < 0 then 0
     else word_of_int (divRoundUp (sint (tempDataSize h)) (int PageSize)))"

text \<open>\<open>lastDataPageSize\<close> is not set when there are no data pages; nothing reads it then.\<close>

definition lastDataPageSize :: "NoffHeader \<Rightarrow> word32" where
  "lastDataPageSize h = tempDataSize h - (numDataPage h - 1) * word_of_nat PageSize"

definition firstDataPageSize :: "NoffHeader \<Rightarrow> word32" where
  "firstDataPageSize h = (if sint (tempDataSize h) < 0 then seg_size (initData h)
     else word_of_nat PageSize - lastCodePageSize h)"

text \<open>\<open>ReadAt\<close> into \<open>&mainMemory[code.virtualAddr] + pageTable[i].physicalPage * PageSize + off\<close>.\<close>

definition load_chunk :: "NoffHeader \<Rightarrow> TranslationEntry list \<Rightarrow> nat \<Rightarrow> nat \<Rightarrow> int \<Rightarrow> word32 \<Rightarrow> word32 \<Rightarrow>
    'k OS_scheme \<Rightarrow> 'k OS_scheme res" where
  "load_chunk h pt a i off n pos s =
    (if i \<ge> length pt then Inl OutOfBounds else
     bindR (file_ReadAt a (sint n) (sint pos) s) (\<lambda>(data, s).
     mem_write (sint (virtualAddr (code h)) + sint (physicalPage (pt ! i)) * int PageSize + off) data s))"

definition load_code :: "NoffHeader \<Rightarrow> TranslationEntry list \<Rightarrow> nat \<Rightarrow> 'k OS_scheme \<Rightarrow> 'k OS_scheme res" where
  "load_code h pt a = forR (\<lambda>i. load_chunk h pt a i 0
       (if word_of_nat i < numCodePage h - 1 then word_of_nat PageSize else lastCodePageSize h)
       (inFileAddr (code h) + word_of_nat i * word_of_nat PageSize)) [0..<unat (numCodePage h)]"

definition load_shared :: "NoffHeader \<Rightarrow> TranslationEntry list \<Rightarrow> nat \<Rightarrow> 'k OS_scheme \<Rightarrow> 'k OS_scheme res" where
  "load_shared h pt a s =
    (if sint (lastCodePageSize h) < int PageSize \<and> sint (firstDataPageSize h) > 0
     then load_chunk h pt a (unat (numCodePage h - 1)) (sint (lastCodePageSize h)) (firstDataPageSize h) (inFileAddr (initData h)) s
     else Inr s)"

definition load_data :: "NoffHeader \<Rightarrow> TranslationEntry list \<Rightarrow> nat \<Rightarrow> 'k OS_scheme \<Rightarrow> 'k OS_scheme res" where
  "load_data h pt a = forR (\<lambda>j. load_chunk h pt a (unat (numCodePage h + word_of_nat j)) 0
       (if word_of_nat j < numDataPage h - 1 then word_of_nat PageSize else lastDataPageSize h)
       (inFileAddr (initData h) + word_of_nat j * word_of_nat PageSize + firstDataPageSize h)) [0..<unat (numDataPage h)]"

text \<open>A constructor from the point where it has \<open>addrLock\<close>. \<open>fin\<close> is what it does with the file at the end and
  when there is not enough memory: nothing, or \<open>delete executable\<close>.\<close>

definition AddrSpace_build :: "('k OS_scheme \<Rightarrow> 'k OS_scheme res) \<Rightarrow> AddrSpace \<Rightarrow> NoffHeader \<Rightarrow> nat \<Rightarrow>
    'k OS_scheme \<Rightarrow> (AddrSpace \<times> 'k OS_scheme) res" where
  "AddrSpace_build fin jsp h a s = bindR (AddrSpace_alloc h s) (\<lambda>(r, s). case r of
     None \<Rightarrow> bindR (fin s) (\<lambda>s. bindR (Semaphore_V (addrLock s) s) (\<lambda>s. Inr (jsp\<lparr>as_numPages := 0\<rparr>, s)))
   | Some pt \<Rightarrow> bindR (Semaphore_V (addrLock s) s) (\<lambda>s.
       bindR (load_code h pt a s) (\<lambda>s.
       bindR (load_shared h pt a s) (\<lambda>s.
       bindR (load_data h pt a s) (\<lambda>s.
       bindR (fin s) (\<lambda>s. Inr (\<lparr>as_pageTable = pt, as_numPages = unat (num_pages h)\<rparr>, s)))))))"

definition AddrSpace_of_file :: "byte list \<Rightarrow> AddrSpace \<Rightarrow> nat option \<Rightarrow> (AddrSpace \<Rightarrow> 'k OS_scheme \<Rightarrow> ('k OS_scheme) kprog) \<Rightarrow>
    'k OS_scheme \<Rightarrow> ('k OS_scheme) kprog" where
  "AddrSpace_of_file jh jsp executable k s = (case executable of
     None \<Rightarrow> k jsp s
   | Some a \<Rightarrow> liftK (read_header jh a s) (\<lambda>(h, s).
       bindK (semP (addrLock s) s) (\<lambda>_ s.
       liftK (AddrSpace_build Inr jsp h a s) (\<lambda>(sp, s). k sp s))))"

definition delete_executable :: "nat \<Rightarrow> 'k OS_scheme \<Rightarrow> 'k OS_scheme res" where
  "delete_executable a s = bindR (delete_file a (fs s)) (\<lambda>f. Inr (s\<lparr>fs := f\<rparr>))"

definition AddrSpace_of_name :: "byte list \<Rightarrow> AddrSpace \<Rightarrow> int \<Rightarrow> byte list \<Rightarrow>
    (AddrSpace \<Rightarrow> 'k OS_scheme \<Rightarrow> ('k OS_scheme) kprog) \<Rightarrow> 'k OS_scheme \<Rightarrow> ('k OS_scheme) kprog" where
  "AddrSpace_of_name jh jsp jt filename k s =
    liftK (StubFS_Open (cstr filename) jt (fs s)) (\<lambda>(executable, f). let s = s\<lparr>fs := f\<rparr> in
    case executable of
      None \<Rightarrow> k jsp s
    | Some a \<Rightarrow> liftK (read_header jh a s) (\<lambda>(h, s).
        bindK (semP (addrLock s) s) (\<lambda>_ s.
        liftK (AddrSpace_build (delete_executable a) jsp h a s) (\<lambda>(sp, s). k sp s))))"

section \<open>Starting a user program\<close>

text \<open>The end of both functions: the space becomes the thread's, the registers are set, the page table is
  installed. \<open>KRet\<close> is the jump to the user program (\<open>machine->Run()\<close>).\<close>

definition enter_user :: "AddrSpace \<Rightarrow> 'k OS_scheme \<Rightarrow> ('k OS_scheme) kprog" where
  "enter_user sp s = (let s = upd_thread (currentThread s) (\<lambda>th. th\<lparr>space := Some sp\<rparr>) s in
    liftK (get_machine s) (\<lambda>m.
    KRet 0 (s\<lparr>machine := Some (AddrSpace_RestoreState sp (AddrSpace_InitRegisters sp m))\<rparr>)))"

definition StartProcess2 :: "byte list \<Rightarrow> AddrSpace \<Rightarrow> int \<Rightarrow> int \<Rightarrow> 'k OS_scheme \<Rightarrow> ('k OS_scheme) kprog" where
  "StartProcess2 jh jsp jt i s = liftK (PTable_GetFileName i s) (\<lambda>fileName.
     AddrSpace_of_name jh jsp jt fileName enter_user s)"

text \<open>\<open>StartProcess\<close> closes the file after the constructor; if it cannot be opened it returns to its caller,
  which is \<open>KRet (-1)\<close> here.\<close>

definition StartProcess :: "byte list \<Rightarrow> AddrSpace \<Rightarrow> int \<Rightarrow> byte list \<Rightarrow> 'k OS_scheme \<Rightarrow> ('k OS_scheme) kprog" where
  "StartProcess jh jsp jt filename s =
    liftK (StubFS_Open (cstr filename) jt (fs s)) (\<lambda>(executable, f). let s = s\<lparr>fs := f\<rparr> in
    case executable of
      None \<Rightarrow> KRet (-1) s
    | Some a \<Rightarrow> AddrSpace_of_file jh jsp (Some a) (\<lambda>sp s.
        let s = upd_thread (currentThread s) (\<lambda>th. th\<lparr>space := Some sp\<rparr>) s in
        liftK (delete_executable a s) (\<lambda>s. enter_user sp s)) s)"

section \<open>Frames are exclusive\<close>

definition frames :: "TranslationEntry list \<Rightarrow> nat list" where
  "frames pt = map (\<lambda>e. unat (physicalPage e)) pt"

lemma frames_snoc [simp]: "frames (pt @ [e]) = frames pt @ [unat (physicalPage e)]" "length (frames pt) = length pt"
  by (simp_all add: frames_def)

lemma mem_write_frame:
  assumes "machine s = Some m" and "i < NumPhysPages" and "off + length bs \<le> PageSize"
  shows "mem_write (int i * int PageSize + int off) bs s
    = Inr (s\<lparr>machine := Some (m\<lparr>mainMemory := blit (mainMemory m) (i * PageSize + off) bs\<rparr>)\<rparr>)"
proof -
  have "i * PageSize + off + length bs \<le> MemorySize" using assms(2,3) by (simp add: machine_sizes)
  then have u: "int i * int PageSize + int off + int (length bs) \<le> int MemorySize" by (metis of_nat_add of_nat_le_iff of_nat_mult)
  have l: "0 \<le> int i * int PageSize + int off" by simp
  have "\<not> (int i * int PageSize + int off < 0 \<or> int i * int PageSize + int off + int (length bs) > int MemorySize)"
    unfolding de_Morgan_disj not_less by (intro conjI l u)
  moreover have "nat (int i * int PageSize + int off) = i * PageSize + off" by (simp add: nat_add_distrib nat_mult_distrib)
  ultimately show ?thesis using assms(1) by (simp only: mem_write_def get_machine_def option.case bindR_Inr if_False)
qed

lemma blit_page: "blit (mem :: nat \<Rightarrow> 'a::zero) (i * PageSize) (replicate PageSize 0) a = (if a div PageSize = i then 0 else mem a)"
proof (cases "i * PageSize \<le> a \<and> a < i * PageSize + PageSize")
  case True
  then have "a div PageSize = i" using div_nat_eqI[of PageSize i a] by (simp add: machine_sizes)
  moreover have "replicate PageSize 0 ! (a - i * PageSize) = (0 :: 'a)" using True by (intro nth_replicate) arith
  ultimately show ?thesis using True by (simp add: blit_def)
next
  case False
  then have "a div PageSize \<noteq> i" by (auto simp: machine_sizes)
  then show ?thesis using False by (auto simp: blit_def)
qed

text \<open>What the allocation loop has done after some iterations, from the state \<open>s0\<close>.\<close>

definition allocated :: "'k OS_scheme \<Rightarrow> Machine \<Rightarrow> TranslationEntry list \<Rightarrow> 'k OS_scheme \<Rightarrow> bool" where
  "allocated s0 m0 pt s \<longleftrightarrow> distinct (frames pt) \<and> set (frames pt) \<subseteq> {..<NumPhysPages} - bm_set (gPhysPageBitMap s0)
     \<and> (\<forall>e\<in>set pt. valid e \<and> \<not> readOnly e)
     \<and> (\<exists>bm mem. s = s0\<lparr>gPhysPageBitMap := bm, machine := Some (m0\<lparr>mainMemory := mem\<rparr>)\<rparr> \<and> bm_ok bm
          \<and> bm_size bm = bm_size (gPhysPageBitMap s0) \<and> bm_set bm = bm_set (gPhysPageBitMap s0) \<union> set (frames pt)
          \<and> (\<forall>a. mem a = (if a div PageSize \<in> set (frames pt) then 0 else mainMemory m0 a)))"

lemma free_frame:
  assumes "k < card ({..<NumPhysPages} - U)" and "distinct fr" and "length fr = k"
  obtains j where "j < NumPhysPages" "j \<notin> U" "j \<notin> set fr"
proof -
  have "card (set fr) < card ({..<NumPhysPages} - U)" using assms by (simp add: distinct_card)
  then have "\<not> {..<NumPhysPages} - U \<subseteq> set fr" using card_mono[of "set fr" "{..<NumPhysPages} - U"] by auto
  then show ?thesis using that by blast
qed

lemma alloc_page_ok:
  assumes al: "allocated s0 m0 pt s" and size: "NumPhysPages \<le> bm_size (gPhysPageBitMap s0)"
    and room: "length pt < card ({..<NumPhysPages} - bm_set (gPhysPageBitMap s0))"
  shows "\<exists>pt' s'. alloc_page i (pt, s) = Inr (pt', s') \<and> allocated s0 m0 pt' s' \<and> length pt' = Suc (length pt)"
proof -
  let ?U = "bm_set (gPhysPageBitMap s0)"
  obtain bm mem where s: "s = s0\<lparr>gPhysPageBitMap := bm, machine := Some (m0\<lparr>mainMemory := mem\<rparr>)\<rparr>" "bm_ok bm"
      "bm_size bm = bm_size (gPhysPageBitMap s0)" "bm_set bm = ?U \<union> set (frames pt)"
      "\<forall>a. mem a = (if a div PageSize \<in> set (frames pt) then 0 else mainMemory m0 a)"
    and fr: "distinct (frames pt)" "set (frames pt) \<subseteq> {..<NumPhysPages} - ?U" "\<forall>e\<in>set pt. valid e \<and> \<not> readOnly e"
    using al unfolding allocated_def by blast
  obtain j where j: "j < NumPhysPages" "j \<notin> ?U" "j \<notin> set (frames pt)" using free_frame[OF room fr(1)] by auto
  then have "j \<in> {..<bm_size bm}" "j \<notin> bm_set bm" using size s(3,4) by auto
  then have "bm_set bm \<noteq> {..<bm_size bm}" by blast
  then obtain f bm' where f: "BitMap_Find bm = Inr (int f, bm')" "f \<notin> bm_set bm" "\<forall>x<f. x \<in> bm_set bm"
      "bm_ok bm'" "bm_size bm' = bm_size bm" "bm_set bm' = insert f (bm_set bm)"
    using bm.find_free[OF s(2)] by blast
  have "f \<le> j" using f(3) \<open>j \<notin> bm_set bm\<close> not_le_imp_less by blast
  then have f128: "f < NumPhysPages" using j(1) by simp
  define e where "e = \<lparr>virtualPage = word_of_nat i, physicalPage = word_of_int (int f), valid = True, readOnly = False,
              te_use = False, te_dirty = False\<rparr>"
  have uf: "unat (physicalPage e) = f" using f128 by (simp add: e_def machine_sizes unat_of_nat take_bit_nat_eq_self)
  define s' where "s' = s0\<lparr>gPhysPageBitMap := bm', machine := Some (m0\<lparr>mainMemory := blit mem (f * PageSize) (replicate PageSize 0)\<rparr>)\<rparr>"
  have "mem_write (int f * int PageSize) (replicate PageSize 0) (s\<lparr>gPhysPageBitMap := bm'\<rparr>) = Inr s'"
    using mem_write_frame[of "s\<lparr>gPhysPageBitMap := bm'\<rparr>" "m0\<lparr>mainMemory := mem\<rparr>" f 0 "replicate PageSize 0"] f128
    by (simp add: s(1) s'_def)
  then have "alloc_page i (pt, s) = Inr (pt @ [e], s')" using f(1) by (simp add: alloc_page_def s(1) e_def Let_def)
  moreover have "allocated s0 m0 (pt @ [e]) s'"
    unfolding allocated_def
  proof (intro conjI exI[of _ bm'] exI[of _ "blit mem (f * PageSize) (replicate PageSize 0)"])
    show "\<forall>a. blit mem (f * PageSize) (replicate PageSize 0) a = (if a div PageSize \<in> set (frames (pt @ [e])) then 0 else mainMemory m0 a)"
      using s(5) by (simp add: blit_page uf)
  qed (use s f fr f128 uf in \<open>auto simp: s'_def e_def\<close>)
  ultimately show ?thesis by auto
qed

lemma alloc_pages_ok:
  assumes "bm_ok (gPhysPageBitMap s)" and "NumPhysPages \<le> bm_size (gPhysPageBitMap s)" and "machine s = Some m"
    and "n \<le> card ({..<NumPhysPages} - bm_set (gPhysPageBitMap s))"
  shows "\<exists>pt s'. forR alloc_page [0..<n] ([], s) = Inr (pt, s') \<and> length pt = n \<and> allocated s m pt s'"
proof -
  have "\<exists>r. forR alloc_page [0..<n] ([], s) = Inr r \<and> length (fst r) = n \<and> allocated s m (fst r) (snd r)"
  proof (rule forR_upt_rule[where P = "\<lambda>k r. length (fst r) = k \<and> allocated s m (fst r) (snd r)"])
    have "allocated s m [] s" using assms(1,3) unfolding allocated_def
      by (intro conjI exI[of _ "gPhysPageBitMap s"] exI[of _ "mainMemory m"]) (simp_all add: frames_def)
    then show "length (fst ([], s)) = 0 \<and> allocated s m (fst ([], s)) (snd ([], s))" by simp
    fix k and r :: "TranslationEntry list \<times> 'a OS_scheme" assume k: "k < n" "length (fst r) = k \<and> allocated s m (fst r) (snd r)"
    then show "\<exists>r'. alloc_page k r = Inr r' \<and> length (fst r') = Suc k \<and> allocated s m (fst r') (snd r')"
      using alloc_page_ok[of s m "fst r" "snd r" k] assms(2,4) by (cases r) auto
  qed simp
  then show ?thesis by auto
qed

section \<open>The loader\<close>

lemma sint_small_nat:
  assumes "unat (w :: word32) < 2 ^ 31"
  shows "sint w = int (unat w)"
proof -
  have "int (unat w) < int (2 ^ 31)" using assms by (simp only: of_nat_less_iff)
  then have "\<not> bit w 31" by (simp add: bit_31_uint)
  then show ?thesis by (simp add: sint_uint32)
qed

text \<open>Where a virtual address is in main memory.\<close>

definition phys :: "TranslationEntry list \<Rightarrow> nat \<Rightarrow> nat" where
  "phys pt v = frames pt ! (v div PageSize) * PageSize + v mod PageSize"

abbreviation csize :: "NoffHeader \<Rightarrow> nat" where "csize h \<equiv> unat (seg_size (code h))"
abbreviation dsize :: "NoffHeader \<Rightarrow> nat" where "dsize h \<equiv> unat (seg_size (initData h))"
abbreviation usize :: "NoffHeader \<Rightarrow> nat" where "usize h \<equiv> unat (seg_size (uninitData h))"

text \<open>A header that fits its file \<open>c\<close>: code linked at 0, sizes that do not overflow, segments inside the file.\<close>

definition prog_ok :: "NoffHeader \<Rightarrow> byte list \<Rightarrow> bool" where
  "prog_ok h c \<longleftrightarrow> virtualAddr (code h) = 0 \<and> csize h + dsize h + usize h + 2048 < 2 ^ 31 \<and> length c < 2 ^ 31
     \<and> unat (inFileAddr (code h)) + csize h \<le> length c \<and> (dsize h = 0 \<or> unat (inFileAddr (initData h)) + dsize h \<le> length c)"

text \<open>The memory image of the program as the loader lays it out: code, right after it the initialised data, then zeros. The header also has
  the address at which the initialised data are meant to be (\<open>initData.virtualAddr\<close>), which the loader does not look at.\<close>

definition prog_image :: "NoffHeader \<Rightarrow> byte list \<Rightarrow> nat \<Rightarrow> byte" where
  "prog_image h c v = (if v < csize h then c ! (unat (inFileAddr (code h)) + v)
     else if v < csize h + dsize h then c ! (unat (inFileAddr (initData h)) + (v - csize h)) else 0)"

definition loaded :: "'k OS_scheme \<Rightarrow> Machine \<Rightarrow> nat \<Rightarrow> nat \<Rightarrow> TranslationEntry list \<Rightarrow> (nat \<Rightarrow> byte) \<Rightarrow> nat \<Rightarrow> 'k OS_scheme \<Rightarrow> bool" where
  "loaded s0 m0 d ino pt im n s \<longleftrightarrow> (\<exists>mem off.
     s = s0\<lparr>machine := Some (m0\<lparr>mainMemory := mem\<rparr>),
            fs := (fs s0)\<lparr>host := (host (fs s0))\<lparr>fds := (fds (host (fs s0)))(d \<mapsto> (ino, off))\<rparr>\<rparr>\<rparr>
     \<and> (\<forall>v < length pt * PageSize. mem (phys pt v) = (if v < n then im v else 0))
     \<and> (\<forall>a. a div PageSize \<notin> set (frames pt) \<longrightarrow> mem a = mainMemory m0 a))"

lemma phys_div: "phys pt v div PageSize = frames pt ! (v div PageSize)" "phys pt v mod PageSize = v mod PageSize"
  by (simp_all add: phys_def machine_sizes)

lemma phys_page:
  assumes "v < length pt * PageSize"
  shows "v div PageSize < length pt"
  using assms by (simp add: less_mult_imp_div_less)

lemma same_page:
  assumes "a \<le> b" and "b < a + k" and "a mod PageSize + k \<le> PageSize"
  shows "b div PageSize = a div PageSize"
proof (rule div_nat_eqI)
  have "a = PageSize * (a div PageSize) + a mod PageSize" by simp
  then show "PageSize * (a div PageSize) \<le> b" "b < PageSize * Suc (a div PageSize)"
    using assms unfolding mult_Suc_right by linarith+
qed

text \<open>Writing inside one page of the program's memory writes the same range of virtual addresses.\<close>

lemma blit_phys:
  assumes d: "distinct (frames pt)" and v: "v < length pt * PageSize" and n: "n div PageSize < length pt"
    and len: "n mod PageSize + length bs \<le> PageSize"
  shows "blit mem (phys pt n) bs (phys pt v) = (if n \<le> v \<and> v < n + length bs then bs ! (v - n) else mem (phys pt v))"
proof (cases "v div PageSize = n div PageSize")
  case True
  have "v = n div PageSize * PageSize + v mod PageSize" "n = n div PageSize * PageSize + n mod PageSize"
    using True by (metis div_mult_mod_eq)+
  moreover have "phys pt v = frames pt ! (n div PageSize) * PageSize + v mod PageSize"
    "phys pt n = frames pt ! (n div PageSize) * PageSize + n mod PageSize" using True by (simp_all add: phys_def)
  ultimately have "phys pt n \<le> phys pt v \<longleftrightarrow> n \<le> v" "phys pt v < phys pt n + length bs \<longleftrightarrow> v < n + length bs"
    "phys pt v - phys pt n = v - n" by linarith+
  then show ?thesis by (simp add: blit_def)
next
  case False
  have "frames pt ! (v div PageSize) \<noteq> frames pt ! (n div PageSize)"
    using False d n phys_page[OF v] by (simp add: nth_eq_iff_index_eq)
  then have "\<not> (phys pt n \<le> phys pt v \<and> phys pt v < phys pt n + length bs)"
    using same_page[of "phys pt n" "phys pt v" "length bs"] len by (auto simp: phys_div)
  moreover have "\<not> (n \<le> v \<and> v < n + length bs)" using same_page[of n v "length bs"] False len by auto
  ultimately show ?thesis by (auto simp: blit_def)
qed

text \<open>One \<open>ReadAt\<close> of the loader: the next \<open>len\<close> bytes of the image, within one page.\<close>

lemma load_chunk_ok:
  assumes ld: "loaded s0 m0 d ino pt im n s"
    and pt: "distinct (frames pt)" "set (frames pt) \<subseteq> {..<NumPhysPages}"
    and fl: "sf_heap (fs s0) a = Some f" "fileno f = int d" "c = inodes (host (fs s0)) ino"
    and pg: "n div PageSize < length pt" "n mod PageSize + len \<le> PageSize"
    and args: "virtualAddr (code h) = 0" "sint n32 = int len" "sint pos32 = int pos" "pos + len \<le> length c"
    and im: "\<And>k. k < len \<Longrightarrow> im (n + k) = c ! (pos + k)"
  shows "\<exists>s'. load_chunk h pt a (n div PageSize) (int (n mod PageSize)) n32 pos32 s = Inr s' \<and> loaded s0 m0 d ino pt im (n + len) s'"
proof -
  let ?u = "\<lambda>off. (host (fs s0))\<lparr>fds := (fds (host (fs s0)))(d \<mapsto> (ino, off))\<rparr>"
  obtain mem off where s: "s = s0\<lparr>machine := Some (m0\<lparr>mainMemory := mem\<rparr>), fs := (fs s0)\<lparr>host := ?u off\<rparr>\<rparr>"
    and v: "\<And>v. v < length pt * PageSize \<Longrightarrow> mem (phys pt v) = (if v < n then im v else 0)"
    and o: "\<And>a. a div PageSize \<notin> set (frames pt) \<Longrightarrow> mem a = mainMemory m0 a"
    using ld unfolding loaded_def by blast
  let ?data = "take len (drop pos c)"
  have len: "length ?data = len" using args(4) by simp
  let ?fr = "frames pt ! (n div PageSize)"
  have fr: "?fr < NumPhysPages" using subsetD[OF pt(2) nth_mem[of "n div PageSize"]] pg(1) by simp
  then have sf: "sint (physicalPage (pt ! (n div PageSize))) = int ?fr"
    using pg(1) sint_small_nat[of "physicalPage (pt ! (n div PageSize))"] by (simp add: frames_def machine_sizes)
  have "unix_fd (fileno f) (?u off) = Some (ino, off)" by (simp add: unix_fd_def fl(2))
  then have rd: "StubFile_ReadAt (int len) (int pos) f (?u off) = Inr (int len, ?data, ?u (pos + len))"
    using ReadAt_spec[of f "?u off" ino off "int pos" "int len"] len by (simp add: Let_def fl(2,3))
  let ?s1 = "s0\<lparr>machine := Some (m0\<lparr>mainMemory := mem\<rparr>), fs := (fs s0)\<lparr>host := ?u (pos + len)\<rparr>\<rparr>"
  let ?s2 = "s0\<lparr>machine := Some (m0\<lparr>mainMemory := blit mem (phys pt n) ?data\<rparr>), fs := (fs s0)\<lparr>host := ?u (pos + len)\<rparr>\<rparr>"
  have "file_ReadAt a (sint n32) (sint pos32) s = Inr (?data, ?s1)"
    using rd by (simp add: file_ReadAt_def get_file_def s fl(1) args(2,3))
  moreover have "mem_write (int ?fr * int PageSize + int (n mod PageSize)) ?data ?s1 = Inr ?s2"
    using mem_write_frame[of ?s1 "m0\<lparr>mainMemory := mem\<rparr>" ?fr "n mod PageSize" ?data] fr pg(2) len by (simp add: phys_def)
  ultimately have "load_chunk h pt a (n div PageSize) (int (n mod PageSize)) n32 pos32 s = Inr ?s2"
    using pg(1) by (simp add: load_chunk_def args(1) sf)
  moreover have "blit mem (phys pt n) ?data (phys pt x) = (if x < n + len then im x else 0)" if "x < length pt * PageSize" for x
    using blit_phys[OF pt(1) that pg(1), of ?data mem] v[OF that] im[of "x - n"] args(4) pg(2) len by auto
  moreover have "blit mem (phys pt n) ?data x = mainMemory m0 x" if x: "x div PageSize \<notin> set (frames pt)" for x
  proof -
    have "x div PageSize \<noteq> phys pt n div PageSize" using x pg(1) by (auto simp: phys_div)
    then have "\<not> (phys pt n \<le> x \<and> x < phys pt n + length ?data)"
      using same_page[of "phys pt n" x len] pg(2) len by (auto simp: phys_div)
    then show ?thesis using o[OF x] by (auto simp: blit_def)
  qed
  ultimately show ?thesis unfolding loaded_def by blast
qed

text \<open>The sizes the loader computes, in natural numbers: \<open>lc\<close> and \<open>fd\<close> are what the last code page holds of code
  and of data, \<open>ld\<close> what the last data page holds.\<close>

definition ncode :: "NoffHeader \<Rightarrow> nat" where "ncode h = (csize h + 511) div 512"
definition fdata :: "NoffHeader \<Rightarrow> nat" where "fdata h = min (dsize h) (ncode h * 512 - csize h)"
definition ndata :: "NoffHeader \<Rightarrow> nat" where "ndata h = (dsize h - fdata h + 511) div 512"

lemma round_up_bounds: "n \<le> (n + 511) div 512 * 512" "(n + 511) div 512 * 512 < n + (512 :: nat)"
proof -
  have "n + 511 = (n + 511) div 512 * 512 + (n + 511) mod 512" "(n + 511) mod 512 < 512" by simp_all
  then show "n \<le> (n + 511) div 512 * 512" "(n + 511) div 512 * 512 < n + 512" by linarith+
qed

lemma divRoundUp_nat: "divRoundUp (int n) 512 = int ((n + 511) div 512)"
proof -
  define d where "d = divRoundUp (int n) 512"
  have "int n \<le> d * 512" "d * 512 < int n + 512" unfolding d_def by (intro divRoundUp_bounds; simp)+
  moreover have "int n \<le> int ((n + 511) div 512) * 512" "int ((n + 511) div 512) * 512 < int n + 512"
    using round_up_bounds[of n] by linarith+
  ultimately show ?thesis unfolding d_def[symmetric] by linarith
qed

lemma ncode_bounds: "csize h \<le> ncode h * 512" "ncode h * 512 < csize h + 512"
  unfolding ncode_def by (rule round_up_bounds)+

lemma in_rangeI: "- 2147483648 \<le> x \<Longrightarrow> x < 2147483648 \<Longrightarrow> in_range x"
  by (simp add: in_range_def)

lemma code_words:
  assumes "prog_ok h c"
  shows "numCodePage h = word_of_nat (ncode h)" "unat (numCodePage h) = ncode h"
    "sint (lastCodePageSize h) = int (csize h) - (int (ncode h) - 1) * 512"
proof -
  have small: "csize h + 2048 < 2 ^ 31" using assms by (simp add: prog_ok_def)
  then have "sint (seg_size (code h)) = int (csize h)" by (intro sint_small_nat) simp
  then show n: "numCodePage h = word_of_nat (ncode h)"
    by (simp add: numCodePage_def machine_sizes divRoundUp_nat ncode_def del: of_nat_unat)
  have nb: "ncode h * 512 < 2 ^ 31" using ncode_bounds(2)[of h] small by simp
  then show "unat (numCodePage h) = ncode h" unfolding n by (simp add: unat_of_nat take_bit_nat_eq_self)
  have "lastCodePageSize h = word_of_int (int (csize h) - (int (ncode h) - 1) * 512)"
    by (simp add: lastCodePageSize_def n machine_sizes)
  moreover have "in_range (int (csize h) - (int (ncode h) - 1) * 512)"
    using ncode_bounds[of h] unfolding left_diff_distrib by (intro in_rangeI) linarith+
  ultimately show "sint (lastCodePageSize h) = int (csize h) - (int (ncode h) - 1) * 512" by (simp only: sint_word_of_int)
qed


lemma data_words:
  assumes "prog_ok h c"
  shows "sint (firstDataPageSize h) = int (fdata h)" "firstDataPageSize h = word_of_nat (fdata h)"
    "unat (numDataPage h) = ndata h" "numDataPage h = word_of_nat (ndata h)"
    "0 < ndata h \<Longrightarrow> csize h + fdata h = ncode h * 512"
    "0 < ndata h \<Longrightarrow> sint (lastDataPageSize h) = int (dsize h - fdata h) - (int (ndata h) - 1) * 512"
proof -
  define t where "t = int (csize h) + int (dsize h) - int (ncode h) * 512"
  have small: "csize h + dsize h + 2048 < 2147483648" using assms by (simp add: prog_ok_def)
  note nb = ncode_bounds[of h]
  have "tempDataSize h = word_of_int t"
    by (simp add: tempDataSize_def lastCodePageSize_def code_words(1)[OF assms] machine_sizes t_def)
  moreover have "in_range t" using nb small unfolding t_def by (intro in_rangeI) linarith+
  ultimately have t: "tempDataSize h = word_of_int t" "sint (tempDataSize h) = t" by (simp_all only: sint_word_of_int)
  have fd: "fdata h = (if t < 0 then dsize h else ncode h * 512 - csize h)" using nb unfolding fdata_def t_def by (auto simp del: of_nat_unat)
  show f: "firstDataPageSize h = word_of_nat (fdata h)"
  proof (cases "t < 0")
    case False
    have "word_of_nat PageSize - lastCodePageSize h = word_of_int (int (ncode h * 512 - csize h))"
      using nb by (simp add: lastCodePageSize_def code_words(1)[OF assms] machine_sizes of_nat_diff)
    then show ?thesis using False fd t by (simp add: firstDataPageSize_def)
  qed (use fd t in \<open>simp add: firstDataPageSize_def\<close>)
  have "fdata h \<le> dsize h" by (simp add: fdata_def)
  then have "unat (firstDataPageSize h) = fdata h" using small unfolding f by (simp add: unat_of_nat take_bit_nat_eq_self)
  then show "sint (firstDataPageSize h) = int (fdata h)" using sint_small_nat[of "firstDataPageSize h"] small \<open>fdata h \<le> dsize h\<close> by simp
  have "int (fdata h) = int (ncode h) * 512 - int (csize h)" if "\<not> t < 0"
    using fd that nb(1) by (simp add: of_nat_diff del: of_nat_unat)
  then have rest: "int (dsize h - fdata h) = (if t < 0 then 0 else t)"
    using fd of_nat_diff[OF \<open>fdata h \<le> dsize h\<close>, where 'a = int] unfolding t_def by auto
  show nd: "numDataPage h = word_of_nat (ndata h)"
  proof (cases "t < 0")
    case True
    then show ?thesis using t rest by (simp add: numDataPage_def ndata_def)
  next
    case False
    then have "divRoundUp t 512 = int (ndata h)" using rest divRoundUp_nat[of "dsize h - fdata h"] by (simp add: ndata_def)
    then show ?thesis using t False by (simp add: numDataPage_def machine_sizes)
  qed
  have ndb: "dsize h - fdata h \<le> ndata h * 512" "ndata h * 512 < dsize h - fdata h + 512" unfolding ndata_def by (rule round_up_bounds)+
  then show "unat (numDataPage h) = ndata h" using small unfolding nd by (simp add: unat_of_nat take_bit_nat_eq_self)
  assume "0 < ndata h"
  then have "0 < dsize h - fdata h" using ndb by linarith
  then have "0 < int (dsize h - fdata h)" by (simp only: of_nat_0_less_iff)
  then have tpos: "0 \<le> t" unfolding rest by (simp split: if_splits)
  then show "csize h + fdata h = ncode h * 512" using fd nb by simp
  define r where "r = dsize h - fdata h"
  have tr: "int r = t" unfolding r_def rest using tpos by simp
  have "lastDataPageSize h = word_of_int (t - (int (ndata h) - 1) * 512)"
    by (simp add: lastDataPageSize_def t(1) nd machine_sizes)
  moreover have "in_range (t - (int (ndata h) - 1) * 512)"
    using ndb[folded r_def] tr unfolding left_diff_distrib by (intro in_rangeI) linarith+
  ultimately show "sint (lastDataPageSize h) = int (dsize h - fdata h) - (int (ndata h) - 1) * 512"
    unfolding r_def[symmetric] tr by (simp only: sint_word_of_int)
qed


text \<open>The three parts of the load, each one more stretch of the image.\<close>

lemma image_code: "prog_ok h c \<Longrightarrow> v < csize h \<Longrightarrow> prog_image h c v = c ! (unat (inFileAddr (code h)) + v)"
  by (simp add: prog_image_def)

lemma image_data: "k < dsize h \<Longrightarrow> prog_image h c (csize h + k) = c ! (unat (inFileAddr (initData h)) + k)"
  by (simp add: prog_image_def)

lemma sint_pos:
  assumes "unat (b :: word32) + k < 2147483648"
  shows "sint (b + word_of_nat k) = int (unat b + k)"
proof -
  have "b + word_of_nat k = word_of_int (int (unat b + k))" by simp
  moreover have "in_range (int (unat b + k))" using assms by (intro in_rangeI) linarith+
  ultimately show ?thesis by (simp only: sint_word_of_int)
qed

lemma unat_pred:
  assumes "0 < n" and "n < 2 ^ 32"
  shows "unat (word_of_nat n - 1 :: word32) = n - 1"
proof -
  have "(word_of_nat n - 1 :: word32) = word_of_nat (n - 1)" using assms(1) by (simp add: of_nat_diff)
  then show ?thesis using assms(2) by (simp only:) (simp add: unat_of_nat take_bit_nat_eq_self)
qed

lemma word_less_pred:
  assumes "i < n" and "n < 2 ^ 32"
  shows "(word_of_nat i :: word32) < word_of_nat n - 1 \<longleftrightarrow> i < n - 1"
  using unat_pred[of n] assms by (simp add: word_less_nat_alt unat_of_nat take_bit_nat_eq_self)

definition load_pre :: "'k OS_scheme \<Rightarrow> nat \<Rightarrow> nat \<Rightarrow> TranslationEntry list \<Rightarrow> NoffHeader \<Rightarrow> byte list \<Rightarrow> nat \<Rightarrow> bool" where
  "load_pre s0 d ino pt h c a \<longleftrightarrow> prog_ok h c \<and> distinct (frames pt) \<and> set (frames pt) \<subseteq> {..<NumPhysPages}
     \<and> (\<exists>f. sf_heap (fs s0) a = Some f \<and> fileno f = int d) \<and> c = inodes (host (fs s0)) ino
     \<and> csize h + dsize h \<le> length pt * 512"

lemma load_step:
  assumes pre: "load_pre s0 d ino pt h c a" and ld: "loaded s0 m0 d ino pt im n s"
    and pg: "i = n div 512" "off = int (n mod 512)" "n mod 512 + len \<le> 512" "n < length pt * 512"
    and args: "sint n32 = int len" "sint pos32 = int pos" "pos + len \<le> length c"
    and im: "\<And>k. k < len \<Longrightarrow> im (n + k) = c ! (pos + k)"
  shows "\<exists>s'. load_chunk h pt a i off n32 pos32 s = Inr s' \<and> loaded s0 m0 d ino pt im (n + len) s'"
proof -
  obtain f where "sf_heap (fs s0) a = Some f" "fileno f = int d" "c = inodes (host (fs s0)) ino" "virtualAddr (code h) = 0"
    "distinct (frames pt)" "set (frames pt) \<subseteq> {..<NumPhysPages}" using pre by (auto simp: load_pre_def prog_ok_def)
  moreover have "n div PageSize < length pt" using pg(4) by (simp add: machine_sizes less_mult_imp_div_less)
  ultimately show ?thesis using load_chunk_ok[OF ld, of a f c len h n32 pos32 pos] pg args im by (simp add: PageSize_def)
qed

lemma load_code_ok:
  assumes pre: "load_pre s0 d ino pt h c a" and ld: "loaded s0 m0 d ino pt (prog_image h c) 0 s"
  shows "\<exists>s'. load_code h pt a s = Inr s' \<and> loaded s0 m0 d ino pt (prog_image h c) (csize h) s'"
proof -
  have ok: "prog_ok h c" and fit: "csize h + dsize h \<le> length pt * 512" using pre by (auto simp: load_pre_def)
  note cw = code_words[OF ok]
  have small: "csize h + 2048 < 2147483648" "unat (inFileAddr (code h)) + csize h \<le> length c" "length c < 2147483648"
    using ok by (auto simp: prog_ok_def)
  note nb = ncode_bounds[of h]
  have "\<exists>s'. load_code h pt a s = Inr s' \<and> loaded s0 m0 d ino pt (prog_image h c) (min (ncode h * 512) (csize h)) s'"
    unfolding load_code_def cw(2)
  proof (rule forR_upt_rule)
    show "loaded s0 m0 d ino pt (prog_image h c) (min (0 * 512) (csize h)) s" using ld by simp
    fix i s1 assume i: "i < ncode h" and ld1: "loaded s0 m0 d ino pt (prog_image h c) (min (i * 512) (csize h)) s1"
    have lt: "i * 512 < csize h" using i nb by linarith
    define len where "len = min 512 (csize h - i * 512)"
    have nn: "min (i * 512) (csize h) = i * 512" "min (Suc i * 512) (csize h) = i * 512 + len" using lt by (auto simp: len_def)
    have "sint (if word_of_nat i < numCodePage h - 1 then word_of_nat PageSize else lastCodePageSize h) = int len"
    proof (cases "i < ncode h - 1")
      case True
      then have "len = 512" using nb by (simp add: len_def)
      moreover have "word_of_nat i < numCodePage h - 1" using word_less_pred[OF i] True nb small(1) by (simp add: cw(1))
      ultimately show ?thesis by (simp add: PageSize_def)
    next
      case False
      then have "ncode h = i + 1" using i by simp
      then have "int len = int (csize h) - (int (ncode h) - 1) * 512" using nb lt by (simp add: len_def of_nat_diff del: of_nat_unat)
      moreover have "\<not> word_of_nat i < numCodePage h - 1" using word_less_pred[OF i] False nb small(1) by (simp add: cw(1))
      ultimately show ?thesis using cw(3) by simp
    qed
    moreover have "sint (inFileAddr (code h) + word_of_nat i * word_of_nat PageSize) = int (unat (inFileAddr (code h)) + i * 512)"
      using sint_pos[of "inFileAddr (code h)" "i * 512"] small lt by (simp add: PageSize_def)
    moreover have "unat (inFileAddr (code h)) + i * 512 + len \<le> length c" using small(2) lt by (simp add: len_def)
    moreover have "prog_image h c (i * 512 + k) = c ! (unat (inFileAddr (code h)) + i * 512 + k)" if "k < len" for k
    proof -
      have "i * 512 + k < csize h" using that unfolding len_def by linarith
      then show ?thesis using image_code[OF ok, of "i * 512 + k"] by (simp add: add.assoc)
    qed
    ultimately show "\<exists>s'. load_chunk h pt a i 0 (if word_of_nat i < numCodePage h - 1 then word_of_nat PageSize else lastCodePageSize h)
          (inFileAddr (code h) + word_of_nat i * word_of_nat PageSize) s1 = Inr s'
        \<and> loaded s0 m0 d ino pt (prog_image h c) (min (Suc i * 512) (csize h)) s'"
      unfolding nn(2) by (intro load_step[OF pre ld1[unfolded nn(1)]]) (use lt fit in \<open>auto simp: len_def\<close>)
  qed simp
  then show ?thesis using nb by simp
qed


lemma load_shared_ok:
  assumes pre: "load_pre s0 d ino pt h c a" and ld: "loaded s0 m0 d ino pt (prog_image h c) (csize h) s"
  shows "\<exists>s'. load_shared h pt a s = Inr s' \<and> loaded s0 m0 d ino pt (prog_image h c) (csize h + fdata h) s'"
proof -
  have ok: "prog_ok h c" and fit: "csize h + dsize h \<le> length pt * 512" using pre by (auto simp: load_pre_def)
  note cw = code_words[OF ok] and dw = data_words[OF ok] and nb = ncode_bounds[of h]
  have small0: "csize h + dsize h + 2048 < 2147483648" "dsize h = 0 \<or> unat (inFileAddr (initData h)) + dsize h \<le> length c" "length c < 2147483648"
    using ok by (auto simp: prog_ok_def)
  have fd: "fdata h \<le> dsize h" "fdata h \<le> ncode h * 512 - csize h" by (simp_all add: fdata_def)
  show ?thesis
  proof (cases "sint (lastCodePageSize h) < int PageSize \<and> sint (firstDataPageSize h) > 0")
    case True
    then have lt: "csize h < ncode h * 512" "0 < fdata h" using cw(3) dw(1) fd(2) by (auto simp: PageSize_def)
    have small: "csize h + dsize h + 2048 < 2147483648" "unat (inFileAddr (initData h)) + dsize h \<le> length c" "length c < 2147483648"
      using small0 lt(2) fd(1) by auto
    have div: "csize h div 512 = ncode h - 1" using lt nb by (intro div_nat_eqI) auto
    have "csize h = csize h div 512 * 512 + csize h mod 512" by simp
    then have md: "csize h mod 512 + 512 = csize h + 512 - (ncode h - 1) * 512" "csize h mod 512 + ncode h * 512 = csize h + 512"
      using div lt by (simp_all add: diff_mult_distrib)
    have "unat (numCodePage h - 1) = ncode h - 1"
      using lt nb small unfolding cw(1) by (intro unat_pred) auto
    then have "\<exists>s'. load_chunk h pt a (unat (numCodePage h - 1)) (sint (lastCodePageSize h)) (firstDataPageSize h) (inFileAddr (initData h)) s = Inr s'
        \<and> loaded s0 m0 d ino pt (prog_image h c) (csize h + fdata h) s'"
    proof (intro load_step[OF pre ld])
      show "sint (lastCodePageSize h) = int (csize h mod 512)" using cw(3) md(2) by (simp del: of_nat_unat)
      show "sint (firstDataPageSize h) = int (fdata h)" by (rule dw(1))
      show "sint (inFileAddr (initData h)) = int (unat (inFileAddr (initData h)))" using small by (intro sint_small_nat) simp
      show "prog_image h c (csize h + k) = c ! (unat (inFileAddr (initData h)) + k)" if "k < fdata h" for k
        using image_data[of k h c] that fd(1) by simp
      show "csize h mod 512 + fdata h \<le> 512" using md(2) fd(2) lt(1) by linarith
    qed (use div fit fd small lt in auto)
    then show ?thesis using True by (simp add: load_shared_def)
  next
    case False
    then have "csize h \<ge> ncode h * 512 \<or> fdata h = 0" using cw(3) dw(1) by (auto simp: PageSize_def simp del: of_nat_unat)
    then have "fdata h = 0" using fd(2) by auto
    then show ?thesis using False ld by (auto simp: load_shared_def)
  qed
qed

lemma load_data_ok:
  assumes pre: "load_pre s0 d ino pt h c a" and ld: "loaded s0 m0 d ino pt (prog_image h c) (csize h + fdata h) s"
  shows "\<exists>s'. load_data h pt a s = Inr s' \<and> loaded s0 m0 d ino pt (prog_image h c) (csize h + dsize h) s'"
proof -
  have ok: "prog_ok h c" and fit: "csize h + dsize h \<le> length pt * 512" using pre by (auto simp: load_pre_def)
  note cw = code_words[OF ok] and dw = data_words[OF ok] and nb = ncode_bounds[of h]
  have small0: "csize h + dsize h + 2048 < 2147483648" "dsize h = 0 \<or> unat (inFileAddr (initData h)) + dsize h \<le> length c" "length c < 2147483648"
    using ok by (auto simp: prog_ok_def)
  have fd: "fdata h \<le> dsize h" by (simp add: fdata_def)
  define r where "r = dsize h - fdata h"
  have ndb: "r \<le> ndata h * 512" "ndata h * 512 < r + 512" unfolding ndata_def r_def by (rule round_up_bounds)+
  have rd: "fdata h + r = dsize h" using fd by (simp add: r_def)
  have "\<exists>s'. load_data h pt a s = Inr s' \<and> loaded s0 m0 d ino pt (prog_image h c) (csize h + fdata h + min (ndata h * 512) r) s'"
    unfolding load_data_def dw(3)
  proof (rule forR_upt_rule)
    show "loaded s0 m0 d ino pt (prog_image h c) (csize h + fdata h + min (0 * 512) r) s" using ld by simp
    fix j s1 assume j: "j < ndata h" and ld1: "loaded s0 m0 d ino pt (prog_image h c) (csize h + fdata h + min (j * 512) r) s1"
    have lt: "j * 512 < r" using j ndb by linarith
    have small: "csize h + dsize h + 2048 < 2147483648" "unat (inFileAddr (initData h)) + dsize h \<le> length c" "length c < 2147483648"
      using small0 lt rd by auto
    have base: "csize h + fdata h = ncode h * 512" using dw(5) j by simp
    define len where "len = min 512 (r - j * 512)"
    have nn: "csize h + fdata h + min (j * 512) r = (ncode h + j) * 512"
      "csize h + fdata h + min (Suc j * 512) r = (ncode h + j) * 512 + len" using lt base by (auto simp: len_def)
    have "unat (numCodePage h + word_of_nat j) = ncode h + j"
      using base lt rd small unfolding cw(1) by (simp add: unat_of_nat take_bit_nat_eq_self of_nat_add[symmetric] del: of_nat_add)
    moreover have "sint (if word_of_nat j < numDataPage h - 1 then word_of_nat PageSize else lastDataPageSize h) = int len"
    proof (cases "j < ndata h - 1")
      case True
      then have "len = 512" using ndb by (simp add: len_def)
      moreover have "word_of_nat j < numDataPage h - 1" using word_less_pred[OF j] True ndb rd small(1) by (simp add: dw(4))
      ultimately show ?thesis by (simp add: PageSize_def)
    next
      case False
      then have "ndata h = j + 1" using j by simp
      then have "int len = int r - (int (ndata h) - 1) * 512" using ndb lt by (simp add: len_def of_nat_diff)
      moreover have "\<not> word_of_nat j < numDataPage h - 1" using word_less_pred[OF j] False ndb rd small(1) by (simp add: dw(4))
      ultimately show ?thesis using dw(6) j by (simp add: r_def)
    qed
    moreover have "sint (inFileAddr (initData h) + word_of_nat j * word_of_nat PageSize + firstDataPageSize h)
        = int (unat (inFileAddr (initData h)) + (j * 512 + fdata h))"
      using sint_pos[of "inFileAddr (initData h)" "j * 512 + fdata h"] small lt rd by (simp add: PageSize_def dw(2) add.assoc)
    moreover have "unat (inFileAddr (initData h)) + (j * 512 + fdata h) + len \<le> length c" using small(2) lt rd by (simp add: len_def)
    moreover have "prog_image h c ((ncode h + j) * 512 + k) = c ! (unat (inFileAddr (initData h)) + (j * 512 + fdata h) + k)" if "k < len" for k
    proof -
      have "(ncode h + j) * 512 + k = csize h + (fdata h + j * 512 + k)" using base by simp
      moreover have "fdata h + j * 512 + k < dsize h" using that rd unfolding len_def by linarith
      ultimately show ?thesis using image_data[of "fdata h + j * 512 + k" h c] by (simp add: ac_simps)
    qed
    ultimately show "\<exists>s'. load_chunk h pt a (unat (numCodePage h + word_of_nat j)) 0
        (if word_of_nat j < numDataPage h - 1 then word_of_nat PageSize else lastDataPageSize h)
        (inFileAddr (initData h) + word_of_nat j * word_of_nat PageSize + firstDataPageSize h) s1 = Inr s'
      \<and> loaded s0 m0 d ino pt (prog_image h c) (csize h + fdata h + min (Suc j * 512) r) s'"
      unfolding nn(2) by (intro load_step[OF pre ld1[unfolded nn(1)]]) (use lt fit rd base in \<open>auto simp: len_def\<close>)
  qed simp
  then show ?thesis using ndb rd by (simp add: add.assoc)
qed


lemma num_pages_nat:
  assumes "prog_ok h c"
  shows "unat (num_pages h) = (csize h + dsize h + usize h + 1024 + 511) div 512"
proof -
  define t where "t = csize h + dsize h + usize h + 1024"
  have t: "t < 2147483648" using assms by (simp add: prog_ok_def t_def)
  define w :: word32 where "w = word_of_nat t"
  have w: "unat w = t" using t by (simp add: w_def unat_of_nat take_bit_nat_eq_self)
  have eq: "seg_size (code h) + seg_size (initData h) + seg_size (uninitData h) + UserStackSize = w"
    by (simp add: w_def t_def UserStackSize_def)
  have d: "w div 512 = word_of_nat (t div 512)"
    using t w by (simp add: word_unat_eq_iff unat_div unat_of_nat take_bit_nat_eq_self)
  have m: "w mod 512 > 0 \<longleftrightarrow> t mod 512 > 0" using w by (simp add: word_less_nat_alt unat_mod)
  have "num_pages h = w div 512 + (if w mod 512 > 0 then 1 else 0)" by (simp add: num_pages_def udivRoundUp_def eq PageSize_def)
  also have "\<dots> = word_of_nat (t div 512 + (if t mod 512 > 0 then 1 else 0))"
    using d m by simp
  also have "t div 512 + (if t mod 512 > 0 then 1 else 0) = (t + 511) div 512"
  proof -
    have "int t mod 512 = int (t mod 512)" "int t div 512 = int (t div 512)" by (simp_all add: zmod_int zdiv_int)
    then have "int (t div 512 + (if t mod 512 > 0 then 1 else 0)) = divRoundUp (int t) 512"
      by (simp only: divRoundUp_nonneg of_nat_0_le_iff zero_less_numeral) simp
    then show ?thesis unfolding divRoundUp_nat of_nat_eq_iff .
  qed
  finally show ?thesis using t by (simp add: t_def unat_of_nat take_bit_nat_eq_self)
qed

lemma xlate_loaded:
  assumes "tlb m = None" and "v < length pt * PageSize" and "length pt * PageSize < 2 ^ 32"
    and "set (frames pt) \<subseteq> {..<NumPhysPages}" and "\<forall>e\<in>set pt. valid e \<and> \<not> readOnly e"
  shows "xlate (word_of_nat v) 1 w (AddrSpace_RestoreState \<lparr>as_pageTable = pt, as_numPages = length pt\<rparr> m) = Inr (Inr (phys pt v))"
proof -
  have v: "unat (word_of_nat v :: word32) = v" using assms(2,3) by (simp add: unat_of_nat take_bit_nat_eq_self)
  have i: "v div PageSize < length pt" by (rule phys_page[OF assms(2)])
  have e: "valid (pt ! (v div PageSize))" "\<not> readOnly (pt ! (v div PageSize))" using assms(5) i by auto
  have f: "unat (physicalPage (pt ! (v div PageSize))) = frames pt ! (v div PageSize)" using i by (simp add: frames_def)
  have fl: "frames pt ! (v div PageSize) < NumPhysPages" using subsetD[OF assms(4) nth_mem[of "v div PageSize"]] i by simp
  then have "frames pt ! (v div PageSize) * PageSize + v mod PageSize + 1 \<le> MemorySize"
    using mod_less_divisor[of PageSize v] by (simp add: machine_sizes)
  then show ?thesis using v i e f fl assms(1)
    by (simp add: xlate_def Translate_def misaligned_def AddrSpace_RestoreState_def find_entry_def entry_table_def Let_def phys_def)
qed


lemma load_all_ok:
  assumes "load_pre s d ino pt h c a" and "loaded s m d ino pt (prog_image h c) 0 s"
  shows "\<exists>s' mem. bindR (load_code h pt a s) (\<lambda>s. bindR (load_shared h pt a s) (load_data h pt a)) = Inr s'
    \<and> machine s' = Some (m\<lparr>mainMemory := mem\<rparr>) \<and> gPhysPageBitMap s' = gPhysPageBitMap s
    \<and> (\<forall>v < length pt * PageSize. mem (phys pt v) = prog_image h c v)
    \<and> (\<forall>x. x div PageSize \<notin> set (frames pt) \<longrightarrow> mem x = mainMemory m x)"
proof -
  obtain s3 where s3: "load_code h pt a s = Inr s3" "loaded s m d ino pt (prog_image h c) (csize h) s3" using load_code_ok[OF assms] by blast
  obtain s4 where s4: "load_shared h pt a s3 = Inr s4" "loaded s m d ino pt (prog_image h c) (csize h + fdata h) s4"
    using load_shared_ok[OF assms(1) s3(2)] by blast
  obtain s5 where s5: "load_data h pt a s4 = Inr s5" "loaded s m d ino pt (prog_image h c) (csize h + dsize h) s5"
    using load_data_ok[OF assms(1) s4(2)] by blast
  obtain mem where m5: "machine s5 = Some (m\<lparr>mainMemory := mem\<rparr>)" "gPhysPageBitMap s5 = gPhysPageBitMap s"
      "\<And>x. x < length pt * PageSize \<Longrightarrow> mem (phys pt x) = (if x < csize h + dsize h then prog_image h c x else 0)"
      "\<And>x. x div PageSize \<notin> set (frames pt) \<Longrightarrow> mem x = mainMemory m x"
    using s5(2) unfolding loaded_def by auto
  have "mem (phys pt x) = prog_image h c x" if "x < length pt * PageSize" for x
    using m5(3)[OF that] by (simp add: prog_image_def)
  then show ?thesis using s3 s4 s5 m5 by auto
qed

lemma enough_clear:
  assumes "bm_ok bm" and "NumPhysPages \<le> bm_size bm" and "n \<le> card ({..<NumPhysPages} - bm_set bm)"
  shows "\<exists>k. BitMap_NumClear bm = Inr k \<and> int n \<le> k"
proof -
  have "card ({..<NumPhysPages} - bm_set bm) \<le> card ({..<bm_size bm} - bm_set bm)" using assms(2) by (intro card_mono) auto
  also have "\<dots> = bm_size bm - card (bm_set bm)"
    using card_Diff_subset[OF finite_bm_set, of bm "{..<bm_size bm}"] bm_set_bound by simp
  finally show ?thesis using bm.num_clear_eq[OF assms(1)] assms(3) by simp
qed


lemma alloc_page_overruns:
  assumes "allocated s0 m0 pt s" and "length pt = card ({..<NumPhysPages} - bm_set (gPhysPageBitMap s0))"
    and "bm_set (gPhysPageBitMap s) \<noteq> {..<bm_size (gPhysPageBitMap s)}"
  shows "alloc_page i (pt, s) = Inl OutOfBounds"
proof -
  let ?U = "bm_set (gPhysPageBitMap s0)"
  obtain mem where s: "bm_ok (gPhysPageBitMap s)" "machine s = Some (m0\<lparr>mainMemory := mem\<rparr>)"
      "bm_set (gPhysPageBitMap s) = ?U \<union> set (frames pt)"
    and fr: "distinct (frames pt)" "set (frames pt) \<subseteq> {..<NumPhysPages} - ?U"
    using assms(1) unfolding allocated_def by auto
  have "set (frames pt) = {..<NumPhysPages} - ?U"
    using fr assms(2) by (intro card_subset_eq) (simp_all add: distinct_card)
  then have full: "{..<NumPhysPages} \<subseteq> bm_set (gPhysPageBitMap s)" using s(3) by blast
  obtain f bm' where f: "BitMap_Find (gPhysPageBitMap s) = Inr (int f, bm')" "f \<notin> bm_set (gPhysPageBitMap s)"
    using bm.find_free[OF s(1) assms(3)] by blast
  then have "NumPhysPages \<le> f" using full by (meson lessThan_iff not_le subsetD)
  then have "int f * int PageSize + int PageSize > int MemorySize" by (simp add: machine_sizes)
  then show ?thesis using f(1) s(2) by (simp add: alloc_page_def Let_def mem_write_def get_machine_def)
qed

text \<open>
  C36. The page bitmap has more bits than the machine has frames. So when a program needs more frames than are left
  but not more bits than are clear, the check that there is enough memory passes, and the loop that clears the
  frames writes beyond the end of \<open>mainMemory\<close>.
\<close>

theorem page_bitmap_overruns_memory:
  assumes "bm_ok (gPhysPageBitMap s)" and "NumPhysPages \<le> bm_size (gPhysPageBitMap s)" and "machine s = Some m"
    and "card ({..<NumPhysPages} - bm_set (gPhysPageBitMap s)) < unat (num_pages h)"
    and "unat (num_pages h) \<le> bm_size (gPhysPageBitMap s) - card (bm_set (gPhysPageBitMap s))"
  shows "AddrSpace_build fin jsp h a s = Inl OutOfBounds"
proof -
  let ?k = "card ({..<NumPhysPages} - bm_set (gPhysPageBitMap s))"
  let ?np = "unat (num_pages h)"
  obtain pt s1 where s1: "forR alloc_page [0..<?k] ([], s) = Inr (pt, s1)" "length pt = ?k" "allocated s m pt s1"
    using alloc_pages_ok[OF assms(1-3), of ?k] by blast
  have al: "distinct (frames pt)" "set (frames pt) \<inter> bm_set (gPhysPageBitMap s) = {}"
      "bm_set (gPhysPageBitMap s1) = bm_set (gPhysPageBitMap s) \<union> set (frames pt)" "bm_size (gPhysPageBitMap s1) = bm_size (gPhysPageBitMap s)"
    using s1(3) unfolding allocated_def by auto
  have "card (bm_set (gPhysPageBitMap s1)) = card (bm_set (gPhysPageBitMap s)) + ?k"
    using al s1(2) card_Un_disjoint[of "bm_set (gPhysPageBitMap s)" "set (frames pt)"] by (simp add: finite_bm_set distinct_card Int_commute)
  then have "card (bm_set (gPhysPageBitMap s1)) < bm_size (gPhysPageBitMap s1)" using assms(4,5) al(4) by linarith
  then have "bm_set (gPhysPageBitMap s1) \<noteq> {..<bm_size (gPhysPageBitMap s1)}" by (metis card_lessThan less_irrefl)
  then have "alloc_page ?k (pt, s1) = Inl OutOfBounds" using alloc_page_overruns[OF s1(3,2)] by blast
  moreover have "[0..<?np] = [0..<?k] @ ?k # [Suc ?k..<?np]" 
    using assms(4) upt_add_eq_append[of 0 ?k "?np - ?k"] by (simp add: upt_conv_Cons)
  ultimately have "forR alloc_page [0..<?np] ([], s) = Inl OutOfBounds" using s1(1) by (simp only: forR_append) simp
  moreover have "\<not> uint (num_pages h) > int (bm_size (gPhysPageBitMap s) - card (bm_set (gPhysPageBitMap s)))"
    using assms(5) unfolding not_less by (metis of_nat_le_iff of_nat_unat)
  ultimately show ?thesis using bm.num_clear_eq[OF assms(1)] by (simp add: AddrSpace_build_def AddrSpace_alloc_def)
qed

section \<open>Concrete states\<close>

definition demo_hdr :: NoffHeader where
  "demo_hdr = \<lparr>noffMagic = NOFFMAGIC, code = \<lparr>virtualAddr = 0, inFileAddr = 0, seg_size = 2\<rparr>,
     initData = \<lparr>virtualAddr = 2, inFileAddr = 2, seg_size = 1\<rparr>, uninitData = \<lparr>virtualAddr = 3, inFileAddr = 0, seg_size = 0\<rparr>\<rparr>"

definition demo_user :: "word32 list \<Rightarrow> OS" where
  "demo_user ws = (demo_os 0)\<lparr>machine := Some (Machine_new False 0 0), gPhysPageBitMap := \<lparr>numBits = 256, numWords = 8, bmap = ws\<rparr>,
     addrLock := 2, fs := \<lparr>host = demo_unix, sf_heap = [0 \<mapsto> StubFile_new 3 0], sf_brk = 1, openf = replicate 15 None, index = 0\<rparr>\<rparr>"

lemma demo_prog: "prog_ok demo_hdr [1, 2, 3]"
  by (simp add: prog_ok_def demo_hdr_def)

lemma demo_pages: "unat (num_pages demo_hdr) = 3"
  using num_pages_nat[OF demo_prog] by (simp add: demo_hdr_def)

lemma demo_bits:
  assumes "length ws = 8"
  shows "bm_ok (gPhysPageBitMap (demo_user ws))" "bm_size (gPhysPageBitMap (demo_user ws)) = 256"
  using assms by (simp_all add: demo_user_def bm_ok_def bm_size_def divRoundUp_def BitsInWord_def)

lemma demo_user_kinv: "kinv (demo_user ws)" "sems (demo_user ws) (addrLock (demo_user ws)) \<noteq> None"
proof -
  show "kinv (demo_user ws)" using demo_kinv[of 0] by (simp add: demo_user_def kinv_def env_ok_def view_def)
  have "sems (demo_os 0) 2 \<noteq> None" using demo_fields(6)[of 0] by (simp add: linked_def demo_pcb_def numeral_2_eq_2)
  then show "sems (demo_user ws) (addrLock (demo_user ws)) \<noteq> None" by (simp add: demo_user_def)
qed


lemma page_bitmap_overruns_memory_witness:
  "unat (num_pages demo_hdr) = 3
    \<and> AddrSpace_build Inr \<lparr>as_pageTable = [], as_numPages = 0\<rparr> demo_hdr 0 (demo_user [-1, -1, -1, -1, 0, 0, 0, 0]) = Inl OutOfBounds"
proof -
  let ?s = "demo_user [-1, -1, -1, -1, 0, 0, 0, 0]"
  have "bm_bit (gPhysPageBitMap ?s) i \<longleftrightarrow> i < 128" if "i < 256" for i
  proof -
    have "i div 32 \<in> {0, 1, 2, 3, 4, 5, 6, 7}" using that by auto
    moreover have "i < 128 \<longleftrightarrow> i div 32 < 4" by auto
    ultimately show ?thesis by (auto simp: bm_bit_def demo_user_def)
  qed
  then have set: "bm_set (gPhysPageBitMap ?s) = {..<128}" using demo_bits(2)[of "[-1, -1, -1, -1, 0, 0, 0, 0]"] by (auto simp: bm_set_def)
  have m: "machine ?s = Some (Machine_new False 0 0)" by (simp add: demo_user_def)
  show ?thesis
    using page_bitmap_overruns_memory[OF demo_bits(1) _ m, of demo_hdr] demo_bits(2)[of "[-1, -1, -1, -1, 0, 0, 0, 0]"] set
    by (simp add: demo_pages NumPhysPages_def)
qed

end
