(* ===== verification/Nachos_Exception.thy ===== *)
theory Nachos_Exception
  imports Nachos_AddrSpace
begin

text \<open>
  userprog/exception.cc: the kernel's entry point. Every \<open>Exception_\<close> function is one definition, and
  \<open>ExceptionHandler\<close> the switch over them.

  A copy from or to user memory goes through \<open>ReadMem\<close> and \<open>WriteMem\<close>; if the translation fails, these call
  \<open>ExceptionHandler\<close> themselves, and for each exception a translation can raise it halts the machine. So a
  failed copy is \<open>KHalt\<close>. The copy loops hand their result to the rest of the code (\<open>k\<close>). \<open>junk\<close> stands for
  the uninitialised storage of the objects that a call creates.

  A console call is one step here: what other threads do while it waits is not interleaved. The bytes of a
  buffer are the list of its elements.
\<close>

record Junk =
  j_pcb :: PCB
  j_regs :: "nat \<Rightarrow> word32"
  j_type :: int
  j_char :: byte

section \<open>Registers and user memory\<close>

definition read_reg :: "int \<Rightarrow> 'k Interrupt_scheme \<Rightarrow> word32 res" where
  "read_reg i s = bindR (get_machine s) (ReadRegister i)"

definition write_reg :: "int \<Rightarrow> word32 \<Rightarrow> 'k Interrupt_scheme \<Rightarrow> 'k Interrupt_scheme res" where
  "write_reg i v s = bindR (get_machine s) (\<lambda>m. bindR (WriteRegister i v m) (\<lambda>m. Inr (s\<lparr>machine := Some m\<rparr>)))"

text \<open>The handler of a failed copy does not return; what the access would do after it is discarded.\<close>

definition halting :: "'k handler" where
  "halting e m = Inr m"

definition user_read :: "word32 \<Rightarrow> 'k Interrupt_scheme \<Rightarrow> (word32 option \<times> 'k Interrupt_scheme) res" where
  "user_read a s = bindR (get_machine s) (\<lambda>m.
     bindR (ReadMem halting a 1 m) (\<lambda>(v, m). Inr (v, s\<lparr>machine := Some m\<rparr>)))"

definition user_write :: "word32 \<Rightarrow> word32 \<Rightarrow> 'k Interrupt_scheme \<Rightarrow> (bool \<times> 'k Interrupt_scheme) res" where
  "user_write a v s = bindR (get_machine s) (\<lambda>m.
     bindR (WriteMem halting a 1 v m) (\<lambda>(ok, m). Inr (ok, s\<lparr>machine := Some m\<rparr>)))"

text \<open>The loop of \<open>User2System\<close> with \<open>n\<close> iterations left; the result is the bytes stored.\<close>

fun copy_in :: "nat \<Rightarrow> word32 \<Rightarrow> (byte list \<Rightarrow> 'k Interrupt_scheme \<Rightarrow> ('k Interrupt_scheme) kprog) \<Rightarrow>
    'k Interrupt_scheme \<Rightarrow> ('k Interrupt_scheme) kprog" where
  "copy_in 0 a k s = k [] s"
| "copy_in (Suc n) a k s = liftK (user_read a s) (\<lambda>(v, s). case v of
     None \<Rightarrow> KHalt s
   | Some oneChar \<Rightarrow> if oneChar = 0 then k [ucast oneChar] s
       else copy_in n (a + 1) (\<lambda>bs s. k (ucast oneChar # bs) s) s)"

text \<open>The buffer has \<open>limit + 1\<close> bytes, cleared first. A negative array size is refused by the allocator.\<close>

definition User2System :: "word32 \<Rightarrow> word32 \<Rightarrow> (byte list \<Rightarrow> 'k Interrupt_scheme \<Rightarrow> ('k Interrupt_scheme) kprog) \<Rightarrow>
    'k Interrupt_scheme \<Rightarrow> ('k Interrupt_scheme) kprog" where
  "User2System virtAddr limit k s = (if sint limit + 1 < 0 then KFault OutOfBounds else
     copy_in (nat (sint limit)) virtAddr (\<lambda>bs s. k (bs @ replicate (nat (sint limit + 1) - length bs) 0) s) s)"

text \<open>The loop of \<open>System2User\<close>: \<open>n\<close> iterations left, \<open>i\<close> bytes copied, \<open>buf\<close> the rest of the buffer.\<close>

fun copy_out :: "nat \<Rightarrow> word32 \<Rightarrow> byte list \<Rightarrow> int \<Rightarrow> (int \<Rightarrow> 'k Interrupt_scheme \<Rightarrow> ('k Interrupt_scheme) kprog) \<Rightarrow>
    'k Interrupt_scheme \<Rightarrow> ('k Interrupt_scheme) kprog" where
  "copy_out 0 a buf i k s = k i s"
| "copy_out (Suc n) a buf i k s = (case buf of
     [] \<Rightarrow> KFault OutOfBounds
   | b # bs \<Rightarrow> liftK (user_write a (scast b) s) (\<lambda>(ok, s).
       if \<not> ok then KHalt s
       else if b = 0 then k (i + 1) s
       else copy_out n (a + 1) bs (i + 1) k s))"

definition System2User :: "word32 \<Rightarrow> int \<Rightarrow> byte list \<Rightarrow> (int \<Rightarrow> 'k Interrupt_scheme \<Rightarrow> ('k Interrupt_scheme) kprog) \<Rightarrow>
    'k Interrupt_scheme \<Rightarrow> ('k Interrupt_scheme) kprog" where
  "System2User virtAddr len buffer k s =
    (if len < 0 then k (-1) s else if len = 0 then k len s
     else copy_out (nat len) virtAddr buffer 0 k s)"

definition Increase_ProgramCounter :: "'k Interrupt_scheme \<Rightarrow> 'k Interrupt_scheme res" where
  "Increase_ProgramCounter s =
    bindR (read_reg (int NextPCReg) s) (\<lambda>npc. let pcAfter = npc + 4 in
    bindR (read_reg (int PCReg) s) (\<lambda>pc.
    bindR (write_reg (int PrevPCReg) pc s) (\<lambda>s.
    bindR (read_reg (int NextPCReg) s) (\<lambda>npc.
    bindR (write_reg (int PCReg) npc s) (\<lambda>s.
    write_reg (int NextPCReg) pcAfter s)))))"

text \<open>A handler's last write to a register.\<close>

definition return_reg :: "word32 \<Rightarrow> 'k Interrupt_scheme \<Rightarrow> ('k Interrupt_scheme) kprog" where
  "return_reg v s = liftK (write_reg 2 v s) (KRet 0)"

section \<open>Console calls\<close>

text \<open>\<open>gSynchConsole->Read(&c, 1)\<close>: the character, or 0 at the end of a line.\<close>

definition read_char :: "byte \<Rightarrow> Console \<Rightarrow> (byte \<times> Console) option" where
  "read_char junk c = (case SynchConsole_Read junk 1 c of None \<Rightarrow> None | Some (_, bs, c) \<Rightarrow> Some (hd bs, c))"

definition typed_left :: "Console \<Rightarrow> nat" where
  "typed_left c = length (keys c) + (if incoming c = EOFc then 0 else 1)"

lemma getc_consumes: "SynchConsole_getc c = Some (ch, c') \<Longrightarrow> typed_left c' < typed_left c"
proof (induction c rule: SynchConsole_getc.induct)
  case (1 c)
  show ?case
  proof (cases "incoming c = EOFc \<and> keys c = []")
    case False
    define c1 where "c1 = snd (Console_CheckCharAvail c)"
    have less: "typed_left (snd (Console_GetChar c1)) < typed_left c"
      using False by (auto simp: c1_def typed_left_def Console_GetChar_def Console_CheckCharAvail_def split: list.splits)
    show ?thesis
    proof (cases "fst (Console_GetChar c1) = EOFc")
      case True
      then have "SynchConsole_getc (snd (Console_GetChar c1)) = Some (ch, c')"
        using "1.prems" False unfolding SynchConsole_getc.simps[of c] by (simp add: c1_def Let_def split: if_splits)
      then show ?thesis using "1.IH"[OF False c1_def refl refl] True less by simp
    next
      case F: False
      then show ?thesis using "1.prems" False less unfolding SynchConsole_getc.simps[of c] by (auto simp: c1_def Let_def split: if_splits)
    qed
  qed (use "1.prems" in \<open>simp add: SynchConsole_getc.simps[of c]\<close>)
qed

lemma read_char_consumes: "read_char junk c = Some (ch, c') \<Longrightarrow> typed_left c' < typed_left c"
  by (auto simp: read_char_def SynchConsole_Read_def split: option.splits prod.splits if_splits dest: getc_consumes)

function skip_spaces :: "byte \<Rightarrow> Console \<Rightarrow> (byte \<times> Console) option" where
  "skip_spaces junk c = (case read_char junk c of None \<Rightarrow> None
     | Some (ch, c') \<Rightarrow> if ch = 32 then skip_spaces junk c' else Some (ch, c'))"
  by pat_completeness auto
termination
  by (relation "measure (\<lambda>(_, c). typed_left c)") (auto dest: read_char_consumes)

declare skip_spaces.simps [simp del]

definition is_digit :: "byte \<Rightarrow> bool" where
  "is_digit ch \<longleftrightarrow> 48 \<le> ch \<and> ch \<le> 57"

text \<open>The loop that reads digits, with room for \<open>n\<close> more in the array.\<close>

fun read_digits :: "byte \<Rightarrow> nat \<Rightarrow> byte \<Rightarrow> Console \<Rightarrow> (byte list \<times> Console) option" where
  "read_digits junk 0 ch c = Some ([], c)"
| "read_digits junk (Suc n) ch c = (if is_digit ch then
     (case read_char junk c of None \<Rightarrow> None
      | Some (ch', c) \<Rightarrow> (case read_digits junk n ch' c of None \<Rightarrow> None | Some (ds, c) \<Rightarrow> Some (ch # ds, c)))
     else Some ([], c))"

text \<open>\<open>ret\<close> is a 64-bit integer; eleven digits fit it.\<close>

definition digits_value :: "byte list \<Rightarrow> int" where
  "digits_value ds = foldl (\<lambda>ret d. ret * 10 + (uint d - 48)) 0 ds"

definition read_int :: "byte \<Rightarrow> Console \<Rightarrow> (int \<times> Console) option" where
  "read_int junk c = (case skip_spaces junk c of None \<Rightarrow> None | Some (ch, c) \<Rightarrow>
     let sign = (ch = 45); first = (if ch \<noteq> 45 \<and> ch \<noteq> 43 \<and> is_digit ch then [ch] else []) in
     (case read_char junk c of None \<Rightarrow> None | Some (ch, c) \<Rightarrow>
     (case read_digits junk (11 - length first) ch c of None \<Rightarrow> None | Some (ds, c) \<Rightarrow>
       let ret = digits_value (first @ ds);
           ret = (if ret > 2147483647 then 0 else ret)
       in Some (if sign then - ret else ret, c))))"

definition Exception_ReadInt :: "Junk \<Rightarrow> 'k OS_scheme \<Rightarrow> ('k OS_scheme) kprog" where
  "Exception_ReadInt J s = (case read_int (j_char J) (cons s) of None \<Rightarrow> KInput s
     | Some (ret, c) \<Rightarrow> return_reg (word_of_int ret) (s\<lparr>cons := c\<rparr>))"

text \<open>\<open>ExceptionHandler\<close> does not call this one: its case for \<open>SC_Halt\<close> has the same body.\<close>

definition Exception_Halt :: "'k OS_scheme \<Rightarrow> ('k OS_scheme) kprog" where
  "Exception_Halt s = KHalt s"

text \<open>The digits of \<open>n\<close>, least significant first, as the \<open>do\<close> loop stores them.\<close>

function int_digits :: "int \<Rightarrow> int list" where
  "int_digits n = n smod 10 # (if n sdiv 10 = 0 then [] else int_digits (n sdiv 10))"
  by pat_completeness auto
termination
proof (relation "measure (\<lambda>n. nat \<bar>n\<bar>)")
  fix n :: int assume "n sdiv 10 \<noteq> 0"
  moreover have "\<bar>n sdiv 10\<bar> = \<bar>n\<bar> div 10" by (auto simp: signed_divide_int_def abs_mult abs_sgn_eq)
  ultimately show "(n sdiv 10, n) \<in> measure (\<lambda>n. nat \<bar>n\<bar>)" by auto
qed simp

declare int_digits.simps [simp del]

definition int_chars :: "int \<Rightarrow> byte list" where
  "int_chars n = (if n < 0 then [45] else [])
     @ rev (map (\<lambda>d. word_of_int (48 + d)) (int_digits (if n < 0 then i32 (- n) else n)))"

text \<open>\<open>Write(from, n)\<close> on the console.\<close>

definition cons_write :: "byte list \<Rightarrow> int \<Rightarrow> 'k OS_scheme \<Rightarrow> 'k OS_scheme res" where
  "cons_write bs n s = bindR (SynchConsole_Write bs n (cons s)) (\<lambda>(_, c). Inr (s\<lparr>cons := c\<rparr>))"

definition Exception_PrintInt :: "'k OS_scheme \<Rightarrow> ('k OS_scheme) kprog" where
  "Exception_PrintInt s = liftK (read_reg 4 s) (\<lambda>v. let num_string = int_chars (sint v) in
     liftK (cons_write num_string (int (length num_string)) s) (return_reg 0))"

definition Exception_ReadChar :: "Junk \<Rightarrow> 'k OS_scheme \<Rightarrow> ('k OS_scheme) kprog" where
  "Exception_ReadChar J s = (case read_char (j_char J) (cons s) of None \<Rightarrow> KInput s
     | Some (ch, c) \<Rightarrow> return_reg (scast ch) (s\<lparr>cons := c\<rparr>))"

definition Exception_PrintChar :: "'k OS_scheme \<Rightarrow> ('k OS_scheme) kprog" where
  "Exception_PrintChar s = liftK (read_reg 4 s) (\<lambda>v. liftK (cons_write [ucast v] 1 s) (return_reg 0))"

text \<open>\<open>ReadString\<close> passes an uninitialised pointer to \<open>Read\<close>, which writes \<open>maxLength\<close> bytes through it.\<close>

definition Exception_ReadString :: "'k OS_scheme \<Rightarrow> ('k OS_scheme) kprog" where
  "Exception_ReadString s = liftK (read_reg 4 s) (\<lambda>addr. liftK (read_reg 5 s) (\<lambda>maxLength.
     if sint maxLength > 0 then KFault DanglingPointer
     else System2User addr (sint maxLength) [] (\<lambda>_ s. KRet 0 s) s))"

definition Exception_PrintString :: "'k OS_scheme \<Rightarrow> ('k OS_scheme) kprog" where
  "Exception_PrintString s = liftK (read_reg 4 s) (\<lambda>addr.
     User2System addr 255 (\<lambda>buffer s. liftK (cons_write buffer (int (length (cstr buffer))) s) (KRet 0)) s)"

section \<open>File calls\<close>

definition Exception_CreateFile :: "'k OS_scheme \<Rightarrow> ('k OS_scheme) kprog" where
  "Exception_CreateFile s = liftK (read_reg 4 s) (\<lambda>addr.
     User2System addr 33 (\<lambda>fileName s.
       liftK (if cstr fileName = [] then write_reg 2 (-1) s else Inr s) (\<lambda>s.
       liftK (StubFS_Create (cstr fileName) 0 (fs s)) (\<lambda>(ok, f). let s = s\<lparr>fs := f\<rparr> in
       liftK (if \<not> ok then write_reg 2 (-1) s else Inr s) (\<lambda>s.
       return_reg 0 s)))) s)"

definition Exception_Open :: "'k OS_scheme \<Rightarrow> ('k OS_scheme) kprog" where
  "Exception_Open s = liftK (read_reg 4 s) (\<lambda>virtAddr. liftK (read_reg 5 s) (\<lambda>type.
     User2System virtAddr 32 (\<lambda>filename s.
       let freeSlot = StubFS_FindFreeSlot (fs s) in
       if freeSlot \<noteq> -1 then
         if type = 0 \<or> type = 1 then
           liftK (StubFS_Open (cstr filename) (sint type) (fs s)) (\<lambda>(p, f).
             let s = s\<lparr>fs := f\<lparr>openf := (openf f)[nat freeSlot := p]\<rparr>\<rparr> in
             if p \<noteq> None then return_reg (word_of_int freeSlot) s else KRet 0 s)
         else if type = 2 then return_reg 0 s
         else return_reg 1 s
       else return_reg (-1) s) s))"

text \<open>\<open>openf[id]\<close>, the table having fifteen entries.\<close>

definition get_openf :: "int \<Rightarrow> 'k OS_scheme \<Rightarrow> nat option res" where
  "get_openf i s = (if i < 0 \<or> i \<ge> int (length (openf (fs s))) then Inl OutOfBounds else Inr (openf (fs s) ! nat i))"

definition deref_openf :: "int \<Rightarrow> 'k OS_scheme \<Rightarrow> (nat \<times> StubFile) res" where
  "deref_openf i s = bindR (get_openf i s) (\<lambda>p. case p of None \<Rightarrow> Inl NullPointer
     | Some a \<Rightarrow> bindR (get_file a (fs s)) (\<lambda>f. Inr (a, f)))"

definition put_file :: "nat \<Rightarrow> StubFile \<Rightarrow> Unix \<Rightarrow> 'k OS_scheme \<Rightarrow> 'k OS_scheme" where
  "put_file a f u s = s\<lparr>fs := (fs s)\<lparr>sf_heap := (sf_heap (fs s))(a \<mapsto> f), host := u\<rparr>\<rparr>"

text \<open>\<open>Close\<close> deletes the object and leaves the pointer in the table.\<close>

definition Exception_Close :: "'k OS_scheme \<Rightarrow> ('k OS_scheme) kprog" where
  "Exception_Close s = liftK (read_reg 4 s) (\<lambda>v. let fileId = sint v in
     if fileId \<ge> 0 \<and> fileId \<le> 14 then
       liftK (get_openf fileId s) (\<lambda>p. case p of
         Some a \<Rightarrow> liftK (write_reg 2 0 s) (\<lambda>s.
           liftK (delete_file a (fs s)) (\<lambda>f. KRet 0 (s\<lparr>fs := f\<rparr>)))
       | None \<Rightarrow> return_reg (-1) s)
     else return_reg (-1) s)"

text \<open>\<open>openf[id]->GetCurrentPos()\<close>.\<close>

definition file_pos :: "int \<Rightarrow> 'k OS_scheme \<Rightarrow> (int \<times> 'k OS_scheme) res" where
  "file_pos i s = bindR (deref_openf i s) (\<lambda>(a, f).
     let (p, f) = StubFile_GetCurrentPos f (host (fs s)) in Inr (p, put_file a f (host (fs s)) s))"

definition Exception_Read :: "Junk \<Rightarrow> 'k OS_scheme \<Rightarrow> ('k OS_scheme) kprog" where
  "Exception_Read J s = liftK (read_reg 4 s) (\<lambda>addr. liftK (read_reg 5 s) (\<lambda>charCount. liftK (read_reg 6 s) (\<lambda>w.
    let i = sint w in
    if i < 0 \<or> i > 14 then return_reg (-1) s else
    liftK (get_openf i s) (\<lambda>p.
    if p = None then return_reg (-1) s else
    liftK (deref_openf i s) (\<lambda>(_, f).
    if ftype f = 3 then return_reg (-1) s else
    liftK (file_pos i s) (\<lambda>(firstPositionInFile, s).
    User2System addr charCount (\<lambda>temp s.
      if ftype f = 2 then
        (case SynchConsole_Read (j_char J) (sint charCount) (cons s) of None \<Rightarrow> KInput s
         | Some (sz, bs, c) \<Rightarrow> System2User addr sz (bs @ drop (length bs) temp) (\<lambda>_ s. return_reg (word_of_int sz) s) (s\<lparr>cons := c\<rparr>))
      else
        liftK (deref_openf i s) (\<lambda>(a, f).
        liftK (StubFile_Read (sint charCount) f (host (fs s))) (\<lambda>(n, data, f, u). let s = put_file a f u s in
        if n > 0 then
          liftK (file_pos i s) (\<lambda>(lastPositionInFile, s).
          System2User addr (lastPositionInFile - firstPositionInFile) (data @ drop (length data) temp)
            (\<lambda>_ s. return_reg (word_of_int (lastPositionInFile - firstPositionInFile)) s) s)
        else return_reg (-2) s))) s))))))"

text \<open>The loop that writes to the console up to the end of the string or of the line.\<close>

fun write_line :: "byte list \<Rightarrow> nat \<Rightarrow> (nat \<Rightarrow> 'k OS_scheme \<Rightarrow> ('k OS_scheme) kprog) \<Rightarrow> 'k OS_scheme \<Rightarrow> ('k OS_scheme) kprog" where
  "write_line [] i k s = KFault OutOfBounds"
| "write_line (b # bs) i k s = (if b \<noteq> 0 \<and> b \<noteq> 10
     then liftK (cons_write [b] 1 s) (write_line bs (i + 1) k)
     else liftK (cons_write [10] 1 s) (k i))"

definition Exception_Write :: "'k OS_scheme \<Rightarrow> ('k OS_scheme) kprog" where
  "Exception_Write s = liftK (read_reg 4 s) (\<lambda>virtAddr. liftK (read_reg 5 s) (\<lambda>charcount. liftK (read_reg 6 s) (\<lambda>w.
    let i = sint w in
    liftK (if i < 0 \<or> i > 14 then write_reg 2 (-1) s else Inr s) (\<lambda>s.
    liftK (get_openf i s) (\<lambda>p.
    liftK (if p = None then write_reg 2 (-1) s else Inr s) (\<lambda>s.
    liftK (deref_openf i s) (\<lambda>(_, f).
    liftK (if ftype f = 1 \<or> ftype f = 2 then write_reg 2 (-1) s else Inr s) (\<lambda>s.
    liftK (file_pos i s) (\<lambda>(OldPos, s).
    User2System virtAddr charcount (\<lambda>temp s.
      bindK (if ftype f = 0 then
          liftK (deref_openf i s) (\<lambda>(a, f).
          liftK (StubFile_Write temp (sint charcount) f (host (fs s))) (\<lambda>(n, f, u). let s = put_file a f u s in
          if n > 0 then liftK (file_pos i s) (\<lambda>(NewPos, s). return_reg (word_of_int (NewPos - OldPos)) s)
          else KRet 0 s))
        else KRet 0 s) (\<lambda>_ s.
      if ftype f = 3 then write_line temp 0 (\<lambda>n s. return_reg (word_of_int (int n - 1)) s) s
      else KRet 0 s)) s)))))))))"

section \<open>Process and semaphore calls\<close>

text \<open>The buffer with the name is freed at the end, although the new thread keeps a pointer to it; the model's
  threads have their names by value.\<close>

definition Exception_Exec :: "Junk \<Rightarrow> 'k OS_scheme \<Rightarrow> ('k OS_scheme) kprog" where
  "Exception_Exec J s = liftK (read_reg 4 s) (\<lambda>virtAddr.
     User2System virtAddr 33 (\<lambda>name s.
       liftK (StubFS_Open (cstr name) (j_type J) (fs s)) (\<lambda>(oFile, f). let s = s\<lparr>fs := f\<rparr> in
       case oFile of
         None \<Rightarrow> return_reg (-1) s
       | Some a \<Rightarrow> liftK (delete_executable a s) (\<lambda>s.
           bindK (ExecUpdate (j_pcb J) (j_regs J) (j_type J) name s) (\<lambda>i s. return_reg (word_of_int i) s)))) s)"

definition Exception_Join :: "'k OS_scheme \<Rightarrow> ('k OS_scheme) kprog" where
  "Exception_Join s = liftK (read_reg 4 s) (\<lambda>i.
     bindK (JoinUpdate (sint i) s) (\<lambda>r s. return_reg (word_of_int r) s))"

definition Exception_Exit :: "'k OS_scheme \<Rightarrow> ('k OS_scheme) kprog" where
  "Exception_Exit s = liftK (read_reg 4 s) (\<lambda>exitstatus.
     bindK (ExitUpdate (sint exitstatus) s) (\<lambda>r s. return_reg (word_of_int r) s))"

definition Exception_CreateSemaphore :: "'k OS_scheme \<Rightarrow> ('k OS_scheme) kprog" where
  "Exception_CreateSemaphore s = liftK (read_reg 4 s) (\<lambda>addr. liftK (read_reg 5 s) (\<lambda>semval.
     User2System addr 255 (\<lambda>name s.
       liftK (STable_Create name (sint semval) s) (\<lambda>(r, s).
       if r = -1 then return_reg (-1) s else return_reg 0 s)) s))"

definition Exception_Wait :: "'k OS_scheme \<Rightarrow> ('k OS_scheme) kprog" where
  "Exception_Wait s = liftK (read_reg 4 s) (\<lambda>addr.
     User2System addr 255 (\<lambda>name s. bindK (STable_Wait name s) (\<lambda>r s. return_reg (word_of_int r) s)) s)"

definition Exception_Signal :: "'k OS_scheme \<Rightarrow> ('k OS_scheme) kprog" where
  "Exception_Signal s = liftK (read_reg 4 s) (\<lambda>addr.
     User2System addr 255 (\<lambda>name s. bindK (STable_Signal name s) (\<lambda>r s. return_reg (word_of_int r) s)) s)"

definition Exception_Sum :: "'k OS_scheme \<Rightarrow> ('k OS_scheme) kprog" where
  "Exception_Sum s = liftK (read_reg 4 s) (\<lambda>a. liftK (read_reg 5 s) (\<lambda>b. return_reg (a + b) s))"

section \<open>The handler\<close>

text \<open>userprog/syscall.h.\<close>

datatype Syscall = SC_Halt | SC_Exit | SC_Exec | SC_Join | SC_CreateFile | SC_Open | SC_Read | SC_Write | SC_Close
  | SC_Fork | SC_Yield | SC_ReadInt | SC_PrintInt | SC_ReadChar | SC_PrintChar | SC_ReadString | SC_PrintString
  | SC_FileSize | SC_CreateSemaphore | SC_Wait | SC_Signal | SC_Sum

definition syscall_codes :: "(int \<times> Syscall) list" where
  "syscall_codes = [(0, SC_Halt), (1, SC_Exit), (2, SC_Exec), (3, SC_Join), (4, SC_CreateFile), (5, SC_Open), (6, SC_Read),
     (7, SC_Write), (8, SC_Close), (9, SC_Fork), (10, SC_Yield), (11, SC_ReadInt), (12, SC_PrintInt), (13, SC_ReadChar),
     (14, SC_PrintChar), (15, SC_ReadString), (16, SC_PrintString), (17, SC_FileSize), (18, SC_CreateSemaphore),
     (19, SC_Wait), (20, SC_Signal), (28, SC_Sum)]"

text \<open>The inner switch: what is done before the program counter is advanced, \<open>None\<close> for a code without a case.\<close>

definition syscall_body :: "Junk \<Rightarrow> int \<Rightarrow> ('k OS_scheme \<Rightarrow> ('k OS_scheme) kprog) option" where
  "syscall_body J type = (case map_of syscall_codes type of None \<Rightarrow> None | Some sc \<Rightarrow> (case sc of
     SC_Halt \<Rightarrow> Some KHalt
   | SC_Exit \<Rightarrow> Some Exception_Exit
   | SC_Exec \<Rightarrow> Some (Exception_Exec J)
   | SC_Join \<Rightarrow> Some Exception_Join
   | SC_CreateFile \<Rightarrow> Some Exception_CreateFile
   | SC_Open \<Rightarrow> Some Exception_Open
   | SC_Read \<Rightarrow> Some (Exception_Read J)
   | SC_Write \<Rightarrow> Some Exception_Write
   | SC_Close \<Rightarrow> Some Exception_Close
   | SC_Fork \<Rightarrow> None
   | SC_Yield \<Rightarrow> None
   | SC_ReadInt \<Rightarrow> Some (Exception_ReadInt J)
   | SC_PrintInt \<Rightarrow> Some Exception_PrintInt
   | SC_ReadChar \<Rightarrow> Some (Exception_ReadChar J)
   | SC_PrintChar \<Rightarrow> Some Exception_PrintChar
   | SC_ReadString \<Rightarrow> Some Exception_ReadString
   | SC_PrintString \<Rightarrow> Some Exception_PrintString
   | SC_FileSize \<Rightarrow> None
   | SC_CreateSemaphore \<Rightarrow> Some Exception_CreateSemaphore
   | SC_Wait \<Rightarrow> Some Exception_Wait
   | SC_Signal \<Rightarrow> Some Exception_Signal
   | SC_Sum \<Rightarrow> Some Exception_Sum))"

definition ExceptionHandler :: "Junk \<Rightarrow> ExceptionType \<Rightarrow> 'k OS_scheme \<Rightarrow> ('k OS_scheme) kprog" where
  "ExceptionHandler J which s = liftK (read_reg 2 s) (\<lambda>type. case which of
     NoException \<Rightarrow> KRet 0 s
   | SyscallException \<Rightarrow> (case syscall_body J (sint type) of
        None \<Rightarrow> KRet 0 s
      | Some body \<Rightarrow> bindK (body s) (\<lambda>_ s. liftK (Increase_ProgramCounter s) (KRet 0)))
   | _ \<Rightarrow> KHalt s)"


section \<open>The trap as the hardware sees it\<close>

text \<open>
  The kernel's state travels with the machine as the record's extension. A handler that waits for another
  thread, halts the machine or finishes the thread does not return to the instruction that trapped.
\<close>

definition kernel_trap :: "Junk \<Rightarrow> OS handler" where
  "kernel_trap J e m =
    (case uncontended (ExceptionHandler J e ((Machine.more m)\<lparr>machine := Some (Machine.truncate m)\<rparr>)) of
       KRet _ s \<Rightarrow> (case machine s of None \<Rightarrow> Inl NullPointer | Some m' \<Rightarrow> Inr (Machine.extend m' s))
     | KFault f \<Rightarrow> Inl f
     | _ \<Rightarrow> Inl NoReturn)"

end
