(* ===== verification/Nachos_ExcInv.thy ===== *)
theory Nachos_ExcInv
  imports Nachos_Exception
begin

text \<open>
  What the system calls promise. \<open>ens R t\<close> says that a piece of kernel code leaves the machine in a state that
  satisfies \<open>R\<close> wherever it returns or waits, if the other threads do so too; every handler is shown to leave all
  registers but r2 to the user program and the processor's invariant intact. This discharges the contract
  \<open>trap_handler\<close> of the hardware for the kernel's own handler (the interpretation \<open>user\<close>), so that the
  invariant holds along the execution of user programs.
\<close>

section \<open>Code that keeps the machine\<close>

primrec ens :: "(Machine option \<Rightarrow> bool) \<Rightarrow> ('k Interrupt_scheme) kprog \<Rightarrow> bool" where
  "ens R (KRet r s) = R (machine s)"
| "ens R (KFault e) = True"
| "ens R (KHalt s) = True"
| "ens R (KFinish s) = True"
| "ens R (KInput s) = True"
| "ens R (KP i s k) = (R (machine s) \<and> (\<forall>s'. R (machine s') \<longrightarrow> (\<lambda>x. ens R (k x)) s'))"

lemma ens_bind: "ens R t \<Longrightarrow> (\<And>r s. R (machine s) \<Longrightarrow> ens R (f r s)) \<Longrightarrow> ens R (bindK t f)"
proof (induction t)
  case (KP i s k)
  have "ens R (bindK (k s') f)" if "R (machine s')" for s' using KP.IH[of "k s'"] KP.prems that by simp
  then show ?case using KP.prems(1) by simp
qed simp_all

lemma ens_lift: "(\<And>x. r = Inr x \<Longrightarrow> ens R (f x)) \<Longrightarrow> ens R (liftK r f)"
  by (cases r) simp_all

lemma ens_P: "R (machine s) \<Longrightarrow> ens R (semP i s)"
  by (simp add: semP_def)

lemma V_machine: "Semaphore_V i s = Inr s' \<Longrightarrow> machine s' = machine s"
  using V_frame by blast

lemma ens_V: "R (machine s) \<Longrightarrow> ens R (semV i s)"
  unfolding semV_def by (rule ens_lift) (simp add: V_machine)

lemma took_machine:
  assumes "value_of s i \<noteq> 0"
  shows "machine (took i s) = machine s"
proof (cases "sems s i")
  case (Some se)
  then have "sem_value se \<noteq> 0" using assms by (simp add: value_of_def)
  then show ?thesis using Some
    by (simp add: took_def Semaphore_P_def P_loop_def get_sem_def put_sem_def upd_thread_def)
qed (use assms in \<open>simp add: value_of_def\<close>)

lemma ens_uncontended: "ens R t \<Longrightarrow> ens R (uncontended t)"
  by (induction t) (auto simp: took_machine)

section \<open>The operations on processes and semaphores\<close>

lemma machine_frames [simp]:
  "machine (put_pcb a p s) = machine s" "machine (upd_thread t f s1) = machine s1" "machine (put_sem i se s2) = machine s2"
  by (simp_all add: put_pcb_def upd_thread_def put_sem_def)

lemma machine_new:
  "Semaphore_new nm v s = (i, s') \<Longrightarrow> machine s' = machine s" "PCB_new junk j s2 = (a, s3) \<Longrightarrow> machine s3 = machine s2"
  "Thread_new nm regs s4 = (t, s5) \<Longrightarrow> machine s5 = machine s4"
  by (auto simp: Semaphore_new_def PCB_new_def Thread_new_def Let_def)

lemma machine_Fork: "Thread_Fork t f a s = Inr s' \<Longrightarrow> machine s' = machine s"
  by (auto simp: Thread_Fork_def Let_def bindR_eq_Inr ReadyToRun_def get_thread_def split: if_splits)

lemma machine_set: "PCB_SetFileName nm a s = Inr s' \<Longrightarrow> machine s' = machine s" "PCB_SetExitCode ec a s = Inr s' \<Longrightarrow> machine s' = machine s"
  by (auto simp: PCB_SetFileName_def PCB_SetExitCode_def bindR_eq_Inr split: if_splits)

lemma machine_delete: "Semaphore_delete i s = Inr s' \<Longrightarrow> machine s' = machine s"
  by (auto simp: Semaphore_delete_def bindR_eq_Inr)

lemmas machine_ops = machine_new machine_Fork machine_set machine_delete

lemma ens_numwait: "R (machine s) \<Longrightarrow> ens R (PCB_IncNumWait b s)" "R (machine s) \<Longrightarrow> ens R (PCB_DecNumWait b s)"
  unfolding PCB_IncNumWait_def PCB_DecNumWait_def by (auto intro!: ens_lift ens_bind ens_P ens_V)

lemma ens_Join: "R (machine s) \<Longrightarrow> ens R (JoinUpdate i s)"
  unfolding JoinUpdate_def PCB_JoinWait_def PCB_ExitRelease_def Let_def
  by (auto intro!: ens_lift ens_bind ens_P ens_V ens_numwait split: prod.splits)

lemma ens_Remove: "R (machine s) \<Longrightarrow> ens R (PTable_Remove i s)"
  unfolding PTable_Remove_def PCB_delete_def
  by (auto intro!: ens_lift ens_bind simp: machine_delete split: option.splits)

lemma ens_Exit: "R (machine s) \<Longrightarrow> ens R (ExitUpdate ec s)"
  unfolding ExitUpdate_def PCB_JoinRelease_def PCB_ExitWait_def Let_def
  by (auto intro!: ens_lift ens_bind ens_P ens_V ens_numwait ens_Remove simp: machine_set split: prod.splits)

lemma ens_PCB_Exec: "R (machine s) \<Longrightarrow> ens R (PCB_Exec nm i a regs s)"
  unfolding PCB_Exec_def Let_def
  by (auto intro!: ens_lift ens_bind ens_P ens_V simp: machine_Fork dest!: machine_new(3) split: prod.splits)

lemma ens_Exec: "R (machine s) \<Longrightarrow> ens R (ExecUpdate junk regs jt nm s)"
  unfolding ExecUpdate_def Let_def
  by (auto intro!: ens_lift ens_bind ens_P ens_V ens_PCB_Exec simp: machine_set dest!: machine_new(2) split: prod.splits)

lemma ens_STable: "R (machine s) \<Longrightarrow> ens R (STable_Wait nm s)" "R (machine s) \<Longrightarrow> ens R (STable_Signal nm s)"
  unfolding STable_Wait_def STable_Signal_def by (auto intro!: ens_lift ens_bind ens_P ens_V split: option.splits)

lemma machine_Create: "STable_Create nm v s = Inr (r, s') \<Longrightarrow> machine s' = machine s"
  by (auto simp: STable_Create_def STable_FindFreeSlot_def Sem_new_def bindR_eq_Inr Let_def split: if_splits prod.splits dest: machine_new(1))

section \<open>The handlers\<close>

text \<open>What the user program is left with: a well-formed processor, every register but r2 as it was.\<close>

definition user_ok :: "Machine \<Rightarrow> Machine option \<Rightarrow> bool" where
  "user_ok m0 mo \<longleftrightarrow> (\<exists>m. mo = Some m \<and> cpu_ok m \<and> (\<forall>i<NumTotalRegs. i \<noteq> 2 \<longrightarrow> reg m i = reg m0 i))"

interpretation stop: trap_handler halting
  by unfold_locales (simp add: halting_def)

lemma same_cpu_user: "stop.same_cpu m m' \<Longrightarrow> user_ok m0 (Some m) \<Longrightarrow> user_ok m0 (Some m')"
  by (auto simp: user_ok_def stop.same_cpu_def cpu_ok_def cpu_mid_def)

lemma write_reg_ok: "write_reg 2 v s = Inr s' \<Longrightarrow> user_ok m0 (machine s) \<Longrightarrow> user_ok m0 (machine s')"
  by (auto simp: write_reg_def WriteRegister_def bindR_eq_Inr ASSERT_eq_Inr user_ok_def cpu_ok_def reg_defs get_machine_def)

lemma write_reg_if: "(if b then write_reg 2 v s else Inr s) = Inr s' \<Longrightarrow> user_ok m0 (machine s) \<Longrightarrow> user_ok m0 (machine s')"
  using write_reg_ok by (auto split: if_splits)

lemma ens_return: "user_ok m0 (machine s) \<Longrightarrow> ens (user_ok m0) (return_reg v s)"
  unfolding return_reg_def by (rule ens_lift) (simp add: write_reg_ok)

lemma user_read_ok: "user_read a s = Inr (Some v, s') \<Longrightarrow> user_ok m0 (machine s) \<Longrightarrow> user_ok m0 (machine s')"
proof -
  assume r: "user_read a s = Inr (Some v, s')" and ok: "user_ok m0 (machine s)"
  then obtain m m' where m: "machine s = Some m" "cpu_ok m" "ReadMem halting a 1 m = Inr (Some v, m')" "machine s' = Some m'"
    by (auto simp: user_read_def get_machine_def bindR_eq_Inr user_ok_def)
  then have "stop.same_cpu m m'" using stop.ReadMem_cases[of m 1 a] by (simp add: cpu_ok_mid)
  then show "user_ok m0 (machine s')" using same_cpu_user ok m by metis
qed

lemma user_write_ok: "user_write a v s = Inr (True, s') \<Longrightarrow> user_ok m0 (machine s) \<Longrightarrow> user_ok m0 (machine s')"
proof -
  assume r: "user_write a v s = Inr (True, s')" and ok: "user_ok m0 (machine s)"
  then obtain m m' where m: "machine s = Some m" "cpu_ok m" "WriteMem halting a 1 v m = Inr (True, m')" "machine s' = Some m'"
    by (auto simp: user_write_def get_machine_def bindR_eq_Inr user_ok_def)
  then have "stop.same_cpu m m'" using stop.WriteMem_cases[of m 1 a v] by (simp add: cpu_ok_mid)
  then show "user_ok m0 (machine s')" using same_cpu_user ok m by metis
qed

lemma ens_copy_in:
  "user_ok m0 (machine s) \<Longrightarrow> (\<And>bs s. user_ok m0 (machine s) \<Longrightarrow> ens (user_ok m0) (k bs s)) \<Longrightarrow> ens (user_ok m0) (copy_in n a k s)"
proof (induction n arbitrary: a k s)
  case (Suc n)
  show ?case
    unfolding copy_in.simps
    by (rule ens_lift) (auto split: option.splits intro!: Suc.IH Suc.prems(2) user_read_ok[OF _ Suc.prems(1)])
qed simp

lemma ens_User2System:
  "user_ok m0 (machine s) \<Longrightarrow> (\<And>bs s. user_ok m0 (machine s) \<Longrightarrow> ens (user_ok m0) (k bs s)) \<Longrightarrow> ens (user_ok m0) (User2System a l k s)"
  unfolding User2System_def by (auto intro: ens_copy_in)

lemma ens_copy_out:
  "user_ok m0 (machine s) \<Longrightarrow> (\<And>i s. user_ok m0 (machine s) \<Longrightarrow> ens (user_ok m0) (k i s)) \<Longrightarrow> ens (user_ok m0) (copy_out n a buf i k s)"
proof (induction n arbitrary: a buf i s)
  case (Suc n)
  show ?case
  proof (cases buf)
    case (Cons b bs)
    then show ?thesis unfolding copy_out.simps
      by simp (rule ens_lift, auto intro!: Suc.IH Suc.prems(2) user_write_ok[OF _ Suc.prems(1)])
  qed simp
qed simp

lemma ens_System2User:
  "user_ok m0 (machine s) \<Longrightarrow> (\<And>i s. user_ok m0 (machine s) \<Longrightarrow> ens (user_ok m0) (k i s)) \<Longrightarrow> ens (user_ok m0) (System2User a l buf k s)"
  unfolding System2User_def by (auto intro: ens_copy_out)

lemma machine_io:
  "cons_write bs n s = Inr s' \<Longrightarrow> machine s' = machine s" "file_pos i s1 = Inr (p, s2) \<Longrightarrow> machine s2 = machine s1"
  "delete_executable a s3 = Inr s4 \<Longrightarrow> machine s4 = machine s3"
  by (auto simp: cons_write_def file_pos_def delete_executable_def put_file_def StubFile_GetCurrentPos_def bindR_eq_Inr Let_def)

lemma machine_put_file [simp]: "machine (put_file a f u s) = machine s"
  by (simp add: put_file_def)

lemma ens_write_line:
  "user_ok m0 (machine s) \<Longrightarrow> (\<And>n s. user_ok m0 (machine s) \<Longrightarrow> ens (user_ok m0) (k n s)) \<Longrightarrow> ens (user_ok m0) (write_line bs i k s)"
  by (induction bs i k s rule: write_line.induct) (auto intro!: ens_lift simp: machine_io(1))

text \<open>Rules for the shapes the handlers are made of; applied in this order they take a handler apart.\<close>

lemma ens_if: "(b \<Longrightarrow> ens R t) \<Longrightarrow> (\<not> b \<Longrightarrow> ens R u) \<Longrightarrow> ens R (if b then t else u)"
  by simp

lemma ens_prod: "(\<And>x y. p = (x, y) \<Longrightarrow> ens R (f x y)) \<Longrightarrow> ens R (case p of (x, y) \<Rightarrow> f x y)"
  by (cases p) simp

lemma ens_opt: "(p = None \<Longrightarrow> ens R t) \<Longrightarrow> (\<And>x. p = Some x \<Longrightarrow> ens R (f x)) \<Longrightarrow> ens R (case p of None \<Rightarrow> t | Some x \<Rightarrow> f x)"
  by (cases p) simp_all

lemma ens_reg: "user_ok m0 (machine s) \<Longrightarrow> (\<And>s'. user_ok m0 (machine s') \<Longrightarrow> ens (user_ok m0) (f s')) \<Longrightarrow>
    ens (user_ok m0) (liftK (if b then write_reg 2 v s else Inr s) f)"
  by (rule ens_lift) (use write_reg_if in blast)

lemma ens_reg1: "user_ok m0 (machine s) \<Longrightarrow> (\<And>s'. user_ok m0 (machine s') \<Longrightarrow> ens (user_ok m0) (f s')) \<Longrightarrow>
    ens (user_ok m0) (liftK (write_reg 2 v s) f)"
  by (rule ens_lift) (use write_reg_ok in blast)

lemma ens_cons: "user_ok m0 (machine s) \<Longrightarrow> (\<And>s'. user_ok m0 (machine s') \<Longrightarrow> ens (user_ok m0) (f s')) \<Longrightarrow>
    ens (user_ok m0) (liftK (cons_write bs n s) f)"
  by (rule ens_lift) (simp add: machine_io(1))

lemma ens_pos: "user_ok m0 (machine s) \<Longrightarrow> (\<And>p s'. user_ok m0 (machine s') \<Longrightarrow> ens (user_ok m0) (f p s')) \<Longrightarrow>
    ens (user_ok m0) (liftK (file_pos i s) (\<lambda>(p, s). f p s))"
  by (rule ens_lift) (auto dest!: machine_io(2) split: prod.split)

lemma ens_del: "user_ok m0 (machine s) \<Longrightarrow> (\<And>s'. user_ok m0 (machine s') \<Longrightarrow> ens (user_ok m0) (f s')) \<Longrightarrow>
    ens (user_ok m0) (liftK (delete_executable a s) f)"
  by (rule ens_lift) (simp add: machine_io(3))

lemma ens_create: "user_ok m0 (machine s) \<Longrightarrow> (\<And>r s'. user_ok m0 (machine s') \<Longrightarrow> ens (user_ok m0) (f r s')) \<Longrightarrow>
    ens (user_ok m0) (liftK (STable_Create nm v s) (\<lambda>(r, s). f r s))"
  by (rule ens_lift) (auto dest!: machine_Create split: prod.split)

lemmas ens_rules = ens_reg ens_reg1 ens_cons ens_pos ens_del ens_create ens_return ens_User2System ens_System2User ens_write_line
  ens_if ens_opt ens_prod ens_bind ens_lift

lemma ens_console:
  assumes "user_ok m0 (machine s)"
  shows "ens (user_ok m0) (Exception_ReadInt J s)" "ens (user_ok m0) (Exception_PrintInt s)" "ens (user_ok m0) (Exception_ReadChar J s)"
    "ens (user_ok m0) (Exception_PrintChar s)" "ens (user_ok m0) (Exception_ReadString s)" "ens (user_ok m0) (Exception_PrintString s)"
  unfolding Exception_ReadInt_def Exception_PrintInt_def Exception_ReadChar_def Exception_PrintChar_def Exception_ReadString_def
    Exception_PrintString_def Let_def
  by (intro ens_rules; simp add: assms)+

lemma ens_file:
  assumes "user_ok m0 (machine s)"
  shows "ens (user_ok m0) (Exception_CreateFile s)" "ens (user_ok m0) (Exception_Open s)" "ens (user_ok m0) (Exception_Close s)"
    "ens (user_ok m0) (Exception_Read J s)" "ens (user_ok m0) (Exception_Write s)"
  unfolding Exception_CreateFile_def Exception_Open_def Exception_Close_def Exception_Read_def Exception_Write_def Let_def
  by (intro ens_rules; simp add: assms)+

lemma ens_process:
  assumes "user_ok m0 (machine s)"
  shows "ens (user_ok m0) (Exception_Exec J s)" "ens (user_ok m0) (Exception_Join s)" "ens (user_ok m0) (Exception_Exit s)"
    "ens (user_ok m0) (Exception_CreateSemaphore s)" "ens (user_ok m0) (Exception_Wait s)" "ens (user_ok m0) (Exception_Signal s)"
    "ens (user_ok m0) (Exception_Sum s)"
  unfolding Exception_Exec_def Exception_Join_def Exception_Exit_def Exception_CreateSemaphore_def Exception_Wait_def
    Exception_Signal_def Exception_Sum_def Let_def
  by (intro ens_Exec ens_Join ens_Exit ens_STable ens_rules; simp add: assms)+

lemma ens_body:
  assumes "syscall_body J type = Some body" and "user_ok m0 (machine s)"
  shows "ens (user_ok m0) (body s)"
proof -
  obtain sc where "map_of syscall_codes type = Some sc" using assms(1) by (auto simp: syscall_body_def split: option.splits)
  then show ?thesis using assms(1) ens_console[OF assms(2)] ens_file[OF assms(2)] ens_process[OF assms(2)]
    by (cases sc) (auto simp: syscall_body_def)
qed

section \<open>The program counter\<close>

lemma Increase_spec:
  assumes "machine s = Some m"
  shows "Increase_ProgramCounter s = Inr (s\<lparr>machine := Some (set_reg NextPCReg (reg m NextPCReg + 4)
    (set_reg PCReg (reg m NextPCReg) (set_reg PrevPCReg (reg m PCReg) m)))\<rparr>)"
  using assms by (simp add: Increase_ProgramCounter_def read_reg_def write_reg_def get_machine_def ReadRegister_def WriteRegister_def
      ASSERT_def reg_defs Let_def)

text \<open>The processor after a system call that returns.\<close>

definition advanced :: "Machine \<Rightarrow> Machine option \<Rightarrow> bool" where
  "advanced m0 mo \<longleftrightarrow> (\<exists>m. mo = Some m \<and> cpu_ok m \<and> reg m PCReg = reg m0 NextPCReg \<and> reg m NextPCReg = reg m0 NextPCReg + 4
     \<and> reg m PrevPCReg = reg m0 PCReg \<and> (\<forall>i<NumTotalRegs. i \<notin> {2, PCReg, NextPCReg, PrevPCReg} \<longrightarrow> reg m i = reg m0 i))"

lemma Increase_advances:
  assumes "user_ok m0 (machine s)" and "Increase_ProgramCounter s = Inr s'"
  shows "advanced m0 (machine s')"
proof -
  obtain m where m: "machine s = Some m" "cpu_ok m" "\<forall>i<NumTotalRegs. i \<noteq> 2 \<longrightarrow> reg m i = reg m0 i" using assms(1) by (auto simp: user_ok_def)
  then have "machine s' = Some (set_reg NextPCReg (reg m NextPCReg + 4) (set_reg PCReg (reg m NextPCReg) (set_reg PrevPCReg (reg m PCReg) m)))"
    using Increase_spec[OF m(1)] assms(2) by auto
  then show ?thesis using m by (auto simp: advanced_def cpu_ok_def reg_defs)
qed

section \<open>System calls that wait\<close>

text \<open>
  The processor of a user thread after a switch to other threads and back: \<open>Run\<close> has saved the registers in the thread
  and the table in its address space, \<open>m1\<close> is the machine as the other threads leave it, with their registers, their table and the
  memory they have written, and the end of \<open>Run\<close> puts the saved registers and table back.
\<close>

definition switched :: "Machine \<Rightarrow> Machine \<Rightarrow> bool" where
  "switched m m' \<longleftrightarrow> (\<exists>th sp m1. as_numPages sp = pageTableSize m \<and> tlb m = None \<and> tlb m1 = None
     \<and> m' = AddrSpace_RestoreState (AddrSpace_SaveState m sp) (RestoreUserState (SaveUserState m th) m1))"

text \<open>A call that waits goes on at once, or after a switch; in between, everything else in the kernel may change.\<close>

definition resumed :: "'k Interrupt_scheme \<Rightarrow> 'k Interrupt_scheme \<Rightarrow> bool" where
  "resumed s s' \<longleftrightarrow> machine s' = machine s \<or> (\<exists>m m'. machine s = Some m \<and> machine s' = Some m' \<and> switched m m')"

inductive returns :: "('k Interrupt_scheme) kprog \<Rightarrow> int \<Rightarrow> 'k Interrupt_scheme \<Rightarrow> bool" where
  returns_now: "returns (KRet r s) r s"
| returns_later: "resumed s s' \<Longrightarrow> returns (k s') r t \<Longrightarrow> returns (KP i s k) r t"

inductive_simps returns_simps: "returns (KRet r s) r' s'" "returns (KFault e) r' s'" "returns (KHalt s) r' s'" "returns (KFinish s) r' s'"
  "returns (KInput s) r' s'" "returns (KP i s k) r' s'"

text \<open>The kernel's own switch is of this kind: what \<open>save_old\<close> stores when the thread leaves the CPU is what \<open>restore_new\<close> loads when it
  has it again, as long as nobody writes the thread's registers and space in between.\<close>

lemma switch_back:
  assumes "save_old s = Inr s1" and "threads s (currentThread s) = Some th" and "space th = Some sp"
    and "machine s = Some m" and "as_numPages sp = pageTableSize m" and "tlb m = None"
    and "currentThread s2 = currentThread s" and "threads s1 (currentThread s) = Some th1" and "threads s2 (currentThread s) = Some th2"
    and "userRegisters th2 = userRegisters th1" and "space th2 = space th1" and "machine s2 = Some m1" and "tlb m1 = None"
    and "restore_new s2 = Inr s'"
  shows "resumed s s'"
proof -
  have th1: "th1 = (SaveUserState m th)\<lparr>space := Some (AddrSpace_SaveState m sp)\<rparr>"
    using assms(1-4,8) by (auto simp: save_old_def get_thread_def upd_thread_def)
  then have "userRegisters th2 = userRegisters (SaveUserState m th)" using assms(10) by simp
  then have "RestoreUserState th2 m1 = RestoreUserState (SaveUserState m th) m1" unfolding RestoreUserState_def by (rule arg_cong)
  then have "machine s' = Some (AddrSpace_RestoreState (AddrSpace_SaveState m sp) (RestoreUserState (SaveUserState m th) m1))"
    using assms(7,9-12,14) th1 by (auto simp: restore_new_def get_thread_def)
  then show ?thesis using assms(4-6,13) unfolding resumed_def switched_def by blast
qed

lemma switched_ok:
  assumes "switched m m'" and "cpu_ok m"
  shows "cpu_ok m' \<and> (\<forall>i<NumTotalRegs. reg m' i = reg m i)"
proof -
  obtain th sp m1 where m': "m' = AddrSpace_RestoreState (AddrSpace_SaveState m sp) (RestoreUserState (SaveUserState m th) m1)"
    and sp: "as_numPages sp = pageTableSize m" "tlb m = None" "tlb m1 = None" using assms(1) by (auto simp: switched_def)
  have r: "\<forall>i<NumTotalRegs. reg m' i = reg m i"
    by (simp add: m' AddrSpace_RestoreState_def RestoreUserState_def SaveUserState_def)
  obtain pt where pt: "pageTable m = Some pt" "pageTableSize m \<le> length pt"
    using assms(2) sp(2) by (auto simp: cpu_ok_def cpu_mid_def vm_ok_def split: option.splits)
  then have "vm_ok m'" using sp by (simp add: m' vm_ok_def AddrSpace_RestoreState_def RestoreUserState_def AddrSpace_SaveState_def)
  then show ?thesis using assms(2) r by (simp add: cpu_ok_def cpu_mid_def reg_defs)
qed

lemma resumed_user: "resumed s s' \<Longrightarrow> user_ok m0 (machine s) \<Longrightarrow> user_ok m0 (machine s')"
  unfolding resumed_def user_ok_def using switched_ok by fastforce

lemma returns_bind: "returns (bindK t f) r s \<Longrightarrow> \<exists>r1 s1. returns t r1 s1 \<and> returns (f r1 s1) r s"
proof (induction t)
  case (KP i s0 k)
  then show ?case by (auto simp: returns_simps) blast
qed (auto simp: returns_simps)

lemma returns_user: "returns t r s \<Longrightarrow> ens (user_ok m0) t \<Longrightarrow> user_ok m0 (machine s)"
  by (induction rule: returns.induct) (auto dest: resumed_user)

lemma uncontended_returns: "uncontended t = KRet r s \<Longrightarrow> returns t r s"
proof (induction t)
  case (KP i s0 k)
  then have "value_of s0 i \<noteq> 0" "uncontended (k (took i s0)) = KRet r s" by (auto split: if_splits)
  then show ?case using KP.IH[of "k (took i s0)"] took_machine[of s0 i] by (auto simp: returns_simps resumed_def)
qed (auto simp: returns_simps)

lemma syscall_returns:
  fixes s :: OS
  assumes "machine s = Some m" and "cpu_ok m" and "returns (ExceptionHandler J SyscallException s) r s'"
  shows "if syscall_body J (sint (reg m 2)) = (None :: (OS \<Rightarrow> OS kprog) option) then s' = s else advanced m (machine s')"
proof (cases "syscall_body J (sint (reg m 2)) :: (OS \<Rightarrow> OS kprog) option")
  case None
  then show ?thesis using assms by (simp add: ExceptionHandler_def read_reg_def get_machine_def ReadRegister_def ASSERT_def reg_defs returns_simps)
next
  case (Some body)
  have u: "user_ok m (machine s)" using assms(1,2) by (simp add: user_ok_def)
  have "ExceptionHandler J SyscallException s = bindK (body s) (\<lambda>_ s. liftK (Increase_ProgramCounter s) (KRet 0))"
    using Some assms(1) by (simp add: ExceptionHandler_def read_reg_def get_machine_def ReadRegister_def ASSERT_def reg_defs)
  then have "returns (bindK (body s) (\<lambda>_ s. liftK (Increase_ProgramCounter s) (KRet 0))) r s'" using assms(3) by simp
  from returns_bind[OF this]
  obtain r1 s1 where s1: "returns (body s) r1 s1" "returns (liftK (Increase_ProgramCounter s1) (KRet 0)) r s'" by blast
  have "user_ok m (machine s1)" by (rule returns_user[OF s1(1) ens_body[OF Some u]])
  moreover have "Increase_ProgramCounter s1 = Inr s'" using s1(2) by (cases "Increase_ProgramCounter s1") (auto simp: returns_simps)
  ultimately show ?thesis using Some Increase_advances by auto
qed

section \<open>User programs keep the processor's invariant\<close>

lemma handler_ok:
  fixes s :: OS
  assumes "machine s = Some m" and "cpu_ok m" and "uncontended (ExceptionHandler J e s) = KRet r s'"
  shows "\<exists>m'. machine s' = Some m' \<and> cpu_ok m'"
proof (cases "e = SyscallException")
  case False
  then show ?thesis using assms by (cases e) (auto simp: ExceptionHandler_def read_reg_def get_machine_def ReadRegister_def ASSERT_def reg_defs)
next
  case True
  then show ?thesis using syscall_returns[OF assms(1,2), of J r s'] uncontended_returns[OF assms(3)] assms by (auto simp: advanced_def split: if_splits)
qed

lemma cpu_ok_more: "cpu_ok (Machine.truncate m) = cpu_ok m" "cpu_ok (Machine.extend m1 s) = cpu_ok m1"
  by (simp_all add: cpu_ok_def cpu_mid_def vm_ok_def Machine.defs cong: option.case_cong)

interpretation user: trap_handler "kernel_trap J" for J
proof
  fix m m' :: "OS Machine_scheme" and e assume ok: "cpu_ok m" and t: "kernel_trap J e m = Inr m'"
  let ?s = "(Machine.more m)\<lparr>machine := Some (Machine.truncate m)\<rparr>"
  obtain r s1 m1 where s1: "uncontended (ExceptionHandler J e ?s) = KRet r s1" "machine s1 = Some m1" "m' = Machine.extend m1 s1"
    using t by (auto simp: kernel_trap_def split: kprog.splits option.splits)
  have "\<exists>m1. machine s1 = Some m1 \<and> cpu_ok m1"
    by (rule handler_ok[OF _ _ s1(1), of "Machine.truncate m"]) (simp_all add: cpu_ok_more ok)
  then show "cpu_ok m'" using s1(2,3) by (simp add: cpu_ok_more)
qed

text \<open>The instructions of a user program, one after the other.\<close>

primrec run_user :: "Junk \<Rightarrow> nat \<Rightarrow> OS Machine_scheme \<Rightarrow> (OS Machine_scheme) res" where
  "run_user J 0 m = Inr m"
| "run_user J (Suc n) m = bindR (OneInstruction (kernel_trap J) m) (run_user J n)"

lemma run_user_ok: "cpu_ok m \<Longrightarrow> run_user J n m = Inr m' \<Longrightarrow> cpu_ok m'"
proof (induction n arbitrary: m)
  case (Suc n)
  then obtain m1 where "OneInstruction (kernel_trap J) m = Inr m1" "run_user J n m1 = Inr m'" by (auto simp: bindR_eq_Inr)
  then show ?case using user.OneInstruction_ok[OF Suc.prems(1), of J] Suc.IH by simp
qed simp

text \<open>Whose fault it is: the handler with every fault of its own replaced by \<open>g\<close>. A fault that follows the replacement, whatever
  \<open>g\<close>, was raised inside the handler; one that does not was raised by the simulator itself.\<close>

definition relabel :: "fault \<Rightarrow> 'k handler \<Rightarrow> 'k handler" where
  "relabel g eh e m = (case eh e m of Inl _ \<Rightarrow> Inl g | Inr m' \<Rightarrow> Inr m')"

definition traced :: "'a res \<Rightarrow> (fault \<Rightarrow> 'a res) \<Rightarrow> bool" where
  "traced r r' \<longleftrightarrow> (case r of Inr x \<Rightarrow> r' = (\<lambda>_. Inr x) | Inl f \<Rightarrow> r' = Inl \<or> r' = (\<lambda>_. Inl f))"

lemma traced_refl [simp]: "traced r (\<lambda>_. r)"
  by (simp add: traced_def split: sum.split)

lemma traced_bind:
  assumes "traced r r'" and "\<And>x. traced (k x) (k' x)"
  shows "traced (bindR r k) (\<lambda>g. bindR (r' g) (\<lambda>x. k' x g))"
proof (cases r)
  case (Inr x)
  then show ?thesis using assms by (simp add: traced_def)
qed (use assms(1) in \<open>auto simp: traced_def\<close>)

lemma traced_handler: "traced (eh e m) (\<lambda>g. relabel g eh e m)"
  by (cases "eh e m") (simp_all add: traced_def relabel_def)

lemma traced_raise: "traced (RaiseException eh e a m) (\<lambda>g. RaiseException (relabel g eh) e a m)"
  unfolding RaiseException_def by (intro traced_bind traced_refl traced_handler)

lemma traced_trap: "traced (trap eh e a m) (\<lambda>g. trap (relabel g eh) e a m)"
  unfolding trap_def by (intro traced_bind traced_refl traced_raise)

lemma traced_check: "traced (if b then trap eh e a m else r) (\<lambda>g. if b then trap (relabel g eh) e a m else r)"
  by (simp add: traced_trap)

lemma traced_read: "traced (ReadMem eh a sz m) (\<lambda>g. ReadMem (relabel g eh) a sz m)"
proof -
  have "traced (case x of (Inl e, m) \<Rightarrow> bindR (RaiseException eh e a m) (\<lambda>m. Inr (None, m)) | (Inr pa, m) \<Rightarrow> bindR (fetch (mainMemory m) pa sz) (\<lambda>v. Inr (Some v, m)))
    (\<lambda>g. case x of (Inl e, m) \<Rightarrow> bindR (RaiseException (relabel g eh) e a m) (\<lambda>m. Inr (None, m)) | (Inr pa, m) \<Rightarrow> bindR (fetch (mainMemory m) pa sz) (\<lambda>v. Inr (Some v, m)))" for x
    by (cases x) (auto split: sum.split intro!: traced_bind[OF traced_raise])
  then show ?thesis unfolding ReadMem_def by (intro traced_bind traced_refl)
qed

lemma traced_write: "traced (WriteMem eh a sz v m) (\<lambda>g. WriteMem (relabel g eh) a sz v m)"
proof -
  have "traced (case x of (Inl e, m) \<Rightarrow> bindR (RaiseException eh e a m) (\<lambda>m. Inr (False, m)) | (Inr pa, m) \<Rightarrow> bindR (store (mainMemory m) pa sz v) (\<lambda>mem. Inr (True, m\<lparr>mainMemory := mem\<rparr>)))
    (\<lambda>g. case x of (Inl e, m) \<Rightarrow> bindR (RaiseException (relabel g eh) e a m) (\<lambda>m. Inr (False, m)) | (Inr pa, m) \<Rightarrow> bindR (store (mainMemory m) pa sz v) (\<lambda>mem. Inr (True, m\<lparr>mainMemory := mem\<rparr>)))" for x
    by (cases x) (auto split: sum.split intro!: traced_bind[OF traced_raise])
  then show ?thesis unfolding WriteMem_def by (intro traced_bind traced_refl)
qed

lemma traced_brk: "traced (write_brk eh a sz v m0 m) (\<lambda>g. write_brk (relabel g eh) a sz v m0 m)"
  unfolding write_brk_def by (intro traced_bind traced_write traced_refl)

lemma traced_value:
  assumes "\<And>v m. traced (k v m) (k' v m)"
  shows "traced (bindR (ReadMem eh a sz m) (\<lambda>(r, m1). case r of None \<Rightarrow> t m1 | Some v \<Rightarrow> k v m1))
    (\<lambda>g. bindR (ReadMem (relabel g eh) a sz m) (\<lambda>(r, m1). case r of None \<Rightarrow> t m1 | Some v \<Rightarrow> k' v m1 g))"
proof -
  have "traced (case x of (r, m1) \<Rightarrow> case r of None \<Rightarrow> t m1 | Some v \<Rightarrow> k v m1) (\<lambda>g. case x of (r, m1) \<Rightarrow> case r of None \<Rightarrow> t m1 | Some v \<Rightarrow> k' v m1 g)" for x
    by (cases x; cases "fst x") (simp_all add: assms)
  then show ?thesis by (intro traced_bind traced_read)
qed

lemma traced_execute: "traced (execute eh ins m) (\<lambda>g. execute (relabel g eh) ins m)"
proof -
  note tr = traced_trap traced_brk traced_value[where k' = "\<lambda>v m g. k v m" for k, OF traced_refl]
  have asrt: "traced (bindR (ASSERT b) k) (\<lambda>g. bindR (ASSERT b) (k' g))" if "traced (k ()) (\<lambda>g. k' g ())" for b k and k' :: "fault \<Rightarrow> unit \<Rightarrow> 'z res"
    using that by (cases b) (simp_all add: traced_def ASSERT_def)
  have ld: "traced (exec_load eh ins m) (\<lambda>g. exec_load (relabel g eh) ins m)"
    by (simp add: exec_load_def Let_def) (auto intro!: tr asrt)
  have st: "traced (exec_store_word eh ins m) (\<lambda>g. exec_store_word (relabel g eh) ins m)"
    unfolding exec_store_word_def Let_def by (auto intro!: tr asrt traced_value)
  note grp = exec_add_and_def exec_sub_def exec_sys_xor_def exec_store_small_def
  show ?thesis by (cases "opCode ins") (simp_all add: execute_def grp ld st Let_def traced_check traced_trap traced_brk split del: if_split)
qed

lemma traced_instruction: "traced (OneInstruction eh m) (\<lambda>g. OneInstruction (relabel g eh) m)"
proof -
  have "traced (case x of Trapped m \<Rightarrow> Inr m | Done m pc r v \<Rightarrow> bindR (DelayedLoad r v m) (\<lambda>m. Inr (advance pc m)))
     (\<lambda>_. case x of Trapped m \<Rightarrow> Inr m | Done m pc r v \<Rightarrow> bindR (DelayedLoad r v m) (\<lambda>m. Inr (advance pc m)))" for x :: "'a Machine_scheme exec" by simp
  then show ?thesis unfolding OneInstruction_def by (intro traced_value traced_bind traced_execute)
qed

lemma relabel_ok: "trap_handler eh \<Longrightarrow> trap_handler (relabel g eh)"
  by (auto simp: trap_handler_def relabel_def split: sum.splits)

lemma simulator_faults:
  assumes "trap_handler eh" and "cpu_ok m" and "OneInstruction eh m = Inl f"
  shows "(\<forall>g. OneInstruction (relabel g eh) m = Inl g)
    \<or> (\<exists>raw m1. ReadMem eh (reg m PCReg) 4 m = Inr (Some raw, m1) \<and> registers m1 = registers m \<and> stops (Decode raw) m1 f)"
proof (cases "\<forall>g. OneInstruction (relabel g eh) m = Inl g")
  case False
  then have all: "OneInstruction (relabel g eh) m = Inl f" for g
    using traced_instruction[of eh m] assms(3) by (auto simp: traced_def dest: fun_cong)
  obtain g where g: "g \<noteq> f" by (metis fault.distinct(1))
  have "\<not> trap_handler.eh_fault (relabel g eh) f"
    using g by (auto simp: trap_handler.eh_fault_def[OF relabel_ok[OF assms(1)]] relabel_def split: sum.splits)
  then obtain raw m1 where r: "ReadMem (relabel g eh) (reg m PCReg) 4 m = Inr (Some raw, m1)" "registers m1 = registers m" "stops (Decode raw) m1 f"
    using trap_handler.OneInstruction_ok[OF relabel_ok[OF assms(1)] assms(2), of g] all by auto
  then have "ReadMem eh (reg m PCReg) 4 m = Inr (Some raw, m1)"
    using traced_read[of eh "reg m PCReg" 4 m] by (auto simp: traced_def fun_eq_iff split: sum.splits)
  then show ?thesis using r by blast
qed simp

text \<open>
  C39. User programs cannot break the processor: with the kernel's own system calls as the trap handler, any number
  of instructions from a well-formed state, traps included, leaves a well-formed state (translation tables that can
  be searched, R0 zero, a pending load that targets a general register). And the simulator itself never faults, by an
  access outside its memory or tables or otherwise, except in the two ways the instruction set has: the
  division that overflows and the unaligned-word instructions on an unaligned address. Every other fault of an
  instruction is raised inside the kernel's handler, called by that very instruction: replace the handler's faults by \<open>g\<close>, whichever
  \<open>g\<close>, and the instruction faults with \<open>g\<close>.
\<close>

theorem user_programs_keep_cpu_ok:
  assumes "cpu_ok m" and "run_user J n m = Inr m'"
  shows "cpu_ok m' \<and> (\<forall>f. OneInstruction (kernel_trap J) m' = Inl f \<longrightarrow>
      (\<forall>g. OneInstruction (relabel g (kernel_trap J)) m' = Inl g)
    \<or> (\<exists>raw m1. ReadMem (kernel_trap J) (reg m' PCReg) 4 m' = Inr (Some raw, m1) \<and> registers m1 = registers m'
         \<and> stops (Decode raw) m1 f))"
proof -
  have ok: "cpu_ok m'" by (rule run_user_ok[OF assms])
  then show ?thesis using simulator_faults[OF user.trap_handler_axioms ok] by blast
qed

text \<open>
  C40. Every system call that returns, whether at once or after waiting for any number of semaphores while other threads run and
  the processor is switched to them and back, has advanced the program counter by exactly one instruction and changed no
  other register than r2, the result: the user program goes on after its \<open>syscall\<close> instruction. The exception is
  a number without a case (\<open>Fork\<close>, \<open>Yield\<close>, \<open>FileSize\<close> and all undefined ones): the handler returns
  with the machine untouched, so that the program makes the same call again, for ever.
\<close>

theorem syscall_advances_pc:
  fixes s :: OS
  assumes "machine s = Some m" and "cpu_ok m" and "returns (ExceptionHandler J SyscallException s) r s'"
  shows "if syscall_body J (sint (reg m 2)) = (None :: (OS \<Rightarrow> OS kprog) option) then s' = s else advanced m (machine s')"
  using assms by (rule syscall_returns)

section \<open>Strings through user memory\<close>

text \<open>The \<open>n\<close> bytes from \<open>a\<close> on can be written, and byte \<open>i\<close> is at the physical address \<open>pa i\<close>, no two at the same.\<close>

definition mapped_at :: "word32 \<Rightarrow> nat \<Rightarrow> (nat \<Rightarrow> nat) \<Rightarrow> Machine \<Rightarrow> bool" where
  "mapped_at a n pa m \<longleftrightarrow> (\<forall>i<n. xlate (a + of_nat i) 1 True m = Inr (Inr (pa i))) \<and> inj_on pa {..<n}"

lemma mapped_at_Suc:
  assumes "mapped_at a (Suc n) pa m"
  shows "xlate a 1 True m = Inr (Inr (pa 0))" "map_state m' = map_state m \<Longrightarrow> mapped_at (a + 1) n (\<lambda>i. pa (Suc i)) m'"
    "i < n \<Longrightarrow> pa (Suc i) \<noteq> pa 0"
proof -
  have x: "xlate (a + of_nat i) 1 True m = Inr (Inr (pa i))" if "i < Suc n" for i using assms that by (simp add: mapped_at_def)
  have inj: "inj_on pa {..<Suc n}" using assms by (simp add: mapped_at_def)
  show "xlate a 1 True m = Inr (Inr (pa 0))" using x[of 0] by simp
  show "i < n \<Longrightarrow> pa (Suc i) \<noteq> pa 0" using inj by (auto simp: inj_on_def)
  assume "map_state m' = map_state m"
  then have "xlate (a + 1 + of_nat i) 1 True m' = Inr (Inr (pa (Suc i)))" if "i < n" for i
    using x[of "Suc i"] that xlate_cong[of m' m] by (simp add: add.assoc)
  moreover have "inj_on (\<lambda>i. pa (Suc i)) {..<n}" using inj by (auto simp: inj_on_def)
  ultimately show "mapped_at (a + 1) n (\<lambda>i. pa (Suc i)) m'" by (simp add: mapped_at_def)
qed

lemma byte_low [simp]: "ucast ((scast (b :: byte) :: word32) AND 0xff) = b"
  by (rule bit_word_eqI) (auto simp: mask_8 bit_simps)

lemma byte_scast [simp]: "ucast (scast (b :: byte) :: word32) = b" "(scast b :: word32) = 0 \<longleftrightarrow> b = 0"
proof -
  show e: "ucast (scast (b :: byte) :: word32) = b" by (rule bit_word_eqI) (auto simp: bit_simps)
  show "(scast b :: word32) = 0 \<longleftrightarrow> b = 0" using e by (metis scast_0 ucast_0)
qed

lemma user_write_spec:
  assumes "machine s = Some m" and "xlate a 1 True m = Inr (Inr p)"
  obtains m1 where "user_write a (scast b) s = Inr (True, s\<lparr>machine := Some m1\<rparr>)" "map_state m1 = map_state m"
    "registers m1 = registers m" "mainMemory m1 = (mainMemory m)(p := b)"
proof -
  from assms(2) obtain m0 where t: "Translate a 1 True m = Inr (Inr p, m0)" by (auto simp: xlate_Inr)
  note fr = Translate_frame[OF t]
  show thesis using assms(1) t fr
    by (intro that[of "m0\<lparr>mainMemory := (mainMemory m)(p := b)\<rparr>"])
      (simp_all add: user_write_def get_machine_def WriteMem_def store_def)
qed

lemma user_read_spec:
  assumes "machine s = Some m" and "xlate a 1 True m = Inr (Inr p)"
  obtains m1 where "user_read a s = Inr (Some (scast (mainMemory m p)), s\<lparr>machine := Some m1\<rparr>)" "map_state m1 = map_state m"
    "registers m1 = registers m" "mainMemory m1 = mainMemory m"
proof -
  from xlate_read_weaker[OF assms(2)] obtain m0 where t: "Translate a 1 False m = Inr (Inr p, m0)" by (auto simp: xlate_Inr)
  show thesis using assms(1) t Translate_frame[OF t]
    by (intro that[of m0]) (simp_all add: user_read_def get_machine_def ReadMem_def fetch_def)
qed

lemma copy_out_string:
  assumes "machine s = Some m" and "mapped_at a (Suc (length bs)) pa m" and "0 \<notin> set bs" and "length bs < n"
  shows "\<exists>m1. (\<forall>k. copy_out n a (bs @ 0 # rest) i k s = k (i + int (length bs) + 1) (s\<lparr>machine := Some m1\<rparr>))
    \<and> map_state m1 = map_state m \<and> registers m1 = registers m
    \<and> (\<forall>j\<le>length bs. mainMemory m1 (pa j) = (bs @ [0]) ! j)
    \<and> (\<forall>p. p \<notin> pa ` {..length bs} \<longrightarrow> mainMemory m1 p = mainMemory m p)"
  using assms
proof (induction bs arbitrary: s m a pa n i)
  case Nil
  obtain n' where n: "n = Suc n'" using Nil.prems(4) by (cases n) auto
  obtain m1 where "user_write a (scast (0 :: byte)) s = Inr (True, s\<lparr>machine := Some m1\<rparr>)" "map_state m1 = map_state m"
      "registers m1 = registers m" "mainMemory m1 = (mainMemory m)(pa 0 := 0)"
    using user_write_spec[OF Nil.prems(1), of a "pa 0" 0] mapped_at_Suc(1)[OF Nil.prems(2)] by blast
  then show ?case by (intro exI[of _ m1]) (simp add: n)
next
  case (Cons b bs)
  have map: "mapped_at a (Suc (Suc (length bs))) pa m" using Cons.prems(2) by simp
  obtain n' where n: "n = Suc n'" "length bs < n'" using Cons.prems(4) by (cases n) auto
  obtain m1 where w: "user_write a (scast b) s = Inr (True, s\<lparr>machine := Some m1\<rparr>)" "map_state m1 = map_state m"
      "registers m1 = registers m" "mainMemory m1 = (mainMemory m)(pa 0 := b)"
    using user_write_spec[OF Cons.prems(1) mapped_at_Suc(1)[OF map], of b] by blast
  have "0 \<notin> set bs" "b \<noteq> 0" using Cons.prems(3) by auto
  from Cons.IH[of "s\<lparr>machine := Some m1\<rparr>" m1 "a + 1" "\<lambda>i. pa (Suc i)" n' "i + 1"] this n(2) mapped_at_Suc(2)[OF map w(2)]
  obtain m2 where m2: "\<And>k. copy_out n' (a + 1) (bs @ 0 # rest) (i + 1) k (s\<lparr>machine := Some m1\<rparr>) = k (i + 1 + int (length bs) + 1) (s\<lparr>machine := Some m2\<rparr>)"
      "map_state m2 = map_state m1" "registers m2 = registers m1"
      "\<And>j. j \<le> length bs \<Longrightarrow> mainMemory m2 (pa (Suc j)) = (bs @ [0]) ! j"
      "\<And>p. p \<notin> (\<lambda>i. pa (Suc i)) ` {..length bs} \<Longrightarrow> mainMemory m2 p = mainMemory m1 p"
    by auto
  have fresh: "pa 0 \<notin> (\<lambda>i. pa (Suc i)) ` {..length bs}" using mapped_at_Suc(3)[OF map] by (metis (no_types, lifting) atMost_iff imageE le_imp_less_Suc)
  have "mainMemory m2 (pa j) = (b # bs @ [0]) ! j" if "j \<le> Suc (length bs)" for j
    using that m2(4,5) fresh w(4) by (cases j) auto
  moreover have "mainMemory m2 p = mainMemory m p" if "p \<notin> pa ` {..Suc (length bs)}" for p
  proof -
    have "p \<notin> (\<lambda>i. pa (Suc i)) ` {..length bs}" "p \<noteq> pa 0" using that by auto
    then show ?thesis using m2(5) w(4) by simp
  qed
  ultimately show ?case using w(1-3) m2(1-3) \<open>b \<noteq> 0\<close> by (intro exI[of _ m2]) (simp add: n(1) algebra_simps)
qed

lemma copy_in_string:
  assumes "machine s = Some m" and "mapped_at a (Suc (length bs)) pa m" and "0 \<notin> set bs" and "length bs \<le> n"
    and "\<forall>j\<le>length bs. mainMemory m (pa j) = (bs @ [0]) ! j"
  shows "\<exists>m1. (\<forall>k. copy_in n a k s = k (bs @ (if length bs < n then [0] else [])) (s\<lparr>machine := Some m1\<rparr>))
    \<and> mainMemory m1 = mainMemory m \<and> registers m1 = registers m \<and> map_state m1 = map_state m"
  using assms
proof (induction bs arbitrary: s m a pa n)
  case Nil
  have rd: "xlate a 1 True m = Inr (Inr (pa 0))" "mainMemory m (pa 0) = 0"
    using mapped_at_Suc(1)[OF Nil.prems(2)] Nil.prems(5) by simp_all
  obtain m1 where "user_read a s = Inr (Some 0, s\<lparr>machine := Some m1\<rparr>)" "map_state m1 = map_state m"
      "registers m1 = registers m" "mainMemory m1 = mainMemory m"
    using user_read_spec[OF Nil.prems(1) rd(1)] rd(2) by auto
  moreover have "s\<lparr>machine := Some m\<rparr> = s" using Nil.prems(1) by simp
  ultimately show ?case by (cases n) (auto intro: exI[of _ m] exI[of _ m1])
next
  case (Cons b bs)
  have map: "mapped_at a (Suc (Suc (length bs))) pa m" using Cons.prems(2) by simp
  obtain n' where n: "n = Suc n'" "length bs \<le> n'" using Cons.prems(4) by (cases n) auto
  have b: "mainMemory m (pa 0) = b" "b \<noteq> 0" "0 \<notin> set bs" using Cons.prems(3,5) by auto
  obtain m1 where r: "user_read a s = Inr (Some (scast b), s\<lparr>machine := Some m1\<rparr>)" "map_state m1 = map_state m"
      "registers m1 = registers m" "mainMemory m1 = mainMemory m"
    using user_read_spec[OF Cons.prems(1) mapped_at_Suc(1)[OF map]] b(1) by auto
  have mem: "\<forall>j\<le>length bs. mainMemory m1 (pa (Suc j)) = (bs @ [0]) ! j"
    using Cons.prems(5) r(4) by (auto dest: spec[of _ "Suc _"])
  from Cons.IH[of "s\<lparr>machine := Some m1\<rparr>" m1 "a + 1" "\<lambda>i. pa (Suc i)" n'] b(3) n(2) mapped_at_Suc(2)[OF map r(2)] mem
  obtain m2 where "\<And>k. copy_in n' (a + 1) k (s\<lparr>machine := Some m1\<rparr>) = k (bs @ (if length bs < n' then [0] else [])) (s\<lparr>machine := Some m2\<rparr>)"
      "mainMemory m2 = mainMemory m1" "registers m2 = registers m1" "map_state m2 = map_state m1" by auto
  then show ?case using r b(2) by (intro exI[of _ m2]) (simp add: n(1))
qed

text \<open>
  C37. Strings survive a trip through user memory. If the \<open>length bs + 1\<close> bytes at the user address \<open>a\<close> can be
  written, \<open>System2User\<close> called with a buffer that holds the string \<open>bs\<close> and its terminator copies exactly these
  bytes, returns their number and changes no other byte of the memory and no register; a \<open>User2System\<close> of that address whose
  limit is at least the string's length then returns \<open>bs\<close>, padded with zeros to the size of its buffer, and changes
  nothing.
\<close>

theorem string_round_trip:
  assumes "machine s = Some m" and "mapped_at a (Suc (length bs)) pa m" and "0 \<notin> set bs"
    and "int (length bs) < len" and "int (length bs) \<le> sint limit"
  shows "\<exists>m1 m2. (\<forall>k. System2User a len (bs @ 0 # rest) k s = k (int (length bs) + 1) (s\<lparr>machine := Some m1\<rparr>))
    \<and> registers m1 = registers m \<and> (\<forall>p. p \<notin> pa ` {..length bs} \<longrightarrow> mainMemory m1 p = mainMemory m p)
    \<and> (\<forall>k. User2System a limit k (s\<lparr>machine := Some m1\<rparr>)
          = k (bs @ replicate (nat (sint limit + 1) - length bs) 0) (s\<lparr>machine := Some m2\<rparr>))
    \<and> registers m2 = registers m \<and> mainMemory m2 = mainMemory m1"
proof -
  have n: "length bs < nat len" "length bs \<le> nat (sint limit)" using assms(4,5) by linarith+
  obtain m1 where m1: "\<And>k. copy_out (nat len) a (bs @ 0 # rest) 0 k s = k (0 + int (length bs) + 1) (s\<lparr>machine := Some m1\<rparr>)"
      "map_state m1 = map_state m" "registers m1 = registers m" "\<forall>j\<le>length bs. mainMemory m1 (pa j) = (bs @ [0]) ! j"
      "\<forall>p. p \<notin> pa ` {..length bs} \<longrightarrow> mainMemory m1 p = mainMemory m p"
    using copy_out_string[OF assms(1-3) n(1), of rest 0] by blast
  have "mapped_at a (Suc (length bs)) pa m1" using assms(2) xlate_cong[OF m1(2)] by (simp add: mapped_at_def)
  then obtain m2 where m2: "\<And>k. copy_in (nat (sint limit)) a k (s\<lparr>machine := Some m1\<rparr>)
        = k (bs @ (if length bs < nat (sint limit) then [0] else [])) (s\<lparr>machine := Some m2\<rparr>)"
      "mainMemory m2 = mainMemory m1" "registers m2 = registers m1"
    using copy_in_string[OF _ _ assms(3) n(2) m1(4), of "s\<lparr>machine := Some m1\<rparr>" a] by auto
  have pad: "bs @ (if length bs < nat (sint limit) then [0] else []) @ replicate (nat (sint limit + 1)
      - length (bs @ (if length bs < nat (sint limit) then [0] else []))) 0 = bs @ replicate (nat (sint limit + 1) - length bs) 0"
    using n(2) assms(5) by (auto simp: replicate_Suc[symmetric] Suc_diff_Suc nat_add_distrib simp del: replicate_Suc)
  have "System2User a len (bs @ 0 # rest) k s = k (int (length bs) + 1) (s\<lparr>machine := Some m1\<rparr>)" for k
    using m1(1)[of k] assms(4) by (simp add: System2User_def)
  moreover have "User2System a limit k (s\<lparr>machine := Some m1\<rparr>) = k (bs @ replicate (nat (sint limit + 1) - length bs) 0) (s\<lparr>machine := Some m2\<rparr>)" for k
    using m2(1) pad assms(5) by (simp add: User2System_def)
  ultimately show ?thesis using m1(3,5) m2(2,3) by auto
qed

section \<open>Numbers on the console\<close>

lemma int_digits_rec:
  assumes "0 \<le> n"
  shows "int_digits n = n mod 10 # (if n div 10 = 0 then [] else int_digits (n div 10))"
  using int_digits.simps[of n] assms by (simp add: sdiv_nonneg smod_nonneg)

lemma int_digits_ok:
  assumes "0 \<le> n"
  shows "(\<forall>d\<in>set (int_digits n). 0 \<le> d \<and> d \<le> 9) \<and> foldr (\<lambda>d r. r * 10 + d) (int_digits n) 0 = n"
  using assms
proof (induction "nat n" arbitrary: n rule: less_induct)
  case less
  show ?case
  proof (cases "n div 10 = 0")
    case True
    then have "n mod 10 = n" using less.prems div_mult_mod_eq[of n 10] by linarith
    moreover have "n mod 10 < 10" by simp
    ultimately show ?thesis using True less.prems by (simp add: int_digits_rec[OF less.prems])
  next
    case False
    have "0 < n" using False less.prems by (cases "n = 0") auto
    then have "nat (n div 10) < nat n" using int_div_less_self[of n 10] by simp
    then have IH: "\<forall>d\<in>set (int_digits (n div 10)). 0 \<le> d \<and> d \<le> 9" "foldr (\<lambda>d r. r * 10 + d) (int_digits (n div 10)) 0 = n div 10"
      using less.hyps[of "n div 10"] less.prems by (auto simp: pos_imp_zdiv_nonneg_iff)
    have "n mod 10 \<le> 9" using pos_mod_bound[of 10 n] by linarith
    then show ?thesis using IH False by (simp add: int_digits_rec[OF less.prems])
  qed
qed

lemma int_digits_length: "0 \<le> n \<Longrightarrow> n < 10 ^ Suc k \<Longrightarrow> length (int_digits n) \<le> Suc k"
proof (induction k arbitrary: n)
  case 0
  then show ?case by (simp add: int_digits_rec)
next
  case (Suc k)
  have "n div 10 < 10 ^ Suc k" using Suc.prems by (simp add: div_less_iff_less_mult)
  then show ?case using Suc.IH[of "n div 10"] Suc.prems by (simp add: int_digits_rec[of n] pos_imp_zdiv_nonneg_iff)
qed

definition digit_char :: "int \<Rightarrow> byte" where "digit_char d = word_of_int (48 + d)"

lemma digit_char_ok:
  assumes "0 \<le> d" and "d \<le> 9"
  shows "uint (digit_char d) = 48 + d" "is_digit (digit_char d)"
proof -
  show u: "uint (digit_char d) = 48 + d" unfolding digit_char_def uint_word_of_int using assms by simp
  show "is_digit (digit_char d)" using assms by (simp add: is_digit_def word_le_def u)
qed

lemma digits_value_snoc: "digits_value (ds @ [d]) = digits_value ds * 10 + (uint d - 48)"
  by (simp add: digits_value_def)

lemma digits_value_rev:
  "\<forall>d\<in>set ds. 0 \<le> d \<and> d \<le> 9 \<Longrightarrow> digits_value (rev (map digit_char ds)) = foldr (\<lambda>d r. r * 10 + d) ds 0"
proof (induction ds)
  case (Cons d ds)
  then show ?case by (simp add: digits_value_snoc digit_char_ok(1))
qed (simp add: digits_value_def)

text \<open>The digits of a number, as characters.\<close>

definition dec :: "int \<Rightarrow> byte list" where "dec n = rev (map digit_char (int_digits n))"

lemma dec_ok:
  assumes "0 \<le> n" and "n < 10 ^ 10"
  shows "digits_value (dec n) = n" "\<forall>d\<in>set (dec n). is_digit d" "length (dec n) \<le> 10" "dec n \<noteq> []"
proof -
  note d = int_digits_ok[OF assms(1)]
  show "digits_value (dec n) = n" using d by (simp add: dec_def digits_value_rev)
  show "\<forall>d\<in>set (dec n). is_digit d" using d by (auto simp: dec_def digit_char_ok(2))
  show "length (dec n) \<le> 10" using int_digits_length[of n 9] assms by (simp add: dec_def)
  show "dec n \<noteq> []" using assms(1) by (simp add: dec_def int_digits_rec)
qed

text \<open>Reading what has been typed.\<close>

lemma read_char_typed:
  assumes "incoming c = EOFc" and "keys c = ch # ks" and "ch \<noteq> EOFc"
  shows "read_char j c = Some (if ch = 10 \<or> ch = 1 then 0 else ch, c\<lparr>keys := ks, charsRead := charsRead c + 1\<rparr>)"
  using assms by (simp add: read_char_def SynchConsole_Read_def getc_typed numeral_eq_Suc)

lemma digit_plain: "is_digit d \<Longrightarrow> d \<noteq> EOFc \<and> d \<noteq> 10 \<and> d \<noteq> 1 \<and> d \<noteq> 32 \<and> d \<noteq> 45 \<and> d \<noteq> 43"
  by (auto simp: is_digit_def EOFc_def word_le_nat_alt)

lemma read_digits_stop: "read_digits j n 0 c = Some ([], c)"
  by (cases n) (simp_all add: is_digit_def)

lemma read_digits_typed:
  assumes "\<forall>x\<in>set (d # ds). is_digit x" and "length (d # ds) \<le> n" and "keys c = ds @ 10 # ks" and "incoming c = EOFc"
  shows "\<exists>c'. read_digits j n d c = Some (d # ds, c') \<and> keys c' = ks \<and> incoming c' = EOFc \<and> screen c' = screen c"
  using assms
proof (induction ds arbitrary: d n c)
  case Nil
  then obtain n' where n: "n = Suc n'" by (cases n) auto
  have "read_char j c = Some (0, c\<lparr>keys := ks, charsRead := charsRead c + 1\<rparr>)"
    using read_char_typed[of c 10 ks j] Nil.prems by (simp add: EOFc_def)
  then show ?case using n Nil.prems by (simp add: read_digits_stop)
next
  case (Cons e ds)
  then obtain n' where n: "n = Suc n'" by (cases n) auto
  let ?c = "c\<lparr>keys := ds @ 10 # ks, charsRead := charsRead c + 1\<rparr>"
  have "read_char j c = Some (e, ?c)"
    using read_char_typed[of c e "ds @ 10 # ks" j] Cons.prems digit_plain[of e] by simp
  moreover obtain c' where "read_digits j n' e ?c = Some (e # ds, c')" "keys c' = ks" "incoming c' = EOFc" "screen c' = screen c"
    using Cons.IH[of e n' ?c] Cons.prems n by auto
  ultimately show ?case using n Cons.prems by simp
qed

lemma skip_spaces_typed:
  assumes "incoming c = EOFc" and "keys c = ch # ks" and "ch \<noteq> EOFc" and "ch \<notin> {10, 1, 32}"
  shows "skip_spaces j c = Some (ch, c\<lparr>keys := ks, charsRead := charsRead c + 1\<rparr>)"
  using assms by (subst skip_spaces.simps) (simp add: read_char_typed)

lemma read_int_typed:
  assumes "0 \<le> n" and "n \<le> 2147483647" and "incoming c = EOFc" and "keys c = (if sg then [45] else []) @ dec n @ 10 # ks"
  shows "\<exists>c'. read_int j c = Some (if sg then - n else n, c') \<and> keys c' = ks \<and> incoming c' = EOFc \<and> screen c' = screen c"
proof -
  note d = dec_ok[OF assms(1)]
  obtain x xs where x: "dec n = x # xs" "is_digit x" "\<forall>d\<in>set xs. is_digit d" "length (x # xs) \<le> 10" "digits_value (x # xs) = n"
    using d assms(2) by (cases "dec n") auto
  note px = digit_plain[OF x(2)]
  show ?thesis
  proof (cases sg)
    case True
    let ?c1 = "c\<lparr>keys := dec n @ 10 # ks, charsRead := charsRead c + 1\<rparr>" and ?c2 = "c\<lparr>keys := xs @ 10 # ks, charsRead := charsRead c + 1 + 1\<rparr>"
    have "skip_spaces j c = Some (45, ?c1)" using skip_spaces_typed[of c 45] assms(3,4) True by (simp add: EOFc_def)
    moreover have "read_char j ?c1 = Some (x, ?c2)" using read_char_typed[of ?c1 x "xs @ 10 # ks" j] assms(3) px x(1) by simp
    moreover obtain c' where "read_digits j 11 x ?c2 = Some (x # xs, c')" "keys c' = ks" "incoming c' = EOFc" "screen c' = screen c"
      using read_digits_typed[of x xs 11 ?c2 ks j] x assms(3) by auto
    ultimately show ?thesis using True x(5) assms(2) by (simp add: read_int_def Let_def)
  next
    case False
    let ?c1 = "c\<lparr>keys := xs @ 10 # ks, charsRead := charsRead c + 1\<rparr>"
    have sk: "skip_spaces j c = Some (x, ?c1)" using skip_spaces_typed[of c x] assms(3,4) False px x(1) by simp
    have "\<exists>ch c2 c'. read_char j ?c1 = Some (ch, c2) \<and> read_digits j 10 ch c2 = Some (xs, c') \<and> keys c' = ks \<and> incoming c' = EOFc \<and> screen c' = screen c"
    proof (cases xs)
      case Nil
      have "read_char j ?c1 = Some (0, c\<lparr>keys := ks, charsRead := charsRead c + 1 + 1\<rparr>)"
        using read_char_typed[of ?c1 10 ks j] assms(3) Nil by (simp add: EOFc_def)
      then show ?thesis using Nil assms(3) by (simp add: read_digits_stop)
    next
      case (Cons y ys)
      let ?c2 = "c\<lparr>keys := ys @ 10 # ks, charsRead := charsRead c + 1 + 1\<rparr>"
      have "read_char j ?c1 = Some (y, ?c2)" using read_char_typed[of ?c1 y "ys @ 10 # ks" j] assms(3) digit_plain[of y] x(3) Cons by simp
      moreover have "\<exists>c'. read_digits j 10 y ?c2 = Some (y # ys, c') \<and> keys c' = ks \<and> incoming c' = EOFc \<and> screen c' = screen ?c2"
        by (rule read_digits_typed) (use x Cons assms(3) in auto)
      ultimately show ?thesis using Cons by auto
    qed
    then show ?thesis using False x(2,5) px sk assms(2) by (auto simp: read_int_def Let_def)
  qed
qed

lemma int_chars_dec: "- 2147483648 < n \<Longrightarrow> n \<le> 2147483647 \<Longrightarrow> int_chars n = (if n < 0 then [45] else []) @ dec \<bar>n\<bar>"
  by (simp add: int_chars_def dec_def digit_char_def[abs_def])

text \<open>
  C38. Numbers survive the console: for every integer but the least, \<open>PrintInt\<close> appends its decimal digits to the
  screen, with a minus sign if it is negative, and returns 0; and when these characters are typed, followed by the
  end of the line, \<open>ReadInt\<close> returns the same integer and leaves what was typed after it.
\<close>

theorem print_read_int:
  assumes "machine s = Some m" and "\<not> putBusy (cons s)" and "sint (reg m 4) = n" and "n \<noteq> - 2147483648"
  shows "\<exists>out s'. Exception_PrintInt s = KRet 0 s' \<and> screen (cons s') = screen (cons s) @ out \<and> machine s' = Some (set_reg 2 0 m)
    \<and> digits_value (if n < 0 then tl out else out) = \<bar>n\<bar> \<and> (n < 0 \<longrightarrow> hd out = 45)
    \<and> (\<forall>s1 m1 ks. machine s1 = Some m1 \<and> incoming (cons s1) = EOFc \<and> keys (cons s1) = out @ 10 # ks \<longrightarrow>
        (\<exists>s2. Exception_ReadInt J s1 = KRet 0 s2 \<and> machine s2 = Some (set_reg 2 (word_of_int n) m1) \<and> keys (cons s2) = ks))"
proof -
  have n: "- 2147483648 < n" "n \<le> 2147483647" using sint_in_range[of "reg m 4"] assms(3,4) by auto
  define out where "out = int_chars n"
  have t: "out = (if n < 0 then [45] else []) @ dec \<bar>n\<bar>" unfolding out_def by (rule int_chars_dec[OF n])
  have "SynchConsole_Write out (int (length out)) (cons s) = Inr (int (length out), (cons s)\<lparr>screen := screen (cons s) @ out,
      charsWritten := charsWritten (cons s) + int (length out)\<rparr>)" using SynchConsole_Write_spec[OF assms(2)] by simp
  then have "\<exists>s'. Exception_PrintInt s = KRet 0 s' \<and> screen (cons s') = screen (cons s) @ out \<and> machine s' = Some (set_reg 2 0 m)"
    using assms(1,3) by (simp add: Exception_PrintInt_def read_reg_def get_machine_def ReadRegister_def ASSERT_def NumTotalRegs_def
        cons_write_def return_reg_def write_reg_def WriteRegister_def out_def[symmetric])
  moreover have "digits_value (if n < 0 then tl out else out) = \<bar>n\<bar>" "n < 0 \<longrightarrow> hd out = 45"
    using dec_ok(1)[of "\<bar>n\<bar>"] n by (auto simp: t)
  moreover have "\<exists>s2. Exception_ReadInt J s1 = KRet 0 s2 \<and> machine s2 = Some (set_reg 2 (word_of_int n) m1) \<and> keys (cons s2) = ks"
    if "machine s1 = Some m1" and inc: "incoming (cons s1) = EOFc" and "keys (cons s1) = out @ 10 # ks" for s1 m1 ks
  proof -
    have "keys (cons s1) = (if n < 0 then [45] else []) @ dec \<bar>n\<bar> @ 10 # ks" using that by (simp add: t)
    then obtain c' where "read_int (j_char J) (cons s1) = Some (if n < 0 then - \<bar>n\<bar> else \<bar>n\<bar>, c')" "keys c' = ks"
      using read_int_typed[of "\<bar>n\<bar>" "cons s1" "n < 0" ks] n inc by fastforce
    moreover have "(if n < 0 then - \<bar>n\<bar> else \<bar>n\<bar>) = n" by simp
    ultimately show ?thesis using that
      by (simp add: Exception_ReadInt_def return_reg_def write_reg_def get_machine_def WriteRegister_def ASSERT_def NumTotalRegs_def)
  qed
  ultimately show ?thesis by blast
qed

section \<open>Concrete runs\<close>

definition demo_junk_os :: Junk where
  "demo_junk_os = \<lparr>j_pcb = demo_pcb 0 0, j_regs = (\<lambda>_. 0), j_type = 0, j_char = 0\<rparr>"

text \<open>A program about to compute \<open>Sum(3, 4)\<close>.\<close>

definition demo_sum :: Machine where
  "demo_sum = set_reg 2 28 (set_reg 4 3 (set_reg 5 4 demo_machine))"

lemma demo_sum_ok: "cpu_ok demo_sum"
  using demo_machine_ok by (simp add: demo_sum_def cpu_ok_def cpu_mid_def) (simp add: demo_machine_def Machine_new_def reg_defs)

lemma demo_sum_regs: "reg demo_sum 2 = 28" "reg demo_sum 4 = 3" "reg demo_sum 5 = 4"
  by (simp_all add: demo_sum_def)

text \<open>Its memory is zero, and the word 0 is the instruction that does nothing.\<close>

lemma demo_Decode: "Decode 0 = \<lparr>ivalue = 0, opCode = OP_SLL, rs = 0, rt = 0, rd = 0, extra = 0\<rparr>"
  by (simp add: Decode_def field_def opTable_def specialTable_def decode_op_def decode_extra_def)

lemma demo_fetch: "\<exists>m'. ReadMem eh 0 4 (Machine.extend demo_sum k) = Inr (Some 0, m') \<and> registers m' = registers demo_sum"
  by (simp add: ReadMem_def Translate_def demo_sum_def demo_machine_def demo_entry_def Machine_new_def Machine.defs set_reg_def
      find_entry_def entry_table_def machine_sizes Let_def misaligned_def put_entry_def fetch_def block_def WordToHost_def)

lemma user_programs_keep_cpu_ok_witness:
  "\<exists>m'. run_user demo_junk_os 1 (Machine.extend demo_sum (demo_os 0)) = Inr m' \<and> cpu_ok m'"
proof -
  have ok: "cpu_ok (Machine.extend demo_sum (demo_os 0))" using demo_sum_ok by (simp add: cpu_ok_more)
  have pc: "reg (Machine.extend demo_sum (demo_os 0)) PCReg = 0" "reg demo_sum LoadReg = 0"
    by (simp_all add: demo_sum_def demo_machine_def Machine_new_def Machine.defs set_reg_def reg_defs)
  obtain m1 where "ReadMem (kernel_trap demo_junk_os) 0 4 (Machine.extend demo_sum (demo_os 0)) = Inr (Some 0, m1)"
    "registers m1 = registers demo_sum" using demo_fetch[of "kernel_trap demo_junk_os" "demo_os 0"] by auto
  then have "\<exists>m'. run_user demo_junk_os 1 (Machine.extend demo_sum (demo_os 0)) = Inr m'"
    by (simp add: OneInstruction_def pc demo_Decode execute_def exec_shift_set_def brk_next_def DelayedLoad_def) (simp add: pc(2)[unfolded reg_defs] reg_defs Let_def)
  then show ?thesis using user_programs_keep_cpu_ok[OF ok] by blast
qed

text \<open>A parent about to call \<open>Join(1)\<close>; while it waits another program runs, on other registers, and the child exits with 7.\<close>

definition demo_join :: Machine where
  "demo_join = set_reg 2 3 (set_reg 4 1 demo_machine)"

definition demo_away :: Machine where
  "demo_away = set_reg PCReg 400 (set_reg 4 77 demo_machine)"

definition demo_space :: AddrSpace where
  "demo_space = \<lparr>as_pageTable = the (pageTable demo_machine), as_numPages = pageTableSize demo_machine\<rparr>"

definition demo_back :: Machine where
  "demo_back = AddrSpace_RestoreState (AddrSpace_SaveState demo_join demo_space)
     (RestoreUserState (SaveUserState demo_join (Thread_init [] (\<lambda>_. 0))) demo_away)"

definition demo_joining :: "Machine \<Rightarrow> int \<Rightarrow> OS" where
  "demo_joining m c = (put_pcb 1 ((demo_pcb 3 0)\<lparr>exitcode := c\<rparr>) (demo_os 0))\<lparr>machine := Some m\<rparr>"

lemma demo_join_ok: "cpu_ok demo_join" "reg demo_join 2 = 3" "reg demo_join 4 = 1"
  using demo_machine_ok by (simp_all add: demo_join_def cpu_ok_def cpu_mid_def) (simp_all add: demo_machine_def Machine_new_def reg_defs)

lemma demo_switched: "switched demo_join demo_back"
  unfolding switched_def demo_back_def
  by (intro exI[of _ demo_space] exI[of _ "Thread_init [] (\<lambda>_. 0)"] exI[of _ demo_away])
    (simp add: demo_space_def demo_join_def demo_away_def demo_machine_def Machine_new_def set_reg_def)

lemma demo_joining_facts:
  "machine (demo_joining m c) = Some m" "psize (demo_joining m c) = 10" "pcb (demo_joining m c) = [Some 0, Some 1, None, None, None, None, None, None, None, None]"
  "get_thread (currentThread (demo_joining m c)) (demo_joining m c) = Inr ((Thread_init ''main'' (\<lambda>_. 0))\<lparr>tstatus := RUNNING, processID := 0, resume := OnCPU\<rparr>)"
  "get_pcb 1 (demo_joining m c) = Inr (1, (demo_pcb 3 0)\<lparr>exitcode := c\<rparr>)" "get_pcb 0 (demo_joining m c) = Inr (0, demo_pcb 0 (-1))"
  "deref_pcb 0 (demo_joining m c) = Inr (demo_pcb 0 (-1))" "deref_pcb 1 (demo_joining m c) = Inr ((demo_pcb 3 0)\<lparr>exitcode := c\<rparr>)"
  "pcb_heap (demo_joining m c) = [0 \<mapsto> demo_pcb 0 (-1), 1 \<mapsto> (demo_pcb 3 0)\<lparr>exitcode := c\<rparr>]"
  "sems (demo_joining m c) 2 = Some \<lparr>sem_name = ''multex'', sem_value = 1, sem_queue = []\<rparr>"
  "sems (demo_joining m c) 4 = Some \<lparr>sem_name = ''exitsem'', sem_value = 0, sem_queue = []\<rparr>"
  by (simp_all add: demo_joining_def put_pcb_def demo_os_def globals0_def Kernel.defs get_thread_def get_pcb_def deref_pcb_def
    upd_thread_def demo_sems_def Semaphore_new_def put_sem_def Let_def boot_fields Kernel_boot_def tick_def Thread_new_def Thread_init_def Interrupt.defs demo_pcb_def)

lemma demo_join_returns: "\<exists>s'. returns (JoinUpdate 1 (demo_joining demo_join 0)) 7 s' \<and> machine s' = Some demo_back"
proof -
  note F = demo_joining_facts
  let ?s = "demo_joining demo_join 0" and ?w = "demo_joining demo_back 7"
  have r: "resumed ?s ?s" "\<And>s1. machine s1 = Some demo_join \<Longrightarrow> resumed s1 ?w" using demo_switched by (auto simp: resumed_def F)
  obtain s5 where s5: "semV 4 ?w = KRet 0 s5" "machine s5 = Some demo_back"
    by (simp add: semV_def Semaphore_V_def get_sem_def F Let_def put_sem_def)
  let ?t = "put_pcb 0 ((demo_pcb 0 (-1))\<lparr>numwait := 1\<rparr>) ?s"
  obtain s3 where s3: "Semaphore_V 2 ?t = Inr s3" "pcb s3 = pcb ?s" "pcb_heap s3 = pcb_heap ?t"
    by (simp add: Semaphore_V_def get_sem_def F Let_def put_sem_def put_pcb_def)
  have g: "get_pcb 1 s3 = Inr (1, demo_pcb 3 0)" "deref_pcb 1 s3 = Inr (demo_pcb 3 0)" "machine s3 = Some demo_join"
    using s3 V_machine[OF s3(1)] by (simp_all add: get_pcb_def deref_pcb_def F put_pcb_def demo_pcb_def)
  have sel: "multex (demo_pcb 0 par) = 2" "exitsem (demo_pcb 3 par) = 4" "parentID (demo_pcb n par) = par" "numwait (demo_pcb n par) = 0"
    "exitcode (demo_pcb n par) = 0" for n par by (simp_all add: demo_pcb_def)
  have "returns (JoinUpdate 1 ?s) 7 s5"
    apply (simp add: JoinUpdate_def F sel PCB_IncNumWait_def semP_def returns_simps)
    apply (rule exI[of _ ?s])
    apply (simp add: r F sel semV_def s3(1) g g(2)[simplified] PCB_JoinWait_def semP_def returns_simps)
    apply (rule exI[of _ ?w])
    apply (simp add: r g F F(8)[simplified] sel PCB_ExitRelease_def s5 returns_simps)
    done
  then show ?thesis using s5 by blast
qed

lemma syscall_advances_pc_witness:
  "\<exists>s'. uncontended (ExceptionHandler demo_junk_os SyscallException ((demo_os 0)\<lparr>machine := Some demo_sum\<rparr>)) = KRet 0 s'
    \<and> advanced demo_sum (machine s') \<and> (\<exists>m. machine s' = Some m \<and> reg m 2 = 7)"
proof -
  let ?s = "(demo_os 0)\<lparr>machine := Some demo_sum\<rparr>"
  have sb: "syscall_body demo_junk_os 28 = Some (Exception_Sum :: OS \<Rightarrow> OS kprog)" by (simp add: syscall_body_def syscall_codes_def)
  have "\<exists>s'. uncontended (ExceptionHandler demo_junk_os SyscallException ?s) = KRet 0 s' \<and> (\<exists>m. machine s' = Some m \<and> reg m 2 = 7)"
    using sb by (simp add: ExceptionHandler_def Exception_Sum_def return_reg_def read_reg_def write_reg_def get_machine_def
        ReadRegister_def WriteRegister_def ASSERT_def NumTotalRegs_def demo_sum_regs Increase_spec) (simp add: reg_defs)
  then obtain s' where s': "uncontended (ExceptionHandler demo_junk_os SyscallException ?s) = KRet 0 s'" "\<exists>m. machine s' = Some m \<and> reg m 2 = 7" by blast
  have m: "machine ?s = Some demo_sum" by simp
  show ?thesis using syscall_advances_pc[OF m demo_sum_ok uncontended_returns[OF s'(1)]] s' sb by (simp add: demo_sum_regs)
qed

text \<open>Page 1 of \<open>demo_machine\<close> is in frame 3.\<close>

lemma demo_mapped: "mapped_at 512 3 (\<lambda>i. 1536 + i) demo_machine"
proof -
  have "xlate (512 + of_nat i) 1 True demo_machine = Inr (Inr (1536 + i))" if "i < 3" for i
  proof -
    have "i = 0 \<or> i = 1 \<or> i = 2" using that by auto
    then show ?thesis
      by (elim disjE) (simp_all add: xlate_def Translate_def misaligned_def demo_machine_def demo_entry_def Machine_new_def
        find_entry_def entry_table_def machine_sizes Let_def bindR_ASSERT ASSERT_def)
  qed
  then show ?thesis by (simp add: mapped_at_def inj_on_def)
qed

lemma string_round_trip_witness:
  "\<exists>m1 m2. System2User 512 3 [72, 105, 0] KRet ((demo_os 0)\<lparr>machine := Some demo_machine\<rparr>) = KRet 3 ((demo_os 0)\<lparr>machine := Some m1\<rparr>)
    \<and> User2System 512 4 (\<lambda>bs s. KRet (if bs = [72, 105, 0, 0, 0] then 1 else 0) s) ((demo_os 0)\<lparr>machine := Some m1\<rparr>)
      = KRet 1 ((demo_os 0)\<lparr>machine := Some m2\<rparr>)"
proof -
  let ?s = "(demo_os 0)\<lparr>machine := Some demo_machine\<rparr>"
  have "machine ?s = Some demo_machine" by simp
  moreover have "mapped_at 512 (Suc (length [72, 105 :: byte])) (\<lambda>i. 1536 + i) demo_machine"
    using demo_mapped by (simp add: numeral_3_eq_3)
  ultimately obtain m1 m2 where
    "\<forall>k. System2User 512 3 ([72, 105] @ [0]) k ?s = k (int (length [72, 105 :: byte]) + 1) (?s\<lparr>machine := Some m1\<rparr>)"
    "\<forall>k. User2System 512 4 k (?s\<lparr>machine := Some m1\<rparr>) = k ([72, 105] @ replicate (nat (sint (4 :: word32) + 1) - length [72, 105 :: byte]) 0) (?s\<lparr>machine := Some m2\<rparr>)"
    using string_round_trip[of ?s demo_machine 512 "[72, 105]" "\<lambda>i. 1536 + i" 3 4 "[]"] by auto
  then show ?thesis by (intro exI[of _ m1] exI[of _ m2]) (simp add: numeral_3_eq_3)
qed

lemma print_read_int_witness:
  "\<exists>out s' s2. Exception_PrintInt ((demo_os 0)\<lparr>machine := Some (set_reg 4 (- 42) demo_machine), cons := Console_new []\<rparr>) = KRet 0 s'
    \<and> screen (cons s') = out \<and> hd out = 45 \<and> digits_value (tl out) = 42
    \<and> Exception_ReadInt demo_junk_os ((demo_os 0)\<lparr>machine := Some demo_machine, cons := Console_new (out @ [10])\<rparr>) = KRet 0 s2
    \<and> machine s2 = Some (set_reg 2 (- 42) demo_machine)"
proof -
  let ?s = "(demo_os 0)\<lparr>machine := Some (set_reg 4 (- 42) demo_machine), cons := Console_new []\<rparr>"
  have "\<not> putBusy (cons ?s)" "machine ?s = Some (set_reg 4 (- 42) demo_machine)" by (simp_all add: Console_new_def)
  moreover have "sint (reg (set_reg 4 (- 42) demo_machine) 4) = - 42" by simp
  ultimately obtain out s' where out: "Exception_PrintInt ?s = KRet 0 s'" "screen (cons s') = out" "hd out = 45" "digits_value (tl out) = 42"
    and rd: "\<forall>(s1 :: OS) m1 ks. machine s1 = Some m1 \<and> incoming (cons s1) = EOFc \<and> keys (cons s1) = out @ 10 # ks \<longrightarrow>
        (\<exists>s2. Exception_ReadInt demo_junk_os s1 = KRet 0 s2 \<and> machine s2 = Some (set_reg 2 (word_of_int (- 42)) m1) \<and> keys (cons s2) = ks)"
    using print_read_int[of ?s "set_reg 4 (- 42) demo_machine" "- 42" demo_junk_os] by (force simp: Console_new_def)
  let ?s1 = "(demo_os 0)\<lparr>machine := Some demo_machine, cons := Console_new (out @ [10])\<rparr>"
  have "machine ?s1 = Some demo_machine \<and> incoming (cons ?s1) = EOFc \<and> keys (cons ?s1) = out @ 10 # []" by (simp add: Console_new_def)
  from rd[rule_format, OF this] out show ?thesis by auto
qed

end
