(* ===== verification/Nachos_SynchList.thy ===== *)
theory Nachos_SynchList
  imports Nachos_List Nachos_Thread
begin

text \<open>
  threads/synchlist.cc: the list protected by a lock and a condition variable. It is written here as it is in the code,
  on the pointer-linked list of Nachos_List and on the lock and condition of synch.cc, which are stubs: \<open>Acquire\<close>,
  \<open>Release\<close> and \<open>Signal\<close> do nothing and \<open>Wait\<close> fails an assertion.

  The locale \<open>message_queue\<close> is the contract its clients rely on: a queue in the order of arrival. Its last law is
  what is left of the contract \<open>Remove\<close> was written for, which is to wait until there is an element.
\<close>

record 'a SynchList =
  sl_list :: "'a NList"

definition SynchList_new :: "'a SynchList" where
  "SynchList_new = \<lparr>sl_list = List_new\<rparr>"

definition SynchList_delete :: "'a SynchList \<Rightarrow> 'a NList res option" where
  "SynchList_delete l = List_delete (sl_list l)"

definition SynchList_Append :: "'a \<Rightarrow> 'a SynchList \<Rightarrow> 'k Kernel_scheme \<Rightarrow> ('a SynchList \<times> 'k Kernel_scheme) res" where
  "SynchList_Append item l s = bindR (Lock_Acquire s) (\<lambda>s.
     bindR (List_Append item (sl_list l)) (\<lambda>q.
     bindR (Condition_Signal s) (\<lambda>s.
     bindR (Lock_Release s) (\<lambda>s. Inr (l\<lparr>sl_list := q\<rparr>, s)))))"

text \<open>\<open>Wait\<close> does not return, so the loop has at most the one iteration that calls it.\<close>

definition SynchList_Remove :: "'a SynchList \<Rightarrow> 'k Kernel_scheme \<Rightarrow> ('a \<times> 'a SynchList \<times> 'k Kernel_scheme) res" where
  "SynchList_Remove l s = bindR (Lock_Acquire s) (\<lambda>s.
     bindR (if List_IsEmpty (sl_list l) then bindR (Condition_Wait s) (\<lambda>_. Inl NoReturn) else Inr s) (\<lambda>s.
     bindR (List_Remove (sl_list l)) (\<lambda>(item, q).
     case item of
       None \<Rightarrow> Inl AssertFailed
     | Some x \<Rightarrow> bindR (Lock_Release s) (\<lambda>s. Inr (x, l\<lparr>sl_list := q\<rparr>, s)))))"

definition SynchList_Mapcar :: "('a \<Rightarrow> 'b \<Rightarrow> 'b) \<Rightarrow> 'a SynchList \<Rightarrow> 'b \<Rightarrow> 'b res option" where
  "SynchList_Mapcar func l acc = List_Mapcar func (sl_list l) acc"

section \<open>The contract\<close>

fun put_all :: "('a \<Rightarrow> 'q \<Rightarrow> 's \<Rightarrow> ('q \<times> 's) res) \<Rightarrow> 'a list \<Rightarrow> 'q \<Rightarrow> 's \<Rightarrow> ('q \<times> 's) res" where
  "put_all put [] q s = Inr (q, s)"
| "put_all put (x # xs) q s = bindR (put x q s) (\<lambda>(q, s). put_all put xs q s)"

fun get_all :: "('q \<Rightarrow> 's \<Rightarrow> ('a \<times> 'q \<times> 's) res) \<Rightarrow> nat \<Rightarrow> 'q \<Rightarrow> 's \<Rightarrow> ('a list \<times> 'q \<times> 's) res" where
  "get_all get 0 q s = Inr ([], q, s)"
| "get_all get (Suc n) q s = bindR (get q s) (\<lambda>(x, q, s). bindR (get_all get n q s) (\<lambda>(xs, q, s). Inr (x # xs, q, s)))"

locale message_queue =
  fixes holds :: "'q \<Rightarrow> 'a list \<Rightarrow> bool"
    and put :: "'a \<Rightarrow> 'q \<Rightarrow> 's \<Rightarrow> ('q \<times> 's) res"
    and get :: "'q \<Rightarrow> 's \<Rightarrow> ('a \<times> 'q \<times> 's) res"
  assumes put_law: "holds q xs \<Longrightarrow> \<exists>q'. put x q s = Inr (q', s) \<and> holds q' (xs @ [x])"
    and get_law: "holds q (x # xs) \<Longrightarrow> \<exists>q'. get q s = Inr (x, q', s) \<and> holds q' xs"
    and get_empty: "holds q [] \<Longrightarrow> get q s = Inl AssertFailed"
begin

lemma put_all_holds: "holds q xs \<Longrightarrow> \<exists>q'. put_all put ys q s = Inr (q', s) \<and> holds q' (xs @ ys)"
proof (induction ys arbitrary: q xs)
  case (Cons y ys)
  from put_law[OF Cons.prems, of y s] obtain q1 where "put y q s = Inr (q1, s)" "holds q1 (xs @ [y])" by blast
  with Cons.IH[of q1 "xs @ [y]"] show ?case by auto
qed simp

lemma get_all_holds: "holds q (xs @ ys) \<Longrightarrow> \<exists>q'. get_all get (length xs) q s = Inr (xs, q', s) \<and> holds q' ys"
proof (induction xs arbitrary: q)
  case (Cons x xs)
  then obtain q1 where "get q s = Inr (x, q1, s)" "holds q1 (xs @ ys)" using get_law[of q x "xs @ ys" s] by auto
  with Cons.IH[of q1] show ?case by auto
qed simp

lemma in_order:
  assumes "holds q []"
  shows "\<exists>q' q''. put_all put xs q s = Inr (q', s) \<and> get_all get (length xs) q' s = Inr (xs, q'', s) \<and> get q'' s = Inl AssertFailed"
proof -
  obtain q' where q': "put_all put xs q s = Inr (q', s)" "holds q' (xs @ [])" using put_all_holds[OF assms] by fastforce
  from get_all_holds[OF q'(2)] get_empty q'(1) show ?thesis by blast
qed

end

definition sl_holds :: "'a SynchList \<Rightarrow> 'a list \<Rightarrow> bool" where
  "sl_holds l xs \<longleftrightarrow> (\<exists>ys. list_rel (sl_list l) ys \<and> xs = map snd ys)"

lemma sl_holds_new [simp]: "sl_holds SynchList_new []"
  using List_new_rel by (auto simp: sl_holds_def SynchList_new_def)

lemma SynchList_Append_law:
  assumes "sl_holds l xs"
  shows "\<exists>l'. SynchList_Append x l s = Inr (l', s) \<and> sl_holds l' (xs @ [x])"
proof -
  obtain ys where ys: "list_rel (sl_list l) ys" "xs = map snd ys" using assms by (auto simp: sl_holds_def)
  from nl.rel_append[OF ys(1), of x] obtain q where "List_Append x (sl_list l) = Inr q" "list_rel q (ys @ [(0, x)])" by blast
  then show ?thesis using ys(2) by (auto simp: SynchList_Append_def Lock_Acquire_def Lock_Release_def Condition_Signal_def sl_holds_def)
qed

lemma SynchList_Remove_law:
  assumes "sl_holds l (x # xs)"
  shows "\<exists>l'. SynchList_Remove l s = Inr (x, l', s) \<and> sl_holds l' xs"
proof -
  obtain k ys where ys: "list_rel (sl_list l) ((k, x) # ys)" "xs = map snd ys" using assms by (auto simp: sl_holds_def)
  from List_Remove_rel[OF ys(1)] obtain q where q: "List_Remove (sl_list l) = Inr (Some x, q)" "list_rel q ys" by auto
  have "\<not> List_IsEmpty (sl_list l)" using list_rel_empty_iff[OF ys(1)] by simp
  then show ?thesis using q ys(2) by (auto simp: SynchList_Remove_def Lock_Acquire_def Lock_Release_def sl_holds_def)
qed

lemma SynchList_Remove_empty: "sl_holds l [] \<Longrightarrow> SynchList_Remove l s = Inl AssertFailed"
  using list_rel_empty_iff by (auto simp: sl_holds_def SynchList_Remove_def Lock_Acquire_def Condition_Wait_def ASSERT_def)

interpretation sl: message_queue sl_holds SynchList_Append SynchList_Remove
  by unfold_locales (fact SynchList_Append_law SynchList_Remove_law SynchList_Remove_empty)+

lemma SynchList_in_order:
  "\<exists>l l'. put_all SynchList_Append xs SynchList_new s = Inr (l, s) \<and> get_all SynchList_Remove (length xs) l s = Inr (xs, l', s)
     \<and> SynchList_Remove l' s = Inl AssertFailed"
  using sl.in_order[OF sl_holds_new] by blast

end
