(* ===== verification/Nachos_Network.thy ===== *)
theory Nachos_Network
  imports Complex_Main Nachos_SynchList Nachos_System Nachos_Process
begin

text \<open>
  machine/network.cc, the socket calls of machine/sysdep.cc, network/post.cc and network/nettest.cc: the unreliable
  network device and the post office on it.

  A machine is a \<open>Node\<close>: the kernel with its network device and its post office. The datagram sockets of the host
  connect the machines: \<open>wire\<close> has for each address whose socket exists the datagrams that wait there. A header is
  encoded as the bytes of its three integers. \<open>Random()\<close> is the host's generator, as for the timer; the \<open>double\<close>
  \<open>chanceToWork\<close> is the rational number it denotes, and its product with 100 is not rounded. What a
  \<open>new char[]\<close> holds before it is written is the argument \<open>junk\<close>.

  The post office waits for interrupts with \<open>P\<close>, so its code is a tree (Nachos_Process). The worker's loop does
  not end: \<open>postal_rounds n\<close> is its first \<open>n\<close> iterations.
\<close>

section \<open>Headers\<close>

record PacketHeader =
  pk_to :: word32
  pk_from :: word32
  pk_length :: word32

record MailHeader =
  mh_to :: word32
  mh_from :: word32
  mh_length :: word32

definition MaxWireSize :: nat where "MaxWireSize = 64"
definition MaxPacketSize :: nat where "MaxPacketSize = MaxWireSize - 12"
definition MaxMailSize :: nat where "MaxMailSize = MaxPacketSize - 12"

lemmas net_sizes = MaxWireSize_def MaxPacketSize_def MaxMailSize_def

definition PacketHeader_bytes :: "PacketHeader \<Rightarrow> byte list" where
  "PacketHeader_bytes h = le_bytes 4 (pk_to h) @ le_bytes 4 (pk_from h) @ le_bytes 4 (pk_length h)"

definition PacketHeader_of :: "byte list \<Rightarrow> PacketHeader" where
  "PacketHeader_of bs = \<lparr>pk_to = word_at bs 0, pk_from = word_at bs 4, pk_length = word_at bs 8\<rparr>"

definition MailHeader_bytes :: "MailHeader \<Rightarrow> byte list" where
  "MailHeader_bytes h = le_bytes 4 (mh_to h) @ le_bytes 4 (mh_from h) @ le_bytes 4 (mh_length h)"

definition MailHeader_of :: "byte list \<Rightarrow> MailHeader" where
  "MailHeader_of bs = \<lparr>mh_to = word_at bs 0, mh_from = word_at bs 4, mh_length = word_at bs 8\<rparr>"

section \<open>State\<close>

type_synonym Wire = "word32 \<rightharpoonup> byte list list"

record Network =
  ident :: word32
  chanceToWork :: rat
  sendBusy :: bool
  inHdr :: PacketHeader
  inbox :: "byte list"

record Mail =
  pktHdr :: PacketHeader
  mailHdr :: MailHeader
  mdata :: "byte list"

type_synonym MailBox = "Mail SynchList"

record PostOffice =
  netAddr :: word32
  numBoxes :: int
  boxes :: "MailBox list"
  messageAvailable :: nat
  messageSent :: nat

record Node = Kernel +
  wire :: Wire
  net_randoms :: "nat \<Rightarrow> int"
  net_random_pos :: nat
  network :: Network
  post :: PostOffice
  post_buffer :: "byte list"

section \<open>Sockets\<close>

text \<open>The socket of a machine is bound to the name \<open>SOCKET_n\<close>; a name left from before is removed first.\<close>

definition AssignNameToSocket :: "word32 \<Rightarrow> Wire \<Rightarrow> Wire" where
  "AssignNameToSocket a w = w(a \<mapsto> [])"

definition DeAssignNameToSocket :: "word32 \<Rightarrow> Wire \<Rightarrow> Wire" where
  "DeAssignNameToSocket a w = w(a := None)"

definition PollSocket :: "word32 \<Rightarrow> Wire \<Rightarrow> bool" where
  "PollSocket a w = (case w a of Some (p # ps) \<Rightarrow> True | _ \<Rightarrow> False)"

text \<open>A receive takes one datagram, cut to the size of the buffer; without one it does not return.\<close>

definition ReadFromSocket :: "word32 \<Rightarrow> nat \<Rightarrow> Wire \<Rightarrow> (byte list \<times> Wire) res" where
  "ReadFromSocket a packetSize w = (case w a of
     Some (p # ps) \<Rightarrow> bindR (ASSERT (length (take packetSize p) = packetSize)) (\<lambda>_. Inr (take packetSize p, w(a \<mapsto> ps)))
   | _ \<Rightarrow> Inl NoReturn)"

definition SendToSocket :: "byte list \<Rightarrow> word32 \<Rightarrow> Wire \<Rightarrow> Wire res" where
  "SendToSocket buffer a w = (case w a of None \<Rightarrow> Inl AssertFailed | Some q \<Rightarrow> Inr (w(a \<mapsto> q @ [buffer])))"

section \<open>The network device\<close>

definition net_Random :: "'k Node_scheme \<Rightarrow> int \<times> 'k Node_scheme" where
  "net_Random s = (net_randoms s (net_random_pos s), s\<lparr>net_random_pos := net_random_pos s + 1\<rparr>)"

definition Network_new :: "word32 \<Rightarrow> rat \<Rightarrow> PacketHeader \<Rightarrow> byte list \<Rightarrow> 'k Node_scheme \<Rightarrow> 'k Node_scheme res" where
  "Network_new addr reliability jhdr jbox s =
    (let n = \<lparr>ident = addr, chanceToWork = (if reliability < 0 then 0 else if reliability > 1 then 1 else reliability),
              sendBusy = False, inHdr = jhdr\<lparr>pk_length := 0\<rparr>, inbox = jbox\<rparr>
     in Schedule NetworkReadPoll 0 NetworkTime NetworkRecvInt
          (s\<lparr>network := n, wire := AssignNameToSocket addr (wire s)\<rparr>))"

definition Network_delete :: "'k Node_scheme \<Rightarrow> 'k Node_scheme" where
  "Network_delete s = s\<lparr>wire := DeAssignNameToSocket (ident (network s)) (wire s)\<rparr>"

text \<open>The two functions the post office gives to the device.\<close>

definition IncomingPacket :: "'k Node_scheme \<Rightarrow> 'k Node_scheme res" where
  "IncomingPacket s = Semaphore_V (messageAvailable (post s)) s"

definition PacketSent :: "'k Node_scheme \<Rightarrow> 'k Node_scheme res" where
  "PacketSent s = Semaphore_V (messageSent (post s)) s"

definition CheckPktAvail :: "'k Node_scheme \<Rightarrow> 'k Node_scheme res" where
  "CheckPktAvail s = bindR (Schedule NetworkReadPoll 0 NetworkTime NetworkRecvInt s) (\<lambda>s.
     if pk_length (inHdr (network s)) \<noteq> 0 then Inr s
     else if \<not> PollSocket (ident (network s)) (wire s) then Inr s
     else bindR (ReadFromSocket (ident (network s)) MaxWireSize (wire s)) (\<lambda>(buffer, w).
       let hdr = PacketHeader_of buffer; n = (network s)\<lparr>inHdr := hdr\<rparr> in
       bindR (ASSERT (pk_to hdr = ident n \<and> unat (pk_length hdr) \<le> MaxPacketSize)) (\<lambda>_.
       let data = take (unat (pk_length hdr)) (drop 12 buffer) in
       IncomingPacket (s\<lparr>wire := w, network := n\<lparr>inbox := data @ drop (length data) (inbox n)\<rparr>,
         stats := (stats s)\<lparr>numPacketsRecvd := numPacketsRecvd (stats s) + 1\<rparr>\<rparr>))))"

definition SendDone :: "'k Node_scheme \<Rightarrow> 'k Node_scheme res" where
  "SendDone s = PacketSent (s\<lparr>network := (network s)\<lparr>sendBusy := False\<rparr>,
     stats := (stats s)\<lparr>numPacketsSent := numPacketsSent (stats s) + 1\<rparr>\<rparr>)"

definition Network_Send :: "(nat \<Rightarrow> byte) \<Rightarrow> PacketHeader \<Rightarrow> byte list \<Rightarrow> 'k Node_scheme \<Rightarrow> 'k Node_scheme res" where
  "Network_Send junk hdr data s =
    (let n = network s; len = unat (pk_length hdr) in
     bindR (ASSERT (\<not> sendBusy n \<and> 0 < len \<and> len \<le> MaxPacketSize \<and> pk_from hdr = ident n)) (\<lambda>_.
     bindR (Schedule NetworkSendDone 0 NetworkTime NetworkSendInt s) (\<lambda>s.
     let (r, s) = net_Random s in
     if of_int (r smod 100) \<ge> chanceToWork n * 100 then Inr s
     else if length data < len then Inl OutOfBounds
     else bindR (SendToSocket (PacketHeader_bytes hdr @ take len data @ map junk [12 + len..<MaxWireSize]) (pk_to hdr) (wire s))
       (\<lambda>w. Inr (s\<lparr>wire := w\<rparr>)))))"

text \<open>The caller's buffer is an argument, and its new contents a result.\<close>

definition Network_Receive :: "byte list \<Rightarrow> 'k Node_scheme \<Rightarrow> (PacketHeader \<times> byte list \<times> 'k Node_scheme) res" where
  "Network_Receive data s =
    (let hdr = inHdr (network s); len = unat (pk_length hdr);
         s = s\<lparr>network := (network s)\<lparr>inHdr := hdr\<lparr>pk_length := 0\<rparr>\<rparr>\<rparr> in
     if len = 0 then Inr (hdr, data, s)
     else if length data < len \<or> length (inbox (network s)) < len then Inl OutOfBounds
     else Inr (hdr, take len (inbox (network s)) @ drop len data, s))"

section \<open>Mailboxes\<close>

definition Mail_new :: "PacketHeader \<Rightarrow> MailHeader \<Rightarrow> byte list \<Rightarrow> Mail res" where
  "Mail_new pktH mailH msgData = (let len = unat (mh_length mailH) in
     bindR (ASSERT (len \<le> MaxMailSize)) (\<lambda>_.
     if length msgData < len then Inl OutOfBounds
     else Inr \<lparr>pktHdr = pktH, mailHdr = mailH, mdata = take len msgData\<rparr>))"

definition MailBox_new :: MailBox where
  "MailBox_new = SynchList_new"

definition MailBox_Put :: "PacketHeader \<Rightarrow> MailHeader \<Rightarrow> byte list \<Rightarrow> MailBox \<Rightarrow> 'k Kernel_scheme \<Rightarrow> (MailBox \<times> 'k Kernel_scheme) res" where
  "MailBox_Put ph mh data b s = bindR (Mail_new ph mh data) (\<lambda>mail. SynchList_Append mail b s)"

definition MailBox_Get :: "byte list \<Rightarrow> MailBox \<Rightarrow> 'k Kernel_scheme \<Rightarrow>
    (PacketHeader \<times> MailHeader \<times> byte list \<times> MailBox \<times> 'k Kernel_scheme) res" where
  "MailBox_Get data b s = bindR (SynchList_Remove b s) (\<lambda>(mail, b, s).
     let len = unat (mh_length (mailHdr mail)) in
     if length data < len \<or> length (mdata mail) < len then Inl OutOfBounds
     else Inr (pktHdr mail, mailHdr mail, take len (mdata mail) @ drop len data, b, s))"

section \<open>The post office\<close>

definition get_box :: "int \<Rightarrow> 'k Node_scheme \<Rightarrow> MailBox res" where
  "get_box i s = (if i < 0 \<or> i \<ge> int (length (boxes (post s))) then Inl OutOfBounds else Inr (boxes (post s) ! nat i))"

definition put_box :: "int \<Rightarrow> MailBox \<Rightarrow> 'k Node_scheme \<Rightarrow> 'k Node_scheme" where
  "put_box i b s = s\<lparr>post := (post s)\<lparr>boxes := (boxes (post s))[nat i := b]\<rparr>\<rparr>"

definition PostOffice_new :: "word32 \<Rightarrow> rat \<Rightarrow> int \<Rightarrow> PacketHeader \<Rightarrow> byte list \<Rightarrow> (nat \<Rightarrow> word32) \<Rightarrow> 'k Node_scheme \<Rightarrow> 'k Node_scheme res" where
  "PostOffice_new addr reliability nBoxes jhdr jbox regs s =
    (let (ma, s) = Semaphore_new ''message available'' 0 s;
         (ms, s) = Semaphore_new ''message sent'' 0 s;
         po = \<lparr>netAddr = addr, numBoxes = nBoxes, boxes = replicate (nat nBoxes) MailBox_new,
               messageAvailable = ma, messageSent = ms\<rparr> in
     if nBoxes < 0 then Inl OutOfBounds else
     bindR (Network_new addr reliability jhdr jbox (s\<lparr>post := po\<rparr>)) (\<lambda>s.
     let (t, s) = Thread_new ''postal worker'' regs s in
     Thread_Fork t PostalHelper 0 s))"

text \<open>\<open>delete []\<close> destroys the last element first. A letter still in a box stays allocated; the lock has nothing to
  free.\<close>

definition MailBox_delete :: "MailBox \<Rightarrow> Mail NList res option" where
  "MailBox_delete b = SynchList_delete b"

primrec delete_boxes :: "MailBox list \<Rightarrow> unit res option" where
  "delete_boxes [] = Some (Inr ())"
| "delete_boxes (b # bs) = (case MailBox_delete b of None \<Rightarrow> None | Some (Inl e) \<Rightarrow> Some (Inl e) | Some (Inr _) \<Rightarrow> delete_boxes bs)"

definition PostOffice_delete :: "'k Node_scheme \<Rightarrow> 'k Node_scheme res option" where
  "PostOffice_delete s = (let po = post s; s = Network_delete s in
     case delete_boxes (rev (boxes po)) of None \<Rightarrow> None | Some (Inl e) \<Rightarrow> Some (Inl e)
     | Some (Inr _) \<Rightarrow> Some (bindR (Semaphore_delete (messageAvailable po) s) (Semaphore_delete (messageSent po))))"

text \<open>One iteration of the worker's loop. The buffer is allocated once, before the loop: it keeps what it holds from
  one packet to the next.\<close>

definition postal_round :: "'k Node_scheme \<Rightarrow> ('k Node_scheme) kprog" where
  "postal_round s = bindK (semP (messageAvailable (post s)) s) (\<lambda>_ s.
     liftK (Network_Receive (post_buffer s) s) (\<lambda>(ph, buffer, s).
     let s = s\<lparr>post_buffer := buffer\<rparr>; mh = MailHeader_of buffer in
     liftK (ASSERT (0 \<le> sint (mh_to mh) \<and> sint (mh_to mh) < numBoxes (post s))) (\<lambda>_.
     liftK (ASSERT (unat (mh_length mh) \<le> MaxMailSize)) (\<lambda>_.
     liftK (get_box (sint (mh_to mh)) s) (\<lambda>b.
     liftK (MailBox_Put ph mh (drop 12 buffer) b s) (\<lambda>(b, s). KRet 0 (put_box (sint (mh_to mh)) b s)))))))"

primrec postal_rounds :: "nat \<Rightarrow> 'k Node_scheme \<Rightarrow> ('k Node_scheme) kprog" where
  "postal_rounds 0 s = KRet 0 s"
| "postal_rounds (Suc n) s = bindK (postal_round s) (\<lambda>_ s. postal_rounds n s)"

definition PostalDelivery :: "(nat \<Rightarrow> byte) \<Rightarrow> nat \<Rightarrow> 'k Node_scheme \<Rightarrow> ('k Node_scheme) kprog" where
  "PostalDelivery junk n s = postal_rounds n (s\<lparr>post_buffer := map junk [0..<MaxPacketSize]\<rparr>)"

definition PostOffice_Send :: "(nat \<Rightarrow> byte) \<Rightarrow> PacketHeader \<Rightarrow> MailHeader \<Rightarrow> byte list \<Rightarrow> 'k Node_scheme \<Rightarrow> ('k Node_scheme) kprog" where
  "PostOffice_Send junk ph mh data s =
    (let len = unat (mh_length mh) in
     liftK (ASSERT (len \<le> MaxMailSize)) (\<lambda>_.
     liftK (ASSERT (0 \<le> sint (mh_to mh) \<and> sint (mh_to mh) < numBoxes (post s))) (\<lambda>_.
     let ph = ph\<lparr>pk_from := netAddr (post s), pk_length := mh_length mh + 12\<rparr> in
     if length data < len then KFault OutOfBounds else
     let buffer = MailHeader_bytes mh @ take len data @ map junk [12 + len..<MaxPacketSize] in
     liftK (Lock_Acquire s) (\<lambda>s.
     liftK (Network_Send junk ph buffer s) (\<lambda>s.
     bindK (semP (messageSent (post s)) s) (\<lambda>_ s.
     liftK (Lock_Release s) (KRet 0)))))))"

definition PostOffice_Receive :: "int \<Rightarrow> byte list \<Rightarrow> 'k Node_scheme \<Rightarrow> (PacketHeader \<times> MailHeader \<times> byte list \<times> 'k Node_scheme) res" where
  "PostOffice_Receive box data s =
     bindR (ASSERT (box \<ge> 0 \<and> box < numBoxes (post s))) (\<lambda>_.
     bindR (get_box box s) (\<lambda>b.
     bindR (MailBox_Get data b s) (\<lambda>(ph, mh, data, b, s).
     bindR (ASSERT (unat (mh_length mh) \<le> MaxMailSize)) (\<lambda>_. Inr (ph, mh, data, put_box box b s)))))"

section \<open>The mail test\<close>

definition c_string :: "string \<Rightarrow> byte list" where
  "c_string cs = map of_char cs @ [0]"

definition MailTest :: "(nat \<Rightarrow> byte) \<Rightarrow> PacketHeader \<Rightarrow> MailHeader \<Rightarrow> word32 \<Rightarrow> 'k Node_scheme \<Rightarrow> ('k Node_scheme) kprog" where
  "MailTest junk jp jm farAddr s =
    (let data = c_string ''Hello there!''; ack = c_string ''Got it!''; buffer = map junk [0..<MaxMailSize];
         outPktHdr = jp\<lparr>pk_to := farAddr\<rparr>;
         outMailHdr = jm\<lparr>mh_to := 0, mh_from := 1, mh_length := word_of_nat (length data)\<rparr> in
     bindK (PostOffice_Send junk outPktHdr outMailHdr data s) (\<lambda>_ s.
     liftK (PostOffice_Receive 0 buffer s) (\<lambda>(inPktHdr, inMailHdr, buffer, s).
     let outPktHdr = outPktHdr\<lparr>pk_to := pk_from inPktHdr\<rparr>;
         outMailHdr = outMailHdr\<lparr>mh_to := mh_from inMailHdr, mh_length := word_of_nat (length ack)\<rparr> in
     bindK (PostOffice_Send junk outPktHdr outMailHdr ack s) (\<lambda>_ s.
     liftK (PostOffice_Receive 1 buffer s) (\<lambda>(inPktHdr, inMailHdr, buffer, s). KHalt s)))))"

section \<open>The handlers\<close>

definition net_call :: "HandlerFn \<Rightarrow> int \<Rightarrow> 'k Node_scheme \<Rightarrow> 'k Node_scheme res" where
  "net_call h a s = (case h of
     NetworkReadPoll \<Rightarrow> CheckPktAvail s
   | NetworkSendDone \<Rightarrow> SendDone s
   | _ \<Rightarrow> Inl NullPointer)"

definition net_installed :: "HandlerFn \<Rightarrow> int \<Rightarrow> bool" where
  "net_installed h a \<longleftrightarrow> h \<in> {NetworkReadPoll, NetworkSendDone}"

section \<open>Headers and packets\<close>

lemma header_lengths [simp]: "length (PacketHeader_bytes h) = 12" "length (MailHeader_bytes mh) = 12"
  by (simp_all add: PacketHeader_bytes_def MailHeader_bytes_def)

lemma PacketHeader_of_bytes [simp]: "PacketHeader_of (PacketHeader_bytes h @ bs) = h"
  by (cases h) (simp add: PacketHeader_of_def PacketHeader_bytes_def word_at_def)

lemma MailHeader_of_bytes [simp]: "MailHeader_of (MailHeader_bytes h @ bs) = h"
  by (cases h) (simp add: MailHeader_of_def MailHeader_bytes_def word_at_def)

text \<open>A datagram the receiver accepts.\<close>

definition good_packet :: "word32 \<Rightarrow> byte list \<Rightarrow> bool" where
  "good_packet a p \<longleftrightarrow> length p = MaxWireSize \<and> pk_to (PacketHeader_of p) = a
     \<and> 0 < unat (pk_length (PacketHeader_of p)) \<and> unat (pk_length (PacketHeader_of p)) \<le> MaxPacketSize"

definition packet_of :: "(nat \<Rightarrow> byte) \<Rightarrow> PacketHeader \<Rightarrow> byte list \<Rightarrow> byte list" where
  "packet_of junk h data = PacketHeader_bytes h @ take (unat (pk_length h)) data @ map junk [12 + unat (pk_length h)..<MaxWireSize]"

lemma good_packet_of:
  "0 < unat (pk_length h) \<Longrightarrow> unat (pk_length h) \<le> MaxPacketSize \<Longrightarrow> unat (pk_length h) \<le> length data \<Longrightarrow>
    good_packet (pk_to h) (packet_of junk h data)"
  by (simp add: good_packet_def packet_of_def net_sizes)

lemma packet_data: "unat (pk_length h) \<le> length data \<Longrightarrow> take (unat (pk_length h)) (drop 12 (packet_of junk h data)) = take (unat (pk_length h)) data"
  by (simp add: packet_of_def)

section \<open>The device keeps the contract of the interrupt controller\<close>

definition net_inv :: "'k Node_scheme \<Rightarrow> bool" where
  "net_inv s \<longleftrightarrow> env_ok s \<and> queues_live s \<and> (\<forall>m. machine s = Some m \<longrightarrow> load_ok m)
     \<and> sems s (messageAvailable (post s)) \<noteq> None \<and> sems s (messageSent (post s)) \<noteq> None
     \<and> (\<forall>q. wire s (ident (network s)) = Some q \<longrightarrow> (\<forall>p\<in>set q. good_packet (ident (network s)) p))"

lemma net_inv_frame [simp]:
  "net_inv (s\<lparr>pending := ps\<rparr>) = net_inv s" "net_inv (s\<lparr>stats := st\<rparr>) = net_inv s" "net_inv (s\<lparr>level := l\<rparr>) = net_inv s"
  "net_inv (s\<lparr>inHandler := b\<rparr>) = net_inv s" "net_inv (s\<lparr>istatus := t\<rparr>) = net_inv s" "net_inv (s\<lparr>yieldOnReturn := b\<rparr>) = net_inv s"
  by (simp_all add: net_inv_def env_ok_def queues_live_def)

lemma Node_more:
  "Kernel.more s' = Kernel.more s \<Longrightarrow> wire s' = wire s \<and> network s' = network s \<and> post s' = post s \<and> post_buffer s' = post_buffer s"
  by (cases s; cases s') simp

lemma V_net:
  assumes "net_inv s" and "sems s i \<noteq> None"
  shows "\<exists>s'. Semaphore_V i s = Inr s' \<and> net_inv s' \<and> pending s' = pending s \<and> stats s' = stats s \<and> level s' = level s"
proof -
  obtain s' where s': "Semaphore_V i s = Inr s'" "env_ok s'" "queues_live s'"
    using V_served[of s i] assms by (auto simp: net_inv_def)
  note fr = V_frame[OF s'(1)]
  have "sems s' j \<noteq> None \<longleftrightarrow> sems s j \<noteq> None" for j using fr by blast
  then have "net_inv s'" using assms(1) s'(2,3) fr Node_more[of s' s] by (simp add: net_inv_def)
  then show ?thesis using s'(1) fr by blast
qed

lemma SendDone_served:
  assumes "net_inv s"
  shows "\<exists>s'. SendDone s = Inr s' \<and> net_inv s' \<and> pending s' = pending s \<and> now s' = now s \<and> level s' = level s"
proof -
  let ?s = "s\<lparr>network := (network s)\<lparr>sendBusy := False\<rparr>, stats := (stats s)\<lparr>numPacketsSent := numPacketsSent (stats s) + 1\<rparr>\<rparr>"
  have "net_inv ?s" using assms by (simp add: net_inv_def env_ok_def queues_live_def)
  moreover have "sems ?s (messageSent (post s)) \<noteq> None" using assms by (simp add: net_inv_def)
  ultimately show ?thesis using V_net[of ?s "messageSent (post s)"] by (auto simp: SendDone_def PacketSent_def)
qed

text \<open>What \<open>CheckPktAvail\<close> does with the datagram in front, after it has scheduled the next poll.\<close>

definition accepted :: "byte list \<Rightarrow> byte list list \<Rightarrow> 'k Node_scheme \<Rightarrow> 'k Node_scheme" where
  "accepted p ps s = (let hdr = PacketHeader_of p; n = network s; data = take (unat (pk_length hdr)) (drop 12 p) in
     s\<lparr>wire := (wire s)(ident n \<mapsto> ps), network := n\<lparr>inHdr := hdr, inbox := data @ drop (length data) (inbox n)\<rparr>,
       stats := (stats s)\<lparr>numPacketsRecvd := numPacketsRecvd (stats s) + 1\<rparr>\<rparr>)"

lemma CheckPktAvail_eq:
  assumes "Schedule NetworkReadPoll 0 NetworkTime NetworkRecvInt s = Inr s1" and "network s1 = network s" and "wire s1 = wire s"
    and "pk_length (inHdr (network s)) = 0" and "wire s (ident (network s)) = Some (p # ps)" and "good_packet (ident (network s)) p"
  shows "CheckPktAvail s = IncomingPacket (accepted p ps s1)"
  using assms by (simp add: CheckPktAvail_def PollSocket_def ReadFromSocket_def good_packet_def Let_def ASSERT_def accepted_def)

lemma CheckPktAvail_idle:
  assumes "Schedule NetworkReadPoll 0 NetworkTime NetworkRecvInt s = Inr s1" and "network s1 = network s" and "wire s1 = wire s"
    and "pk_length (inHdr (network s)) \<noteq> 0 \<or> \<not> PollSocket (ident (network s)) (wire s)"
  shows "CheckPktAvail s = Inr s1"
  using assms by (auto simp: CheckPktAvail_def)

lemma net_inv_accepted:
  assumes "net_inv s" and "wire s (ident (network s)) = Some (p # ps)"
  shows "net_inv (accepted p ps s)" "sems (accepted p ps s) (messageAvailable (post (accepted p ps s))) \<noteq> None"
    "pending (accepted p ps s) = pending s" "now (accepted p ps s) = now s" "level (accepted p ps s) = level s"
    "post (accepted p ps s) = post s" "sems (accepted p ps s) = sems s"
  using assms by (auto simp: net_inv_def env_ok_def queues_live_def accepted_def Let_def)

lemma CheckPktAvail_served:
  assumes "net_inv s" and "int_ok s" and "all_installed net_installed s" and "clock_ok s"
  shows "\<exists>s'. CheckPktAvail s = Inr s' \<and> net_inv s' \<and> int_ok s' \<and> all_installed net_installed s' \<and> level s' = level s
    \<and> now s' = now s \<and> due s' = due s"
proof -
  obtain ps where sc: "Schedule NetworkReadPoll 0 NetworkTime NetworkRecvInt s = Inr (s\<lparr>pending := ps\<rparr>)" "int_ok (s\<lparr>pending := ps\<rparr>)"
    "all_installed net_installed (s\<lparr>pending := ps\<rparr>)" "due (s\<lparr>pending := ps\<rparr>) = due s"
    using Schedule_installed[of NetworkTime s net_installed NetworkReadPoll 0 NetworkRecvInt] assms(2,3) clock_at_delay[OF assms(4), of NetworkTime]
    by (auto simp: net_installed_def NetworkTime_def TimerTicks_def)
  let ?s = "s\<lparr>pending := ps\<rparr>"
  show ?thesis
  proof (cases "pk_length (inHdr (network s)) \<noteq> 0 \<or> \<not> PollSocket (ident (network s)) (wire s)")
    case True
    then show ?thesis using CheckPktAvail_idle[OF sc(1)] sc assms(1) by auto
  next
    case False
    then obtain p rs where w: "wire s (ident (network s)) = Some (p # rs)"
      by (auto simp: PollSocket_def split: option.splits list.splits)
    then have good: "good_packet (ident (network s)) p" using assms(1) by (simp add: net_inv_def)
    have inv: "net_inv ?s" "wire ?s (ident (network ?s)) = Some (p # rs)" using assms(1) w by simp_all
    have "CheckPktAvail s = IncomingPacket (accepted p rs ?s)"
      using CheckPktAvail_eq[OF sc(1) _ _ _ w good] False by simp
    moreover obtain s' where "Semaphore_V (messageAvailable (post s)) (accepted p rs ?s) = Inr s'" "net_inv s'" "pending s' = ps"
      "now s' = now s" "level s' = level s"
      using V_net[OF net_inv_accepted(1,2)[OF inv]] net_inv_accepted(3-6)[OF inv] by auto
    moreover have "int_ok s' = int_ok ?s" "all_installed net_installed s' = all_installed net_installed ?s" "due s' = due ?s"
      using \<open>pending s' = ps\<close> \<open>now s' = now s\<close> by (simp_all add: int_ok_def all_installed_def due_def)
    ultimately show ?thesis using sc net_inv_accepted(6)[OF inv] by (simp add: IncomingPacket_def)
  qed
qed

interpretation net: interrupt_handlers net_call net_inv net_installed
proof unfold_locales
  fix s :: "'a Node_scheme" and h a
  assume s: "net_inv s" "int_ok s" "all_installed net_installed s" "net_installed h a" "level s = IntOff" "clock_ok s"
  show "\<exists>s'. net_call h a s = Inr s' \<and> net_inv s' \<and> int_ok s' \<and> all_installed net_installed s' \<and> level s' = IntOff
    \<and> now s' = now s \<and> due s' = due s"
  proof (cases "h = NetworkReadPoll")
    case True
    then show ?thesis using CheckPktAvail_served[OF s(1-3,6)] s(5) by (auto simp: net_call_def)
  next
    case False
    then have "h = NetworkSendDone" using s(4) by (simp add: net_installed_def)
    then show ?thesis using SendDone_served[OF s(1)] s by (auto simp: net_call_def int_ok_def all_installed_def due_def)
  qed
next
  fix s :: "'a Node_scheme"
  assume inv: "net_inv s"
  then obtain m' where m': "settle_load s = Inr (s\<lparr>machine := m'\<rparr>)" "m' = None \<longleftrightarrow> machine s = None" "\<forall>m. m' = Some m \<longrightarrow> load_ok m"
    using settle_load_ok[of s] by (auto simp: net_inv_def)
  then have "net_inv (s\<lparr>machine := m'\<rparr>)" using inv by (simp add: net_inv_def env_ok_def queues_live_def)
  then show "\<exists>s'. settle_load s = Inr s' \<and> net_inv s'" using m'(1) by blast
qed auto

text \<open>So the loop that fires the interrupts due ends with the network too, though each poll schedules the next, as long as the
  clock is not about to wrap around.\<close>

lemma network_interrupts_end:
  assumes "net_inv s" and "int_ok s" and "all_installed net_installed s" and "level s = IntOff" and "clock_ok s"
  shows "\<exists>s'. fire_due net_call s = Some (Inr s') \<and> net_inv s' \<and> now s' = now s
    \<and> (due s' = [] \<or> istatus s = IdleMode \<and> (\<exists>w p. pending s' = [(w, p)] \<and> itype p = TimerInt))"
  using net.fire_due_terminates[of s, unfolded net.ready_def] assms by blast

section \<open>Sending\<close>

definition lost :: "'k Node_scheme \<Rightarrow> bool" where
  "lost s \<longleftrightarrow> of_int (net_randoms s (net_random_pos s) smod 100) \<ge> chanceToWork (network s) * 100"

lemma Schedule_pending: "0 < ticks \<Longrightarrow> \<exists>ps. Schedule h a ticks ty s = Inr (s\<lparr>pending := ps\<rparr>)"
  using Schedule_spec[of ticks h a ty s] by metis

lemma Network_Send_spec:
  assumes "\<not> sendBusy (network s)" and "0 < unat (pk_length h)" and "unat (pk_length h) \<le> MaxPacketSize" and "pk_from h = ident (network s)"
    and "unat (pk_length h) \<le> length data" and "wire s (pk_to h) = Some q"
  shows "\<exists>ps. Network_Send junk h data s = Inr (s\<lparr>pending := ps, net_random_pos := net_random_pos s + 1,
     wire := (if lost s then wire s else (wire s)(pk_to h \<mapsto> q @ [packet_of junk h data]))\<rparr>)"
proof -
  obtain ps where "Schedule NetworkSendDone 0 NetworkTime NetworkSendInt s = Inr (s\<lparr>pending := ps\<rparr>)"
    using Schedule_pending[of NetworkTime NetworkSendDone 0 NetworkSendInt s] by (auto simp: NetworkTime_def)
  then show ?thesis using assms
    by (intro exI[of _ ps]) (auto simp: Network_Send_def Let_def ASSERT_def net_Random_def lost_def SendToSocket_def packet_of_def)
qed

text \<open>The mail as it arrives: the sender's address is filled in.\<close>

definition sent_mail :: "PacketHeader \<Rightarrow> MailHeader \<Rightarrow> byte list \<Rightarrow> 'k Node_scheme \<Rightarrow> Mail" where
  "sent_mail ph mh data s = \<lparr>pktHdr = ph\<lparr>pk_from := netAddr (post s), pk_length := mh_length mh + 12\<rparr>, mailHdr = mh,
     mdata = take (unat (mh_length mh)) data\<rparr>"

definition mail_payload :: "(nat \<Rightarrow> byte) \<Rightarrow> MailHeader \<Rightarrow> byte list \<Rightarrow> byte list" where
  "mail_payload junk mh data = MailHeader_bytes mh @ take (unat (mh_length mh)) data @ map junk [12 + unat (mh_length mh)..<MaxPacketSize]"

lemma unat_plus_12: "unat (w :: word32) \<le> MaxMailSize \<Longrightarrow> unat (w + 12) = unat w + 12"
  by (simp add: unat_word_ariths(1) net_sizes)

lemma PostOffice_Send_spec:
  assumes "\<not> sendBusy (network s)" and "netAddr (post s) = ident (network s)" and "unat (mh_length mh) \<le> MaxMailSize"
    and "unat (mh_length mh) \<le> length data" and "0 \<le> sint (mh_to mh)" and "sint (mh_to mh) < numBoxes (post s)"
    and "wire s (pk_to ph) = Some q"
  shows "\<exists>ps. PostOffice_Send junk ph mh data s = KP (messageSent (post s)) (s\<lparr>pending := ps, net_random_pos := net_random_pos s + 1,
     wire := (if lost s then wire s
       else (wire s)(pk_to ph \<mapsto> q @ [packet_of junk (pktHdr (sent_mail ph mh data s)) (mail_payload junk mh data)]))\<rparr>) (KRet 0)"
proof -
  let ?h = "pktHdr (sent_mail ph mh data s)"
  have l: "unat (pk_length ?h) = unat (mh_length mh) + 12" using unat_plus_12[OF assms(3)] by (simp add: sent_mail_def)
  have "length (mail_payload junk mh data) = MaxPacketSize" using assms(3,4) by (simp add: mail_payload_def net_sizes)
  then obtain ps where "Network_Send junk ?h (mail_payload junk mh data) s = Inr (s\<lparr>pending := ps, net_random_pos := net_random_pos s + 1,
     wire := (if lost s then wire s else (wire s)(pk_to ?h \<mapsto> q @ [packet_of junk ?h (mail_payload junk mh data)]))\<rparr>)"
    using Network_Send_spec[OF assms(1), of ?h "mail_payload junk mh data" q junk] assms l by (auto simp: sent_mail_def net_sizes)
  then show ?thesis using assms
    by (intro exI[of _ ps]) (simp add: PostOffice_Send_def Let_def ASSERT_def Lock_Acquire_def Lock_Release_def semP_def
        sent_mail_def mail_payload_def)
qed

section \<open>Receiving\<close>

text \<open>The last condition is on the semaphore the worker waits on: fewer than \<open>2 ^ 31\<close> packets are announced and not yet
  fetched.\<close>

definition receiver_ok :: "word32 \<Rightarrow> 'k Node_scheme \<Rightarrow> bool" where
  "receiver_ok a s \<longleftrightarrow> net_inv s \<and> ident (network s) = a \<and> pk_length (inHdr (network s)) = 0
     \<and> length (inbox (network s)) = MaxPacketSize \<and> length (post_buffer s) = MaxPacketSize
     \<and> numBoxes (post s) = int (length (boxes (post s)))
     \<and> 0 \<le> value_of s (messageAvailable (post s)) \<and> value_of s (messageAvailable (post s)) < 2 ^ 31"

lemma V_value: "Semaphore_V i s = Inr s' \<Longrightarrow> value_of s' i = i32 (value_of s i + 1)"
  by (auto simp: Semaphore_V_def Let_def bindR_eq_Inr get_sem_def ReadyToRun_def get_thread_def put_sem_def upd_thread_def value_of_def
      split: option.splits list.splits)

lemma took_spec:
  assumes "value_of s i \<noteq> 0"
  obtains se where "sems s i = Some se" "sem_value se \<noteq> 0" "took i s = (upd_thread (currentThread s) (\<lambda>th. th\<lparr>resume := OnCPU\<rparr>)
    (put_sem i (se\<lparr>sem_value := i32 (sem_value se - 1)\<rparr>) s))"
proof (cases "sems s i")
  case (Some se)
  then have "sem_value se \<noteq> 0" using assms by (simp add: value_of_def)
  then show thesis using Some that
    by (simp add: took_def Semaphore_P_def P_loop_def get_sem_def put_sem_def upd_thread_def)
qed (use assms in \<open>simp add: value_of_def\<close>)

lemma took_net:
  assumes "value_of s i \<noteq> 0" and "net_inv s"
  shows "net_inv (took i s)" "wire (took i s) = wire s" "network (took i s) = network s" "post (took i s) = post s"
    "post_buffer (took i s) = post_buffer s" "value_of (took i s) i = i32 (value_of s i - 1)"
proof -
  obtain se where se: "sems s i = Some se" "sem_value se \<noteq> 0" and t: "took i s = (upd_thread (currentThread s) (\<lambda>th. th\<lparr>resume := OnCPU\<rparr>)
    (put_sem i (se\<lparr>sem_value := i32 (sem_value se - 1)\<rparr>) s))" using took_spec[OF assms(1)] by blast
  have "env_ok (took i s)" unfolding t using assms(2) se(1) by (intro env_ok_upd_thread env_ok_put_sem) (auto simp: net_inv_def env_ok_def)
  moreover have "queues_live (took i s)" using assms(2) se(1) by (auto simp: t net_inv_def queues_live_def put_sem_def upd_thread_def)
  ultimately show "net_inv (took i s)" using assms(2) by (auto simp: t net_inv_def put_sem_def upd_thread_def)
  show "wire (took i s) = wire s" "network (took i s) = network s" "post (took i s) = post s" "post_buffer (took i s) = post_buffer s"
    "value_of (took i s) i = i32 (value_of s i - 1)"
    by (simp_all add: t put_sem_def upd_thread_def value_of_def se)
qed

lemma packet_arrives:
  assumes "receiver_ok a s" and "wire s a = Some (p # r)"
  shows "\<exists>s'. CheckPktAvail s = Inr s' \<and> net_inv s' \<and> value_of s' (messageAvailable (post s)) = i32 (value_of s (messageAvailable (post s)) + 1)
    \<and> wire s' = (wire s)(a \<mapsto> r) \<and> post s' = post s \<and> post_buffer s' = post_buffer s
    \<and> network s' = (network s)\<lparr>inHdr := PacketHeader_of p, inbox := (let data = take (unat (pk_length (PacketHeader_of p))) (drop 12 p)
        in data @ drop (length data) (inbox (network s)))\<rparr>"
proof -
  have inv: "net_inv s" "ident (network s) = a" "pk_length (inHdr (network s)) = 0" using assms(1) by (simp_all add: receiver_ok_def)
  have good: "good_packet (ident (network s)) p" using inv(1,2) assms(2) by (simp add: net_inv_def)
  obtain ps where sc: "Schedule NetworkReadPoll 0 NetworkTime NetworkRecvInt s = Inr (s\<lparr>pending := ps\<rparr>)"
    using Schedule_pending[of NetworkTime NetworkReadPoll 0 NetworkRecvInt s] by (auto simp: NetworkTime_def)
  let ?s = "s\<lparr>pending := ps\<rparr>"
  have eq: "CheckPktAvail s = IncomingPacket (accepted p r ?s)"
    using CheckPktAvail_eq[OF sc _ _ inv(3) _ good] assms(2) inv(2) by simp
  have i: "net_inv ?s" "wire ?s (ident (network ?s)) = Some (p # r)" using inv assms(2) by simp_all
  note acc = net_inv_accepted[OF i]
  obtain s' where s': "Semaphore_V (messageAvailable (post s)) (accepted p r ?s) = Inr s'" "net_inv s'"
    using V_net[OF acc(1,2)] acc(6) by auto
  have "value_of s' (messageAvailable (post s)) = i32 (value_of s (messageAvailable (post s)) + 1)"
    using V_value[OF s'(1)] acc(7) by (simp add: value_of_def)
  moreover have "Kernel.more s' = Kernel.more (accepted p r ?s)" using V_frame[OF s'(1)] by blast
  ultimately show ?thesis using eq s' acc(6) Node_more[of s' "accepted p r ?s"] inv(2) by (simp add: IncomingPacket_def accepted_def Let_def)
qed

lemma MailBox_Put_spec:
  assumes "sl_holds b xs" and "unat (mh_length mh) \<le> MaxMailSize" and "unat (mh_length mh) \<le> length data"
  shows "\<exists>b'. MailBox_Put ph mh data b s = Inr (b', s)
    \<and> sl_holds b' (xs @ [\<lparr>pktHdr = ph, mailHdr = mh, mdata = take (unat (mh_length mh)) data\<rparr>])"
  using sl.put_law[OF assms(1)] assms(2,3) by (simp add: MailBox_Put_def Mail_new_def Let_def ASSERT_def)

lemma postal_round_delivers:
  assumes "net_inv s" and "value_of s (messageAvailable (post s)) \<noteq> 0"
    and len: "unat (pk_length (inHdr (network s))) = 12 + unat (mh_length mh)" "unat (mh_length mh) \<le> MaxMailSize"
    and box: "take (12 + unat (mh_length mh)) (inbox (network s)) = MailHeader_bytes mh @ data" "length data = unat (mh_length mh)"
      "length (inbox (network s)) = MaxPacketSize" "length (post_buffer s) = MaxPacketSize"
    and to: "0 \<le> sint (mh_to mh)" "sint (mh_to mh) < numBoxes (post s)" "numBoxes (post s) = int (length (boxes (post s)))"
    and holds: "sl_holds (boxes (post s) ! nat (sint (mh_to mh))) xs"
  shows "\<exists>s' b. uncontended (postal_round s) = KRet 0 s' \<and> net_inv s' \<and> wire s' = wire s
    \<and> network s' = (network s)\<lparr>inHdr := (inHdr (network s))\<lparr>pk_length := 0\<rparr>\<rparr> \<and> length (post_buffer s') = MaxPacketSize
    \<and> post s' = (post s)\<lparr>boxes := (boxes (post s))[nat (sint (mh_to mh)) := b]\<rparr>
    \<and> sl_holds b (xs @ [\<lparr>pktHdr = inHdr (network s), mailHdr = mh, mdata = data\<rparr>])
    \<and> value_of s' (messageAvailable (post s)) = i32 (value_of s (messageAvailable (post s)) - 1)"
proof -
  let ?i = "messageAvailable (post s)" and ?h = "inHdr (network s)" and ?to = "sint (mh_to mh)"
  let ?L = "12 + unat (mh_length mh)"
  define s1 where "s1 = took ?i s"
  define n where "n = (network s)\<lparr>inHdr := ?h\<lparr>pk_length := 0\<rparr>\<rparr>"
  define buf where "buf = MailHeader_bytes mh @ data @ drop ?L (post_buffer s)"
  define s2 where "s2 = s1\<lparr>network := n, post_buffer := buf\<rparr>"
  note t = took_net[OF assms(2,1), folded s1_def]
  have L: "?L \<le> MaxPacketSize" using len(2) by (simp add: net_sizes)
  have recv: "Network_Receive (post_buffer s1) s1 = Inr (?h, buf, s1\<lparr>network := n\<rparr>)"
    using len(1) box L by (simp add: Network_Receive_def t n_def buf_def Let_def)
  have mh: "MailHeader_of buf = mh" "drop 12 buf = data @ drop ?L (post_buffer s)" by (simp_all add: buf_def)
  obtain b where b: "MailBox_Put ?h mh (drop 12 buf) (boxes (post s) ! nat ?to) s2 = Inr (b, s2)"
      "sl_holds b (xs @ [\<lparr>pktHdr = ?h, mailHdr = mh, mdata = data\<rparr>])"
    using MailBox_Put_spec[OF holds len(2), of "drop 12 buf" ?h s2] box(2) by (auto simp: mh(2))
  have sem: "sems s ?i \<noteq> None" using assms(1) by (simp add: net_inv_def)
  have gb: "get_box ?to s2 = Inr (boxes (post s) ! nat ?to)" using to t by (simp add: get_box_def s2_def)
  have "uncontended (postal_round s) = KRet 0 (put_box ?to b s2)"
    using sem assms(2) recv gb b(1) to len(2) t
    by (simp add: postal_round_def semP_def s1_def[symmetric] s2_def mh(1) Let_def ASSERT_def)
  moreover have "net_inv (put_box ?to b s2)"
    using t(1-4) by (simp add: net_inv_def put_box_def s2_def n_def env_ok_def queues_live_def)
  moreover have "length buf = MaxPacketSize" using box(2,4) L by (simp add: buf_def)
  moreover have "value_of (put_box ?to b s2) ?i = i32 (value_of s ?i - 1)" using t(6) by (simp add: put_box_def s2_def value_of_def)
  ultimately show ?thesis using b(2) t by (intro exI[of _ "put_box ?to b s2"] exI[of _ b]) (simp add: put_box_def s2_def n_def)
qed

lemma PostOffice_Receive_spec:
  assumes "receiver_ok a s" and "0 \<le> i" and "i < numBoxes (post s)" and "sl_holds (boxes (post s) ! nat i) (mail # xs)"
    and "length (mdata mail) = unat (mh_length (mailHdr mail))" and "unat (mh_length (mailHdr mail)) \<le> MaxMailSize" and "length buf = MaxMailSize"
  shows "\<exists>b. PostOffice_Receive i buf s = Inr (pktHdr mail, mailHdr mail, mdata mail @ drop (length (mdata mail)) buf, put_box i b s) \<and> sl_holds b xs"
proof -
  have "i < int (length (boxes (post s)))" using assms(1,3) by (simp add: receiver_ok_def)
  then have "get_box i s = Inr (boxes (post s) ! nat i)" using assms(2) by (simp add: get_box_def)
  moreover obtain b where "SynchList_Remove (boxes (post s) ! nat i) s = Inr (mail, b, s)" "sl_holds b xs"
    using sl.get_law[OF assms(4)] by blast
  ultimately show ?thesis using assms by (intro exI[of _ b]) (simp add: PostOffice_Receive_def ASSERT_def MailBox_Get_def Let_def)
qed

text \<open>Nothing waits for mail: \<open>Receive\<close> on an empty mailbox stops the machine.\<close>

lemma receive_empty_aborts:
  assumes "receiver_ok a s" and "0 \<le> i" and "i < numBoxes (post s)" and "sl_holds (boxes (post s) ! nat i) []"
  shows "PostOffice_Receive i buf s = Inl AssertFailed"
proof -
  have "i < int (length (boxes (post s)))" using assms(1,3) by (simp add: receiver_ok_def)
  then show ?thesis using assms(2,3) sl.get_empty[OF assms(4), of s]
    by (simp add: PostOffice_Receive_def get_box_def MailBox_Get_def ASSERT_def)
qed

lemma delete_boxes_ends: "(\<And>b. b \<in> set bs \<Longrightarrow> \<exists>xs. sl_holds b xs) \<Longrightarrow> delete_boxes bs = Some (Inr ())"
proof (induction bs)
  case (Cons b bs)
  then obtain ys where "list_rel (sl_list b) ys" by (auto simp: sl_holds_def)
  then show ?case using List_delete_rel Cons by (fastforce simp: MailBox_delete_def SynchList_delete_def)
qed simp

text \<open>The destructor returns and leaves neither the name of the socket nor the semaphores behind.\<close>

lemma post_office_deleted:
  assumes "net_inv s" and "\<And>b. b \<in> set (boxes (post s)) \<Longrightarrow> \<exists>xs. sl_holds b xs" and "messageAvailable (post s) \<noteq> messageSent (post s)"
  shows "PostOffice_delete s = Some (Inr (s\<lparr>wire := (wire s)(ident (network s) := None),
     sems := (sems s)(messageAvailable (post s) := None, messageSent (post s) := None)\<rparr>))"
  using assms delete_boxes_ends[of "rev (boxes (post s))"]
  by (auto simp: PostOffice_delete_def Network_delete_def DeAssignNameToSocket_def Let_def Semaphore_delete_def get_sem_def net_inv_def)

lemma mail_delivered:
  assumes "unat (mh_length mh) \<le> MaxMailSize" and "unat (mh_length mh) \<le> length data" and "0 \<le> sint (mh_to mh)"
    and "receiver_ok (pk_to ph) B" and "sint (mh_to mh) < numBoxes (post B)" and "sl_holds (boxes (post B) ! nat (sint (mh_to mh))) xs"
    and "wire B (pk_to ph) = Some (packet_of junk (pktHdr (sent_mail ph mh data A)) (mail_payload junk mh data) # r)"
  shows "\<exists>B1 B2 b. CheckPktAvail B = Inr B1 \<and> uncontended (postal_round B1) = KRet 0 B2 \<and> wire B2 = (wire B)(pk_to ph \<mapsto> r)
    \<and> receiver_ok (pk_to ph) B2 \<and> post B2 = (post B)\<lparr>boxes := (boxes (post B))[nat (sint (mh_to mh)) := b]\<rparr>
    \<and> sl_holds b (xs @ [sent_mail ph mh data A])"
proof -
  let ?h = "pktHdr (sent_mail ph mh data A)" and ?d = "take (unat (mh_length mh)) data"
  let ?p = "packet_of junk ?h (mail_payload junk mh data)"
  have l: "unat (pk_length ?h) = 12 + unat (mh_length mh)" using unat_plus_12[OF assms(1)] by (simp add: sent_mail_def)
  have p: "PacketHeader_of ?p = ?h" by (simp add: packet_of_def)
  have pl: "length (mail_payload junk mh data) = MaxPacketSize" using assms(1,2) by (simp add: mail_payload_def net_sizes)
  have ld: "length ?d = unat (mh_length mh)" using assms(2) by simp
  have "take (unat (pk_length ?h)) (mail_payload junk mh data) = MailHeader_bytes mh @ ?d" using l ld by (simp add: mail_payload_def)
  then have d: "take (unat (pk_length ?h)) (drop 12 ?p) = MailHeader_bytes mh @ ?d"
    using packet_data[of ?h "mail_payload junk mh data" junk] l pl assms(1) by (simp add: net_sizes)
  obtain B1 where B1: "CheckPktAvail B = Inr B1" "net_inv B1" "value_of B1 (messageAvailable (post B)) = i32 (value_of B (messageAvailable (post B)) + 1)" "wire B1 = (wire B)(pk_to ph \<mapsto> r)"
      "post B1 = post B" "post_buffer B1 = post_buffer B"
      "network B1 = (network B)\<lparr>inHdr := ?h, inbox := (MailHeader_bytes mh @ ?d) @ drop (12 + length ?d) (inbox (network B))\<rparr>"
    using packet_arrives[OF assms(4,7)] unfolding p d Let_def by auto
  have B: "length (inbox (network B)) = MaxPacketSize" "length (post_buffer B) = MaxPacketSize" "numBoxes (post B) = int (length (boxes (post B)))"
      "ident (network B) = pk_to ph" and v: "0 \<le> value_of B (messageAvailable (post B))" "value_of B (messageAvailable (post B)) < 2 ^ 31"
    using assms(4) by (simp_all add: receiver_ok_def)
  have "i32 (value_of B (messageAvailable (post B)) + 1) mod 2 ^ 32 \<noteq> 0" using v unfolding i32_mod by simp
  then have nz: "value_of B1 (messageAvailable (post B)) \<noteq> 0" using B1(3) by auto
  have restored: "i32 (value_of B1 (messageAvailable (post B)) - 1) = value_of B (messageAvailable (post B))"
    using v i32_add[of "value_of B (messageAvailable (post B)) + 1" "-1"] by (simp add: B1(3) i32_int is_int_def)
  have ib: "length (inbox (network B1)) = MaxPacketSize" using B1(7) B(1) ld assms(1) by (simp add: net_sizes)
  have tk: "take (12 + unat (mh_length mh)) (inbox (network B1)) = MailHeader_bytes mh @ ?d" using B1(7) ld by simp
  have "\<exists>B2 b. uncontended (postal_round B1) = KRet 0 B2 \<and> net_inv B2 \<and> wire B2 = wire B1
      \<and> network B2 = (network B1)\<lparr>inHdr := (inHdr (network B1))\<lparr>pk_length := 0\<rparr>\<rparr> \<and> length (post_buffer B2) = MaxPacketSize
      \<and> post B2 = (post B1)\<lparr>boxes := (boxes (post B1))[nat (sint (mh_to mh)) := b]\<rparr>
      \<and> sl_holds b (xs @ [\<lparr>pktHdr = inHdr (network B1), mailHdr = mh, mdata = ?d\<rparr>])
      \<and> value_of B2 (messageAvailable (post B1)) = i32 (value_of B1 (messageAvailable (post B1)) - 1)"
    by (rule postal_round_delivers[OF B1(2) _ _ assms(1) tk ld ib]) (use B1(5-7) nz B l assms(3,5,6) in simp_all)
  then obtain B2 b where "uncontended (postal_round B1) = KRet 0 B2" "net_inv B2" "wire B2 = wire B1"
      "network B2 = (network B1)\<lparr>inHdr := ?h\<lparr>pk_length := 0\<rparr>\<rparr>" "length (post_buffer B2) = MaxPacketSize"
      "post B2 = (post B1)\<lparr>boxes := (boxes (post B1))[nat (sint (mh_to mh)) := b]\<rparr>"
      "sl_holds b (xs @ [\<lparr>pktHdr = ?h, mailHdr = mh, mdata = ?d\<rparr>])" "value_of B2 (messageAvailable (post B)) = value_of B (messageAvailable (post B))"
    using B1(5,7) restored by auto
  moreover from this have "receiver_ok (pk_to ph) B2" using B1(5,7) B v assms(1) ld by (simp add: receiver_ok_def net_sizes)
  moreover have "\<lparr>pktHdr = ?h, mailHdr = mh, mdata = ?d\<rparr> = sent_mail ph mh data A" by (simp add: sent_mail_def)
  ultimately show ?thesis using B1(1,4,5) by auto
qed

text \<open>
  C10. Mail. A post office that sends a letter to a mailbox of another machine fills in its address, hands the
  packet to the network and waits for it to be sent. Either the network loses it and no socket changes, or the
  packet is behind those that wait at the destination. Whenever such a packet is the first one at a machine whose
  receive buffer is free, the next poll of the network and one round of the postal worker take it from the socket and put
  the letter, unchanged and with both addresses, at the end of the right mailbox; the machine is ready for the
  next one, and a \<open>Receive\<close> from the mailbox, if no older letter is there, returns it.
\<close>

theorem mail_round_trip:
  assumes "\<not> sendBusy (network A)" and "netAddr (post A) = ident (network A)" and "unat (mh_length mh) \<le> MaxMailSize"
    and "unat (mh_length mh) \<le> length data" and "0 \<le> sint (mh_to mh)" and "sint (mh_to mh) < numBoxes (post A)"
    and "wire A (pk_to ph) = Some q"
  shows "\<exists>A' p. PostOffice_Send junk ph mh data A = KP (messageSent (post A)) A' (KRet 0)
    \<and> wire A' = (if lost A then wire A else (wire A)(pk_to ph \<mapsto> q @ [p])) \<and> good_packet (pk_to ph) p
    \<and> (\<forall>(B :: 'b Node_scheme) r xs. receiver_ok (pk_to ph) B \<and> wire B (pk_to ph) = Some (p # r) \<and> sint (mh_to mh) < numBoxes (post B)
         \<and> sl_holds (boxes (post B) ! nat (sint (mh_to mh))) xs \<longrightarrow>
       (\<exists>B1 B2 b. CheckPktAvail B = Inr B1 \<and> uncontended (postal_round B1) = KRet 0 B2 \<and> wire B2 = (wire B)(pk_to ph \<mapsto> r)
         \<and> receiver_ok (pk_to ph) B2 \<and> post B2 = (post B)\<lparr>boxes := (boxes (post B))[nat (sint (mh_to mh)) := b]\<rparr>
         \<and> sl_holds b (xs @ [sent_mail ph mh data A])
         \<and> (xs = [] \<longrightarrow> (\<forall>buf. length buf = MaxMailSize \<longrightarrow> (\<exists>B3. PostOffice_Receive (sint (mh_to mh)) buf B2 =
              Inr (ph\<lparr>pk_from := netAddr (post A), pk_length := mh_length mh + 12\<rparr>, mh,
                take (unat (mh_length mh)) data @ drop (unat (mh_length mh)) buf, B3))))))"
proof -
  let ?p = "packet_of junk (pktHdr (sent_mail ph mh data A)) (mail_payload junk mh data)"
  have recv: "\<exists>B3. PostOffice_Receive (sint (mh_to mh)) buf B2 = Inr (ph\<lparr>pk_from := netAddr (post A), pk_length := mh_length mh + 12\<rparr>, mh,
                take (unat (mh_length mh)) data @ drop (unat (mh_length mh)) buf, B3)"
    if "receiver_ok (pk_to ph) B2" "receiver_ok (pk_to ph) B" "post B2 = (post B)\<lparr>boxes := (boxes (post B))[nat (sint (mh_to mh)) := b]\<rparr>"
      "sl_holds b [sent_mail ph mh data A]" "length buf = MaxMailSize" "sint (mh_to mh) < numBoxes (post B)" for buf b and B B2 :: "'b Node_scheme"
  proof -
    have "nat (sint (mh_to mh)) < length (boxes (post B))" using that(2,6) assms(5) by (simp add: receiver_ok_def nat_less_iff)
    then have "sl_holds (boxes (post B2) ! nat (sint (mh_to mh))) [sent_mail ph mh data A]" using that(3,4) by simp
    then show ?thesis
      using PostOffice_Receive_spec[OF that(1) assms(5), of "sent_mail ph mh data A" "[]" buf] that(3,5,6) assms(3,4)
      by (auto simp: sent_mail_def)
  qed
  obtain ps where ps: "PostOffice_Send junk ph mh data A = KP (messageSent (post A)) (A\<lparr>pending := ps, net_random_pos := net_random_pos A + 1,
     wire := (if lost A then wire A else (wire A)(pk_to ph \<mapsto> q @ [?p]))\<rparr>) (KRet 0)"
    using PostOffice_Send_spec[OF assms] by blast
  have del: "\<exists>B1 B2 b. CheckPktAvail B = Inr B1 \<and> uncontended (postal_round B1) = KRet 0 B2 \<and> wire B2 = (wire B)(pk_to ph \<mapsto> r)
         \<and> receiver_ok (pk_to ph) B2 \<and> post B2 = (post B)\<lparr>boxes := (boxes (post B))[nat (sint (mh_to mh)) := b]\<rparr>
         \<and> sl_holds b (xs @ [sent_mail ph mh data A])
         \<and> (xs = [] \<longrightarrow> (\<forall>buf. length buf = MaxMailSize \<longrightarrow> (\<exists>B3. PostOffice_Receive (sint (mh_to mh)) buf B2 =
              Inr (ph\<lparr>pk_from := netAddr (post A), pk_length := mh_length mh + 12\<rparr>, mh,
                take (unat (mh_length mh)) data @ drop (unat (mh_length mh)) buf, B3))))"
    if B: "receiver_ok (pk_to ph) B" "wire B (pk_to ph) = Some (?p # r)" "sint (mh_to mh) < numBoxes (post B)"
      "sl_holds (boxes (post B) ! nat (sint (mh_to mh))) xs" for B :: "'b Node_scheme" and r xs
  proof -
    obtain B1 B2 b where *: "CheckPktAvail B = Inr B1" "uncontended (postal_round B1) = KRet 0 B2" "wire B2 = (wire B)(pk_to ph \<mapsto> r)"
        "receiver_ok (pk_to ph) B2" "post B2 = (post B)\<lparr>boxes := (boxes (post B))[nat (sint (mh_to mh)) := b]\<rparr>"
        "sl_holds b (xs @ [sent_mail ph mh data A])" using mail_delivered[OF assms(3-5) B(1,3,4,2)] by blast
    have "sl_holds b [sent_mail ph mh data A]" if "xs = []" using *(6) that by simp
    then show ?thesis using * recv[OF *(4) B(1) *(5) _ _ B(3)] by blast
  qed
  have good: "good_packet (pk_to ph) ?p"
    using good_packet_of[of "pktHdr (sent_mail ph mh data A)" "mail_payload junk mh data" junk] unat_plus_12[OF assms(3)] assms(3,4)
    by (simp add: sent_mail_def mail_payload_def net_sizes)
  show ?thesis
    by (rule exI, rule exI[of _ ?p], intro conjI allI impI, rule ps) (simp, rule good, elim conjE, rule del)
qed

text \<open>Two machines for the witness; the network loses nothing.\<close>

definition demo_node :: "word32 \<Rightarrow> Wire \<Rightarrow> Node" where
  "demo_node a w = Kernel.extend (snd (Semaphore_new ''s'' 0 (snd (Semaphore_new ''m'' 0 (Kernel_boot (\<lambda>_. 0))))))
     \<lparr>wire = w, net_randoms = (\<lambda>_. 0), net_random_pos = 0,
      network = \<lparr>ident = a, chanceToWork = 1, sendBusy = False, inHdr = \<lparr>pk_to = 0, pk_from = 0, pk_length = 0\<rparr>, inbox = replicate MaxPacketSize 0\<rparr>,
      post = \<lparr>netAddr = a, numBoxes = 10, boxes = replicate 10 MailBox_new, messageAvailable = 0, messageSent = 1\<rparr>,
      post_buffer = replicate MaxPacketSize 0\<rparr>"

lemma demo_node_fields:
  "network (demo_node a w) = \<lparr>ident = a, chanceToWork = 1, sendBusy = False, inHdr = \<lparr>pk_to = 0, pk_from = 0, pk_length = 0\<rparr>, inbox = replicate MaxPacketSize 0\<rparr>"
  "post (demo_node a w) = \<lparr>netAddr = a, numBoxes = 10, boxes = replicate 10 MailBox_new, messageAvailable = 0, messageSent = 1\<rparr>"
  "wire (demo_node a w) = w" "post_buffer (demo_node a w) = replicate MaxPacketSize 0" "\<not> lost (demo_node a w)"
  by (simp_all add: demo_node_def Kernel.defs lost_def)

lemma demo_node_ok:
  assumes "\<And>q p. w a = Some q \<Longrightarrow> p \<in> set q \<Longrightarrow> good_packet a p"
  shows "receiver_ok a (demo_node a w)"
proof -
  have "env_ok (demo_node a w)" "queues_live (demo_node a w)" "machine (demo_node a w) = None"
      "sems (demo_node a w) 0 \<noteq> None" "sems (demo_node a w) 1 \<noteq> None" "value_of (demo_node a w) 0 = 0"
    by (auto simp: demo_node_def demo_sys_defs env_ok_def queues_live_def value_of_def split: if_splits)
  then show ?thesis using assms by (simp add: receiver_ok_def net_inv_def demo_node_fields)
qed

theorem mail_round_trip_witness:
  "\<exists>A' B1 B2 B3. PostOffice_Send (\<lambda>_. 0) \<lparr>pk_to = 2, pk_from = 0, pk_length = 0\<rparr> \<lparr>mh_to = 3, mh_from = 4, mh_length = 2\<rparr> [72, 105]
      (demo_node 1 [2 \<mapsto> []]) = KP 1 A' (KRet 0)
    \<and> CheckPktAvail (demo_node 2 (wire A')) = Inr B1 \<and> uncontended (postal_round B1) = KRet 0 B2
    \<and> PostOffice_Receive 3 (replicate MaxMailSize 0) B2 = Inr (\<lparr>pk_to = 2, pk_from = 1, pk_length = 14\<rparr>,
        \<lparr>mh_to = 3, mh_from = 4, mh_length = 2\<rparr>, [72, 105] @ replicate 38 0, B3)"
proof -
  let ?A = "demo_node 1 [2 \<mapsto> []]" and ?ph = "\<lparr>pk_to = 2, pk_from = 0, pk_length = 0\<rparr> :: PacketHeader"
  let ?mh = "\<lparr>mh_to = 3, mh_from = 4, mh_length = 2\<rparr> :: MailHeader"
  have hyp: "\<not> sendBusy (network ?A)" "netAddr (post ?A) = ident (network ?A)" "unat (mh_length ?mh) \<le> MaxMailSize"
    "unat (mh_length ?mh) \<le> length [72, 105 :: byte]" "0 \<le> sint (mh_to ?mh)" "sint (mh_to ?mh) < numBoxes (post ?A)" "wire ?A (pk_to ?ph) = Some []"
    by (simp_all add: demo_node_fields net_sizes)
  obtain A' p where A': "PostOffice_Send (\<lambda>_. 0) ?ph ?mh [72, 105] ?A = KP (messageSent (post ?A)) A' (KRet 0)"
      "wire A' = (if lost ?A then wire ?A else (wire ?A)(pk_to ?ph \<mapsto> [] @ [p]))" "good_packet (pk_to ?ph) p"
    and B: "\<forall>(B :: Node) r xs. receiver_ok (pk_to ?ph) B \<and> wire B (pk_to ?ph) = Some (p # r) \<and> sint (mh_to ?mh) < numBoxes (post B)
         \<and> sl_holds (boxes (post B) ! nat (sint (mh_to ?mh))) xs \<longrightarrow>
       (\<exists>B1 B2 b. CheckPktAvail B = Inr B1 \<and> uncontended (postal_round B1) = KRet 0 B2 \<and> wire B2 = (wire B)(pk_to ?ph \<mapsto> r)
         \<and> receiver_ok (pk_to ?ph) B2 \<and> post B2 = (post B)\<lparr>boxes := (boxes (post B))[nat (sint (mh_to ?mh)) := b]\<rparr>
         \<and> sl_holds b (xs @ [sent_mail ?ph ?mh [72, 105] ?A])
         \<and> (xs = [] \<longrightarrow> (\<forall>buf. length buf = MaxMailSize \<longrightarrow> (\<exists>B3. PostOffice_Receive (sint (mh_to ?mh)) buf B2 =
              Inr (?ph\<lparr>pk_from := netAddr (post ?A), pk_length := mh_length ?mh + 12\<rparr>, ?mh,
                take (unat (mh_length ?mh)) [72, 105] @ drop (unat (mh_length ?mh)) buf, B3)))))"
    using mail_round_trip[OF hyp, where junk = "\<lambda>_. 0" and 'b = unit] by (elim exE conjE) (rule that)
  have w: "wire A' = [2 \<mapsto> [p]]" using A'(2) by (simp add: demo_node_fields)
  have rok: "receiver_ok 2 (demo_node 2 [2 \<mapsto> [p]])" by (rule demo_node_ok) (use A'(3) in \<open>auto split: if_splits\<close>)
  have "receiver_ok (pk_to ?ph) (demo_node 2 (wire A')) \<and> wire (demo_node 2 (wire A')) (pk_to ?ph) = Some (p # [])
      \<and> sint (mh_to ?mh) < numBoxes (post (demo_node 2 (wire A'))) \<and> sl_holds (boxes (post (demo_node 2 (wire A'))) ! nat (sint (mh_to ?mh))) []"
    using rok by (simp add: w demo_node_fields MailBox_new_def)
  then obtain B1 B2 where B12: "CheckPktAvail (demo_node 2 (wire A')) = Inr B1" "uncontended (postal_round B1) = KRet 0 B2"
    and "\<forall>buf. length buf = MaxMailSize \<longrightarrow> (\<exists>B3. PostOffice_Receive (sint (mh_to ?mh)) buf B2 =
              Inr (?ph\<lparr>pk_from := netAddr (post ?A), pk_length := mh_length ?mh + 12\<rparr>, ?mh,
                take (unat (mh_length ?mh)) [72, 105] @ drop (unat (mh_length ?mh)) buf, B3))"
    using B by blast
  from this(3)[rule_format, of "replicate MaxMailSize 0", OF length_replicate] obtain B3 where
      "PostOffice_Receive (sint (mh_to ?mh)) (replicate MaxMailSize 0) B2 = Inr (?ph\<lparr>pk_from := netAddr (post ?A), pk_length := mh_length ?mh + 12\<rparr>, ?mh,
                take (unat (mh_length ?mh)) [72, 105] @ drop (unat (mh_length ?mh)) (replicate MaxMailSize 0), B3)" by (elim exE)
  moreover have "sint (mh_to ?mh) = 3" "netAddr (post ?A) = 1" "take (unat (mh_length ?mh)) [72, 105 :: byte] = [72, 105]"
      "drop (unat (mh_length ?mh)) (replicate MaxMailSize (0 :: byte)) = replicate 38 0" "mh_length ?mh + 12 = 14" "messageSent (post ?A) = 1"
    by (simp_all add: demo_node_fields net_sizes)
  moreover have "?ph\<lparr>pk_from := 1, pk_length := 14\<rparr> = \<lparr>pk_to = 2, pk_from = 1, pk_length = 14\<rparr>" by simp
  ultimately have B3: "PostOffice_Receive 3 (replicate MaxMailSize 0) B2 = Inr (\<lparr>pk_to = 2, pk_from = 1, pk_length = 14\<rparr>, ?mh, [72, 105] @ replicate 38 0, B3)"
      "PostOffice_Send (\<lambda>_. 0) ?ph ?mh [72, 105] ?A = KP 1 A' (KRet 0)" using A'(1) by (simp_all only:)
  from B3(2) B12 B3(1) show ?thesis by (intro exI conjI)
qed

end
