(* ===== verification/Nachos_Coff.thy ===== *)
theory Nachos_Coff
  imports Nachos_AddrSpace
begin

text \<open>
  bin/coff2noff.c and bin/coff.h: the converter that makes the executables the kernel loads, from the COFF files of
  the cross compiler.

  The input is the list of its bytes, and the program either writes a file or exits with status 1 for one of the
  reasons of \<open>CoffError\<close>. As in the kernel, an \<open>int\<close> and a \<open>long\<close> have 32 bits, which the layout of the structures of
  coff.h relies on. What is uninitialised in the header is the argument \<open>jh\<close>. C12 relates the two ends: the
  image that the loader builds from the converted file is the text and the data section of the COFF file.
\<close>

section \<open>The converter\<close>

datatype CoffError = CannotOpen | TooShort | CannotWrite | NotMipsel | NotOmagic | BothData | BothBss | UnknownSegment

definition bindE :: "'e + 'a \<Rightarrow> ('a \<Rightarrow> 'e + 'b) \<Rightarrow> 'e + 'b" where
  "bindE m f = (case m of Inl e \<Rightarrow> Inl e | Inr x \<Rightarrow> f x)"

lemma bindE_simps [simp]: "bindE (Inr x) f = f x" "bindE (Inl e) f = Inl e"
  by (simp_all add: bindE_def)

lemma bindE_eq_Inr: "bindE m f = Inr y \<longleftrightarrow> (\<exists>x. m = Inr x \<and> f x = Inr y)"
  by (cases m) auto

fun forE :: "('i \<Rightarrow> 's \<Rightarrow> 'e + 's) \<Rightarrow> 'i list \<Rightarrow> 's \<Rightarrow> 'e + 's" where
  "forE f [] s = Inr s"
| "forE f (i # is) s = bindE (f i s) (forE f is)"

definition MIPSELMAGIC :: word32 where "MIPSELMAGIC = 0x0162"
definition OMAGIC :: word32 where "OMAGIC = 0x107"

text \<open>The fields the converter uses of \<open>struct scnhdr\<close>.\<close>

record Scnhdr =
  s_name :: "byte list"
  s_paddr :: word32
  s_size :: word32
  s_scnptr :: word32

definition short_at :: "byte list \<Rightarrow> nat \<Rightarrow> word32" where
  "short_at bs k = le_word (take 2 (drop k bs))"

definition Scnhdr_at :: "byte list \<Rightarrow> nat \<Rightarrow> Scnhdr" where
  "Scnhdr_at bs k = \<lparr>s_name = take 8 (drop k bs), s_paddr = WordToHost (word_at bs (k + 8)), s_size = WordToHost (word_at bs (k + 16)),
     s_scnptr = WordToHost (word_at bs (k + 20))\<rparr>"

text \<open>\<open>!strcmp(s_name, n)\<close> for a name shorter than the field.\<close>

definition named :: "string \<Rightarrow> Scnhdr \<Rightarrow> bool" where
  "named n sec \<longleftrightarrow> take (length n + 1) (s_name sec) = map of_char n @ [0]"

text \<open>\<open>Read\<close> and \<open>Write\<close> end the program unless the host's call returns the count asked for. A call with a negative
  count does nothing and returns -1.\<close>

definition coff_Read :: "byte list \<Rightarrow> int \<Rightarrow> nat \<Rightarrow> CoffError + byte list \<times> nat" where
  "coff_Read c n pos =
    (if n = -1 then Inr ([], pos) else if n < 0 \<or> n > 0 \<and> int pos + n > int (length c) then Inl TooShort
     else Inr (take (nat n) (drop pos c), pos + nat n))"

definition coff_Write :: "byte list \<Rightarrow> int \<Rightarrow> byte list option \<Rightarrow> CoffError + byte list option" where
  "coff_Write bs n out = (if n = -1 then Inr out else (case out of None \<Rightarrow> Inl CannotWrite | Some b \<Rightarrow> Inr (Some (b @ bs))))"

definition lseek_in :: "word32 \<Rightarrow> nat \<Rightarrow> nat" where
  "lseek_in off pos = (if sint off < 0 then pos else nat (sint off))"

text \<open>The state of the loop: the offset in the input, what has been written behind the header (\<open>None\<close> if the output
  could not be opened), and the variables \<open>noffH\<close> and \<open>inNoffFile\<close>.\<close>

record Conv =
  cv_pos :: nat
  cv_out :: "byte list option"
  noffH :: NoffHeader
  inNoffFile :: word32

text \<open>The copying of a segment, the same for text and data.\<close>

definition copy_section :: "byte list \<Rightarrow> Scnhdr \<Rightarrow> Conv \<Rightarrow> CoffError + Conv" where
  "copy_section c sec st =
    bindE (coff_Read c (sint (s_size sec)) (lseek_in (s_scnptr sec) (cv_pos st))) (\<lambda>(buffer, pos).
    bindE (coff_Write buffer (sint (s_size sec)) (cv_out st)) (\<lambda>out.
    Inr (st\<lparr>cv_pos := pos, cv_out := out, inNoffFile := inNoffFile st + s_size sec\<rparr>)))"

definition file_segment :: "Scnhdr \<Rightarrow> Conv \<Rightarrow> Segment" where
  "file_segment sec st = \<lparr>virtualAddr = s_paddr sec, inFileAddr = inNoffFile st, seg_size = s_size sec\<rparr>"

definition convert_section :: "byte list \<Rightarrow> Scnhdr \<Rightarrow> Conv \<Rightarrow> CoffError + Conv" where
  "convert_section c sec st = (let h = noffH st in
    if s_size sec = 0 then Inr st
    else if named ''.text'' sec then copy_section c sec (st\<lparr>noffH := h\<lparr>code := file_segment sec st\<rparr>\<rparr>)
    else if named ''.data'' sec \<or> named ''.rdata'' sec then
      if seg_size (initData h) \<noteq> 0 then Inl BothData
      else copy_section c sec (st\<lparr>noffH := h\<lparr>initData := file_segment sec st\<rparr>\<rparr>)
    else if named ''.bss'' sec \<or> named ''.sbss'' sec then
      if seg_size (uninitData h) \<noteq> 0 then
        if s_paddr sec = virtualAddr (uninitData h) + seg_size (uninitData h) then Inl BothBss
        else Inr (st\<lparr>noffH := h\<lparr>uninitData := (uninitData h)\<lparr>seg_size := seg_size (uninitData h) + s_size sec\<rparr>\<rparr>\<rparr>)
      else Inr (st\<lparr>noffH := h\<lparr>uninitData := (uninitData h)\<lparr>virtualAddr := s_paddr sec, seg_size := s_size sec\<rparr>\<rparr>\<rparr>)
    else Inl UnknownSegment)"

definition Segment_bytes :: "Segment \<Rightarrow> byte list" where
  "Segment_bytes g = le_bytes 4 (virtualAddr g) @ le_bytes 4 (inFileAddr g) @ le_bytes 4 (seg_size g)"

definition NoffHeader_bytes :: "NoffHeader \<Rightarrow> byte list" where
  "NoffHeader_bytes h = le_bytes 4 (noffMagic h) @ Segment_bytes (code h) @ Segment_bytes (initData h) @ Segment_bytes (uninitData h)"

definition no_segments :: "NoffHeader \<Rightarrow> NoffHeader" where
  "no_segments jh = \<lparr>noffMagic = NOFFMAGIC, code = (code jh)\<lparr>seg_size := 0\<rparr>, initData = (initData jh)\<lparr>seg_size := 0\<rparr>,
     uninitData = (uninitData jh)\<lparr>seg_size := 0\<rparr>\<rparr>"

text \<open>The section headers follow the file header (20 bytes) and the system header (56 bytes).\<close>

definition sections_of :: "byte list \<Rightarrow> Scnhdr list" where
  "sections_of c = map (\<lambda>i. Scnhdr_at c (76 + 40 * i)) [0..<unat (short_at c 2)]"

text \<open>The program: \<open>input\<close> is \<open>None\<close> if the input cannot be opened, \<open>out_ok\<close> says whether the output can. The test
  after the second \<open>open\<close> looks at the first descriptor, so that a failure shows only when something is written.\<close>

definition coff2noff :: "NoffHeader \<Rightarrow> byte list option \<Rightarrow> bool \<Rightarrow> CoffError + byte list" where
  "coff2noff jh input out_ok = (case input of None \<Rightarrow> Inl CannotOpen | Some c \<Rightarrow>
    bindE (coff_Read c 20 0) (\<lambda>(_, pos).
    if short_at c 0 \<noteq> MIPSELMAGIC then Inl NotMipsel else
    bindE (coff_Read c 56 pos) (\<lambda>(_, pos).
    if short_at c 20 \<noteq> OMAGIC then Inl NotOmagic else
    bindE (coff_Read c (40 * int (unat (short_at c 2))) pos) (\<lambda>(_, pos).
    bindE (forE (convert_section c) (sections_of c)
      \<lparr>cv_pos = pos, cv_out = (if out_ok then Some [] else None), noffH = no_segments jh, inNoffFile = 40\<rparr>) (\<lambda>st.
    case cv_out st of None \<Rightarrow> Inl CannotWrite | Some body \<Rightarrow> Inr (NoffHeader_bytes (noffH st) @ body))))))"

section \<open>The converted file\<close>

text \<open>Reading a COFF file without the converter: its text, data and bss sections, and the bytes of a section.\<close>

definition is_text :: "Scnhdr \<Rightarrow> bool" where "is_text sec \<longleftrightarrow> s_size sec \<noteq> 0 \<and> named ''.text'' sec"
definition is_data :: "Scnhdr \<Rightarrow> bool" where "is_data sec \<longleftrightarrow> s_size sec \<noteq> 0 \<and> (named ''.data'' sec \<or> named ''.rdata'' sec)"
definition is_bss :: "Scnhdr \<Rightarrow> bool" where "is_bss sec \<longleftrightarrow> s_size sec \<noteq> 0 \<and> (named ''.bss'' sec \<or> named ''.sbss'' sec)"

definition section_bytes :: "byte list \<Rightarrow> Scnhdr \<Rightarrow> byte list" where
  "section_bytes c sec = take (unat (s_size sec)) (drop (unat (s_scnptr sec)) c)"

definition sizes :: "Scnhdr list \<Rightarrow> nat" where "sizes secs = (\<Sum>sec\<leftarrow>secs. unat (s_size sec))"

lemma sizes_simps [simp]: "sizes [] = 0" "sizes (x # xs) = unat (s_size x) + sizes xs" "sizes (xs @ ys) = sizes xs + sizes ys"
  by (simp_all add: sizes_def)

lemma named_eqD: "named n sec \<Longrightarrow> named n' sec \<Longrightarrow> 0 \<notin> set (map of_char n :: byte list) \<Longrightarrow> 0 \<notin> set (map of_char n' :: byte list)
  \<Longrightarrow> (map of_char n :: byte list) = map of_char n'"
proof -
  assume a: "named n sec" "named n' sec" "0 \<notin> set (map of_char n :: byte list)" "0 \<notin> set (map of_char n' :: byte list)"
  have "takeWhile (\<lambda>b. b \<noteq> 0) (s_name sec) = map of_char k" if "named k sec" "0 \<notin> set (map of_char k :: byte list)" for k
  proof -
    have "s_name sec = (map of_char k @ [0]) @ drop (length k + 1) (s_name sec)"
      using that(1) by (metis append_take_drop_id named_def)
    then show ?thesis using that(2)
      by (smt (verit, best) append_Cons append_assoc append_self_conv takeWhile.simps(2) takeWhile_append2)
  qed
  then show ?thesis using a by metis
qed

lemma one_kind: "is_text sec \<Longrightarrow> \<not> is_data sec \<and> \<not> is_bss sec" "is_data sec \<Longrightarrow> \<not> is_text sec \<and> \<not> is_bss sec" "is_bss sec \<Longrightarrow> \<not> is_text sec \<and> \<not> is_data sec"
  unfolding is_text_def is_data_def is_bss_def by (auto dest: named_eqD)

lemma forE_rule:
  assumes "forE f xs s = Inr s'" and "I [] s"
    and step: "\<And>pre x post s s'. xs = pre @ x # post \<Longrightarrow> I pre s \<Longrightarrow> f x s = Inr s' \<Longrightarrow> I (pre @ [x]) s'"
  shows "I xs s'"
proof -
  have "forE f ys s = Inr s' \<Longrightarrow> I pre s \<Longrightarrow> xs = pre @ ys \<Longrightarrow> I xs s'" for pre ys s
  proof (induction ys arbitrary: pre s)
    case (Cons y ys)
    then obtain s1 where "f y s = Inr s1" "forE f ys s1 = Inr s'" by (auto simp: bindE_eq_Inr)
    then show ?case using Cons.IH[of s1 "pre @ [y]"] step[of pre y ys s s1] Cons.prems(2,3) by simp
  qed simp
  from this[of xs s "[]"] show ?thesis using assms(1,2) by simp
qed

text \<open>What the converter knows after the sections \<open>pre\<close>: where in the body written so far the last text section and the
  data section are.\<close>

definition seg_holds :: "byte list \<Rightarrow> Scnhdr list \<Rightarrow> byte list \<Rightarrow> Segment \<Rightarrow> bool" where
  "seg_holds c secs body g \<longleftrightarrow> (if secs = [] then seg_size g = 0 else \<exists>k.
     virtualAddr g = s_paddr (List.last secs) \<and> seg_size g = s_size (List.last secs) \<and> inFileAddr g = word_of_nat (40 + k)
     \<and> k + unat (seg_size g) \<le> length body \<and> take (unat (seg_size g)) (drop k body) = section_bytes c (List.last secs))"

definition conv_holds :: "byte list \<Rightarrow> Scnhdr list \<Rightarrow> Conv \<Rightarrow> bool" where
  "conv_holds c pre st \<longleftrightarrow> (\<forall>body. cv_out st = Some body \<longrightarrow>
     inNoffFile st = word_of_nat (40 + length body) \<and> length body \<le> sizes pre \<and> noffMagic (noffH st) = NOFFMAGIC
     \<and> seg_holds c (filter is_text pre) body (code (noffH st)) \<and> seg_holds c (filter is_data pre) body (initData (noffH st))
     \<and> length (filter is_data pre) \<le> 1 \<and> usize (noffH st) = sizes (filter is_bss pre))"

lemma seg_holds_grow:
  assumes "seg_holds c secs body g"
  shows "seg_holds c secs (body @ bs) g"
proof (cases "secs = []")
  case False
  then obtain k where "virtualAddr g = s_paddr (List.last secs)" "seg_size g = s_size (List.last secs)" "inFileAddr g = word_of_nat (40 + k)"
      "k + unat (seg_size g) \<le> length body" "take (unat (seg_size g)) (drop k body) = section_bytes c (List.last secs)"
    using assms by (auto simp: seg_holds_def)
  then show ?thesis using False by (auto simp: seg_holds_def intro!: exI[of _ k])
qed (use assms in \<open>simp add: seg_holds_def\<close>)

lemma seg_holds_snoc:
  "length bs = unat (s_size sec) \<Longrightarrow> bs = section_bytes c sec
    \<Longrightarrow> seg_holds c (secs @ [sec]) (body @ bs) \<lparr>virtualAddr = s_paddr sec, inFileAddr = word_of_nat (40 + length body), seg_size = s_size sec\<rparr>"
  by (auto simp: seg_holds_def intro!: exI[of _ "length body"])

lemma copy_section_ok:
  assumes "copy_section c sec st = Inr st'" and "s_size sec \<noteq> 0" and "unat (s_size sec) < 2 ^ 31" and "0 \<le> sint (s_scnptr sec)"
  shows "(\<forall>body'. cv_out st' = Some body' \<longrightarrow> (\<exists>body. cv_out st = Some body \<and> body' = body @ section_bytes c sec))
    \<and> length (section_bytes c sec) = unat (s_size sec) \<and> noffH st' = noffH st \<and> inNoffFile st' = inNoffFile st + s_size sec"
proof -
  define n k where nk: "n = unat (s_size sec)" "k = unat (s_scnptr sec)"
  have i: "sint (s_size sec) = int n" unfolding nk using assms(3) by (intro sint_small_nat) simp
  have p: "nat (sint (s_scnptr sec)) = k" unfolding nk using assms(4) sint_neg_iff[of "s_scnptr sec"] by (simp add: sint_uint32)
  have "0 < n" using assms(2) by (simp add: nk unat_gt_0)
  then show ?thesis using assms(1,4)
    by (auto simp: copy_section_def bindE_eq_Inr coff_Read_def coff_Write_def lseek_in_def i p section_bytes_def nk(1,2)[symmetric]
        split: if_splits option.splits)
qed

lemma convert_step:
  assumes inv: "conv_holds c pre st" and run: "convert_section c sec st = Inr st'" and p: "0 \<le> sint (s_scnptr sec)"
    and small: "sizes (pre @ [sec]) < 2 ^ 31"
  shows "conv_holds c (pre @ [sec]) st'"
proof (cases "s_size sec = 0")
  case True
  then show ?thesis using inv run by (simp add: convert_section_def conv_holds_def is_text_def is_data_def is_bss_def)
next
  case False
  have sz: "unat (s_size sec) < 2 ^ 31" using small by simp
  consider (t) "is_text sec" | (d) "is_data sec" "\<not> is_text sec" | (b) "is_bss sec" "\<not> is_text sec" "\<not> is_data sec"
    using run False by (auto simp: convert_section_def Let_def is_text_def is_data_def is_bss_def split: if_splits)
  then show ?thesis
  proof cases
    case t
    then have "copy_section c sec (st\<lparr>noffH := (noffH st)\<lparr>code := file_segment sec st\<rparr>\<rparr>) = Inr st'"
      using run False by (simp add: convert_section_def is_text_def Let_def)
    from copy_section_ok[OF this False sz p] show ?thesis
      using inv t one_kind(1)[OF t] seg_holds_snoc[of "section_bytes c sec" sec c]
      by (fastforce simp: conv_holds_def file_segment_def seg_holds_grow add.assoc)
  next
    case d
    then have r: "copy_section c sec (st\<lparr>noffH := (noffH st)\<lparr>initData := file_segment sec st\<rparr>\<rparr>) = Inr st'" "seg_size (initData (noffH st)) = 0"
      using run False by (auto simp: convert_section_def is_text_def is_data_def Let_def split: if_splits)
    have "filter is_data pre = []" if "cv_out st = Some body" for body
    proof (rule ccontr)
      assume "filter is_data pre \<noteq> []"
      moreover from this have "is_data (List.last (filter is_data pre))" using last_in_set[of "filter is_data pre"] by auto
      ultimately show False using inv that r(2) by (auto simp: conv_holds_def seg_holds_def is_data_def)
    qed
    with copy_section_ok[OF r(1) False sz p] show ?thesis
      using inv d one_kind(2)[OF d(1)] seg_holds_snoc[of "section_bytes c sec" sec c "[]"]
      by (fastforce simp: conv_holds_def file_segment_def seg_holds_grow add.assoc)
  next
    case b
    have "unat (seg_size (uninitData (noffH st)) + s_size sec) = usize (noffH st) + unat (s_size sec)" if "usize (noffH st) \<le> sizes pre"
      using that small by (intro unat_add_lem[THEN iffD1]) simp
    moreover have "sizes (filter is_bss pre) \<le> sizes pre" for pre by (induction pre) auto
    ultimately show ?thesis using inv run b False
      by (auto simp: convert_section_def is_text_def is_data_def is_bss_def conv_holds_def Let_def split: if_splits)
  qed
qed

lemma length_NoffHeader_bytes [simp]: "length (NoffHeader_bytes h) = 40"
  by (simp add: NoffHeader_bytes_def Segment_bytes_def)

lemma NoffHeader_of_bytes: "NoffHeader_of (NoffHeader_bytes h @ body) = h"
  by (cases h) (simp add: NoffHeader_of_def NoffHeader_bytes_def Segment_at_def Segment_bytes_def word_at_def)

lemma coff2noff_cases:
  assumes "coff2noff jh (Some c) out_ok = Inr out"
  obtains pos st body where "forE (convert_section c) (sections_of c)
      \<lparr>cv_pos = pos, cv_out = (if out_ok then Some [] else None), noffH = no_segments jh, inNoffFile = 40\<rparr> = Inr st"
    "cv_out st = Some body" "out = NoffHeader_bytes (noffH st) @ body"
  using assms by (auto simp: coff2noff_def bindE_eq_Inr split: if_splits option.splits)

lemma seg_holds_nth:
  assumes "seg_holds c secs body g" and "length hdr = 40" and "40 + length body < 2 ^ 32" and "i < unat (seg_size g)"
  shows "(hdr @ body) ! (unat (inFileAddr g) + i) = section_bytes c (List.last secs) ! i" "secs \<noteq> []"
proof -
  show "secs \<noteq> []" using assms(1,4) by (auto simp: seg_holds_def)
  then obtain k where "inFileAddr g = word_of_nat (40 + k)" "k + unat (seg_size g) \<le> length body"
      "take (unat (seg_size g)) (drop k body) = section_bytes c (List.last secs)"
    using assms(1) by (auto simp: seg_holds_def)
  moreover from this have "unat (inFileAddr g) = 40 + k" using assms(3) by (simp add: unat_of_nat take_bit_nat_eq_self del: of_nat_add)
  ultimately show "(hdr @ body) ! (unat (inFileAddr g) + i) = section_bytes c (List.last secs) ! i"
    using assms(2,4) by (metis (no_types, lifting) add.assoc length_append nth_append_length_plus nth_drop nth_take add_leD1 diff_add_inverse le_diff_conv2 nth_append)
qed

lemma seg_holds_bounds:
  assumes "seg_holds c secs body g" and "40 + length body < 2 ^ 32"
  shows "unat (seg_size g) = length (if secs = [] then [] else section_bytes c (List.last secs))"
    "secs \<noteq> [] \<Longrightarrow> unat (inFileAddr g) + unat (seg_size g) \<le> 40 + length body \<and> virtualAddr g = s_paddr (List.last secs)"
proof -
  show "unat (seg_size g) = length (if secs = [] then [] else section_bytes c (List.last secs))"
    using assms(1) by (auto simp: seg_holds_def dest!: arg_cong[of "take _ _" _ length])
  assume "secs \<noteq> []"
  then obtain k where k: "inFileAddr g = word_of_nat (40 + k)" "k + unat (seg_size g) \<le> length body" "virtualAddr g = s_paddr (List.last secs)"
    using assms(1) by (auto simp: seg_holds_def)
  then have "unat (inFileAddr g) = 40 + k" using assms(2) by (simp add: unat_of_nat take_bit_nat_eq_self del: of_nat_add)
  then show "unat (inFileAddr g) + unat (seg_size g) \<le> 40 + length body \<and> virtualAddr g = s_paddr (List.last secs)" using k by simp
qed

lemma concat_le_one: "length xs \<le> 1 \<Longrightarrow> concat (map f xs) = (if xs = [] then [] else f (List.last xs))"
  by (cases xs) auto

lemma segments_image:
  assumes cd: "seg_holds c ts body (code h)" and dt: "seg_holds c ds body (initData h)" and lim: "length hdr = 40" "40 + length body < 2 ^ 32"
  shows "prog_image h (hdr @ body) v = (let im = (if ts = [] then [] else section_bytes c (List.last ts)) @ (if ds = [] then [] else section_bytes c (List.last ds))
    in if v < length im then im ! v else 0)"
proof -
  have cs: "length (if ts = [] then [] else section_bytes c (List.last ts)) = csize h" and ds: "length (if ds = [] then [] else section_bytes c (List.last ds)) = dsize h"
    using seg_holds_bounds(1)[OF cd lim(2)] seg_holds_bounds(1)[OF dt lim(2)] by simp_all
  consider (c) "v < csize h" | (d) "csize h \<le> v" "v < csize h + dsize h" | (z) "csize h + dsize h \<le> v" by linarith
  then show ?thesis
  proof cases
    case c
    then show ?thesis using seg_holds_nth[OF cd lim c] cs by (simp add: prog_image_def Let_def nth_append_left)
  next
    case d
    then have i: "v - csize h < dsize h" by simp
    have "prog_image h (hdr @ body) v = (hdr @ body) ! (unat (inFileAddr (initData h)) + (v - csize h))" using d by (simp add: prog_image_def)
    also have "\<dots> = (if ds = [] then [] else section_bytes c (List.last ds)) ! (v - csize h)" using seg_holds_nth[OF dt lim i] by simp
    finally show ?thesis using d cs ds by (simp add: Let_def nth_append_right)
  next
    case z
    then show ?thesis using cs ds by (simp add: prog_image_def Let_def)
  qed
qed

lemma kinds_le: "sizes (filter is_text secs) + sizes (filter is_data secs) + sizes (filter is_bss secs) \<le> sizes secs"
proof (induction secs)
  case (Cons sec secs)
  have "\<not> (is_text sec \<and> is_data sec) \<and> \<not> (is_text sec \<and> is_bss sec) \<and> \<not> (is_data sec \<and> is_bss sec)" using one_kind by blast
  then show ?case using Cons.IH by (simp split: if_split)
qed simp

lemma section_bytes_le: "length (concat (map (section_bytes c) secs)) \<le> sizes secs"
  by (induction secs) (auto simp: section_bytes_def)

text \<open>
  C12. The converter and the loader agree. If the converter succeeds on a COFF file whose sections together
  stay below 2 GB and whose text is linked at 0, then what it writes is a NOFF file that meets the
  conditions under which the loader works (C35), and the image of that file is the text section of the COFF file, right after it
  its one data section, if it has one, and zeros from there on. The size of the uninitialised data is the sum over all bss sections.
\<close>

theorem coff2noff_image:
  assumes run: "coff2noff jh (Some c) out_ok = Inr out" and p: "\<forall>sec\<in>set (sections_of c). 0 \<le> sint (s_scnptr sec)"
    and small: "sizes (sections_of c) + 2048 < 2 ^ 31"
    and t: "filter is_text (sections_of c) = texts @ [t]" "s_paddr t = 0"
  shows "noffMagic (NoffHeader_of out) = NOFFMAGIC \<and> prog_ok (NoffHeader_of out) out
    \<and> usize (NoffHeader_of out) = sizes (filter is_bss (sections_of c))
    \<and> prog_image (NoffHeader_of out) out v =
       (let im = section_bytes c t @ concat (map (section_bytes c) (filter is_data (sections_of c))) in if v < length im then im ! v else 0)"
proof -
  let ?secs = "sections_of c"
  obtain pos st body where st: "forE (convert_section c) ?secs
      \<lparr>cv_pos = pos, cv_out = (if out_ok then Some [] else None), noffH = no_segments jh, inNoffFile = 40\<rparr> = Inr st"
    "cv_out st = Some body" "out = NoffHeader_bytes (noffH st) @ body" by (rule coff2noff_cases[OF run])
  have "conv_holds c ?secs st"
  proof (rule forE_rule[OF st(1)])
    show "conv_holds c [] \<lparr>cv_pos = pos, cv_out = (if out_ok then Some [] else None), noffH = no_segments jh, inNoffFile = 40\<rparr>"
      by (auto simp: conv_holds_def seg_holds_def no_segments_def)
    show "conv_holds c (pre @ [x]) s'" if "?secs = pre @ x # post" "conv_holds c pre s" "convert_section c x s = Inr s'" for pre x post s s'
      by (rule convert_step[OF that(2,3)]) (use that(1) p small in auto)
  qed
  then have inv: "length body \<le> sizes ?secs" "noffMagic (noffH st) = NOFFMAGIC"
      "seg_holds c (filter is_text ?secs) body (code (noffH st))" "seg_holds c (filter is_data ?secs) body (initData (noffH st))"
      "length (filter is_data ?secs) \<le> 1" "usize (noffH st) = sizes (filter is_bss ?secs)"
    using st(2) by (auto simp: conv_holds_def)
  have lim: "40 + length body < 2 ^ 32" using inv(1) small by simp
  have h: "NoffHeader_of out = noffH st" by (simp add: st(3) NoffHeader_of_bytes)
  have len: "length out = 40 + length body" by (simp add: st(3))
  have data: "concat (map (section_bytes c) (filter is_data ?secs)) = (if filter is_data ?secs = [] then [] else section_bytes c (List.last (filter is_data ?secs)))"
    by (rule concat_le_one[OF inv(5)])
  note cb = seg_holds_bounds[OF inv(3) lim] and db = seg_holds_bounds[OF inv(4) lim]
  have cs: "csize (noffH st) = length (section_bytes c t)" using cb(1) t(1) by simp
  have ds: "dsize (noffH st) = length (concat (map (section_bytes c) (filter is_data ?secs)))" unfolding data by (rule db(1))
  have "csize (noffH st) + dsize (noffH st) + usize (noffH st) \<le> sizes ?secs"
    using kinds_le[of ?secs] section_bytes_le[of c "filter is_data ?secs"] section_bytes_le[of c "filter is_text ?secs"] t(1) inv(6) cs ds
    by simp
  then have "prog_ok (noffH st) out" using small inv(1) cb(2) db t by (auto simp: prog_ok_def len)
  moreover have "prog_image (noffH st) out v = (let im = section_bytes c t @ concat (map (section_bytes c) (filter is_data ?secs)) in if v < length im then im ! v else 0)"
    using segments_image[OF inv(3,4) length_NoffHeader_bytes lim, of "noffH st" v] t(1) by (simp only: data st(3)) simp
  ultimately show ?thesis using h inv(2,6) by simp
qed

text \<open>A \<open>.bss\<close> and a \<open>.sbss\<close> section that are contiguous, which is what the message of the program asks for, are refused, and two
  that are not are merged into one segment at the address of the first.\<close>

lemma bss_check_inverted:
  assumes "is_bss sec" and "seg_size (uninitData (noffH st)) \<noteq> 0"
  shows "convert_section c sec st = Inl BothBss \<longleftrightarrow> s_paddr sec = virtualAddr (uninitData (noffH st)) + seg_size (uninitData (noffH st))"
  using assms one_kind(3)[OF assms(1)] by (auto simp: convert_section_def Let_def is_text_def is_data_def is_bss_def)

text \<open>A COFF file of three sections: two bytes of text, one of read-only data, four bytes of bss.\<close>

definition demo_scnhdr :: "string \<Rightarrow> word32 \<Rightarrow> word32 \<Rightarrow> word32 \<Rightarrow> byte list" where
  "demo_scnhdr n pa sz ptr = take 8 (map of_char n @ replicate 8 0) @ le_bytes 4 pa @ le_bytes 4 0 @ le_bytes 4 sz @ le_bytes 4 ptr @ replicate 16 0"

definition demo_coff :: "byte list" where
  "demo_coff = le_bytes 2 MIPSELMAGIC @ le_bytes 2 3 @ replicate 16 0 @ le_bytes 2 OMAGIC @ replicate 54 0
     @ demo_scnhdr ''.text'' 0 2 196 @ demo_scnhdr ''.rdata'' 2 1 198 @ demo_scnhdr ''.bss'' 3 4 0 @ [10, 20, 30]"

definition demo_noff :: "byte list" where
  "demo_noff = NoffHeader_bytes \<lparr>noffMagic = NOFFMAGIC, code = \<lparr>virtualAddr = 0, inFileAddr = 40, seg_size = 2\<rparr>,
     initData = \<lparr>virtualAddr = 2, inFileAddr = 42, seg_size = 1\<rparr>, uninitData = \<lparr>virtualAddr = 3, inFileAddr = 0, seg_size = 4\<rparr>\<rparr> @ [10, 20, 30]"

lemma demo_converts: "coff2noff demo_hdr (Some demo_coff) True = Inr demo_noff"
  by code_simp

lemma demo_sections: "sections_of demo_coff =
   [\<lparr>s_name = [46, 116, 101, 120, 116, 0, 0, 0], s_paddr = 0, s_size = 2, s_scnptr = 196\<rparr>,
    \<lparr>s_name = [46, 114, 100, 97, 116, 97, 0, 0], s_paddr = 2, s_size = 1, s_scnptr = 198\<rparr>,
    \<lparr>s_name = [46, 98, 115, 115, 0, 0, 0, 0], s_paddr = 3, s_size = 4, s_scnptr = 0\<rparr>]"
  by code_simp

lemma coff2noff_image_witness:
  "\<exists>out. coff2noff demo_hdr (Some demo_coff) True = Inr out \<and> prog_ok (NoffHeader_of out) out \<and> usize (NoffHeader_of out) = 4
    \<and> prog_image (NoffHeader_of out) out 2 = 30"
proof -
  note img = coff2noff_image[OF demo_converts, of "[]" "\<lparr>s_name = [46, 116, 101, 120, 116, 0, 0, 0], s_paddr = 0, s_size = 2, s_scnptr = 196\<rparr>" 2]
  have kinds: "is_text \<lparr>s_name = [46, 116, 101, 120, 116, 0, 0, 0], s_paddr = 0, s_size = 2, s_scnptr = 196\<rparr>"
    "is_data \<lparr>s_name = [46, 114, 100, 97, 116, 97, 0, 0], s_paddr = 2, s_size = 1, s_scnptr = 198\<rparr>"
    "is_bss \<lparr>s_name = [46, 98, 115, 115, 0, 0, 0, 0], s_paddr = 3, s_size = 4, s_scnptr = 0\<rparr>" by code_simp+
  have bytes: "section_bytes demo_coff \<lparr>s_name = [46, 116, 101, 120, 116, 0, 0, 0], s_paddr = 0, s_size = 2, s_scnptr = 196\<rparr> = [10, 20]"
    "section_bytes demo_coff \<lparr>s_name = [46, 114, 100, 97, 116, 97, 0, 0], s_paddr = 2, s_size = 1, s_scnptr = 198\<rparr> = [30]" by code_simp+
  show ?thesis using img demo_converts by (simp add: demo_sections kinds one_kind(1)[OF kinds(1)] one_kind(2)[OF kinds(2)] one_kind(3)[OF kinds(3)] bytes)
qed

end
