(* ===== verification/Nachos_FsTest.thy ===== *)
theory Nachos_FsTest
  imports Nachos_FsInv
begin

text \<open>
  filesys/fstest.cc: the copy of a UNIX file into the file system, the output of a file, and the performance test.

  A UNIX file that \<open>fopen\<close> can open is the list of its bytes; \<open>FILE\<close> reads are blocks of it. What is printed is a
  value: the bytes of the file for \<open>Print\<close>, and a message for what goes wrong. The loops are proved to move
  files of any length correctly. The functions around them open their file with \<open>Open(name)\<close>, which
  returns some slot of the open-file table and not the file.
\<close>

section \<open>Files through pointers\<close>

definition get_file :: "nat option \<Rightarrow> FileSystem \<Rightarrow> (nat \<times> OpenFile) res" where
  "get_file p fs = (case p of None \<Rightarrow> Inl NullPointer | Some a \<Rightarrow>
     (case of_heap fs a of None \<Rightarrow> Inl DanglingPointer | Some f \<Rightarrow> Inr (a, f)))"

definition file_Write :: "Junk \<Rightarrow> nat option \<Rightarrow> byte list \<Rightarrow> int \<Rightarrow> FileSystem \<Rightarrow> (int \<times> FileSystem) res" where
  "file_Write J p from n fs = bindR (get_file p fs) (\<lambda>(a, f).
     bindR (OpenFile_Write (j_byte J) f from n (fs_disk fs)) (\<lambda>(r, f, d).
     Inr (r, fs\<lparr>fs_disk := d, of_heap := (of_heap fs)(a \<mapsto> f)\<rparr>)))"

definition file_Read :: "nat option \<Rightarrow> int \<Rightarrow> FileSystem \<Rightarrow> (byte list \<times> FileSystem) res" where
  "file_Read p n fs = bindR (get_file p fs) (\<lambda>(a, f).
     bindR (OpenFile_Read f n (fs_disk fs)) (\<lambda>(x, f, d).
     Inr (x, fs\<lparr>fs_disk := d, of_heap := (of_heap fs)(a \<mapsto> f)\<rparr>)))"

definition file_delete :: "nat option \<Rightarrow> FileSystem \<Rightarrow> FileSystem res" where
  "file_delete p fs = (case p of None \<Rightarrow> Inr fs | Some a \<Rightarrow>
     bindR (get_file p fs) (\<lambda>_. Inr (fs\<lparr>of_heap := (of_heap fs)(a := None)\<rparr>)))"

section \<open>Copy and Print\<close>

datatype TestMsg = NoInput | NoCreate | NoOpen | NoWrite | NoRead | NoRemove

definition TransferSize :: nat where "TransferSize = 10"

function copy_loop :: "Junk \<Rightarrow> nat option \<Rightarrow> byte list \<Rightarrow> FileSystem \<Rightarrow> FileSystem res" where
  "copy_loop J p bs fs = (if bs = [] then Inr fs
     else bindR (file_Write J p (take TransferSize bs) (int (length (take TransferSize bs))) fs) (\<lambda>(_, fs).
       copy_loop J p (drop TransferSize bs) fs))"
  by pat_completeness auto
termination
  by (relation "measure (\<lambda>(J, p, bs, fs). length bs)") (auto simp: TransferSize_def)

declare copy_loop.simps [simp del]

definition Copy :: "Junk \<Rightarrow> byte list option \<Rightarrow> byte list \<Rightarrow> FileSystem \<Rightarrow> (TestMsg option \<times> FileSystem) res" where
  "Copy J from to fs = (case from of None \<Rightarrow> Inr (Some NoInput, fs) | Some bs \<Rightarrow>
     bindR (FileSystem_Create J to (int (length bs)) fs) (\<lambda>(ok, fs).
     if \<not> ok then Inr (Some NoCreate, fs) else
     bindR (FileSystem_Open1 J to fs) (\<lambda>(openFile, fs).
     bindR (ASSERT (openFile \<noteq> None)) (\<lambda>_.
     bindR (copy_loop J openFile bs fs) (\<lambda>fs.
     bindR (file_delete openFile fs) (\<lambda>fs. Inr (None, fs)))))))"

text \<open>The loop of \<open>Print\<close> reads until nothing comes; the characters printed are collected.\<close>

partial_function (option) print_loop :: "nat option \<Rightarrow> byte list \<Rightarrow> FileSystem \<Rightarrow> (byte list \<times> FileSystem) res option" where
  "print_loop p out fs = (case file_Read p (int TransferSize) fs of Inl e \<Rightarrow> Some (Inl e)
     | Inr r \<Rightarrow> if fst r = [] then Some (Inr (out, snd r)) else print_loop p (out @ fst r) (snd r))"

definition Print :: "Junk \<Rightarrow> byte list \<Rightarrow> FileSystem \<Rightarrow> (TestMsg option \<times> byte list \<times> FileSystem) res option" where
  "Print J name fs = (case FileSystem_Open1 J name fs of Inl e \<Rightarrow> Some (Inl e) | Inr (openFile, fs) \<Rightarrow>
     if openFile = None then Some (Inr (Some NoOpen, [], fs))
     else (case print_loop openFile [] fs of None \<Rightarrow> None | Some (Inl e) \<Rightarrow> Some (Inl e)
       | Some (Inr (out, fs)) \<Rightarrow> Some (bindR (file_delete openFile fs) (\<lambda>fs. Inr (None, out, fs)))))"

section \<open>The performance test\<close>

definition FileName :: "byte list" where "FileName = map of_char ''TestFile''"
definition Contents :: "byte list" where "Contents = map of_char ''1234567890''"
definition ContentSize :: nat where "ContentSize = length Contents"
definition FileSize :: nat where "FileSize = ContentSize * 5000"

text \<open>The loops of \<open>FileWrite\<close> and \<open>FileRead\<close>, for the iterations that are left.\<close>

primrec perf_write :: "nat \<Rightarrow> Junk \<Rightarrow> nat option \<Rightarrow> FileSystem \<Rightarrow> (TestMsg option \<times> FileSystem) res" where
  "perf_write 0 J p fs = bindR (file_delete p fs) (\<lambda>fs. Inr (None, fs))"
| "perf_write (Suc n) J p fs = bindR (file_Write J p Contents (int ContentSize) fs) (\<lambda>(numBytes, fs).
     if numBytes < 10 then bindR (file_delete p fs) (\<lambda>fs. Inr (Some NoWrite, fs)) else perf_write n J p fs)"

primrec perf_read :: "nat \<Rightarrow> nat option \<Rightarrow> FileSystem \<Rightarrow> (TestMsg option \<times> FileSystem) res" where
  "perf_read 0 p fs = bindR (file_delete p fs) (\<lambda>fs. Inr (None, fs))"
| "perf_read (Suc n) p fs = bindR (file_Read p (int ContentSize) fs) (\<lambda>(x, fs).
     if length x < 10 \<or> x \<noteq> Contents then bindR (file_delete p fs) (\<lambda>fs. Inr (Some NoRead, fs)) else perf_read n p fs)"

definition FileWrite :: "Junk \<Rightarrow> FileSystem \<Rightarrow> (TestMsg option \<times> FileSystem) res" where
  "FileWrite J fs = bindR (FileSystem_Create J FileName 0 fs) (\<lambda>(ok, fs).
     if \<not> ok then Inr (Some NoCreate, fs) else
     bindR (FileSystem_Open1 J FileName fs) (\<lambda>(openFile, fs).
     if openFile = None then Inr (Some NoOpen, fs) else perf_write (FileSize div ContentSize) J openFile fs))"

definition FileRead :: "Junk \<Rightarrow> FileSystem \<Rightarrow> (TestMsg option \<times> FileSystem) res" where
  "FileRead J fs = bindR (FileSystem_Open1 J FileName fs) (\<lambda>(openFile, fs).
     if openFile = None then Inr (Some NoOpen, fs) else perf_read (FileSize div ContentSize) openFile fs)"

definition PerformanceTest :: "Junk \<Rightarrow> FileSystem \<Rightarrow> (TestMsg list \<times> FileSystem) res" where
  "PerformanceTest J fs = bindR (FileWrite J fs) (\<lambda>(m1, fs).
     bindR (FileRead J fs) (\<lambda>(m2, fs).
     bindR (FileSystem_Remove J FileName fs) (\<lambda>(ok, fs).
     Inr (List.map_filter id [m1, m2, if ok then None else Some NoRemove], fs))))"

section \<open>The loops\<close>

lemma overwrite_append:
  assumes "k + length xs + length ys \<le> length buf"
  shows "overwrite (k + length xs) ys (overwrite k xs buf) = overwrite k (xs @ ys) buf"
  using assms by (intro nth_equalityI) (auto simp: nth_overwrite nth_append)

lemma overwrite_nil: "overwrite k [] buf = buf"
  by (rule nth_equalityI) (simp_all add: nth_overwrite)

lemma file_Write_ok:
  assumes "of_heap fs a = Some f" and "hdr_ok (of_hdr f)" and "disk_ok (fs_disk fs)" and "seekPosition f = int k"
    and "k + length bs \<le> nat (numBytes (of_hdr f))"
  shows "\<exists>d. file_Write J (Some a) bs (int (length bs)) fs = Inr (int (length bs), fs\<lparr>fs_disk := d,
      of_heap := (of_heap fs)(a \<mapsto> f\<lparr>seekPosition := int (k + length bs)\<rparr>)\<rparr>) \<and> disk_ok d
    \<and> file_data d (of_hdr f) = overwrite k bs (file_data (fs_disk fs) (of_hdr f))
    \<and> (\<forall>s. s \<notin> secs (of_hdr f) \<longrightarrow> sector_content d s = sector_content (fs_disk fs) s)"
proof -
  have "numBytes (of_hdr f) < 2 ^ 31" using assms(2) by (simp add: hdr_ok_def hdr_typed_def int_ok_def)
  then have "int k + int (length bs) < 2 ^ 31" using assms(5) by (cases "0 \<le> numBytes (of_hdr f)") (simp_all add: le_nat_iff)
  moreover have "min (nat (int (length bs))) (nat (numBytes (of_hdr f)) - nat (int k)) = length bs" using assms(5) by simp
  ultimately show ?thesis
    using OpenFile_WriteAt_spec[OF assms(3,2), of "int k" "int (length bs)" bs "j_byte J"] assms(1,4)
    by (auto simp: file_Write_def get_file_def OpenFile_Write_def secs_def)
qed

lemma copy_loop_ok:
  assumes "of_heap fs a = Some f" and "hdr_ok (of_hdr f)" and "disk_ok (fs_disk fs)" and "seekPosition f = int k"
    and "k + length bs \<le> nat (numBytes (of_hdr f))"
  shows "\<exists>d. copy_loop J (Some a) bs fs = Inr (fs\<lparr>fs_disk := d, of_heap := (of_heap fs)(a \<mapsto> f\<lparr>seekPosition := int (k + length bs)\<rparr>)\<rparr>)
    \<and> disk_ok d \<and> file_data d (of_hdr f) = overwrite k bs (file_data (fs_disk fs) (of_hdr f))
    \<and> (\<forall>s. s \<notin> secs (of_hdr f) \<longrightarrow> sector_content d s = sector_content (fs_disk fs) s)"
  using assms
proof (induction "length bs" arbitrary: bs k f fs rule: less_induct)
  case less
  show ?case
  proof (cases "bs = []")
    case True
    have "fs = fs\<lparr>fs_disk := fs_disk fs, of_heap := (of_heap fs)(a \<mapsto> f\<lparr>seekPosition := int (k + length bs)\<rparr>)\<rparr>"
      using less.prems(1,4) True by (cases fs; cases f) (auto simp: fun_upd_idem)
    then show ?thesis using True less.prems(3)
      by (intro exI[of _ "fs_disk fs"]) (simp add: copy_loop.simps overwrite_nil)
  next
    case False
    define xs ys where xy: "xs = take TransferSize bs" "ys = drop TransferSize bs"
    have bs: "bs = xs @ ys" "length ys < length bs" using False by (simp_all add: xy TransferSize_def)
    obtain d where d: "file_Write J (Some a) xs (int (length xs)) fs = Inr (int (length xs), fs\<lparr>fs_disk := d,
        of_heap := (of_heap fs)(a \<mapsto> f\<lparr>seekPosition := int (k + length xs)\<rparr>)\<rparr>)" "disk_ok d"
        "file_data d (of_hdr f) = overwrite k xs (file_data (fs_disk fs) (of_hdr f))"
        "\<forall>s. s \<notin> secs (of_hdr f) \<longrightarrow> sector_content d s = sector_content (fs_disk fs) s"
      using file_Write_ok[OF less.prems(1-4), of xs J] less.prems(5) bs(1) by auto
    let ?f = "f\<lparr>seekPosition := int (k + length xs)\<rparr>"
    let ?fs = "fs\<lparr>fs_disk := d, of_heap := (of_heap fs)(a \<mapsto> ?f)\<rparr>"
    have step: "copy_loop J (Some a) bs fs = copy_loop J (Some a) ys ?fs"
      using False d(1) by (subst copy_loop.simps) (simp add: xy[symmetric])
    obtain d' where "copy_loop J (Some a) ys ?fs = Inr (?fs\<lparr>fs_disk := d', of_heap := (of_heap ?fs)(a \<mapsto> ?f\<lparr>seekPosition := int (k + length xs + length ys)\<rparr>)\<rparr>)"
      "disk_ok d'" "file_data d' (of_hdr f) = overwrite (k + length xs) ys (file_data d (of_hdr f))"
      "\<forall>s. s \<notin> secs (of_hdr f) \<longrightarrow> sector_content d' s = sector_content d s"
      using less.hyps[OF bs(2), of ?fs ?f "k + length xs"] less.prems(2,5) d(2) bs(1) by auto
    then show ?thesis using step d(3,4) less.prems(5) overwrite_append[of k xs ys] bs(1)
      by (intro exI[of _ d']) (simp add: add.assoc)
  qed
qed

lemma file_Read_ok:
  assumes "of_heap fs a = Some f" and "hdr_ok (of_hdr f)" and "disk_ok (fs_disk fs)" and "seekPosition f = int k" and "k \<le> nat (numBytes (of_hdr f))"
    and "n < 2 ^ 30"
  shows "\<exists>d. file_Read (Some a) (int n) fs = (let x = take n (drop k (file_data (fs_disk fs) (of_hdr f))) in
      Inr (x, fs\<lparr>fs_disk := d, of_heap := (of_heap fs)(a \<mapsto> f\<lparr>seekPosition := int (k + length x)\<rparr>)\<rparr>)) \<and> disk_ok d
    \<and> sector_content d = sector_content (fs_disk fs)"
proof -
  have "numSectors (of_hdr f) \<le> int NumDirect" "numBytes (of_hdr f) \<le> numSectors (of_hdr f) * int SectorSize"
    using assms(2) divRoundUp_upper[of "numBytes (of_hdr f)" "int SectorSize"] by (auto simp: hdr_ok_def SectorSize_def)
  then have "numBytes (of_hdr f) < 2 ^ 30" by (simp add: NumDirect_126 SectorSize_def)
  then have "int k + int n < 2 ^ 31" using assms(5,6) by (cases "0 \<le> numBytes (of_hdr f)") (simp_all add: le_nat_iff)
  then show ?thesis using OpenFile_ReadAt_spec[OF assms(3,2), of "int k" "int n"] assms(1,4)
    by (auto simp: file_Read_def get_file_def OpenFile_Read_def Let_def)
qed

lemma print_loop_ok:
  assumes "of_heap fs a = Some f" and "hdr_ok (of_hdr f)" and "disk_ok (fs_disk fs)" and "seekPosition f = int k" and "k \<le> nat (numBytes (of_hdr f))"
  shows "\<exists>fs'. print_loop (Some a) out fs = Some (Inr (out @ drop k (file_data (fs_disk fs) (of_hdr f)), fs'))"
  using assms
proof (induction "nat (numBytes (of_hdr f)) - k" arbitrary: k f fs out rule: less_induct)
  case less
  let ?D = "file_data (fs_disk fs) (of_hdr f)"
  define x where "x = take TransferSize (drop k ?D)"
  obtain d where d: "file_Read (Some a) (int TransferSize) fs = Inr (x, fs\<lparr>fs_disk := d,
      of_heap := (of_heap fs)(a \<mapsto> f\<lparr>seekPosition := int (k + length x)\<rparr>)\<rparr>)" "disk_ok d" "sector_content d = sector_content (fs_disk fs)"
    using file_Read_ok[OF less.prems, of TransferSize] by (auto simp: x_def Let_def TransferSize_def)
  have fd: "file_data d = file_data (fs_disk fs)" by (rule same_content(6)[OF d(3)])
  have "drop k ?D = x @ drop (length x) (drop k ?D)" unfolding x_def by (cases "length (drop k ?D) \<le> TransferSize") (simp_all del: drop_drop)
  then have sp: "drop k ?D = x @ drop (k + length x) ?D" by (simp add: add.commute)
  show ?case
  proof (cases "x = []")
    case True
    then have "drop k ?D = []" by (auto simp: x_def TransferSize_def)
    then show ?thesis using True d(1) by (subst print_loop.simps) simp
  next
    case False
    let ?fs = "fs\<lparr>fs_disk := d, of_heap := (of_heap fs)(a \<mapsto> f\<lparr>seekPosition := int (k + length x)\<rparr>)\<rparr>"
    have l: "k + length x \<le> nat (numBytes (of_hdr f))" "0 < length x" using False less.prems(5) by (auto simp: x_def)
    have m: "nat (numBytes (of_hdr f)) - (k + length x) < nat (numBytes (of_hdr f)) - k" using l by linarith
    have "\<exists>fs'. print_loop (Some a) (out @ x) ?fs = Some (Inr ((out @ x) @ drop (k + length x) (file_data (fs_disk ?fs) (of_hdr f)), fs'))"
      using less.hyps[of "f\<lparr>seekPosition := int (k + length x)\<rparr>" "k + length x" ?fs "out @ x"] less.prems(2) d(2) l(1) m by simp
    then show ?thesis using False d(1) sp by (subst print_loop.simps) (simp add: fd)
  qed
qed

text \<open>
  The transfer loops lose nothing: what the loop of \<open>Copy\<close> writes, in blocks of ten bytes, into a file of the right
  length is what the loop of \<open>Print\<close> prints from another object opened on the same file.
\<close>

theorem copy_then_print:
  assumes "of_heap fs a = Some f" and "of_heap fs b = Some g" and "a \<noteq> b" and "of_hdr g = of_hdr f" and "hdr_ok (of_hdr f)"
    and "disk_ok (fs_disk fs)" and "seekPosition f = 0" and "seekPosition g = 0" and "numBytes (of_hdr f) = int (length bs)"
  shows "\<exists>fs1 fs2. copy_loop J (Some a) bs fs = Inr fs1 \<and> print_loop (Some b) [] fs1 = Some (Inr (bs, fs2))"
proof -
  obtain d where d: "copy_loop J (Some a) bs fs = Inr (fs\<lparr>fs_disk := d, of_heap := (of_heap fs)(a \<mapsto> f\<lparr>seekPosition := int (length bs)\<rparr>)\<rparr>)"
    "disk_ok d" "file_data d (of_hdr f) = overwrite 0 bs (file_data (fs_disk fs) (of_hdr f))"
    using copy_loop_ok[OF assms(1,5,6), of 0 bs J] assms(7,9) by auto
  have "file_data d (of_hdr f) = bs" using d(3) assms(9) by (simp add: overwrite_full)
  then show ?thesis using d(1) print_loop_ok[of "fs\<lparr>fs_disk := d, of_heap := (of_heap fs)(a \<mapsto> f\<lparr>seekPosition := int (length bs)\<rparr>)\<rparr>" b g 0 "[]"]
    assms d(2) by auto
qed

section \<open>Open by name\<close>

lemma OpenFile_new_ok:
  assumes "disk_ok d" and "0 \<le> s" and "s < NumSectors"
  shows "\<exists>d'. OpenFile_new s ty d = Inr (\<lparr>of_hdr = hdr_at d s, of_type = ty, seekPosition = 0\<rparr>, d') \<and> disk_ok d' \<and> sector_content d' = sector_content d"
  using sd.read_ok[OF assms] by (auto simp: OpenFile_new_def FileHeader_FetchFrom_def hdr_at_def)

text \<open>Whatever the name, \<open>Open(name)\<close> returns the slot at \<open>index\<close> and moves \<open>index\<close> on.\<close>

lemma Open1_returns_slot:
  assumes "fs_ok fs" and "junk_ok J"
  shows "\<exists>d hp n. FileSystem_Open1 J name fs = bindR (get_openf (fs_index fs) fs) (\<lambda>p.
     Inr (p, fs\<lparr>fs_disk := d, of_heap := hp, of_brk := n, fs_index := fs_index fs + 1\<rparr>)) \<and> disk_ok d \<and> sector_content d = sector_content (fs_disk fs)"
proof -
  have sys: "sys_ok fs" using assms(1) by (simp add: fs_ok_def)
  obtain d where d: "fetch_directory J fs = Inr (disk_dir fs, fs\<lparr>fs_disk := d\<rparr>)" "disk_ok d" "sector_content d = sector_content (fs_disk fs)"
    using fetch_directory_ok[OF sys assms(2)] by blast
  show ?thesis
  proof (cases "files fs (name_key name)")
    case None
    then show ?thesis using d
      by (intro exI[of _ d] exI[of _ "of_heap fs"] exI[of _ "of_brk fs"]) (simp add: FileSystem_Open1_def find_sector[OF assms(1)] get_openf_def Let_def)
  next
    case (Some s)
    then have s: "0 \<le> s" "s < NumSectors" using assms(1) by (auto simp: fs_ok_def file_ok_def)
    obtain d' where d': "OpenFile_new s (j_type J) d = Inr (\<lparr>of_hdr = hdr_at d s, of_type = j_type J, seekPosition = 0\<rparr>, d')"
      "disk_ok d'" "sector_content d' = sector_content d" using OpenFile_new_ok[OF d(2) s] by blast
    show ?thesis using d d' s Some
      by (intro exI[of _ d'] exI[of _ "(of_heap fs)(of_brk fs \<mapsto> \<lparr>of_hdr = hdr_at d s, of_type = j_type J, seekPosition = 0\<rparr>)"] exI[of _ "of_brk fs + 1"])
        (simp add: FileSystem_Open1_def find_sector[OF assms(1)] alloc_OpenFile_def get_openf_def Let_def)
  qed
qed

lemma create_frame:
  "FileSystem_Create J name sz fs = Inr (ok, fs') \<Longrightarrow> openf fs' = openf fs \<and> fs_index fs' = fs_index fs"
  by (auto simp: FileSystem_Create_def bindR_eq_Inr fetch_directory_def fetch_freemap_def split: if_splits)

text \<open>
  So the copy of a UNIX file into a file system with an empty slot at \<open>index\<close>, as every new one has, creates the file and
  then stops the machine.
\<close>

theorem copy_aborts:
  assumes "fs_ok fs" and "junk_ok J" and "length bs \<le> MaxFileSize" and "create_room fs name (int (length bs))"
    and "get_openf (fs_index fs) fs = Inr None"
  shows "Copy J (Some bs) name fs = Inl AssertFailed"
proof -
  obtain fs1 where c: "FileSystem_Create J name (int (length bs)) fs = Inr (True, fs1)" "fs_ok fs1"
    using create_succeeds[OF assms(1,2) _ _ assms(4)] assms(3) by auto
  have "get_openf (fs_index fs1) fs1 = Inr None" using create_frame[OF c(1)] assms(5) by (simp add: get_openf_def split: if_splits)
  then obtain fs2 where "FileSystem_Open1 J name fs1 = Inr (None, fs2)" using Open1_returns_slot[OF c(2) assms(2), of name] by auto
  then show ?thesis using c(1) by (simp add: Copy_def ASSERT_def)
qed

end
