(* ===== verification/Nachos_ThreadTest.thy ===== *)
theory Nachos_ThreadTest
  imports Nachos_Sched
begin

text \<open>
  threads/threadtest.cc: the ping-pong test of two threads, run on the scheduler of Nachos_Thread.

  \<open>locals\<close> has the variables of each thread that executes \<open>SimpleThread\<close>: its argument \<open>which\<close> and the loop counter
  \<open>num\<close>. A step is one iteration of the loop of the running thread, up to the moment at which a thread, the same
  or another, comes back from \<open>Yield\<close>; the step after the last iteration is the end of the thread: \<open>ThreadRoot\<close> calls
  \<open>Finish\<close> for the forked one, and \<open>main\<close> for itself.
\<close>

record TestState = Kernel +
  locals :: "nat \<Rightarrow> (int \<times> int) option"
  printed :: "(int \<times> int) list"

text \<open>The thread that has got the processor finishes its call of \<open>Yield\<close>.\<close>

definition back_from_yield :: "'k Kernel_scheme \<Rightarrow> 'k Kernel_scheme res" where
  "back_from_yield s = bindR (get_thread (currentThread s) s) (\<lambda>th.
     case resume th of InYield oldLevel \<Rightarrow> Inr (Yield_return oldLevel s) | _ \<Rightarrow> Inr s)"

definition SimpleThread_step :: "'k TestState_scheme \<Rightarrow> 'k TestState_scheme res" where
  "SimpleThread_step s = (let t = currentThread s in
     case locals s t of None \<Rightarrow> Inl NullPointer | Some (which, num) \<Rightarrow>
     if num < 5 then bindR (Thread_Yield (s\<lparr>printed := printed s @ [(which, num)], locals := (locals s)(t \<mapsto> (which, num + 1))\<rparr>)) back_from_yield
     else bindR (Thread_Finish s) back_from_yield)"

text \<open>The processor runs until a thread that finishes finds no other: then the machine is idle.\<close>

primrec test_run :: "nat \<Rightarrow> 'k TestState_scheme \<Rightarrow> 'k TestState_scheme res" where
  "test_run 0 s = Inr s"
| "test_run (Suc n) s = (if cpu s = InSleep then Inr s else bindR (SimpleThread_step s) (test_run n))"

definition ThreadTest1 :: "(nat \<Rightarrow> word32) \<Rightarrow> 'k TestState_scheme \<Rightarrow> 'k TestState_scheme res" where
  "ThreadTest1 regs s = (let (t, s) = Thread_new ''forked thread'' regs s in
     bindR (Thread_Fork t SimpleThread 1 s) (\<lambda>s.
     Inr (s\<lparr>locals := (locals s)(t \<mapsto> (1, 0), currentThread s \<mapsto> (0, 0))\<rparr>)))"

definition ThreadTest :: "int \<Rightarrow> (nat \<Rightarrow> word32) \<Rightarrow> 'k TestState_scheme \<Rightarrow> 'k TestState_scheme res" where
  "ThreadTest testnum regs s = (if testnum = 1 then ThreadTest1 regs s else Inr s)"

section \<open>Ping-pong\<close>

lemma test_run_more: "test_run n s = Inr s' \<Longrightarrow> cpu s' = InSleep \<Longrightarrow> test_run (n + m) s = Inr s'"
proof (induction n arbitrary: s)
  case 0
  then show ?case by (cases m) simp_all
qed (auto simp: bindR_eq_Inr)

text \<open>Thread \<open>a\<close> has the processor and \<open>b\<close> waits for it, neither with an address space.\<close>

definition ping :: "nat \<Rightarrow> nat \<Rightarrow> 'k Kernel_scheme \<Rightarrow> bool" where
  "ping a b s \<longleftrightarrow> a \<noteq> b \<and> currentThread s = a \<and> readyList s = [b] \<and> threadToBeDestroyed s = None \<and> level s = IntOn \<and> cpu s = Exec
     \<and> (\<exists>th. threads s a = Some th \<and> space th = None \<and> stack th \<in> {None, Some STACK_FENCEPOST} \<and> resume th = OnCPU)
     \<and> (\<exists>th. threads s b = Some th \<and> space th = None \<and> stack th \<in> {None, Some STACK_FENCEPOST}
          \<and> (resume th = InYield IntOn \<or> (\<exists>f x. resume th = AtThreadRoot f x)))"

lemmas thread_defs = Thread_Yield_def Thread_Finish_def Thread_Sleep_def sleep_loop_def FindNextToRun_def ReadyToRun_def Scheduler_Run_def
  save_old_def CheckOverflow_def after_switch_def reap_def restore_new_def Thread_delete_def get_thread_def upd_thread_def
  back_from_yield_def Yield_return_def ASSERT_def

lemma Yield_ping:
  assumes "ping a b s"
  shows "\<exists>s'. bindR (Thread_Yield s) back_from_yield = Inr s' \<and> ping b a s' \<and> resume (the (threads s' a)) = InYield IntOn \<and> Kernel.more s' = Kernel.more s"
proof -
  from assms obtain th th' where s: "a \<noteq> b" "currentThread s = a" "readyList s = [b]" "threadToBeDestroyed s = None" "level s = IntOn" "cpu s = Exec"
    "threads s a = Some th" "space th = None" "stack th \<in> {None, Some STACK_FENCEPOST}" "resume th = OnCPU"
    "threads s b = Some th'" "space th' = None" "stack th' \<in> {None, Some STACK_FENCEPOST}"
    "resume th' = InYield IntOn \<or> (\<exists>f x. resume th' = AtThreadRoot f x)"
    unfolding ping_def by blast
  from s(14) show ?thesis
    by (elim disjE exE; use s in \<open>auto simp: thread_defs ping_def Let_def\<close>)
qed

lemma locals_printed_more:
  fixes s s' :: "'k TestState_scheme"
  shows "Kernel.more s' = Kernel.more s \<Longrightarrow> locals s' = locals s \<and> printed s' = printed s"
  by (cases s; cases s') simp

lemma step_ping:
  fixes s :: "'k TestState_scheme"
  assumes "ping a b s" and "locals s a = Some (w, n)" and "n < 5"
  shows "\<exists>s'. SimpleThread_step s = Inr s' \<and> ping b a s' \<and> resume (the (threads s' a)) = InYield IntOn \<and> locals s' = (locals s)(a \<mapsto> (w, n + 1)) \<and> printed s' = printed s @ [(w, n)]"
proof -
  let ?s = "s\<lparr>printed := printed s @ [(w, n)], locals := (locals s)(a \<mapsto> (w, n + 1))\<rparr>"
  have "ping a b ?s" using assms(1) by (simp add: ping_def)
  then obtain s' where "bindR (Thread_Yield ?s) back_from_yield = Inr s'" "ping b a s'" "resume (the (threads s' a)) = InYield IntOn"
      "Kernel.more s' = Kernel.more ?s"
    using Yield_ping by blast
  moreover have "currentThread s = a" using assms(1) by (simp add: ping_def)
  ultimately show ?thesis using assms(2,3) locals_printed_more[of s' ?s] by (simp add: SimpleThread_step_def Let_def)
qed

lemma rounds:
  fixes s :: "'k TestState_scheme"
  assumes "ping a b s" and "locals s a = Some (v, 5 - int j)" and "locals s b = Some (w, 5 - int j)"
  shows "\<exists>s'. test_run (2 * j + m) s = test_run m s' \<and> ping a b s' \<and> locals s' a = Some (v, 5) \<and> locals s' b = Some (w, 5)
    \<and> (0 < j \<or> resume (the (threads s b)) = InYield IntOn \<longrightarrow> resume (the (threads s' b)) = InYield IntOn)
    \<and> printed s' = printed s @ concat (map (\<lambda>k. [(v, k), (w, k)]) [5 - int j..4])"
  using assms
proof (induction j arbitrary: s)
  case (Suc j)
  let ?n = "5 - int (Suc j)"
  have ab: "a \<noteq> b" "cpu s = Exec" using Suc.prems(1) by (auto simp: ping_def)
  obtain s1 where s1: "SimpleThread_step s = Inr s1" "ping b a s1" "locals s1 = (locals s)(a \<mapsto> (v, ?n + 1))" "printed s1 = printed s @ [(v, ?n)]"
    using step_ping[OF Suc.prems(1,2)] by auto
  have l1: "locals s1 b = Some (w, ?n)" "cpu s1 = Exec" using s1(2,3) ab Suc.prems(3) by (simp_all add: ping_def)
  obtain s2 where s2: "SimpleThread_step s1 = Inr s2" "ping a b s2" "resume (the (threads s2 b)) = InYield IntOn"
      "locals s2 = (locals s1)(b \<mapsto> (w, ?n + 1))" "printed s2 = printed s1 @ [(w, ?n)]"
    using step_ping[OF s1(2) l1(1)] by auto
  have l2: "locals s2 a = Some (v, 5 - int j)" "locals s2 b = Some (w, 5 - int j)" using s1(3) s2(4) ab by simp_all
  have "test_run (2 * Suc j + m) s = test_run (2 * j + m) s2" using s1(1) s2(1) ab(2) l1(2) by simp
  moreover have "[?n..4] = ?n # [5 - int j..4]" by (subst upto_rec1) simp_all
  ultimately show ?case using Suc.IH[OF s2(2) l2] s1(4) s2(3,5) by auto
qed auto

text \<open>When the two are done, the first leaves the processor to the second, which deletes it, and the second finds nobody.\<close>

lemma both_finish:
  fixes s :: "'k TestState_scheme"
  assumes "ping a b s" and "locals s a = Some (v, 5)" and "locals s b = Some (w, 5)" and "resume (the (threads s b)) = InYield IntOn"
  shows "\<exists>s'. test_run 2 s = Inr s' \<and> cpu s' = InSleep \<and> readyList s' = [] \<and> threads s' a = None \<and> printed s' = printed s"
proof -
  from assms(1) obtain th th' where s: "a \<noteq> b" "currentThread s = a" "readyList s = [b]" "threadToBeDestroyed s = None" "level s = IntOn" "cpu s = Exec"
    "threads s a = Some th" "space th = None" "stack th \<in> {None, Some STACK_FENCEPOST}" "resume th = OnCPU"
    "threads s b = Some th'" "space th' = None" "stack th' \<in> {None, Some STACK_FENCEPOST}" "resume th' = InYield IntOn"
    using assms(4) unfolding ping_def by auto
  have "\<exists>s1. SimpleThread_step s = Inr s1 \<and> cpu s1 = Exec \<and> currentThread s1 = b \<and> readyList s1 = [] \<and> threadToBeDestroyed s1 = None \<and> level s1 = IntOn
      \<and> threads s1 a = None \<and> (\<exists>th. threads s1 b = Some th) \<and> locals s1 = locals s \<and> printed s1 = printed s"
    using s assms(2) by (auto simp: SimpleThread_step_def thread_defs Let_def)
  then obtain s1 th1 where s1: "SimpleThread_step s = Inr s1" "cpu s1 = Exec" "currentThread s1 = b" "readyList s1 = []" "threadToBeDestroyed s1 = None"
    "threads s1 a = None" "threads s1 b = Some th1" "locals s1 = locals s" "printed s1 = printed s" by blast
  have "\<exists>s2. SimpleThread_step s1 = Inr s2 \<and> cpu s2 = InSleep \<and> readyList s2 = [] \<and> threads s2 a = None \<and> printed s2 = printed s"
    using s1 s(1) assms(3) by (auto simp: SimpleThread_step_def thread_defs Let_def)
  then show ?thesis using s1(1,2) s(6) by (auto simp: numeral_2_eq_2)
qed

text \<open>
  The test prints the lines of the two threads in turn, from each five, and then the machine is idle: \<open>Yield\<close> gives
  the processor to the other thread each time. Twelve steps are enough: five for each thread and its end.
\<close>

theorem thread_test_alternates:
  fixes s :: "'k TestState_scheme"
  assumes "threads s (currentThread s) = Some th" and "space th = None" and "stack th = None" and "resume th = OnCPU" and "currentThread s < next_thread s"
    and "readyList s = []" and "threadToBeDestroyed s = None" and "level s = IntOn" and "cpu s = Exec" and "2 * 5 + 2 \<le> n"
  shows "\<exists>s'. bindR (ThreadTest 1 regs s) (test_run n) = Inr s' \<and> cpu s' = InSleep \<and> readyList s' = []
    \<and> printed s' = printed s @ [(0, 0), (1, 0), (0, 1), (1, 1), (0, 2), (1, 2), (0, 3), (1, 3), (0, 4), (1, 4)]"
proof -
  let ?a = "currentThread s" and ?b = "next_thread s"
  have "\<exists>s1. ThreadTest 1 regs s = Inr s1 \<and> ping ?a ?b s1 \<and> locals s1 ?a = Some (0, 0) \<and> locals s1 ?b = Some (1, 0) \<and> printed s1 = printed s"
    using assms by (auto simp: ThreadTest_def ThreadTest1_def Thread_new_def Thread_Fork_def Thread_init_def StackAllocate_def thread_defs ping_def Let_def)
  then obtain s1 where s1: "ThreadTest 1 regs s = Inr s1" "ping ?a ?b s1" "locals s1 ?a = Some (0, 0)" "locals s1 ?b = Some (1, 0)" "printed s1 = printed s"
    by blast
  obtain m where m: "n = 2 * 5 + (2 + m)" using assms(10) by (metis add.assoc le_Suc_ex)
  obtain s2 where s2: "test_run n s1 = test_run (2 + m) s2" "ping ?a ?b s2" "locals s2 ?a = Some (0, 5)" "locals s2 ?b = Some (1, 5)"
      "resume (the (threads s2 ?b)) = InYield IntOn" "printed s2 = printed s1 @ concat (map (\<lambda>k. [(0, k), (1, k)]) [0..4])"
    using rounds[OF s1(2), of 0 5 1 "2 + m"] s1(3,4) unfolding m by auto
  obtain s3 where s3: "test_run 2 s2 = Inr s3" "cpu s3 = InSleep" "readyList s3 = []" "printed s3 = printed s2"
    using both_finish[OF s2(2-5)] by blast
  have "test_run (2 + m) s2 = Inr s3" using test_run_more[OF s3(1,2)] .
  moreover have "concat (map (\<lambda>k. [(0, k), (1, k)]) [0..4]) = [(0, 0), (1, 0), (0, 1), (1, 1), (0, 2), (1, 2), (0, 3), (1, 3), (0, 4), (1, 4 :: int)]"
    by (simp add: upto_rec1)
  ultimately show ?thesis using s1(1,5) s2(1,6) s3(2-4) by simp
qed

end
