(* ===== verification/Nachos_Main.thy ===== *)
theory Nachos_Main
  imports Nachos_Prelude
begin

text \<open>
  threads/main.cc and the first part of \<open>Initialize\<close> in threads/system.cc: the command line.

  The executables of the repository differ in the macros they are compiled with, so the macros are the record \<open>Build\<close>; the
  Makefiles of userprog (the same as that of threads), filesys and network are values of it. The arguments are the list without the name of the command. \<open>Initialize\<close> turns
  them into \<open>Options\<close>. \<open>main\<close> turns them into a sequence of calls, given as \<open>Action\<close>s, followed by the way it ends. The calls that
  do not return (\<open>StartProcess\<close> on a good file, \<open>Halt\<close>) are actions like the others: what comes
  after them in the sequence is then not reached.
\<close>

section \<open>Builds\<close>

record Build =
  THREADS :: bool
  USER_PROGRAM :: bool
  FILESYS_NEEDED :: bool
  FILESYS :: bool
  NETWORK :: bool

definition userprog_build :: Build where
  "userprog_build = \<lparr>THREADS = False, USER_PROGRAM = True, FILESYS_NEEDED = True, FILESYS = False, NETWORK = False\<rparr>"
definition filesys_build :: Build where
  "filesys_build = \<lparr>THREADS = True, USER_PROGRAM = True, FILESYS_NEEDED = True, FILESYS = True, NETWORK = False\<rparr>"
definition network_build :: Build where
  "network_build = \<lparr>THREADS = False, USER_PROGRAM = True, FILESYS_NEEDED = True, FILESYS = True, NETWORK = True\<rparr>"

section \<open>Numbers in arguments\<close>

text \<open>\<open>atoi\<close>: white space, an optional sign, digits up to the first other character.\<close>

definition digit_of :: "char \<Rightarrow> int" where "digit_of c = of_char c - 48"

fun atoi_digits :: "int \<Rightarrow> string \<Rightarrow> int" where
  "atoi_digits n [] = n"
| "atoi_digits n (c # cs) = (if 0 \<le> digit_of c \<and> digit_of c \<le> 9 then atoi_digits (n * 10 + digit_of c) cs else n)"

definition atoi :: "string \<Rightarrow> int" where
  "atoi s = (case dropWhile (\<lambda>c. c = CHR '' '' \<or> c \<in> {CHR 0x09, CHR 0x0A, CHR 0x0B, CHR 0x0C, CHR 0x0D}) s of
     [] \<Rightarrow> 0
   | c # cs \<Rightarrow> if c = CHR ''-'' then - atoi_digits 0 cs else if c = CHR ''+'' then atoi_digits 0 cs else atoi_digits 0 (c # cs))"

section \<open>The options of Initialize\<close>

text \<open>\<open>rely\<close> is the argument of \<open>atof\<close>, if there is one.\<close>

record Options =
  debugArgs :: string
  seed :: "int option"
  randomYield :: bool
  debugUserProg :: bool
  format :: bool
  rely :: "string option"
  netname :: int

definition no_options :: Options where
  "no_options = \<lparr>debugArgs = [], seed = None, randomYield = False, debugUserProg = False, format = False, rely = None, netname = 0\<rparr>"

text \<open>One iteration: the new options and how many arguments it has used.\<close>

definition init_arg :: "Build \<Rightarrow> string \<Rightarrow> string list \<Rightarrow> Options \<Rightarrow> (nat \<times> Options) res" where
  "init_arg B a rest op =
    bindR (if a = ''-d'' then (case rest of [] \<Rightarrow> Inr (1, op\<lparr>debugArgs := ''+''\<rparr>) | b # _ \<Rightarrow> Inr (2, op\<lparr>debugArgs := b\<rparr>))
           else if a = ''-rs'' then (case rest of [] \<Rightarrow> Inl AssertFailed | b # _ \<Rightarrow> Inr (2, op\<lparr>seed := Some (atoi b), randomYield := True\<rparr>))
           else Inr (1, op)) (\<lambda>(argCount, op).
    let op = (if USER_PROGRAM B \<and> a = ''-s'' then op\<lparr>debugUserProg := True\<rparr> else op);
        op = (if FILESYS_NEEDED B \<and> a = ''-f'' then op\<lparr>format := True\<rparr> else op) in
    if NETWORK B \<and> a = ''-l'' then (case rest of [] \<Rightarrow> Inl AssertFailed | b # _ \<Rightarrow> Inr (2, op\<lparr>rely := Some b\<rparr>))
    else if NETWORK B \<and> a = ''-m'' then (case rest of [] \<Rightarrow> Inl AssertFailed | b # _ \<Rightarrow> Inr (2, op\<lparr>netname := atoi b\<rparr>))
    else Inr (argCount, op))"

function init_args :: "Build \<Rightarrow> string list \<Rightarrow> Options \<Rightarrow> Options res" where
  "init_args B args op = (case args of [] \<Rightarrow> Inr op
     | a # rest \<Rightarrow> bindR (init_arg B a rest op) (\<lambda>(argCount, op). init_args B (drop (argCount - 1) rest) op))"
  by pat_completeness auto
termination
  by (relation "measure (\<lambda>(B, args, op). length args)") auto

declare init_args.simps [simp del]

text \<open>threads/utility.cc: the debug messages that \<open>debugArgs\<close> enables. \<open>strchr\<close> finds the zero byte at the end too.\<close>

definition DebugInit :: "string \<Rightarrow> string option" where "DebugInit flagList = Some flagList"

definition DebugIsEnabled :: "string option \<Rightarrow> char \<Rightarrow> bool" where
  "DebugIsEnabled enableFlags flag = (case enableFlags of None \<Rightarrow> False
     | Some fl \<Rightarrow> flag = CHR 0x00 \<or> flag \<in> set fl \<or> CHR ''+'' \<in> set fl)"

section \<open>The actions of main\<close>

datatype Action = RunThreadTest int | PrintCopyright | RunStartProcess string | RunConsoleTest "(string \<times> string) option" | HaltMachine
  | CopyFile string string | PrintFile string | RemoveFile string | ListFiles | PrintFileSystem | RunPerformanceTest
  | RunMailTest int

text \<open>The loop that looks for \<open>-q\<close> compares the second character of an argument. The second character of an empty
  argument is not there, and after a last \<open>-q\<close> the argument is a null pointer.\<close>

function testnum_args :: "string list \<Rightarrow> int \<Rightarrow> int res" where
  "testnum_args args testnum = (case args of [] \<Rightarrow> Inr testnum
     | a # rest \<Rightarrow> if a = [] then Inl OutOfBounds
         else if length a \<ge> 2 \<and> a ! 1 = CHR ''q'' then (case rest of [] \<Rightarrow> Inl NullPointer | b # rest \<Rightarrow> testnum_args rest (atoi b))
         else testnum_args rest 1)"
  by pat_completeness auto
termination
  by (relation "measure (\<lambda>(args, n). length args)") auto

declare testnum_args.simps [simp del]

text \<open>One iteration of the second loop: the calls, and how many arguments it has used, unless an assertion fails.\<close>

definition main_arg :: "Build \<Rightarrow> string \<Rightarrow> string list \<Rightarrow> Action list \<times> nat res" where
  "main_arg B a rest =
    (let ac = length rest + 1;
         z = (if a = ''-z'' then [PrintCopyright] else []);
         (u, nu) = (if USER_PROGRAM B \<and> a = ''-x'' then (if ac > 1 then ([RunStartProcess (rest ! 0)], Inr 2) else ([], Inl AssertFailed))
           else if USER_PROGRAM B \<and> a = ''-c'' then
             (if ac = 1 then ([RunConsoleTest None, HaltMachine], Inr 1)
              else if ac > 2 then ([RunConsoleTest (Some (rest ! 0, rest ! 1)), HaltMachine], Inr 3) else ([], Inl AssertFailed))
           else ([], Inr 1));
         (f, nf) = (if \<not> FILESYS B then ([], nu)
           else if a = ''-cp'' then (if ac > 2 then ([CopyFile (rest ! 0) (rest ! 1)], Inr 3) else ([], Inl AssertFailed))
           else if a = ''-p'' then (if ac > 1 then ([PrintFile (rest ! 0)], Inr 2) else ([], Inl AssertFailed))
           else if a = ''-r'' then (if ac > 1 then ([RemoveFile (rest ! 0)], Inr 2) else ([], Inl AssertFailed))
           else if a = ''-l'' then ([ListFiles], nu)
           else if a = ''-D'' then ([PrintFileSystem], nu)
           else if a = ''-t'' then ([RunPerformanceTest], nu)
           else ([], nu));
         (n, nn) = (if NETWORK B \<and> a = ''-o'' then (if ac > 1 then ([RunMailTest (atoi (rest ! 0))], Inr 2) else ([], Inl AssertFailed))
           else ([], nf))
     in (z @ u @ f @ n, nn))"

lemma main_arg_used: "main_arg B a rest = (as, Inr n) \<Longrightarrow> 0 < n \<and> n \<le> length rest + 1"
  by (cases rest; cases "tl rest") (auto simp: main_arg_def Let_def split: if_splits)

text \<open>The loop; the result is the calls made and \<open>Inr ()\<close> if the end of \<open>main\<close>, the call of \<open>Finish\<close>, is reached.\<close>

function main_args :: "Build \<Rightarrow> string list \<Rightarrow> Action list \<times> unit res" where
  "main_args B args = (case args of [] \<Rightarrow> ([], Inr ())
     | a # rest \<Rightarrow> (case main_arg B a rest of
         (as, Inl e) \<Rightarrow> (as, Inl e)
       | (as, Inr n) \<Rightarrow> (let (bs, r) = main_args B (drop (n - 1) rest) in (as @ bs, r))))"
  by pat_completeness auto
termination
  by (relation "measure (\<lambda>(B, args). length args)") auto

declare main_args.simps [simp del]

text \<open>With \<open>THREADS\<close> the first loop leaves \<open>argc\<close> at 0, and the second starts by decrementing it: it makes no iteration.\<close>

definition main_calls :: "Build \<Rightarrow> string list \<Rightarrow> (Options \<times> Action list \<times> unit res) res" where
  "main_calls B args = bindR (init_args B args no_options) (\<lambda>op.
     if THREADS B then
       (case testnum_args args 1 of Inl e \<Rightarrow> Inr (op, [], Inl e) | Inr t \<Rightarrow> Inr (op, [RunThreadTest t], Inr ()))
     else Inr (op, main_args B args))"

section \<open>What the command lines do\<close>

text \<open>The options that ask for one call each, as they are typed.\<close>

fun args_of :: "Action \<Rightarrow> string list" where
  "args_of PrintCopyright = [''-z'']"
| "args_of (RunStartProcess f) = [''-x'', f]"
| "args_of (CopyFile f g) = [''-cp'', f, g]"
| "args_of (PrintFile f) = [''-p'', f]"
| "args_of (RemoveFile f) = [''-r'', f]"
| "args_of ListFiles = [''-l'']"
| "args_of PrintFileSystem = [''-D'']"
| "args_of RunPerformanceTest = [''-t'']"
| "args_of _ = []"

lemma main_args_one:
  assumes "USER_PROGRAM B" and "FILESYS B" and "args_of a \<noteq> []"
  shows "main_args B (args_of a @ rest) = (a # fst (main_args B rest), snd (main_args B rest))"
  using assms by (cases a; subst main_args.simps) (simp_all add: main_arg_def Let_def case_prod_beta)

text \<open>In the build of network, a command line is the sequence of the calls its options ask for, whatever the file names are.\<close>

theorem command_line_roundtrip:
  assumes "USER_PROGRAM B" and "FILESYS B" and "\<And>a. a \<in> set acts \<Longrightarrow> args_of a \<noteq> []"
  shows "main_args B (concat (map args_of acts)) = (acts, Inr ())"
  using assms(3)
proof (induction acts)
  case Nil
  then show ?case by (subst main_args.simps) simp
next
  case (Cons a acts)
  then show ?case using main_args_one[OF assms(1,2), of a "concat (map args_of acts)"] by simp
qed

text \<open>In the build of filesys, which has \<open>THREADS\<close>, no command line makes any of these calls: all that \<open>main\<close> does is the thread
  test.\<close>

theorem threads_ignores_options:
  assumes "main_calls filesys_build args = Inr (op, acts, r)"
  shows "acts = [] \<and> r \<noteq> Inr () \<or> (\<exists>t. acts = [RunThreadTest t]) \<and> r = Inr ()"
  using assms by (cases "testnum_args args 1") (auto simp: main_calls_def filesys_build_def bindR_eq_Inr)

text \<open>The initialisation understands \<open>-l\<close> for the reliability; the \<open>-n\<close> of the usage message does nothing.\<close>

lemma init_arg_n: "init_arg B ''-n'' rest op = Inr (1, op)"
  by (simp add: init_arg_def)

lemma copy_ignored: "main_calls filesys_build [''-cp'', ''a'', ''b''] = Inr (no_options, [RunThreadTest 1], Inr ())"
  by (simp add: main_calls_def filesys_build_def init_args.simps init_arg_def testnum_args.simps)

text \<open>A last \<open>-d\<close> enables all debug messages; without \<open>-d\<close> there is none.\<close>

lemma init_args_Nil [simp]: "init_args B [] op = Inr op"
  by (simp add: init_args.simps)

lemma debug_all: "init_args B [''-d''] no_options = Inr op \<Longrightarrow> DebugIsEnabled (DebugInit (debugArgs op)) c"
  by (subst (asm) init_args.simps) (auto simp: init_arg_def DebugIsEnabled_def DebugInit_def)

lemma init_arg_debug: "init_arg B a rest op = Inr (n, op') \<Longrightarrow> a \<noteq> ''-d'' \<Longrightarrow> debugArgs op' = debugArgs op"
  by (auto simp: init_arg_def bindR_eq_Inr Let_def split: if_splits list.splits)

lemma debug_none: "init_args B args op = Inr op' \<Longrightarrow> ''-d'' \<notin> set args \<Longrightarrow> debugArgs op' = debugArgs op"
proof (induction B args op rule: init_args.induct)
  case (1 B args op)
  show ?case
  proof (cases args)
    case Nil
    then show ?thesis using 1(2) by simp
  next
    case (Cons a rest)
    then obtain n op1 where n: "init_arg B a rest op = Inr (n, op1)" "init_args B (drop (n - 1) rest) op1 = Inr op'"
      using 1(2) by (subst (asm) init_args.simps) (auto simp: bindR_eq_Inr)
    have "''-d'' \<notin> set (drop (n - 1) rest)" using 1(3) Cons by (auto dest: in_set_dropD)
    then have "debugArgs op' = debugArgs op1" using 1(1)[OF Cons] n by auto
    then show ?thesis using init_arg_debug[OF n(1)] 1(3) Cons by auto
  qed
qed

end
