(* ===== verification/Nachos_Cleanup.thy ===== *)
theory Nachos_Cleanup
  imports Nachos_ProcInv
begin

text \<open>
  The destructors of the tables (threads/ptable.cc, stable.cc, the stub of filesys/filesys.h) and \<open>Cleanup\<close>
  (threads/system.cc), which runs when the machine halts.

  \<open>delete\<close> of an object without a destructor of its own frees memory only. \<open>Cleanup\<close> deletes the console, whose files are the
  standard ones and stay open, the file system, and nothing of the process and semaphore tables.
\<close>

section \<open>The semaphore table\<close>

definition Sem_delete :: "Sem \<Rightarrow> 'k OS_scheme \<Rightarrow> 'k OS_scheme res" where
  "Sem_delete se s = Semaphore_delete (sm_sem se) s"

definition STable_delete :: "'k OS_scheme \<Rightarrow> 'k OS_scheme res" where
  "STable_delete s = forR (\<lambda>i s. if i \<ge> length (semTab s) then Inl OutOfBounds
     else (case semTab s ! i of None \<Rightarrow> Inr s | Some se \<Rightarrow> Sem_delete se s)) [0..<MAX_SEMAPHORE] s"

section \<open>The process table\<close>

text \<open>The destructor of a \<open>PCB\<close> finishes a thread or faults (Nachos_Process), so that the loop does not get past the first one.\<close>

primrec delete_pcbs :: "nat list \<Rightarrow> 'k OS_scheme \<Rightarrow> ('k OS_scheme) kprog" where
  "delete_pcbs [] s = liftK (Semaphore_delete (bmsem s) s) (KRet 0)"
| "delete_pcbs (i # is) s = (if i \<ge> length (pcb s) then KFault OutOfBounds
     else (case pcb s ! i of None \<Rightarrow> delete_pcbs is s | Some a \<Rightarrow> bindK (PCB_delete a s) (\<lambda>_ s. delete_pcbs is s)))"

definition PTable_delete :: "'k OS_scheme \<Rightarrow> ('k OS_scheme) kprog" where
  "PTable_delete s = delete_pcbs [0..<nat (psize s)] s"

section \<open>The file system and Cleanup\<close>

definition StubFS_delete :: "StubFS \<Rightarrow> StubFS res" where
  "StubFS_delete f = forR (\<lambda>i f. if i \<ge> length (openf f) then Inl OutOfBounds
     else (case openf f ! i of None \<Rightarrow> Inr f | Some p \<Rightarrow> delete_file p f)) [0..<15] f"

text \<open>The destructor of the console deletes its four semaphores.\<close>

definition SynchConsole_delete :: "'k OS_scheme \<Rightarrow> 'k OS_scheme res" where
  "SynchConsole_delete s = forR Semaphore_delete (consSems s) s"

definition Cleanup :: "'k OS_scheme \<Rightarrow> 'k OS_scheme res" where
  "Cleanup s = bindR (SynchConsole_delete (s\<lparr>machine := None\<rparr>)) (\<lambda>s.
     bindR (StubFS_delete (fs s)) (\<lambda>f. Inr (s\<lparr>fs := f\<rparr>)))"

section \<open>What they leave\<close>

lemma sems_delete_loop:
  assumes "set is \<subseteq> {..<length (semTab s)}" and "\<And>i se. i \<in> set is \<Longrightarrow> semTab s ! i = Some se \<Longrightarrow> sems s (sm_sem se) \<noteq> None"
    and "distinct is" and "\<forall>i\<in>set is. \<forall>j\<in>set is. \<forall>se se'. semTab s ! i = Some se \<and> semTab s ! j = Some se' \<and> sm_sem se = sm_sem se' \<longrightarrow> i = j"
  shows "forR (\<lambda>i s. if i \<ge> length (semTab s) then Inl OutOfBounds
     else (case semTab s ! i of None \<Rightarrow> Inr s | Some se \<Rightarrow> Sem_delete se s)) is s =
     Inr (s\<lparr>sems := (\<lambda>k. if \<exists>i\<in>set is. \<exists>se. semTab s ! i = Some se \<and> sm_sem se = k then None else sems s k)\<rparr>)"
  using assms
proof (induction "is" arbitrary: s)
  case (Cons i js)
  show ?case
  proof (cases "semTab s ! i")
    case None
    have "forR (\<lambda>i s. if i \<ge> length (semTab s) then Inl OutOfBounds
       else (case semTab s ! i of None \<Rightarrow> Inr s | Some se \<Rightarrow> Sem_delete se s)) js s =
       Inr (s\<lparr>sems := (\<lambda>k. if \<exists>i\<in>set js. \<exists>se. semTab s ! i = Some se \<and> sm_sem se = k then None else sems s k)\<rparr>)"
      by (rule Cons.IH) (use Cons.prems in auto)
    then show ?thesis using None Cons.prems(1) by simp
  next
    case (Some se)
    let ?s = "s\<lparr>sems := (sems s)(sm_sem se := None)\<rparr>"
    have d: "Sem_delete se s = Inr ?s" using Cons.prems(2)[of i se] Some by (auto simp: Sem_delete_def Semaphore_delete_def get_sem_def)
    have live: "sems ?s (sm_sem se') \<noteq> None" if "j \<in> set js" "semTab ?s ! j = Some se'" for j se'
      using that Cons.prems(2)[of j se'] Cons.prems(4)[rule_format, of i j se se'] Cons.prems(3) Some by auto
    have "forR (\<lambda>i s. if i \<ge> length (semTab s) then Inl OutOfBounds
       else (case semTab s ! i of None \<Rightarrow> Inr s | Some se \<Rightarrow> Sem_delete se s)) js ?s =
       Inr (?s\<lparr>sems := (\<lambda>k. if \<exists>i\<in>set js. \<exists>se. semTab ?s ! i = Some se \<and> sm_sem se = k then None else sems ?s k)\<rparr>)"
      by (rule Cons.IH) (use Cons.prems live in auto)
    moreover have "(\<lambda>k. if \<exists>i\<in>set js. \<exists>se. semTab ?s ! i = Some se \<and> sm_sem se = k then None else sems ?s k)
       = (\<lambda>k. if \<exists>i\<in>set (i # js). \<exists>se. semTab s ! i = Some se \<and> sm_sem se = k then None else sems s k)"
      using Some by (auto simp: fun_eq_iff)
    ultimately show ?thesis using Cons.prems(1) Some d by simp
  qed
qed simp

text \<open>The destructor of the semaphore table deletes exactly the semaphores with a name.\<close>

lemma STable_delete_ok:
  assumes "length (semTab s) = MAX_SEMAPHORE" and "\<And>i se. i < MAX_SEMAPHORE \<Longrightarrow> semTab s ! i = Some se \<Longrightarrow> sems s (sm_sem se) \<noteq> None"
    and "\<forall>i<MAX_SEMAPHORE. \<forall>j<MAX_SEMAPHORE. \<forall>se se'. semTab s ! i = Some se \<and> semTab s ! j = Some se' \<and> sm_sem se = sm_sem se' \<longrightarrow> i = j"
  shows "STable_delete s = Inr (s\<lparr>sems := (\<lambda>k. if \<exists>i<MAX_SEMAPHORE. \<exists>se. semTab s ! i = Some se \<and> sm_sem se = k then None else sems s k)\<rparr>)"
  unfolding STable_delete_def using assms by (subst sems_delete_loop) (auto simp: Bex_def)

lemma PCB_delete_not_KRet: "bindK (PCB_delete a s) f \<noteq> KRet r s'"
  by (auto simp: PCB_delete_def liftK_def split: sum.splits option.splits)

text \<open>With a process in the table, which is always there, the destructor of the process table does not return.\<close>

lemma PTable_delete_not_returning:
  assumes "i < nat (psize s)" and "pcb s ! i \<noteq> None"
  shows "PTable_delete s \<noteq> KRet r s'"
proof -
  have "delete_pcbs is s \<noteq> KRet r s'" if "i \<in> set is" for "is"
    using that
  proof (induction "is")
    case (Cons j js)
    then show ?case using assms(2) by (auto simp: PCB_delete_not_KRet split: option.splits)
  qed simp
  then show ?thesis using assms(1) by (simp add: PTable_delete_def)
qed

lemma delete_file_frame: "delete_file p f = Inr f' \<Longrightarrow> openf f' = openf f \<and> (\<forall>q. sf_heap f q = None \<longrightarrow> sf_heap f' q = None) \<and> sf_heap f p \<noteq> None"
  by (auto simp: delete_file_def bindR_eq_Inr split: option.splits)

lemma sems_delete_fs: "forR Semaphore_delete is s = Inr s' \<Longrightarrow> fs s' = fs s"
proof (induction "is" arbitrary: s)
  case (Cons i js)
  then obtain s1 where s1: "Semaphore_delete i s = Inr s1" "forR Semaphore_delete js s1 = Inr s'" by (auto simp: bindR_eq_Inr)
  have "fs s1 = fs s" using s1(1) by (auto simp: Semaphore_delete_def bindR_eq_Inr)
  with Cons.IH[OF s1(2)] show ?case by simp
qed simp

text \<open>A file closed by a system call stays in the open-file table as a dangling pointer (Exception_Close), and the file system is
  then not deleted without a fault: halting the machine after a close deletes the file twice.\<close>

theorem cleanup_after_close:
  assumes "i < 15" and "openf (fs s) ! i = Some p" and "sf_heap (fs s) p = None"
  shows "Cleanup s \<noteq> Inr s'"
proof -
  let ?f = "\<lambda>i g. if i \<ge> length (openf g) then Inl OutOfBounds else (case openf g ! i of None \<Rightarrow> Inr g | Some p \<Rightarrow> delete_file p g)"
  have "forR ?f is g \<noteq> Inr g'" if "i \<in> set is" "openf g ! i = Some p" "sf_heap g p = None" for "is" g g'
    using that
  proof (induction "is" arbitrary: g)
    case (Cons j js)
    show ?case
    proof (cases "j = i")
      case True
      then show ?thesis using Cons.prems(2,3) by (simp add: delete_file_def)
    next
      case False
      then have "forR ?f js g1 \<noteq> Inr g'" if "?f j g = Inr g1" for g1
        using Cons.IH[of g1] Cons.prems that delete_file_frame by (fastforce split: if_splits option.splits)
      then show ?thesis by (auto simp: bindR_eq_Inr)
    qed
  qed simp
  then show ?thesis using assms by (auto simp: Cleanup_def SynchConsole_delete_def StubFS_delete_def bindR_eq_Inr dest!: sems_delete_fs)
qed

end
