(* ===== verification/Nachos_SynchCons.thy ===== *)
theory Nachos_SynchCons
  imports Nachos_System
begin

text \<open>
  threads/synchcons.cc with any number of threads: readers and writers of the synchronous console at each of
  their calls of \<open>P\<close>, \<open>V\<close> and of the device, interleaved with each other and with the console's interrupts in any
  order. \<open>SCons\<close> is what they share: the device, the values of the four semaphores, and the number of pending
  write interrupts. That the handlers of Nachos_System act on it as \<open>sc_int\<close> does is shown at the end.

  The theorem is that the calls are atomic: every \<open>Read\<close> returns what the one-step \<open>SynchConsole_Read\<close> of
  Nachos_Console returns if the calls are made one after the other, in the order in which the threads got
  \<open>RLineBlock\<close>, and the bytes of every \<open>Write\<close> are together on the screen, in the order of \<open>WLineBlock\<close>.
\<close>

section \<open>The shared console\<close>

record SCons =
  sc_cons :: Console
  sc_read :: int
  sc_write :: int
  sc_rline :: int
  sc_wline :: int
  sc_pending :: nat

text \<open>The constructors: the device with its input (the UNIX file of \<open>in\<close>, or the keyboard), and the semaphores.\<close>

definition SynchConsole_new :: "byte list \<Rightarrow> SCons" where
  "SynchConsole_new input = \<lparr>sc_cons = Console_new input, sc_read = 0, sc_write = 0, sc_rline = 1, sc_wline = 1, sc_pending = 0\<rparr>"

text \<open>The two interrupts, with the handlers \<open>SynchReadFunct\<close> and \<open>SynchWriteFunct\<close>.\<close>

definition SynchReadFunct :: "SCons \<Rightarrow> SCons" where
  "SynchReadFunct d = d\<lparr>sc_read := sc_read d + 1\<rparr>"

definition SynchWriteFunct :: "SCons \<Rightarrow> SCons" where
  "SynchWriteFunct d = d\<lparr>sc_write := sc_write d + 1\<rparr>"

definition sc_poll :: "SCons \<Rightarrow> SCons" where
  "sc_poll d = (let (arrived, c) = Console_CheckCharAvail (sc_cons d); d = d\<lparr>sc_cons := c\<rparr> in if arrived then SynchReadFunct d else d)"

definition sc_done :: "SCons \<Rightarrow> SCons" where
  "sc_done d = SynchWriteFunct (d\<lparr>sc_cons := Console_WriteDone (sc_cons d), sc_pending := sc_pending d - 1\<rparr>)"

inductive sc_int :: "SCons \<Rightarrow> SCons \<Rightarrow> bool" where
  poll: "sc_int d (sc_poll d)"
| finished: "0 < sc_pending d \<Longrightarrow> sc_int d (sc_done d)"

section \<open>Read\<close>

datatype rd_pc = RdLine | RdWait | RdGet | RdUnlock | RdEnd int

record Reader =
  rd_pc :: rd_pc
  rd_num :: int
  rd_into :: "byte list"
  rd_ch :: byte

text \<open>A call of \<open>Read(into, n)\<close>. \<open>rd_into\<close> is the bytes stored so far; the others of the \<open>n\<close> are zero.\<close>

definition Read_call :: "byte \<Rightarrow> int \<Rightarrow> Reader" where
  "Read_call junk n = \<lparr>rd_pc = RdLine, rd_num = n, rd_into = [], rd_ch = junk\<rparr>"

definition rd_loop :: "Reader \<Rightarrow> Reader" where
  "rd_loop r = r\<lparr>rd_pc := if int (length (rd_into r)) < rd_num r then RdWait else RdUnlock\<rparr>"

definition rd_step :: "Reader \<Rightarrow> SCons \<Rightarrow> (Reader \<times> SCons) option" where
  "rd_step r d = (case rd_pc r of
     RdLine \<Rightarrow> if sc_rline d = 0 then None else Some (rd_loop r, d\<lparr>sc_rline := sc_rline d - 1\<rparr>)
   | RdWait \<Rightarrow> if sc_read d = 0 then None else Some (r\<lparr>rd_pc := RdGet\<rparr>, d\<lparr>sc_read := sc_read d - 1\<rparr>)
   | RdGet \<Rightarrow> (let (ch, c) = Console_GetChar (sc_cons d); d = d\<lparr>sc_cons := c\<rparr>; r = r\<lparr>rd_ch := ch\<rparr> in
       if ch = EOFc then Some (r\<lparr>rd_pc := RdWait\<rparr>, d)
       else if ch = 10 \<or> ch = 1 then Some (r\<lparr>rd_pc := RdUnlock\<rparr>, d)
       else Some (rd_loop (r\<lparr>rd_into := rd_into r @ [ch]\<rparr>), d))
   | RdUnlock \<Rightarrow> Some (r\<lparr>rd_pc := RdEnd (if rd_ch r = 1 then -1 else int (length (rd_into r)))\<rparr>, d\<lparr>sc_rline := sc_rline d + 1\<rparr>)
   | RdEnd v \<Rightarrow> None)"

section \<open>Write\<close>

datatype wr_pc = WrLine | WrPut | WrWait | WrUnlock | WrEnd int

record Writer =
  wr_pc :: wr_pc
  wr_from :: "byte list"
  wr_num :: int
  wr_loop :: nat

definition Write_call :: "byte list \<Rightarrow> int \<Rightarrow> Writer" where
  "Write_call from n = \<lparr>wr_pc = WrLine, wr_from = from, wr_num = n, wr_loop = 0\<rparr>"

definition wr_next :: "Writer \<Rightarrow> Writer" where
  "wr_next w = w\<lparr>wr_pc := if int (wr_loop w) < wr_num w then WrPut else WrUnlock\<rparr>"

definition wr_step :: "Writer \<Rightarrow> SCons \<Rightarrow> (Writer \<times> SCons) option res" where
  "wr_step w d = (case wr_pc w of
     WrLine \<Rightarrow> Inr (if sc_wline d = 0 then None else Some (wr_next w, d\<lparr>sc_wline := sc_wline d - 1\<rparr>))
   | WrPut \<Rightarrow> (if wr_loop w \<ge> length (wr_from w) then Inl OutOfBounds else
       bindR (Console_PutChar (wr_from w ! wr_loop w) (sc_cons d)) (\<lambda>c.
         Inr (Some (w\<lparr>wr_pc := WrWait\<rparr>, d\<lparr>sc_cons := c, sc_pending := sc_pending d + 1\<rparr>))))
   | WrWait \<Rightarrow> Inr (if sc_write d = 0 then None
       else Some (wr_next (w\<lparr>wr_loop := wr_loop w + 1\<rparr>), d\<lparr>sc_write := sc_write d - 1\<rparr>))
   | WrUnlock \<Rightarrow> Inr (Some (w\<lparr>wr_pc := WrEnd (wr_num w)\<rparr>, d\<lparr>sc_wline := sc_wline d + 1\<rparr>))
   | WrEnd v \<Rightarrow> Inr None)"

section \<open>All threads\<close>

datatype call = Reading Reader | Writing Writer

text \<open>\<open>rorder\<close> and \<open>worder\<close> record in which order the threads got the two line semaphores.\<close>

record CSys =
  dev_st :: SCons
  calls :: "nat \<Rightarrow> call option"
  rorder :: "nat list"
  worder :: "nat list"

inductive cstep :: "CSys \<Rightarrow> CSys \<Rightarrow> bool" where
  interrupt: "sc_int (dev_st t) d \<Longrightarrow> cstep t (t\<lparr>dev_st := d\<rparr>)"
| read: "calls t i = Some (Reading r) \<Longrightarrow> rd_step r (dev_st t) = Some (r', d) \<Longrightarrow>
    cstep t (t\<lparr>dev_st := d, calls := (calls t)(i \<mapsto> Reading r'), rorder := rorder t @ (if rd_pc r = RdLine then [i] else [])\<rparr>)"
| written: "calls t i = Some (Writing w) \<Longrightarrow> wr_step w (dev_st t) = Inr (Some (w', d)) \<Longrightarrow>
    cstep t (t\<lparr>dev_st := d, calls := (calls t)(i \<mapsto> Writing w'), worder := worder t @ (if wr_pc w = WrLine then [i] else [])\<rparr>)"

definition csys_start :: "byte list \<Rightarrow> (nat \<Rightarrow> call option) \<Rightarrow> CSys" where
  "csys_start input cs = \<lparr>dev_st = SynchConsole_new input, calls = cs, rorder = [], worder = []\<rparr>"

text \<open>Calls that have not begun.\<close>

definition fresh_call :: "call \<Rightarrow> bool" where
  "fresh_call c \<longleftrightarrow> (case c of Reading r \<Rightarrow> rd_pc r = RdLine \<and> rd_into r = []
     | Writing w \<Rightarrow> wr_pc w = WrLine \<and> wr_loop w = 0 \<and> wr_num w \<le> int (length (wr_from w)))"

section \<open>Atomic calls\<close>

text \<open>What one \<open>Read\<close> of \<open>n\<close> bytes takes from the characters typed: the bytes stored, the character that ended it if
  there was one, and the rest. This is the one-step model of Nachos_Console.\<close>

fun take_line :: "nat \<Rightarrow> byte list \<Rightarrow> (byte list \<times> byte list \<times> byte list) option" where
  "take_line 0 ks = Some ([], [], ks)"
| "take_line (Suc n) [] = None"
| "take_line (Suc n) (c # ks) = (if c = 10 \<or> c = 1 then Some ([], [c], ks)
     else map_option (\<lambda>(bs, e, rest). (c # bs, e, rest)) (take_line n ks))"

lemma take_line_is_read_line:
  assumes "EOFc \<notin> set ks" and "incoming c = EOFc" and "keys c = ks" and "take_line n ks = Some (bs, e, rest)"
  shows "\<exists>lst. read_line n ch c = Some (bs, lst, c\<lparr>keys := rest, charsRead := charsRead c + int (length bs + length e)\<rparr>)
    \<and> (e \<noteq> [] \<longrightarrow> e = [lst]) \<and> (e = [] \<longrightarrow> lst = last (ch # bs))"
  using assms
proof (induction n ks arbitrary: bs c ch rule: take_line.induct)
  case (3 n k ks)
  have g: "SynchConsole_getc c = Some (k, c\<lparr>keys := ks, charsRead := charsRead c + 1\<rparr>)" using 3 by (intro getc_typed) auto
  show ?case
  proof (cases "k = 10 \<or> k = 1")
    case True
    then show ?thesis using 3 g by auto
  next
    case False
    then obtain bs' where b: "take_line n ks = Some (bs', e, rest)" "bs = k # bs'" using 3(5) by auto
    have "EOFc \<notin> set ks" using 3(2) by simp
    from "3.IH"[OF False this _ _ b(1), of "c\<lparr>keys := ks, charsRead := charsRead c + 1\<rparr>" k] show ?thesis
      using 3(3) b(2) g False by (cases bs') auto
  qed
qed auto

section \<open>Readers\<close>

definition rcrit :: "Reader \<Rightarrow> bool" where
  "rcrit r \<longleftrightarrow> rd_pc r = RdWait \<or> rd_pc r = RdGet \<or> rd_pc r = RdUnlock"

definition rd_over :: "Reader \<Rightarrow> bool" where
  "rd_over r \<longleftrightarrow> rd_pc r = RdUnlock \<or> (\<exists>v. rd_pc r = RdEnd v)"

text \<open>The characters a reader has taken: with the one that ended the line, if it did.\<close>

definition used :: "Reader \<Rightarrow> byte list" where
  "used r = rd_into r @ (if rd_over r \<and> int (length (rd_into r)) < rd_num r then [rd_ch r] else [])"

text \<open>A reader as far as it has come, against its call.\<close>

definition reader_ok :: "Reader \<Rightarrow> Reader \<Rightarrow> bool" where
  "reader_ok r0 r \<longleftrightarrow> rd_num r = rd_num r0 \<and> list_all plain (rd_into r) \<and> int (length (rd_into r)) \<le> max 0 (rd_num r)
     \<and> (if rd_over r \<and> int (length (rd_into r)) < rd_num r then rd_ch r = 10 \<or> rd_ch r = 1 else rd_ch r = last (rd_ch r0 # rd_into r))
     \<and> (rd_pc r = RdLine \<longrightarrow> rd_into r = []) \<and> (rd_pc r = RdWait \<or> rd_pc r = RdGet \<longrightarrow> int (length (rd_into r)) < rd_num r)
     \<and> (\<forall>v. rd_pc r = RdEnd v \<longrightarrow> v = (if rd_ch r = 1 then -1 else int (length (rd_into r))))"

definition buffered :: "Console \<Rightarrow> byte list" where
  "buffered c = (if incoming c = EOFc then [] else [incoming c])"

definition taken :: "(nat \<Rightarrow> Reader option) \<Rightarrow> nat list \<Rightarrow> byte list" where
  "taken R order = concat (map (\<lambda>i. used (the (R i))) order)"

text \<open>\<open>h\<close> is the thread that holds \<open>RLineBlock\<close>.\<close>

definition rinv :: "byte list \<Rightarrow> (nat \<Rightarrow> Reader option) \<Rightarrow> (nat \<Rightarrow> Reader option) \<Rightarrow> SCons \<Rightarrow> nat list \<Rightarrow> nat option \<Rightarrow> bool" where
  "rinv K R0 R d order h \<longleftrightarrow> EOFc \<notin> set K
     \<and> (\<forall>i r. R i = Some r \<longrightarrow> (rcrit r \<longleftrightarrow> h = Some i))
     \<and> (\<forall>i. h = Some i \<longrightarrow> (\<exists>r ys. R i = Some r \<and> order = ys @ [i]))
     \<and> sc_rline d = (if h = None then 1 else 0)
     \<and> distinct order \<and> (\<forall>i. i \<in> set order \<longleftrightarrow> (\<exists>r. R i = Some r \<and> rd_pc r \<noteq> RdLine))
     \<and> 0 \<le> sc_read d \<and> sc_read d + (if \<exists>i r. h = Some i \<and> R i = Some r \<and> rd_pc r = RdGet then 1 else 0) = int (length (buffered (sc_cons d)))
     \<and> taken R order @ buffered (sc_cons d) @ keys (sc_cons d) = K
     \<and> dom R = dom R0 \<and> (\<forall>i r. R i = Some r \<longrightarrow> reader_ok (the (R0 i)) r)"

lemma taken_upd:
  assumes "i \<notin> set ys"
  shows "taken (R(i \<mapsto> r)) (ys @ [i]) = taken R ys @ used r" "taken (R(i \<mapsto> r)) ys = taken R ys"
proof -
  have c: "concat (map (\<lambda>j. used (the ((R(i \<mapsto> r)) j))) ys) = concat (map (\<lambda>j. used (the (R j))) ys)"
    using assms by (intro arg_cong[of _ _ concat] map_cong) auto
  show "taken (R(i \<mapsto> r)) (ys @ [i]) = taken R ys @ used r" "taken (R(i \<mapsto> r)) ys = taken R ys"
    unfolding taken_def map_append concat_append c by simp_all
qed

lemma rinv_poll:
  assumes "rinv K R0 R d order h"
  shows "rinv K R0 R (sc_poll d) order h"
proof (cases "incoming (sc_cons d) = EOFc \<and> keys (sc_cons d) \<noteq> []")
  case True
  then obtain k ks where k: "keys (sc_cons d) = k # ks" "incoming (sc_cons d) = EOFc" by (cases "keys (sc_cons d)") auto
  have "k \<in> set K" using assms k by (auto simp: rinv_def)
  then have "k \<noteq> EOFc" using assms by (auto simp: rinv_def)
  then show ?thesis using assms k by (simp add: rinv_def sc_poll_def Console_CheckCharAvail_def SynchReadFunct_def buffered_def)
next
  case False
  then have "sc_poll d = d" by (auto simp: sc_poll_def Console_CheckCharAvail_def Let_def split: list.splits)
  then show ?thesis using assms by simp
qed

text \<open>The fields that readers do not use.\<close>

lemma rinv_frame:
  assumes "rinv K R0 R d order h" and "sc_rline d' = sc_rline d" and "sc_read d' = sc_read d"
    and "incoming (sc_cons d') = incoming (sc_cons d)" and "keys (sc_cons d') = keys (sc_cons d)"
  shows "rinv K R0 R d' order h"
  using assms(1) unfolding rinv_def buffered_def assms(2-5) by assumption

text \<open>Another state of the thread that holds the line.\<close>

lemma rinv_holder:
  assumes inv: "rinv K R0 R d order (Some i)" and r: "R i = Some r" and c: "rcrit r'" and ok: "reader_ok (the (R0 i)) r'"
    and line: "sc_rline d' = sc_rline d" and nn: "0 \<le> sc_read d'" and val: "sc_read d' + (if rd_pc r' = RdGet then 1 else 0) = int (length (buffered (sc_cons d')))"
    and str: "used r' @ buffered (sc_cons d') @ keys (sc_cons d') = used r @ buffered (sc_cons d) @ keys (sc_cons d)"
  shows "rinv K R0 (R(i \<mapsto> r')) d' order (Some i)"
proof -
  obtain ys where ys: "order = ys @ [i]" "i \<notin> set ys" using inv by (auto simp: rinv_def)
  have "taken R order = taken R ys @ used r" using ys r by (simp add: taken_def)
  then have "taken (R(i \<mapsto> r')) order @ buffered (sc_cons d') @ keys (sc_cons d') = K"
    using inv str ys taken_upd(1)[OF ys(2), of R r'] by (auto simp: rinv_def)
  moreover have "rcrit r" using inv r by (auto simp: rinv_def)
  then have "rd_pc r' \<noteq> RdLine" "rd_pc r \<noteq> RdLine" using c by (auto simp: rcrit_def)
  ultimately show ?thesis using inv r c ok line nn val ys(1) by (auto simp: rinv_def)
qed

lemma rd_loop_simps [simp]: "rd_into (rd_loop r) = rd_into r" "rd_num (rd_loop r) = rd_num r" "rd_ch (rd_loop r) = rd_ch r" "rcrit (rd_loop r)"
  "rd_pc (rd_loop r) \<noteq> RdLine" "rd_pc (rd_loop r) \<noteq> RdGet"
  by (simp_all add: rd_loop_def rcrit_def)

lemma used_loop: "used (rd_loop r) = rd_into r"
  by (auto simp: used_def rd_over_def rd_loop_def)

lemma rd_loop_ok:
  assumes "rd_num r = rd_num r0" and "list_all plain (rd_into r)" and "int (length (rd_into r)) \<le> max 0 (rd_num r)"
    and "rd_ch r = last (rd_ch r0 # rd_into r)"
  shows "reader_ok r0 (rd_loop r)"
  using assms by (auto simp: reader_ok_def rd_loop_def rd_over_def)

lemma rinv_lock:
  assumes inv: "rinv K R0 R d order h" and r: "R i = Some r" and pc: "rd_pc r = RdLine" and free: "sc_rline d \<noteq> 0"
  shows "rinv K R0 (R(i \<mapsto> rd_loop r)) (d\<lparr>sc_rline := sc_rline d - 1\<rparr>) (order @ [i]) (Some i)"
proof -
  have h: "h = None" using inv free by (auto simp: rinv_def split: if_splits)
  have new: "i \<notin> set order" using inv r pc by (auto simp: rinv_def)
  have ok: "reader_ok (the (R0 i)) r" using inv r by (auto simp: rinv_def)
  then have "reader_ok (the (R0 i)) (rd_loop r)" using pc by (intro rd_loop_ok) (auto simp: reader_ok_def rd_over_def)
  moreover have "used (rd_loop r) = []" using ok pc by (simp add: used_loop reader_ok_def)
  then have "taken (R(i \<mapsto> rd_loop r)) (order @ [i]) = taken R order" using taken_upd(1)[OF new] by simp
  ultimately show ?thesis using inv r h new by (auto simp: rinv_def)
qed

lemma rinv_unlock:
  assumes inv: "rinv K R0 R d order h" and r: "R i = Some r" and pc: "rd_pc r = RdUnlock"
  defines "r' \<equiv> r\<lparr>rd_pc := RdEnd (if rd_ch r = 1 then -1 else int (length (rd_into r)))\<rparr>"
  shows "rinv K R0 (R(i \<mapsto> r')) (d\<lparr>sc_rline := sc_rline d + 1\<rparr>) order None"
proof -
  have h: "h = Some i" using inv r pc by (auto simp: rinv_def rcrit_def)
  then obtain ys where ys: "order = ys @ [i]" "i \<notin> set ys" using inv by (auto simp: rinv_def)
  have ok: "reader_ok (the (R0 i)) r" using inv r by (auto simp: rinv_def)
  have u: "used r' = used r" using pc by (simp add: r'_def used_def rd_over_def)
  have "reader_ok (the (R0 i)) r'" using ok pc by (auto simp: r'_def reader_ok_def rd_over_def)
  moreover have "taken (R(i \<mapsto> r')) order = taken R order" using taken_upd(1)[OF ys(2), of R r'] ys r u by (simp add: taken_def)
  moreover have "\<not> rcrit r'" "rd_pc r' \<noteq> RdLine" "rd_pc r' \<noteq> RdGet" by (auto simp: r'_def rcrit_def)
  ultimately show ?thesis using inv r h pc by (auto simp: rinv_def)
qed

lemma rinv_wait:
  assumes inv: "rinv K R0 R d order h" and r: "R i = Some r" and pc: "rd_pc r = RdWait" and av: "sc_read d \<noteq> 0"
  shows "rinv K R0 (R(i \<mapsto> r\<lparr>rd_pc := RdGet\<rparr>)) (d\<lparr>sc_read := sc_read d - 1\<rparr>) order (Some i)"
proof -
  have h: "h = Some i" "reader_ok (the (R0 i)) r" "0 \<le> sc_read d" using inv r pc by (auto simp: rinv_def rcrit_def)
  have "sc_read d = int (length (buffered (sc_cons d)))" using inv r pc h(1) by (simp add: rinv_def)
  then show ?thesis using inv r pc h av
    by (intro rinv_holder[of K R0 R d order i r]) (auto simp: rcrit_def reader_ok_def used_def rd_over_def)
qed

lemma rinv_get:
  assumes inv: "rinv K R0 R d order h" and r: "R i = Some r" and pc: "rd_pc r = RdGet" and st: "rd_step r d = Some (r', d')"
  shows "rinv K R0 (R(i \<mapsto> r')) d' order (Some i)"
proof -
  have h: "h = Some i" and ok: "reader_ok (the (R0 i)) r" using inv r pc by (auto simp: rinv_def rcrit_def)
  have inv': "rinv K R0 R d order (Some i)" using inv h by simp
  have val: "sc_read d + 1 = int (length (buffered (sc_cons d)))" "0 \<le> sc_read d" using inv r pc h by (auto simp: rinv_def)
  let ?c = "incoming (sc_cons d)" and ?d = "d\<lparr>sc_cons := (sc_cons d)\<lparr>incoming := EOFc\<rparr>\<rparr>"
  have c: "?c \<noteq> EOFc" "buffered (sc_cons d) = [?c]" "sc_read d = 0" using val by (auto simp: buffered_def split: if_splits)
  have d: "buffered (sc_cons ?d) = []" "keys (sc_cons ?d) = keys (sc_cons d)" by (simp_all add: buffered_def)
  have lt: "int (length (rd_into r)) < rd_num r" "used r = rd_into r" using ok pc by (auto simp: reader_ok_def used_def rd_over_def)
  show ?thesis
  proof (cases "?c = 10 \<or> ?c = 1")
    case True
    then have e: "r' = r\<lparr>rd_ch := ?c, rd_pc := RdUnlock\<rparr>" "d' = ?d" using st pc c by (auto simp: rd_step_def Console_GetChar_def)
    have u: "used r' = rd_into r @ [?c]" using lt(1) by (simp add: e(1) used_def rd_over_def)
    have "reader_ok (the (R0 i)) r'" using ok True lt(1) by (auto simp: e(1) reader_ok_def rd_over_def)
    then show ?thesis using c d lt u e(2) by (intro rinv_holder[OF inv' r]) (auto simp: e(1) rcrit_def)
  next
    case False
    then have e: "r' = rd_loop (r\<lparr>rd_ch := ?c, rd_into := rd_into r @ [?c]\<rparr>)" "d' = ?d" using st pc c by (auto simp: rd_step_def Console_GetChar_def)
    have "plain ?c" using False c(1) by (simp add: plain_def)
    then have "reader_ok (the (R0 i)) r'" unfolding e(1) using ok lt(1) by (intro rd_loop_ok) (auto simp: reader_ok_def)
    moreover have "used r' = rd_into r @ [?c]" by (simp add: e(1) used_loop)
    ultimately show ?thesis using c d lt e(2) by (intro rinv_holder[OF inv' r]) (auto simp: e(1))
  qed
qed

lemma rinv_step:
  assumes inv: "rinv K R0 R d order h" and r: "R i = Some r" and st: "rd_step r d = Some (r', d')"
  shows "\<exists>h'. rinv K R0 (R(i \<mapsto> r')) d' (order @ (if rd_pc r = RdLine then [i] else [])) h'"
proof (cases "rd_pc r")
  case RdLine
  then have "r' = rd_loop r" "d' = d\<lparr>sc_rline := sc_rline d - 1\<rparr>" "sc_rline d \<noteq> 0" using st by (auto simp: rd_step_def split: if_splits)
  then show ?thesis using rinv_lock[OF inv r RdLine] RdLine by auto
next
  case RdWait
  then have "r' = r\<lparr>rd_pc := RdGet\<rparr>" "d' = d\<lparr>sc_read := sc_read d - 1\<rparr>" "sc_read d \<noteq> 0" using st by (auto simp: rd_step_def split: if_splits)
  then show ?thesis using rinv_wait[OF inv r RdWait] RdWait by auto
next
  case RdGet
  then show ?thesis using rinv_get[OF inv r RdGet st] by auto
next
  case RdUnlock
  then show ?thesis using rinv_unlock[OF inv r RdUnlock] st by (auto simp: rd_step_def)
next
  case (RdEnd v)
  then show ?thesis using st by (simp add: rd_step_def)
qed

section \<open>Writers\<close>

definition wcrit :: "Writer \<Rightarrow> bool" where
  "wcrit w \<longleftrightarrow> wr_pc w = WrPut \<or> wr_pc w = WrWait \<or> wr_pc w = WrUnlock"

text \<open>The bytes a writer has put on the screen.\<close>

definition wtext :: "Writer \<Rightarrow> byte list" where
  "wtext w = take (wr_loop w + (if wr_pc w = WrWait then 1 else 0)) (wr_from w)"

definition writer_ok :: "Writer \<Rightarrow> Writer \<Rightarrow> bool" where
  "writer_ok w0 w \<longleftrightarrow> wr_from w = wr_from w0 \<and> wr_num w = wr_num w0 \<and> wr_num w \<le> int (length (wr_from w)) \<and> wr_loop w \<le> nat (wr_num w)
     \<and> (wr_pc w = WrLine \<longrightarrow> wr_loop w = 0) \<and> (wr_pc w = WrPut \<or> wr_pc w = WrWait \<longrightarrow> int (wr_loop w) < wr_num w)
     \<and> (wr_pc w = WrUnlock \<longrightarrow> wr_loop w = nat (wr_num w)) \<and> (\<forall>v. wr_pc w = WrEnd v \<longrightarrow> v = wr_num w \<and> wr_loop w = nat (wr_num w))"

definition shown :: "(nat \<Rightarrow> Writer option) \<Rightarrow> nat list \<Rightarrow> byte list" where
  "shown W order = concat (map (\<lambda>i. wtext (the (W i))) order)"

definition winv :: "(nat \<Rightarrow> Writer option) \<Rightarrow> (nat \<Rightarrow> Writer option) \<Rightarrow> SCons \<Rightarrow> nat list \<Rightarrow> nat option \<Rightarrow> bool" where
  "winv W0 W d order h \<longleftrightarrow> (\<forall>i w. W i = Some w \<longrightarrow> (wcrit w \<longleftrightarrow> h = Some i))
     \<and> (\<forall>i. h = Some i \<longrightarrow> (\<exists>w ys. W i = Some w \<and> order = ys @ [i]))
     \<and> sc_wline d = (if h = None then 1 else 0)
     \<and> distinct order \<and> (\<forall>i. i \<in> set order \<longleftrightarrow> (\<exists>w. W i = Some w \<and> wr_pc w \<noteq> WrLine))
     \<and> 0 \<le> sc_write d \<and> sc_write d + int (sc_pending d) = (if \<exists>i w. h = Some i \<and> W i = Some w \<and> wr_pc w = WrWait then 1 else 0)
     \<and> (putBusy (sc_cons d) \<longleftrightarrow> sc_pending d \<noteq> 0)
     \<and> screen (sc_cons d) = shown W order
     \<and> dom W = dom W0 \<and> (\<forall>i w. W i = Some w \<longrightarrow> writer_ok (the (W0 i)) w)"

lemma shown_upd:
  assumes "i \<notin> set ys"
  shows "shown (W(i \<mapsto> w)) (ys @ [i]) = shown W ys @ wtext w" "shown (W(i \<mapsto> w)) ys = shown W ys"
proof -
  have c: "concat (map (\<lambda>j. wtext (the ((W(i \<mapsto> w)) j))) ys) = concat (map (\<lambda>j. wtext (the (W j))) ys)"
    using assms by (intro arg_cong[of _ _ concat] map_cong) auto
  show "shown (W(i \<mapsto> w)) (ys @ [i]) = shown W ys @ wtext w" "shown (W(i \<mapsto> w)) ys = shown W ys"
    unfolding shown_def map_append concat_append c by simp_all
qed

lemma winv_frame:
  assumes "winv W0 W d order h" and "sc_wline d' = sc_wline d" and "sc_write d' = sc_write d" and "sc_pending d' = sc_pending d"
    and "putBusy (sc_cons d') = putBusy (sc_cons d)" and "screen (sc_cons d') = screen (sc_cons d)"
  shows "winv W0 W d' order h"
  using assms(1) unfolding winv_def assms(2-6) by assumption

lemma winv_done: "winv W0 W d order h \<Longrightarrow> 0 < sc_pending d \<Longrightarrow> winv W0 W (sc_done d) order h"
  by (auto simp: winv_def sc_done_def SynchWriteFunct_def Console_WriteDone_def split: if_splits)

lemma winv_holder:
  assumes inv: "winv W0 W d order (Some i)" and w: "W i = Some w" and c: "wcrit w'" and ok: "writer_ok (the (W0 i)) w'"
    and line: "sc_wline d' = sc_wline d" and nn: "0 \<le> sc_write d'" and val: "sc_write d' + int (sc_pending d') = (if wr_pc w' = WrWait then 1 else 0)"
    and busy: "putBusy (sc_cons d') \<longleftrightarrow> sc_pending d' \<noteq> 0"
    and str: "\<And>X. screen (sc_cons d) = X @ wtext w \<Longrightarrow> screen (sc_cons d') = X @ wtext w'"
  shows "winv W0 (W(i \<mapsto> w')) d' order (Some i)"
proof -
  obtain ys where ys: "order = ys @ [i]" "i \<notin> set ys" using inv by (auto simp: winv_def)
  have "screen (sc_cons d) = shown W ys @ wtext w" using inv ys w by (simp add: winv_def shown_def)
  then have "screen (sc_cons d') = shown (W(i \<mapsto> w')) order" using str ys shown_upd(1)[OF ys(2), of W w'] by simp
  moreover have "wcrit w" using inv w by (auto simp: winv_def)
  then have "wr_pc w' \<noteq> WrLine" "wr_pc w \<noteq> WrLine" using c by (auto simp: wcrit_def)
  ultimately show ?thesis using inv w c ok line nn val busy ys(1) by (auto simp: winv_def)
qed

lemma wr_next_simps [simp]: "wr_from (wr_next w) = wr_from w" "wr_num (wr_next w) = wr_num w" "wr_loop (wr_next w) = wr_loop w" "wcrit (wr_next w)"
  "wr_pc (wr_next w) \<noteq> WrLine" "wr_pc (wr_next w) \<noteq> WrWait"
  by (simp_all add: wr_next_def wcrit_def)

lemma wtext_next: "wtext (wr_next w) = take (wr_loop w) (wr_from w)"
  by (simp add: wtext_def)

lemma wr_next_ok:
  assumes "wr_from w = wr_from w0" and "wr_num w = wr_num w0" and "wr_num w \<le> int (length (wr_from w))" and "wr_loop w \<le> nat (wr_num w)"
  shows "writer_ok w0 (wr_next w)"
  using assms by (auto simp: writer_ok_def wr_next_def)

lemma winv_lock:
  assumes inv: "winv W0 W d order h" and w: "W i = Some w" and pc: "wr_pc w = WrLine" and free: "sc_wline d \<noteq> 0"
  shows "winv W0 (W(i \<mapsto> wr_next w)) (d\<lparr>sc_wline := sc_wline d - 1\<rparr>) (order @ [i]) (Some i)"
proof -
  have h: "h = None" using inv free by (auto simp: winv_def split: if_splits)
  have new: "i \<notin> set order" using inv w pc by (auto simp: winv_def)
  have ok: "writer_ok (the (W0 i)) w" using inv w by (auto simp: winv_def)
  then have "writer_ok (the (W0 i)) (wr_next w)" by (intro wr_next_ok) (auto simp: writer_ok_def)
  moreover have "wtext (wr_next w) = []" using ok pc by (simp add: wtext_next writer_ok_def)
  then have "shown (W(i \<mapsto> wr_next w)) (order @ [i]) = shown W order" using shown_upd(1)[OF new] by simp
  ultimately show ?thesis using inv w h new by (auto simp: winv_def)
qed

lemma winv_unlock:
  assumes inv: "winv W0 W d order h" and w: "W i = Some w" and pc: "wr_pc w = WrUnlock"
  shows "winv W0 (W(i \<mapsto> w\<lparr>wr_pc := WrEnd (wr_num w)\<rparr>)) (d\<lparr>sc_wline := sc_wline d + 1\<rparr>) order None"
proof -
  let ?w = "w\<lparr>wr_pc := WrEnd (wr_num w)\<rparr>"
  have h: "h = Some i" using inv w pc by (auto simp: winv_def wcrit_def)
  then obtain ys where ys: "order = ys @ [i]" "i \<notin> set ys" using inv by (auto simp: winv_def)
  have ok: "writer_ok (the (W0 i)) w" using inv w by (auto simp: winv_def)
  then have "writer_ok (the (W0 i)) ?w" using pc by (auto simp: writer_ok_def)
  moreover have "wtext ?w = wtext w" using pc by (simp add: wtext_def)
  then have "shown (W(i \<mapsto> ?w)) order = shown W order" using shown_upd(1)[OF ys(2), of W ?w] ys w by (simp add: shown_def)
  moreover have "\<not> wcrit ?w" "wr_pc ?w \<noteq> WrLine" "wr_pc ?w \<noteq> WrWait" by (auto simp: wcrit_def)
  ultimately show ?thesis using inv w h pc by (auto simp: winv_def)
qed

text \<open>The device is never busy when a byte is put: the assertion of \<open>Console::PutChar\<close> holds.\<close>

lemma winv_put:
  assumes inv: "winv W0 W d order h" and w: "W i = Some w" and pc: "wr_pc w = WrPut"
  shows "\<exists>w' d'. wr_step w d = Inr (Some (w', d')) \<and> winv W0 (W(i \<mapsto> w')) d' order (Some i)
    \<and> incoming (sc_cons d') = incoming (sc_cons d) \<and> keys (sc_cons d') = keys (sc_cons d) \<and> sc_read d' = sc_read d \<and> sc_rline d' = sc_rline d"
proof -
  have h: "h = Some i" and ok: "writer_ok (the (W0 i)) w" using inv w pc by (auto simp: winv_def wcrit_def)
  have inv': "winv W0 W d order (Some i)" using inv h by simp
  have z: "sc_write d = 0" "sc_pending d = 0" "\<not> putBusy (sc_cons d)" using inv w pc h by (auto simp: winv_def)
  have lt: "wr_loop w < length (wr_from w)" using ok pc by (auto simp: writer_ok_def)
  let ?c = "(sc_cons d)\<lparr>screen := screen (sc_cons d) @ [wr_from w ! wr_loop w], putBusy := True\<rparr>"
  let ?w = "w\<lparr>wr_pc := WrWait\<rparr>" and ?d = "d\<lparr>sc_cons := ?c, sc_pending := sc_pending d + 1\<rparr>"
  have st: "wr_step w d = Inr (Some (?w, ?d))" using pc lt z by (simp add: wr_step_def Console_PutChar_def bindR_def)
  have "writer_ok (the (W0 i)) ?w" using ok pc by (auto simp: writer_ok_def)
  moreover have "wtext ?w = wtext w @ [wr_from w ! wr_loop w]" using pc lt by (simp add: wtext_def take_Suc_conv_app_nth)
  ultimately have "winv W0 (W(i \<mapsto> ?w)) ?d order (Some i)" using z by (intro winv_holder[OF inv' w]) (auto simp: wcrit_def)
  then show ?thesis using st by auto
qed

lemma winv_wait:
  assumes inv: "winv W0 W d order h" and w: "W i = Some w" and pc: "wr_pc w = WrWait" and av: "sc_write d \<noteq> 0"
  shows "winv W0 (W(i \<mapsto> wr_next (w\<lparr>wr_loop := wr_loop w + 1\<rparr>))) (d\<lparr>sc_write := sc_write d - 1\<rparr>) order (Some i)"
proof -
  have h: "h = Some i" and ok: "writer_ok (the (W0 i)) w" using inv w pc by (auto simp: winv_def wcrit_def)
  have inv': "winv W0 W d order (Some i)" using inv h by simp
  have z: "sc_write d = 1" "sc_pending d = 0" "\<not> putBusy (sc_cons d)" using inv w pc h av by (auto simp: winv_def)
  have "writer_ok (the (W0 i)) (wr_next (w\<lparr>wr_loop := wr_loop w + 1\<rparr>))" using ok pc by (intro wr_next_ok) (auto simp: writer_ok_def)
  then show ?thesis using z pc by (intro winv_holder[OF inv' w]) (auto simp: wtext_next wtext_def)
qed

lemma winv_step:
  assumes inv: "winv W0 W d order h" and w: "W i = Some w"
  shows "(\<exists>v. wr_step w d = Inr v) \<and> (wr_step w d = Inr (Some (w', d')) \<longrightarrow>
    (\<exists>h'. winv W0 (W(i \<mapsto> w')) d' (order @ (if wr_pc w = WrLine then [i] else [])) h')
    \<and> incoming (sc_cons d') = incoming (sc_cons d) \<and> keys (sc_cons d') = keys (sc_cons d) \<and> sc_read d' = sc_read d \<and> sc_rline d' = sc_rline d)"
proof (cases "wr_pc w")
  case WrLine
  then show ?thesis using winv_lock[OF inv w WrLine] by (auto simp: wr_step_def)
next
  case WrPut
  then show ?thesis using winv_put[OF inv w WrPut] by auto
next
  case WrWait
  then show ?thesis using winv_wait[OF inv w WrWait] by (auto simp: wr_step_def)
next
  case WrUnlock
  then show ?thesis using winv_unlock[OF inv w WrUnlock] by (auto simp: wr_step_def)
next
  case (WrEnd v)
  then show ?thesis by (simp add: wr_step_def)
qed

lemma rd_step_frame:
  assumes "rd_step r d = Some (r', d')"
  shows "sc_wline d' = sc_wline d" "sc_write d' = sc_write d" "sc_pending d' = sc_pending d"
    "putBusy (sc_cons d') = putBusy (sc_cons d)" "screen (sc_cons d') = screen (sc_cons d)"
  using assms by (auto simp: rd_step_def Console_GetChar_def Let_def split: rd_pc.splits if_splits)

lemma sc_poll_frame: "sc_wline (sc_poll d) = sc_wline d" "sc_write (sc_poll d) = sc_write d" "sc_pending (sc_poll d) = sc_pending d"
  "putBusy (sc_cons (sc_poll d)) = putBusy (sc_cons d)" "screen (sc_cons (sc_poll d)) = screen (sc_cons d)"
  by (auto simp: sc_poll_def Console_CheckCharAvail_def SynchReadFunct_def Let_def split: list.splits)

section \<open>All threads together\<close>

definition rd_of :: "call \<Rightarrow> Reader option" where
  "rd_of c = (case c of Reading r \<Rightarrow> Some r | Writing w \<Rightarrow> None)"

definition wr_of :: "call \<Rightarrow> Writer option" where
  "wr_of c = (case c of Reading r \<Rightarrow> None | Writing w \<Rightarrow> Some w)"

definition readers :: "(nat \<Rightarrow> call option) \<Rightarrow> nat \<Rightarrow> Reader option" where
  "readers cs i = Option.bind (cs i) rd_of"

definition writers :: "(nat \<Rightarrow> call option) \<Rightarrow> nat \<Rightarrow> Writer option" where
  "writers cs i = Option.bind (cs i) wr_of"

lemma readers_upd [simp]: "readers (cs(i \<mapsto> Reading r)) = (readers cs)(i \<mapsto> r)" "writers (cs(i \<mapsto> Writing w)) = (writers cs)(i \<mapsto> w)"
  "writers cs i = None \<Longrightarrow> writers (cs(i \<mapsto> Reading r)) = writers cs" "readers cs i = None \<Longrightarrow> readers (cs(i \<mapsto> Writing w)) = readers cs"
  by (auto simp: readers_def writers_def rd_of_def wr_of_def fun_eq_iff)

lemma readers_at [simp]: "cs i = Some (Reading r) \<Longrightarrow> readers cs i = Some r" "cs i = Some (Writing w) \<Longrightarrow> writers cs i = Some w"
  "cs i = Some (Reading r) \<Longrightarrow> writers cs i = None" "cs i = Some (Writing w) \<Longrightarrow> readers cs i = None"
  by (simp_all add: readers_def writers_def rd_of_def wr_of_def)

definition csys_inv :: "byte list \<Rightarrow> (nat \<Rightarrow> call option) \<Rightarrow> CSys \<Rightarrow> bool" where
  "csys_inv K cs t \<longleftrightarrow> (\<exists>h. rinv K (readers cs) (readers (calls t)) (dev_st t) (rorder t) h)
     \<and> (\<exists>h. winv (writers cs) (writers (calls t)) (dev_st t) (worder t) h)"

lemma readers_Some: "readers cs i = Some r \<longleftrightarrow> cs i = Some (Reading r)" "writers cs i = Some w \<longleftrightarrow> cs i = Some (Writing w)"
  by (cases "cs i"; cases "the (cs i)"; simp add: readers_def writers_def rd_of_def wr_of_def)+

lemma csys_inv_start:
  assumes K: "EOFc \<notin> set K" and fresh: "\<forall>i c. cs i = Some c \<longrightarrow> fresh_call c"
  shows "csys_inv K cs (csys_start K cs)"
proof -
  have r: "rd_pc r = RdLine \<and> reader_ok (the (readers cs i)) r" if "readers cs i = Some r" for i r
    using fresh[rule_format, of i "Reading r"] that by (simp add: readers_Some fresh_call_def reader_ok_def rd_over_def)
  have w: "wr_pc w = WrLine \<and> writer_ok (the (writers cs i)) w" if "writers cs i = Some w" for i w
    using fresh[rule_format, of i "Writing w"] that by (simp add: readers_Some fresh_call_def writer_ok_def)
  have "rinv K (readers cs) (readers cs) (SynchConsole_new K) [] None"
    using K r by (auto simp: rinv_def SynchConsole_new_def Console_new_def buffered_def taken_def rcrit_def)
  moreover have "winv (writers cs) (writers cs) (SynchConsole_new K) [] None"
    using w by (auto simp: winv_def SynchConsole_new_def Console_new_def shown_def wcrit_def)
  ultimately show ?thesis by (auto simp: csys_inv_def csys_start_def)
qed

lemma csys_inv_int:
  assumes inv: "csys_inv K cs t" and st: "sc_int (dev_st t) d"
  shows "csys_inv K cs (t\<lparr>dev_st := d\<rparr>)"
  using st
proof cases
  case poll
  then show ?thesis using inv rinv_poll winv_frame[OF _ sc_poll_frame] by (fastforce simp: csys_inv_def)
next
  case finished
  then have "sc_rline d = sc_rline (dev_st t)" "sc_read d = sc_read (dev_st t)" "incoming (sc_cons d) = incoming (sc_cons (dev_st t))"
    "keys (sc_cons d) = keys (sc_cons (dev_st t))" by (simp_all add: sc_done_def SynchWriteFunct_def Console_WriteDone_def)
  from rinv_frame[OF _ this] show ?thesis using inv winv_done finished by (fastforce simp: csys_inv_def)
qed

lemma csys_inv_step:
  assumes inv: "csys_inv K cs t" and st: "cstep t t'"
  shows "csys_inv K cs t'"
  using st
proof cases
  case (interrupt d)
  then show ?thesis using csys_inv_int[OF inv] by simp
next
  case (read i r r' d)
  have "readers (calls t) i = Some r" using read by simp
  from rinv_step[of K _ "readers (calls t)" _ _ _ i r r' d, OF _ this read(3)] winv_frame[OF _ rd_step_frame[OF read(3)]] show ?thesis
    using inv read by (fastforce simp: csys_inv_def)
next
  case (written i w w' d)
  obtain h where "winv (writers cs) (writers (calls t)) (dev_st t) (worder t) h" using inv by (auto simp: csys_inv_def)
  moreover have "writers (calls t) i = Some w" using written by simp
  moreover note winv_step[of _ _ _ _ h i w w' d] written(3)
  ultimately have *: "\<exists>h'. winv (writers cs) ((writers (calls t))(i \<mapsto> w')) d (worder t @ (if wr_pc w = WrLine then [i] else [])) h'"
    "sc_rline d = sc_rline (dev_st t)" "sc_read d = sc_read (dev_st t)" "incoming (sc_cons d) = incoming (sc_cons (dev_st t))"
    "keys (sc_cons d) = keys (sc_cons (dev_st t))" by blast+
  from *(1) rinv_frame[OF _ *(2-5)] show ?thesis using inv written by (fastforce simp: csys_inv_def)
qed

lemma csys_inv_run:
  assumes "cstep\<^sup>*\<^sup>* (csys_start K cs) t" and "EOFc \<notin> set K" and "\<forall>i c. cs i = Some c \<longrightarrow> fresh_call c"
  shows "csys_inv K cs t"
  using assms(1) by (induction rule: rtranclp_induct) (auto intro: csys_inv_start[OF assms(2,3)] csys_inv_step)

section \<open>The same calls one after the other\<close>

text \<open>What a call that has ended gives its caller: the value returned and, for a read, the buffer.\<close>

definition outcome :: "call \<Rightarrow> (int \<times> byte list) option" where
  "outcome c = (case c of
     Reading r \<Rightarrow> (case rd_pc r of RdEnd v \<Rightarrow> Some (v, rd_into r @ replicate (nat (rd_num r) - length (rd_into r)) 0) | _ \<Rightarrow> None)
   | Writing w \<Rightarrow> (case wr_pc w of WrEnd v \<Rightarrow> Some (v, []) | _ \<Rightarrow> None))"

fun one_by_one :: "call list \<Rightarrow> Console \<Rightarrow> ((int \<times> byte list) option list \<times> Console) option" where
  "one_by_one [] c = Some ([], c)"
| "one_by_one (Reading r # cs) c = (case SynchConsole_Read (rd_ch r) (rd_num r) c of None \<Rightarrow> None
     | Some (v, buf, c) \<Rightarrow> map_option (\<lambda>(vs, c). (Some (v, buf) # vs, c)) (one_by_one cs c))"
| "one_by_one (Writing w # cs) c = (case SynchConsole_Write (wr_from w) (wr_num w) c of Inl e \<Rightarrow> None
     | Inr (v, c) \<Rightarrow> map_option (\<lambda>(vs, c). (Some (v, []) # vs, c)) (one_by_one cs c))"

lemma one_by_one_append: "one_by_one (xs @ ys) c = (case one_by_one xs c of None \<Rightarrow> None
    | Some (us, c) \<Rightarrow> map_option (\<lambda>(vs, c). (us @ vs, c)) (one_by_one ys c))"
  by (induction xs c rule: one_by_one.induct) (auto split: option.splits sum.splits simp: option.map_comp option.map_ident o_def case_prod_unfold)

lemma outcome_None [simp]: "outcome (Reading r) = None \<longleftrightarrow> (\<forall>v. rd_pc r \<noteq> RdEnd v)" "outcome (Writing w) = None \<longleftrightarrow> (\<forall>v. wr_pc w \<noteq> WrEnd v)"
  by (simp_all add: outcome_def split: rd_pc.splits wr_pc.splits)

lemma reader_alone:
  assumes ok: "reader_ok r0 r" and e: "rd_pc r = RdEnd v" and c: "incoming c = EOFc" "keys c = used r @ rest"
  shows "\<exists>m. SynchConsole_Read (rd_ch r0) (rd_num r0) c
    = Some (v, rd_into r @ replicate (nat (rd_num r) - length (rd_into r)) 0, c\<lparr>keys := rest, charsRead := m\<rparr>)"
proof (cases "int (length (rd_into r)) < rd_num r")
  case True
  then have "used r = rd_into r @ [rd_ch r]" "rd_ch r = 10 \<or> rd_ch r = 1" using ok e by (auto simp: used_def reader_ok_def rd_over_def)
  then have "read_line (nat (rd_num r)) (rd_ch r0) c = Some (rd_into r, rd_ch r, c\<lparr>keys := rest, charsRead := charsRead c + int (length (rd_into r)) + 1\<rparr>)"
    using ok c True by (intro read_line_typed) (auto simp: reader_ok_def)
  then show ?thesis using ok e by (auto simp: SynchConsole_Read_def reader_ok_def)
next
  case False
  then have n: "nat (rd_num r) = length (rd_into r)" "used r = rd_into r" "rd_ch r = last (rd_ch r0 # rd_into r)"
    using ok by (auto simp: used_def reader_ok_def)
  have "read_line (length (rd_into r)) (rd_ch r0) c = Some (rd_into r, rd_ch r, c\<lparr>keys := rest, charsRead := charsRead c + int (length (rd_into r))\<rparr>)"
    using read_line_full[of c "rd_into r" rest "rd_ch r0"] ok c n by (cases "rd_into r = []") (auto simp: reader_ok_def)
  then show ?thesis using ok e n by (auto simp: SynchConsole_Read_def reader_ok_def)
qed

lemma writer_alone:
  assumes ok: "writer_ok w0 w" and e: "wr_pc w = WrEnd v" and c: "\<not> putBusy c"
  shows "\<exists>m. SynchConsole_Write (wr_from w0) (wr_num w0) c = Inr (v, c\<lparr>screen := screen c @ wtext w, charsWritten := m\<rparr>)"
  using ok e write_loop[OF c, of "nat (wr_num w0)" "wr_from w0"] by (auto simp: SynchConsole_Write_def writer_ok_def wtext_def)

lemma readers_alone:
  assumes "\<forall>i \<in> set order. \<exists>r0 r. cs i = Some (Reading r0) \<and> cs' i = Some (Reading r) \<and> reader_ok r0 r \<and> outcome (Reading r) \<noteq> None"
    and "incoming c = EOFc" and "keys c = taken (readers cs') order @ rest"
  shows "\<exists>m. one_by_one (map (the \<circ> cs) order) c = Some (map (outcome \<circ> the \<circ> cs') order, c\<lparr>keys := rest, charsRead := m\<rparr>)"
  using assms
proof (induction order arbitrary: c)
  case Nil
  then show ?case by (auto simp: taken_def intro!: exI[of _ "charsRead c"])
next
  case (Cons i order)
  then obtain r0 r v where r: "cs i = Some (Reading r0)" "cs' i = Some (Reading r)" "reader_ok r0 r" "rd_pc r = RdEnd v"
    by auto
  have "keys c = used r @ (taken (readers cs') order @ rest)" using Cons.prems(3) r(2) by (simp add: taken_def)
  from reader_alone[OF r(3,4) Cons.prems(2) this] obtain m where m: "SynchConsole_Read (rd_ch r0) (rd_num r0) c
    = Some (v, rd_into r @ replicate (nat (rd_num r) - length (rd_into r)) 0, c\<lparr>keys := taken (readers cs') order @ rest, charsRead := m\<rparr>)" by blast
  then show ?case using Cons.IH[of "c\<lparr>keys := taken (readers cs') order @ rest, charsRead := m\<rparr>"] Cons.prems r
    by (auto simp: outcome_def)
qed

lemma writers_alone:
  assumes "\<forall>i \<in> set order. \<exists>w0 w. cs i = Some (Writing w0) \<and> cs' i = Some (Writing w) \<and> writer_ok w0 w \<and> outcome (Writing w) \<noteq> None"
    and "\<not> putBusy c"
  shows "\<exists>m. one_by_one (map (the \<circ> cs) order) c
    = Some (map (outcome \<circ> the \<circ> cs') order, c\<lparr>screen := screen c @ shown (writers cs') order, charsWritten := m\<rparr>)"
  using assms
proof (induction order arbitrary: c)
  case Nil
  then show ?case by (auto simp: shown_def intro!: exI[of _ "charsWritten c"])
next
  case (Cons i order)
  then obtain w0 w v where w: "cs i = Some (Writing w0)" "cs' i = Some (Writing w)" "writer_ok w0 w" "wr_pc w = WrEnd v"
    by auto
  from writer_alone[OF w(3,4) Cons.prems(2)] obtain m where
    m: "SynchConsole_Write (wr_from w0) (wr_num w0) c = Inr (v, c\<lparr>screen := screen c @ wtext w, charsWritten := m\<rparr>)" by blast
  then show ?case using Cons.IH[of "c\<lparr>screen := screen c @ wtext w, charsWritten := m\<rparr>"] Cons.prems w
    by (auto simp: outcome_def shown_def)
qed

lemma ended_readers:
  assumes inv: "rinv K (readers cs) (readers cs') d order h" and over: "\<forall>i c. cs' i = Some c \<longrightarrow> outcome c \<noteq> None"
  shows "\<forall>i \<in> set order. \<exists>r0 r. cs i = Some (Reading r0) \<and> cs' i = Some (Reading r) \<and> reader_ok r0 r \<and> outcome (Reading r) \<noteq> None"
proof
  fix i
  assume "i \<in> set order"
  then obtain r where r: "readers cs' i = Some r" using inv by (auto simp: rinv_def)
  have "dom (readers cs') = dom (readers cs)" using inv by (simp add: rinv_def)
  then obtain r0 where "readers cs i = Some r0" using r by blast
  moreover have "reader_ok (the (readers cs i)) r" using inv r by (auto simp: rinv_def)
  moreover have "outcome (Reading r) \<noteq> None" using over r unfolding readers_Some by blast
  ultimately show "\<exists>r0 r. cs i = Some (Reading r0) \<and> cs' i = Some (Reading r) \<and> reader_ok r0 r \<and> outcome (Reading r) \<noteq> None"
    using r by (auto simp: readers_Some)
qed

lemma ended_writers:
  assumes inv: "winv (writers cs) (writers cs') d order h" and over: "\<forall>i c. cs' i = Some c \<longrightarrow> outcome c \<noteq> None"
  shows "\<forall>i \<in> set order. \<exists>w0 w. cs i = Some (Writing w0) \<and> cs' i = Some (Writing w) \<and> writer_ok w0 w \<and> outcome (Writing w) \<noteq> None"
proof
  fix i
  assume "i \<in> set order"
  then obtain w where w: "writers cs' i = Some w" using inv by (auto simp: winv_def)
  have "dom (writers cs') = dom (writers cs)" using inv by (simp add: winv_def)
  then obtain w0 where "writers cs i = Some w0" using w by blast
  moreover have "writer_ok (the (writers cs i)) w" using inv w by (auto simp: winv_def)
  moreover have "outcome (Writing w) \<noteq> None" using over w unfolding readers_Some by blast
  ultimately show "\<exists>w0 w. cs i = Some (Writing w0) \<and> cs' i = Some (Writing w) \<and> writer_ok w0 w \<and> outcome (Writing w) \<noteq> None"
    using w by (auto simp: readers_Some)
qed

lemma ended_atomic:
  assumes inv: "csys_inv K cs t" and over: "\<forall>i c. calls t i = Some c \<longrightarrow> outcome c \<noteq> None"
  defines "order \<equiv> rorder t @ worder t"
  shows "\<exists>c. one_by_one (map (the \<circ> cs) order) (Console_new K) = Some (map (outcome \<circ> the \<circ> calls t) order, c)
    \<and> screen c = screen (sc_cons (dev_st t)) \<and> keys c = buffered (sc_cons (dev_st t)) @ keys (sc_cons (dev_st t))"
proof -
  let ?d = "sc_cons (dev_st t)"
  obtain h h' where r: "rinv K (readers cs) (readers (calls t)) (dev_st t) (rorder t) h"
    and w: "winv (writers cs) (writers (calls t)) (dev_st t) (worder t) h'" using inv by (auto simp: csys_inv_def)
  have "keys (Console_new K) = taken (readers (calls t)) (rorder t) @ (buffered ?d @ keys ?d)" using r by (simp add: rinv_def Console_new_def)
  from readers_alone[OF ended_readers[OF r over] _ this] obtain m where
    m: "one_by_one (map (the \<circ> cs) (rorder t)) (Console_new K) = Some (map (outcome \<circ> the \<circ> calls t) (rorder t),
      (Console_new K)\<lparr>keys := buffered ?d @ keys ?d, charsRead := m\<rparr>)" by (auto simp: Console_new_def)
  moreover have "\<not> putBusy ((Console_new K)\<lparr>keys := buffered ?d @ keys ?d, charsRead := m\<rparr>)" by (simp add: Console_new_def)
  note writers_alone[OF ended_writers[OF w over] this]
  moreover have "screen ?d = shown (writers (calls t)) (worder t)" using w by (simp add: winv_def)
  ultimately show ?thesis by (auto simp: order_def one_by_one_append Console_new_def)
qed

section \<open>No deadlock\<close>

definition stuck :: "CSys \<Rightarrow> bool" where
  "stuck t \<longleftrightarrow> (\<forall>t'. cstep t t' \<longrightarrow> t' = t)"

lemma steps_move: "rd_step r d = Some (r', d') \<Longrightarrow> r' \<noteq> r" "wr_step w d = Inr (Some (w', d')) \<Longrightarrow> w' \<noteq> w"
proof -
  assume "rd_step r d = Some (r', d')"
  then have "rd_pc r' \<noteq> rd_pc r" by (auto simp: rd_step_def rd_loop_def Let_def split: rd_pc.splits if_splits prod.splits)
  then show "r' \<noteq> r" by blast
next
  assume "wr_step w d = Inr (Some (w', d'))"
  then have "wr_pc w' \<noteq> wr_pc w" by (auto simp: wr_step_def wr_next_def bindR_eq_Inr split: wr_pc.splits if_splits)
  then show "w' \<noteq> w" by blast
qed

lemma stuck_reader:
  assumes "stuck t" and "calls t i = Some (Reading r)"
  shows "rd_step r (dev_st t) = None"
proof (rule ccontr)
  assume "rd_step r (dev_st t) \<noteq> None"
  then obtain r' d where st: "rd_step r (dev_st t) = Some (r', d)" by auto
  from cstep.read[OF assms(2) st] assms steps_move(1)[OF st] show False
    unfolding stuck_def by (auto dest!: arg_cong[of _ _ calls] fun_cong[of _ _ i])
qed

lemma stuck_writer:
  assumes "stuck t" and "calls t i = Some (Writing w)"
  shows "\<nexists>x. wr_step w (dev_st t) = Inr (Some x)"
proof
  assume "\<exists>x. wr_step w (dev_st t) = Inr (Some x)"
  then obtain w' d where st: "wr_step w (dev_st t) = Inr (Some (w', d))" by auto
  from cstep.written[OF assms(2) st] assms steps_move(2)[OF st] show False
    unfolding stuck_def by (auto dest!: arg_cong[of _ _ calls] fun_cong[of _ _ i])
qed

lemma stuck_int:
  assumes "stuck t" and "sc_int (dev_st t) d"
  shows "d = dev_st t"
  using assms(1) cstep.interrupt[OF assms(2)] unfolding stuck_def by (auto dest!: arg_cong[of _ _ dev_st])

lemma no_writer_waits:
  assumes inv: "winv W0 (writers (calls t)) (dev_st t) order h" and st: "stuck t" and w: "calls t i = Some (Writing w)"
  shows "outcome (Writing w) \<noteq> None"
proof -
  have pend: "sc_pending (dev_st t) = 0"
  proof (rule ccontr)
    assume p: "sc_pending (dev_st t) \<noteq> 0"
    then have "sc_done (dev_st t) = dev_st t" using stuck_int[OF st] sc_int.finished by blast
    from arg_cong[OF this, of sc_pending] p show False by (simp add: sc_done_def SynchWriteFunct_def)
  qed
  have crit: "\<not> wcrit v" if v: "calls t j = Some (Writing v)" for j v
  proof
    assume c: "wcrit v"
    have W: "writers (calls t) j = Some v" using v by simp
    then have "h = Some j" using inv c by (auto simp: winv_def)
    then have "wr_pc v = WrWait \<Longrightarrow> sc_write (dev_st t) = 1" using inv W pend by (simp add: winv_def)
    then show False using c winv_put[OF inv W] stuck_writer[OF st v] by (auto simp: wcrit_def wr_step_def)
  qed
  have "h = None" using inv crit by (cases h) (auto simp: winv_def readers_Some)
  then have "sc_wline (dev_st t) = 1" using inv by (simp add: winv_def)
  then have "wr_pc w \<noteq> WrLine" using stuck_writer[OF st w] by (auto simp: wr_step_def)
  then show ?thesis using crit[OF w] by (cases "wr_pc w") (auto simp: wcrit_def)
qed

lemma reader_waits_for_input:
  assumes inv: "rinv K R0 (readers (calls t)) (dev_st t) order h" and st: "stuck t" and r: "calls t i = Some (Reading r)"
    and wait: "outcome (Reading r) = None"
  shows "buffered (sc_cons (dev_st t)) @ keys (sc_cons (dev_st t)) = []"
proof -
  let ?c = "sc_cons (dev_st t)"
  have "h \<noteq> None"
  proof
    assume "h = None"
    then have "\<not> rcrit r" "sc_rline (dev_st t) = 1" using inv r by (auto simp: rinv_def readers_Some)
    then show False using stuck_reader[OF st r] wait by (cases "rd_pc r") (auto simp: rcrit_def rd_step_def)
  qed
  then obtain j v where v: "h = Some j" "calls t j = Some (Reading v)" "rcrit v" using inv by (auto simp: rinv_def readers_Some)
  have pc: "rd_pc v = RdWait" using stuck_reader[OF st v(2)] v(3) by (auto simp: rcrit_def rd_step_def Let_def split: prod.splits if_splits)
  then have "sc_read (dev_st t) = 0" using stuck_reader[OF st v(2)] by (auto simp: rd_step_def split: if_splits)
  then have b: "buffered ?c = []" using inv v pc by (simp add: rinv_def readers_Some)
  have "sc_poll (dev_st t) = dev_st t" using stuck_int[OF st sc_int.poll] .
  from arg_cong[OF this, of "keys \<circ> sc_cons"] b show ?thesis
    by (auto simp: sc_poll_def SynchReadFunct_def Console_CheckCharAvail_def buffered_def split: if_splits list.splits)
qed

section \<open>The synchronous console is atomic and does not deadlock\<close>

text \<open>
  C26. Any number of threads read and write the synchronous console at the same time, one call of
  \<open>SynchConsole::Read\<close> or \<open>Write\<close> each, and the console's interrupts come at any moment. In every state reached:

  \<^item> no thread faults, so the assertion of \<open>PutChar\<close> that the display is not busy holds whenever a byte is put;
  \<^item> if nothing more can happen, every \<open>Write\<close> has returned, and a \<open>Read\<close> that has not is waiting for a key that nobody
    typed: no wake-up is lost and no deadlock arises;
  \<^item> if all calls have returned, every value returned and every buffer is the one that the same calls give when they
    are made one after the other, in the order in which the threads got the line semaphores, from the same input,
    the screen shows the same bytes, and the same input is left.
\<close>

theorem console_calls_atomic:
  assumes run: "cstep\<^sup>*\<^sup>* (csys_start input cs) t" and typed: "EOFc \<notin> set input" and fresh: "\<forall>i c. cs i = Some c \<longrightarrow> fresh_call c"
  shows "(\<forall>i w. calls t i = Some (Writing w) \<longrightarrow> \<not> isl (wr_step w (dev_st t)))
    \<and> (stuck t \<longrightarrow> (\<forall>i c. calls t i = Some c \<longrightarrow> outcome c \<noteq> None
         \<or> (\<exists>r. c = Reading r) \<and> buffered (sc_cons (dev_st t)) @ keys (sc_cons (dev_st t)) = []))
    \<and> ((\<forall>i c. calls t i = Some c \<longrightarrow> outcome c \<noteq> None) \<longrightarrow>
         (\<exists>d. one_by_one (map (the \<circ> cs) (rorder t @ worder t)) (Console_new input)
             = Some (map (outcome \<circ> the \<circ> calls t) (rorder t @ worder t), d)
           \<and> screen d = screen (sc_cons (dev_st t)) \<and> keys d = buffered (sc_cons (dev_st t)) @ keys (sc_cons (dev_st t))))"
proof (intro conjI impI allI)
  have inv: "csys_inv input cs t" using csys_inv_run[OF run typed fresh] .
  then obtain h h' where r: "rinv input (readers cs) (readers (calls t)) (dev_st t) (rorder t) h"
    and w: "winv (writers cs) (writers (calls t)) (dev_st t) (worder t) h'" by (auto simp: csys_inv_def)
  show "\<not> isl (wr_step u (dev_st t))" if "calls t i = Some (Writing u)" for i u
    using winv_step[OF w, of i u, THEN conjunct1] that by (auto simp: readers_Some)
  show "outcome c \<noteq> None \<or> (\<exists>r. c = Reading r) \<and> buffered (sc_cons (dev_st t)) @ keys (sc_cons (dev_st t)) = []"
    if "stuck t" "calls t i = Some c" for i c
    using no_writer_waits[OF w that(1)] reader_waits_for_input[OF r that(1)] that(2) by (cases c) blast+
  show "\<exists>d. one_by_one (map (the \<circ> cs) (rorder t @ worder t)) (Console_new input)
          = Some (map (outcome \<circ> the \<circ> calls t) (rorder t @ worder t), d)
        \<and> screen d = screen (sc_cons (dev_st t)) \<and> keys d = buffered (sc_cons (dev_st t)) @ keys (sc_cons (dev_st t))"
    if "\<forall>i c. calls t i = Some c \<longrightarrow> outcome c \<noteq> None"
    using ended_atomic[OF inv that] .
qed

section \<open>A run\<close>

datatype move = Poll | Done | Thr nat

fun do_move :: "move \<Rightarrow> CSys \<Rightarrow> CSys option" where
  "do_move Poll t = Some (t\<lparr>dev_st := sc_poll (dev_st t)\<rparr>)"
| "do_move Done t = (if 0 < sc_pending (dev_st t) then Some (t\<lparr>dev_st := sc_done (dev_st t)\<rparr>) else None)"
| "do_move (Thr i) t = (case calls t i of None \<Rightarrow> None
     | Some (Reading r) \<Rightarrow> map_option (\<lambda>(r', d). t\<lparr>dev_st := d, calls := (calls t)(i \<mapsto> Reading r'),
         rorder := rorder t @ (if rd_pc r = RdLine then [i] else [])\<rparr>) (rd_step r (dev_st t))
     | Some (Writing w) \<Rightarrow> (case wr_step w (dev_st t) of Inl e \<Rightarrow> None
         | Inr v \<Rightarrow> map_option (\<lambda>(w', d). t\<lparr>dev_st := d, calls := (calls t)(i \<mapsto> Writing w'),
             worder := worder t @ (if wr_pc w = WrLine then [i] else [])\<rparr>) v))"

fun moves :: "move list \<Rightarrow> CSys \<Rightarrow> CSys option" where
  "moves [] t = Some t"
| "moves (m # ms) t = Option.bind (do_move m t) (moves ms)"

lemma move_step:
  assumes "do_move m t = Some t'"
  shows "cstep t t'"
proof (cases m)
  case (Thr i)
  then show ?thesis using assms if_split_asm by (auto simp del: append_Nil2 if_split split: option.splits call.splits sum.splits intro: cstep.intros)
qed (use assms in \<open>auto split: if_splits intro: sc_int.intros cstep.interrupt\<close>)

lemma moves_steps: "moves ms t = Some t' \<Longrightarrow> cstep\<^sup>*\<^sup>* t t'"
  by (induction ms t rule: moves.induct) (auto simp: bind_eq_Some_conv intro: converse_rtranclp_into_rtranclp move_step)

text \<open>Two readers and a writer on the keys \<open>a\<close>, newline, \<open>b\<close>, \<open>c\<close>, their calls interleaved with the interrupts; reader 1 gets the line first.\<close>

definition demo_calls :: "nat \<Rightarrow> call option" where
  "demo_calls = [0 \<mapsto> Reading (Read_call 0 2), 1 \<mapsto> Reading (Read_call 0 3), 2 \<mapsto> Writing (Write_call [72, 105] 2)]"

definition demo_moves :: "move list" where
  "demo_moves = [Thr 1, Thr 2, Poll, Thr 2, Thr 1, Thr 1, Poll, Done, Thr 2, Thr 1, Thr 2, Thr 1, Thr 1, Thr 0, Poll, Done, Thr 0, Thr 0,
     Thr 2, Thr 2, Poll, Thr 0, Thr 0, Thr 0]"

lemma demo_console_run: "map_option (\<lambda>t. (rorder t, worder t, map (outcome \<circ> the \<circ> calls t) [1, 0, 2], screen (sc_cons (dev_st t))))
    (moves demo_moves (csys_start [97, 10, 98, 99] demo_calls))
  = Some ([1, 0], [2], [Some (1, [97, 0, 0]), Some (2, [98, 99]), Some (2, [])], [72, 105])"
  by code_simp

lemma move_dom: "do_move m t = Some t' \<Longrightarrow> dom (calls t') = dom (calls t)"
  by (cases "(m, t)" rule: do_move.cases) (auto split: option.splits call.splits sum.splits if_splits)

lemma moves_dom: "moves ms t = Some t' \<Longrightarrow> dom (calls t') = dom (calls t)"
  by (induction ms t rule: moves.induct) (simp, metis bind_eq_Some_conv moves.simps(2) move_dom)

lemma console_calls_atomic_witness: "\<exists>t d. cstep\<^sup>*\<^sup>* (csys_start [97, 10, 98, 99] demo_calls) t
    \<and> one_by_one (map (the \<circ> demo_calls) [1, 0, 2]) (Console_new [97, 10, 98, 99])
      = Some ([Some (1, [97, 0, 0]), Some (2, [98, 99]), Some (2, [])], d) \<and> screen d = [72, 105]
    \<and> screen (sc_cons (dev_st t)) = [72, 105]"
proof -
  obtain t where t: "moves demo_moves (csys_start [97, 10, 98, 99] demo_calls) = Some t" "rorder t = [1, 0]" "worder t = [2]"
    "map (outcome \<circ> the \<circ> calls t) [1, 0, 2] = [Some (1, [97, 0, 0]), Some (2, [98, 99]), Some (2, [])]"
    "screen (sc_cons (dev_st t)) = [72, 105]" using demo_console_run by auto
  have run: "cstep\<^sup>*\<^sup>* (csys_start [97, 10, 98, 99] demo_calls) t" using moves_steps[OF t(1)] .
  have k: "EOFc \<notin> set [97, 10, 98, 99]" by (simp add: EOFc_def)
  have f: "\<forall>i c. demo_calls i = Some c \<longrightarrow> fresh_call c" by (auto simp: demo_calls_def fresh_call_def Read_call_def Write_call_def)
  have "dom (calls t) = {0, 1, 2}" using moves_dom[OF t(1)] by (auto simp: csys_start_def demo_calls_def)
  then have "\<And>i c. calls t i = Some c \<Longrightarrow> i = 0 \<or> i = 1 \<or> i = 2" by (metis domI insertE empty_iff)
  then have over: "\<forall>i c. calls t i = Some c \<longrightarrow> outcome c \<noteq> None" using t(4) by fastforce
  from console_calls_atomic[OF run k f] over t(5) run show ?thesis unfolding t(2,3) append_Cons append_Nil t(4) by auto
qed

section \<open>The kernel's handlers\<close>

text \<open>What a system of Nachos_System shows of the console; \<open>rl\<close> and \<open>wl\<close> are the line semaphores.\<close>

definition writes_pending :: "(int \<times> PendingInterrupt) list \<Rightarrow> nat" where
  "writes_pending ps = size (filter_mset (\<lambda>(w, p). handler p = ConsoleWriteDone) (mset ps))"

definition sc_of :: "nat \<Rightarrow> nat \<Rightarrow> 'k System_scheme \<Rightarrow> SCons" where
  "sc_of rl wl s = \<lparr>sc_cons = console s, sc_read = value_of s (synchReadAvail s), sc_write = value_of s (synchWriteAvail s),
     sc_rline = value_of s rl, sc_wline = value_of s wl, sc_pending = writes_pending (pending s)\<rparr>"

lemma V_adds_one: "Semaphore_V i s = Inr s' \<Longrightarrow> value_of s' j = (if j = i then i32 (value_of s j + 1) else value_of s j)"
  by (auto simp: Semaphore_V_def Let_def bindR_eq_Inr get_sem_def ReadyToRun_def get_thread_def put_sem_def upd_thread_def value_of_def
      split: option.splits list.splits if_splits)

lemma V_more: "Semaphore_V i s = Inr s' \<Longrightarrow> console s' = console s \<and> synchReadAvail s' = synchReadAvail s \<and> synchWriteAvail s' = synchWriteAvail s"
  using V_frame[of i s s'] by (cases s; cases s') simp

lemma Schedule_view:
  assumes "Schedule h a ticks ty s = Inr s'" and "0 < ticks"
  shows "\<exists>ps. s' = s\<lparr>pending := ps\<rparr> \<and> writes_pending ps = writes_pending (pending s) + (if h = ConsoleWriteDone then 1 else 0)"
proof -
  from Schedule_spec[OF assms(2), of h a ty s] assms(1) have s': "s' = s\<lparr>pending := pending s'\<rparr>"
    "mset (pending s') = add_mset (i32 (now s + ticks), PendingInterrupt_new h a (i32 (now s + ticks)) ty) (mset (pending s))" by auto
  have "writes_pending (pending s') = writes_pending (pending s) + (if h = ConsoleWriteDone then 1 else 0)"
    by (simp add: writes_pending_def s'(2) PendingInterrupt_new_def)
  then show ?thesis using s'(1) by metis
qed

text \<open>The four semaphores are different, and the two the interrupts signal are below the largest \<open>int\<close>. The controller takes an interrupt off the pending list before it calls the handler.\<close>

lemma handlers_are_sc_int:
  assumes "distinct [synchReadAvail s, synchWriteAvail s, rl, wl, diskSem s]"
    and "is_int (value_of s (synchReadAvail s) + 1)" and "is_int (value_of s (synchWriteAvail s) + 1)"
  shows "dev_call ConsoleReadPoll a s = Inr s' \<Longrightarrow> sc_of rl wl s' = sc_poll (sc_of rl wl s)"
    and "dev_call ConsoleWriteDone a s = Inr s' \<Longrightarrow> sc_of rl wl s' = sc_done ((sc_of rl wl s)\<lparr>sc_pending := sc_pending (sc_of rl wl s) + 1\<rparr>)"
    and "dev_call DiskDone a s = Inr s' \<Longrightarrow> sc_of rl wl s' = sc_of rl wl s"
    and "PutChar ch s = Inr s' \<Longrightarrow> \<exists>c. Console_PutChar ch (sc_cons (sc_of rl wl s)) = Inr c
      \<and> sc_of rl wl s' = (sc_of rl wl s)\<lparr>sc_cons := c, sc_pending := sc_pending (sc_of rl wl s) + 1\<rparr>"
proof -
  assume "dev_call ConsoleReadPoll a s = Inr s'"
  then obtain s1 where s1: "Schedule ConsoleReadPoll 0 ConsoleTime ConsoleReadInt s = Inr s1"
    "(let (arrived, c) = Console_CheckCharAvail (console s1); s = s1\<lparr>console := c\<rparr> in if arrived then Semaphore_V (synchReadAvail s) s else Inr s) = Inr s'"
    by (auto simp: dev_call_def CheckCharAvail_def bindR_eq_Inr)
  obtain ps where ps: "s1 = s\<lparr>pending := ps\<rparr>" "writes_pending ps = writes_pending (pending s)"
    using Schedule_view[OF s1(1)] by (auto simp: ConsoleTime_def)
  define c where "c = snd (Console_CheckCharAvail (console s))"
  show "sc_of rl wl s' = sc_poll (sc_of rl wl s)"
  proof (cases "fst (Console_CheckCharAvail (console s))")
    case True
    then have "Semaphore_V (synchReadAvail s) (s1\<lparr>console := c\<rparr>) = Inr s'" using s1(2) ps(1) by (simp add: c_def Let_def case_prod_beta)
    note v = V_adds_one[OF this] V_more[OF this] V_frame[OF this, THEN conjunct1]
    show ?thesis using v assms ps True by (auto simp: sc_of_def sc_poll_def SynchReadFunct_def value_of_def c_def case_prod_beta i32_int)
  next
    case False
    then have "s' = s1\<lparr>console := c\<rparr>" using s1(2) ps(1) by (simp add: c_def Let_def case_prod_beta)
    then show ?thesis using ps False by (simp add: sc_of_def sc_poll_def value_of_def c_def case_prod_beta)
  qed
next
  assume "dev_call ConsoleWriteDone a s = Inr s'"
  then have "Semaphore_V (synchWriteAvail s) (s\<lparr>console := Console_WriteDone (console s)\<rparr>) = Inr s'" by (simp add: dev_call_def WriteDone_def)
  note v = V_adds_one[OF this] V_more[OF this] V_frame[OF this, THEN conjunct1]
  show "sc_of rl wl s' = sc_done ((sc_of rl wl s)\<lparr>sc_pending := sc_pending (sc_of rl wl s) + 1\<rparr>)" using v assms
    by (auto simp: sc_of_def sc_done_def SynchWriteFunct_def value_of_def i32_int)
next
  assume "dev_call DiskDone a s = Inr s'"
  then have "Semaphore_V (diskSem s) (s\<lparr>disk := HandleInterrupt (disk s)\<rparr>) = Inr s'" by (simp add: dev_call_def DiskRequestDone_def)
  note v = V_adds_one[OF this] V_more[OF this] V_frame[OF this, THEN conjunct1]
  show "sc_of rl wl s' = sc_of rl wl s" using v assms by (auto simp: sc_of_def value_of_def)
next
  assume "PutChar ch s = Inr s'"
  then obtain c where c: "Console_PutChar ch (console s) = Inr c" "Schedule ConsoleWriteDone 0 ConsoleTime ConsoleWriteInt (s\<lparr>console := c\<rparr>) = Inr s'"
    by (auto simp: PutChar_def bindR_eq_Inr)
  then obtain ps where "s' = s\<lparr>console := c, pending := ps\<rparr>" "writes_pending ps = writes_pending (pending s) + 1"
    using Schedule_view[OF c(2)] by (auto simp: ConsoleTime_def)
  then show "\<exists>c. Console_PutChar ch (sc_cons (sc_of rl wl s)) = Inr c
      \<and> sc_of rl wl s' = (sc_of rl wl s)\<lparr>sc_cons := c, sc_pending := sc_pending (sc_of rl wl s) + 1\<rparr>"
    using c(1) by (auto simp: sc_of_def value_of_def)
qed

section \<open>The console test\<close>

text \<open>\<open>ConsoleTest\<close> of userprog/progtest.cc, with the waits for the two interrupts as in \<open>SynchConsole_getc\<close> and
  \<open>write_char\<close>. \<open>None\<close>: it waits for a key for ever.\<close>

function console_echo :: "Console \<Rightarrow> Console res option" where
  "console_echo c = (if incoming c = EOFc \<and> keys c = [] then None
     else let (ch, c) = Console_GetChar (snd (Console_CheckCharAvail c)) in
       case Console_PutChar ch c of Inl e \<Rightarrow> Some (Inl e)
       | Inr c \<Rightarrow> (let c = Console_WriteDone c in if ch = 113 then Some (Inr c) else console_echo c))"
  by pat_completeness auto
termination
  by (relation "measure (\<lambda>c. length (keys c) + (if incoming c = EOFc then 0 else 1))")
    (auto simp: Console_CheckCharAvail_def Console_GetChar_def Console_PutChar_def Console_WriteDone_def bindR_eq_Inr split: list.splits if_splits)

declare console_echo.simps [simp del]

definition ConsoleTest :: "byte list \<Rightarrow> Console res option" where
  "ConsoleTest input = console_echo (Console_new input)"

lemma console_echo_keys:
  assumes "keys c = xs @ 113 # rest" and "113 \<notin> set xs" and "EOFc \<notin> set xs" and "incoming c = EOFc" and "\<not> putBusy c"
  shows "\<exists>d. console_echo c = Some (Inr d) \<and> screen d = screen c @ xs @ [113] \<and> keys d = rest"
  using assms
proof (induction xs arbitrary: c)
  case Nil
  then show ?case by (subst console_echo.simps)
    (simp add: Console_CheckCharAvail_def Console_GetChar_def Console_PutChar_def Console_WriteDone_def EOFc_def)
next
  case (Cons x xs)
  let ?c = "c\<lparr>keys := xs @ 113 # rest, charsRead := charsRead c + 1, screen := screen c @ [x], charsWritten := charsWritten c + 1\<rparr>"
  have e: "console_echo c = console_echo ?c" using Cons.prems
    by (subst console_echo.simps) (cases c, simp add: Console_CheckCharAvail_def Console_GetChar_def Console_PutChar_def Console_WriteDone_def)
  show ?case unfolding e using Cons.IH[of ?c] Cons.prems by simp
qed

text \<open>It echoes what is typed up to the first \<open>q\<close>, and stops there.\<close>

theorem console_test_echoes:
  assumes "113 \<notin> set xs" and "EOFc \<notin> set xs"
  shows "\<exists>d. ConsoleTest (xs @ 113 # rest) = Some (Inr d) \<and> screen d = xs @ [113] \<and> keys d = rest"
  using console_echo_keys[of "Console_new (xs @ 113 # rest)" xs rest] assms by (simp add: ConsoleTest_def Console_new_def)

end
