(* ===== verification/Nachos_UserFile.thy ===== *)
theory Nachos_UserFile
  imports Nachos_HostFS
begin

text \<open>
  The file calls as a user program sees them: the part of \<open>Exception_CreateFile\<close>, \<open>Exception_Open\<close>,
  \<open>Exception_Read\<close>, \<open>Exception_Write\<close> and \<open>Exception_Close\<close> (userprog/exception.cc) that works on the
  kernel's open-file table, without the registers and the user's memory: arguments and result are values.
  The result of a call is what the program finds in register 2. A call that does not write this register
  leaves its own number there.

  The calls on the console's two entries (types 2 and 3) do not come back here (\<open>NoReturn\<close>): the programs
  of this development do not make them on a file they opened.

  The abstraction \<open>ufile\<close> gives an open slot its inode, position and type; the laws say what each call does
  to it.
\<close>

section \<open>The calls\<close>

text \<open>\<open>User2System(buffer, n)\<close>: the bytes before the first zero, the rest of the kernel's buffer being cleared.\<close>

definition kernel_copy :: "nat \<Rightarrow> byte list \<Rightarrow> byte list" where
  "kernel_copy n bs = (let xs = takeWhile (\<lambda>b. b \<noteq> 0) (take n bs) in xs @ replicate (n - length xs) 0)"

definition slot_file :: "int \<Rightarrow> StubFS \<Rightarrow> (nat \<times> StubFile) res" where
  "slot_file i F = (if i < 0 \<or> i \<ge> int (length (openf F)) then Inl OutOfBounds
     else case openf F ! nat i of None \<Rightarrow> Inl NullPointer
     | Some a \<Rightarrow> (case sf_heap F a of None \<Rightarrow> Inl DanglingPointer | Some f \<Rightarrow> Inr (a, f)))"

definition set_file :: "nat \<Rightarrow> StubFile \<Rightarrow> Unix \<Rightarrow> StubFS \<Rightarrow> StubFS" where
  "set_file a f u F = F\<lparr>sf_heap := (sf_heap F)(a \<mapsto> f), host := u\<rparr>"

definition sys_CreateFile :: "byte list \<Rightarrow> StubFS \<Rightarrow> (int \<times> StubFS) res" where
  "sys_CreateFile name F = bindR (StubFS_Create name 0 F) (\<lambda>(ok, F). Inr (0, F))"

definition sys_Open :: "byte list \<Rightarrow> int \<Rightarrow> StubFS \<Rightarrow> (int \<times> StubFS) res" where
  "sys_Open name ty F = (let freeSlot = StubFS_FindFreeSlot F in
     if freeSlot \<noteq> -1 then
       if ty = 0 \<or> ty = 1 then
         bindR (StubFS_Open name ty F) (\<lambda>(p, F). let F = F\<lparr>openf := (openf F)[nat freeSlot := p]\<rparr> in
           Inr (if p \<noteq> None then freeSlot else 5, F))
       else if ty = 2 then Inr (0, F) else Inr (1, F)
     else Inr (-1, F))"

definition sys_Close :: "int \<Rightarrow> StubFS \<Rightarrow> (int \<times> StubFS) res" where
  "sys_Close i F = (if i \<ge> 0 \<and> i \<le> 14 then
     if i \<ge> int (length (openf F)) then Inl OutOfBounds
     else (case openf F ! nat i of Some a \<Rightarrow> bindR (delete_file a F) (\<lambda>F. Inr (0, F)) | None \<Rightarrow> Inr (-1, F))
   else Inr (-1, F))"

text \<open>\<open>openf[id]->GetCurrentPos()\<close>, which also sets the object's offset.\<close>

definition slot_pos :: "int \<Rightarrow> StubFS \<Rightarrow> (int \<times> StubFS) res" where
  "slot_pos i F = bindR (slot_file i F) (\<lambda>(a, f).
     let (p, f) = StubFile_GetCurrentPos f (host F) in Inr (p, set_file a f (host F) F))"

text \<open>\<open>Read(c, 1, id)\<close>: the byte, if one was read.\<close>

definition sys_Read1 :: "int \<Rightarrow> StubFS \<Rightarrow> (int \<times> byte option \<times> StubFS) res" where
  "sys_Read1 i F = (if i < 0 \<or> i > 14 then Inr (-1, None, F)
    else if i \<ge> int (length (openf F)) then Inl OutOfBounds
    else if openf F ! nat i = None then Inr (-1, None, F)
    else bindR (slot_file i F) (\<lambda>(_, f).
      if ftype f = 3 then Inr (-1, None, F) else
      bindR (slot_pos i F) (\<lambda>(firstPositionInFile, F).
      if ftype f = 2 then Inl NoReturn else
      bindR (slot_file i F) (\<lambda>(a, f).
      bindR (StubFile_Read 1 f (host F)) (\<lambda>(n, data, f, u). let F = set_file a f u F in
      if n > 0 then bindR (slot_pos i F) (\<lambda>(lastPositionInFile, F). Inr (lastPositionInFile - firstPositionInFile, Some (hd data), F))
      else Inr (-2, None, F))))))"

definition sys_Write :: "byte list \<Rightarrow> nat \<Rightarrow> int \<Rightarrow> StubFS \<Rightarrow> (int \<times> StubFS) res" where
  "sys_Write bs charcount i F = bindR (slot_file i F) (\<lambda>(_, f).
     bindR (slot_pos i F) (\<lambda>(OldPos, F).
     if ftype f = 0 then
       bindR (slot_file i F) (\<lambda>(a, f).
       bindR (StubFile_Write (kernel_copy charcount bs) (int charcount) f (host F)) (\<lambda>(n, f, u). let F = set_file a f u F in
       if n > 0 then bindR (slot_pos i F) (\<lambda>(NewPos, F). Inr (NewPos - OldPos, F)) else Inr (7, F)))
     else if ftype f = 3 then Inl NoReturn
     else Inr (if ftype f = 1 \<or> ftype f = 2 then -1 else 7, F)))"

section \<open>The view of the open files\<close>

definition fcontent :: "StubFS \<Rightarrow> nat \<Rightarrow> byte list" where
  "fcontent F = inodes (host F)"

text \<open>Inode, position and type of an open slot. The position is the descriptor's: every call sets the
  object's offset from it first.\<close>

definition ufile :: "StubFS \<Rightarrow> int \<Rightarrow> (nat \<times> nat \<times> int) option" where
  "ufile F i = (case slot_file i F of Inl _ \<Rightarrow> None
     | Inr (a, f) \<Rightarrow> (case unix_fd (fileno f) (host F) of None \<Rightarrow> None | Some (ino, pos) \<Rightarrow> Some (ino, pos, ftype f)))"

text \<open>Distinct slots are distinct objects on distinct descriptors; objects not yet allocated do not exist.\<close>

definition wf_files :: "StubFS \<Rightarrow> bool" where
  "wf_files F \<longleftrightarrow> length (openf F) = 15
     \<and> (\<forall>a \<ge> sf_brk F. sf_heap F a = None)
     \<and> (\<forall>i < 15. \<forall>a. openf F ! i = Some a \<longrightarrow> a < sf_brk F)
     \<and> (\<forall>i < 15. \<forall>j < 15. \<forall>a. openf F ! i = Some a \<longrightarrow> openf F ! j = Some a \<longrightarrow> i = j)
     \<and> (\<forall>a b f g. sf_heap F a = Some f \<longrightarrow> sf_heap F b = Some g \<longrightarrow> fileno f = fileno g \<longrightarrow> a = b)
     \<and> (\<forall>a f. sf_heap F a = Some f \<longrightarrow> (\<exists>x. unix_fd (fileno f) (host F) = Some x))"

definition free_slots :: "StubFS \<Rightarrow> nat" where
  "free_slots F = length (filter (\<lambda>i. openf F ! i = None) [2..<15])"

definition free_fds :: "StubFS \<Rightarrow> nat" where
  "free_fds F = length (filter (\<lambda>d. fds (host F) d = None) [3..<1024])"

section \<open>Laws of the calls\<close>

text \<open>The common form of what a call does to an open file: a new offset, a new position of its descriptor, new
  contents of its inode.\<close>

definition move_file :: "nat \<Rightarrow> StubFile \<Rightarrow> int \<Rightarrow> nat \<Rightarrow> nat \<Rightarrow> byte list \<Rightarrow> StubFS \<Rightarrow> StubFS" where
  "move_file a f off ino pos c F = set_file a (f\<lparr>currentOffset := off\<rparr>)
     ((host F)\<lparr>fds := (fds (host F))(nat (fileno f) \<mapsto> (ino, pos)), inodes := (inodes (host F))(ino := c)\<rparr>) F"

lemma move_file_simps [simp]:
  "openf (move_file a f off ino pos c F) = openf F"
  "names (host (move_file a f off ino pos c F)) = names (host F)"
  "next_inode (host (move_file a f off ino pos c F)) = next_inode (host F)"
  "fcontent (move_file a f off ino pos c F) = (fcontent F)(ino := c)"
  "sf_brk (move_file a f off ino pos c F) = sf_brk F"
  by (simp_all add: move_file_def set_file_def fcontent_def)

lemma move_file_move_file:
  "fileno g = fileno f \<Longrightarrow> ftype g = ftype f \<Longrightarrow>
    move_file a g off' ino pos' c' (move_file a f off ino pos c F) = move_file a f off' ino pos' c' F"
  by (cases f; cases g) (simp add: move_file_def set_file_def)

lemma ufile_Some:
  "ufile F i = Some (ino, pos, ty) \<longleftrightarrow> (\<exists>a f. slot_file i F = Inr (a, f) \<and> unix_fd (fileno f) (host F) = Some (ino, pos) \<and> ftype f = ty)"
  by (auto simp: ufile_def split: sum.splits option.splits)

lemma slot_file_Inr:
  "slot_file i F = Inr (a, f) \<longleftrightarrow> 0 \<le> i \<and> i < int (length (openf F)) \<and> openf F ! nat i = Some a \<and> sf_heap F a = Some f"
  by (auto simp: slot_file_def split: option.splits)

lemma slot_file_move:
  assumes "slot_file i F = Inr (a, f)"
  shows "slot_file i (move_file a f off ino pos c F) = Inr (a, f\<lparr>currentOffset := off\<rparr>)"
  using assms by (auto simp: slot_file_Inr move_file_def set_file_def)

lemma unix_fd_move:
  "0 \<le> fileno f \<Longrightarrow> unix_fd (fileno f) (host (move_file a f off ino pos c F)) = Some (ino, pos)"
  by (simp add: unix_fd_def move_file_def set_file_def)

lemma unix_fd_move_other:
  "0 \<le> fileno f \<Longrightarrow> fileno g \<noteq> fileno f \<Longrightarrow> unix_fd (fileno g) (host (move_file a f off ino pos c F)) = unix_fd (fileno g) (host F)"
  by (auto simp: unix_fd_def move_file_def set_file_def)

lemma unix_fd_nonneg: "unix_fd d u = Some x \<Longrightarrow> 0 \<le> d"
  by (simp add: unix_fd_def split: if_splits)

text \<open>Where the view of a slot comes from, when no other slot shares its object or descriptor.\<close>

lemma ufile_move:
  assumes wf: "wf_files F" and sl: "slot_file i F = Inr (a, f)" and fd: "unix_fd (fileno f) (host F) = Some (ino, p)"
  shows "ufile (move_file a f off ino pos c F) = (ufile F)(i \<mapsto> (ino, pos, ftype f))"
proof
  fix j
  let ?G = "move_file a f off ino pos c F"
  note nn = unix_fd_nonneg[OF fd]
  show "ufile ?G j = ((ufile F)(i \<mapsto> (ino, pos, ftype f))) j"
  proof (cases "j = i")
    case True
    then show ?thesis using slot_file_move[OF sl] unix_fd_move[OF nn] by (simp add: ufile_def)
  next
    case False
    have same: "slot_file j ?G = slot_file j F"
    proof (cases "openf F ! nat j = Some a \<and> 0 \<le> j \<and> j < int (length (openf F))")
      case True
      then have "nat j < 15" "nat i < 15" "openf F ! nat i = Some a" using wf sl by (auto simp: wf_files_def slot_file_Inr)
      then have "nat j = nat i" using wf True unfolding wf_files_def by blast
      with False True sl show ?thesis by (auto simp: slot_file_Inr)
    qed (auto simp: slot_file_def move_file_def set_file_def split: option.splits)
    have "unix_fd (fileno g) (host ?G) = unix_fd (fileno g) (host F)" if "slot_file j F = Inr (b, g)" for b g
    proof (rule unix_fd_move_other[OF nn], rule notI)
      assume "fileno g = fileno f"
      moreover have "sf_heap F b = Some g" "sf_heap F a = Some f" using that sl by (auto simp: slot_file_Inr)
      ultimately have "b = a" using wf unfolding wf_files_def by blast
      then have "nat j < 15" "nat i < 15" "openf F ! nat i = Some a" "openf F ! nat j = Some a" "0 \<le> i" "0 \<le> j"
        using wf sl that by (auto simp: wf_files_def slot_file_Inr)
      then have "nat j = nat i" using wf unfolding wf_files_def by blast
      then show False using False \<open>0 \<le> i\<close> \<open>0 \<le> j\<close> by simp
    qed
    then show ?thesis using False same by (auto simp: ufile_def split: sum.splits)
  qed
qed

lemma wf_move:
  assumes "wf_files F" and "slot_file i F = Inr (a, f)" and "unix_fd (fileno f) (host F) = Some (ino, p)"
  shows "wf_files (move_file a f off ino pos c F)"
proof -
  have heap: "\<exists>g'. sf_heap F b = Some g' \<and> fileno g = fileno g'" if "sf_heap (move_file a f off ino pos c F) b = Some g" for b g
    using that assms(2) by (auto simp: move_file_def set_file_def slot_file_Inr split: if_splits)
  have "sf_heap F a = Some f" using assms(2) by (simp add: slot_file_Inr)
  moreover from this have "a < sf_brk F" using assms(1) unfolding wf_files_def by (metis linorder_not_le option.distinct(1))
  ultimately have "\<forall>b \<ge> sf_brk F. sf_heap (move_file a f off ino pos c F) b = None"
    using assms(1) by (auto simp: wf_files_def move_file_def set_file_def)
  moreover have "\<exists>x. unix_fd (fileno g) (host (move_file a f off ino pos c F)) = Some x"
    if "sf_heap (move_file a f off ino pos c F) b = Some g" for b g
    using heap[OF that] assms(1) unix_fd_nonneg[OF assms(3)] unfolding wf_files_def
    by (cases "fileno g = fileno f") (auto simp: unix_fd_move unix_fd_move_other)
  moreover have "b1 = b2" if "sf_heap (move_file a f off ino pos c F) b1 = Some g1"
    "sf_heap (move_file a f off ino pos c F) b2 = Some g2" "fileno g1 = fileno g2" for b1 b2 g1 g2
    using heap[OF that(1)] heap[OF that(2)] that(3) assms(1) unfolding wf_files_def by metis
  ultimately show ?thesis using assms(1) unfolding wf_files_def by simp
qed

lemma free_fds_move:
  assumes "unix_fd (fileno f) (host F) = Some (ino, p)"
  shows "free_fds (move_file a f off ino pos c F) = free_fds F"
proof -
  have "fds (host F) (nat (fileno f)) \<noteq> None" using assms by (auto simp: unix_fd_def split: if_splits)
  then show ?thesis unfolding free_fds_def by (intro arg_cong[of _ _ length] filter_cong) (auto simp: move_file_def set_file_def)
qed

text \<open>What the calls do to the object, for a slot whose object and descriptor are known.\<close>

lemma slot_pos_move:
  assumes "slot_file i F = Inr (a, f)" and "unix_fd (fileno f) (host F) = Some (ino, p)"
  shows "slot_pos i F = Inr (int p, move_file a f (int p) ino p (fcontent F ino) F)"
proof -
  have "(fds (host F))(nat (fileno f) \<mapsto> (ino, p)) = fds (host F)" using assms(2) by (auto simp: unix_fd_def split: if_splits)
  then show ?thesis using assms by (simp add: slot_pos_def StubFile_GetCurrentPos_def Tell_def unix_lseek_def move_file_def fcontent_def)
qed

lemma slot_pos_again:
  assumes "slot_file i F = Inr (a, f)" and "0 \<le> fileno f"
  shows "slot_pos i (move_file a f off ino q c F) = Inr (int q, move_file a f (int q) ino q c F)"
proof -
  have "unix_fd (fileno (f\<lparr>currentOffset := off\<rparr>)) (host (move_file a f off ino q c F)) = Some (ino, q)"
    using unix_fd_move[OF assms(2)] by simp
  then show ?thesis using slot_pos_move[OF slot_file_move[OF assms(1)]] by (simp add: move_file_move_file)
qed

lemma sys_Read1_move:
  assumes sl: "slot_file i F = Inr (a, f)" and fd: "unix_fd (fileno f) (host F) = Some (ino, p)"
    and len: "length (openf F) = 15" and ty: "ftype f = 0 \<or> ftype f = 1"
  shows "sys_Read1 i F = Inr (if p < length (fcontent F ino)
     then (1, Some (fcontent F ino ! p), move_file a f (int p + 1) ino (p + 1) (fcontent F ino) F)
     else (-2, None, move_file a f (int p) ino p (fcontent F ino) F))"
proof -
  note nn = unix_fd_nonneg[OF fd]
  let ?f = "f\<lparr>currentOffset := int p\<rparr>"
  define G where "G = move_file a f (int p) ino p (fcontent F ino) F"
  have g: "slot_file i G = Inr (a, ?f)" "unix_fd (fileno ?f) (host G) = Some (ino, p)" "inodes (host G) = fcontent F"
    using slot_file_move[OF sl] unix_fd_move[OF nn] by (auto simp: G_def) (simp add: move_file_def set_file_def fcontent_def)
  have data: "take 1 (drop p (fcontent F ino)) = (if p < length (fcontent F ino) then [fcontent F ino ! p] else [])"
    by (simp add: take_Suc_conv_app_nth take_Suc hd_drop_conv_nth)
  have rd: "StubFile_Read 1 ?f (host G) = Inr (if p < length (fcontent F ino)
      then (1, [fcontent F ino ! p], f\<lparr>currentOffset := int p + 1\<rparr>, (host G)\<lparr>fds := (fds (host G))(nat (fileno f) \<mapsto> (ino, p + 1))\<rparr>)
      else (0, [], ?f, (host G)\<lparr>fds := (fds (host G))(nat (fileno f) \<mapsto> (ino, p))\<rparr>))"
    using ReadAt_spec[OF g(2), of "int p" 1] data g(3) by (simp add: StubFile_Read_def Let_def)
  have mv: "set_file a (f\<lparr>currentOffset := off\<rparr>) ((host G)\<lparr>fds := (fds (host G))(nat (fileno f) \<mapsto> (ino, q))\<rparr>) G
      = move_file a f off ino q (fcontent F ino) F" for off q
    by (simp add: G_def move_file_def set_file_def fcontent_def)
  note again = slot_pos_again[OF sl nn]
  have "0 \<le> i" "i \<le> 14" "openf F ! nat i \<noteq> None" using sl len by (auto simp: slot_file_Inr)
  then show ?thesis using ty len sl slot_pos_move[OF sl fd] g(1) rd mv again by (auto simp: sys_Read1_def G_def[symmetric] add.commute)
qed

lemma length_kernel_copy [simp]: "length (kernel_copy n bs) = n"
proof -
  have "length (takeWhile (\<lambda>b. b \<noteq> 0) (take n bs)) \<le> n" by (rule order_trans[OF length_takeWhile_le]) simp
  then show ?thesis by (simp add: kernel_copy_def Let_def)
qed

lemma kernel_copy_id: "0 \<notin> set bs \<Longrightarrow> kernel_copy (length bs) bs = bs"
proof -
  assume "0 \<notin> set bs"
  then have tw: "takeWhile (\<lambda>b. b \<noteq> 0) bs = bs" by (auto simp: takeWhile_eq_all_conv)
  show ?thesis by (simp add: kernel_copy_def Let_def tw)
qed

lemma sys_Write_move:
  assumes sl: "slot_file i F = Inr (a, f)" and fd: "unix_fd (fileno f) (host F) = Some (ino, p)"
    and ty: "ftype f = 0" and n: "0 < n"
  shows "sys_Write bs n i F = Inr (int n,
     move_file a f (int (p + n)) ino (p + n) (splice p (kernel_copy n bs) (fcontent F ino)) F)"
proof -
  note nn = unix_fd_nonneg[OF fd]
  let ?f = "f\<lparr>currentOffset := int p\<rparr>"
  let ?c = "splice p (kernel_copy n bs) (fcontent F ino)"
  define G where "G = move_file a f (int p) ino p (fcontent F ino) F"
  have g: "slot_file i G = Inr (a, ?f)" "unix_fd (fileno ?f) (host G) = Some (ino, p)" "inodes (host G) = fcontent F"
    using slot_file_move[OF sl] unix_fd_move[OF nn] by (auto simp: G_def) (simp add: move_file_def set_file_def fcontent_def)
  have wr: "StubFile_Write (kernel_copy n bs) (int n) ?f (host G) = Inr (int n, f\<lparr>currentOffset := int p + int n\<rparr>,
      (host G)\<lparr>inodes := (inodes (host G))(ino := ?c), fds := (fds (host G))(nat (fileno f) \<mapsto> (ino, p + n))\<rparr>)"
    using WriteAt_spec[OF g(2), of "int p" "kernel_copy n bs"] g(3) by (simp add: StubFile_Write_def)
  have mv: "set_file a (f\<lparr>currentOffset := off\<rparr>) ((host G)\<lparr>inodes := (inodes (host G))(ino := c), fds := (fds (host G))(nat (fileno f) \<mapsto> (ino, q))\<rparr>) G
      = move_file a f off ino q c F" for off q c
    by (simp add: G_def move_file_def set_file_def fcontent_def)
  note again = slot_pos_again[OF sl nn]
  show ?thesis using ty n sl slot_pos_move[OF sl fd] g(1) wr mv again by (simp add: sys_Write_def G_def[symmetric])
qed

text \<open>The laws a client uses: one per call, on the view of the slot it names; everything else keeps.\<close>

definition same_table :: "StubFS \<Rightarrow> StubFS \<Rightarrow> bool" where
  "same_table F G \<longleftrightarrow> wf_files G \<and> openf G = openf F \<and> names (host G) = names (host F) \<and> free_fds G = free_fds F"

lemma same_tableD:
  assumes "same_table F G"
  shows "wf_files G" "names (host G) = names (host F)" "free_slots G = free_slots F" "free_fds G = free_fds F"
  using assms by (auto simp: same_table_def free_slots_def)

lemma same_table_move:
  assumes "wf_files F" and "slot_file i F = Inr (a, f)" and "unix_fd (fileno f) (host F) = Some (ino, p)"
  shows "same_table F (move_file a f off ino pos c F)"
  using wf_move[OF assms] free_fds_move[OF assms(3)] by (simp add: same_table_def)

lemma sys_Read1_law:
  assumes "wf_files F" and "ufile F i = Some (ino, p, ty)" and "ty = 0 \<or> ty = 1"
  shows "\<exists>G. sys_Read1 i F = Inr (if p < length (fcontent F ino) then (1, Some (fcontent F ino ! p), G) else (-2, None, G))
    \<and> ufile G = (ufile F)(i \<mapsto> (ino, if p < length (fcontent F ino) then p + 1 else p, ty))
    \<and> fcontent G = fcontent F \<and> same_table F G"
proof -
  obtain a f where sl: "slot_file i F = Inr (a, f)" and fd: "unix_fd (fileno f) (host F) = Some (ino, p)" and ty: "ftype f = ty"
    using assms(2) by (auto simp: ufile_Some)
  have len: "length (openf F) = 15" using assms(1) by (simp add: wf_files_def)
  show ?thesis using sys_Read1_move[OF sl fd len] ufile_move[OF assms(1) sl fd] same_table_move[OF assms(1) sl fd] assms(3) ty
    by (intro exI[of _ "move_file a f (int (if p < length (fcontent F ino) then p + 1 else p)) ino
          (if p < length (fcontent F ino) then p + 1 else p) (fcontent F ino) F"]) (auto simp: add.commute)
qed

lemma sys_Write_law:
  assumes "wf_files F" and "ufile F i = Some (ino, p, 0)" and "0 < n"
  shows "\<exists>G. sys_Write bs n i F = Inr (int n, G) \<and> ufile G = (ufile F)(i \<mapsto> (ino, p + n, 0))
    \<and> fcontent G = (fcontent F)(ino := splice p (kernel_copy n bs) (fcontent F ino)) \<and> same_table F G"
proof -
  obtain a f where sl: "slot_file i F = Inr (a, f)" and fd: "unix_fd (fileno f) (host F) = Some (ino, p)" and ty: "ftype f = 0"
    using assms(2) by (auto simp: ufile_Some)
  show ?thesis using sys_Write_move[OF sl fd ty assms(3)] ufile_move[OF assms(1) sl fd] same_table_move[OF assms(1) sl fd] ty by auto
qed

text \<open>Appending: the position is the end of the file.\<close>

lemma splice_end: "splice (length old) new old = old @ new"
  by (simp add: splice_def)

text \<open>Proofs about the tables do not unfold their index ranges.\<close>

declare upt_rec_numeral [simp del]

lemma filter_length_mono: "(\<And>x. P x \<Longrightarrow> Q x) \<Longrightarrow> length (filter P xs) \<le> length (filter Q xs)"
  by (induction xs) auto

lemma filter_drop_one:
  assumes "distinct xs" and "x \<in> set xs" and "P x" and "\<And>y. y \<in> set xs \<Longrightarrow> Q y \<longleftrightarrow> P y \<and> y \<noteq> x"
  shows "length (filter Q xs) = length (filter P xs) - 1"
proof -
  have "filter Q xs = remove1 x (filter P xs)"
    using assms(1,4) by (simp add: distinct_remove1_removeAll removeAll_filter_not_eq conj_commute eq_commute[of x] cong: filter_cong)
  then show ?thesis using assms(2,3) by (simp add: length_remove1)
qed

text \<open>What \<open>Open\<close> builds, in the case that the file exists and neither table is full.\<close>

definition opened :: "nat \<Rightarrow> nat \<Rightarrow> nat \<Rightarrow> int \<Rightarrow> StubFS \<Rightarrow> StubFS" where
  "opened s d ino ty F = F\<lparr>host := (host F)\<lparr>fds := (fds (host F))(d \<mapsto> (ino, 0))\<rparr>,
     sf_heap := (sf_heap F)(sf_brk F \<mapsto> StubFile_new (int d) ty), sf_brk := sf_brk F + 1, openf := (openf F)[s := Some (sf_brk F)]\<rparr>"

lemma sys_Open_opened:
  assumes "wf_files F" and nm: "names (host F) name = Some ino" and ty: "ty = 0 \<or> ty = 1" and "0 < free_slots F" and "0 < free_fds F"
  shows "\<exists>s d. sys_Open name ty F = Inr (int s, opened s d ino ty F) \<and> 2 \<le> s \<and> s < 15 \<and> openf F ! s = None
    \<and> 3 \<le> d \<and> d < 1024 \<and> fds (host F) d = None"
proof -
  let ?p = "\<lambda>i. i < length (openf F) \<and> openf F ! i = None"
  have len: "length (openf F) = 15" using assms(1) by (simp add: wf_files_def)
  have "find_first ?p [2..<15] \<noteq> None" "free_fd (host F) \<noteq> None"
    using assms(4,5) len by (auto simp: free_slots_def free_fds_def free_fd_def find_first_None filter_empty_conv)
  then obtain s d where s: "find_first ?p [2..<15] = Some s" and d: "free_fd (host F) = Some d" by blast
  have "2 \<le> s \<and> s < 15 \<and> openf F ! s = None" "3 \<le> d \<and> d < 1024 \<and> fds (host F) d = None"
    using find_first_Some[OF s] find_first_Some[OF d[unfolded free_fd_def]] by auto
  moreover have "StubFS_FindFreeSlot F = int s" by (simp add: StubFS_FindFreeSlot_def s)
  moreover have "StubFS_Open name ty F = Inr (Some (sf_brk F), F\<lparr>host := (host F)\<lparr>fds := (fds (host F))(d \<mapsto> (ino, 0))\<rparr>,
     sf_heap := (sf_heap F)(sf_brk F \<mapsto> StubFile_new (int d) ty), sf_brk := sf_brk F + 1\<rparr>)"
    by (simp add: StubFS_Open_def OpenForReadWrite_def unix_open_def d nm)
  ultimately show ?thesis using ty by (intro exI[of _ s] exI[of _ d]) (auto simp: sys_Open_def opened_def)
qed

lemma wf_opened:
  assumes wf: "wf_files F" and s: "s < 15" and d: "fds (host F) d = None"
  shows "wf_files (opened s d ino ty F)"
proof -
  let ?G = "opened s d ino ty F"
  have fd: "unix_fd x (host ?G) = Some (ino, 0)" if "x = int d" for x using that by (simp add: opened_def unix_fd_def)
  have fd': "unix_fd x (host ?G) = unix_fd x (host F)" if "x \<noteq> int d" for x using that by (auto simp: opened_def unix_fd_def)
  have old: "fileno f \<noteq> int d" if "sf_heap F a = Some f" for a f
    using wf that d unfolding wf_files_def by (metis nat_int not_None_eq unix_fd_def)
  have "length (openf ?G) = 15" "\<forall>a \<ge> sf_brk ?G. sf_heap ?G a = None" using wf by (auto simp: wf_files_def opened_def)
  moreover have "\<forall>i < 15. \<forall>a. openf ?G ! i = Some a \<longrightarrow> a < sf_brk ?G"
    using wf s by (auto simp: wf_files_def opened_def nth_list_update less_Suc_eq)
  moreover have "\<forall>i < 15. \<forall>j < 15. \<forall>a. openf ?G ! i = Some a \<longrightarrow> openf ?G ! j = Some a \<longrightarrow> i = j"
    using wf s by (auto simp: wf_files_def opened_def nth_list_update)
  moreover have "\<forall>a b f g. sf_heap ?G a = Some f \<longrightarrow> sf_heap ?G b = Some g \<longrightarrow> fileno f = fileno g \<longrightarrow> a = b"
    using wf old old[THEN not_sym] unfolding wf_files_def by (simp add: opened_def StubFile_new_def)
  moreover have "\<forall>a f. sf_heap ?G a = Some f \<longrightarrow> (\<exists>x. unix_fd (fileno f) (host ?G) = Some x)"
  proof (intro allI impI)
    fix a f assume "sf_heap ?G a = Some f"
    then have "f = StubFile_new (int d) ty \<or> sf_heap F a = Some f" by (auto simp: opened_def split: if_splits)
    then show "\<exists>x. unix_fd (fileno f) (host ?G) = Some x"
      using fd fd'[OF old] wf by (auto simp: StubFile_new_def wf_files_def)
  qed
  ultimately show ?thesis unfolding wf_files_def by blast
qed

lemma ufile_opened:
  assumes wf: "wf_files F" and s: "s < 15" and d: "fds (host F) d = None"
  shows "ufile (opened s d ino ty F) = (ufile F)(int s \<mapsto> (ino, 0, ty))"
proof
  fix j
  have len: "length (openf F) = 15" using wf by (simp add: wf_files_def)
  show "ufile (opened s d ino ty F) j = ((ufile F)(int s \<mapsto> (ino, 0, ty))) j"
  proof (cases "j = int s")
    case True
    then show ?thesis using s len by (simp add: ufile_def slot_file_def opened_def StubFile_new_def unix_fd_def)
  next
    case False
    then have sl: "openf F ! nat j \<noteq> Some (sf_brk F)" if "0 \<le> j" "j < 15" using wf that unfolding wf_files_def by (metis less_irrefl nat_less_iff of_nat_numeral)
    have "(openf F)[s := Some (sf_brk F)] ! nat j = openf F ! nat j" if "0 \<le> j" using False that by (intro nth_list_update_neq) auto
    then have "slot_file j (opened s d ino ty F) = slot_file j F"
      using sl len by (cases "0 \<le> j"; cases "j < 15") (auto simp: slot_file_def opened_def split: option.splits)
    moreover have "unix_fd (fileno g) (host (opened s d ino ty F)) = unix_fd (fileno g) (host F)" if "slot_file j F = Inr (a, g)" for a g
    proof -
      have "fileno g \<noteq> int d" using wf that d unfolding wf_files_def slot_file_Inr by (metis nat_int not_None_eq unix_fd_def)
      then show ?thesis by (auto simp: opened_def unix_fd_def)
    qed
    ultimately show ?thesis using False by (auto simp: ufile_def split: sum.splits)
  qed
qed

lemma sys_Open_law:
  assumes wf: "wf_files F" and nm: "names (host F) name = Some ino" and ty: "ty = 0 \<or> ty = 1"
    and slots: "0 < free_slots F" and room: "0 < free_fds F"
  shows "\<exists>k G. sys_Open name ty F = Inr (k, G) \<and> ufile F k = None \<and> ufile G = (ufile F)(k \<mapsto> (ino, 0, ty))
    \<and> 2 \<le> k \<and> k < 15 \<and> fcontent G = fcontent F \<and> names (host G) = names (host F) \<and> wf_files G
    \<and> free_slots G = free_slots F - 1 \<and> free_fds G = free_fds F - 1"
proof -
  obtain s d where o: "sys_Open name ty F = Inr (int s, opened s d ino ty F)" and s: "2 \<le> s" "s < 15" "openf F ! s = None"
    and d: "3 \<le> d" "d < 1024" "fds (host F) d = None"
    using sys_Open_opened[OF assms] by blast
  have len: "length (openf F) = 15" using wf by (simp add: wf_files_def)
  have "free_slots (opened s d ino ty F) = free_slots F - 1" unfolding free_slots_def
    by (rule filter_drop_one[where x = s]) (use s len in \<open>auto simp: opened_def nth_list_update\<close>)
  moreover have "free_fds (opened s d ino ty F) = free_fds F - 1" unfolding free_fds_def
    by (rule filter_drop_one[where x = d]) (use d in \<open>auto simp: opened_def\<close>)
  moreover have "ufile F (int s) = None" using s len by (simp add: ufile_def slot_file_def)
  moreover have "fcontent (opened s d ino ty F) = fcontent F" "names (host (opened s d ino ty F)) = names (host F)"
    by (simp_all add: opened_def fcontent_def)
  ultimately show ?thesis using o s ufile_opened[OF wf s(2) d(3)] wf_opened[OF wf s(2) d(3)]
    by (intro exI[of _ "int s"] exI[of _ "opened s d ino ty F"]) auto
qed

lemma sys_Open_full: "free_slots F = 0 \<Longrightarrow> sys_Open name ty F = Inr (-1, F)"
proof -
  assume "free_slots F = 0"
  then have "StubFS_FindFreeSlot F = -1" by (auto simp: StubFS_FindFreeSlot_def free_slots_def filter_empty_conv find_first_None split: option.splits dest!: find_first_Some)
  then show ?thesis by (simp add: sys_Open_def)
qed

text \<open>\<open>Close\<close> gives the descriptor back and keeps the slot: its pointer stays in the table.\<close>

definition closed :: "nat \<Rightarrow> int \<Rightarrow> StubFS \<Rightarrow> StubFS" where
  "closed a d F = F\<lparr>host := (host F)\<lparr>fds := (fds (host F))(nat d := None)\<rparr>, sf_heap := (sf_heap F)(a := None)\<rparr>"

lemma unix_fd_closed: "0 \<le> d \<Longrightarrow> x \<noteq> d \<Longrightarrow> unix_fd x (host (closed a d F)) = unix_fd x (host F)"
  by (auto simp: unix_fd_def closed_def)

lemma wf_closed:
  assumes wf: "wf_files F" and a: "sf_heap F a = Some f" and nn: "0 \<le> fileno f"
  shows "wf_files (closed a (fileno f) F)"
proof -
  have "\<exists>x. unix_fd (fileno g) (host (closed a (fileno f) F)) = Some x" if "b \<noteq> a" "sf_heap F b = Some g" for b g
  proof -
    have "fileno g \<noteq> fileno f" using wf a that unfolding wf_files_def by blast
    then show ?thesis using unix_fd_closed[OF nn] wf that unfolding wf_files_def by metis
  qed
  then show ?thesis using wf by (auto simp: wf_files_def closed_def)
qed

lemma ufile_closed:
  assumes wf: "wf_files F" and sl: "slot_file i F = Inr (a, f)" and nn: "0 \<le> fileno f"
  shows "ufile (closed a (fileno f) F) = (ufile F)(i := None)"
proof
  fix j
  show "ufile (closed a (fileno f) F) j = ((ufile F)(i := None)) j"
  proof (cases "j = i")
    case True
    then show ?thesis using sl by (simp add: ufile_def slot_file_def closed_def split: option.splits if_splits)
  next
    case False
    have diff: "openf F ! nat j \<noteq> Some a" if "0 \<le> j" "j < int (length (openf F))"
    proof
      assume "openf F ! nat j = Some a"
      moreover have "nat j < 15" "nat i < 15" "openf F ! nat i = Some a" "0 \<le> i" using wf sl that by (auto simp: wf_files_def slot_file_Inr)
      ultimately have "nat j = nat i" using wf unfolding wf_files_def by blast
      with \<open>0 \<le> i\<close> that(1) False show False by simp
    qed
    then have same: "slot_file j (closed a (fileno f) F) = slot_file j F"
      by (cases "0 \<le> j"; cases "j < int (length (openf F))") (auto simp: slot_file_def closed_def split: option.splits)
    have "unix_fd (fileno g) (host (closed a (fileno f) F)) = unix_fd (fileno g) (host F)" if "slot_file j F = Inr (b, g)" for b g
    proof (rule unix_fd_closed[OF nn], rule notI)
      assume "fileno g = fileno f"
      then have "b = a" using wf that sl unfolding wf_files_def slot_file_Inr by blast
      then show False using that diff by (auto simp: slot_file_Inr)
    qed
    then show ?thesis using False same by (auto simp: ufile_def split: sum.splits)
  qed
qed

lemma sys_Close_law:
  assumes wf: "wf_files F" and uf: "ufile F i = Some (ino, p, ty)"
  shows "\<exists>G. sys_Close i F = Inr (0, G) \<and> ufile G = (ufile F)(i := None) \<and> fcontent G = fcontent F \<and> wf_files G
    \<and> openf G = openf F \<and> names (host G) = names (host F) \<and> free_fds F \<le> free_fds G"
proof -
  obtain a f where sl: "slot_file i F = Inr (a, f)" and fd: "unix_fd (fileno f) (host F) = Some (ino, p)"
    using uf by (auto simp: ufile_Some)
  note nn = unix_fd_nonneg[OF fd]
  have "sys_Close i F = Inr (0, closed a (fileno f) F)"
    using wf sl fd by (auto simp: sys_Close_def slot_file_Inr wf_files_def delete_file_def StubFile_delete_def Close_def unix_close_def closed_def)
  moreover have "free_fds F \<le> free_fds (closed a (fileno f) F)"
    unfolding free_fds_def by (rule filter_length_mono) (simp add: closed_def)
  ultimately show ?thesis using ufile_closed[OF wf sl nn] wf_closed[OF wf _ nn, of a] sl
    by (intro exI[of _ "closed a (fileno f) F"]) (auto simp: slot_file_Inr closed_def fcontent_def)
qed

text \<open>\<open>CreateFile\<close> on a file that exists empties it; its descriptor is closed again.\<close>

lemma sys_CreateFile_law:
  assumes wf: "wf_files F" and nm: "names (host F) name = Some ino" and room: "0 < free_fds F"
  shows "\<exists>G. sys_CreateFile name F = Inr (0, G) \<and> fcontent G = (fcontent F)(ino := []) \<and> ufile G = ufile F \<and> same_table F G"
proof -
  have "free_fd (host F) \<noteq> None" using room by (auto simp: free_fds_def free_fd_def find_first_None filter_empty_conv)
  then obtain d where d: "free_fd (host F) = Some d" by blast
  have fd: "fds (host F) d = None" using find_first_Some[OF d[unfolded free_fd_def]] by simp
  let ?G = "F\<lparr>host := (host F)\<lparr>fds := (fds (host F))(d := None), inodes := (inodes (host F))(ino := [])\<rparr>\<rparr>"
  have "sys_CreateFile name F = Inr (0, ?G)"
    by (simp add: sys_CreateFile_def StubFS_Create_def OpenForWrite_def unix_open_def d nm Close_def unix_close_def unix_fd_def)
  moreover have fds: "(fds (host F))(d := None) = fds (host F)" using fd by auto
  then have u: "unix_fd x (host ?G) = unix_fd x (host F)" for x by (simp add: unix_fd_def)
  have "slot_file j ?G = slot_file j F" for j by (simp add: slot_file_def split: option.splits)
  then have "ufile ?G = ufile F" using u by (intro ext) (simp add: ufile_def split: sum.splits)
  moreover have "wf_files ?G" using wf u by (simp add: wf_files_def)
  moreover have "free_fds ?G = free_fds F" using fds by (simp add: free_fds_def)
  ultimately show ?thesis by (intro exI[of _ ?G]) (auto simp: same_table_def fcontent_def)
qed

end
