(* ===== verification/Nachos_Taps.thy ===== *)
theory Nachos_Taps
  imports Nachos_UserFile
begin

text \<open>
  The repository's own application (test/main.c, test/sinhvien.c, test/voinuoc.c): students come with water
  containers to two taps. For each line of input.txt, \<open>main\<close> copies the volumes into sinhvien.txt and starts
  the processes \<open>sinhvien\<close>, which writes one volume after the other to output.txt, and \<open>voinuoc\<close>, which
  answers each with the number of the tap that fills it. They take turns by the named semaphores "sinhvien"
  and "voinuoc", and each has its own open file on output.txt.

  A process is a state machine whose steps are its system calls, each with the code up to the next one; the
  two are interleaved in any order. The semaphores are counters; a process that calls \<open>Wait\<close> on a zero
  counter has no step. What a process prints and closes on its way out is one step: it touches nothing the
  other one uses.

  A step is \<open>Inl\<close> if the kernel faults or the process writes outside its array, \<open>Inr None\<close> if the process
  waits or has ended.
\<close>

section \<open>Data\<close>

definition cbytes :: "string \<Rightarrow> byte list" where
  "cbytes = map of_char"

definition output_txt :: "byte list" where "output_txt = cbytes ''./test/output.txt''"
definition sinhvien_txt :: "byte list" where "sinhvien_txt = cbytes ''./test/sinhvien.txt''"
definition input_txt :: "byte list" where "input_txt = cbytes ''./test/input.txt''"

text \<open>The next system call of each process; \<open>SvEnd\<close> and \<open>VnEnd\<close> carry the exit status.\<close>

datatype sv_pc = SvOpenIn | SvOpenOut | SvSeek | SvToken | SvWait | SvSeekEnd | SvWrite | SvSignal | SvLast | SvClose int | SvEnd int

datatype vn_pc = VnOpen | VnSeek | VnWait | VnNumber | VnPour | VnSignal | VnNewline | VnMain | VnClose int | VnEnd int

record Sinhvien =
  sv_pc :: sv_pc
  fileSinhVien :: int
  sv_fileOut :: int
  sv_V :: "byte list"
  sv_stop :: bool

record Voinuoc =
  vn_pc :: vn_pc
  vn_fileOut :: int
  vn_V :: int
  vn_c :: byte
  vn_v1 :: int
  vn_v2 :: int

record Taps =
  taps_fs :: StubFS
  sem_sinhvien :: nat
  sem_voinuoc :: nat
  sem_main :: nat
  SV :: Sinhvien
  VN :: Voinuoc

section \<open>sinhvien.c\<close>

text \<open>\<open>do { flag = Read(c, 1, fileOut); } while (flag != -2)\<close>: one \<open>Read\<close>, then \<open>next\<close> at the end of the file.\<close>

definition sv_seek :: "(Sinhvien \<Rightarrow> Sinhvien) \<Rightarrow> Taps \<Rightarrow> Taps option res" where
  "sv_seek next t = bindR (sys_Read1 (sv_fileOut (SV t)) (taps_fs t)) (\<lambda>(flag, _, F). let t = t\<lparr>taps_fs := F\<rparr> in
     Inr (Some (if flag = -1 then t\<lparr>SV := (SV t)\<lparr>sv_pc := SvClose (-1)\<rparr>\<rparr>
       else if flag = -2 then t\<lparr>SV := next (SV t)\<rparr> else t)))"

text \<open>The character goes to \<open>V[len]\<close>, the closing space too; the array has ten places.\<close>

definition sv_token :: "Taps \<Rightarrow> Taps option res" where
  "sv_token t = bindR (sys_Read1 (fileSinhVien (SV t)) (taps_fs t)) (\<lambda>(flag, c, F). let t = t\<lparr>taps_fs := F\<rparr> in
     if flag = -1 then Inr (Some (t\<lparr>SV := (SV t)\<lparr>sv_pc := SvClose (-1)\<rparr>\<rparr>))
     else if length (sv_V (SV t)) \<ge> 10 then Inl OutOfBounds
     else if flag = -2 \<or> c = Some 32 \<or> c = Some 10
       then Inr (Some (t\<lparr>SV := (SV t)\<lparr>sv_V := sv_V (SV t) @ [32], sv_stop := sv_stop (SV t) \<or> flag = -2, sv_pc := SvWait\<rparr>\<rparr>))
     else Inr (Some (t\<lparr>SV := (SV t)\<lparr>sv_V := sv_V (SV t) @ [the c]\<rparr>\<rparr>)))"

text \<open>The files opened so far, closed in order; the results of \<open>Close\<close> are not looked at.\<close>

fun close_all :: "int list \<Rightarrow> StubFS \<Rightarrow> StubFS res" where
  "close_all [] F = Inr F"
| "close_all (i # is) F = bindR (sys_Close i F) (\<lambda>(_, F). close_all is F)"

definition sv_step :: "Taps \<Rightarrow> Taps option res" where
  "sv_step t = (let p = SV t in case sv_pc p of
     SvOpenIn \<Rightarrow> bindR (sys_Open sinhvien_txt 1 (taps_fs t)) (\<lambda>(fid, F). Inr (Some (t\<lparr>taps_fs := F,
         SV := p\<lparr>fileSinhVien := fid, sv_pc := (if fid = -1 then SvEnd (-1) else SvOpenOut)\<rparr>\<rparr>)))
   | SvOpenOut \<Rightarrow> bindR (sys_Open output_txt 0 (taps_fs t)) (\<lambda>(fid, F).
         if fid = -1 then bindR (close_all [fileSinhVien p] F) (\<lambda>F. Inr (Some (t\<lparr>taps_fs := F, SV := p\<lparr>sv_fileOut := fid, sv_pc := SvEnd (-1)\<rparr>\<rparr>)))
         else Inr (Some (t\<lparr>taps_fs := F, SV := p\<lparr>sv_fileOut := fid, sv_pc := SvSeek\<rparr>\<rparr>)))
   | SvSeek \<Rightarrow> sv_seek (\<lambda>p. p\<lparr>sv_stop := False, sv_V := [], sv_pc := SvToken\<rparr>) t
   | SvToken \<Rightarrow> sv_token t
   | SvWait \<Rightarrow> Inr (if sem_voinuoc t = 0 then None
         else Some (t\<lparr>sem_voinuoc := sem_voinuoc t - 1, SV := p\<lparr>sv_pc := SvSeekEnd\<rparr>\<rparr>))
   | SvSeekEnd \<Rightarrow> sv_seek (\<lambda>p. p\<lparr>sv_pc := SvWrite\<rparr>) t
   | SvWrite \<Rightarrow> bindR (sys_Write (sv_V p) (length (sv_V p)) (sv_fileOut p) (taps_fs t)) (\<lambda>(r, F).
         Inr (Some (t\<lparr>taps_fs := F, SV := p\<lparr>sv_pc := (if r = -1 then SvClose (-1) else SvSignal)\<rparr>\<rparr>)))
   | SvSignal \<Rightarrow> Inr (Some (t\<lparr>sem_sinhvien := sem_sinhvien t + 1,
         SV := (if sv_stop p then p\<lparr>sv_pc := SvLast\<rparr> else p\<lparr>sv_pc := SvToken, sv_V := []\<rparr>)\<rparr>))
   | SvLast \<Rightarrow> Inr (Some (t\<lparr>sem_sinhvien := sem_sinhvien t + 1, SV := p\<lparr>sv_pc := SvClose 0\<rparr>\<rparr>))
   | SvClose status \<Rightarrow> bindR (close_all [fileSinhVien p, sv_fileOut p] (taps_fs t)) (\<lambda>F.
         Inr (Some (t\<lparr>taps_fs := F, SV := p\<lparr>sv_pc := SvEnd status\<rparr>\<rparr>)))
   | SvEnd status \<Rightarrow> Inr None)"

section \<open>voinuoc.c\<close>

definition is_dig :: "byte \<Rightarrow> bool" where
  "is_dig c \<longleftrightarrow> 48 \<le> c \<and> c \<le> 57"

text \<open>\<open>V = V * 10 + c[0] - '0'\<close> in the machine's 32 bits.\<close>

definition push_digit :: "int \<Rightarrow> byte \<Rightarrow> int" where
  "push_digit V c = i32 (V * 10 + sint c - 48)"

text \<open>One round of the loop that reads a number; \<open>V\<close> is zero if there was none.\<close>

definition vn_number :: "Taps \<Rightarrow> Taps option res" where
  "vn_number t = (let V = push_digit (vn_V (VN t)) (vn_c (VN t)); done = (if V = 0 then VnNewline else VnPour) in
     bindR (sys_Read1 (vn_fileOut (VN t)) (taps_fs t)) (\<lambda>(flag, c, F). let p = (VN t)\<lparr>vn_V := V\<rparr> in
     Inr (Some (t\<lparr>taps_fs := F, VN :=
       (if flag = -1 then p\<lparr>vn_pc := VnClose (-1)\<rparr>
        else if flag = -2 \<or> flag = 0 then p\<lparr>vn_pc := done\<rparr>
        else if is_dig (the c) then p\<lparr>vn_c := the c\<rparr> else p\<lparr>vn_c := the c, vn_pc := done\<rparr>)\<rparr>))))"

text \<open>The litres left to pour at each tap after a container of volume \<open>V\<close>, and the tap that takes it.\<close>

definition pour :: "int \<Rightarrow> int \<Rightarrow> int \<Rightarrow> byte list \<times> int \<times> int" where
  "pour V v1 v2 = (if v1 = 0 then (cbytes ''1 '', if V > v2 then (i32 (V - v2), 0) else (v1, i32 (v2 - V)))
     else (cbytes ''2 '', if V > v1 then (0, i32 (V - v1)) else (i32 (v1 - V), v2)))"

definition vn_step :: "Taps \<Rightarrow> Taps option res" where
  "vn_step t = (let p = VN t in case vn_pc p of
     VnOpen \<Rightarrow> bindR (sys_Open output_txt 0 (taps_fs t)) (\<lambda>(fid, F). Inr (Some (t\<lparr>taps_fs := F,
         VN := p\<lparr>vn_fileOut := fid, vn_pc := (if fid = -1 then VnEnd (-1) else VnSeek)\<rparr>\<rparr>)))
   | VnSeek \<Rightarrow> bindR (sys_Read1 (vn_fileOut p) (taps_fs t)) (\<lambda>(flag, _, F). Inr (Some (t\<lparr>taps_fs := F,
         VN := (if flag = -1 then p\<lparr>vn_pc := VnClose (-1)\<rparr>
           else if flag = -2 then p\<lparr>vn_pc := VnWait, vn_v1 := 0, vn_v2 := 0\<rparr> else p)\<rparr>)))
   | VnWait \<Rightarrow> Inr (if sem_sinhvien t = 0 then None
         else Some (t\<lparr>sem_sinhvien := sem_sinhvien t - 1, VN := p\<lparr>vn_V := 0, vn_c := 48, vn_pc := VnNumber\<rparr>\<rparr>))
   | VnNumber \<Rightarrow> vn_number t
   | VnPour \<Rightarrow> (let (tap, v1, v2) = pour (vn_V p) (vn_v1 p) (vn_v2 p) in
         bindR (sys_Write tap 2 (vn_fileOut p) (taps_fs t)) (\<lambda>(flag, F). Inr (Some (t\<lparr>taps_fs := F,
         VN := (if flag = -1 then p\<lparr>vn_pc := VnClose (-1)\<rparr> else p\<lparr>vn_v1 := v1, vn_v2 := v2, vn_pc := VnSignal\<rparr>)\<rparr>))))
   | VnSignal \<Rightarrow> Inr (Some (t\<lparr>sem_voinuoc := sem_voinuoc t + 1, VN := p\<lparr>vn_pc := VnWait\<rparr>\<rparr>))
   | VnNewline \<Rightarrow> bindR (sys_Write [10] 1 (vn_fileOut p) (taps_fs t)) (\<lambda>(r, F).
         Inr (Some (t\<lparr>taps_fs := F, VN := p\<lparr>vn_c := 10, vn_pc := (if r = -1 then VnClose (-1) else VnMain)\<rparr>\<rparr>)))
   | VnMain \<Rightarrow> Inr (Some (t\<lparr>sem_main := sem_main t + 1, VN := p\<lparr>vn_pc := VnClose 0\<rparr>\<rparr>))
   | VnClose status \<Rightarrow> bindR (close_all [vn_fileOut p] (taps_fs t)) (\<lambda>F.
         Inr (Some (t\<lparr>taps_fs := F, VN := p\<lparr>vn_pc := VnEnd status\<rparr>\<rparr>)))
   | VnEnd status \<Rightarrow> Inr None)"

section \<open>The two processes\<close>

inductive taps_step :: "Taps \<Rightarrow> Taps \<Rightarrow> bool" where
  sinhvien: "sv_step t = Inr (Some t') \<Longrightarrow> taps_step t t'"
| voinuoc: "vn_step t = Inr (Some t') \<Longrightarrow> taps_step t t'"

inductive_simps taps_step_iff: "taps_step t t'"

definition taps_done :: "Taps \<Rightarrow> bool" where
  "taps_done t \<longleftrightarrow> (\<exists>m n. sv_pc (SV t) = SvEnd m \<and> vn_pc (VN t) = VnEnd n)"

text \<open>Both processes just started by \<open>main\<close>, which has taken the semaphore "main"; what their variables hold
  is arbitrary.\<close>

definition taps_start :: "Sinhvien \<Rightarrow> Voinuoc \<Rightarrow> StubFS \<Rightarrow> Taps" where
  "taps_start p q F = \<lparr>taps_fs = F, sem_sinhvien = 0, sem_voinuoc = 1, sem_main = 0,
     SV = p\<lparr>sv_pc := SvOpenIn\<rparr>, VN = q\<lparr>vn_pc := VnOpen\<rparr>\<rparr>"

text \<open>The file output.txt.\<close>

definition taps_out :: "Taps \<Rightarrow> byte list" where
  "taps_out t = (case names (host (taps_fs t)) output_txt of None \<Rightarrow> [] | Some ino \<Rightarrow> fcontent (taps_fs t) ino)"

end
