(* ===== verification/Nachos_TapsInv.thy ===== *)
theory Nachos_TapsInv
  imports Nachos_Taps
begin

text \<open>
  What the two tap processes compute. The reference is the queue at two taps in absolute time: a container
  goes to the tap that is free first, the first one on a tie. \<open>pour\<close> keeps only the difference of the two
  times and is shown to make the same choices.

  For the two processes there is an invariant for each of two cases. If \<open>voinuoc\<close> has found the end of
  output.txt before the first volume is there, the processes alternate strictly (\<open>good\<close>); if not, it has
  skipped this volume and the processes cannot finish (\<open>lost\<close>).
\<close>

section \<open>The reference\<close>

definition dec :: "byte list \<Rightarrow> int" where
  "dec ds = foldl (\<lambda>v d. v * 10 + (uint d - 48)) 0 ds"

text \<open>A volume as the programs can handle it: a positive number of at most nine digits.\<close>

definition container :: "byte list \<Rightarrow> bool" where
  "container t \<longleftrightarrow> (\<forall>c \<in> set t. is_dig c) \<and> length t \<le> 9 \<and> 0 < dec t"

text \<open>The taps in absolute time: \<open>T1\<close> and \<open>T2\<close> are the times at which they are free.\<close>

fun taps_queue :: "int \<Rightarrow> int \<Rightarrow> int list \<Rightarrow> nat list" where
  "taps_queue T1 T2 [] = []"
| "taps_queue T1 T2 (V # Vs) = (if T1 \<le> T2 then 1 # taps_queue (T1 + V) T2 Vs else 2 # taps_queue T1 (T2 + V) Vs)"

definition answer_text :: "byte list \<Rightarrow> nat \<Rightarrow> byte list" where
  "answer_text t k = t @ [32, 48 + of_nat k, 32]"

text \<open>The line that the application should add to output.txt.\<close>

definition taps_line :: "byte list list \<Rightarrow> byte list" where
  "taps_line ts = concat (map2 answer_text ts (taps_queue 0 0 (map dec ts))) @ [10]"

fun join_tokens :: "byte list list \<Rightarrow> byte list" where
  "join_tokens [] = []"
| "join_tokens [t] = t"
| "join_tokens (t # ts) = t @ 32 # join_tokens ts"

section \<open>Pouring in relative time\<close>

text \<open>Litres left after the first \<open>i\<close> containers, and the answer to the next one.\<close>

definition left_after :: "byte list list \<Rightarrow> nat \<Rightarrow> int \<times> int" where
  "left_after ts i = foldl (\<lambda>(v1, v2) t. snd (pour (dec t) v1 v2)) (0, 0) (take i ts)"

definition answer :: "byte list list \<Rightarrow> nat \<Rightarrow> byte list" where
  "answer ts i = fst (pour (dec (ts ! i)) (fst (left_after ts i)) (snd (left_after ts i)))"

lemma left_after_0 [simp]: "left_after ts 0 = (0, 0)"
  by (simp add: left_after_def)

lemma left_after_Suc:
  "i < length ts \<Longrightarrow> left_after ts (Suc i) = snd (pour (dec (ts ! i)) (fst (left_after ts i)) (snd (left_after ts i)))"
  by (simp add: left_after_def take_Suc_conv_app_nth case_prod_beta)

lemma dec_append: "dec (ds @ [d]) = dec ds * 10 + (uint d - 48)"
  by (simp add: dec_def)

lemma is_dig_range: "is_dig c \<Longrightarrow> 0 \<le> uint c - 48 \<and> uint c - 48 \<le> 9"
  by (simp add: is_dig_def word_le_def)

lemma dec_bounds: "\<forall>c \<in> set ds. is_dig c \<Longrightarrow> 0 \<le> dec ds \<and> dec ds < 10 ^ length ds"
proof (induction ds rule: rev_induct)
  case (snoc d ds)
  then show ?case using is_dig_range[of d] by (auto simp: dec_append)
qed (simp add: dec_def)

lemma container_bounds: "container t \<Longrightarrow> 0 < dec t \<and> dec t < 10 ^ 9"
proof -
  assume t: "container t"
  then have "dec t < 10 ^ length t" using dec_bounds by (auto simp: container_def)
  also have "(10::int) ^ length t \<le> 10 ^ 9" using t by (intro power_increasing) (auto simp: container_def)
  finally show ?thesis using t by (simp add: container_def)
qed

lemma push_digit_num:
  assumes "0 \<le> V" "V < 10 ^ 8" "is_dig c"
  shows "push_digit V c = V * 10 + (uint c - 48)"
proof -
  have "sint c = uint c" using assms(3) by (simp add: is_dig_def word_le_def sint_uint signed_take_bit_int_eq_self)
  then show ?thesis using assms is_dig_range[OF assms(3)] by (simp add: push_digit_def i32_id)
qed

text \<open>One pouring step in relative time is the step of the queue in absolute time.\<close>

definition relative :: "int \<Rightarrow> int \<Rightarrow> int \<times> int" where
  "relative T1 T2 = (T1 - min T1 T2, T2 - min T1 T2)"

lemma pour_relative:
  assumes "0 < V" "V < 10 ^ 9" "\<bar>T1 - T2\<bar> < 10 ^ 9"
  shows "(case relative T1 T2 of (v1, v2) \<Rightarrow> pour V v1 v2)
    = (if T1 \<le> T2 then (cbytes ''1 '', relative (T1 + V) T2) else (cbytes ''2 '', relative T1 (T2 + V)))"
  using assms by (auto simp: relative_def pour_def i32_id min_def)

fun pours :: "int \<times> int \<Rightarrow> byte list list \<Rightarrow> byte list" where
  "pours v [] = []"
| "pours v (t # ts) = (let (a, w) = pour (dec t) (fst v) (snd v) in t @ 32 # a @ pours w ts)"

lemma relative_gap: "\<bar>fst (relative T1 T2) - snd (relative T1 T2)\<bar> = \<bar>T1 - T2\<bar>"
  by (simp add: relative_def)

lemma pours_queue:
  assumes "\<forall>t \<in> set ts. container t" and "\<bar>T1 - T2\<bar> < 10 ^ 9"
  shows "pours (relative T1 T2) ts = concat (map2 answer_text ts (taps_queue T1 T2 (map dec ts)))"
  using assms
proof (induction ts arbitrary: T1 T2)
  case (Cons t ts)
  then have b: "0 < dec t" "dec t < 10 ^ 9" using container_bounds by auto
  have taps: "cbytes ''1 '' = [49, 32]" "cbytes ''2 '' = [50, 32]" by (simp_all add: cbytes_def)
  note step = pour_relative[OF b Cons.prems(2)]
  show ?case
  proof (cases "T1 \<le> T2")
    case True
    then have "\<bar>T1 + dec t - T2\<bar> < 10 ^ 9" using b Cons.prems(2) by linarith
    then show ?thesis using True step Cons.IH[of "T1 + dec t" T2] Cons.prems(1) taps by (simp add: case_prod_beta answer_text_def)
  next
    case False
    then have "\<bar>T1 - (T2 + dec t)\<bar> < 10 ^ 9" using b Cons.prems(2) by linarith
    then show ?thesis using False step Cons.IH[of T1 "T2 + dec t"] Cons.prems(1) taps by (simp add: case_prod_beta answer_text_def)
  qed
qed simp

lemma pours_snoc:
  "pours v (ts @ [t]) = pours v ts @ t @ 32 # fst (case foldl (\<lambda>(v1, v2) t. snd (pour (dec t) v1 v2)) v ts of (v1, v2) \<Rightarrow> pour (dec t) v1 v2)"
  by (induction ts arbitrary: v) (auto simp: Let_def case_prod_beta)

lemma pours_take_Suc:
  "i < length ts \<Longrightarrow> pours (0, 0) (take (Suc i) ts) = pours (0, 0) (take i ts) @ ts ! i @ 32 # answer ts i"
  by (simp add: take_Suc_conv_app_nth pours_snoc answer_def left_after_def case_prod_beta)

lemma pours_line:
  assumes "\<forall>t \<in> set ts. container t"
  shows "pours (0, 0) ts @ [10] = taps_line ts"
  using pours_queue[OF assms, of 0 0] by (simp add: taps_line_def relative_def)

text \<open>The litres left keep within a container's size, so the 32-bit arithmetic is exact.\<close>

lemma answer_cases: "answer ts i = [49, 32] \<or> answer ts i = [50, 32]"
  by (simp add: answer_def pour_def cbytes_def)

lemma length_answer [simp]: "length (answer ts i) = 2"
  using answer_cases[of ts i] by auto

lemma kernel_copy_answer: "kernel_copy 2 (answer ts i) = answer ts i"
  using kernel_copy_id[of "answer ts i"] answer_cases[of ts i] by auto

section \<open>Joined tokens\<close>

definition sep :: "byte list list \<Rightarrow> nat \<Rightarrow> byte list" where
  "sep ts k = (if Suc k < length ts then 32 # join_tokens (drop (Suc k) ts) else [])"

lemma join_drop: "k < length ts \<Longrightarrow> join_tokens (drop k ts) = ts ! k @ sep ts k"
proof -
  assume k: "k < length ts"
  then have "drop k ts = ts ! k # drop (Suc k) ts" by (simp add: Cons_nth_drop_Suc)
  then show ?thesis
    by (cases "Suc k < length ts") (auto simp: sep_def Cons_nth_drop_Suc[symmetric])
qed

section \<open>The processes at their control points\<close>

text \<open>A line being processed: its volumes, what output.txt had before, the inodes of the two files, and how many
  slots of the open-file table stay free and descriptors at least do; \<open>held\<close>, \<open>disk\<close> and \<open>dir\<close> are the open files of other processes, the
  contents of the other files and the directory.\<close>

record Line =
  vols :: "byte list list"
  before :: "byte list"
  in_ino :: nat
  out_ino :: nat
  spare :: nat
  fd_spare :: nat
  held :: "int \<Rightarrow> (nat \<times> nat \<times> int) option"
  disk :: "nat \<Rightarrow> byte list"
  dir :: "byte list \<Rightarrow> nat option"

definition line_ok :: "Line \<Rightarrow> bool" where
  "line_ok l \<longleftrightarrow> vols l \<noteq> [] \<and> (\<forall>t \<in> set (vols l). container t) \<and> in_ino l \<noteq> out_ino l"

abbreviation outb :: "Line \<Rightarrow> StubFS \<Rightarrow> byte list" where
  "outb l F \<equiv> fcontent F (out_ino l)"

text \<open>The position of \<open>sinhvien\<close> in output.txt and what it has still to read of sinhvien.txt.\<close>

definition sv_files :: "Line \<Rightarrow> StubFS \<Rightarrow> Sinhvien \<Rightarrow> nat \<Rightarrow> byte list \<Rightarrow> bool" where
  "sv_files l F p pos rest \<longleftrightarrow> ufile F (sv_fileOut p) = Some (out_ino l, pos, 0) \<and> pos \<le> length (outb l F)
     \<and> (\<exists>q. ufile F (fileSinhVien p) = Some (in_ino l, q, 1) \<and> q \<le> length (join_tokens (vols l)) \<and> drop q (join_tokens (vols l)) = rest)"

text \<open>\<open>sinhvien\<close> has written \<open>k\<close> volumes.\<close>

definition sv_at :: "Line \<Rightarrow> StubFS \<Rightarrow> Sinhvien \<Rightarrow> nat \<Rightarrow> bool" where
  "sv_at l F p k \<longleftrightarrow> (let ts = vols l; n = length ts in case sv_pc p of
     SvOpenIn \<Rightarrow> k = 0
   | SvOpenOut \<Rightarrow> k = 0 \<and> ufile F (fileSinhVien p) = Some (in_ino l, 0, 1)
   | SvSeek \<Rightarrow> k = 0 \<and> (\<exists>pos. sv_files l F p pos (join_tokens ts))
   | SvToken \<Rightarrow> k < n \<and> \<not> sv_stop p \<and> (\<exists>pos x. ts ! k = sv_V p @ x \<and> sv_files l F p pos (x @ sep ts k))
   | SvWait \<Rightarrow> k < n \<and> sv_V p = ts ! k @ [32] \<and> sv_stop p = (Suc k = n) \<and> (\<exists>pos. sv_files l F p pos (tl (sep ts k)))
   | SvSeekEnd \<Rightarrow> k < n \<and> sv_V p = ts ! k @ [32] \<and> sv_stop p = (Suc k = n) \<and> (\<exists>pos. sv_files l F p pos (tl (sep ts k)))
   | SvWrite \<Rightarrow> k < n \<and> sv_V p = ts ! k @ [32] \<and> sv_stop p = (Suc k = n) \<and> sv_files l F p (length (outb l F)) (tl (sep ts k))
   | SvSignal \<Rightarrow> 0 < k \<and> k \<le> n \<and> sv_stop p = (k = n) \<and> (\<exists>pos. sv_files l F p pos (tl (sep ts (k - 1))))
   | SvLast \<Rightarrow> k = n \<and> sv_stop p \<and> (\<exists>pos. sv_files l F p pos [])
   | SvClose m \<Rightarrow> k = n \<and> m = 0 \<and> (\<exists>pos. sv_files l F p pos [])
   | SvEnd m \<Rightarrow> k = n \<and> m = 0)"

definition vn_file :: "Line \<Rightarrow> StubFS \<Rightarrow> Voinuoc \<Rightarrow> nat \<Rightarrow> bool" where
  "vn_file l F q pos \<longleftrightarrow> ufile F (vn_fileOut q) = Some (out_ino l, pos, 0)"

text \<open>The text of the first \<open>i\<close> answers.\<close>

definition answered :: "Line \<Rightarrow> nat \<Rightarrow> byte list" where
  "answered l i = before l @ pours (0, 0) (take i (vols l))"

text \<open>\<open>voinuoc\<close> has answered \<open>i\<close> volumes.\<close>

definition vn_at :: "Line \<Rightarrow> StubFS \<Rightarrow> Voinuoc \<Rightarrow> nat \<Rightarrow> bool" where
  "vn_at l F q i \<longleftrightarrow> (let ts = vols l; n = length ts; a = length (answered l i) in i \<le> n \<and> (case vn_pc q of
     VnOpen \<Rightarrow> i = 0
   | VnSeek \<Rightarrow> i = 0 \<and> (\<exists>pos \<le> a. vn_file l F q pos)
   | VnWait \<Rightarrow> vn_file l F q a \<and> (vn_v1 q, vn_v2 q) = left_after ts i
   | VnNumber \<Rightarrow> (vn_v1 q, vn_v2 q) = left_after ts i \<and> (\<exists>r. vn_file l F q (a + r)
        \<and> (if i < n then r \<le> length (ts ! i) \<and> push_digit (vn_V q) (vn_c q) = dec (take r (ts ! i))
           else r = 0 \<and> push_digit (vn_V q) (vn_c q) = 0))
   | VnPour \<Rightarrow> i < n \<and> vn_file l F q (a + length (ts ! i) + 1) \<and> vn_V q = dec (ts ! i) \<and> (vn_v1 q, vn_v2 q) = left_after ts i
   | VnSignal \<Rightarrow> 0 < i \<and> vn_file l F q a \<and> (vn_v1 q, vn_v2 q) = left_after ts i
   | VnNewline \<Rightarrow> i = n \<and> vn_file l F q a
   | VnMain \<Rightarrow> i = n \<and> (\<exists>pos. vn_file l F q pos)
   | VnClose m \<Rightarrow> i = n \<and> m = 0 \<and> (\<exists>pos. vn_file l F q pos)
   | VnEnd m \<Rightarrow> i = n \<and> m = 0))"

text \<open>\<open>voinuoc\<close> when it has skipped the only volume it will see.\<close>

definition vn_lost :: "Line \<Rightarrow> StubFS \<Rightarrow> Voinuoc \<Rightarrow> bool" where
  "vn_lost l F q \<longleftrightarrow> (case vn_pc q of
     VnOpen \<Rightarrow> True
   | VnSeek \<Rightarrow> (\<exists>pos \<le> length (outb l F). vn_file l F q pos)
   | VnWait \<Rightarrow> vn_file l F q (length (outb l F))
   | VnNumber \<Rightarrow> vn_file l F q (length (outb l F)) \<and> push_digit (vn_V q) (vn_c q) = 0
   | VnNewline \<Rightarrow> vn_file l F q (length (outb l F))
   | VnMain \<Rightarrow> (\<exists>pos. vn_file l F q pos)
   | VnClose m \<Rightarrow> m = 0 \<and> (\<exists>pos. vn_file l F q pos)
   | VnEnd m \<Rightarrow> m = 0
   | _ \<Rightarrow> False)"

section \<open>The invariants\<close>

text \<open>Calls of \<open>Signal("sinhvien")\<close> and \<open>Wait("voinuoc")\<close> made by \<open>sinhvien\<close>, and what \<open>voinuoc\<close> made.\<close>

definition sv_signals :: "Sinhvien \<Rightarrow> nat \<Rightarrow> nat" where
  "sv_signals p k = (case sv_pc p of SvSignal \<Rightarrow> k - 1 | SvClose _ \<Rightarrow> k + 1 | SvEnd _ \<Rightarrow> k + 1 | _ \<Rightarrow> k)"

definition sv_waits :: "Sinhvien \<Rightarrow> nat \<Rightarrow> nat" where
  "sv_waits p k = (case sv_pc p of SvSeekEnd \<Rightarrow> k + 1 | SvWrite \<Rightarrow> k + 1 | _ \<Rightarrow> k)"

definition vn_signals :: "Voinuoc \<Rightarrow> nat \<Rightarrow> nat" where
  "vn_signals q i = (case vn_pc q of VnSignal \<Rightarrow> i - 1 | _ \<Rightarrow> i)"

definition vn_waits :: "Voinuoc \<Rightarrow> nat \<Rightarrow> nat" where
  "vn_waits q i = (case vn_pc q of VnOpen \<Rightarrow> i | VnSeek \<Rightarrow> i | VnWait \<Rightarrow> i | VnSignal \<Rightarrow> i | _ \<Rightarrow> i + 1)"

definition seeking :: "Voinuoc \<Rightarrow> bool" where
  "seeking q \<longleftrightarrow> vn_pc q = VnOpen \<or> vn_pc q = VnSeek"

definition newline_written :: "Voinuoc \<Rightarrow> bool" where
  "newline_written q \<longleftrightarrow> (case vn_pc q of VnMain \<Rightarrow> True | VnClose _ \<Rightarrow> True | VnEnd _ \<Rightarrow> True | _ \<Rightarrow> False)"

definition sv_opens :: "Sinhvien \<Rightarrow> nat" where
  "sv_opens p = (case sv_pc p of SvOpenIn \<Rightarrow> 2 | SvOpenOut \<Rightarrow> 1 | _ \<Rightarrow> 0)"

definition vn_opens :: "Voinuoc \<Rightarrow> nat" where
  "vn_opens q = (if vn_pc q = VnOpen then 1 else 0)"

definition sv_slots :: "Sinhvien \<Rightarrow> int set" where
  "sv_slots p = (case sv_pc p of SvOpenIn \<Rightarrow> {} | SvOpenOut \<Rightarrow> {fileSinhVien p} | SvEnd _ \<Rightarrow> {} | _ \<Rightarrow> {fileSinhVien p, sv_fileOut p})"

definition vn_slots :: "Voinuoc \<Rightarrow> int set" where
  "vn_slots q = (case vn_pc q of VnOpen \<Rightarrow> {} | VnEnd _ \<Rightarrow> {} | _ \<Rightarrow> {vn_fileOut q})"

text \<open>The files: names, contents of sinhvien.txt, room for the files still to be opened, and distinct open
  files of the two processes.\<close>

definition taps_files :: "Line \<Rightarrow> Taps \<Rightarrow> bool" where
  "taps_files l t \<longleftrightarrow> wf_files (taps_fs t) \<and> names (host (taps_fs t)) sinhvien_txt = Some (in_ino l)
     \<and> names (host (taps_fs t)) output_txt = Some (out_ino l) \<and> fcontent (taps_fs t) (in_ino l) = join_tokens (vols l)
     \<and> free_slots (taps_fs t) = sv_opens (SV t) + vn_opens (VN t) + spare l \<and> sv_opens (SV t) + vn_opens (VN t) + fd_spare l \<le> free_fds (taps_fs t)
     \<and> sv_slots (SV t) \<inter> vn_slots (VN t) = {} \<and> sv_slots (SV t) \<union> vn_slots (VN t) \<subseteq> dom (ufile (taps_fs t))
     \<and> (sv_slots (SV t) \<union> vn_slots (VN t)) \<inter> dom (held l) = {} \<and> (\<forall>j \<in> dom (held l). ufile (taps_fs t) j = held l j)
     \<and> (\<forall>n. n \<noteq> out_ino l \<longrightarrow> fcontent (taps_fs t) n = disk l n) \<and> names (host (taps_fs t)) = dir l"

definition good :: "Line \<Rightarrow> nat \<Rightarrow> nat \<Rightarrow> Taps \<Rightarrow> bool" where
  "good l k i t \<longleftrightarrow> taps_files l t \<and> sv_at l (taps_fs t) (SV t) k \<and> vn_at l (taps_fs t) (VN t) i
     \<and> i \<le> k \<and> (seeking (VN t) \<longrightarrow> k = 0)
     \<and> sem_sinhvien t + vn_waits (VN t) i = sv_signals (SV t) k
     \<and> sem_voinuoc t + sv_waits (SV t) k = 1 + vn_signals (VN t) i
     \<and> outb l (taps_fs t) = answered l i @ (if k = Suc i then vols l ! i @ [32] else []) @ (if newline_written (VN t) then [10] else [])
     \<and> sem_main t = (case vn_pc (VN t) of VnClose _ \<Rightarrow> 1 | VnEnd _ \<Rightarrow> 1 | _ \<Rightarrow> 0)"

definition lost :: "Line \<Rightarrow> Taps \<Rightarrow> bool" where
  "lost l t \<longleftrightarrow> taps_files l t \<and> sv_at l (taps_fs t) (SV t) 1 \<and> vn_lost l (taps_fs t) (VN t)
     \<and> sv_pc (SV t) \<noteq> SvSeekEnd \<and> sv_pc (SV t) \<noteq> SvWrite
     \<and> sem_sinhvien t + vn_waits (VN t) 0 = sv_signals (SV t) 1
     \<and> sem_voinuoc t = 0
     \<and> outb l (taps_fs t) = before l @ vols l ! 0 @ 32 # (if newline_written (VN t) then [10] else [])"

section \<open>Steps of sinhvien\<close>

text \<open>Bounds on the steps left, for an output file of at most \<open>M\<close> bytes.\<close>

definition slot_at :: "StubFS \<Rightarrow> int \<Rightarrow> nat" where
  "slot_at F i = (case ufile F i of None \<Rightarrow> 0 | Some (_, pos, _) \<Rightarrow> pos)"

definition sv_left :: "nat \<Rightarrow> Line \<Rightarrow> StubFS \<Rightarrow> Sinhvien \<Rightarrow> nat" where
  "sv_left M l F p = (let n = length (join_tokens (vols l));
       run = 12 * (n - slot_at F (fileSinhVien p)) + (if sv_stop p then 0 else 12) + (M - slot_at F (sv_fileOut p))
     in case sv_pc p of
     SvOpenIn \<Rightarrow> 12 * n + M + 40 | SvOpenOut \<Rightarrow> 12 * n + M + 39
   | SvSeek \<Rightarrow> 12 * n + (M - slot_at F (sv_fileOut p)) + 27
   | SvToken \<Rightarrow> run + 5 | SvWait \<Rightarrow> run + 9 | SvSeekEnd \<Rightarrow> run + 8 | SvWrite \<Rightarrow> run + 7 | SvSignal \<Rightarrow> run + 6
   | SvLast \<Rightarrow> run + 4 | SvClose _ \<Rightarrow> 1 | SvEnd _ \<Rightarrow> 0)"

text \<open>What every step of \<open>sinhvien\<close> does to the rest of the system.\<close>

definition sv_moves :: "Line \<Rightarrow> nat \<Rightarrow> Taps \<Rightarrow> Taps \<Rightarrow> bool" where
  "sv_moves l k t t' \<longleftrightarrow> (let k' = (if sv_pc (SV t) = SvWrite then Suc k else k) in
     VN t' = VN t \<and> sem_main t' = sem_main t \<and> taps_files l t' \<and> sv_at l (taps_fs t') (SV t') k'
     \<and> sem_voinuoc t' + sv_waits (SV t') k' = sem_voinuoc t + sv_waits (SV t) k
     \<and> sem_sinhvien t' + sv_signals (SV t) k = sem_sinhvien t + sv_signals (SV t') k'
     \<and> outb l (taps_fs t') = outb l (taps_fs t) @ (if sv_pc (SV t) = SvWrite then vols l ! k @ [32] else [])
     \<and> (\<forall>j \<in> vn_slots (VN t). ufile (taps_fs t') j = ufile (taps_fs t) j)
     \<and> (\<forall>M. length (outb l (taps_fs t')) \<le> M \<longrightarrow> sv_left M l (taps_fs t') (SV t') < sv_left M l (taps_fs t) (SV t)))"

lemmas sv_defs = sv_step_def sv_moves_def sv_at_def sv_waits_def sv_signals_def sv_slots_def sv_opens_def sv_left_def Let_def

text \<open>A slot that is not in use is not held by another process.\<close>

lemma held_free: "taps_files l t \<Longrightarrow> ufile (taps_fs t) j = None \<Longrightarrow> held l j = None"
  unfolding taps_files_def by (metis domIff)

lemma step_SvOpenIn:
  assumes "line_ok l" and "taps_files l t" and "sv_at l (taps_fs t) (SV t) k" and pc: "sv_pc (SV t) = SvOpenIn"
  shows "\<exists>t'. sv_step t = Inr (Some t') \<and> sv_moves l k t t'"
proof -
  have "wf_files (taps_fs t)" "names (host (taps_fs t)) sinhvien_txt = Some (in_ino l)" "0 < free_slots (taps_fs t)" "0 < free_fds (taps_fs t)"
    using assms(2) pc by (auto simp: taps_files_def sv_opens_def)
  then obtain k' G where o: "sys_Open sinhvien_txt 1 (taps_fs t) = Inr (k', G)" "ufile (taps_fs t) k' = None"
    "ufile G = (ufile (taps_fs t))(k' \<mapsto> (in_ino l, 0, 1))" "2 \<le> k'" "fcontent G = fcontent (taps_fs t)" "names (host G) = names (host (taps_fs t))" "wf_files G"
    "free_slots G = free_slots (taps_fs t) - 1" "free_fds G = free_fds (taps_fs t) - 1"
    using sys_Open_law[of "taps_fs t" sinhvien_txt "in_ino l" 1] by auto
  then have "k' \<notin> vn_slots (VN t)" "held l k' = None" using assms(2) by (auto simp: taps_files_def intro: held_free[OF assms(2)])
  then show ?thesis using assms pc o
    by (intro exI[of _ "t\<lparr>taps_fs := G, SV := (SV t)\<lparr>fileSinhVien := k', sv_pc := SvOpenOut\<rparr>\<rparr>"])
       (auto simp: sv_defs taps_files_def)
qed

lemma step_SvOpenOut:
  assumes "line_ok l" and "taps_files l t" and "sv_at l (taps_fs t) (SV t) k" and pc: "sv_pc (SV t) = SvOpenOut"
  shows "\<exists>t'. sv_step t = Inr (Some t') \<and> sv_moves l k t t'"
proof -
  have "wf_files (taps_fs t)" "names (host (taps_fs t)) output_txt = Some (out_ino l)" "0 < free_slots (taps_fs t)" "0 < free_fds (taps_fs t)"
    using assms(2) pc by (auto simp: taps_files_def sv_opens_def)
  then obtain k' G where o: "sys_Open output_txt 0 (taps_fs t) = Inr (k', G)" "ufile (taps_fs t) k' = None"
    "ufile G = (ufile (taps_fs t))(k' \<mapsto> (out_ino l, 0, 0))" "2 \<le> k'" "fcontent G = fcontent (taps_fs t)" "names (host G) = names (host (taps_fs t))" "wf_files G"
    "free_slots G = free_slots (taps_fs t) - 1" "free_fds G = free_fds (taps_fs t) - 1"
    using sys_Open_law[of "taps_fs t" output_txt "out_ino l" 0] by auto
  then have "k' \<notin> vn_slots (VN t)" "held l k' = None" using assms(2) by (auto simp: taps_files_def intro: held_free[OF assms(2)])
  moreover have "k' \<noteq> fileSinhVien (SV t)" using assms(3) pc o(2) by (auto simp: sv_at_def)
  ultimately show ?thesis using assms pc o
    by (intro exI[of _ "t\<lparr>taps_fs := G, SV := (SV t)\<lparr>sv_fileOut := k', sv_pc := SvSeek\<rparr>\<rparr>"])
       (auto simp: sv_defs taps_files_def sv_files_def slot_at_def)
qed

text \<open>One \<open>Read\<close> on output.txt.\<close>

lemma sv_read_out:
  assumes "taps_files l t" and "sv_files l (taps_fs t) (SV t) pos rest"
  shows "\<exists>b G. sys_Read1 (sv_fileOut (SV t)) (taps_fs t) = Inr (if pos < length (outb l (taps_fs t)) then 1 else -2, b, G)
    \<and> ufile G = (ufile (taps_fs t))(sv_fileOut (SV t) \<mapsto> (out_ino l, if pos < length (outb l (taps_fs t)) then pos + 1 else pos, 0))
    \<and> fcontent G = fcontent (taps_fs t) \<and> same_table (taps_fs t) G"
  using sys_Read1_law[of "taps_fs t" "sv_fileOut (SV t)" "out_ino l" pos 0] assms by (auto simp: taps_files_def sv_files_def)

lemma step_SvSeek:
  assumes "line_ok l" and "taps_files l t" and "sv_at l (taps_fs t) (SV t) k" and pc: "sv_pc (SV t) = SvSeek"
  shows "\<exists>t'. sv_step t = Inr (Some t') \<and> sv_moves l k t t'"
proof -
  obtain pos where f: "sv_files l (taps_fs t) (SV t) pos (join_tokens (vols l))" and k: "k = 0" using assms(3) pc by (auto simp: sv_at_def)
  from sv_read_out[OF assms(2) f] obtain b G
    where r: "sys_Read1 (sv_fileOut (SV t)) (taps_fs t) = Inr (if pos < length (outb l (taps_fs t)) then 1 else -2, b, G)"
      and u: "ufile G = (ufile (taps_fs t))(sv_fileOut (SV t) \<mapsto> (out_ino l, if pos < length (outb l (taps_fs t)) then pos + 1 else pos, 0))"
      and c: "fcontent G = fcontent (taps_fs t)" and s: "same_table (taps_fs t) G" by blast
  have slots: "sv_fileOut (SV t) \<notin> vn_slots (VN t)" "fileSinhVien (SV t) \<noteq> sv_fileOut (SV t)"
    using assms(1,2) pc f by (auto simp: taps_files_def sv_slots_def sv_files_def line_ok_def)
  show ?thesis
  proof (cases "pos < length (outb l (taps_fs t))")
    case True
    then show ?thesis using assms pc f k r u c same_tableD[OF s] slots
      by (intro exI[of _ "t\<lparr>taps_fs := G\<rparr>"]) (auto simp: sv_defs sv_seek_def taps_files_def sv_files_def slot_at_def)
  next
    case False
    have "0 < length (vols l)" using assms(1) by (simp add: line_ok_def)
    then have "join_tokens (vols l) = vols l ! 0 @ sep (vols l) 0" using join_drop[of 0 "vols l"] by simp
    then show ?thesis using assms pc f k r u c same_tableD[OF s] slots False
      by (intro exI[of _ "t\<lparr>taps_fs := G, SV := (SV t)\<lparr>sv_stop := False, sv_V := [], sv_pc := SvToken\<rparr>\<rparr>"])
         (auto simp: sv_defs sv_seek_def taps_files_def sv_files_def slot_at_def line_ok_def)
  qed
qed

lemma step_SvSeekEnd:
  assumes "line_ok l" and "taps_files l t" and "sv_at l (taps_fs t) (SV t) k" and pc: "sv_pc (SV t) = SvSeekEnd"
  shows "\<exists>t'. sv_step t = Inr (Some t') \<and> sv_moves l k t t'"
proof -
  obtain pos where f: "sv_files l (taps_fs t) (SV t) pos (tl (sep (vols l) k))" using assms(3) pc by (auto simp: sv_at_def Let_def)
  from sv_read_out[OF assms(2) f] obtain b G
    where r: "sys_Read1 (sv_fileOut (SV t)) (taps_fs t) = Inr (if pos < length (outb l (taps_fs t)) then 1 else -2, b, G)"
      and u: "ufile G = (ufile (taps_fs t))(sv_fileOut (SV t) \<mapsto> (out_ino l, if pos < length (outb l (taps_fs t)) then pos + 1 else pos, 0))"
      and c: "fcontent G = fcontent (taps_fs t)" and s: "same_table (taps_fs t) G" by blast
  have slots: "sv_fileOut (SV t) \<notin> vn_slots (VN t)" "fileSinhVien (SV t) \<noteq> sv_fileOut (SV t)"
    using assms(1,2) pc f by (auto simp: taps_files_def sv_slots_def sv_files_def line_ok_def)
  show ?thesis
  proof (cases "pos < length (outb l (taps_fs t))")
    case True
    then show ?thesis using assms pc f r u c same_tableD[OF s] slots
      by (intro exI[of _ "t\<lparr>taps_fs := G\<rparr>"]) (auto simp: sv_defs sv_seek_def taps_files_def sv_files_def slot_at_def)
  next
    case False
    then show ?thesis using assms pc f r u c same_tableD[OF s] slots
      by (intro exI[of _ "t\<lparr>taps_fs := G, SV := (SV t)\<lparr>sv_pc := SvWrite\<rparr>\<rparr>"])
         (auto simp: sv_defs sv_seek_def taps_files_def sv_files_def slot_at_def)
  qed
qed

text \<open>One \<open>Read\<close> on sinhvien.txt: the next byte of what is left, if any.\<close>

lemma sv_read_in:
  assumes "taps_files l t" and "sv_files l (taps_fs t) (SV t) pos rest"
  shows "\<exists>q G. ufile (taps_fs t) (fileSinhVien (SV t)) = Some (in_ino l, q, 1) \<and> q + length rest = length (join_tokens (vols l))
    \<and> drop q (join_tokens (vols l)) = rest
    \<and> sys_Read1 (fileSinhVien (SV t)) (taps_fs t) = Inr (case rest of [] \<Rightarrow> (-2, None, G) | c # _ \<Rightarrow> (1, Some c, G))
    \<and> ufile G = (ufile (taps_fs t))(fileSinhVien (SV t) \<mapsto> (in_ino l, if rest = [] then q else q + 1, 1))
    \<and> fcontent G = fcontent (taps_fs t) \<and> same_table (taps_fs t) G"
proof -
  let ?J = "join_tokens (vols l)"
  obtain q where q: "ufile (taps_fs t) (fileSinhVien (SV t)) = Some (in_ino l, q, 1)" "q \<le> length ?J" "drop q ?J = rest"
    using assms(2) by (auto simp: sv_files_def)
  have len: "q + length rest = length ?J" using q(2,3) by auto
  have "rest = (if q < length ?J then ?J ! q # drop (Suc q) ?J else [])" using q(2,3) by (auto simp: Cons_nth_drop_Suc)
  then show ?thesis using sys_Read1_law[OF _ q(1)] q len assms(1) by (auto simp: taps_files_def)
qed

lemma step_SvToken:
  assumes "line_ok l" and "taps_files l t" and "sv_at l (taps_fs t) (SV t) k" and pc: "sv_pc (SV t) = SvToken"
  shows "\<exists>t'. sv_step t = Inr (Some t') \<and> sv_moves l k t t'"
proof -
  let ?ts = "vols l"
  obtain pos x where k: "k < length ?ts" "\<not> sv_stop (SV t)" and x: "?ts ! k = sv_V (SV t) @ x"
    and f: "sv_files l (taps_fs t) (SV t) pos (x @ sep ?ts k)" using assms(3) pc by (auto simp: sv_at_def Let_def)
  from sv_read_in[OF assms(2) f] obtain q G
    where q: "ufile (taps_fs t) (fileSinhVien (SV t)) = Some (in_ino l, q, 1)" "q + length (x @ sep ?ts k) = length (join_tokens ?ts)"
        "drop q (join_tokens ?ts) = x @ sep ?ts k"
      and r: "sys_Read1 (fileSinhVien (SV t)) (taps_fs t) = Inr (case x @ sep ?ts k of [] \<Rightarrow> (-2, None, G) | c # _ \<Rightarrow> (1, Some c, G))"
      and u: "ufile G = (ufile (taps_fs t))(fileSinhVien (SV t) \<mapsto> (in_ino l, if x @ sep ?ts k = [] then q else q + 1, 1))"
      and c: "fcontent G = fcontent (taps_fs t)" and s: "same_table (taps_fs t) G" by blast
  have cont: "container (?ts ! k)" using assms(1) k(1) by (simp add: line_ok_def)
  have len: "length (sv_V (SV t)) \<le> 9" using cont x by (simp add: container_def)
  have slots: "fileSinhVien (SV t) \<notin> vn_slots (VN t)" "fileSinhVien (SV t) \<noteq> sv_fileOut (SV t)"
    using assms(1,2) pc f by (auto simp: taps_files_def sv_slots_def sv_files_def line_ok_def)
  have nxt: "drop (Suc q) (join_tokens ?ts) = tl (x @ sep ?ts k)" using q(3) by (metis drop_Suc tl_drop)
  note facts = assms pc f k c same_tableD[OF s] slots len q nxt u
  show ?thesis
  proof (cases x)
    case (Cons d x')
    then have "is_dig d" using cont x by (simp add: container_def)
    then have "d \<noteq> 32" "d \<noteq> 10" by (auto simp: is_dig_def)
    then show ?thesis using facts r x Cons
      by (intro exI[of _ "t\<lparr>taps_fs := G, SV := (SV t)\<lparr>sv_V := sv_V (SV t) @ [d]\<rparr>\<rparr>"])
         (auto simp: sv_defs sv_token_def taps_files_def sv_files_def slot_at_def)
  next
    case Nil
    show ?thesis
    proof (cases "Suc k < length ?ts")
      case True
      then show ?thesis using facts r x Nil
        by (intro exI[of _ "t\<lparr>taps_fs := G, SV := (SV t)\<lparr>sv_V := sv_V (SV t) @ [32], sv_stop := False, sv_pc := SvWait\<rparr>\<rparr>"])
           (auto simp: sv_defs sv_token_def taps_files_def sv_files_def slot_at_def sep_def)
    next
      case False
      then have "Suc k = length ?ts" using k(1) by simp
      then show ?thesis using facts r x Nil
        by (intro exI[of _ "t\<lparr>taps_fs := G, SV := (SV t)\<lparr>sv_V := sv_V (SV t) @ [32], sv_stop := True, sv_pc := SvWait\<rparr>\<rparr>"])
           (auto simp: sv_defs sv_token_def taps_files_def sv_files_def slot_at_def sep_def)
    qed
  qed
qed

lemma step_SvWrite:
  assumes "line_ok l" and "taps_files l t" and "sv_at l (taps_fs t) (SV t) k" and pc: "sv_pc (SV t) = SvWrite"
  shows "\<exists>t'. sv_step t = Inr (Some t') \<and> sv_moves l k t t'"
proof -
  let ?V = "sv_V (SV t)" and ?o = "outb l (taps_fs t)"
  have k: "k < length (vols l)" "?V = vols l ! k @ [32]" and f: "sv_files l (taps_fs t) (SV t) (length ?o) (tl (sep (vols l) k))"
    using assms(3) pc by (auto simp: sv_at_def Let_def)
  have "container (vols l ! k)" using assms(1) k(1) by (simp add: line_ok_def)
  then have "0 \<notin> set ?V" using k(2) by (auto simp: container_def is_dig_def)
  then have kc: "kernel_copy (length ?V) ?V = ?V" by (rule kernel_copy_id)
  have "ufile (taps_fs t) (sv_fileOut (SV t)) = Some (out_ino l, length ?o, 0)" "wf_files (taps_fs t)" "0 < length ?V"
    using f assms(2) k(2) by (auto simp: sv_files_def taps_files_def)
  with sys_Write_law[of "taps_fs t" "sv_fileOut (SV t)" "out_ino l" "length ?o" "length ?V" ?V] kc obtain G
    where r: "sys_Write ?V (length ?V) (sv_fileOut (SV t)) (taps_fs t) = Inr (int (length ?V), G)"
      and u: "ufile G = (ufile (taps_fs t))(sv_fileOut (SV t) \<mapsto> (out_ino l, length ?o + length ?V, 0))"
      and c: "fcontent G = (fcontent (taps_fs t))(out_ino l := ?o @ ?V)" and s: "same_table (taps_fs t) G"
    by (auto simp: splice_end)
  have slots: "sv_fileOut (SV t) \<notin> vn_slots (VN t)" "fileSinhVien (SV t) \<noteq> sv_fileOut (SV t)"
    using assms(1,2) pc f by (auto simp: taps_files_def sv_slots_def sv_files_def line_ok_def)
  show ?thesis using assms pc f k r u c same_tableD[OF s] slots
    by (intro exI[of _ "t\<lparr>taps_fs := G, SV := (SV t)\<lparr>sv_pc := SvSignal\<rparr>\<rparr>"])
       (auto simp: sv_defs taps_files_def sv_files_def slot_at_def line_ok_def)
qed

lemma step_SvSignal:
  assumes "line_ok l" and "taps_files l t" and "sv_at l (taps_fs t) (SV t) k" and pc: "sv_pc (SV t) = SvSignal"
  shows "\<exists>t'. sv_step t = Inr (Some t') \<and> sv_moves l k t t'"
proof -
  obtain pos where k: "0 < k" "k \<le> length (vols l)" "sv_stop (SV t) = (k = length (vols l))"
    and f: "sv_files l (taps_fs t) (SV t) pos (tl (sep (vols l) (k - 1)))" using assms(3) pc by (auto simp: sv_at_def Let_def)
  show ?thesis
  proof (cases "k = length (vols l)")
    case True
    then show ?thesis using assms pc k f
      by (intro exI[of _ "t\<lparr>sem_sinhvien := sem_sinhvien t + 1, SV := (SV t)\<lparr>sv_pc := SvLast\<rparr>\<rparr>"])
         (auto simp: sv_defs taps_files_def sv_files_def slot_at_def sep_def)
  next
    case False
    then have "k < length (vols l)" using k(2) by simp
    moreover from this have "tl (sep (vols l) (k - 1)) = vols l ! k @ sep (vols l) k"
      using join_drop[of k "vols l"] k(1) by (simp add: sep_def)
    ultimately show ?thesis using assms pc k f
      by (intro exI[of _ "t\<lparr>sem_sinhvien := sem_sinhvien t + 1, SV := (SV t)\<lparr>sv_pc := SvToken, sv_V := []\<rparr>\<rparr>"])
         (auto simp: sv_defs taps_files_def sv_files_def slot_at_def)
  qed
qed

lemma step_SvWait:
  assumes "line_ok l" and "taps_files l t" and "sv_at l (taps_fs t) (SV t) k" and pc: "sv_pc (SV t) = SvWait" and "0 < sem_voinuoc t"
  shows "\<exists>t'. sv_step t = Inr (Some t') \<and> sv_moves l k t t'"
  using assms by (intro exI[of _ "t\<lparr>sem_voinuoc := sem_voinuoc t - 1, SV := (SV t)\<lparr>sv_pc := SvSeekEnd\<rparr>\<rparr>"])
    (auto simp: sv_defs taps_files_def sv_files_def slot_at_def)

lemma step_SvLast:
  assumes "line_ok l" and "taps_files l t" and "sv_at l (taps_fs t) (SV t) k" and pc: "sv_pc (SV t) = SvLast"
  shows "\<exists>t'. sv_step t = Inr (Some t') \<and> sv_moves l k t t'"
  using assms by (intro exI[of _ "t\<lparr>sem_sinhvien := sem_sinhvien t + 1, SV := (SV t)\<lparr>sv_pc := SvClose 0\<rparr>\<rparr>"])
    (auto simp: sv_defs taps_files_def sv_files_def slot_at_def)

lemma step_SvClose:
  assumes "line_ok l" and "taps_files l t" and "sv_at l (taps_fs t) (SV t) k" and pc: "sv_pc (SV t) = SvClose m"
  shows "\<exists>t'. sv_step t = Inr (Some t') \<and> sv_moves l k t t'"
proof -
  let ?F = "taps_fs t" and ?p = "SV t"
  obtain pos q where k: "k = length (vols l)" "m = 0" and f: "ufile ?F (sv_fileOut ?p) = Some (out_ino l, pos, 0)"
    "ufile ?F (fileSinhVien ?p) = Some (in_ino l, q, 1)"
    using assms(3) pc by (auto simp: sv_at_def Let_def sv_files_def)
  have ne: "fileSinhVien ?p \<noteq> sv_fileOut ?p" using f assms(1) by (auto simp: line_ok_def)
  have wf: "wf_files ?F" using assms(2) by (simp add: taps_files_def)
  obtain G where G: "sys_Close (fileSinhVien ?p) ?F = Inr (0, G)" "ufile G = (ufile ?F)(fileSinhVien ?p := None)" "fcontent G = fcontent ?F" "wf_files G"
    "openf G = openf ?F" "names (host G) = names (host ?F)" "free_fds ?F \<le> free_fds G"
    using sys_Close_law[OF wf f(2)] by blast
  obtain H where H: "sys_Close (sv_fileOut ?p) G = Inr (0, H)" "ufile H = (ufile G)(sv_fileOut ?p := None)" "fcontent H = fcontent G" "wf_files H"
    "openf H = openf G" "names (host H) = names (host G)" "free_fds G \<le> free_fds H"
    using sys_Close_law[OF G(4), of "sv_fileOut ?p"] f(1) G(2) ne by auto
  have "fileSinhVien ?p \<notin> vn_slots (VN t)" "sv_fileOut ?p \<notin> vn_slots (VN t)"
    using assms(2) pc by (auto simp: taps_files_def sv_slots_def)
  then show ?thesis using assms pc k f ne G H
    by (intro exI[of _ "t\<lparr>taps_fs := H, SV := (SV t)\<lparr>sv_pc := SvEnd 0\<rparr>\<rparr>"]) (auto simp: sv_defs taps_files_def free_slots_def)
qed

lemma sv_local:
  assumes "line_ok l" and "taps_files l t" and "sv_at l (taps_fs t) (SV t) k"
  shows "sv_step t = Inr None \<and> (sv_pc (SV t) = SvWait \<and> sem_voinuoc t = 0 \<or> sv_pc (SV t) = SvEnd 0)
    \<or> (\<exists>t'. sv_step t = Inr (Some t') \<and> sv_moves l k t t')"
proof (cases "sv_pc (SV t)")
  case SvWait
  then show ?thesis using step_SvWait[OF assms] by (cases "sem_voinuoc t = 0") (auto simp: sv_step_def Let_def)
next
  case (SvEnd m)
  then show ?thesis using assms(3) by (auto simp: sv_step_def sv_at_def Let_def)
qed (use step_SvOpenIn[OF assms] step_SvOpenOut[OF assms] step_SvSeek[OF assms] step_SvToken[OF assms] step_SvSeekEnd[OF assms]
  step_SvWrite[OF assms] step_SvSignal[OF assms] step_SvLast[OF assms] step_SvClose[OF assms] in blast)+

section \<open>Steps of voinuoc\<close>

definition vn_left :: "nat \<Rightarrow> StubFS \<Rightarrow> Voinuoc \<Rightarrow> nat" where
  "vn_left M F q = (let run = 12 * (M - slot_at F (vn_fileOut q)) in case vn_pc q of
     VnOpen \<Rightarrow> 12 * M + 20 | VnSeek \<Rightarrow> run + 10 | VnWait \<Rightarrow> run + 6 | VnNumber \<Rightarrow> run + 5 | VnPour \<Rightarrow> run + 9
   | VnSignal \<Rightarrow> run + 8 | VnNewline \<Rightarrow> run + 4 | VnMain \<Rightarrow> 3 | VnClose _ \<Rightarrow> 1 | VnEnd _ \<Rightarrow> 0)"

text \<open>What a step of \<open>voinuoc\<close> does to the rest of the system; \<open>new\<close> is what it appends to output.txt.\<close>

definition vn_moves :: "Line \<Rightarrow> byte list \<Rightarrow> Taps \<Rightarrow> Taps \<Rightarrow> bool" where
  "vn_moves l new t t' \<longleftrightarrow> SV t' = SV t \<and> taps_files l t'
     \<and> outb l (taps_fs t') = outb l (taps_fs t) @ new
     \<and> (\<forall>j \<in> sv_slots (SV t). ufile (taps_fs t') j = ufile (taps_fs t) j)
     \<and> (\<forall>M. length (outb l (taps_fs t')) \<le> M \<longrightarrow> vn_left M (taps_fs t') (VN t') < vn_left M (taps_fs t) (VN t))"

definition same_sems :: "Taps \<Rightarrow> Taps \<Rightarrow> bool" where
  "same_sems t t' \<longleftrightarrow> sem_sinhvien t' = sem_sinhvien t \<and> sem_voinuoc t' = sem_voinuoc t \<and> sem_main t' = sem_main t"

lemmas vn_defs = vn_step_def vn_moves_def same_sems_def vn_slots_def vn_opens_def vn_left_def slot_at_def vn_file_def taps_files_def Let_def

lemma step_VnOpen:
  assumes "taps_files l t" and pc: "vn_pc (VN t) = VnOpen"
  shows "\<exists>t'. vn_step t = Inr (Some t') \<and> vn_moves l [] t t' \<and> same_sems t t' \<and> vn_pc (VN t') = VnSeek \<and> vn_file l (taps_fs t') (VN t') 0"
proof -
  have "wf_files (taps_fs t)" "names (host (taps_fs t)) output_txt = Some (out_ino l)" "0 < free_slots (taps_fs t)" "0 < free_fds (taps_fs t)"
    using assms by (auto simp: taps_files_def vn_opens_def)
  then obtain k G where o: "sys_Open output_txt 0 (taps_fs t) = Inr (k, G)" "ufile (taps_fs t) k = None"
    "ufile G = (ufile (taps_fs t))(k \<mapsto> (out_ino l, 0, 0))" "2 \<le> k" "fcontent G = fcontent (taps_fs t)" "names (host G) = names (host (taps_fs t))" "wf_files G"
    "free_slots G = free_slots (taps_fs t) - 1" "free_fds G = free_fds (taps_fs t) - 1"
    using sys_Open_law[of "taps_fs t" output_txt "out_ino l" 0] by auto
  moreover from this have "k \<notin> sv_slots (SV t)" "held l k = None" using assms(1) by (auto simp: taps_files_def intro: held_free[OF assms(1)])
  ultimately show ?thesis using assms
    by (intro exI[of _ "t\<lparr>taps_fs := G, VN := (VN t)\<lparr>vn_fileOut := k, vn_pc := VnSeek\<rparr>\<rparr>"]) (auto simp: vn_defs)
qed

lemma vn_read:
  assumes "taps_files l t" and "vn_file l (taps_fs t) (VN t) pos"
  shows "\<exists>G. sys_Read1 (vn_fileOut (VN t)) (taps_fs t)
      = Inr (if pos < length (outb l (taps_fs t)) then (1, Some (outb l (taps_fs t) ! pos), G) else (-2, None, G))
    \<and> ufile G = (ufile (taps_fs t))(vn_fileOut (VN t) \<mapsto> (out_ino l, if pos < length (outb l (taps_fs t)) then pos + 1 else pos, 0))
    \<and> fcontent G = fcontent (taps_fs t) \<and> same_table (taps_fs t) G"
  using sys_Read1_law[of "taps_fs t" "vn_fileOut (VN t)" "out_ino l" pos 0] assms by (auto simp: taps_files_def vn_file_def)

lemma step_VnSeek:
  assumes "taps_files l t" and pc: "vn_pc (VN t) = VnSeek" and f: "vn_file l (taps_fs t) (VN t) pos"
  shows "\<exists>t'. vn_step t = Inr (Some t') \<and> vn_moves l [] t t' \<and> same_sems t t'
    \<and> (if pos < length (outb l (taps_fs t)) then VN t' = VN t \<and> vn_file l (taps_fs t') (VN t') (pos + 1)
       else VN t' = (VN t)\<lparr>vn_pc := VnWait, vn_v1 := 0, vn_v2 := 0\<rparr> \<and> vn_file l (taps_fs t') (VN t') pos)"
proof -
  from vn_read[OF assms(1) f] obtain G
    where r: "sys_Read1 (vn_fileOut (VN t)) (taps_fs t)
        = Inr (if pos < length (outb l (taps_fs t)) then (1, Some (outb l (taps_fs t) ! pos), G) else (-2, None, G))"
      and u: "ufile G = (ufile (taps_fs t))(vn_fileOut (VN t) \<mapsto> (out_ino l, if pos < length (outb l (taps_fs t)) then pos + 1 else pos, 0))"
      and c: "fcontent G = fcontent (taps_fs t)" and s: "same_table (taps_fs t) G" by blast
  show ?thesis
  proof (cases "pos < length (outb l (taps_fs t))")
    case True
    then show ?thesis using assms r u c same_tableD[OF s] by (intro exI[of _ "t\<lparr>taps_fs := G, VN := VN t\<rparr>"]) (auto simp: vn_defs)
  next
    case False
    then show ?thesis using assms r u c same_tableD[OF s]
      by (intro exI[of _ "t\<lparr>taps_fs := G, VN := (VN t)\<lparr>vn_pc := VnWait, vn_v1 := 0, vn_v2 := 0\<rparr>\<rparr>"]) (auto simp: vn_defs)
  qed
qed

lemma step_VnWait:
  assumes "taps_files l t" and pc: "vn_pc (VN t) = VnWait" and "0 < sem_sinhvien t"
  shows "\<exists>t'. vn_step t = Inr (Some t') \<and> vn_moves l [] t t' \<and> sem_sinhvien t' = sem_sinhvien t - 1 \<and> sem_voinuoc t' = sem_voinuoc t
    \<and> sem_main t' = sem_main t \<and> taps_fs t' = taps_fs t \<and> VN t' = (VN t)\<lparr>vn_V := 0, vn_c := 48, vn_pc := VnNumber\<rparr>"
  using assms by (intro exI[of _ "t\<lparr>sem_sinhvien := sem_sinhvien t - 1, VN := (VN t)\<lparr>vn_V := 0, vn_c := 48, vn_pc := VnNumber\<rparr>\<rparr>"]) (auto simp: vn_defs)

lemma step_VnNumber:
  assumes "taps_files l t" and pc: "vn_pc (VN t) = VnNumber" and f: "vn_file l (taps_fs t) (VN t) pos"
    and V: "V = push_digit (vn_V (VN t)) (vn_c (VN t))" and fin: "pos < length (outb l (taps_fs t)) \<or> V = 0"
  defines "c \<equiv> outb l (taps_fs t) ! pos" and "next \<equiv> if V = 0 then VnNewline else VnPour"
  shows "\<exists>t'. vn_step t = Inr (Some t') \<and> vn_moves l [] t t' \<and> same_sems t t'
    \<and> (if pos < length (outb l (taps_fs t)) then vn_file l (taps_fs t') (VN t') (pos + 1)
         \<and> VN t' = (if is_dig c then (VN t)\<lparr>vn_V := V, vn_c := c\<rparr> else (VN t)\<lparr>vn_V := V, vn_c := c, vn_pc := next\<rparr>)
       else vn_file l (taps_fs t') (VN t') pos \<and> VN t' = (VN t)\<lparr>vn_V := V, vn_pc := next\<rparr>)"
proof -
  from vn_read[OF assms(1) f] obtain G
    where r: "sys_Read1 (vn_fileOut (VN t)) (taps_fs t)
        = Inr (if pos < length (outb l (taps_fs t)) then (1, Some c, G) else (-2, None, G))"
      and u: "ufile G = (ufile (taps_fs t))(vn_fileOut (VN t) \<mapsto> (out_ino l, if pos < length (outb l (taps_fs t)) then pos + 1 else pos, 0))"
      and c: "fcontent G = fcontent (taps_fs t)" and s: "same_table (taps_fs t) G" by (auto simp: c_def)
  show ?thesis
  proof (cases "pos < length (outb l (taps_fs t))")
    case True
    let ?q = "if is_dig c then (VN t)\<lparr>vn_V := V, vn_c := c\<rparr> else (VN t)\<lparr>vn_V := V, vn_c := c, vn_pc := next\<rparr>"
    let ?t = "t\<lparr>taps_fs := G, VN := ?q\<rparr>"
    have st: "vn_step t = Inr (Some ?t)" using pc r True by (simp add: vn_step_def vn_number_def Let_def V next_def)
    have "vn_moves l [] t ?t" using assms(1-3) r u c same_tableD[OF s] True
      by (cases "is_dig c"; cases "V = 0") (auto simp: vn_defs next_def)
    moreover have "vn_file l G ?q (pos + 1)" using u True by (simp add: vn_file_def)
    ultimately show ?thesis using st True by (intro exI[of _ ?t]) (auto simp: same_sems_def)
  next
    case False
    let ?t = "t\<lparr>taps_fs := G, VN := (VN t)\<lparr>vn_V := V, vn_pc := next\<rparr>\<rparr>"
    have st: "vn_step t = Inr (Some ?t)" using pc r False by (simp add: vn_step_def vn_number_def Let_def V next_def)
    have "vn_moves l [] t ?t" using assms(1-3) fin r u c same_tableD[OF s] False by (auto simp: vn_defs next_def)
    then show ?thesis using st False u f by (intro exI[of _ ?t]) (auto simp: same_sems_def vn_file_def)
  qed
qed

text \<open>Writing at the end of output.txt.\<close>

lemma vn_append:
  assumes "taps_files l t" and "vn_file l (taps_fs t) (VN t) (length (outb l (taps_fs t)))" and "0 \<notin> set bs" and "bs \<noteq> []"
  shows "\<exists>G. sys_Write bs (length bs) (vn_fileOut (VN t)) (taps_fs t) = Inr (int (length bs), G)
    \<and> ufile G = (ufile (taps_fs t))(vn_fileOut (VN t) \<mapsto> (out_ino l, length (outb l (taps_fs t)) + length bs, 0))
    \<and> fcontent G = (fcontent (taps_fs t))(out_ino l := outb l (taps_fs t) @ bs) \<and> same_table (taps_fs t) G"
  using sys_Write_law[of "taps_fs t" "vn_fileOut (VN t)" "out_ino l" "length (outb l (taps_fs t))" "length bs" bs] assms
  by (auto simp: taps_files_def vn_file_def kernel_copy_id splice_end)

lemma pour_text: "0 \<notin> set (fst (pour V v1 v2))" "length (fst (pour V v1 v2)) = 2" "fst (pour V v1 v2) \<noteq> []"
  by (simp_all add: pour_def cbytes_def)

lemma step_VnPour:
  assumes "line_ok l" and "taps_files l t" and pc: "vn_pc (VN t) = VnPour" and f: "vn_file l (taps_fs t) (VN t) (length (outb l (taps_fs t)))"
    and p: "pour (vn_V (VN t)) (vn_v1 (VN t)) (vn_v2 (VN t)) = (tap, v1, v2)"
  shows "\<exists>t'. vn_step t = Inr (Some t') \<and> vn_moves l tap t t' \<and> same_sems t t'
    \<and> vn_file l (taps_fs t') (VN t') (length (outb l (taps_fs t)) + 2) \<and> VN t' = (VN t)\<lparr>vn_v1 := v1, vn_v2 := v2, vn_pc := VnSignal\<rparr>"
proof -
  have tap: "0 \<notin> set tap" "length tap = 2" "tap \<noteq> []" using pour_text[of "vn_V (VN t)" "vn_v1 (VN t)" "vn_v2 (VN t)"] p by auto
  then obtain G where "sys_Write tap 2 (vn_fileOut (VN t)) (taps_fs t) = Inr (2, G)"
    "ufile G = (ufile (taps_fs t))(vn_fileOut (VN t) \<mapsto> (out_ino l, length (outb l (taps_fs t)) + 2, 0))"
    "fcontent G = (fcontent (taps_fs t))(out_ino l := outb l (taps_fs t) @ tap)" "same_table (taps_fs t) G"
    using vn_append[OF assms(2) f] by (metis of_nat_numeral)
  then show ?thesis using assms tap same_tableD[of "taps_fs t" G]
    by (intro exI[of _ "t\<lparr>taps_fs := G, VN := (VN t)\<lparr>vn_v1 := v1, vn_v2 := v2, vn_pc := VnSignal\<rparr>\<rparr>"]) (auto simp: vn_defs line_ok_def)
qed

lemma step_VnSignal:
  assumes "taps_files l t" and pc: "vn_pc (VN t) = VnSignal"
  shows "\<exists>t'. vn_step t = Inr (Some t') \<and> vn_moves l [] t t' \<and> sem_sinhvien t' = sem_sinhvien t \<and> sem_voinuoc t' = sem_voinuoc t + 1
    \<and> sem_main t' = sem_main t \<and> taps_fs t' = taps_fs t \<and> VN t' = (VN t)\<lparr>vn_pc := VnWait\<rparr>"
  using assms by (intro exI[of _ "t\<lparr>sem_voinuoc := sem_voinuoc t + 1, VN := (VN t)\<lparr>vn_pc := VnWait\<rparr>\<rparr>"]) (auto simp: vn_defs)

lemma step_VnNewline:
  assumes "line_ok l" and "taps_files l t" and pc: "vn_pc (VN t) = VnNewline" and f: "vn_file l (taps_fs t) (VN t) (length (outb l (taps_fs t)))"
  shows "\<exists>t'. vn_step t = Inr (Some t') \<and> vn_moves l [10] t t' \<and> same_sems t t'
    \<and> vn_pc (VN t') = VnMain \<and> vn_file l (taps_fs t') (VN t') (length (outb l (taps_fs t)) + 1)"
proof -
  have "length [10 :: byte] = 1" "int 1 = 1" by simp_all
  then obtain G where "sys_Write [10] 1 (vn_fileOut (VN t)) (taps_fs t) = Inr (1, G)"
    "ufile G = (ufile (taps_fs t))(vn_fileOut (VN t) \<mapsto> (out_ino l, length (outb l (taps_fs t)) + 1, 0))"
    "fcontent G = (fcontent (taps_fs t))(out_ino l := outb l (taps_fs t) @ [10])" "same_table (taps_fs t) G"
    using vn_append[OF assms(2) f, of "[10]"] by auto
  then show ?thesis using assms same_tableD[of "taps_fs t" G]
    by (intro exI[of _ "t\<lparr>taps_fs := G, VN := (VN t)\<lparr>vn_c := 10, vn_pc := VnMain\<rparr>\<rparr>"]) (auto simp: vn_defs line_ok_def)
qed

lemma step_VnMain:
  assumes "taps_files l t" and pc: "vn_pc (VN t) = VnMain"
  shows "\<exists>t'. vn_step t = Inr (Some t') \<and> vn_moves l [] t t' \<and> sem_sinhvien t' = sem_sinhvien t \<and> sem_voinuoc t' = sem_voinuoc t
    \<and> sem_main t' = sem_main t + 1 \<and> taps_fs t' = taps_fs t \<and> VN t' = (VN t)\<lparr>vn_pc := VnClose 0\<rparr>"
  using assms by (intro exI[of _ "t\<lparr>sem_main := sem_main t + 1, VN := (VN t)\<lparr>vn_pc := VnClose 0\<rparr>\<rparr>"]) (auto simp: vn_defs)

lemma step_VnClose:
  assumes "taps_files l t" and pc: "vn_pc (VN t) = VnClose m" and f: "vn_file l (taps_fs t) (VN t) pos"
  shows "\<exists>t'. vn_step t = Inr (Some t') \<and> vn_moves l [] t t' \<and> same_sems t t' \<and> vn_pc (VN t') = VnEnd m"
proof -
  obtain G where G: "sys_Close (vn_fileOut (VN t)) (taps_fs t) = Inr (0, G)" "ufile G = (ufile (taps_fs t))(vn_fileOut (VN t) := None)"
    "fcontent G = fcontent (taps_fs t)" "wf_files G" "openf G = openf (taps_fs t)" "names (host G) = names (host (taps_fs t))" "free_fds (taps_fs t) \<le> free_fds G"
    using sys_Close_law[of "taps_fs t"] assms(1) f unfolding taps_files_def vn_file_def by metis
  then show ?thesis using assms
    by (intro exI[of _ "t\<lparr>taps_fs := G, VN := (VN t)\<lparr>vn_pc := VnEnd m\<rparr>\<rparr>"]) (auto simp: vn_defs free_slots_def)
qed

section \<open>Both processes\<close>

lemma sv_at_frame:
  assumes "sv_at l F p k" and "\<forall>j \<in> sv_slots p. ufile G j = ufile F j" and "outb l G = outb l F @ new" and "new = [] \<or> sv_pc p \<noteq> SvWrite"
  shows "sv_at l G p k"
proof -
  have "sv_files l G p pos rest" if "sv_files l F p pos rest" "sv_slots p = {fileSinhVien p, sv_fileOut p}" for pos rest
    using that assms(2,3) by (auto simp: sv_files_def)
  then show ?thesis using assms by (cases "sv_pc p") (auto simp: sv_at_def Let_def sv_slots_def)
qed

lemma vn_file_frame: "vn_file l F q pos \<Longrightarrow> \<forall>j \<in> vn_slots q. ufile G j = ufile F j \<Longrightarrow> vn_slots q = {vn_fileOut q} \<Longrightarrow> vn_file l G q pos"
  by (simp add: vn_file_def)

lemma vn_at_frame: "vn_at l F q i \<Longrightarrow> \<forall>j \<in> vn_slots q. ufile G j = ufile F j \<Longrightarrow> vn_at l G q i"
  by (cases "vn_pc q") (auto simp: vn_at_def Let_def vn_slots_def vn_file_def)

lemma vn_lost_frame: "vn_lost l F q \<Longrightarrow> \<forall>j \<in> vn_slots q. ufile G j = ufile F j \<Longrightarrow> outb l G = outb l F \<Longrightarrow> vn_lost l G q"
  by (cases "vn_pc q") (auto simp: vn_lost_def vn_slots_def vn_file_def)

text \<open>Mutual exclusion: while \<open>sinhvien\<close> is between its \<open>Wait\<close> and its \<open>Signal\<close>, \<open>voinuoc\<close> does not write.\<close>

lemma turn_sv:
  assumes "good l k i t" and "sv_pc (SV t) = SvSeekEnd \<or> sv_pc (SV t) = SvWrite"
  shows "k = i \<and> (vn_pc (VN t) = VnWait \<or> seeking (VN t))"
  using assms by (cases "vn_pc (VN t)") (auto simp: good_def vn_waits_def sv_signals_def sv_waits_def vn_signals_def vn_at_def sv_at_def seeking_def Let_def)

lemma good_sv:
  assumes g: "good l k i t" and m: "sv_moves l k t t'" and ns: "\<not> (sv_pc (SV t) = SvWrite \<and> seeking (VN t))"
  shows "good l (if sv_pc (SV t) = SvWrite then Suc k else k) i t'"
proof -
  have "vn_at l (taps_fs t') (VN t') i" using vn_at_frame[of l "taps_fs t" "VN t" i "taps_fs t'"] g m
    by (auto simp: good_def sv_moves_def Let_def)
  moreover have "k = i \<and> vn_pc (VN t) = VnWait" if "sv_pc (SV t) = SvWrite" using turn_sv[OF g] ns that by auto
  ultimately show ?thesis using g m ns
    by (cases "sv_pc (SV t) = SvWrite") (auto simp: good_def sv_moves_def Let_def newline_written_def)
qed

lemma good_vnI:
  assumes "good l k i t" and "vn_moves l new t t'" and "new = [] \<or> sv_pc (SV t) \<noteq> SvWrite"
    and "vn_at l (taps_fs t') (VN t') i'" and "i' \<le> k" and "seeking (VN t') \<longrightarrow> k = 0"
    and "sem_sinhvien t' + vn_waits (VN t') i' = sem_sinhvien t + vn_waits (VN t) i"
    and "sem_voinuoc t' + vn_signals (VN t) i = sem_voinuoc t + vn_signals (VN t') i'"
    and "outb l (taps_fs t) @ new = answered l i' @ (if k = Suc i' then vols l ! i' @ [32] else []) @ (if newline_written (VN t') then [10] else [])"
    and "sem_main t' = (case vn_pc (VN t') of VnClose _ \<Rightarrow> 1 | VnEnd _ \<Rightarrow> 1 | _ \<Rightarrow> 0)"
  shows "good l k i' t'"
proof -
  have "sv_at l (taps_fs t') (SV t') k"
    using sv_at_frame[of l "taps_fs t" "SV t" k "taps_fs t'" new] assms(1-3) by (auto simp: good_def vn_moves_def)
  then show ?thesis using assms by (auto simp: good_def vn_moves_def)
qed

lemmas pc_defs = seeking_def vn_waits_def vn_signals_def newline_written_def same_sems_def

lemma good_VnOpen:
  assumes g: "good l k i t" and pc: "vn_pc (VN t) = VnOpen"
  shows "\<exists>t' i' new. vn_step t = Inr (Some t') \<and> vn_moves l new t t' \<and> good l k i' t'"
proof -
  obtain t' where t': "vn_step t = Inr (Some t')" "vn_moves l [] t t'" "same_sems t t'" "vn_pc (VN t') = VnSeek" "vn_file l (taps_fs t') (VN t') 0"
    using step_VnOpen[OF _ pc] g by (auto simp: good_def)
  have "good l k 0 t'" by (rule good_vnI[OF g t'(2)]) (use g pc t' in \<open>auto simp: good_def vn_at_def Let_def pc_defs\<close>)
  then show ?thesis using t'(1,2) by blast
qed

lemma good_VnSeek:
  assumes g: "good l k i t" and pc: "vn_pc (VN t) = VnSeek"
  shows "\<exists>t' i' new. vn_step t = Inr (Some t') \<and> vn_moves l new t t' \<and> good l k i' t'"
proof -
  have i: "i = 0" "k = 0" "outb l (taps_fs t) = before l" "answered l 0 = before l"
    using g pc by (auto simp: good_def vn_at_def pc_defs Let_def answered_def)
  obtain pos where f: "vn_file l (taps_fs t) (VN t) pos" "pos \<le> length (before l)" using g pc i by (auto simp: good_def vn_at_def Let_def)
  obtain t' where t': "vn_step t = Inr (Some t')" "vn_moves l [] t t'" "same_sems t t'"
    "if pos < length (outb l (taps_fs t)) then VN t' = VN t \<and> vn_file l (taps_fs t') (VN t') (pos + 1)
       else VN t' = (VN t)\<lparr>vn_pc := VnWait, vn_v1 := 0, vn_v2 := 0\<rparr> \<and> vn_file l (taps_fs t') (VN t') pos"
    using step_VnSeek[OF _ pc f(1)] g by (auto simp: good_def)
  have "good l k 0 t'" by (rule good_vnI[OF g t'(2)]) (use g pc t'(3,4) i f in \<open>auto simp: good_def vn_at_def Let_def pc_defs split: if_splits intro!: exI[of _ "Suc pos"]\<close>)
  then show ?thesis using t'(1,2) by blast
qed

lemma good_VnWait:
  assumes g: "good l k i t" and pc: "vn_pc (VN t) = VnWait" and s: "0 < sem_sinhvien t"
  shows "\<exists>t' i' new. vn_step t = Inr (Some t') \<and> vn_moves l new t t' \<and> good l k i' t'"
proof -
  obtain t' where t': "vn_step t = Inr (Some t')" "vn_moves l [] t t'" "sem_sinhvien t' = sem_sinhvien t - 1" "sem_voinuoc t' = sem_voinuoc t"
    "sem_main t' = sem_main t" "taps_fs t' = taps_fs t" "VN t' = (VN t)\<lparr>vn_V := 0, vn_c := 48, vn_pc := VnNumber\<rparr>"
    using step_VnWait[OF _ pc s] g by (auto simp: good_def)
  have z: "push_digit 0 48 = 0" by (simp add: push_digit_def)
  have "vn_file l (taps_fs t) (VN t) (length (answered l i) + 0)" using g pc by (auto simp: good_def vn_at_def Let_def)
  then have "\<exists>r. vn_file l (taps_fs t') (VN t') (length (answered l i) + r)
      \<and> (if i < length (vols l) then r \<le> length (vols l ! i) \<and> push_digit 0 48 = dec (take r (vols l ! i)) else r = 0 \<and> push_digit 0 48 = 0)"
    using t' z by (intro exI[of _ 0]) (auto simp: vn_file_def dec_def)
  then have "vn_at l (taps_fs t') (VN t') i" using g pc t' by (auto simp: good_def vn_at_def Let_def)
  then have "good l k i t'" by (intro good_vnI[OF g t'(2)]) (use g pc s t' in \<open>auto simp: good_def pc_defs\<close>)
  then show ?thesis using t'(1,2) by blast
qed

text \<open>While \<open>voinuoc\<close> reads a number, the volume is there and \<open>sinhvien\<close> waits for the answer, or all is answered.\<close>

lemma turn_vn:
  assumes "good l k i t" and "vn_pc (VN t) = VnNumber \<or> vn_pc (VN t) = VnPour \<or> vn_pc (VN t) = VnNewline"
  shows "sv_pc (SV t) \<noteq> SvWrite" "sv_pc (SV t) \<noteq> SvSeekEnd" "k = (if i < length (vols l) then Suc i else i)"
proof -
  show a: "sv_pc (SV t) \<noteq> SvWrite" "sv_pc (SV t) \<noteq> SvSeekEnd" using turn_sv[OF assms(1)] assms(2) by (auto simp: seeking_def)
  show "k = (if i < length (vols l) then Suc i else i)" using assms a
    by (cases "sv_pc (SV t)") (auto simp: good_def pc_defs sv_waits_def sv_signals_def sv_at_def vn_at_def Let_def)
qed

lemma dec_take_Suc:
  assumes "container t" and "r < length t"
  shows "push_digit (dec (take r t)) (t ! r) = dec (take (Suc r) t)"
proof -
  have num: "\<forall>c \<in> set (take r t). is_dig c" "is_dig (t ! r)" using assms by (auto simp: container_def dest: in_set_takeD)
  have "r \<le> 8" using assms by (simp add: container_def)
  then have "(10::int) ^ length (take r t) \<le> 10 ^ 8" by (intro power_increasing) auto
  with dec_bounds[OF num(1)] have "0 \<le> dec (take r t)" "dec (take r t) < 10 ^ 8" by auto
  then show ?thesis using push_digit_num num(2) assms(2) by (simp add: take_Suc_conv_app_nth dec_append)
qed

lemma good_VnNumber:
  assumes ok: "line_ok l" and g: "good l k i t" and pc: "vn_pc (VN t) = VnNumber"
  shows "\<exists>t' i' new. vn_step t = Inr (Some t') \<and> vn_moves l new t t' \<and> good l k i' t'"
proof -
  let ?t = "vols l ! i" and ?a = "answered l i" and ?V = "push_digit (vn_V (VN t)) (vn_c (VN t))"
  note k = turn_vn[OF g disjI1[OF pc]]
  obtain r where r: "vn_file l (taps_fs t) (VN t) (length ?a + r)"
    "if i < length (vols l) then r \<le> length ?t \<and> ?V = dec (take r ?t) else r = 0 \<and> ?V = 0"
    and st: "(vn_v1 (VN t), vn_v2 (VN t)) = left_after (vols l) i" "i \<le> length (vols l)"
    using g pc by (auto simp: good_def vn_at_def Let_def)
  have out: "outb l (taps_fs t) = ?a @ (if i < length (vols l) then ?t @ [32] else [])"
    using g pc k(3) by (auto simp: good_def newline_written_def)
  have fs: "taps_files l t" using g by (simp add: good_def)
  have fin: "length ?a + r < length (outb l (taps_fs t)) \<or> ?V = 0" using r(2) out by (auto split: if_splits)
  from step_VnNumber[OF fs pc r(1) refl fin] obtain t' where t': "vn_step t = Inr (Some t')" "vn_moves l [] t t'" "same_sems t t'"
    and q: "if length ?a + r < length (outb l (taps_fs t)) then vn_file l (taps_fs t') (VN t') (length ?a + r + 1)
         \<and> VN t' = (if is_dig (outb l (taps_fs t) ! (length ?a + r)) then (VN t)\<lparr>vn_V := ?V, vn_c := outb l (taps_fs t) ! (length ?a + r)\<rparr>
             else (VN t)\<lparr>vn_V := ?V, vn_c := outb l (taps_fs t) ! (length ?a + r), vn_pc := if ?V = 0 then VnNewline else VnPour\<rparr>)
       else vn_file l (taps_fs t') (VN t') (length ?a + r) \<and> VN t' = (VN t)\<lparr>vn_V := ?V, vn_pc := if ?V = 0 then VnNewline else VnPour\<rparr>" by blast
  have at: "vn_at l (taps_fs t') (VN t') i \<and> (vn_pc (VN t') = VnNumber \<or> vn_pc (VN t') = VnPour \<or> vn_pc (VN t') = VnNewline)"
  proof (cases "i < length (vols l)")
    case False
    then show ?thesis using q out r(2) st pc by (auto simp: vn_at_def Let_def)
  next
    case True
    then have ct: "container ?t" using ok by (simp add: line_ok_def)
    have V: "r \<le> length ?t" "?V = dec (take r ?t)" using r(2) True by auto
    have lt: "length ?a + r < length (outb l (taps_fs t))" using V(1) out True by simp
    show ?thesis
    proof (cases "r < length ?t")
      case less: True
      then have c: "outb l (taps_fs t) ! (length ?a + r) = ?t ! r" using out True by (simp add: nth_append)
      have "is_dig (?t ! r)" using ct less by (simp add: container_def)
      then have "VN t' = (VN t)\<lparr>vn_V := ?V, vn_c := ?t ! r\<rparr>" "vn_file l (taps_fs t') (VN t') (length ?a + Suc r)" using q lt c by auto
      then show ?thesis using True less V(2) dec_take_Suc[OF ct less] st pc by (auto simp: vn_at_def Let_def intro!: exI[of _ "Suc r"])
    next
      case False
      then have "r = length ?t" using V(1) by simp
      then have c: "outb l (taps_fs t) ! (length ?a + r) = 32" "\<not> is_dig 32" "?V = dec ?t" using out True V(2) by (auto simp: nth_append is_dig_def)
      then show ?thesis using q lt True st pc container_bounds[OF ct] \<open>r = length ?t\<close> by (auto simp: vn_at_def Let_def)
    qed
  qed
  have "good l k i t'" by (rule good_vnI[OF g t'(2)]) (use g pc t'(3) k at in \<open>auto simp: good_def pc_defs\<close>)
  then show ?thesis using t'(1,2) by blast
qed

lemma good_VnPour:
  assumes ok: "line_ok l" and g: "good l k i t" and pc: "vn_pc (VN t) = VnPour"
  shows "\<exists>t' i' new. vn_step t = Inr (Some t') \<and> vn_moves l new t t' \<and> good l k i' t'"
proof -
  let ?t = "vols l ! i" and ?a = "answered l i" and ?q = "VN t"
  note k = turn_vn[OF g disjI2[OF disjI1[OF pc]]]
  have i: "i < length (vols l)" "vn_V ?q = dec ?t" "(vn_v1 ?q, vn_v2 ?q) = left_after (vols l) i"
    and f: "vn_file l (taps_fs t) ?q (length ?a + length ?t + 1)" using g pc by (auto simp: good_def vn_at_def Let_def)
  have out: "outb l (taps_fs t) = ?a @ ?t @ [32]" using g pc k(3) i(1) by (auto simp: good_def newline_written_def)
  obtain tap v1 v2 where p: "pour (vn_V ?q) (vn_v1 ?q) (vn_v2 ?q) = (tap, v1, v2)" by (metis prod_cases3)
  have fst: "fst (left_after (vols l) i) = vn_v1 ?q" "snd (left_after (vols l) i) = vn_v2 ?q" by (simp_all add: i(3)[symmetric])
  have tap: "tap = answer (vols l) i" "left_after (vols l) (Suc i) = (v1, v2)"
    using p i left_after_Suc[OF i(1)] by (simp_all add: answer_def fst)
  have ans: "answered l (Suc i) = ?a @ ?t @ 32 # tap" using pours_take_Suc[OF i(1)] tap(1) by (simp add: answered_def)
  have fs: "taps_files l t" "vn_file l (taps_fs t) ?q (length (outb l (taps_fs t)))" using g f out by (auto simp: good_def)
  obtain t' where t': "vn_step t = Inr (Some t')" "vn_moves l tap t t'" "same_sems t t'" "vn_file l (taps_fs t') (VN t') (length (outb l (taps_fs t)) + 2)"
    "VN t' = ?q\<lparr>vn_v1 := v1, vn_v2 := v2, vn_pc := VnSignal\<rparr>" using step_VnPour[OF ok fs(1) pc fs(2) p] by blast
  have "good l k (Suc i) t'" by (rule good_vnI[OF g t'(2)]) (use g pc k i tap ans out t'(3-5) in \<open>auto simp: good_def vn_at_def Let_def pc_defs numeral_3_eq_3\<close>)
  then show ?thesis using t'(1,2) by blast
qed

lemma good_VnNewline:
  assumes ok: "line_ok l" and g: "good l k i t" and pc: "vn_pc (VN t) = VnNewline"
  shows "\<exists>t' i' new. vn_step t = Inr (Some t') \<and> vn_moves l new t t' \<and> good l k i' t'"
proof -
  note k = turn_vn[OF g disjI2[OF disjI2[OF pc]]]
  have i: "i = length (vols l)" and f: "vn_file l (taps_fs t) (VN t) (length (answered l i))" using g pc by (auto simp: good_def vn_at_def Let_def)
  have out: "outb l (taps_fs t) = answered l i" using g pc k(3) i by (auto simp: good_def newline_written_def)
  have fs: "taps_files l t" "vn_file l (taps_fs t) (VN t) (length (outb l (taps_fs t)))" using g f out by (auto simp: good_def)
  obtain t' where t': "vn_step t = Inr (Some t')" "vn_moves l [10] t t'" "same_sems t t'" "vn_pc (VN t') = VnMain"
    "vn_file l (taps_fs t') (VN t') (length (outb l (taps_fs t)) + 1)" using step_VnNewline[OF ok fs(1) pc fs(2)] by blast
  have "good l k i t'" by (rule good_vnI[OF g t'(2)]) (use g pc k i out t'(3-5) in \<open>auto simp: good_def vn_at_def Let_def pc_defs\<close>)
  then show ?thesis using t'(1,2) by blast
qed

lemma good_VnSignal:
  assumes g: "good l k i t" and pc: "vn_pc (VN t) = VnSignal"
  shows "\<exists>t' i' new. vn_step t = Inr (Some t') \<and> vn_moves l new t t' \<and> good l k i' t'"
proof -
  obtain t' where t': "vn_step t = Inr (Some t')" "vn_moves l [] t t'" "sem_sinhvien t' = sem_sinhvien t" "sem_voinuoc t' = sem_voinuoc t + 1"
    "sem_main t' = sem_main t" "taps_fs t' = taps_fs t" "VN t' = (VN t)\<lparr>vn_pc := VnWait\<rparr>" using step_VnSignal[OF _ pc] g by (auto simp: good_def)
  have "good l k i t'" by (rule good_vnI[OF g t'(2)]) (use g pc t'(3-7) in \<open>auto simp: good_def vn_at_def Let_def pc_defs vn_file_def\<close>)
  then show ?thesis using t'(1,2) by blast
qed

lemma good_VnMain:
  assumes g: "good l k i t" and pc: "vn_pc (VN t) = VnMain"
  shows "\<exists>t' i' new. vn_step t = Inr (Some t') \<and> vn_moves l new t t' \<and> good l k i' t'"
proof -
  obtain t' where t': "vn_step t = Inr (Some t')" "vn_moves l [] t t'" "sem_sinhvien t' = sem_sinhvien t" "sem_voinuoc t' = sem_voinuoc t"
    "sem_main t' = sem_main t + 1" "taps_fs t' = taps_fs t" "VN t' = (VN t)\<lparr>vn_pc := VnClose 0\<rparr>" using step_VnMain[OF _ pc] g by (auto simp: good_def)
  have "good l k i t'" by (rule good_vnI[OF g t'(2)]) (use g pc t'(3-7) in \<open>auto simp: good_def vn_at_def Let_def pc_defs vn_file_def\<close>)
  then show ?thesis using t'(1,2) by blast
qed

lemma good_VnClose:
  assumes g: "good l k i t" and pc: "vn_pc (VN t) = VnClose m"
  shows "\<exists>t' i' new. vn_step t = Inr (Some t') \<and> vn_moves l new t t' \<and> good l k i' t'"
proof -
  have m: "m = 0" using g pc by (auto simp: good_def vn_at_def Let_def)
  obtain t' where t': "vn_step t = Inr (Some t')" "vn_moves l [] t t'" "same_sems t t'" "vn_pc (VN t') = VnEnd m"
    using step_VnClose[OF _ pc] g pc by (auto simp: good_def vn_at_def Let_def)
  have "good l k i t'" by (rule good_vnI[OF g t'(2)]) (use g pc m t'(3,4) in \<open>auto simp: good_def vn_at_def Let_def pc_defs vn_file_def\<close>)
  then show ?thesis using t'(1,2) by blast
qed

lemma good_vn:
  assumes "line_ok l" and "good l k i t"
  shows "vn_step t = Inr None \<and> (vn_pc (VN t) = VnWait \<and> sem_sinhvien t = 0 \<or> vn_pc (VN t) = VnEnd 0)
    \<or> (\<exists>t' i' new. vn_step t = Inr (Some t') \<and> vn_moves l new t t' \<and> good l k i' t')"
proof (cases "vn_pc (VN t)")
  case VnWait
  then show ?thesis using good_VnWait[OF assms(2)] by (cases "sem_sinhvien t = 0") (auto simp: vn_step_def Let_def)
next
  case (VnEnd m)
  then show ?thesis using assms(2) by (auto simp: vn_step_def good_def vn_at_def Let_def)
qed (use good_VnOpen[OF assms(2)] good_VnSeek[OF assms(2)] good_VnNumber[OF assms] good_VnPour[OF assms] good_VnSignal[OF assms(2)]
  good_VnNewline[OF assms] good_VnMain[OF assms(2)] good_VnClose[OF assms(2)] in blast)+

text \<open>Where neither process has a step, both have ended.\<close>

lemma good_stuck:
  assumes "line_ok l" and g: "good l k i t" and "sv_step t = Inr None" and "vn_step t = Inr None"
  shows "sv_pc (SV t) = SvEnd 0 \<and> vn_pc (VN t) = VnEnd 0"
proof -
  have "taps_files l t" "sv_at l (taps_fs t) (SV t) k" using g by (auto simp: good_def)
  then have "sv_pc (SV t) = SvWait \<and> sem_voinuoc t = 0 \<or> sv_pc (SV t) = SvEnd 0" using sv_local[OF assms(1), of t k] assms(3) by auto
  moreover have "vn_pc (VN t) = VnWait \<and> sem_sinhvien t = 0 \<or> vn_pc (VN t) = VnEnd 0" using good_vn[OF assms(1) g] assms(4) by auto
  ultimately show ?thesis using g by (auto simp: good_def pc_defs sv_waits_def sv_signals_def sv_at_def vn_at_def Let_def)
qed

text \<open>If \<open>sinhvien\<close> writes its first volume while \<open>voinuoc\<close> is still looking for the end of the file, the volume
  is lost.\<close>

lemma good_lost:
  assumes g: "good l k i t" and st: "sv_step t = Inr (Some t')" and m: "sv_moves l k t t'"
    and pc: "sv_pc (SV t) = SvWrite" and s: "seeking (VN t)"
  shows "lost l t'"
proof -
  have ki: "k = 0" "i = 0" using g s turn_sv[OF g disjI2[OF pc]] by (auto simp: good_def)
  have at: "sv_at l (taps_fs t') (SV t') 1" using m pc ki by (auto simp: sv_moves_def Let_def)
  have "sv_pc (SV t') = SvSignal \<or> sv_pc (SV t') = SvClose (-1)"
    using st pc by (auto simp: sv_step_def Let_def bindR_eq_Inr split: prod.splits if_splits)
  then have sg: "sv_pc (SV t') = SvSignal" using at by (auto simp: sv_at_def)
  have out: "outb l (taps_fs t) = before l" "outb l (taps_fs t') = before l @ vols l ! 0 @ [32]"
    using g m pc ki s by (auto simp: good_def sv_moves_def Let_def answered_def newline_written_def seeking_def)
  have fr: "VN t' = VN t" "\<forall>j \<in> vn_slots (VN t). ufile (taps_fs t') j = ufile (taps_fs t) j" using m by (auto simp: sv_moves_def Let_def)
  have "vn_lost l (taps_fs t') (VN t')" using g s fr ki out
    by (auto simp: good_def vn_at_def vn_lost_def seeking_def Let_def vn_slots_def vn_file_def answered_def)
  then show ?thesis using g m pc ki at sg out fr s
    by (auto simp: lost_def good_def sv_moves_def Let_def seeking_def vn_waits_def sv_signals_def sv_waits_def vn_signals_def newline_written_def)
qed

lemma lost_sv:
  assumes ok: "line_ok l" and lo: "lost l t"
  shows "sv_step t = Inr None \<and> (sv_pc (SV t) = SvWait \<or> sv_pc (SV t) = SvEnd 0) \<or> (\<exists>t'. sv_step t = Inr (Some t') \<and> sv_moves l 1 t t' \<and> lost l t')"
proof -
  have fs: "taps_files l t" "sv_at l (taps_fs t) (SV t) 1" and v: "sem_voinuoc t = 0" and pcs: "sv_pc (SV t) \<noteq> SvSeekEnd" "sv_pc (SV t) \<noteq> SvWrite"
    using lo by (auto simp: lost_def)
  show ?thesis
  proof (cases "sv_pc (SV t) = SvWait \<or> sv_pc (SV t) = SvEnd 0")
    case True
    then show ?thesis using v by (auto simp: sv_step_def Let_def)
  next
    case False
    then obtain t' where t': "sv_step t = Inr (Some t')" "sv_moves l 1 t t'" using sv_local[OF ok fs] by auto
    have at: "sv_at l (taps_fs t') (SV t') 1" and w: "sv_waits (SV t') 1 \<le> 1"
      and fr: "VN t' = VN t" "\<forall>j \<in> vn_slots (VN t). ufile (taps_fs t') j = ufile (taps_fs t) j" "outb l (taps_fs t') = outb l (taps_fs t)"
      using t'(2) pcs v by (auto simp: sv_moves_def Let_def sv_waits_def split: sv_pc.splits)
    have pc': "sv_pc (SV t') \<noteq> SvSeekEnd" "sv_pc (SV t') \<noteq> SvWrite" using w by (auto simp: sv_waits_def)
    have "vn_lost l (taps_fs t') (VN t')" using vn_lost_frame[of l "taps_fs t" "VN t" "taps_fs t'"] lo fr by (simp add: lost_def)
    then have "lost l t'" using lo t'(2) pcs pc' fr v w by (auto simp: lost_def sv_moves_def Let_def sv_waits_def split: sv_pc.splits)
    then show ?thesis using t' by blast
  qed
qed

lemma lost_vnI:
  assumes "lost l t" and "vn_moves l new t t'" and "vn_lost l (taps_fs t') (VN t')"
    and "sem_sinhvien t' + vn_waits (VN t') 0 = sem_sinhvien t + vn_waits (VN t) 0" and "sem_voinuoc t' = sem_voinuoc t"
    and "outb l (taps_fs t) @ new = before l @ vols l ! 0 @ 32 # (if newline_written (VN t') then [10] else [])"
  shows "lost l t'"
proof -
  have "sv_at l (taps_fs t') (SV t') 1"
    using sv_at_frame[of l "taps_fs t" "SV t" 1 "taps_fs t'" new] assms(1,2) by (auto simp: lost_def vn_moves_def)
  then show ?thesis using assms by (auto simp: lost_def vn_moves_def)
qed

lemmas lost_defs = lost_def vn_lost_def pc_defs Let_def

lemma lost_VnSeek:
  assumes lo: "lost l t" and pc: "vn_pc (VN t) = VnSeek"
  shows "\<exists>t' new. vn_step t = Inr (Some t') \<and> vn_moves l new t t' \<and> lost l t'"
proof -
  obtain pos where f: "vn_file l (taps_fs t) (VN t) pos" "pos \<le> length (outb l (taps_fs t))" using lo pc by (auto simp: lost_defs)
  obtain t' where t': "vn_step t = Inr (Some t')" "vn_moves l [] t t'" "same_sems t t'"
    "if pos < length (outb l (taps_fs t)) then VN t' = VN t \<and> vn_file l (taps_fs t') (VN t') (pos + 1)
       else VN t' = (VN t)\<lparr>vn_pc := VnWait, vn_v1 := 0, vn_v2 := 0\<rparr> \<and> vn_file l (taps_fs t') (VN t') pos"
    using step_VnSeek[OF _ pc f(1)] lo by (auto simp: lost_def)
  have out: "outb l (taps_fs t') = outb l (taps_fs t)" using t'(2) by (simp add: vn_moves_def)
  have "vn_lost l (taps_fs t') (VN t')" using t'(4) f(2) pc out by (auto simp: vn_lost_def split: if_splits intro!: exI[of _ "Suc pos"])
  then have "lost l t'" by (intro lost_vnI[OF lo t'(2)]) (use lo pc t'(3,4) in \<open>auto simp: lost_defs split: if_splits\<close>)
  then show ?thesis using t'(1,2) by blast
qed

lemma lost_VnNumber:
  assumes lo: "lost l t" and pc: "vn_pc (VN t) = VnNumber"
  shows "\<exists>t' new. vn_step t = Inr (Some t') \<and> vn_moves l new t t' \<and> lost l t'"
proof -
  have f: "vn_file l (taps_fs t) (VN t) (length (outb l (taps_fs t)))" and z: "push_digit (vn_V (VN t)) (vn_c (VN t)) = 0" and fs: "taps_files l t"
    using lo pc by (auto simp: lost_defs)
  obtain t' where t': "vn_step t = Inr (Some t')" "vn_moves l [] t t'" "same_sems t t'"
    "vn_file l (taps_fs t') (VN t') (length (outb l (taps_fs t)))" "VN t' = (VN t)\<lparr>vn_V := 0, vn_pc := VnNewline\<rparr>"
    using step_VnNumber[OF fs pc f z[symmetric]] by auto
  have "outb l (taps_fs t') = outb l (taps_fs t)" using t'(2) by (simp add: vn_moves_def)
  then have "lost l t'" by (intro lost_vnI[OF lo t'(2)]) (use lo pc t'(3-5) in \<open>auto simp: lost_defs\<close>)
  then show ?thesis using t'(1,2) by blast
qed

lemma lost_VnNewline:
  assumes ok: "line_ok l" and lo: "lost l t" and pc: "vn_pc (VN t) = VnNewline"
  shows "\<exists>t' new. vn_step t = Inr (Some t') \<and> vn_moves l new t t' \<and> lost l t'"
proof -
  have fs: "taps_files l t" "vn_file l (taps_fs t) (VN t) (length (outb l (taps_fs t)))" using lo pc by (auto simp: lost_defs)
  obtain t' where t': "vn_step t = Inr (Some t')" "vn_moves l [10] t t'" "same_sems t t'" "vn_pc (VN t') = VnMain"
    "vn_file l (taps_fs t') (VN t') (length (outb l (taps_fs t)) + 1)" using step_VnNewline[OF ok fs(1) pc fs(2)] by blast
  have "lost l t'" by (rule lost_vnI[OF lo t'(2)]) (use lo pc t'(3-5) in \<open>auto simp: lost_defs\<close>)
  then show ?thesis using t'(1,2) by blast
qed

lemma lost_vn:
  assumes ok: "line_ok l" and lo: "lost l t"
  shows "vn_step t = Inr None \<and> (vn_pc (VN t) = VnWait \<and> sem_sinhvien t = 0 \<or> vn_pc (VN t) = VnEnd 0)
    \<or> (\<exists>t' new. vn_step t = Inr (Some t') \<and> vn_moves l new t t' \<and> lost l t')"
proof -
  have fs: "taps_files l t" using lo by (simp add: lost_def)
  show ?thesis
  proof (cases "vn_pc (VN t)")
    case VnOpen
    obtain t' where t': "vn_step t = Inr (Some t')" "vn_moves l [] t t'" "same_sems t t'" "vn_pc (VN t') = VnSeek" "vn_file l (taps_fs t') (VN t') 0"
      using step_VnOpen[OF fs VnOpen] by blast
    have "lost l t'" by (rule lost_vnI[OF lo t'(2)]) (use lo VnOpen t' in \<open>auto simp: lost_defs\<close>)
    then show ?thesis using t'(1,2) by blast
  next
    case VnWait
    show ?thesis
    proof (cases "sem_sinhvien t = 0")
      case True
      then show ?thesis using VnWait by (simp add: vn_step_def Let_def)
    next
      case False
      then obtain t' where t': "vn_step t = Inr (Some t')" "vn_moves l [] t t'" "sem_sinhvien t' = sem_sinhvien t - 1" "sem_voinuoc t' = sem_voinuoc t"
        "taps_fs t' = taps_fs t" "VN t' = (VN t)\<lparr>vn_V := 0, vn_c := 48, vn_pc := VnNumber\<rparr>" using step_VnWait[OF fs VnWait] by auto
      have "lost l t'" by (rule lost_vnI[OF lo t'(2)]) (use lo VnWait False t'(3-6) in \<open>auto simp: lost_defs vn_file_def push_digit_def\<close>)
      then show ?thesis using t'(1,2) by blast
    qed
  next
    case VnMain
    obtain t' where t': "vn_step t = Inr (Some t')" "vn_moves l [] t t'" "sem_sinhvien t' = sem_sinhvien t" "sem_voinuoc t' = sem_voinuoc t"
      "taps_fs t' = taps_fs t" "VN t' = (VN t)\<lparr>vn_pc := VnClose 0\<rparr>" using step_VnMain[OF fs VnMain] by blast
    have "lost l t'" by (rule lost_vnI[OF lo t'(2)]) (use lo VnMain t'(3-6) in \<open>auto simp: lost_defs vn_file_def\<close>)
    then show ?thesis using t'(1,2) by blast
  next
    case (VnClose m)
    then obtain pos where f: "vn_file l (taps_fs t) (VN t) pos" "m = 0" using lo by (auto simp: lost_defs)
    obtain t' where t': "vn_step t = Inr (Some t')" "vn_moves l [] t t'" "same_sems t t'" "vn_pc (VN t') = VnEnd m"
      using step_VnClose[OF fs VnClose f(1)] by blast
    have "lost l t'" by (rule lost_vnI[OF lo t'(2)]) (use lo VnClose f t'(3,4) in \<open>auto simp: lost_defs\<close>)
    then show ?thesis using t'(1,2) by blast
  qed (use lo lost_VnSeek[OF lo] lost_VnNumber[OF lo] lost_VnNewline[OF ok lo] in \<open>auto simp: lost_defs vn_step_def\<close>)
qed

lemma lost_stuck:
  assumes "line_ok l" and lo: "lost l t" and "sv_step t = Inr None" and "vn_step t = Inr None"
  shows "sv_pc (SV t) = (if length (vols l) = 1 then SvEnd 0 else SvWait) \<and> vn_pc (VN t) = VnEnd 0"
proof -
  have at: "sv_at l (taps_fs t) (SV t) 1" "sem_sinhvien t + vn_waits (VN t) 0 = sv_signals (SV t) 1" using lo by (auto simp: lost_def)
  have "sv_pc (SV t) = SvWait \<or> sv_pc (SV t) = SvEnd 0" using lost_sv[OF assms(1) lo] assms(3) by auto
  moreover have "vn_pc (VN t) = VnWait \<and> sem_sinhvien t = 0 \<or> vn_pc (VN t) = VnEnd 0" using lost_vn[OF assms(1) lo] assms(4) by auto
  ultimately show ?thesis using at by (auto simp: sv_at_def Let_def sv_signals_def vn_waits_def)
qed

section \<open>Runs\<close>

lemma pours_append: "\<exists>w. pours v (xs @ ys) = pours v xs @ pours w ys"
  by (induction xs arbitrary: v) (auto simp: Let_def split: prod.split)

lemma length_answered: "i \<le> length (vols l) \<Longrightarrow> length (answered l i) \<le> length (answered l (length (vols l)))"
  using pours_append[of "(0, 0)" "take i (vols l)" "drop i (vols l)"] by (auto simp: answered_def)

lemma answered_Suc: "i < length (vols l) \<Longrightarrow> answered l (Suc i) = answered l i @ vols l ! i @ 32 # answer (vols l) i"
  using pours_take_Suc by (simp add: answered_def)

definition out_bound :: "Line \<Rightarrow> nat" where
  "out_bound l = length (answered l (length (vols l))) + 1"

lemma good_bound:
  assumes "good l k i t"
  shows "length (outb l (taps_fs t)) \<le> out_bound l"
proof -
  have "i \<le> length (vols l)" "k \<le> length (vols l)" using assms by (auto simp: good_def vn_at_def sv_at_def Let_def split: sv_pc.splits)
  moreover have "newline_written (VN t) \<longrightarrow> i = length (vols l)" using assms
    by (auto simp: good_def vn_at_def newline_written_def Let_def split: vn_pc.splits)
  ultimately show ?thesis using assms length_answered[of i l] length_answered[of "Suc i" l] answered_Suc[of i l]
    by (auto simp: good_def out_bound_def)
qed

lemma lost_bound:
  assumes "line_ok l" and "lost l t"
  shows "length (outb l (taps_fs t)) \<le> out_bound l"
proof -
  have n: "0 < length (vols l)" "1 \<le> length (vols l)" using assms(1) by (auto simp: line_ok_def Suc_leI)
  then show ?thesis using assms(2) length_answered[OF n(2)] answered_Suc[OF n(1)] by (auto simp: lost_def out_bound_def answered_def)
qed

definition taps_left :: "Line \<Rightarrow> Taps \<Rightarrow> nat" where
  "taps_left l t = sv_left (out_bound l) l (taps_fs t) (SV t) + vn_left (out_bound l) (taps_fs t) (VN t)"

lemma sv_left_frame: "\<forall>j \<in> sv_slots p. ufile G j = ufile F j \<Longrightarrow> sv_left M l G p = sv_left M l F p"
  by (cases "sv_pc p") (auto simp: sv_left_def sv_slots_def slot_at_def Let_def)

lemma vn_left_frame: "\<forall>j \<in> vn_slots q. ufile G j = ufile F j \<Longrightarrow> vn_left M G q = vn_left M F q"
  by (cases "vn_pc q") (auto simp: vn_left_def vn_slots_def slot_at_def Let_def)

lemma sv_moves_left: "sv_moves l k t t' \<Longrightarrow> length (outb l (taps_fs t')) \<le> out_bound l \<Longrightarrow> taps_left l t' < taps_left l t"
  using vn_left_frame[of "VN t" "taps_fs t'" "taps_fs t"] by (auto simp: sv_moves_def taps_left_def Let_def)

lemma vn_moves_left: "vn_moves l new t t' \<Longrightarrow> length (outb l (taps_fs t')) \<le> out_bound l \<Longrightarrow> taps_left l t' < taps_left l t"
  using sv_left_frame[of "SV t" "taps_fs t'" "taps_fs t"] by (auto simp: vn_moves_def taps_left_def)

end
