(* ===== verification/Nachos_TapsRun.thy ===== *)
theory Nachos_TapsRun
  imports Nachos_TapsInv
begin

text \<open>
  Complete runs of the tap application for one line of input: how they end, in each of the two cases of
  \<^verbatim>\<open>Nachos_TapsInv\<close>, and that both cases occur.
\<close>

section \<open>Runs of a terminating relation\<close>

text \<open>From a state where an invariant holds that every step keeps and that makes a measure fall, every run is
  finite and can be continued to a state without a step.\<close>

lemma run_keeps:
  assumes "\<And>t t'. P t \<Longrightarrow> r t t' \<Longrightarrow> P t'" and "P t" and "r\<^sup>*\<^sup>* t u"
  shows "P u"
  using assms(3,2) by (induction rule: rtranclp_induct) (auto intro: assms(1))

lemma run_finite:
  fixes m :: "'a \<Rightarrow> nat"
  assumes "\<And>t t'. P t \<Longrightarrow> r t t' \<Longrightarrow> P t' \<and> m t' < m t" and "P t"
  shows "\<not> (\<exists>f. f 0 = t \<and> (\<forall>i. r (f i) (f (Suc i))))"
proof
  assume "\<exists>f. f 0 = t \<and> (\<forall>i. r (f i) (f (Suc i)))"
  then obtain f where f: "f 0 = t" "\<And>i. r (f i) (f (Suc i))" by blast
  have "P (f i) \<and> m (f i) + i \<le> m t" for i
  proof (induction i)
    case (Suc i)
    then show ?case using assms(1)[of "f i" "f (Suc i)"] f(2)[of i] by fastforce
  qed (use assms(2) f(1) in simp)
  from this[of "Suc (m t)"] show False by simp
qed

lemma finite_run_ends:
  assumes "\<not> (\<exists>f. f 0 = t \<and> (\<forall>i. r (f i) (f (Suc i))))"
  shows "\<exists>u. r\<^sup>*\<^sup>* t u \<and> (\<nexists>v. r u v)"
proof (rule ccontr)
  assume "\<not> ?thesis"
  then have nxt: "\<And>u. r\<^sup>*\<^sup>* t u \<Longrightarrow> r u (SOME v. r u v)" by (meson someI_ex)
  define f where "f = rec_nat t (\<lambda>_ u. SOME v. r u v)"
  have f: "f 0 = t" "f (Suc i) = (SOME v. r (f i) v)" for i by (simp_all add: f_def)
  have "r\<^sup>*\<^sup>* t (f i)" for i by (induction i) (auto simp: f intro: rtranclp.rtrancl_into_rtrancl nxt)
  then have "\<forall>i. r (f i) (f (Suc i))" using nxt f by simp
  then show False using assms f(1) by blast
qed

section \<open>The invariant along a run\<close>

definition on_time :: "Line \<Rightarrow> Taps \<Rightarrow> bool" where
  "on_time l t \<longleftrightarrow> (\<exists>k i. good l k i t) \<and> \<not> seeking (VN t)"

lemma vn_past_seek:
  assumes st: "vn_step t = Inr (Some t')" and ns: "\<not> seeking (VN t)"
  shows "\<not> seeking (VN t')"
proof (cases "vn_pc (VN t)")
  case VnNumber
  then obtain flag c F where r: "sys_Read1 (vn_fileOut (VN t)) (taps_fs t) = Inr (flag, c, F)"
    using st by (cases "sys_Read1 (vn_fileOut (VN t)) (taps_fs t)") (auto simp: vn_step_def vn_number_def Let_def)
  show ?thesis using st VnNumber r
    by (cases "flag = -1"; cases "flag = -2 \<or> flag = 0"; cases "is_dig (the c)"; cases "push_digit (vn_V (VN t)) (vn_c (VN t)) = 0")
       (auto simp: vn_step_def vn_number_def seeking_def Let_def)
next
  case VnPour
  then show ?thesis using st by (auto simp: vn_step_def seeking_def Let_def bindR_eq_Inr case_prod_beta if_distrib[where f = vn_pc] split: if_splits)
next
  case VnWait
  then show ?thesis using st by (auto simp: vn_step_def seeking_def split: if_splits)
qed (use st ns in \<open>auto simp: vn_step_def seeking_def Let_def bindR_eq_Inr split: if_splits\<close>)

lemma good_sv_step:
  assumes "line_ok l" and g: "good l k i t" and st: "sv_step t = Inr (Some t')"
  shows "taps_left l t' < taps_left l t" "(\<exists>k. good l k i t' \<and> VN t' = VN t) \<or> sv_pc (SV t) = SvWrite \<and> seeking (VN t) \<and> lost l t'"
proof -
  have "taps_files l t" "sv_at l (taps_fs t) (SV t) k" using g by (auto simp: good_def)
  with sv_local[OF assms(1)] st have m: "sv_moves l k t t'" by fastforce
  show two: "(\<exists>k. good l k i t' \<and> VN t' = VN t) \<or> sv_pc (SV t) = SvWrite \<and> seeking (VN t) \<and> lost l t'"
    using good_sv[OF g m] good_lost[OF g st m] m by (auto simp: sv_moves_def Let_def)
  then show "taps_left l t' < taps_left l t" using sv_moves_left[OF m] good_bound lost_bound[OF assms(1)] by blast
qed

lemma good_vn_step:
  assumes "line_ok l" and g: "good l k i t" and st: "vn_step t = Inr (Some t')"
  shows "taps_left l t' < taps_left l t" "\<exists>i. good l k i t'"
proof -
  obtain new i' where "vn_moves l new t t'" "good l k i' t'" using good_vn[OF assms(1) g] st by auto
  then show "taps_left l t' < taps_left l t" "\<exists>i. good l k i t'" using vn_moves_left good_bound by blast+
qed

lemma on_time_step:
  assumes "line_ok l" and "on_time l t" and "taps_step t t'"
  shows "on_time l t' \<and> taps_left l t' < taps_left l t"
proof -
  obtain k i where g: "good l k i t" and ns: "\<not> seeking (VN t)" using assms(2) by (auto simp: on_time_def)
  from assms(3) show ?thesis
  proof cases
    case sinhvien
    then show ?thesis using good_sv_step[OF assms(1) g] ns by (metis on_time_def)
  next
    case voinuoc
    then show ?thesis using good_vn_step[OF assms(1) g] vn_past_seek[OF _ ns] by (auto simp: on_time_def)
  qed
qed

lemma lost_step:
  assumes "line_ok l" and "lost l t" and "taps_step t t'"
  shows "lost l t' \<and> taps_left l t' < taps_left l t"
  using assms(3)
proof cases
  case sinhvien
  then show ?thesis using lost_sv[OF assms(1,2)] sv_moves_left lost_bound[OF assms(1)] by fastforce
next
  case voinuoc
  then show ?thesis using lost_vn[OF assms(1,2)] vn_moves_left lost_bound[OF assms(1)] by fastforce
qed

text \<open>Every state of a run from the start is of one of the cases.\<close>

definition taps_ready :: "Line \<Rightarrow> StubFS \<Rightarrow> bool" where
  "taps_ready l F \<longleftrightarrow> wf_files F \<and> names (host F) sinhvien_txt = Some (in_ino l) \<and> names (host F) output_txt = Some (out_ino l)
     \<and> fcontent F (in_ino l) = join_tokens (vols l) \<and> fcontent F (out_ino l) = before l \<and> free_slots F = 3 + spare l \<and> 3 + fd_spare l \<le> free_fds F
     \<and> (\<forall>j \<in> dom (held l). ufile F j = held l j) \<and> (\<forall>n. n \<noteq> out_ino l \<longrightarrow> fcontent F n = disk l n) \<and> names (host F) = dir l"

lemma good_start: "line_ok l \<Longrightarrow> taps_ready l F \<Longrightarrow> good l 0 0 (taps_start p q F)"
  by (auto simp: good_def taps_ready_def taps_start_def taps_files_def sv_at_def vn_at_def sv_opens_def vn_opens_def sv_slots_def vn_slots_def
      seeking_def vn_waits_def sv_signals_def sv_waits_def vn_signals_def answered_def newline_written_def Let_def)

lemma taps_cases:
  assumes "line_ok l" and "taps_ready l F" and "taps_step\<^sup>*\<^sup>* (taps_start p q F) t"
  shows "(\<exists>k i. good l k i t) \<or> lost l t"
proof (rule run_keeps[where r = taps_step and t = "taps_start p q F" and P = "\<lambda>t. (\<exists>k i. good l k i t) \<or> lost l t"])
  show "(\<exists>k i. good l k i t') \<or> lost l t'" if "(\<exists>k i. good l k i t) \<or> lost l t" "taps_step t t'" for t t'
    using that good_sv_step(2)[OF assms(1)] good_vn_step(2)[OF assms(1)] lost_step[OF assms(1)] by (metis taps_step_iff)
qed (use good_start[OF assms(1,2)] assms(3) in auto)

lemma taps_out_eq: "taps_files l t \<Longrightarrow> taps_out t = outb l (taps_fs t)"
  by (auto simp: taps_out_def taps_files_def)

lemma container_not_nil: "container t \<Longrightarrow> t \<noteq> []"
  by (auto simp: container_def dec_def)

lemma no_step: "(\<nexists>u. taps_step t u) \<Longrightarrow> (\<And>f. sv_step t \<noteq> Inl f) \<Longrightarrow> (\<And>f. vn_step t \<noteq> Inl f) \<Longrightarrow> sv_step t = Inr None \<and> vn_step t = Inr None"
  by (metis old.sum.exhaust not_None_eq taps_step.intros)

section \<open>Who comes first\<close>

text \<open>\<open>voinuoc\<close> alone comes to its loop without changing the file; \<open>sinhvien\<close> alone comes to write its first volume.\<close>

lemma voinuoc_first:
  assumes "line_ok l" and "good l 0 0 t" and "seeking (VN t)"
  shows "\<exists>u. taps_step\<^sup>*\<^sup>* t u \<and> SV u = SV t \<and> on_time l u \<and> outb l (taps_fs u) = before l"
  using assms(2,3)
proof (induction "taps_left l t" arbitrary: t rule: less_induct)
  case less
  have ne: "vn_step t \<noteq> Inr None" using less.prems(2) good_vn[OF assms(1) less.prems(1)] by (auto simp: seeking_def)
  then obtain t' i new where t': "vn_step t = Inr (Some t')" "vn_moves l new t t'" "good l 0 i t'" using good_vn[OF assms(1) less.prems(1)] by blast
  have i: "i = 0" using t'(3) by (simp add: good_def)
  have sv: "SV t' = SV t" using t'(2) by (simp add: vn_moves_def)
  have st: "taps_step t t'" using t'(1) by (rule taps_step.voinuoc)
  show ?case
  proof (cases "seeking (VN t')")
    case True
    then obtain u where "taps_step\<^sup>*\<^sup>* t' u" "SV u = SV t'" "on_time l u" "outb l (taps_fs u) = before l"
      using less.hyps[of t'] good_vn_step(1)[OF assms(1) less.prems(1) t'(1)] t'(3) i by blast
    then show ?thesis using st sv by (metis converse_rtranclp_into_rtranclp)
  next
    case False
    have "outb l (taps_fs t') = before l @ (if newline_written (VN t') then [10] else [])" using t'(3) i by (simp add: good_def answered_def)
    moreover have "vols l \<noteq> []" using assms(1) by (simp add: line_ok_def)
    then have "\<not> newline_written (VN t')" using t'(3) i by (auto simp: good_def vn_at_def newline_written_def Let_def split: vn_pc.splits)
    ultimately show ?thesis using False t'(3) st sv by (intro exI[of _ t']) (auto simp: on_time_def)
  qed
qed

lemma sinhvien_first:
  assumes "line_ok l" and "good l 0 0 t" and "seeking (VN t)"
  shows "\<exists>u. taps_step\<^sup>*\<^sup>* t u \<and> VN u = VN t \<and> lost l u"
  using assms(2,3)
proof (induction "taps_left l t" arbitrary: t rule: less_induct)
  case less
  have at: "taps_files l t" "sv_at l (taps_fs t) (SV t) 0" using less.prems(1) by (auto simp: good_def)
  have "\<not> (sv_pc (SV t) = SvWait \<and> sem_voinuoc t = 0)"
    using less.prems by (auto simp: good_def sv_waits_def vn_signals_def seeking_def)
  moreover have "sv_pc (SV t) \<noteq> SvEnd 0" using at(2) assms(1) by (auto simp: sv_at_def line_ok_def Let_def)
  ultimately obtain t' where st: "sv_step t = Inr (Some t')" and m: "sv_moves l 0 t t'" using sv_local[OF assms(1) at] by blast
  have step: "taps_step t t'" using st by (rule taps_step.sinhvien)
  have vn: "VN t' = VN t" using m by (simp add: sv_moves_def Let_def)
  show ?case
  proof (cases "sv_pc (SV t) = SvWrite")
    case True
    then show ?thesis using good_lost[OF less.prems(1) st m True less.prems(2)] step vn by blast
  next
    case False
    then have "good l 0 0 t'" using good_sv[OF less.prems(1) m] by simp
    then obtain u where "taps_step\<^sup>*\<^sup>* t' u" "VN u = VN t'" "lost l u"
      using less.hyps[of t'] good_sv_step(1)[OF assms(1) less.prems(1) st] less.prems(2) vn by auto
    then show ?thesis using step vn by (metis converse_rtranclp_into_rtranclp)
  qed
qed

lemma good_no_fault:
  assumes "line_ok l" and "good l k i t"
  shows "sv_step t \<noteq> Inl f" "vn_step t \<noteq> Inl f"
  using sv_local[OF assms(1), of t k] good_vn[OF assms] assms(2) by (auto simp: good_def)

lemma lost_no_fault:
  assumes "line_ok l" and "lost l t"
  shows "sv_step t \<noteq> Inl f" "vn_step t \<noteq> Inl f"
  using lost_sv[OF assms] lost_vn[OF assms] by auto

section \<open>How runs end\<close>

lemma on_time_reached:
  assumes "line_ok l" and "taps_ready l F" and "taps_step\<^sup>*\<^sup>* (taps_start p q F) t0" and "\<not> seeking (VN t0)" and "taps_out t0 = before l"
  shows "on_time l t0"
proof -
  have "\<not> lost l t0" using assms(5) taps_out_eq[of l t0] by (auto simp: lost_def)
  then show ?thesis using taps_cases[OF assms(1-3)] assms(4) by (simp add: on_time_def)
qed

lemma on_time_keeps: "line_ok l \<Longrightarrow> on_time l t0 \<Longrightarrow> taps_step\<^sup>*\<^sup>* t0 t \<Longrightarrow> on_time l t"
  by (rule run_keeps[where r = taps_step and P = "on_time l"]) (use on_time_step in blast)+

lemma on_time_end:
  assumes ok: "line_ok l" and ot: "on_time l t" and last: "\<nexists>u. taps_step t u"
  shows "sv_pc (SV t) = SvEnd 0 \<and> vn_pc (VN t) = VnEnd 0 \<and> taps_out t = before l @ taps_line (vols l)
    \<and> sem_sinhvien t = 0 \<and> sem_voinuoc t = 1 \<and> sem_main t = 1"
proof -
  obtain k i where g: "good l k i t" using ot by (auto simp: on_time_def)
  have "sv_step t = Inr None \<and> vn_step t = Inr None" by (rule no_step[OF last]) (use good_no_fault[OF ok g] in auto)
  then have ends: "sv_pc (SV t) = SvEnd 0" "vn_pc (VN t) = VnEnd 0" using good_stuck[OF ok g] by auto
  have "taps_out t = outb l (taps_fs t)" using g taps_out_eq by (auto simp: good_def)
  then show ?thesis using g ends ok pours_line[of "vols l"]
    by (auto simp: good_def sv_at_def vn_at_def Let_def newline_written_def answered_def line_ok_def sv_signals_def vn_waits_def sv_waits_def vn_signals_def)
qed

text \<open>
  C13. The tap application is right when \<open>voinuoc\<close> is ready in time. Take a line of volumes, output.txt with any
  contents and both processes just started, and a state of any run in which \<open>voinuoc\<close> has found the end of
  output.txt while nothing is written yet. From there, however the two processes are interleaved: the kernel
  does not fault, no run is infinite, and where no process can go on both have exited with 0, output.txt has
  got exactly one more line, each volume followed by the tap that is free first in the reference queue, and
  the semaphores are ready for the next line.
\<close>

theorem taps_on_time:
  assumes ok: "line_ok l" and rdy: "taps_ready l F" and r0: "taps_step\<^sup>*\<^sup>* (taps_start p q F) t0"
    and ns: "\<not> seeking (VN t0)" and o: "taps_out t0 = before l"
  shows "(\<forall>t f. taps_step\<^sup>*\<^sup>* t0 t \<longrightarrow> sv_step t \<noteq> Inl f \<and> vn_step t \<noteq> Inl f)
    \<and> \<not> (\<exists>f. f 0 = t0 \<and> (\<forall>i. taps_step (f i) (f (Suc i))))
    \<and> (\<forall>t. taps_step\<^sup>*\<^sup>* t0 t \<longrightarrow> (\<nexists>u. taps_step t u) \<longrightarrow>
         sv_pc (SV t) = SvEnd 0 \<and> vn_pc (VN t) = VnEnd 0 \<and> taps_out t = before l @ taps_line (vols l)
         \<and> sem_sinhvien t = 0 \<and> sem_voinuoc t = 1 \<and> sem_main t = 1)"
proof -
  have ot: "on_time l t0" by (rule on_time_reached[OF ok rdy r0 ns o])
  note keep = on_time_keeps[OF ok ot]
  have nf: "sv_step t \<noteq> Inl f \<and> vn_step t \<noteq> Inl f" if "taps_step\<^sup>*\<^sup>* t0 t" for t f
    using keep[OF that] good_no_fault[OF ok] by (auto simp: on_time_def)
  then show ?thesis using on_time_end[OF ok keep] run_finite[where r = taps_step and P = "on_time l", OF on_time_step[OF ok] ot] by blast
qed

definition demo_line :: Line where
  "demo_line = \<lparr>vols = [[51], [53]], before = [], in_ino = 1, out_ino = 0, spare = 10, fd_spare = 0, held = Map.empty,
     disk = (\<lambda>_. [])(1 := [51, 32, 53]), dir = [sinhvien_txt \<mapsto> 1, output_txt \<mapsto> 0]\<rparr>"

definition demo_taps_fs :: StubFS where
  "demo_taps_fs = \<lparr>host = \<lparr>names = [sinhvien_txt \<mapsto> 1, output_txt \<mapsto> 0], inodes = (\<lambda>_. [])(1 := [51, 32, 53]), next_inode = 2, fds = (\<lambda>_. None)\<rparr>,
     sf_heap = (\<lambda>_. None), sf_brk = 0, openf = replicate 15 None, index = 0\<rparr>"

definition demo_sv :: Sinhvien where
  "demo_sv = \<lparr>sv_pc = SvOpenIn, fileSinhVien = 0, sv_fileOut = 0, sv_V = [], sv_stop = False\<rparr>"

definition demo_vn :: Voinuoc where
  "demo_vn = \<lparr>vn_pc = VnOpen, vn_fileOut = 0, vn_V = 0, vn_c = 0, vn_v1 = 0, vn_v2 = 0\<rparr>"

lemma demo_line_ok: "line_ok demo_line"
  by (simp add: line_ok_def demo_line_def container_def dec_def is_dig_def)

lemma demo_taps_ready: "taps_ready demo_line demo_taps_fs"
  by (simp add: taps_ready_def demo_line_def demo_taps_fs_def wf_files_def fcontent_def free_slots_def free_fds_def
      sinhvien_txt_def output_txt_def cbytes_def filter_True)

lemma taps_on_time_witness:
  "\<exists>t0 t. taps_step\<^sup>*\<^sup>* (taps_start demo_sv demo_vn demo_taps_fs) t0 \<and> \<not> seeking (VN t0) \<and> taps_out t0 = []
    \<and> taps_step\<^sup>*\<^sup>* t0 t \<and> sv_pc (SV t) = SvEnd 0 \<and> vn_pc (VN t) = VnEnd 0
    \<and> taps_out t = [51, 32, 49, 32, 53, 32, 50, 32, 10]"
proof -
  note ok = demo_line_ok and rdy = demo_taps_ready
  obtain t0 where t0: "taps_step\<^sup>*\<^sup>* (taps_start demo_sv demo_vn demo_taps_fs) t0" "on_time demo_line t0" "outb demo_line (taps_fs t0) = []"
    using voinuoc_first[OF ok good_start[OF ok rdy], of demo_sv demo_vn] by (auto simp: taps_start_def seeking_def demo_line_def)
  then have o: "taps_out t0 = before demo_line" "\<not> seeking (VN t0)" using taps_out_eq[of demo_line t0] by (auto simp: on_time_def good_def demo_line_def)
  obtain t where t: "taps_step\<^sup>*\<^sup>* t0 t" "\<nexists>u. taps_step t u"
    using finite_run_ends[where r = taps_step] taps_on_time[OF ok rdy t0(1) o(2,1)] by blast
  have line: "taps_line (vols demo_line) = [51, 32, 49, 32, 53, 32, 50, 32, 10]" "before demo_line = []"
    by (simp_all add: taps_line_def demo_line_def dec_def answer_text_def)
  have "sv_pc (SV t) = SvEnd 0 \<and> vn_pc (VN t) = VnEnd 0 \<and> taps_out t = before demo_line @ taps_line (vols demo_line)"
    using taps_on_time[OF ok rdy t0(1) o(2,1)] t by blast
  then show ?thesis using t0(1) t(1) o line by auto
qed

text \<open>Where output.txt has changed while \<open>voinuoc\<close> still looks for its end, \<open>sinhvien\<close> has written first.\<close>

lemma lost_reached:
  assumes "line_ok l" and "taps_ready l F" and "taps_step\<^sup>*\<^sup>* (taps_start p q F) t0" and "seeking (VN t0)" and "taps_out t0 \<noteq> before l"
  shows "lost l t0"
proof -
  have "taps_out t0 = before l" if g: "good l k i t0" for k i
  proof -
    have "k = 0" "i = 0" "\<not> newline_written (VN t0)" using g assms(4) by (auto simp: good_def seeking_def newline_written_def)
    then show ?thesis using g taps_out_eq[of l t0] by (simp add: good_def answered_def)
  qed
  then show ?thesis using taps_cases[OF assms(1-3)] assms(5) by blast
qed

lemma lost_keeps: "line_ok l \<Longrightarrow> lost l t0 \<Longrightarrow> taps_step\<^sup>*\<^sup>* t0 t \<Longrightarrow> lost l t"
  by (rule run_keeps[where r = taps_step and P = "lost l"]) (use lost_step in blast)+

lemma lost_end:
  assumes ok: "line_ok l" and lo: "lost l t" and last: "\<nexists>u. taps_step t u"
  shows "sv_pc (SV t) = (if length (vols l) = 1 then SvEnd 0 else SvWait) \<and> sem_voinuoc t = 0 \<and> vn_pc (VN t) = VnEnd 0
    \<and> taps_out t = before l @ vols l ! 0 @ [32, 10]"
proof -
  have "sv_step t = Inr None \<and> vn_step t = Inr None" by (rule no_step[OF last]) (use lost_no_fault[OF ok lo] in auto)
  then have ends: "sv_pc (SV t) = (if length (vols l) = 1 then SvEnd 0 else SvWait)" "vn_pc (VN t) = VnEnd 0" using lost_stuck[OF ok lo] by auto
  have "taps_out t = outb l (taps_fs t)" using lo taps_out_eq by (auto simp: lost_def)
  then show ?thesis using lo ends by (auto simp: lost_def newline_written_def)
qed



end
