(* ===== verification/Nachos_TapsMain.thy ===== *)
theory Nachos_TapsMain
  imports Nachos_TapsRun
begin

text \<open>
  test/main.c, the process that reads input.txt and runs the pair of processes of \<^verbatim>\<open>Nachos_Taps\<close> once per line.
  \<open>main\<close> is sequential; while the two others run it waits in \<open>Join\<close>. A piece of it ends with \<open>Inl\<close> of an
  exit status or \<open>Inr\<close> of what it goes on with. The two loops that read a file have fuel; \<open>None\<close> means that it
  was not enough.
\<close>

section \<open>The program\<close>

type_synonym 'a main_res = "((int \<times> StubFS) + 'a) res"

text \<open>Lines 32 to 44, after the semaphores.\<close>

definition main_open :: "StubFS \<Rightarrow> (int \<times> StubFS) main_res" where
  "main_open F = bindR (sys_CreateFile output_txt F) (\<lambda>(flag, F).
     if flag = -1 then Inr (Inl (-1, F))
     else bindR (sys_Open input_txt 1 F) (\<lambda>(fileIn, F).
       if fileIn = -1 then Inr (Inl (-1, F)) else Inr (Inr (fileIn, F))))"

text \<open>The loop that reads \<open>N\<close>: \<open>c\<close> keeps its value when \<open>Read\<close> gives nothing.\<close>

fun main_N :: "nat \<Rightarrow> int \<Rightarrow> int \<Rightarrow> byte \<Rightarrow> StubFS \<Rightarrow> (int \<times> StubFS) main_res option" where
  "main_N 0 fileIn N c F = None"
| "main_N (Suc fuel) fileIn N c F = (let N = push_digit N c in
     case sys_Read1 fileIn F of
       Inl f \<Rightarrow> Some (Inl f)
     | Inr (flag, b, F) \<Rightarrow>
         if flag = -1 then Some (bindR (close_all [fileIn] F) (\<lambda>F. Inr (Inl (-1, F))))
         else (let c = (case b of Some b \<Rightarrow> b | None \<Rightarrow> c) in
           if is_dig c then main_N fuel fileIn N c F else Some (Inr (Inr (N, F)))))"

text \<open>The loop that copies one line to sinhvien.txt.\<close>

fun main_copy :: "nat \<Rightarrow> int \<Rightarrow> int \<Rightarrow> StubFS \<Rightarrow> StubFS main_res option" where
  "main_copy 0 fileIn fileSV F = None"
| "main_copy (Suc fuel) fileIn fileSV F = (case sys_Read1 fileIn F of
     Inl f \<Rightarrow> Some (Inl f)
   | Inr (flag, b, F) \<Rightarrow>
       if flag = 0 \<or> flag = -2 then Some (Inr (Inr F))
       else if flag = -1 then Some (bindR (close_all [fileIn, fileSV] F) (\<lambda>F. Inr (Inl (-1, F))))
       else if b = Some 10 then Some (Inr (Inr F))
       else (case sys_Write [the b] 1 fileSV F of
           Inl f \<Rightarrow> Some (Inl f)
         | Inr (r, F) \<Rightarrow> if r = -1 then Some (bindR (close_all [fileIn, fileSV] F) (\<lambda>F. Inr (Inl (-1, F))))
             else main_copy fuel fileIn fileSV F))"

text \<open>One round up to the calls of \<open>Exec\<close>; \<open>Wait("main")\<close>, before the copying, is the condition on \<open>m_main\<close> below.\<close>

definition main_prepare :: "nat \<Rightarrow> int \<Rightarrow> StubFS \<Rightarrow> StubFS main_res option" where
  "main_prepare fuel fileIn F = (case sys_CreateFile sinhvien_txt F of
     Inl f \<Rightarrow> Some (Inl f)
   | Inr (flag, F) \<Rightarrow>
     if flag = -1 then Some (bindR (close_all [fileIn] F) (\<lambda>F. Inr (Inl (-1, F))))
     else (case sys_Open sinhvien_txt 0 F of
       Inl f \<Rightarrow> Some (Inl f)
     | Inr (fileSV, F) \<Rightarrow>
       if fileSV = -1 then Some (bindR (close_all [fileIn] F) (\<lambda>F. Inr (Inl (-1, F))))
       else (case main_copy fuel fileIn fileSV F of
         Some (Inr (Inr F)) \<Rightarrow> Some (bindR (close_all [fileSV] F) (\<lambda>F. Inr (Inr F)))
       | r \<Rightarrow> r)))"

text \<open>The files and the three semaphores between two rounds.\<close>

record Main =
  m_fs :: StubFS
  m_sinhvien :: nat
  m_voinuoc :: nat
  m_main :: nat

text \<open>Both children just started, with the semaphores as they are.\<close>

definition main_exec :: "Sinhvien \<Rightarrow> Voinuoc \<Rightarrow> StubFS \<Rightarrow> Main \<Rightarrow> Taps" where
  "main_exec p q F M = (taps_start p q F)\<lparr>sem_sinhvien := m_sinhvien M, sem_voinuoc := m_voinuoc M, sem_main := m_main M - 1\<rparr>"

definition main_joined :: "Taps \<Rightarrow> Main" where
  "main_joined t = \<lparr>m_fs = taps_fs t, m_sinhvien = sem_sinhvien t, m_voinuoc = sem_voinuoc t, m_main = sem_main t\<rparr>"

text \<open>The loop \<open>while (N--)\<close>: the end, a round that exits, a round with both children run to their end, and the three
  exits where \<open>Exec\<close> or \<open>Join\<close> answers -1, with the children that run at that time anywhere in their code.\<close>

inductive main_loop :: "int \<Rightarrow> nat \<Rightarrow> Main \<Rightarrow> int \<Rightarrow> Main \<Rightarrow> bool" for fileIn where
  finish: "close_all [fileIn] (m_fs M) = Inr F \<Longrightarrow> main_loop fileIn 0 M 0 (M\<lparr>m_fs := F\<rparr>)"
| failed: "main_prepare fuel fileIn (m_fs M) = Some (Inr (Inl (status, F))) \<Longrightarrow> main_loop fileIn (Suc n) M status (M\<lparr>m_fs := F\<rparr>)"
| round: "main_prepare fuel fileIn (m_fs M) = Some (Inr (Inr F)) \<Longrightarrow> 0 < m_main M \<Longrightarrow>
    taps_step\<^sup>*\<^sup>* (main_exec p q F M) t \<Longrightarrow> taps_done t \<Longrightarrow> main_loop fileIn n (main_joined t) status M' \<Longrightarrow> main_loop fileIn (Suc n) M status M'"
| no_sinhvien: "main_prepare fuel fileIn (m_fs M) = Some (Inr (Inr F)) \<Longrightarrow> 0 < m_main M \<Longrightarrow> close_all [fileIn] F = Inr G \<Longrightarrow>
    main_loop fileIn (Suc n) M 1 (M\<lparr>m_fs := G, m_main := m_main M - 1\<rparr>)"
| no_voinuoc: "main_prepare fuel fileIn (m_fs M) = Some (Inr (Inr F)) \<Longrightarrow> 0 < m_main M \<Longrightarrow>
    (\<lambda>t t'. sv_step t = Inr (Some t'))\<^sup>*\<^sup>* (main_exec p q F M) t \<Longrightarrow> close_all [fileIn] (taps_fs t) = Inr G \<Longrightarrow>
    main_loop fileIn (Suc n) M 1 ((main_joined t)\<lparr>m_fs := G\<rparr>)"
| no_join: "main_prepare fuel fileIn (m_fs M) = Some (Inr (Inr F)) \<Longrightarrow> 0 < m_main M \<Longrightarrow>
    taps_step\<^sup>*\<^sup>* (main_exec p q F M) t \<Longrightarrow> close_all [fileIn] (taps_fs t) = Inr G \<Longrightarrow>
    main_loop fileIn (Suc n) M (-1) ((main_joined t)\<lparr>m_fs := G\<rparr>)"

section \<open>Reading the number of lines\<close>

lemma same_table_trans: "same_table F G \<Longrightarrow> same_table G H \<Longrightarrow> same_table F H"
  by (simp add: same_table_def)

lemma same_table_refl: "wf_files F \<Longrightarrow> same_table F F"
  by (simp add: same_table_def)

text \<open>The next byte of an open file, and the rest.\<close>

lemma sys_Read1_rest:
  assumes "wf_files F" and "ufile F i = Some (ino, p, ty)" and "ty = 0 \<or> ty = 1" and "drop p (fcontent F ino) = bs"
  shows "\<exists>G. sys_Read1 i F = Inr (case bs of [] \<Rightarrow> (-2, None, G) | b # _ \<Rightarrow> (1, Some b, G)) \<and> same_table F G \<and> fcontent G = fcontent F
    \<and> (\<exists>p'. ufile G = (ufile F)(i \<mapsto> (ino, p', ty)) \<and> drop p' (fcontent F ino) = tl bs)"
proof -
  have c: "bs = (if p < length (fcontent F ino) then fcontent F ino ! p # drop (Suc p) (fcontent F ino) else [])"
    using assms(4) by (auto simp: Cons_nth_drop_Suc)
  from sys_Read1_law[OF assms(1-3)] obtain G where "sys_Read1 i F = Inr (if p < length (fcontent F ino) then (1, Some (fcontent F ino ! p), G) else (-2, None, G))"
    "ufile G = (ufile F)(i \<mapsto> (ino, if p < length (fcontent F ino) then p + 1 else p, ty))" "fcontent G = fcontent F" "same_table F G" by blast
  then show ?thesis using c by (intro exI[of _ G]) (auto intro!: exI[of _ "if p < length (fcontent F ino) then p + 1 else p"])
qed

lemma main_N_digits:
  assumes "wf_files F" and "ufile F fi = Some (ino, p, 1)" and "drop p (fcontent F ino) = ds @ x # rest"
    and "\<forall>d \<in> set ds. is_dig d" and "\<not> is_dig x" and "length ds < fuel"
    and "push_digit N c = V" and "0 \<le> V" and "V < 10 ^ k" and "k + length ds \<le> 9"
  shows "\<exists>G. main_N fuel fi N c F = Some (Inr (Inr (foldl (\<lambda>v d. v * 10 + (uint d - 48)) V ds, G)))
    \<and> same_table F G \<and> fcontent G = fcontent F \<and> (\<exists>q. ufile G = (ufile F)(fi \<mapsto> (ino, q, 1)) \<and> drop q (fcontent F ino) = rest)"
  using assms
proof (induction ds arbitrary: fuel F p N c V k)
  case Nil
  then obtain n where f: "fuel = Suc n" by (cases fuel) auto
  from sys_Read1_rest[OF Nil(1,2) _ Nil(3)] obtain G q where "sys_Read1 fi F = Inr (1, Some x, G)" "same_table F G" "fcontent G = fcontent F"
    "ufile G = (ufile F)(fi \<mapsto> (ino, q, 1))" "drop q (fcontent F ino) = rest" by auto
  then show ?case using Nil f by (intro exI[of _ G] conjI exI[of _ q]) auto
next
  case (Cons d ds)
  then obtain n where f: "fuel = Suc n" "length ds < n" by (cases fuel) auto
  have d: "is_dig d" "\<forall>d \<in> set ds. is_dig d" using Cons.prems(4) by auto
  have "drop p (fcontent F ino) = d # ds @ x # rest" using Cons.prems(3) by simp
  from sys_Read1_rest[OF Cons.prems(1,2) _ this] obtain G q where r: "sys_Read1 fi F = Inr (1, Some d, G)" and s: "same_table F G" "fcontent G = fcontent F"
    "ufile G = (ufile F)(fi \<mapsto> (ino, q, 1))" "drop q (fcontent F ino) = ds @ x # rest" by auto
  have "(10::int) ^ k \<le> 10 ^ 8" using Cons.prems(10) by (intro power_increasing) auto
  then have pd: "push_digit V d = V * 10 + (uint d - 48)" using push_digit_num[OF Cons.prems(8) _ d(1)] Cons.prems(9) by simp
  have b: "0 \<le> V * 10 + (uint d - 48)" "V * 10 + (uint d - 48) < 10 ^ Suc k" using is_dig_range[OF d(1)] Cons.prems(8,9) by auto
  have "Suc k + length ds \<le> 9" "wf_files G" "ufile G fi = Some (ino, q, 1)" "drop q (fcontent G ino) = ds @ x # rest"
    using Cons.prems(10) s by (auto simp: same_table_def)
  from Cons.IH[OF this(2-4) d(2) Cons.prems(5) f(2) pd b this(1)] obtain H q' where
    H: "main_N n fi V d G = Some (Inr (Inr (foldl (\<lambda>v d. v * 10 + (uint d - 48)) (V * 10 + (uint d - 48)) ds, H)))"
      "same_table G H" "fcontent H = fcontent G" "ufile H = (ufile G)(fi \<mapsto> (ino, q', 1))" "drop q' (fcontent G ino) = rest" by blast
  then show ?case using r f(1) d(1) Cons.prems(7) s same_table_trans[OF s(1) H(2)] by (intro exI[of _ H] conjI exI[of _ q']) auto
qed

text \<open>
  \<open>main\<close> reads the number on the first line: if input.txt starts with at most nine digits and a character that
  is not one, the loop ends and gives their value. If it has only digits (or nothing), \<open>Read\<close> leaves the last
  digit in \<open>c\<close> at the end of the file and the loop never ends, whatever the fuel.
\<close>

theorem main_N_value:
  assumes "wf_files F" and "ufile F fi = Some (ino, 0, 1)" and "fcontent F ino = ds @ x # rest"
    and "\<forall>d \<in> set ds. is_dig d" and "\<not> is_dig x" and "length ds \<le> 9" and "length ds < fuel"
  shows "\<exists>G. main_N fuel fi 0 48 F = Some (Inr (Inr (dec ds, G)))
    \<and> (\<exists>q. ufile G = (ufile F)(fi \<mapsto> (ino, q, 1)) \<and> drop q (fcontent G ino) = rest)"
  using main_N_digits[OF assms(1,2) _ assms(4,5,7), of rest 0 48 0 0] assms(3,6) by (auto simp: push_digit_def dec_def)

lemma main_N_hangs:
  assumes "wf_files F" and "ufile F fi = Some (ino, p, 1)" and "\<forall>d \<in> set (drop p (fcontent F ino)). is_dig d" and "is_dig c"
  shows "main_N fuel fi N c F = None"
  using assms
proof (induction fuel arbitrary: F p N c)
  case (Suc fuel)
  from sys_Read1_rest[OF Suc.prems(1,2) _ refl] obtain G q where
    r: "sys_Read1 fi F = Inr (case drop p (fcontent F ino) of [] \<Rightarrow> (-2, None, G) | b # _ \<Rightarrow> (1, Some b, G))"
    and s: "same_table F G" "fcontent G = fcontent F" "ufile G = (ufile F)(fi \<mapsto> (ino, q, 1))" "drop q (fcontent F ino) = tl (drop p (fcontent F ino))" by auto
  have "set (tl (drop p (fcontent F ino))) \<subseteq> set (drop p (fcontent F ino))" by (cases "drop p (fcontent F ino)") auto
  then have G: "wf_files G" "ufile G fi = Some (ino, q, 1)" "\<forall>d \<in> set (drop q (fcontent G ino)). is_dig d"
    using s Suc.prems(3) by (auto simp: same_table_def)
  show ?case
  proof (cases "drop p (fcontent F ino)")
    case Nil
    then show ?thesis using r Suc.IH[OF G] Suc.prems(4) by (simp add: Let_def)
  next
    case (Cons b bs)
    then have "is_dig b" using Suc.prems(3) by simp
    then show ?thesis using r Suc.IH[OF G] Cons by (simp add: Let_def)
  qed
qed simp

section \<open>Copying a line\<close>

text \<open>One byte that is not the end of the line.\<close>

lemma main_copy_byte:
  assumes "wf_files F" and "ufile F fi = Some (ino, p, 1)" and "drop p (fcontent F ino) = b # bs" and "b \<noteq> 10"
    and "ufile F fs = Some (sno, length (fcontent F sno), 0)" and "ino \<noteq> sno"
  shows "\<exists>H q. main_copy (Suc n) fi fs F = main_copy n fi fs H \<and> same_table F H \<and> fcontent H = (fcontent F)(sno := fcontent F sno @ [b])
    \<and> ufile H = (ufile F)(fi \<mapsto> (ino, q, 1), fs \<mapsto> (sno, length (fcontent F sno) + 1, 0)) \<and> drop q (fcontent F ino) = bs"
proof -
  have ne: "fi \<noteq> fs" using assms(2,5,6) by auto
  from sys_Read1_rest[OF assms(1,2) _ assms(3)] obtain G q where r: "sys_Read1 fi F = Inr (1, Some b, G)" and s: "same_table F G" "fcontent G = fcontent F"
    "ufile G = (ufile F)(fi \<mapsto> (ino, q, 1))" "drop q (fcontent F ino) = bs" by auto
  have uf: "ufile G fs = Some (sno, length (fcontent F sno), 0)" using s(3) assms(5) ne by simp
  have kc: "kernel_copy 1 [b] = [b]" by (simp add: kernel_copy_def)
  from sys_Write_law[OF _ uf, of 1 "[b]"] s kc obtain H where w: "sys_Write [b] 1 fs G = Inr (1, H)" "ufile H = (ufile G)(fs \<mapsto> (sno, length (fcontent F sno) + 1, 0))"
    "fcontent H = (fcontent F)(sno := fcontent F sno @ [b])" "same_table G H" by (auto simp: same_table_def splice_end)
  have "same_table F H" using s(1) w(4) by (rule same_table_trans)
  then show ?thesis using r s w assms(4) by (intro exI[of _ H] exI[of _ q]) auto
qed

lemma main_copy_line:
  assumes "wf_files F" and "ufile F fi = Some (ino, p, 1)" and "drop p (fcontent F ino) = bs"
    and "ufile F fs = Some (sno, length (fcontent F sno), 0)" and "ino \<noteq> sno" and "main_copy fuel fi fs F = Some r"
  shows "\<exists>G q. r = Inr (Inr G) \<and> same_table F G \<and> fcontent G = (fcontent F)(sno := fcontent F sno @ takeWhile (\<lambda>b. b \<noteq> 10) bs)
    \<and> ufile G = (ufile F)(fi \<mapsto> (ino, q, 1), fs \<mapsto> (sno, length (fcontent F sno @ takeWhile (\<lambda>b. b \<noteq> 10) bs), 0))
    \<and> drop q (fcontent F ino) = tl (dropWhile (\<lambda>b. b \<noteq> 10) bs)"
  using assms
proof (induction bs arbitrary: fuel F p)
  case Nil
  then obtain n where f: "fuel = Suc n" by (cases fuel) auto
  have ne: "fi \<noteq> fs" using Nil by auto
  from sys_Read1_rest[OF Nil(1,2) _ Nil(3)] obtain G q where "sys_Read1 fi F = Inr (-2, None, G)" "same_table F G" "fcontent G = fcontent F"
    "ufile G = (ufile F)(fi \<mapsto> (ino, q, 1))" "drop q (fcontent F ino) = []" by auto
  then show ?case using Nil f ne by (intro exI[of _ G] exI[of _ q]) (auto simp: fun_eq_iff)
next
  case (Cons b bs)
  then obtain n where f: "fuel = Suc n" by (cases fuel) auto
  have ne: "fi \<noteq> fs" using Cons.prems(2,4,5) by auto
  show ?case
  proof (cases "b = 10")
    case True
    from sys_Read1_rest[OF Cons.prems(1,2) _ Cons.prems(3)] obtain G q where "sys_Read1 fi F = Inr (1, Some b, G)" "same_table F G" "fcontent G = fcontent F"
      "ufile G = (ufile F)(fi \<mapsto> (ino, q, 1))" "drop q (fcontent F ino) = bs" by auto
    then show ?thesis using Cons.prems f True ne by (intro exI[of _ G] exI[of _ q]) (auto simp: fun_eq_iff)
  next
    case False
    from main_copy_byte[OF Cons.prems(1-3) False Cons.prems(4,5)] obtain H q where h: "main_copy (Suc n) fi fs F = main_copy n fi fs H" "same_table F H"
      "fcontent H = (fcontent F)(sno := fcontent F sno @ [b])" "ufile H = (ufile F)(fi \<mapsto> (ino, q, 1), fs \<mapsto> (sno, length (fcontent F sno) + 1, 0))"
      "drop q (fcontent F ino) = bs" by blast
    have "wf_files H" "ufile H fi = Some (ino, q, 1)" "drop q (fcontent H ino) = bs" "ufile H fs = Some (sno, length (fcontent H sno), 0)"
      "main_copy n fi fs H = Some r" using h ne f Cons.prems(5,6) by (auto simp: same_table_def)
    with Cons.IH Cons.prems(5) obtain K q' where K: "r = Inr (Inr K)" "same_table H K" "fcontent K = (fcontent H)(sno := fcontent H sno @ takeWhile (\<lambda>b. b \<noteq> 10) bs)"
      "ufile K = (ufile H)(fi \<mapsto> (ino, q', 1), fs \<mapsto> (sno, length (fcontent H sno @ takeWhile (\<lambda>b. b \<noteq> 10) bs), 0))"
      "drop q' (fcontent H ino) = tl (dropWhile (\<lambda>b. b \<noteq> 10) bs)" by blast
    have "same_table F K" using h(2) K(2) by (rule same_table_trans)
    then show ?thesis using K h ne False Cons.prems(5) by (intro exI[of _ K] exI[of _ q']) (auto simp: fun_eq_iff)
  qed
qed

lemma main_copy_ends:
  assumes "wf_files F" and "ufile F fi = Some (ino, p, 1)" and "drop p (fcontent F ino) = bs"
    and "ufile F fs = Some (sno, length (fcontent F sno), 0)" and "ino \<noteq> sno" and "length bs < fuel"
  shows "main_copy fuel fi fs F \<noteq> None"
  using assms
proof (induction bs arbitrary: fuel F p)
  case Nil
  then obtain n where f: "fuel = Suc n" by (cases fuel) auto
  from sys_Read1_rest[OF Nil(1,2) _ Nil(3)] show ?case using f by auto
next
  case (Cons b bs)
  then obtain n where f: "fuel = Suc n" "length bs < n" by (cases fuel) auto
  have ne: "fi \<noteq> fs" using Cons.prems(2,4,5) by auto
  show ?case
  proof (cases "b = 10")
    case True
    from sys_Read1_rest[OF Cons.prems(1,2) _ Cons.prems(3)] show ?thesis using f True by auto
  next
    case False
    from main_copy_byte[OF Cons.prems(1-3) False Cons.prems(4,5)] obtain H q where h: "main_copy (Suc n) fi fs F = main_copy n fi fs H" "same_table F H"
      "fcontent H = (fcontent F)(sno := fcontent F sno @ [b])" "ufile H = (ufile F)(fi \<mapsto> (ino, q, 1), fs \<mapsto> (sno, length (fcontent F sno) + 1, 0))"
      "drop q (fcontent F ino) = bs" by blast
    show ?thesis using Cons.IH[of H q n] h ne Cons.prems(5) f by (auto simp: same_table_def)
  qed
qed

section \<open>Preparing a round\<close>

lemma main_prepare_line:
  assumes wf: "wf_files F" and nm: "names (host F) sinhvien_txt = Some sno" and fi: "ufile F fi = Some (ino, p, 1)" and ne: "ino \<noteq> sno"
    and bs: "drop p (fcontent F ino) = bs" and room: "0 < free_slots F" "0 < free_fds F"
    and fu: "main_prepare fuel fi F = Some r \<or> length bs < fuel"
  shows "main_prepare fuel fi F \<noteq> None" "main_prepare fuel fi F = Some r \<Longrightarrow> \<exists>G q. r = Inr (Inr G) \<and> wf_files G \<and> names (host G) = names (host F) \<and> fcontent G = (fcontent F)(sno := takeWhile (\<lambda>b. b \<noteq> 10) bs)
    \<and> ufile G = (ufile F)(fi \<mapsto> (ino, q, 1)) \<and> drop q (fcontent F ino) = tl (dropWhile (\<lambda>b. b \<noteq> 10) bs)
    \<and> free_slots G = free_slots F - 1 \<and> free_fds F - 1 \<le> free_fds G"
proof -
  obtain A where A: "sys_CreateFile sinhvien_txt F = Inr (0, A)" "fcontent A = (fcontent F)(sno := [])" "ufile A = ufile F" "same_table F A"
    using sys_CreateFile_law[OF wf nm room(2)] by blast
  have "wf_files A" "names (host A) sinhvien_txt = Some sno" "0 < free_slots A" "0 < free_fds A" using same_tableD[OF A(4)] nm room by auto
  then obtain fs B where B: "sys_Open sinhvien_txt 0 A = Inr (fs, B)" "ufile A fs = None" "ufile B = (ufile A)(fs \<mapsto> (sno, 0, 0))" "2 \<le> fs"
    "fcontent B = fcontent A" "names (host B) = names (host A)" "wf_files B" "free_slots B = free_slots A - 1" "free_fds B = free_fds A - 1"
    using sys_Open_law[of A sinhvien_txt sno 0] by auto
  have fne: "fi \<noteq> fs" using B(2) A(3) fi by auto
  have pre: "ufile B fi = Some (ino, p, 1)" "drop p (fcontent B ino) = bs" "ufile B fs = Some (sno, length (fcontent B sno), 0)"
    using A B fi bs fne ne by auto
  have m: "main_prepare fuel fi F = (case main_copy fuel fi fs B of Some (Inr (Inr F)) \<Rightarrow> Some (bindR (close_all [fs] F) (\<lambda>F. Inr (Inr F))) | r \<Rightarrow> r)"
    using A(1) B(1,4) by (simp add: main_prepare_def)
  obtain rc where rc: "main_copy fuel fi fs B = Some rc" using fu m main_copy_ends[OF B(7) pre ne, of fuel] by (cases "main_copy fuel fi fs B") auto
  from main_copy_line[OF B(7) pre ne rc] obtain C q where C: "rc = Inr (Inr C)" "same_table B C" "fcontent C = (fcontent B)(sno := fcontent B sno @ takeWhile (\<lambda>b. b \<noteq> 10) bs)"
    "ufile C = (ufile B)(fi \<mapsto> (ino, q, 1), fs \<mapsto> (sno, length (fcontent B sno @ takeWhile (\<lambda>b. b \<noteq> 10) bs), 0))"
    "drop q (fcontent B ino) = tl (dropWhile (\<lambda>b. b \<noteq> 10) bs)" by blast
  have "wf_files C" "\<exists>x y z. ufile C fs = Some (x, y, z)" using C same_tableD by auto
  then obtain D where D: "sys_Close fs C = Inr (0, D)" "ufile D = (ufile C)(fs := None)" "fcontent D = fcontent C" "wf_files D" "openf D = openf C"
    "names (host D) = names (host C)" "free_fds C \<le> free_fds D" using sys_Close_law by metis
  have md: "main_prepare fuel fi F = Some (Inr (Inr D))" using m rc C(1) D(1) by simp
  then show "main_prepare fuel fi F \<noteq> None" by simp
  assume "main_prepare fuel fi F = Some r"
  with md have "r = Inr (Inr D)" by simp
  moreover have "ufile D = (ufile F)(fi \<mapsto> (ino, q, 1))" using D(2) C(4) B(2,3) A(3) fne by (auto simp: fun_eq_iff)
  moreover have "free_slots D = free_slots F - 1" using D(5) same_tableD(3)[OF C(2)] B(8) same_tableD(3)[OF A(4)] by (simp add: free_slots_def)
  moreover have "free_fds F - 1 \<le> free_fds D" using D(7) same_tableD(4)[OF C(2)] B(9) same_tableD(4)[OF A(4)] by simp
  moreover have "names (host D) = names (host F)" using D(6) same_tableD(2)[OF C(2)] B(6) same_tableD(2)[OF A(4)] by simp
  moreover have "fcontent D = (fcontent F)(sno := takeWhile (\<lambda>b. b \<noteq> 10) bs)" using D(3) C(3) B(5) A(2) by simp
  moreover have "drop q (fcontent F ino) = tl (dropWhile (\<lambda>b. b \<noteq> 10) bs)" using C(5) B(5) A(2) ne by simp
  ultimately show "\<exists>G q. r = Inr (Inr G) \<and> wf_files G \<and> names (host G) = names (host F) \<and> fcontent G = (fcontent F)(sno := takeWhile (\<lambda>b. b \<noteq> 10) bs)
    \<and> ufile G = (ufile F)(fi \<mapsto> (ino, q, 1)) \<and> drop q (fcontent F ino) = tl (dropWhile (\<lambda>b. b \<noteq> 10) bs)
    \<and> free_slots G = free_slots F - 1 \<and> free_fds F - 1 \<le> free_fds G" using D(4) by (intro exI[of _ D] exI[of _ q]) auto
qed

text \<open>With a full table of open files, \<open>main\<close> gives up.\<close>

lemma main_prepare_full:
  assumes wf: "wf_files F" and nm: "names (host F) sinhvien_txt = Some sno" and fi: "ufile F fi = Some (ino, p, 1)"
    and full: "free_slots F = 0" and room: "0 < free_fds F"
  shows "\<exists>G. main_prepare fuel fi F = Some (Inr (Inl (-1, G))) \<and> fcontent G = (fcontent F)(sno := [])"
proof -
  obtain A where A: "sys_CreateFile sinhvien_txt F = Inr (0, A)" "fcontent A = (fcontent F)(sno := [])" "ufile A = ufile F" "same_table F A"
    using sys_CreateFile_law[OF wf nm room] by blast
  have o: "sys_Open sinhvien_txt 0 A = Inr (-1, A)" using sys_Open_full[of A] same_tableD(3)[OF A(4)] full by simp
  obtain B where "sys_Close fi A = Inr (0, B)" "fcontent B = fcontent A" using sys_Close_law[of A fi ino p 1] same_tableD(1)[OF A(4)] fi A(3) by auto
  then show ?thesis using A o by (simp add: main_prepare_def)
qed

section \<open>All lines\<close>

text \<open>The rest of input.txt.\<close>

fun rows_text :: "byte list list list \<Rightarrow> byte list" where
  "rows_text [] = []"
| "rows_text [row] = join_tokens row"
| "rows_text (row # rows) = join_tokens row @ 10 # rows_text rows"

lemma join_no_newline: "\<forall>t \<in> set ts. container t \<Longrightarrow> 10 \<notin> set (join_tokens ts)"
  by (induction ts rule: join_tokens.induct) (auto simp: container_def is_dig_def)

lemma rows_text_split:
  assumes "\<forall>t \<in> set row. container t"
  shows "takeWhile (\<lambda>b. b \<noteq> 10) (rows_text (row # rows)) = join_tokens row" "tl (dropWhile (\<lambda>b. b \<noteq> 10) (rows_text (row # rows))) = rows_text rows"
proof -
  have n: "b \<in> set (join_tokens row) \<Longrightarrow> b \<noteq> 10" for b using join_no_newline[OF assms] by auto
  have "rows_text (row # rows) = join_tokens row @ (if rows = [] then [] else 10 # rows_text rows)" by (cases rows) auto
  then show "takeWhile (\<lambda>b. b \<noteq> 10) (rows_text (row # rows)) = join_tokens row" "tl (dropWhile (\<lambda>b. b \<noteq> 10) (rows_text (row # rows))) = rows_text rows"
    by (simp_all only: takeWhile_append2[OF n] dropWhile_append2[OF n]) auto
qed

text \<open>The loop of \<open>main\<close> with rounds in which \<open>voinuoc\<close> is ready in time, each run to its end.\<close>

inductive main_timely :: "int \<Rightarrow> nat \<Rightarrow> Main \<Rightarrow> int \<Rightarrow> Main \<Rightarrow> bool" for fileIn where
  finish: "close_all [fileIn] (m_fs M) = Inr F \<Longrightarrow> main_timely fileIn 0 M 0 (M\<lparr>m_fs := F\<rparr>)"
| failed: "main_prepare fuel fileIn (m_fs M) = Some (Inr (Inl (status, F))) \<Longrightarrow> main_timely fileIn (Suc n) M status (M\<lparr>m_fs := F\<rparr>)"
| round: "main_prepare fuel fileIn (m_fs M) = Some (Inr (Inr F)) \<Longrightarrow> 0 < m_main M \<Longrightarrow>
    taps_step\<^sup>*\<^sup>* (main_exec p q F M) t0 \<Longrightarrow> \<not> seeking (VN t0) \<Longrightarrow> taps_out t0 = taps_out (main_exec p q F M) \<Longrightarrow>
    taps_step\<^sup>*\<^sup>* t0 t \<Longrightarrow> (\<nexists>u. taps_step t u) \<Longrightarrow> main_timely fileIn n (main_joined t) status M' \<Longrightarrow> main_timely fileIn (Suc n) M status M'"

text \<open>Between two rounds: \<open>out\<close> is in output.txt, \<open>rows\<close> are still to be read, and there are slots for \<open>r\<close> rounds.\<close>

record Names =
  no_in :: nat
  no_sv :: nat
  no_out :: nat

definition main_inv :: "Names \<Rightarrow> int \<Rightarrow> nat \<Rightarrow> byte list list list \<Rightarrow> byte list \<Rightarrow> Main \<Rightarrow> bool" where
  "main_inv N fi r rows out M \<longleftrightarrow> m_sinhvien M = 0 \<and> m_voinuoc M = 1 \<and> m_main M = 1 \<and> wf_files (m_fs M)
     \<and> names (host (m_fs M)) sinhvien_txt = Some (no_sv N) \<and> names (host (m_fs M)) output_txt = Some (no_out N)
     \<and> distinct [no_in N, no_sv N, no_out N]
     \<and> (\<exists>p. ufile (m_fs M) fi = Some (no_in N, p, 1) \<and> drop p (fcontent (m_fs M) (no_in N)) = rows_text rows)
     \<and> fcontent (m_fs M) (no_out N) = out \<and> free_slots (m_fs M) = 4 * r \<and> 4 * r + 1 \<le> free_fds (m_fs M)"

definition row_ok :: "byte list list \<Rightarrow> bool" where
  "row_ok row \<longleftrightarrow> row \<noteq> [] \<and> (\<forall>t \<in> set row. container t)"

text \<open>The start of a round as a start of \<^verbatim>\<open>Nachos_TapsRun\<close>.\<close>

lemma main_round_ready:
  assumes inv: "main_inv N fi (Suc r) (row # rows) out M" and row: "row_ok row" and prep: "main_prepare fuel fi (m_fs M) = Some R"
  shows "\<exists>F l qi. R = Inr (Inr F) \<and> line_ok l \<and> taps_ready l F \<and> vols l = row \<and> before l = out \<and> spare l = 4 * r \<and> fd_spare l = 4 * r + 1
    \<and> in_ino l = no_sv N \<and> out_ino l = no_out N \<and> dir l = names (host (m_fs M)) \<and> (\<forall>p q. main_exec p q F M = taps_start p q F)
    \<and> held l = [fi \<mapsto> (no_in N, qi, 1)] \<and> drop qi (disk l (no_in N)) = rows_text rows"
proof -
  have pre: "wf_files (m_fs M)" "names (host (m_fs M)) sinhvien_txt = Some (no_sv N)" "no_in N \<noteq> no_sv N" "0 < free_slots (m_fs M)" "0 < free_fds (m_fs M)"
    using inv by (auto simp: main_inv_def)
  obtain pos where pos: "ufile (m_fs M) fi = Some (no_in N, pos, 1)" "drop pos (fcontent (m_fs M) (no_in N)) = rows_text (row # rows)"
    using inv by (auto simp: main_inv_def)
  note sp = rows_text_split[of row rows]
  from main_prepare_line(2)[OF pre(1,2) pos(1) pre(3) pos(2) pre(4,5) disjI1[OF prep] prep] obtain F qi where
    F: "R = Inr (Inr F)" "wf_files F" "names (host F) = names (host (m_fs M))" "fcontent F = (fcontent (m_fs M))(no_sv N := join_tokens row)"
      "ufile F = (ufile (m_fs M))(fi \<mapsto> (no_in N, qi, 1))" "drop qi (fcontent (m_fs M) (no_in N)) = rows_text rows"
      "free_slots F = free_slots (m_fs M) - 1" "free_fds (m_fs M) - 1 \<le> free_fds F"
    using sp row by (auto simp: row_ok_def)
  define l where "l = \<lparr>vols = row, before = out, in_ino = no_sv N, out_ino = no_out N, spare = 4 * r, fd_spare = 4 * r + 1,
    held = [fi \<mapsto> (no_in N, qi, 1)], disk = fcontent F, dir = names (host F)\<rparr>"
  have "line_ok l" using row inv by (auto simp: line_ok_def l_def row_ok_def main_inv_def)
  moreover have "taps_ready l F" using F inv by (auto simp: taps_ready_def l_def main_inv_def)
  moreover have "\<forall>p q. main_exec p q F M = taps_start p q F" using inv by (simp add: main_exec_def taps_start_def main_inv_def)
  moreover have "drop qi (disk l (no_in N)) = rows_text rows" using F(4,6) pre(3) by (simp add: l_def)
  ultimately show ?thesis using F(1,3) by (intro exI[of _ F] exI[of _ l] exI[of _ qi]) (simp add: l_def)
qed

lemma ready_out: "taps_ready l F \<Longrightarrow> taps_out (taps_start p q F) = before l"
  by (auto simp: taps_out_def taps_ready_def taps_start_def)

lemma main_round_inv:
  assumes inv: "main_inv N fi (Suc r) (row # rows) out M" and row: "row_ok row"
    and prep: "main_prepare fuel fi (m_fs M) = Some (Inr (Inr F))" and t0: "taps_step\<^sup>*\<^sup>* (main_exec p q F M) t0" and ns: "\<not> seeking (VN t0)"
    and o: "taps_out t0 = taps_out (main_exec p q F M)" and t: "taps_step\<^sup>*\<^sup>* t0 t" and last: "\<nexists>u. taps_step t u"
  shows "main_inv N fi r rows (out @ taps_line row) (main_joined t)" "taps_done t"
proof -
  from main_round_ready[OF inv row prep] obtain l qi where ok: "line_ok l" and rdy: "taps_ready l F" and st: "main_exec p q F M = taps_start p q F"
    and l: "vols l = row" "before l = out" "spare l = 4 * r" "fd_spare l = 4 * r + 1" "in_ino l = no_sv N" "out_ino l = no_out N" "dir l = names (host (m_fs M))"
      "held l = [fi \<mapsto> (no_in N, qi, 1)]" "drop qi (disk l (no_in N)) = rows_text rows" by auto
  have ot: "on_time l t" using on_time_keeps[OF ok on_time_reached[OF ok rdy _ ns] t] t0 o st ready_out[OF rdy] by simp
  note fin = on_time_end[OF ok ot last]
  have fs: "taps_files l t" using ot by (auto simp: on_time_def good_def)
  have out: "outb l (taps_fs t) = out @ taps_line row" using taps_out_eq[OF fs] fin l(1,2) by simp
  have "no_in N \<noteq> no_out N" "no_sv N \<noteq> no_in N" using inv by (auto simp: main_inv_def)
  then show "main_inv N fi r rows (out @ taps_line row) (main_joined t)" using fin fs out l inv
    by (auto simp: main_inv_def main_joined_def taps_files_def sv_opens_def vn_opens_def)
  show "taps_done t" using fin by (simp add: taps_done_def)
qed

text \<open>For any number of lines there is such a run of \<open>main\<close>.\<close>

lemma main_timely_exists:
  assumes "main_inv N fi r rows out M" and "\<forall>row \<in> set rows. row_ok row"
  shows "\<exists>status M'. main_timely fi (length rows) M status M'"
  using assms
proof (induction rows arbitrary: r out M)
  case Nil
  then obtain p where "ufile (m_fs M) fi = Some (no_in N, p, 1)" "wf_files (m_fs M)" by (auto simp: main_inv_def)
  then obtain G where "sys_Close fi (m_fs M) = Inr (0, G)" using sys_Close_law by blast
  then show ?case using main_timely.finish[of fi M G] by auto
next
  case (Cons row rows)
  have row: "row_ok row" "\<forall>row \<in> set rows. row_ok row" using Cons.prems(2) by auto
  obtain p where p: "ufile (m_fs M) fi = Some (no_in N, p, 1)" "drop p (fcontent (m_fs M) (no_in N)) = rows_text (row # rows)"
    and m: "wf_files (m_fs M)" "names (host (m_fs M)) sinhvien_txt = Some (no_sv N)" "no_in N \<noteq> no_sv N" "0 < free_fds (m_fs M)" "0 < m_main M"
    "free_slots (m_fs M) = 4 * r" using Cons.prems(1) by (auto simp: main_inv_def)
  show ?case
  proof (cases r)
    case 0
    then have "\<exists>G. main_prepare 0 fi (m_fs M) = Some (Inr (Inl (-1, G)))" using main_prepare_full[OF m(1,2) p(1) _ m(4)] m(6) by auto
    then obtain G where "main_prepare 0 fi (m_fs M) = Some (Inr (Inl (-1, G)))" by blast
    from main_timely.failed[of 0 fi M, OF this] show ?thesis by auto
  next
    case (Suc r')
    let ?fuel = "Suc (length (rows_text (row # rows)))"
    have "main_prepare ?fuel fi (m_fs M) \<noteq> None"
      by (rule main_prepare_line(1)[OF m(1,2) p(1) m(3) p(2) _ m(4), of ?fuel]) (use m(6) Suc in auto)
    then obtain R where R: "main_prepare ?fuel fi (m_fs M) = Some R" by blast
    from main_round_ready[OF Cons.prems(1)[unfolded Suc] row(1) R] obtain F l where F: "R = Inr (Inr F)" and ok: "line_ok l" and rdy: "taps_ready l F"
      and st: "\<forall>p q. main_exec p q F M = taps_start p q F" by blast
    let ?sv = demo_sv and ?vn = demo_vn
    have sk: "seeking (VN (taps_start ?sv ?vn F))" by (simp add: taps_start_def seeking_def)
    obtain t0 where t0: "taps_step\<^sup>*\<^sup>* (taps_start ?sv ?vn F) t0" "on_time l t0" "outb l (taps_fs t0) = before l"
      using voinuoc_first[OF ok good_start[OF ok rdy] sk] by blast
    then have ns: "\<not> seeking (VN t0)" "taps_out t0 = before l" using taps_out_eq[of l t0] by (auto simp: on_time_def good_def)
    have "\<not> (\<exists>f. f 0 = t0 \<and> (\<forall>i. taps_step (f i) (f (Suc i))))"
      by (rule run_finite[where r = taps_step and P = "on_time l", OF on_time_step[OF ok] t0(2)])
    from finite_run_ends[OF this] obtain t where t: "taps_step\<^sup>*\<^sup>* t0 t" "\<nexists>u. taps_step t u" by blast
    have e: "taps_step\<^sup>*\<^sup>* (main_exec ?sv ?vn F M) t0" "taps_out t0 = taps_out (main_exec ?sv ?vn F M)" using t0(1) ns(2) st ready_out[OF rdy] by auto
    from main_round_inv(1)[OF Cons.prems(1)[unfolded Suc] row(1) R[unfolded F] e(1) ns(1) e(2) t] obtain status M'
      where "main_timely fi (length rows) (main_joined t) status M'" using Cons.IH row(2) by blast
    from main_timely.round[OF R[unfolded F] m(5) e(1) ns(1) e(2) t this] show ?thesis by auto
  qed
qed

lemma rounds_left:
  assumes "main_inv N fi r rows out M" and "main_prepare fuel fi (m_fs M) = Some (Inr (Inr F))"
  shows "\<exists>r'. r = Suc r'"
proof (cases r)
  case 0
  obtain pos where "ufile (m_fs M) fi = Some (no_in N, pos, 1)" "wf_files (m_fs M)" "names (host (m_fs M)) sinhvien_txt = Some (no_sv N)"
    "free_slots (m_fs M) = 0" "0 < free_fds (m_fs M)" using assms(1) 0 by (auto simp: main_inv_def)
  from main_prepare_full[OF this(2,3,1,4,5), of fuel] assms(2) show ?thesis by simp
qed simp

text \<open>
  C29. The whole application. Let the file input.txt be open with \<open>rows\<close> of volumes left, output.txt hold \<open>out\<close>, the
  semaphores be as created, and the table of open files have \<open>4 * r\<close> slots left (after start-up and the \<open>Open\<close>
  of input.txt there are 12, so \<open>r\<close> is 3). If \<open>voinuoc\<close> is ready in time on every line and \<open>Exec\<close> and \<open>Join\<close> succeed, then \<open>main\<close>, called for all
  rows, goes through its loop and writes the line of the reference queue for each of the first \<open>r\<close> rows. It exits with 0 if these are all;
  otherwise it exits with -1 at row \<open>r + 1\<close>: \<open>Close\<close> never gives a slot of the table back.
\<close>

theorem taps_application:
  assumes "main_timely fi n M status M'" and "main_inv N fi r rows out M" and "length rows = n" and "\<forall>row \<in> set rows. row_ok row"
  shows "main_loop fi n M status M' \<and> status = (if n \<le> r then 0 else -1)
    \<and> fcontent (m_fs M') (no_out N) = out @ concat (map taps_line (take r rows))"
  using assms
proof (induction arbitrary: r rows out rule: main_timely.induct)
  case (finish M F)
  then obtain p where "ufile (m_fs M) fi = Some (no_in N, p, 1)" "wf_files (m_fs M)" "fcontent (m_fs M) (no_out N) = out" by (auto simp: main_inv_def)
  moreover from this obtain G where "sys_Close fi (m_fs M) = Inr (0, G)" "fcontent G = fcontent (m_fs M)" using sys_Close_law by blast
  ultimately show ?case using finish main_loop.finish[of fi M F] by simp
next
  case (failed fuel M status F n)
  then obtain row rows' where rows: "rows = row # rows'" "row_ok row" by (cases rows) auto
  have inv: "wf_files (m_fs M)" "names (host (m_fs M)) sinhvien_txt = Some (no_sv N)" "no_sv N \<noteq> no_out N" "free_slots (m_fs M) = 4 * r" "0 < free_fds (m_fs M)"
    "\<exists>p. ufile (m_fs M) fi = Some (no_in N, p, 1)" "fcontent (m_fs M) (no_out N) = out" using failed by (auto simp: main_inv_def)
  have r: "r = 0"
  proof (cases r)
    case (Suc r')
    then show ?thesis using main_round_ready[of N fi r' row rows' out M fuel] failed rows by auto
  qed simp
  obtain p where "ufile (m_fs M) fi = Some (no_in N, p, 1)" using inv(6) by blast
  from main_prepare_full[OF inv(1,2) this, of fuel] inv r failed(1) main_loop.failed[OF failed(1), of n] show ?case by auto
next
  case (round fuel M F p q t0 t n status M')
  then obtain row rows' where rows: "rows = row # rows'" "row_ok row" "length rows' = n" "\<forall>row \<in> set rows'. row_ok row" by (cases rows) auto
  obtain r' where r: "r = Suc r'" using rounds_left[OF round.prems(1) round(1)] by blast
  have inv: "main_inv N fi (Suc r') (row # rows') out M" using round.prems(1) rows r by simp
  note nxt = main_round_inv[OF inv rows(2) round(1,3-7)]
  have "taps_step\<^sup>*\<^sup>* (main_exec p q F M) t" using round(3,6) by simp
  note ih = round.IH[OF nxt(1) rows(3,4)]
  have "main_loop fi (Suc n) M status M'" by (rule main_loop.round[OF round(1,2) \<open>taps_step\<^sup>*\<^sup>* (main_exec p q F M) t\<close> nxt(2)]) (use ih in blast)
  with ih show ?case using rows r by simp
qed

definition demo_main :: Main where
  "demo_main = \<lparr>m_fs = \<lparr>host = \<lparr>names = [sinhvien_txt \<mapsto> 1, output_txt \<mapsto> 0, input_txt \<mapsto> 2],
        inodes = (\<lambda>_. [])(2 := [49, 10, 49, 10, 49, 10, 49]), next_inode = 3, fds = [3 \<mapsto> (2, 0)]\<rparr>,
      sf_heap = [0 \<mapsto> \<lparr>fileno = 3, currentOffset = 0, ftype = 1\<rparr>], sf_brk = 1, openf = (replicate 15 None)[2 := Some 0], index = 0\<rparr>,
    m_sinhvien = 0, m_voinuoc = 1, m_main = 1\<rparr>"

definition demo_rows :: "byte list list list" where
  "demo_rows = replicate 4 [[49]]"

lemma demo_main_slots: "free_slots (m_fs demo_main) = 12"
proof -
  have "filter (\<lambda>i. openf (m_fs demo_main) ! i = None) [2..<15] = [3..<15]"
    by (simp add: demo_main_def upt_rec_numeral)
  then show ?thesis by (simp add: free_slots_def)
qed

lemma demo_main_fds: "free_fds (m_fs demo_main) = 1020"
proof -
  have "[3..<1024] = 3 # [4..<1024::nat]" using upt_conv_Cons[of 3 1024] by simp
  moreover have "filter (\<lambda>d. fds (host (m_fs demo_main)) d = None) [4..<1024] = [4..<1024]"
    by (rule filter_True) (simp add: demo_main_def)
  ultimately have "filter (\<lambda>d. fds (host (m_fs demo_main)) d = None) [3..<1024] = [4..<1024]" by (simp add: demo_main_def)
  then show ?thesis by (simp add: free_fds_def)
qed

lemma demo_main_inv: "main_inv \<lparr>no_in = 2, no_sv = 1, no_out = 0\<rparr> 2 3 demo_rows [] demo_main"
proof -
  have "wf_files (m_fs demo_main)" by (auto simp: wf_files_def demo_main_def nth_list_update unix_fd_def split: if_splits)
  moreover have "ufile (m_fs demo_main) 2 = Some (2, 0, 1)" by (simp add: ufile_def slot_file_def demo_main_def unix_fd_def)
  moreover have "fcontent (m_fs demo_main) 2 = rows_text demo_rows" "fcontent (m_fs demo_main) 0 = []"
    by (simp_all add: fcontent_def demo_main_def demo_rows_def numeral_eq_Suc)
  moreover have "names (host (m_fs demo_main)) sinhvien_txt = Some 1" "names (host (m_fs demo_main)) output_txt = Some 0"
    by (simp_all add: demo_main_def sinhvien_txt_def output_txt_def input_txt_def cbytes_def)
  ultimately show ?thesis using demo_main_slots demo_main_fds by (simp add: main_inv_def) (simp add: demo_main_def)
qed

lemma taps_application_witness:
  "\<exists>status M'. main_timely 2 4 demo_main status M' \<and> status = -1
    \<and> fcontent (m_fs M') 0 = [49, 32, 49, 32, 10, 49, 32, 49, 32, 10, 49, 32, 49, 32, 10]"
proof -
  have ok: "\<forall>row \<in> set demo_rows. row_ok row" by (simp add: demo_rows_def row_ok_def container_def is_dig_def dec_def)
  have len: "length demo_rows = 4" by (simp add: demo_rows_def)
  obtain status M' where m: "main_timely 2 4 demo_main status M'" using main_timely_exists[OF demo_main_inv ok] len by auto
  have "concat (map taps_line (take 3 demo_rows)) = [49, 32, 49, 32, 10, 49, 32, 49, 32, 10, 49, 32, 49, 32, 10]"
    by (simp add: demo_rows_def taps_line_def dec_def answer_text_def numeral_eq_Suc)
  then show ?thesis using taps_application[OF m demo_main_inv len ok] m by auto
qed

end
