(* ===== verification/Nachos_UserProg.thy ===== *)
theory Nachos_UserProg
  imports Nachos_Console
begin

text \<open>
  test/matmult.c: the matrix multiplication that stresses virtual memory. The matrices are functions of two
  indices into 32-bit words; each counted loop is a fold over its range.

  test/shell.c: the loop that reads a command from the console.
\<close>

type_synonym matrix = "nat \<Rightarrow> nat \<Rightarrow> word32"

definition Dim :: nat where "Dim = 20"

definition mat_upd :: "matrix \<Rightarrow> nat \<Rightarrow> nat \<Rightarrow> word32 \<Rightarrow> matrix" where
  "mat_upd X i j v = X(i := (X i)(j := v))"

definition matmult_init :: "matrix \<times> matrix \<times> matrix \<Rightarrow> matrix \<times> matrix \<times> matrix" where
  "matmult_init = fold (\<lambda>i. fold (\<lambda>j (A, B, C). (mat_upd A i j (of_nat i), mat_upd B i j (of_nat j), mat_upd C i j 0)) [0..<Dim]) [0..<Dim]"

definition matmult_product :: "matrix \<Rightarrow> matrix \<Rightarrow> matrix \<Rightarrow> matrix" where
  "matmult_product A B C = fold (\<lambda>i. fold (\<lambda>j. fold (\<lambda>k C. mat_upd C i j (C i j + A i k * B k j)) [0..<Dim]) [0..<Dim]) [0..<Dim] C"

text \<open>The argument of \<open>Exit\<close>; \<open>junk\<close> is what the arrays hold before.\<close>

definition matmult_main :: "matrix \<times> matrix \<times> matrix \<Rightarrow> word32" where
  "matmult_main junk = (let (A, B, C) = matmult_init junk in matmult_product A B C (Dim - 1) (Dim - 1))"

lemma mat_upd_same [simp]: "mat_upd X i j v i j = v"
  by (simp add: mat_upd_def)

lemma mat_upd_other [simp]: "i \<noteq> i' \<or> j \<noteq> j' \<Longrightarrow> mat_upd X i j v i' j' = X i' j'"
  by (auto simp: mat_upd_def)

text \<open>The loops, from the inside out. The innermost one adds a sum to one element.\<close>

lemma inner_loop:
  "fold (\<lambda>k C. mat_upd C i j (C i j + A i k * B k j)) ks C = mat_upd C i j (C i j + (\<Sum>k\<leftarrow>ks. A i k * B k j))"
  by (induction ks arbitrary: C) (simp_all add: mat_upd_def add.assoc)

lemma row_loop:
  "distinct js \<Longrightarrow> fold (\<lambda>j. fold (\<lambda>k C. mat_upd C i j (C i j + A i k * B k j)) ks) js C
    = C(i := \<lambda>j. if j \<in> set js then C i j + (\<Sum>k\<leftarrow>ks. A i k * B k j) else C i j)"
proof (induction js arbitrary: C)
  case (Cons j js)
  then show ?case by (simp add: inner_loop) (auto simp: mat_upd_def fun_eq_iff)
qed (simp add: fun_eq_iff)

lemma all_loops:
  "distinct is \<Longrightarrow> distinct js \<Longrightarrow> fold (\<lambda>i. fold (\<lambda>j. fold (\<lambda>k C. mat_upd C i j (C i j + A i k * B k j)) ks) js) is C
    = (\<lambda>i j. if i \<in> set is \<and> j \<in> set js then C i j + (\<Sum>k\<leftarrow>ks. A i k * B k j) else C i j)"
proof (induction "is" arbitrary: C)
  case (Cons i "is")
  then show ?case by (simp add: row_loop) (auto simp: fun_eq_iff)
qed (simp add: fun_eq_iff)

lemma init_row:
  "distinct js \<Longrightarrow> fold (\<lambda>j (A, B, C). (mat_upd A i j (of_nat i), mat_upd B i j (of_nat j), mat_upd C i j 0)) js (A, B, C)
    = (A(i := \<lambda>j. if j \<in> set js then of_nat i else A i j), B(i := \<lambda>j. if j \<in> set js then of_nat j else B i j), C(i := \<lambda>j. if j \<in> set js then 0 else C i j))"
proof (induction js arbitrary: A B C)
  case (Cons j js)
  then show ?case by simp (auto simp: mat_upd_def fun_eq_iff)
qed (simp add: fun_eq_iff)

lemma init_loops:
  "distinct is \<Longrightarrow> distinct js \<Longrightarrow>
    fold (\<lambda>i. fold (\<lambda>j (A, B, C). (mat_upd A i j (of_nat i), mat_upd B i j (of_nat j), mat_upd C i j 0)) js) is (A, B, C)
    = (\<lambda>i j. if i \<in> set is \<and> j \<in> set js then of_nat i else A i j, \<lambda>i j. if i \<in> set is \<and> j \<in> set js then of_nat j else B i j,
       \<lambda>i j. if i \<in> set is \<and> j \<in> set js then 0 else C i j)"
proof (induction "is" arbitrary: A B C)
  case (Cons i "is")
  then show ?case by (simp add: init_row) (auto simp: fun_eq_iff)
qed (simp add: fun_eq_iff)

text \<open>The three loops compute the product of the two matrices, whatever the element type wraps.\<close>

lemma matmult_product_is_product:
  assumes "i < Dim" and "j < Dim"
  shows "matmult_product A B C i j = C i j + (\<Sum>k = 0..<Dim. A i k * B k j)"
  using assms by (simp add: matmult_product_def all_loops interv_sum_list_conv_sum_set_nat)

text \<open>The program exits with 7220, whatever the arrays held before.\<close>

theorem matmult_exits: "matmult_main junk = 7220"
proof -
  obtain A B C where "junk = (A, B, C)" by (cases junk)
  then show ?thesis by (simp add: matmult_main_def matmult_init_def init_loops matmult_product_is_product Dim_def)
qed

section \<open>The shell\<close>

text \<open>\<open>Read(&buffer[i], 1, ConsoleInput)\<close>: \<open>SynchConsole::Read\<close> of one byte, which the kernel copies to the program
  only if one was read. \<open>None\<close> is a thread that waits for a key for ever.\<close>

definition shell_Read :: "byte \<Rightarrow> nat \<Rightarrow> byte list \<Rightarrow> Console \<Rightarrow> (byte list \<times> Console) option" where
  "shell_Read junk i buffer c = map_option (\<lambda>(size, temp, c). (if size > 0 then buffer[i := hd temp] else buffer, c)) (SynchConsole_Read junk 1 c)"

function shell_line :: "byte \<Rightarrow> nat \<Rightarrow> byte list \<Rightarrow> Console \<Rightarrow> (nat \<times> byte list \<times> Console) res option" where
  "shell_line junk i buffer c = (if i \<ge> length buffer then Some (Inl OutOfBounds) else
     case shell_Read junk i buffer c of None \<Rightarrow> None
     | Some (buffer', c) \<Rightarrow> if buffer' ! i \<noteq> 10 then shell_line junk (i + 1) buffer' c else Some (Inr (i, buffer'[i := 0], c)))"
  by pat_completeness auto
termination
  by (relation "measure (\<lambda>(junk, i, buffer, c). length buffer - i)") (auto simp: shell_Read_def)

declare shell_line.simps [simp del]

text \<open>A newline is never stored: \<open>SynchConsole::Read\<close> returns 0 for it. So the loop, which waits for one, ends only on
  one that is left in the buffer from before.\<close>

lemma shell_Read_no_newline:
  assumes "shell_Read junk i buffer c = Some (buffer', c')" and "10 \<notin> set buffer"
  shows "10 \<notin> set buffer' \<and> length buffer' = length buffer"
proof -
  obtain size temp where r: "SynchConsole_Read junk 1 c = Some (size, temp, c')" "buffer' = (if size > 0 then buffer[i := hd temp] else buffer)"
    using assms(1) by (auto simp: shell_Read_def)
  have "size > 0 \<Longrightarrow> hd temp \<noteq> 10" using r(1) by (auto simp: SynchConsole_Read_def split: option.splits if_splits prod.splits)
  then show ?thesis using assms(2) r(2) set_update_subset_insert[of buffer i "hd temp"] by auto
qed

theorem shell_never_gets_a_line:
  assumes "10 \<notin> set buffer"
  shows "shell_line junk i buffer c = None \<or> shell_line junk i buffer c = Some (Inl OutOfBounds)"
  using assms
proof (induction junk i buffer c rule: shell_line.induct)
  case (1 junk i buffer c)
  show ?case
  proof (cases "i \<ge> length buffer \<or> shell_Read junk i buffer c = None")
    case True
    then show ?thesis by (subst (1 2) shell_line.simps) auto
  next
    case False
    then obtain b c' where r: "shell_Read junk i buffer c = Some (b, c')" "i < length buffer" by auto
    have b: "10 \<notin> set b" "length b = length buffer" using shell_Read_no_newline[OF r(1) 1(2)] by auto
    then have n: "b ! i \<noteq> 10" using r(2) nth_mem[of i b] by metis
    then have "shell_line junk i buffer c = shell_line junk (i + 1) b c'" using r by (subst shell_line.simps) simp
    then show ?thesis using "1.IH"[of "(b, c')" b c'] r n b(1) by simp
  qed
qed

end
