(* ===== verification/Nachos_Stacks.thy ===== *)
theory Nachos_Stacks
  imports Nachos_Prelude
begin

text \<open>
  The stacks of the C++ tutorial that comes with the system (c++example): the template \<open>Stack<T>\<close> on an array
  (templatestack.cc; stack.cc is the same code for \<open>int\<close>), and the abstract class \<open>Stack\<close> with its two
  implementations \<open>ArrayStack\<close> and \<open>ListStack\<close> (inheritstack.cc), the latter on the linked list of list.cc.

  The abstract class is a locale: what the virtual methods promise of the sequence of elements. \<open>SelfTest\<close>, which
  the class shares among all implementations, is one definition over the virtual methods, and what it prints is
  proved once in the locale. Destructors only free memory.
\<close>

section \<open>The template on an array\<close>

record 'a Stack =
  size_max :: int
  top :: int
  stack :: "'a list"

text \<open>\<open>junk\<close> is what the new array holds.\<close>

definition Stack_new :: "'a list \<Rightarrow> int \<Rightarrow> 'a Stack res" where
  "Stack_new junk sz = bindR (ASSERT (sz \<ge> 1)) (\<lambda>_. Inr \<lparr>size_max = sz, top = 0, stack = take (nat sz) junk\<rparr>)"

definition Stack_Full :: "'a Stack \<Rightarrow> bool" where
  "Stack_Full s \<longleftrightarrow> top s = size_max s"

definition Stack_Empty :: "'a Stack \<Rightarrow> bool" where
  "Stack_Empty s \<longleftrightarrow> top s = 0"

definition Stack_Push :: "'a \<Rightarrow> 'a Stack \<Rightarrow> 'a Stack res" where
  "Stack_Push value s = bindR (ASSERT (\<not> Stack_Full s)) (\<lambda>_.
     if top s < 0 \<or> top s \<ge> int (length (stack s)) then Inl OutOfBounds
     else Inr (s\<lparr>stack := (stack s)[nat (top s) := value], top := top s + 1\<rparr>))"

definition Stack_Pop :: "'a Stack \<Rightarrow> ('a \<times> 'a Stack) res" where
  "Stack_Pop s = bindR (ASSERT (\<not> Stack_Empty s)) (\<lambda>_. let s = s\<lparr>top := top s - 1\<rparr> in
     if top s < 0 \<or> top s \<ge> int (length (stack s)) then Inl OutOfBounds else Inr (stack s ! nat (top s), s))"

text \<open>What the test prints.\<close>

datatype 'a event = Pushing 'a | Popping 'a

text \<open>\<open>while (!Empty()) cout << Pop()\<close>, with fuel.\<close>

fun pop_all :: "('s \<Rightarrow> bool) \<Rightarrow> ('s \<Rightarrow> ('a \<times> 's) res) \<Rightarrow> nat \<Rightarrow> 's \<Rightarrow> ('a event list \<times> 's) res option" where
  "pop_all emp pop 0 s = None"
| "pop_all emp pop (Suc fuel) s = (if emp s then Some (Inr ([], s)) else case pop s of
     Inl f \<Rightarrow> Some (Inl f)
   | Inr (v, s) \<Rightarrow> map_option (\<lambda>r. bindR r (\<lambda>(es, s). Inr (Popping v # es, s))) (pop_all emp pop fuel s))"

text \<open>\<open>while (!Full()) Push(count++)\<close> of the template, with fuel; \<open>inc\<close> is the increment of \<open>T\<close>.\<close>

fun push_all :: "('a \<Rightarrow> 'a) \<Rightarrow> nat \<Rightarrow> 'a \<Rightarrow> 'a Stack \<Rightarrow> ('a event list \<times> 'a Stack) res option" where
  "push_all inc 0 count s = None"
| "push_all inc (Suc fuel) count s = (if Stack_Full s then Some (Inr ([], s)) else case Stack_Push count s of
     Inl f \<Rightarrow> Some (Inl f)
   | Inr s \<Rightarrow> map_option (\<lambda>r. bindR r (\<lambda>(es, s). Inr (Pushing count # es, s))) (push_all inc fuel (inc count) s))"

definition Template_SelfTest :: "('a \<Rightarrow> 'a) \<Rightarrow> nat \<Rightarrow> 'a \<Rightarrow> 'a Stack \<Rightarrow> ('a event list \<times> 'a Stack) res option" where
  "Template_SelfTest inc fuel start s = (case push_all inc fuel start s of None \<Rightarrow> None | Some (Inl f) \<Rightarrow> Some (Inl f)
     | Some (Inr (es, s)) \<Rightarrow> map_option (\<lambda>r. bindR r (\<lambda>(fs, s). Inr (es @ fs, s))) (pop_all Stack_Empty Stack_Pop fuel s))"

section \<open>The list\<close>

text \<open>The elements of a list by their address, each with its item and its next pointer.\<close>

record IntList =
  cells :: "nat \<Rightarrow> (int \<times> nat option) option"
  brk :: nat
  first :: "nat option"
  last_elt :: "nat option"

definition IntList_new :: IntList where
  "IntList_new = \<lparr>cells = (\<lambda>_. None), brk = 0, first = None, last_elt = None\<rparr>"

definition IntList_Empty :: "IntList \<Rightarrow> bool" where
  "IntList_Empty l \<longleftrightarrow> first l = None"

definition IntList_Prepend :: "int \<Rightarrow> IntList \<Rightarrow> IntList" where
  "IntList_Prepend value l = (let element = brk l; l = l\<lparr>brk := brk l + 1\<rparr> in
     if IntList_Empty l then l\<lparr>cells := (cells l)(element \<mapsto> (value, None)), first := Some element, last_elt := Some element\<rparr>
     else l\<lparr>cells := (cells l)(element \<mapsto> (value, first l)), first := Some element\<rparr>)"

definition IntList_Remove :: "IntList \<Rightarrow> (int \<times> IntList) res" where
  "IntList_Remove l = bindR (ASSERT (\<not> IntList_Empty l)) (\<lambda>_.
     case first l of None \<Rightarrow> Inl NullPointer | Some a \<Rightarrow>
     (case cells l a of None \<Rightarrow> Inl DanglingPointer | Some (value, nxt) \<Rightarrow>
       let l = (if first l = last_elt l then l\<lparr>first := None, last_elt := None\<rparr> else l\<lparr>first := nxt\<rparr>) in
       Inr (value, l\<lparr>cells := (cells l)(a := None)\<rparr>)))"

section \<open>The two implementations of the abstract class\<close>

record ArrayStack =
  as_size :: int
  as_top :: int
  as_stack :: "int list"

definition ArrayStack_new :: "int list \<Rightarrow> int \<Rightarrow> ArrayStack res" where
  "ArrayStack_new junk sz = bindR (ASSERT (sz \<ge> 1)) (\<lambda>_. Inr \<lparr>as_size = sz, as_top = 0, as_stack = take (nat sz) junk\<rparr>)"

definition ArrayStack_Full :: "ArrayStack \<Rightarrow> bool" where
  "ArrayStack_Full s \<longleftrightarrow> as_top s = as_size s"

definition ArrayStack_Empty :: "ArrayStack \<Rightarrow> bool" where
  "ArrayStack_Empty s \<longleftrightarrow> as_top s = 0"

definition ArrayStack_Push :: "int \<Rightarrow> ArrayStack \<Rightarrow> ArrayStack res" where
  "ArrayStack_Push value s = bindR (ASSERT (\<not> ArrayStack_Full s)) (\<lambda>_.
     if as_top s < 0 \<or> as_top s \<ge> int (length (as_stack s)) then Inl OutOfBounds
     else Inr (s\<lparr>as_stack := (as_stack s)[nat (as_top s) := value], as_top := as_top s + 1\<rparr>))"

definition ArrayStack_Pop :: "ArrayStack \<Rightarrow> (int \<times> ArrayStack) res" where
  "ArrayStack_Pop s = bindR (ASSERT (\<not> ArrayStack_Empty s)) (\<lambda>_. let s = s\<lparr>as_top := as_top s - 1\<rparr> in
     if as_top s < 0 \<or> as_top s \<ge> int (length (as_stack s)) then Inl OutOfBounds else Inr (as_stack s ! nat (as_top s), s))"

definition ListStack_new :: IntList where
  "ListStack_new = IntList_new"

definition ListStack_Push :: "int \<Rightarrow> IntList \<Rightarrow> IntList res" where
  "ListStack_Push value s = Inr (IntList_Prepend value s)"

definition ListStack_Pop :: "IntList \<Rightarrow> (int \<times> IntList) res" where
  "ListStack_Pop s = bindR (ASSERT (\<not> IntList_Empty s)) (\<lambda>_. IntList_Remove s)"

definition ListStack_Full :: "IntList \<Rightarrow> bool" where
  "ListStack_Full s \<longleftrightarrow> False"

definition ListStack_Empty :: "IntList \<Rightarrow> bool" where
  "ListStack_Empty s \<longleftrightarrow> IntList_Empty s"

text \<open>The test of the abstract class, over its virtual methods.\<close>

fun push_n :: "('s \<Rightarrow> bool) \<Rightarrow> (int \<Rightarrow> 's \<Rightarrow> 's res) \<Rightarrow> nat \<Rightarrow> int \<Rightarrow> 's \<Rightarrow> (int event list \<times> 's) res" where
  "push_n full push 0 count s = Inr ([], s)"
| "push_n full push (Suc n) count s = bindR (ASSERT (\<not> full s)) (\<lambda>_. bindR (push count s) (\<lambda>s.
     bindR (push_n full push n (count + 1) s) (\<lambda>(es, s). Inr (Pushing count # es, s))))"

definition Stack_SelfTest :: "('s \<Rightarrow> bool) \<Rightarrow> ('s \<Rightarrow> bool) \<Rightarrow> (int \<Rightarrow> 's \<Rightarrow> 's res) \<Rightarrow> ('s \<Rightarrow> (int \<times> 's) res) \<Rightarrow> nat \<Rightarrow> nat \<Rightarrow> 's
    \<Rightarrow> (int event list \<times> 's) res option" where
  "Stack_SelfTest full emp push pop fuel numToPush s = (case push_n full push numToPush 17 s of
     Inl f \<Rightarrow> Some (Inl f)
   | Inr (es, s) \<Rightarrow> map_option (\<lambda>r. bindR r (\<lambda>(fs, s). Inr (es @ fs, s))) (pop_all emp pop fuel s))"

section \<open>The contract of a stack\<close>

text \<open>\<open>rep s vs\<close>: the elements from the top; \<open>cap\<close> is the capacity, if there is one.\<close>

locale stack_class =
  fixes full :: "'s \<Rightarrow> bool" and emp :: "'s \<Rightarrow> bool" and push :: "'a \<Rightarrow> 's \<Rightarrow> 's res" and pop :: "'s \<Rightarrow> ('a \<times> 's) res"
    and rep :: "'s \<Rightarrow> 'a list \<Rightarrow> bool" and cap :: "'s \<Rightarrow> nat option"
  assumes full_iff: "rep s vs \<Longrightarrow> full s \<longleftrightarrow> cap s = Some (length vs)"
    and emp_iff: "rep s vs \<Longrightarrow> emp s \<longleftrightarrow> vs = []"
    and push_ok: "rep s vs \<Longrightarrow> \<not> full s \<Longrightarrow> \<exists>s'. push v s = Inr s' \<and> rep s' (v # vs) \<and> cap s' = cap s"
    and pop_ok: "rep s (v # vs) \<Longrightarrow> \<exists>s'. pop s = Inr (v, s') \<and> rep s' vs \<and> cap s' = cap s"
begin

lemma pop_all_reverses:
  "rep s vs \<Longrightarrow> length vs < fuel \<Longrightarrow> \<exists>s'. pop_all emp pop fuel s = Some (Inr (map Popping vs, s')) \<and> rep s' [] \<and> cap s' = cap s"
proof (induction vs arbitrary: fuel s)
  case Nil
  then show ?case by (cases fuel) (auto simp: emp_iff)
next
  case (Cons v vs)
  then obtain n where n: "fuel = Suc n" "length vs < n" by (cases fuel) auto
  obtain s1 where s1: "pop s = Inr (v, s1)" "rep s1 vs" "cap s1 = cap s" using pop_ok[OF Cons.prems(1)] by blast
  from Cons.IH[OF s1(2) n(2)] s1 n(1) emp_iff[OF Cons.prems(1)] show ?case by auto
qed

end

text \<open>For stacks of integers, what \<open>SelfTest\<close> does.\<close>

locale int_stack = stack_class full emp push pop rep cap
  for full :: "'s \<Rightarrow> bool" and emp :: "'s \<Rightarrow> bool" and push :: "int \<Rightarrow> 's \<Rightarrow> 's res" and pop :: "'s \<Rightarrow> (int \<times> 's) res"
    and rep :: "'s \<Rightarrow> int list \<Rightarrow> bool" and cap :: "'s \<Rightarrow> nat option"
begin

lemma push_n_ok:
  "rep s vs \<Longrightarrow> (\<And>c. cap s = Some c \<Longrightarrow> length vs + n \<le> c) \<Longrightarrow>
    \<exists>s'. push_n full push n k s = Inr (map Pushing [k..k + int n - 1], s') \<and> rep s' (rev [k..k + int n - 1] @ vs) \<and> cap s' = cap s"
proof (induction n arbitrary: k s vs)
  case (Suc n)
  have "\<not> full s" using full_iff[OF Suc.prems(1)] Suc.prems(2) by fastforce
  then obtain s1 where s1: "push k s = Inr s1" "rep s1 (k # vs)" "cap s1 = cap s" using push_ok[OF Suc.prems(1)] by blast
  have "\<And>c. cap s1 = Some c \<Longrightarrow> length (k # vs) + n \<le> c" using Suc.prems(2) s1(3) by fastforce
  from Suc.IH[OF s1(2) this, of "k + 1"] obtain s2 where s2: "push_n full push n (k + 1) s1 = Inr (map Pushing [k + 1..k + 1 + int n - 1], s2)"
    "rep s2 (rev [k + 1..k + 1 + int n - 1] @ k # vs)" "cap s2 = cap s1" by blast
  have "[k..k + int (Suc n) - 1] = k # [k + 1..k + 1 + int n - 1]" by (subst upto.simps) simp
  then show ?case using s1 s2 \<open>\<not> full s\<close> by simp
qed simp

lemma push_n_overflows:
  "rep s vs \<Longrightarrow> cap s = Some c \<Longrightarrow> length vs \<le> c \<Longrightarrow> c < length vs + n \<Longrightarrow> push_n full push n k s = Inl AssertFailed"
proof (induction n arbitrary: k s vs)
  case (Suc n)
  show ?case
  proof (cases "full s")
    case False
    then obtain s1 where s1: "push k s = Inr s1" "rep s1 (k # vs)" "cap s1 = cap s" using push_ok[OF Suc.prems(1)] by blast
    have "length (k # vs) \<le> c" using False full_iff[OF Suc.prems(1)] Suc.prems(2,3) by simp
    then show ?thesis using Suc.IH[OF s1(2), of "k + 1"] Suc.prems s1 False by simp
  qed simp
qed simp

lemma SelfTest_prints:
  assumes "rep s []" and "\<And>c. cap s = Some c \<Longrightarrow> n \<le> c" and "n < fuel"
  shows "\<exists>s'. Stack_SelfTest full emp push pop fuel n s
      = Some (Inr (map Pushing [17..16 + int n] @ map Popping (rev [17..16 + int n]), s')) \<and> rep s' []"
proof -
  obtain s1 where s1: "push_n full push n 17 s = Inr (map Pushing [17..16 + int n], s1)" "rep s1 (rev [17..16 + int n])"
    using push_n_ok[OF assms(1), of n 17] assms(2) by (auto simp: add.commute)
  then have "length (rev [17..16 + int n]) < fuel" using assms(3) by simp
  from pop_all_reverses[OF s1(2) this] show ?thesis using s1(1) by (auto simp: Stack_SelfTest_def rev_map)
qed

lemma SelfTest_overflows:
  assumes "rep s []" and "cap s = Some c" and "c < n"
  shows "Stack_SelfTest full emp push pop fuel n s = Some (Inl AssertFailed)"
  using push_n_overflows[OF assms(1,2), of n 17] assms(3) by (simp add: Stack_SelfTest_def)

end

section \<open>The implementations keep the contract\<close>

definition stack_rep :: "'a Stack \<Rightarrow> 'a list \<Rightarrow> bool" where
  "stack_rep s vs \<longleftrightarrow> 0 \<le> top s \<and> top s \<le> size_max s \<and> size_max s = int (length (stack s)) \<and> rev (take (nat (top s)) (stack s)) = vs"

lemma stack_rep_length: "stack_rep s vs \<Longrightarrow> top s = int (length vs) \<and> 0 \<le> size_max s"
  by (auto simp: stack_rep_def min_def)

lemma take_update_Suc: "i < length xs \<Longrightarrow> take (Suc i) (xs[i := v]) = take i xs @ [v]"
  by (simp add: take_Suc_conv_app_nth)

lemma stack_push_rep:
  assumes "stack_rep s vs" and "\<not> Stack_Full s"
  shows "\<exists>s'. Stack_Push v s = Inr s' \<and> stack_rep s' (v # vs) \<and> size_max s' = size_max s"
proof -
  obtain n where n: "top s = int n" using assms(1) zero_le_imp_eq_int by (auto simp: stack_rep_def)
  have "n < length (stack s)" using assms n by (auto simp: stack_rep_def Stack_Full_def)
  moreover have "nat (1 + int n) = Suc n" by simp
  ultimately show ?thesis using assms n by (auto simp: stack_rep_def Stack_Push_def take_update_Suc add.commute)
qed

lemma stack_pop_rep:
  assumes "stack_rep s (v # vs)"
  shows "\<exists>s'. Stack_Pop s = Inr (v, s') \<and> stack_rep s' vs \<and> size_max s' = size_max s"
proof -
  obtain m where m: "top s = int m" using assms zero_le_imp_eq_int by (auto simp: stack_rep_def)
  moreover have "m \<noteq> 0" by (rule notI) (use assms m in \<open>auto simp: stack_rep_def\<close>)
  ultimately obtain n where t: "top s = int (Suc n)" by (metis not0_implies_Suc)
  moreover have "nat (1 + int n) = Suc n" by simp
  ultimately have n: "n < length (stack s)" "rev (take (Suc n) (stack s)) = v # vs" using assms by (auto simp: stack_rep_def)
  then have "stack s ! n = v" "rev (take n (stack s)) = vs" by (auto simp: take_Suc_conv_app_nth)
  then show ?thesis using t n(1) assms by (simp add: Stack_Pop_def Stack_Empty_def stack_rep_def Let_def)
qed

interpretation tmpl: stack_class Stack_Full Stack_Empty Stack_Push Stack_Pop stack_rep "\<lambda>s. Some (nat (size_max s))"
proof
  show "Stack_Full s = (Some (nat (size_max s)) = Some (length vs))" if "stack_rep s vs" for s :: "'a Stack" and vs
    using stack_rep_length[OF that] by (auto simp: Stack_Full_def)
  show "Stack_Empty s = (vs = [])" if "stack_rep s vs" for s :: "'a Stack" and vs using stack_rep_length[OF that] by (simp add: Stack_Empty_def)
  show "\<exists>s'. Stack_Push v s = Inr s' \<and> stack_rep s' (v # vs) \<and> Some (nat (size_max s')) = Some (nat (size_max s))"
    if "stack_rep s vs" "\<not> Stack_Full s" for s :: "'a Stack" and vs v using stack_push_rep[OF that] by metis
  show "\<exists>s'. Stack_Pop s = Inr (v, s') \<and> stack_rep s' vs \<and> Some (nat (size_max s')) = Some (nat (size_max s))"
    if "stack_rep s (v # vs)" for s :: "'a Stack" and vs v using stack_pop_rep[OF that] by metis
qed

text \<open>\<open>ArrayStack\<close> is the template at \<open>int\<close>.\<close>

definition as_template :: "ArrayStack \<Rightarrow> int Stack" where
  "as_template s = \<lparr>size_max = as_size s, top = as_top s, stack = as_stack s\<rparr>"

lemma array_is_template:
  "ArrayStack_Full s = Stack_Full (as_template s)" "ArrayStack_Empty s = Stack_Empty (as_template s)"
  "map_sum id as_template (ArrayStack_Push v s) = Stack_Push v (as_template s)"
  "map_sum id (\<lambda>(v, s). (v, as_template s)) (ArrayStack_Pop s) = Stack_Pop (as_template s)"
  by (simp_all add: as_template_def ArrayStack_Full_def Stack_Full_def ArrayStack_Empty_def Stack_Empty_def ArrayStack_Push_def Stack_Push_def
      ArrayStack_Pop_def Stack_Pop_def ASSERT_def Let_def)

interpretation arr: int_stack ArrayStack_Full ArrayStack_Empty ArrayStack_Push ArrayStack_Pop "\<lambda>s. stack_rep (as_template s)" "\<lambda>s. Some (nat (as_size s))"
proof
  fix s v and vs :: "int list"
  assume r: "stack_rep (as_template s) vs" and nf: "\<not> ArrayStack_Full s"
  obtain u where "Stack_Push v (as_template s) = Inr u" "stack_rep u (v # vs)" "size_max u = size_max (as_template s)"
    using stack_push_rep[OF r] nf array_is_template(1) by metis
  then show "\<exists>s'. ArrayStack_Push v s = Inr s' \<and> stack_rep (as_template s') (v # vs) \<and> Some (nat (as_size s')) = Some (nat (as_size s))"
    using array_is_template(3)[of v s] by (cases "ArrayStack_Push v s") (auto simp: as_template_def)
next
  fix s v and vs :: "int list"
  assume r: "stack_rep (as_template s) (v # vs)"
  obtain u where "Stack_Pop (as_template s) = Inr (v, u)" "stack_rep u vs" "size_max u = size_max (as_template s)" using stack_pop_rep[OF r] by blast
  then show "\<exists>s'. ArrayStack_Pop s = Inr (v, s') \<and> stack_rep (as_template s') vs \<and> Some (nat (as_size s')) = Some (nat (as_size s))"
    using array_is_template(4)[of s] by (cases "ArrayStack_Pop s") (auto simp: as_template_def)
qed (auto simp: array_is_template(1,2) as_template_def Stack_Full_def Stack_Empty_def dest: stack_rep_length)

text \<open>The elements reachable from the first one, as addresses and items.\<close>

fun chain :: "(nat \<Rightarrow> (int \<times> nat option) option) \<Rightarrow> nat option \<Rightarrow> nat list \<Rightarrow> int list \<Rightarrow> bool" where
  "chain c p [] vs \<longleftrightarrow> p = None \<and> vs = []"
| "chain c p (a # as) vs \<longleftrightarrow> p = Some a \<and> (\<exists>v n ws. vs = v # ws \<and> c a = Some (v, n) \<and> chain c n as ws)"

definition list_rep :: "IntList \<Rightarrow> int list \<Rightarrow> bool" where
  "list_rep l vs \<longleftrightarrow> (\<exists>as. chain (cells l) (first l) as vs \<and> distinct as \<and> (\<forall>a \<in> set as. a < brk l)
     \<and> last_elt l = (if as = [] then None else Some (last as)))"

lemma chain_frame: "chain c p as vs \<Longrightarrow> \<forall>a \<in> set as. c' a = c a \<Longrightarrow> chain c' p as vs"
  by (induction as arbitrary: p vs) fastforce+

lemma list_prepend_rep:
  assumes "list_rep l vs"
  shows "list_rep (IntList_Prepend v l) (v # vs)"
proof -
  obtain as where as: "chain (cells l) (first l) as vs" "distinct as" "\<forall>a \<in> set as. a < brk l" "last_elt l = (if as = [] then None else Some (last as))"
    using assms by (auto simp: list_rep_def)
  have ch: "chain ((cells l)(brk l \<mapsto> x)) (first l) as vs" for x using as(1,3) by (intro chain_frame[OF as(1)]) auto
  show ?thesis
  proof (cases "first l")
    case None
    then have "as = []" "vs = []" using as(1) by (cases as; simp)+
    then show ?thesis using None as by (auto simp: list_rep_def IntList_Prepend_def IntList_Empty_def Let_def intro!: exI[of _ "[brk l]"])
  next
    case (Some a)
    then have "as \<noteq> []" using as(1) by auto
    then show ?thesis using Some as ch
      by (auto simp: list_rep_def IntList_Prepend_def IntList_Empty_def Let_def intro!: exI[of _ "brk l # as"] intro: less_SucI)
  qed
qed

lemma list_remove_rep:
  assumes "list_rep l (v # vs)"
  shows "\<exists>l'. IntList_Remove l = Inr (v, l') \<and> list_rep l' vs"
proof -
  obtain as where as: "chain (cells l) (first l) as (v # vs)" "distinct as" "\<forall>a \<in> set as. a < brk l" "last_elt l = (if as = [] then None else Some (last as))"
    using assms by (auto simp: list_rep_def)
  then obtain a bs n where a: "as = a # bs" "first l = Some a" "cells l a = Some (v, n)" "chain (cells l) n bs vs" by (cases as) auto
  have ch: "chain ((cells l)(a := None)) n bs vs" using a(1,4) as(2) by (intro chain_frame[OF a(4)]) auto
  show ?thesis
  proof (cases "bs = []")
    case True
    then show ?thesis using a as ch by (auto simp: IntList_Remove_def IntList_Empty_def list_rep_def Let_def)
  next
    case False
    then have "last bs \<noteq> a" using as(2) a(1) by (metis distinct.simps(2) last_in_set)
    then show ?thesis using False a as ch
      by (auto simp: IntList_Remove_def IntList_Empty_def list_rep_def Let_def intro!: exI[of _ bs])
  qed
qed

interpretation lst: int_stack ListStack_Full ListStack_Empty ListStack_Push ListStack_Pop list_rep "\<lambda>s. None"
proof
  show "\<exists>s'. ListStack_Push v s = Inr s' \<and> list_rep s' (v # vs) \<and> (None :: nat option) = None" if "list_rep s vs" for s vs v
    using list_prepend_rep[OF that] by (simp add: ListStack_Push_def)
  show "ListStack_Empty s = (vs = [])" if "list_rep s vs" for s vs
    using that by (auto simp: ListStack_Empty_def IntList_Empty_def list_rep_def elim: chain.elims)
  show "\<exists>s'. ListStack_Pop s = Inr (v, s') \<and> list_rep s' vs \<and> (None :: nat option) = None" if "list_rep s (v # vs)" for s v vs
  proof -
    have "\<not> IntList_Empty s" using that by (auto simp: IntList_Empty_def list_rep_def elim: chain.elims)
    then show ?thesis using list_remove_rep[OF that] by (simp add: ListStack_Pop_def)
  qed
qed (simp add: ListStack_Full_def)

section \<open>The test programs\<close>

text \<open>inheritstack.cc: what the tests of the two implementations print.\<close>

definition inherit_main :: "nat \<Rightarrow> int list \<Rightarrow> (int event list \<times> int event list) res option" where
  "inherit_main fuel junk = (case ArrayStack_new junk 10 of Inl f \<Rightarrow> Some (Inl f) | Inr s1 \<Rightarrow>
     (case Stack_SelfTest ArrayStack_Full ArrayStack_Empty ArrayStack_Push ArrayStack_Pop fuel 10 s1 of
        None \<Rightarrow> None | Some (Inl f) \<Rightarrow> Some (Inl f) | Some (Inr (es, _)) \<Rightarrow>
          map_option (\<lambda>r. bindR r (\<lambda>(fs, _). Inr (es, fs)))
            (Stack_SelfTest ListStack_Full ListStack_Empty ListStack_Push ListStack_Pop fuel 10 ListStack_new)))"

text \<open>templatestack.cc: the tests of \<open>Stack<int>\<close> and \<open>Stack<char>\<close>.\<close>

definition template_main :: "nat \<Rightarrow> int list \<Rightarrow> byte list \<Rightarrow> (int event list \<times> byte event list) res option" where
  "template_main fuel junk1 junk2 = (case Stack_new junk1 10 of Inl f \<Rightarrow> Some (Inl f) | Inr s1 \<Rightarrow>
     (case Stack_new junk2 10 of Inl f \<Rightarrow> Some (Inl f) | Inr s2 \<Rightarrow>
     (case Template_SelfTest (\<lambda>n. n + 1) fuel 17 s1 of None \<Rightarrow> None | Some (Inl f) \<Rightarrow> Some (Inl f) | Some (Inr (es, _)) \<Rightarrow>
        map_option (\<lambda>r. bindR r (\<lambda>(fs, _). Inr (es, fs))) (Template_SelfTest (\<lambda>c. c + 1) fuel 97 s2))))"

text \<open>stack.cc: the class has the text of the template at \<open>int\<close>, and its test starts from 17.\<close>

definition IntStack_SelfTest :: "nat \<Rightarrow> int Stack \<Rightarrow> (int event list \<times> int Stack) res option" where
  "IntStack_SelfTest fuel s = Template_SelfTest (\<lambda>n. n + 1) fuel 17 s"

definition stack_main :: "nat \<Rightarrow> int list \<Rightarrow> (int event list \<times> int Stack) res option" where
  "stack_main fuel junk = (case Stack_new junk 10 of Inl f \<Rightarrow> Some (Inl f) | Inr s \<Rightarrow> IntStack_SelfTest fuel s)"

lemma push_all_fills:
  assumes "stack_rep s vs" and "size_max s = int (length vs + n)" and "n < fuel"
  shows "\<exists>s'. push_all inc fuel x s = Some (Inr (map (\<lambda>i. Pushing ((inc ^^ i) x)) [0..<n], s'))
    \<and> stack_rep s' (rev (map (\<lambda>i. (inc ^^ i) x) [0..<n]) @ vs)"
  using assms
proof (induction n arbitrary: s vs x fuel)
  case 0
  then show ?case using stack_rep_length[OF 0(1)] by (cases fuel) (auto simp: Stack_Full_def)
next
  case (Suc n)
  then obtain m where m: "fuel = Suc m" "n < m" by (cases fuel) auto
  have nf: "\<not> Stack_Full s" using stack_rep_length[OF Suc.prems(1)] Suc.prems(2) by (simp add: Stack_Full_def)
  obtain s1 where s1: "Stack_Push x s = Inr s1" "stack_rep s1 (x # vs)" "size_max s1 = size_max s" using stack_push_rep[OF Suc.prems(1) nf] by blast
  have it: "map (\<lambda>i. g ((inc ^^ i) x)) [0..<Suc n] = g x # map (\<lambda>i. g ((inc ^^ i) (inc x))) [0..<n]" for g :: "'a \<Rightarrow> 'b"
    by (simp add: upt_conv_Cons map_Suc_upt[symmetric] del: upt_Suc) (simp add: funpow_swap1)
  have "size_max s1 = int (length (x # vs) + n)" using s1(3) Suc.prems(2) by simp
  from Suc.IH[OF s1(2) this m(2), of "inc x"] show ?case
    using m(1) nf s1(1) it[of Pushing] it[of id] by (auto simp del: upt_Suc)
qed

lemma Template_SelfTest_prints:
  assumes "stack_rep s []" and "size_max s = int n" and "n < fuel"
  shows "\<exists>s'. Template_SelfTest inc fuel x s = Some (Inr (map Pushing (map (\<lambda>i. (inc ^^ i) x) [0..<n])
      @ map Popping (rev (map (\<lambda>i. (inc ^^ i) x) [0..<n])), s')) \<and> stack_rep s' []"
proof -
  have "size_max s = int (length [] + n)" using assms(2) by simp
  from push_all_fills[OF assms(1) this assms(3), of inc x] obtain s1 where s1: "push_all inc fuel x s = Some (Inr (map Pushing (map (\<lambda>i. (inc ^^ i) x) [0..<n]), s1))"
    "stack_rep s1 (rev (map (\<lambda>i. (inc ^^ i) x) [0..<n]))" by (auto simp: o_def)
  have "length (rev (map (\<lambda>i. (inc ^^ i) x) [0..<n])) < fuel" using assms(3) by simp
  from tmpl.pop_all_reverses[OF s1(2) this] show ?thesis using s1(1) by (auto simp: Template_SelfTest_def)
qed

text \<open>
  The test programs print what they push in order and then pop it in reverse order: the array and the list are
  the same stack to the class that tests them, and the template works at both of its types.
\<close>

theorem stack_tests_print:
  assumes "length junk = 10" and "length junk' = 10" and "10 < fuel"
  shows "inherit_main fuel junk = Some (Inr (map Pushing [17..26] @ map Popping (rev [17..26]), map Pushing [17..26] @ map Popping (rev [17..26])))"
    and "template_main fuel junk junk' = Some (Inr (map Pushing [17..26] @ map Popping (rev [17..26]),
      map Pushing (map (\<lambda>i. 97 + of_nat i) [0..<10]) @ map Popping (rev (map (\<lambda>i. 97 + of_nat i) [0..<10]))))"
    and "\<exists>s. stack_main fuel junk = Some (Inr (map Pushing [17..26] @ map Popping (rev [17..26]), s)) \<and> Stack_Empty s"
proof -
  have a: "stack_rep (as_template \<lparr>as_size = 10, as_top = 0, as_stack = junk\<rparr>) []" "stack_rep \<lparr>size_max = 10, top = 0, stack = junk\<rparr> []"
    "stack_rep \<lparr>size_max = 10, top = 0, stack = junk'\<rparr> []" using assms(1,2) by (simp_all add: stack_rep_def as_template_def)
  have l: "list_rep ListStack_new []" by (simp add: list_rep_def ListStack_new_def IntList_new_def exI[of _ "[]"])
  from arr.SelfTest_prints[OF a(1), of 10 fuel] lst.SelfTest_prints[OF l, of 10 fuel] assms
  show "inherit_main fuel junk = Some (Inr (map Pushing [17..26] @ map Popping (rev [17..26]), map Pushing [17..26] @ map Popping (rev [17..26])))"
    by (auto simp: inherit_main_def ArrayStack_new_def)
  have i: "((\<lambda>n::int. n + 1) ^^ k) 17 = 17 + int k" "((\<lambda>c::byte. c + 1) ^^ k) 97 = 97 + of_nat k" for k by (induction k) simp_all
  have up: "map (\<lambda>k. 17 + int k) [0..<10] = [17..26]" by (simp add: upt_conv_Cons upto_rec1)
  from Template_SelfTest_prints[OF a(2), of 10 fuel "\<lambda>n. n + 1" 17] Template_SelfTest_prints[OF a(3), of 10 fuel "\<lambda>c. c + 1" 97] assms
  show "template_main fuel junk junk' = Some (Inr (map Pushing [17..26] @ map Popping (rev [17..26]),
      map Pushing (map (\<lambda>i. 97 + of_nat i) [0..<10]) @ map Popping (rev (map (\<lambda>i. 97 + of_nat i) [0..<10]))))"
    unfolding i up by (auto simp: template_main_def Stack_new_def)
  from Template_SelfTest_prints[OF a(2), of 10 fuel "\<lambda>n. n + 1" 17] assms
  show "\<exists>s. stack_main fuel junk = Some (Inr (map Pushing [17..26] @ map Popping (rev [17..26]), s)) \<and> Stack_Empty s"
    unfolding i up by (auto simp: stack_main_def IntStack_SelfTest_def Stack_new_def dest: tmpl.emp_iff)
qed

end
