(* ===== verification/Nachos_Interp.thy ===== *)
theory Nachos_Interp
  imports Nachos_CPU Nachos_Coff
begin

text \<open>
  bin/execute.c with bin/instr.h, bin/encode.h, bin/int.h and bin/system.c: the stand-alone MIPS interpreter that comes
  with the tools. It was written independently of machine/mipssim.cc: it decodes by masks instead of tables, has no
  delayed loads, no translation and no exceptions.

  The interpreter stops by \<open>exit\<close>, or where C leaves the result undefined: an access outside \<open>mem\<close> or not aligned for
  its type, a shift by 32 or more, a division that traps on the host. The memory is the array \<open>mem\<close> of \<open>MEMSIZE\<close> bytes on
  a little-endian host. The system calls of the host, which \<open>system_trap\<close> passes on, are the parameter \<open>unix\<close>.
\<close>

section \<open>Instruction words\<close>

definition i_rd :: "word32 \<Rightarrow> nat" where "i_rd i = unat (signed_drop_bit 11 i AND 0x1f)"
definition i_rt :: "word32 \<Rightarrow> nat" where "i_rt i = unat (signed_drop_bit 16 i AND 0x1f)"
definition i_rs :: "word32 \<Rightarrow> nat" where "i_rs i = unat (signed_drop_bit 21 i AND 0x1f)"
definition i_shamt :: "word32 \<Rightarrow> nat" where "i_shamt i = unat (signed_drop_bit 6 i AND 0x1f)"

definition immed :: "word32 \<Rightarrow> word32" where
  "immed i = (if i AND 0x8000 \<noteq> 0 then i OR 0xffff8000 else i AND 0x7fff)"

text \<open>The codes of encode.h.\<close>

abbreviation (input) I_SPECIAL :: word32 where "I_SPECIAL \<equiv> 0"
abbreviation (input) I_BCOND :: word32 where "I_BCOND \<equiv> 1"
abbreviation (input) I_J :: word32 where "I_J \<equiv> 2"
abbreviation (input) I_JAL :: word32 where "I_JAL \<equiv> 3"
abbreviation (input) I_BEQ :: word32 where "I_BEQ \<equiv> 4"
abbreviation (input) I_BNE :: word32 where "I_BNE \<equiv> 5"
abbreviation (input) I_BLEZ :: word32 where "I_BLEZ \<equiv> 6"
abbreviation (input) I_BGTZ :: word32 where "I_BGTZ \<equiv> 7"
abbreviation (input) I_ADDI :: word32 where "I_ADDI \<equiv> 8"
abbreviation (input) I_ADDIU :: word32 where "I_ADDIU \<equiv> 9"
abbreviation (input) I_SLTI :: word32 where "I_SLTI \<equiv> 10"
abbreviation (input) I_SLTIU :: word32 where "I_SLTIU \<equiv> 11"
abbreviation (input) I_ANDI :: word32 where "I_ANDI \<equiv> 12"
abbreviation (input) I_ORI :: word32 where "I_ORI \<equiv> 13"
abbreviation (input) I_XORI :: word32 where "I_XORI \<equiv> 14"
abbreviation (input) I_LUI :: word32 where "I_LUI \<equiv> 15"
abbreviation (input) I_COP0 :: word32 where "I_COP0 \<equiv> 16"
abbreviation (input) I_COP1 :: word32 where "I_COP1 \<equiv> 17"
abbreviation (input) I_COP2 :: word32 where "I_COP2 \<equiv> 18"
abbreviation (input) I_COP3 :: word32 where "I_COP3 \<equiv> 19"
abbreviation (input) I_LB :: word32 where "I_LB \<equiv> 32"
abbreviation (input) I_LH :: word32 where "I_LH \<equiv> 33"
abbreviation (input) I_LWL :: word32 where "I_LWL \<equiv> 34"
abbreviation (input) I_LW :: word32 where "I_LW \<equiv> 35"
abbreviation (input) I_LBU :: word32 where "I_LBU \<equiv> 36"
abbreviation (input) I_LHU :: word32 where "I_LHU \<equiv> 37"
abbreviation (input) I_LWR :: word32 where "I_LWR \<equiv> 38"
abbreviation (input) I_SB :: word32 where "I_SB \<equiv> 40"
abbreviation (input) I_SH :: word32 where "I_SH \<equiv> 41"
abbreviation (input) I_SWL :: word32 where "I_SWL \<equiv> 42"
abbreviation (input) I_SW :: word32 where "I_SW \<equiv> 43"
abbreviation (input) I_SWR :: word32 where "I_SWR \<equiv> 46"
abbreviation (input) I_LWC0 :: word32 where "I_LWC0 \<equiv> 48"
abbreviation (input) I_LWC1 :: word32 where "I_LWC1 \<equiv> 49"
abbreviation (input) I_LWC2 :: word32 where "I_LWC2 \<equiv> 50"
abbreviation (input) I_LWC3 :: word32 where "I_LWC3 \<equiv> 51"
abbreviation (input) I_SWC0 :: word32 where "I_SWC0 \<equiv> 56"
abbreviation (input) I_SWC1 :: word32 where "I_SWC1 \<equiv> 57"
abbreviation (input) I_SWC2 :: word32 where "I_SWC2 \<equiv> 58"
abbreviation (input) I_SWC3 :: word32 where "I_SWC3 \<equiv> 59"
abbreviation (input) I_SLL :: word32 where "I_SLL \<equiv> 0"
abbreviation (input) I_SRL :: word32 where "I_SRL \<equiv> 2"
abbreviation (input) I_SRA :: word32 where "I_SRA \<equiv> 3"
abbreviation (input) I_SLLV :: word32 where "I_SLLV \<equiv> 4"
abbreviation (input) I_SRLV :: word32 where "I_SRLV \<equiv> 6"
abbreviation (input) I_SRAV :: word32 where "I_SRAV \<equiv> 7"
abbreviation (input) I_JR :: word32 where "I_JR \<equiv> 8"
abbreviation (input) I_JALR :: word32 where "I_JALR \<equiv> 9"
abbreviation (input) I_SYSCALL :: word32 where "I_SYSCALL \<equiv> 12"
abbreviation (input) I_BREAK :: word32 where "I_BREAK \<equiv> 13"
abbreviation (input) I_MFHI :: word32 where "I_MFHI \<equiv> 16"
abbreviation (input) I_MTHI :: word32 where "I_MTHI \<equiv> 17"
abbreviation (input) I_MFLO :: word32 where "I_MFLO \<equiv> 18"
abbreviation (input) I_MTLO :: word32 where "I_MTLO \<equiv> 19"
abbreviation (input) I_MULT :: word32 where "I_MULT \<equiv> 24"
abbreviation (input) I_MULTU :: word32 where "I_MULTU \<equiv> 25"
abbreviation (input) I_DIV :: word32 where "I_DIV \<equiv> 26"
abbreviation (input) I_DIVU :: word32 where "I_DIVU \<equiv> 27"
abbreviation (input) I_ADD :: word32 where "I_ADD \<equiv> 32"
abbreviation (input) I_ADDU :: word32 where "I_ADDU \<equiv> 33"
abbreviation (input) I_SUB :: word32 where "I_SUB \<equiv> 34"
abbreviation (input) I_SUBU :: word32 where "I_SUBU \<equiv> 35"
abbreviation (input) I_AND :: word32 where "I_AND \<equiv> 36"
abbreviation (input) I_OR :: word32 where "I_OR \<equiv> 37"
abbreviation (input) I_XOR :: word32 where "I_XOR \<equiv> 38"
abbreviation (input) I_NOR :: word32 where "I_NOR \<equiv> 39"
abbreviation (input) I_SLT :: word32 where "I_SLT \<equiv> 42"
abbreviation (input) I_SLTU :: word32 where "I_SLTU \<equiv> 43"
abbreviation (input) I_BLTZ :: word32 where "I_BLTZ \<equiv> 0"
abbreviation (input) I_BGEZ :: word32 where "I_BGEZ \<equiv> 1"
abbreviation (input) I_BLTZAL :: word32 where "I_BLTZAL \<equiv> 16"
abbreviation (input) I_BGEZAL :: word32 where "I_BGEZAL \<equiv> 17"
abbreviation (input) I_NOP :: word32 where "I_NOP \<equiv> 0"

section \<open>State and memory\<close>

definition MEMSIZE :: nat where "MEMSIZE = 2 ^ 24"
definition memoffset :: word32 where "memoffset = 0x10000000"

record Interp =
  Reg :: "nat \<Rightarrow> word32"
  HI :: word32
  LO :: word32
  mem :: "nat \<Rightarrow> byte"
  ipc :: word32
  inpc :: word32

datatype stop = Exit int | BadAccess | ShiftRange | DivideStop

text \<open>The index in \<open>mem\<close> of an object of \<open>n\<close> bytes at the address \<open>a\<close>.\<close>

definition mem_at :: "nat \<Rightarrow> word32 \<Rightarrow> stop + nat" where
  "mem_at n a = (let i = uint a - uint memoffset in
     if i < 0 \<or> i + int n > int MEMSIZE \<or> uint a mod int n \<noteq> 0 then Inl BadAccess else Inr (nat i))"

definition peek :: "nat \<Rightarrow> word32 \<Rightarrow> Interp \<Rightarrow> stop + word32" where
  "peek n a x = bindE (mem_at n a) (\<lambda>i. Inr (le_word (map (mem x) [i..<i + n])))"

definition poke :: "nat \<Rightarrow> word32 \<Rightarrow> word32 \<Rightarrow> Interp \<Rightarrow> stop + Interp" where
  "poke n a v x = bindE (mem_at n a) (\<lambda>i.
     Inr (x\<lparr>mem := (\<lambda>j. if i \<le> j \<and> j < i + n then le_bytes n v ! (j - i) else mem x j)\<rparr>))"

definition set_Reg :: "nat \<Rightarrow> word32 \<Rightarrow> Interp \<Rightarrow> Interp" where
  "set_Reg r v x = x\<lparr>Reg := (Reg x)(r := v)\<rparr>"

section \<open>System calls\<close>

datatype HostCall = SysRead word32 word32 word32 | SysWrite word32 word32 word32 | SysOpen word32 word32 word32
  | SysLseek word32 word32 word32 | SysIoctl word32 word32 word32 | SysFstat word32 word32 | SysPagesize

type_synonym host_unix = "HostCall \<Rightarrow> (nat \<Rightarrow> byte) \<Rightarrow> word32 \<times> (nat \<Rightarrow> byte)"

definition host_call :: "host_unix \<Rightarrow> HostCall \<Rightarrow> Interp \<Rightarrow> Interp" where
  "host_call unix c x = (let (v, m) = unix c (mem x) in set_Reg 1 v (x\<lparr>mem := m\<rparr>))"

text \<open>The size field of an \<open>ioctl\<close> request of group t is changed from 8 to 6.\<close>

definition ioctl_request :: "word32 \<Rightarrow> word32" where
  "ioctl_request o1 = (let size = signed_drop_bit 16 o1 AND 0x7f; ioctl_group = signed_drop_bit 8 o1 AND 0xff in
     if ioctl_group = 116 \<and> size = 8 then (o1 AND NOT (push_bit 16 0x7f)) OR push_bit 16 6 else o1)"

definition system_trap :: "host_unix \<Rightarrow> Interp \<Rightarrow> stop + Interp" where
  "system_trap unix x = (let syscallno = Reg x 2; o0 = Reg x 4; o1 = Reg x 5; o2 = Reg x 6 in
     if syscallno = 1 then Inl (Exit 0)
     else if syscallno = 3 then Inr (host_call unix (SysRead o0 o1 o2) x)
     else if syscallno = 4 then Inr (host_call unix (SysWrite o0 o1 o2) x)
     else if syscallno = 5 then Inr (host_call unix (SysOpen o0 o1 o2) x)
     else if syscallno = 6 then Inr (set_Reg 1 0 x)
     else if syscallno = 17 then Inr (set_Reg 1 (word_of_int ((sint o0 sdiv 8192 + 1) * 8192)) x)
     else if syscallno = 19 then Inr (host_call unix (SysLseek o0 o1 o2) x)
     else if syscallno = 54 then Inr (set_Reg 1 0 (host_call unix (SysIoctl o0 (ioctl_request o1) o2) x))
     else if syscallno = 62 then Inr (host_call unix (SysFstat o1 o2) x)
     else if syscallno = 64 then Inr (host_call unix SysPagesize x)
     else Inl (Exit 2))"

section \<open>Instructions\<close>

text \<open>The two multiplications: the pair \<open>(HI, LO)\<close>. The shifts of the cross products are arithmetic, and the carries of
  their low halves are not added.\<close>

definition mul_words :: "word32 \<Rightarrow> word32 \<Rightarrow> word32 \<times> word32" where
  "mul_words t1 t2 =
    (let t1l = t1 AND 0xffff; t1h = signed_drop_bit 16 t1 AND 0xffff; t2l = t2 AND 0xffff; t2h = signed_drop_bit 16 t2 AND 0xffff in
     (t1h * t2h + signed_drop_bit 16 (t1h * t2l) + signed_drop_bit 16 (t2h * t1l), t1 * t2))"

definition exec_mult :: "word32 \<Rightarrow> word32 \<Rightarrow> word32 \<times> word32" where
  "exec_mult a b =
    (let t1 = (if sint a < 0 then - a else a); t2 = (if sint b < 0 then - b else b); neg = ((sint a < 0) \<noteq> (sint b < 0));
         (hi, lo) = mul_words t1 t2
     in if neg then (let lo = NOT lo; hi = NOT hi; lo = lo + 1 in (if lo = 0 then hi + 1 else hi, lo)) else (hi, lo))"

text \<open>A shift by a register.\<close>

definition shift_by :: "(nat \<Rightarrow> word32 \<Rightarrow> word32) \<Rightarrow> word32 \<Rightarrow> word32 \<Rightarrow> stop + word32" where
  "shift_by f a b = (if sint a < 0 \<or> sint a > 31 then Inl ShiftRange else Inr (f (unat a) b))"

definition exec_special :: "host_unix \<Rightarrow> word32 \<Rightarrow> word32 \<Rightarrow> Interp \<Rightarrow> stop + Interp" where
  "exec_special unix instr xpc x =
    (let a = Reg x (i_rs instr); b = Reg x (i_rt instr); rd = (\<lambda>v. Inr (set_Reg (i_rd instr) v x)); f = instr AND 0x3f in
     if f = I_SLL then rd (push_bit (i_shamt instr) b)
     else if f = I_SRL then rd (drop_bit (i_shamt instr) b)
     else if f = I_SRA then rd (signed_drop_bit (i_shamt instr) b)
     else if f = I_SLLV then bindE (shift_by push_bit a b) rd
     else if f = I_SRLV then bindE (shift_by drop_bit a b) rd
     else if f = I_SRAV then bindE (shift_by signed_drop_bit a b) rd
     else if f = I_JR then Inr (x\<lparr>inpc := a\<rparr>)
     else if f = I_JALR then Inr (set_Reg (i_rd instr) (xpc + 8) (x\<lparr>inpc := a\<rparr>))
     else if f = I_SYSCALL then system_trap unix x
     else if f = I_BREAK then system_trap unix x
     else if f = I_MFHI then rd (HI x)
     else if f = I_MTHI then Inr (x\<lparr>HI := a\<rparr>)
     else if f = I_MFLO then rd (LO x)
     else if f = I_MTLO then Inr (x\<lparr>LO := a\<rparr>)
     else if f = I_MULT then (let (hi, lo) = exec_mult a b in Inr (x\<lparr>LO := lo, HI := hi\<rparr>))
     else if f = I_MULTU then (let (hi, lo) = mul_words a b in Inr (x\<lparr>LO := lo, HI := hi\<rparr>))
     else if f = I_DIV then
       if b = 0 \<or> a = SIGN_BIT \<and> b = - 1 then Inl DivideStop
       else Inr (x\<lparr>LO := word_of_int (sint a sdiv sint b), HI := word_of_int (sint a smod sint b)\<rparr>)
     else if f = I_DIVU then
       if b = 0 then Inl DivideStop else Inr (x\<lparr>LO := a div b, HI := a mod b\<rparr>)
     else if f = I_ADD \<or> f = I_ADDU then rd (a + b)
     else if f = I_SUB \<or> f = I_SUBU then rd (a - b)
     else if f = I_AND then rd (a AND b)
     else if f = I_OR then rd (a OR b)
     else if f = I_XOR then rd (a XOR b)
     else if f = I_NOR then rd (NOT (a OR b))
     else if f = I_SLT then rd (if sint a < sint b then 1 else 0)
     else if f = I_SLTU then rd (if a < b then 1 else 0)
     else Inl (Exit 2))"

text \<open>\<open>if (cond) npc = xpc + 4 + (immed(instr) << 2)\<close>.\<close>

definition goto_if :: "bool \<Rightarrow> word32 \<Rightarrow> word32 \<Rightarrow> Interp \<Rightarrow> Interp" where
  "goto_if cond instr xpc x = (if cond then x\<lparr>inpc := xpc + 4 + push_bit 2 (immed instr)\<rparr> else x)"

definition exec_bcond :: "word32 \<Rightarrow> word32 \<Rightarrow> Interp \<Rightarrow> stop + Interp" where
  "exec_bcond instr xpc x =
    (let t = i_rt instr; r = i_rs instr; link = set_Reg 31 (xpc + 8) x in
     if t = unat I_BLTZ then Inr (goto_if (sint (Reg x r) < 0) instr xpc x)
     else if t = unat I_BGEZ then Inr (goto_if (sint (Reg x r) \<ge> 0) instr xpc x)
     else if t = unat I_BLTZAL then Inr (goto_if (sint (Reg link r) < 0) instr xpc link)
     else if t = unat I_BGEZAL then Inr (goto_if (sint (Reg link r) \<ge> 0) instr xpc link)
     else Inl (Exit 2))"

definition jump_target :: "word32 \<Rightarrow> word32 \<Rightarrow> word32" where
  "jump_target instr xpc = (xpc AND 0xf0000000) OR push_bit 2 (instr AND 0x03ffffff)"

text \<open>The loads of half-words and bytes, extended to 32 bits.\<close>

definition sext :: "nat \<Rightarrow> word32 \<Rightarrow> word32" where
  "sext n v = signed_take_bit (n - 1) v"

definition exec_imm :: "word32 \<Rightarrow> word32 \<Rightarrow> Interp \<Rightarrow> stop + Interp" where
  "exec_imm instr op x =
    (let a = Reg x (i_rs instr); im = immed instr; rt = (\<lambda>v. Inr (set_Reg (i_rt instr) v x)) in
     if op = I_ADDI \<or> op = I_ADDIU then rt (a + im)
     else if op = I_SLTI then rt (if sint a < sint im then 1 else 0)
     else if op = I_SLTIU then rt (if a < im then 1 else 0)
     else if op = I_ANDI then rt (a AND im)
     else if op = I_ORI then rt (a OR im)
     else if op = I_XORI then rt (a XOR im)
     else rt (push_bit 16 instr))"

definition exec_mem :: "word32 \<Rightarrow> word32 \<Rightarrow> Interp \<Rightarrow> stop + Interp" where
  "exec_mem instr op x =
    (let i = Reg x (i_rs instr) + immed instr; b = Reg x (i_rt instr); rt = (\<lambda>v. Inr (set_Reg (i_rt instr) v x));
         up = 8 * unat (i AND 3); dn = 8 * unat (- i AND 3) in
     if op = I_LB then bindE (peek 1 i x) (\<lambda>v. rt (sext 8 v))
     else if op = I_LH then bindE (peek 2 i x) (\<lambda>v. rt (sext 16 v))
     else if op = I_LWL then bindE (peek 4 (i AND 0xfffffffc) x) (\<lambda>v. rt ((b AND signed_drop_bit dn (- 1)) OR push_bit up v))
     else if op = I_LW then bindE (peek 4 i x) rt
     else if op = I_LBU then bindE (peek 1 i x) rt
     else if op = I_LHU then bindE (peek 2 i x) rt
     else if op = I_LWR then bindE (peek 4 (i AND 0xfffffffc) x) (\<lambda>v.
       rt ((if i AND 3 = 0 then 0 else b AND push_bit up (- 1)) OR signed_drop_bit dn v))
     else if op = I_SB then poke 1 i b x
     else if op = I_SH then poke 2 i b x
     else poke 4 i b x)"

definition exec_instr :: "host_unix \<Rightarrow> word32 \<Rightarrow> word32 \<Rightarrow> Interp \<Rightarrow> stop + Interp" where
  "exec_instr unix instr xpc x =
    (let op = signed_drop_bit 26 instr AND 0x3f; a = Reg x (i_rs instr); b = Reg x (i_rt instr) in
     if op = I_SPECIAL then exec_special unix instr xpc x
     else if op = I_BCOND then exec_bcond instr xpc x
     else if op = I_J then Inr (x\<lparr>inpc := jump_target instr xpc\<rparr>)
     else if op = I_JAL then Inr ((set_Reg 31 (xpc + 8) x)\<lparr>inpc := jump_target instr xpc\<rparr>)
     else if op = I_BEQ then Inr (goto_if (a = b) instr xpc x)
     else if op = I_BNE then Inr (goto_if (a \<noteq> b) instr xpc x)
     else if op = I_BLEZ then Inr (goto_if (sint a \<le> 0) instr xpc x)
     else if op = I_BGTZ then Inr (goto_if (sint a > 0) instr xpc x)
     else if op \<in> {I_ADDI, I_ADDIU, I_SLTI, I_SLTIU, I_ANDI, I_ORI, I_XORI, I_LUI} then exec_imm instr op x
     else if op \<in> {I_LB, I_LH, I_LWL, I_LW, I_LBU, I_LHU, I_LWR, I_SB, I_SH, I_SW} then exec_mem instr op x
     else Inl (Exit 2))"

section \<open>The loop\<close>

text \<open>One round; a word of zeros is not looked at.\<close>

definition interp_step :: "host_unix \<Rightarrow> Interp \<Rightarrow> stop + Interp" where
  "interp_step unix x =
    (let xpc = ipc x; x = x\<lparr>ipc := inpc x, inpc := inpc x + 4\<rparr> in
     bindE (peek 4 xpc x) (\<lambda>instr. let x = set_Reg 0 0 x in
     if instr \<noteq> 0 then exec_instr unix instr xpc x else Inr x))"

text \<open>\<open>for ( ; ; )\<close> is left by \<open>exit\<close> only: the first \<open>n\<close> rounds.\<close>

primrec interp_rounds :: "host_unix \<Rightarrow> nat \<Rightarrow> Interp \<Rightarrow> stop + Interp" where
  "interp_rounds unix 0 x = Inr x"
| "interp_rounds unix (Suc n) x = bindE (interp_step unix x) (interp_rounds unix n)"

text \<open>The arguments: \<open>strcpy\<close> to \<open>ai\<close>, its address to \<open>aci\<close>. An argument is the bytes before its zero.\<close>

definition copy_str :: "byte list \<Rightarrow> word32 \<Rightarrow> Interp \<Rightarrow> stop + Interp" where
  "copy_str s a x = forE (\<lambda>(k, c). poke 1 (a + of_nat k) (ucast c)) (zip [0..<length s + 1] (s @ [0])) x"

fun place_args :: "byte list list \<Rightarrow> word32 \<Rightarrow> word32 \<Rightarrow> Interp \<Rightarrow> stop + Interp" where
  "place_args [] aci ai x = Inr x"
| "place_args (s # argv) aci ai x = bindE (copy_str s ai x) (\<lambda>x. bindE (poke 4 aci ai x) (place_args argv (aci + 4) (ai + of_nat (length s + 1))))"

definition initial_sp :: word32 where
  "initial_sp = of_nat MEMSIZE - 1024 + memoffset"

definition interp_start :: "word32 \<Rightarrow> byte list list \<Rightarrow> Interp \<Rightarrow> stop + Interp" where
  "interp_start startpc argv x =
    (let x = set_Reg 29 initial_sp (x\<lparr>ipc := startpc, inpc := startpc + 4\<rparr>) in
     bindE (poke 4 initial_sp (of_nat (length argv)) x) (place_args argv (initial_sp + 4) (initial_sp + 4 + 32)))"

definition runprogram :: "host_unix \<Rightarrow> nat \<Rightarrow> word32 \<Rightarrow> byte list list \<Rightarrow> Interp \<Rightarrow> stop + Interp" where
  "runprogram unix n startpc argv x = bindE (interp_start startpc argv x) (interp_rounds unix n)"

section \<open>Two interpreters, one machine\<close>

text \<open>The decoding by masks and the decoding by tables.\<close>

lemma sdrop_mask: "signed_drop_bit 26 w AND 0x3f = of_nat (field 26 0x3f w)" "i_rd w = field 11 0x1f w" "i_rt w = field 16 0x1f w"
  "i_rs w = field 21 0x1f w" "i_shamt w = unat (drop_bit 6 w AND 0x1f)"
proof -
  have m: "(0x3f :: word32) = mask 6" "(0x1f :: word32) = mask 5" by (simp_all add: mask_eq_exp_minus_1)
  have d: "k + j \<le> 32 \<Longrightarrow> signed_drop_bit k w AND mask j = drop_bit k w AND mask j" for k j
    by (rule bit_word_eqI) (auto simp: bit_simps)
  show "signed_drop_bit 26 w AND 0x3f = of_nat (field 26 0x3f w)" "i_rd w = field 11 0x1f w" "i_rt w = field 16 0x1f w"
    "i_rs w = field 21 0x1f w" "i_shamt w = unat (drop_bit 6 w AND 0x1f)"
    unfolding field_def i_rd_def i_rt_def i_rs_def i_shamt_def m by (simp_all add: d)
qed

lemma immed_is_extra: "immed w = decode_extra IFMT w"
proof -
  have b: "(w AND 0xffff) AND 0x8000 = w AND 0x8000" by (simp add: and.assoc)
  have n: "(0xffff8000 :: word32) = NOT (mask 15)" "(0xffff0000 :: word32) = NOT (mask 16)" "(0xffff :: word32) = mask 16"
    "(0x7fff :: word32) = mask 15" by (simp_all add: mask_eq_exp_minus_1)
  have e: "(0x8000 :: word32) = 2 ^ 15" by simp
  have s: "w AND 0x8000 \<noteq> 0 \<longleftrightarrow> bit w 15" unfolding e and_exp_eq_0_iff_not_bit by simp
  show ?thesis unfolding immed_def decode_extra_def OpFormat.case Let_def b unfolding s n
    by (rule bit_word_eqI) (auto simp: bit_simps less_Suc_eq_le numeral_eq_Suc le_Suc_eq)
qed

text \<open>Where the tables of the simulator have an operation, if they have it.\<close>

definition normal_code :: "(OpCode \<times> nat) list" where
  "normal_code = [(OP_J, 2), (OP_JAL, 3), (OP_BEQ, 4), (OP_BNE, 5), (OP_BLEZ, 6), (OP_BGTZ, 7), (OP_ADDI, 8), (OP_ADDIU, 9), (OP_SLTI, 10), (OP_SLTIU, 11), (OP_ANDI, 12), (OP_ORI, 13), (OP_XORI, 14), (OP_LUI, 15)]"

definition special_code :: "(OpCode \<times> nat) list" where
  "special_code = [(OP_SLL, 0), (OP_SRL, 2), (OP_SRA, 3), (OP_SLLV, 4), (OP_SRLV, 6), (OP_SRAV, 7), (OP_JR, 8), (OP_JALR, 9), (OP_MFHI, 16), (OP_MTHI, 17), (OP_MFLO, 18), (OP_MTLO, 19), (OP_MULT, 24), (OP_MULTU, 25), (OP_DIV, 26), (OP_DIVU, 27), (OP_ADD, 32), (OP_ADDU, 33), (OP_SUB, 34), (OP_SUBU, 35), (OP_AND, 36), (OP_OR, 37), (OP_XOR, 38), (OP_NOR, 39), (OP_SLT, 42), (OP_SLTU, 43)]"

lemma tables_agree:
  "\<forall>k \<in> set [0..<64]. (\<forall>(p, i) \<in> set normal_code. fst (opTable ! k) = p \<longrightarrow> k = i) \<and> (\<forall>(p, i) \<in> set special_code. fst (opTable ! k) \<noteq> p)
    \<and> (\<forall>(p, i) \<in> set special_code. specialTable ! k = p \<longrightarrow> k = i) \<and> (\<forall>(p, i) \<in> set normal_code. specialTable ! k \<noteq> p)
    \<and> (fst (opTable ! k) = SPECIAL \<longleftrightarrow> k = 0) \<and> (fst (opTable ! k) = BCOND \<longleftrightarrow> k = 1)
    \<and> fst (opTable ! k) \<notin> {OP_BLTZ, OP_BGEZ, OP_BLTZAL, OP_BGEZAL} \<and> specialTable ! k \<notin> {OP_BLTZ, OP_BGEZ, OP_BLTZAL, OP_BGEZAL}
    \<and> snd (opTable ! k) = (if k = 0 then RFMT else if k = 2 \<or> k = 3 then JFMT else IFMT)"
  by code_simp

lemma Decode_normal:
  assumes "opCode (Decode w) = p" and "(p, i) \<in> set normal_code"
  shows "field 26 0x3f w = i" "extra (Decode w) = decode_extra (if i = 2 \<or> i = 3 then JFMT else IFMT) w"
proof -
  let ?k = "field 26 0x3f w"
  have k: "?k \<in> set [0..<64]" "field 0 0x3f w \<in> set [0..<64]" using field_bound(2) by simp_all
  have b: "p \<notin> {OP_BLTZ, OP_BGEZ, OP_BLTZAL, OP_BGEZAL, OP_UNIMP}" "i \<noteq> 0" using assms(2) by (auto simp: normal_code_def)
  have "decode_op (fst (opTable ! ?k)) w = p" using assms(1) by (simp add: Decode_def case_prod_beta)
  moreover have "specialTable ! field 0 0x3f w \<noteq> p" using bspec[OF tables_agree k(2)] assms(2) by fast
  ultimately have "fst (opTable ! ?k) = p" using b by (auto simp: decode_op_def Let_def split: if_splits)
  then show i: "?k = i" using bspec[OF tables_agree k(1)] assms(2) by fast
  have "snd (opTable ! ?k) = (if i = 2 \<or> i = 3 then JFMT else IFMT)" using bspec[OF tables_agree k(1)] i b(2) by simp
  then show "extra (Decode w) = decode_extra (if i = 2 \<or> i = 3 then JFMT else IFMT) w" by (simp add: Decode_def case_prod_beta)
qed

lemma Decode_special:
  assumes "opCode (Decode w) = p" and "(p, i) \<in> set special_code"
  shows "field 26 0x3f w = 0" "field 0 0x3f w = i" "extra (Decode w) = decode_extra RFMT w"
proof -
  let ?k = "field 26 0x3f w"
  have k: "?k \<in> set [0..<64]" "field 0 0x3f w \<in> set [0..<64]" using field_bound(2) by simp_all
  have b: "p \<notin> {OP_BLTZ, OP_BGEZ, OP_BLTZAL, OP_BGEZAL, OP_UNIMP}" using assms(2) by (auto simp: special_code_def)
  have d: "decode_op (fst (opTable ! ?k)) w = p" using assms(1) by (simp add: Decode_def case_prod_beta)
  moreover have "fst (opTable ! ?k) \<noteq> p" using bspec[OF tables_agree k(1)] assms(2) by fast
  ultimately have s: "fst (opTable ! ?k) = SPECIAL" using b by (auto simp: decode_op_def Let_def split: if_splits)
  then show z: "?k = 0" using bspec[OF tables_agree k(1)] by simp
  have "specialTable ! field 0 0x3f w = p" using d s by (simp add: decode_op_def)
  then show "field 0 0x3f w = i" using bspec[OF tables_agree k(2)] assms(2) by fast
  have "snd (opTable ! ?k) = RFMT" using bspec[OF tables_agree k(1)] z by simp
  then show "extra (Decode w) = decode_extra RFMT w" by (simp add: Decode_def case_prod_beta)
qed

lemma Decode_bcond:
  assumes "opCode (Decode w) = p" and "p \<in> {OP_BLTZ, OP_BGEZ, OP_BLTZAL, OP_BGEZAL}"
  shows "field 26 0x3f w = 1" "extra (Decode w) = decode_extra IFMT w"
    "w AND 0x1f0000 = (if p = OP_BLTZ then 0 else if p = OP_BGEZ then 0x10000 else if p = OP_BLTZAL then 0x100000 else 0x110000)"
proof -
  let ?k = "field 26 0x3f w"
  have k: "?k \<in> set [0..<64]" "field 0 0x3f w \<in> set [0..<64]" using field_bound(2) by simp_all
  have d: "decode_op (fst (opTable ! ?k)) w = p" using assms(1) by (simp add: Decode_def case_prod_beta)
  moreover have "fst (opTable ! ?k) \<noteq> p" "specialTable ! field 0 0x3f w \<noteq> p"
    using bspec[OF tables_agree k(1)] bspec[OF tables_agree k(2)] assms(2) by fast+
  ultimately have s: "fst (opTable ! ?k) = BCOND" by (auto simp: decode_op_def Let_def split: if_splits)
  then show z: "?k = 1" using bspec[OF tables_agree k(1)] by fast
  have "snd (opTable ! ?k) = IFMT" using bspec[OF tables_agree k(1)] z by simp
  then show "extra (Decode w) = decode_extra IFMT w" by (simp add: Decode_def case_prod_beta)
  show "w AND 0x1f0000 = (if p = OP_BLTZ then 0 else if p = OP_BGEZ then 0x10000 else if p = OP_BLTZAL then 0x100000 else 0x110000)"
    using d s assms(2) by (auto simp: decode_op_def Let_def split: if_splits)
qed

text \<open>The registers both have, and the instructions on which the two interpreters are to agree, with the conditions: no
  overflow trap, no division that stops one of them, a shift count in range, and none of the operands on which one of the two
  departs from the instruction set.\<close>

definition agree :: "Interp \<Rightarrow> 'k Machine_scheme \<Rightarrow> bool" where
  "agree x m \<longleftrightarrow> (\<forall>r. 0 < r \<and> r < 32 \<longrightarrow> Reg x r = reg m r) \<and> HI x = reg m HiReg \<and> LO x = reg m LoReg"

text \<open>The high word of \<open>mul_words\<close> is right for these factors: neither cross product of their halves has its sign bit set, and
  the sum of the parts below the high word does not carry.\<close>

definition carry_free :: "word32 \<Rightarrow> word32 \<Rightarrow> bool" where
  "carry_free a b \<longleftrightarrow> (let ah = uint a div 2 ^ 16; al = uint a mod 2 ^ 16; bh = uint b div 2 ^ 16; bl = uint b mod 2 ^ 16 in
     ah * bl < 2 ^ 31 \<and> bh * al < 2 ^ 31 \<and> al * bl div 2 ^ 16 + ah * bl mod 2 ^ 16 + bh * al mod 2 ^ 16 < 2 ^ 16)"

definition magnitude :: "word32 \<Rightarrow> word32" where
  "magnitude a = (if sint a < 0 then - a else a)"

definition same_meaning :: "Instruction \<Rightarrow> 'k Machine_scheme \<Rightarrow> bool" where
  "same_meaning ins m =
    (let a = reg m (rs ins); b = reg m (rt ins); ex = extra ins; pc = reg m PCReg in case opCode ins of
       OP_ADD \<Rightarrow> in_range (sint a + sint b)
     | OP_ADDI \<Rightarrow> in_range (sint a + sint ex)
     | OP_SUB \<Rightarrow> in_range (sint a - sint b)
     | OP_DIV \<Rightarrow> b \<noteq> 0 \<and> \<not> (a = SIGN_BIT \<and> b = - 1)
     | OP_DIVU \<Rightarrow> b \<noteq> 0
     | OP_MULT \<Rightarrow> carry_free (magnitude a) (magnitude b)
     | OP_MULTU \<Rightarrow> carry_free a b
     | OP_SLLV \<Rightarrow> 0 \<le> sint a \<and> sint a \<le> 31
     | OP_SRAV \<Rightarrow> 0 \<le> sint a \<and> sint a \<le> 31
     | OP_SRL \<Rightarrow> \<not> bit b 31
     | OP_SRLV \<Rightarrow> \<not> bit b 31 \<and> 0 \<le> sint a \<and> sint a \<le> 31
     | OP_OR \<Rightarrow> a OR b = a
     | OP_ANDI \<Rightarrow> \<not> bit ex 15
     | OP_ORI \<Rightarrow> \<not> bit ex 15
     | OP_XORI \<Rightarrow> \<not> bit ex 15
     | OP_J \<Rightarrow> pc AND 0xf0000000 = (pc + 8) AND 0xf0000000
     | OP_JAL \<Rightarrow> pc AND 0xf0000000 = (pc + 8) AND 0xf0000000
     | OP_JALR \<Rightarrow> rd ins \<noteq> rs ins
     | op \<Rightarrow> op \<in> {OP_ADDU, OP_SUBU, OP_AND, OP_XOR, OP_NOR, OP_SLL, OP_SRA, OP_SLT, OP_SLTU, OP_MFHI, OP_MFLO, OP_MTHI, OP_MTLO, OP_JR,
         OP_ADDIU, OP_SLTI, OP_SLTIU, OP_LUI, OP_BEQ, OP_BNE, OP_BLEZ, OP_BGTZ, OP_BLTZ, OP_BGEZ, OP_BLTZAL, OP_BGEZAL})"

text \<open>Both at the same instruction, outside a delay slot.\<close>

definition in_step :: "word32 \<Rightarrow> Interp \<Rightarrow> 'k Machine_scheme \<Rightarrow> bool" where
  "in_step pc x m \<longleftrightarrow> agree x m \<and> Reg x 0 = 0 \<and> reg m 0 = 0 \<and> reg m PCReg = pc \<and> reg m NextPCReg = pc + 4 \<and> ipc x = pc + 4 \<and> inpc x = pc + 8"

definition same_result :: "(stop + Interp) \<Rightarrow> 'k Machine_scheme exec res \<Rightarrow> bool" where
  "same_result r e \<longleftrightarrow> (\<exists>x m pcAfter. r = Inr x \<and> e = Inr (Done m pcAfter 0 0) \<and> agree x m \<and> inpc x = pcAfter \<and> ipc x = reg m NextPCReg)"

lemma in_step_regs: "in_step pc x m \<Longrightarrow> r < 32 \<Longrightarrow> Reg x r = reg m r" "in_step pc x m \<Longrightarrow> HI x = reg m HiReg" "in_step pc x m \<Longrightarrow> LO x = reg m LoReg"
  by (cases "r = 0") (auto simp: in_step_def agree_def)

lemma same_result_reg:
  assumes "in_step pc x m" and "r < 32"
  shows "same_result (Inr (set_Reg r v x)) (brk_next m (set_reg r v m))"
  using assms by (auto simp: same_result_def in_step_def agree_def set_Reg_def brk_next_def pcAfter0_def reg_defs)

lemma same_result_next:
  assumes "in_step pc x m" and "agree x' m'" and "ipc x' = ipc x" "inpc x' = inpc x" and "reg m' NextPCReg = reg m NextPCReg"
  shows "same_result (Inr x') (brk_next m m')"
  using assms by (auto simp: same_result_def in_step_def brk_next_def pcAfter0_def)

lemma Decode_regs: "rs (Decode w) = i_rs w" "rt (Decode w) = i_rt w" "rd (Decode w) = i_rd w" "i_rs w < 32" "i_rt w < 32" "i_rd w < 32"
  by (simp_all add: sdrop_mask field_bound Decode_def case_prod_beta)

lemma immed_low: "\<not> bit (immed w) 15 \<Longrightarrow> immed w AND 0xffff = immed w" "push_bit 16 (immed w) = push_bit 16 w"
proof -
  have n: "(0xffff8000 :: word32) = NOT (mask 15)" "(0xffff :: word32) = mask 16" "(0x7fff :: word32) = mask 15" by (simp_all add: mask_eq_exp_minus_1)
  have e: "(0x8000 :: word32) = 2 ^ 15" by simp
  have s: "w AND 0x8000 \<noteq> 0 \<longleftrightarrow> bit w 15" unfolding e and_exp_eq_0_iff_not_bit by simp
  have j: "bit (immed w) j = bit w j" if "j < 16" for j unfolding immed_def s unfolding n
    by (cases "j = 15") (use that in \<open>auto simp: bit_simps\<close>)
  show "push_bit 16 (immed w) = push_bit 16 w"
    by (rule bit_word_eqI) (auto simp: bit_push_bit_iff j)
  show "\<not> bit (immed w) 15 \<Longrightarrow> immed w AND 0xffff = immed w" unfolding immed_def s unfolding n
    by (intro bit_word_eqI) (auto simp: bit_simps split: if_splits)
qed

lemma addi_in_range: "in_range (sint a + sint c) \<Longrightarrow> \<not> ((a XOR c) AND SIGN_BIT = 0 \<and> (c XOR (a + c)) AND SIGN_BIT \<noteq> 0)"
  using add_overflow_iff[of c a] by (simp add: add.commute xor.commute)

lemma imm_agrees:
  assumes st: "in_step pc x m" and sm: "same_meaning (Decode w) m"
    and op: "opCode (Decode w) \<in> {OP_ADDI, OP_ADDIU, OP_SLTI, OP_SLTIU, OP_ANDI, OP_ORI, OP_XORI, OP_LUI}"
  shows "same_result (exec_instr unix w pc x) (execute eh (Decode w) m)"
proof -
  note f = Decode_regs[of w]
  have r: "Reg x (i_rs w) = reg m (i_rs w)" using in_step_regs(1)[OF st f(4)] .
  note res = same_result_reg[OF st f(5)]
  have ex: "opCode (Decode w) = p \<Longrightarrow> (p, i) \<in> set normal_code \<Longrightarrow> i \<notin> {2, 3} \<Longrightarrow> field 26 63 w = i \<and> extra (Decode w) = immed w" for p i
    using Decode_normal[of w p i] by (simp add: immed_is_extra)
  note defs = normal_code_def exec_instr_def exec_imm_def sdrop_mask(1) execute_def Let_def same_meaning_def f r res immed_low
  from op show ?thesis
    apply (elim insertE emptyE)
    subgoal using ex[of OP_ADDI 8] sm addi_in_range[of "reg m (i_rs w)" "immed w"] by (auto simp: defs exec_add_and_def)
    subgoal using ex[of OP_ADDIU 9] by (simp add: defs exec_add_and_def)
    subgoal using ex[of OP_SLTI 10] by (simp add: defs exec_shift_set_def)
    subgoal using ex[of OP_SLTIU 11] by (simp add: defs exec_shift_set_def)
    subgoal using ex[of OP_ANDI 12] sm by (simp add: defs exec_add_and_def)
    subgoal using ex[of OP_ORI 13] sm by (simp add: defs exec_hilo_logic_def)
    subgoal using ex[of OP_XORI 14] sm by (simp add: defs exec_sys_xor_def)
    subgoal using ex[of OP_LUI 15] by (simp add: defs exec_load_def)
    done
qed

lemma i_rt_mask: "i_rt w = unat (drop_bit 16 (w AND 0x1f0000))"
proof -
  have m: "(0x1f0000 :: word32) = push_bit 16 (mask 5)" "(0x1f :: word32) = mask 5" by (simp_all add: mask_eq_exp_minus_1 push_bit_eq_mult)
  have "signed_drop_bit 16 w AND 0x1f = drop_bit 16 (w AND 0x1f0000)" unfolding m by (rule bit_word_eqI) (auto simp: bit_simps)
  then show ?thesis by (simp add: i_rt_def)
qed

lemma branch_agrees:
  assumes st: "in_step pc x m"
    and op: "opCode (Decode w) \<in> {OP_BEQ, OP_BNE, OP_BLEZ, OP_BGTZ, OP_BLTZ, OP_BGEZ, OP_BLTZAL, OP_BGEZAL}"
  shows "same_result (exec_instr unix w pc x) (execute eh (Decode w) m)"
proof -
  note f = Decode_regs[of w]
  have r: "Reg x (i_rs w) = reg m (i_rs w)" "Reg x (i_rt w) = reg m (i_rt w)" using in_step_regs(1)[OF st] f by simp_all
  have br: "same_result (Inr (goto_if c w pc x')) (brk_branch c (Decode w) m m')"
    if "extra (Decode w) = immed w" "agree x' m'" "ipc x' = ipc x" "inpc x' = inpc x" "reg m' NextPCReg = reg m NextPCReg" for c x' m'
    using st that by (auto simp: same_result_def in_step_def goto_if_def brk_branch_def pcAfter0_def IndexToAddr_def agree_def)
  have b0: "agree x m" "agree (set_Reg 31 (pc + 8) x) (set_reg R31 (reg m NextPCReg + 4) m)"
    using st by (auto simp: in_step_def agree_def set_Reg_def R31_def reg_defs add.assoc)
  have b1: "same_result (Inr (goto_if c w pc x)) (brk_branch c (Decode w) m m)" if "extra (Decode w) = immed w" for c
    using br[OF that b0(1)] by simp
  have b2: "same_result (Inr (goto_if c w pc (set_Reg 31 (pc + 8) x))) (brk_branch c (Decode w) m (set_reg R31 (reg m NextPCReg + 4) m))"
    if "extra (Decode w) = immed w" for c using br[OF that b0(2)] by (simp add: set_Reg_def R31_def reg_defs)
  have l: "Reg (set_Reg 31 (pc + 8) x) (i_rs w) = reg (set_reg R31 (reg m NextPCReg + 4) m) (i_rs w)"
    using st r(1) by (simp add: in_step_def set_Reg_def R31_def add.assoc)
  have n: "opCode (Decode w) = p \<Longrightarrow> (p, i) \<in> set normal_code \<Longrightarrow> i \<notin> {2, 3} \<Longrightarrow> field 26 63 w = i \<and> extra (Decode w) = immed w" for p i
    using Decode_normal[of w p i] by (simp add: immed_is_extra)
  have sg: "sint v < 0 \<longleftrightarrow> v AND SIGN_BIT \<noteq> 0" "0 \<le> sint v \<longleftrightarrow> v AND SIGN_BIT = 0" for v :: word32
    using sint_neg_iff[of v] SIGN_BIT_iff[of v] by (auto simp: not_less)
  have c: "opCode (Decode w) = p \<Longrightarrow> p \<in> {OP_BLTZ, OP_BGEZ, OP_BLTZAL, OP_BGEZAL} \<Longrightarrow> field 26 63 w = 1 \<and> extra (Decode w) = immed w
    \<and> i_rt w = (if p = OP_BLTZ then 0 else if p = OP_BGEZ then 1 else if p = OP_BLTZAL then 16 else 17)" for p
    using Decode_bcond[of w p] i_rt_mask[of w] by (auto simp: immed_is_extra drop_bit_eq_div)
  note defs = normal_code_def exec_instr_def sdrop_mask(1) execute_def Let_def f r exec_branch_def
  from op show ?thesis
    apply (elim insertE emptyE)
    subgoal using n[of OP_BEQ 4] b1 by (simp add: defs)
    subgoal using n[of OP_BNE 5] b1 by (simp add: defs)
    subgoal using n[of OP_BLEZ 6] b1 by (simp add: defs)
    subgoal using n[of OP_BGTZ 7] b1 by (simp add: defs)
    subgoal using c[of OP_BLTZ] b1 by (simp add: defs exec_bcond_def sg)
    subgoal using c[of OP_BGEZ] b1 by (simp add: defs exec_bcond_def sg)
    subgoal using c[of OP_BLTZAL] b2 l by (simp add: defs exec_bcond_def sg)
    subgoal using c[of OP_BGEZAL] b2 l by (simp add: defs exec_bcond_def sg)
    done
qed

lemma jump_agrees:
  assumes st: "in_step pc x m" and sm: "same_meaning (Decode w) m" and op: "opCode (Decode w) \<in> {OP_J, OP_JAL, OP_JR, OP_JALR}"
  shows "same_result (exec_instr unix w pc x) (execute eh (Decode w) m)"
proof -
  note f = Decode_regs[of w]
  have r: "Reg x (i_rs w) = reg m (i_rs w)" using in_step_regs(1)[OF st f(4)] .
  have d: "i_rd w \<noteq> 32" "i_rd w \<noteq> 33" "i_rd w \<noteq> 35" using f(6) by simp_all
  have n: "opCode (Decode w) = p \<Longrightarrow> (p, i) \<in> set normal_code \<Longrightarrow> field 26 63 w = i \<and> extra (Decode w) = decode_extra (if i = 2 \<or> i = 3 then JFMT else IFMT) w" for p i
    using Decode_normal[of w p i] by simp
  have s: "opCode (Decode w) = p \<Longrightarrow> (p, i) \<in> set special_code \<Longrightarrow> field 26 63 w = 0 \<and> w AND 63 = of_nat i" for p i
    using Decode_special[of w p i] by (auto simp: field_def)
  note defs = normal_code_def special_code_def exec_instr_def sdrop_mask(1) execute_def Let_def f r exec_jump_def same_result_def in_step_def agree_def
    set_Reg_def R31_def jump_target_def pcAfter0_def IndexToAddr_def decode_extra_def add.assoc reg_defs same_meaning_def
  from op show ?thesis
    apply (elim insertE emptyE)
    subgoal using n[of OP_J 2] st sm by (simp add: defs)
    subgoal using n[of OP_JAL 3] st sm by (simp add: defs)
    subgoal using s[of OP_JR 8] st by (simp add: defs exec_special_def)
    subgoal using s[of OP_JALR 9] st sm by (simp add: defs exec_special_def d)
    done
qed

lemma shift_facts:
  fixes a b :: word32
  shows "0 \<le> sint a \<Longrightarrow> sint a \<le> 31 \<Longrightarrow> shift_by h a b = Inr (h (unat (a AND 0x1f)) b)"
    and "\<not> bit b 31 \<Longrightarrow> signed_drop_bit k b = drop_bit k b"
proof -
  show "\<not> bit b 31 \<Longrightarrow> signed_drop_bit k b = drop_bit k b"
    by (intro bit_word_eqI) (auto simp: bit_simps min_def dest: bit_imp_le_length)
  assume a: "0 \<le> sint a" "sint a \<le> 31"
  then have u: "uint a \<le> 31" using sint_neg_iff[of a] sint_uint32[of a] by (auto split: if_splits)
  have "uint (take_bit 5 a) = uint a" using u by (simp add: unsigned_take_bit_eq take_bit_int_eq_self)
  then have "take_bit 5 a = a" by (simp only: word_uint_eq_iff)
  moreover have "a AND 0x1f = take_bit 5 a" by (simp add: take_bit_eq_mask mask_eq_exp_minus_1)
  ultimately have "a AND 0x1f = a" by simp
  then show "shift_by h a b = Inr (h (unat (a AND 0x1f)) b)" using a by (simp add: shift_by_def)
qed

lemma alu_agrees:
  assumes st: "in_step pc x m" and sm: "same_meaning (Decode w) m" and op: "opCode (Decode w) \<in> {OP_ADD, OP_ADDU, OP_SUB, OP_SUBU, OP_AND, OP_OR, OP_XOR, OP_NOR, OP_SLT, OP_SLTU, OP_SLL, OP_SRL, OP_SRA, OP_SLLV, OP_SRLV, OP_SRAV, OP_MFHI, OP_MFLO}"
  shows "same_result (exec_instr unix w pc x) (execute eh (Decode w) m)"
proof -
  note f = Decode_regs[of w]
  have r: "Reg x (i_rs w) = reg m (i_rs w)" "Reg x (i_rt w) = reg m (i_rt w)" using in_step_regs(1)[OF st] f by simp_all
  note hl = in_step_regs(2,3)[OF st] and res = same_result_reg[OF st f(6)]
  have s: "opCode (Decode w) = p \<Longrightarrow> (p, i) \<in> set special_code \<Longrightarrow> field 26 63 w = 0 \<and> w AND 63 = of_nat i
    \<and> unat (extra (Decode w)) = i_shamt w" for p i
    using Decode_special[of w p i] sdrop_mask(5)[of w] by (auto simp: field_def decode_extra_def)
  note defs = special_code_def exec_instr_def exec_special_def sdrop_mask(1) execute_def Let_def f r hl res same_meaning_def shift_facts
  from op show ?thesis
    apply (elim insertE emptyE)
    subgoal using s[of OP_ADD 32] sm add_overflow_iff[of "reg m (i_rs w)" "reg m (i_rt w)"] by (auto simp: defs exec_add_and_def)
    subgoal using s[of OP_ADDU 33] sm by (simp add: defs exec_add_and_def)
    subgoal using s[of OP_SUB 34] sm sub_overflow_iff[of "reg m (i_rs w)" "reg m (i_rt w)"] by (auto simp: defs exec_sub_def)
    subgoal using s[of OP_SUBU 35] sm by (simp add: defs exec_sub_def)
    subgoal using s[of OP_AND 36] sm by (simp add: defs exec_add_and_def)
    subgoal using s[of OP_OR 37] sm by (simp add: defs exec_hilo_logic_def)
    subgoal using s[of OP_XOR 38] sm by (simp add: defs exec_sys_xor_def)
    subgoal using s[of OP_NOR 39] sm by (simp add: defs exec_hilo_logic_def)
    subgoal using s[of OP_SLT 42] sm by (simp add: defs exec_shift_set_def)
    subgoal using s[of OP_SLTU 43] sm by (simp add: defs exec_shift_set_def)
    subgoal using s[of OP_SLL 0] sm by (simp add: defs exec_shift_set_def)
    subgoal using s[of OP_SRL 2] sm by (simp add: defs exec_shift_set_def)
    subgoal using s[of OP_SRA 3] sm by (simp add: defs exec_shift_set_def)
    subgoal using s[of OP_SLLV 4] sm by (simp add: defs exec_shift_set_def)
    subgoal using s[of OP_SRLV 6] sm by (simp add: defs exec_shift_set_def)
    subgoal using s[of OP_SRAV 7] sm by (simp add: defs exec_shift_set_def)
    subgoal using s[of OP_MFHI 16] sm by (simp add: defs exec_hilo_logic_def)
    subgoal using s[of OP_MFLO 18] sm by (simp add: defs exec_hilo_logic_def)
    done
qed

text \<open>Multiplication. The product by halves, and that of the simulator's loop.\<close>

lemma product_halves:
  fixes ah al bh bl :: int
  assumes "0 \<le> al" "0 \<le> bl" "0 \<le> ah" "0 \<le> bh" and "al * bl div 2 ^ 16 + ah * bl mod 2 ^ 16 + bh * al mod 2 ^ 16 < 2 ^ 16"
  shows "((ah * 2 ^ 16 + al) * (bh * 2 ^ 16 + bl)) div 2 ^ 32 = ah * bh + ah * bl div 2 ^ 16 + bh * al div 2 ^ 16"
proof -
  let ?c = "al * bl div 2 ^ 16 + ah * bl mod 2 ^ 16 + bh * al mod 2 ^ 16"
  have split: "t * 2 ^ 32 + ((x1 * 2 ^ 16 + x0) + (y1 * 2 ^ 16 + y0)) * 2 ^ 16 + (z1 * 2 ^ 16 + z0)
      = (t + x1 + y1) * 2 ^ 32 + ((z1 + x0 + y0) * 2 ^ 16 + z0)" for t x1 x0 y1 y0 z1 z0 :: int by (simp add: algebra_simps)
  have "(ah * 2 ^ 16 + al) * (bh * 2 ^ 16 + bl) = ah * bh * 2 ^ 32 + (ah * bl + bh * al) * 2 ^ 16 + al * bl" by (simp add: algebra_simps)
  also have "\<dots> = (ah * bh + ah * bl div 2 ^ 16 + bh * al div 2 ^ 16) * 2 ^ 32 + (?c * 2 ^ 16 + al * bl mod 2 ^ 16)"
    using split[of "ah * bh" "ah * bl div 2 ^ 16" "ah * bl mod 2 ^ 16" "bh * al div 2 ^ 16" "bh * al mod 2 ^ 16" "al * bl div 2 ^ 16" "al * bl mod 2 ^ 16"]
    by (simp only: div_mult_mod_eq)
  finally have p: "(ah * 2 ^ 16 + al) * (bh * 2 ^ 16 + bl) = (?c * 2 ^ 16 + al * bl mod 2 ^ 16) + (ah * bh + ah * bl div 2 ^ 16 + bh * al div 2 ^ 16) * 2 ^ 32" by simp
  have "0 \<le> ?c" using assms(1-4) by (simp add: pos_imp_zdiv_nonneg_iff)
  then have "0 \<le> ?c * 2 ^ 16 + al * bl mod 2 ^ 16" by simp
  moreover have "al * bl mod 2 ^ 16 < 2 ^ 16" by simp
  then have "?c * 2 ^ 16 + al * bl mod 2 ^ 16 < 2 ^ 32" using assms(5) by simp
  ultimately have "(?c * 2 ^ 16 + al * bl mod 2 ^ 16) div 2 ^ 32 = 0" by (rule div_pos_pos_trivial)
  then show ?thesis unfolding p by (subst div_mult_self1) simp_all
qed

lemma halves_uint:
  fixes a b :: word32
  shows "uint (a AND 0xffff) = uint a mod 2 ^ 16" "uint (signed_drop_bit 16 a AND 0xffff) = uint a div 2 ^ 16"
    and "uint a < 2 ^ 31 \<Longrightarrow> uint (signed_drop_bit 16 a) = uint a div 2 ^ 16"
proof -
  have m: "(0xffff :: word32) = mask 16" by (simp add: mask_eq_exp_minus_1)
  show "uint (a AND 0xffff) = uint a mod 2 ^ 16" unfolding m
    by (simp only: take_bit_eq_mask[symmetric] unsigned_take_bit_eq) (simp only: take_bit_eq_mod)
  have "signed_drop_bit 16 a AND 0xffff = drop_bit 16 a" unfolding m by (rule bit_word_eqI) (auto simp: bit_simps dest: bit_imp_le_length)
  then show "uint (signed_drop_bit 16 a AND 0xffff) = uint a div 2 ^ 16" by (simp add: drop_bit_eq_div uint_div)
  assume "uint a < 2 ^ 31"
  then have "\<not> bit a 31" unfolding bit_31_uint by simp
  then have "signed_drop_bit 16 a = drop_bit 16 a" by (rule shift_facts(2))
  then show "uint (signed_drop_bit 16 a) = uint a div 2 ^ 16" by (simp add: drop_bit_eq_div uint_div)
qed

lemma mul_words_exact:
  assumes "carry_free a b"
  shows "mul_words a b = (word_of_int (uint a * uint b div 2 ^ 32), a * b)"
proof -
  define ah al bh bl where d: "ah = uint a div 2 ^ 16" "al = uint a mod 2 ^ 16" "bh = uint b div 2 ^ 16" "bl = uint b mod 2 ^ 16"
  have r: "0 \<le> ah" "0 \<le> al" "0 \<le> bh" "0 \<le> bl" by (simp_all add: d pos_imp_zdiv_nonneg_iff)
  have c: "ah * bl < 2 ^ 31" "bh * al < 2 ^ 31" "al * bl div 2 ^ 16 + ah * bl mod 2 ^ 16 + bh * al mod 2 ^ 16 < 2 ^ 16"
    using assms by (simp_all add: carry_free_def d Let_def)
  have half: "signed_drop_bit 16 (x * y) = word_of_int (p * q div 2 ^ 16)"
    if "uint x = p" "uint y = q" "0 \<le> p" "0 \<le> q" "p * q < 2 ^ 31" for x y :: word32 and p q
  proof -
    have "uint (x * y) = p * q" using that by (simp add: uint_word_ariths)
    then have "uint (signed_drop_bit 16 (x * y)) = p * q div 2 ^ 16" using halves_uint(3)[of "x * y"] that(5) by simp
    then show ?thesis by (metis word_of_int_uint)
  qed
  have ab: "uint a = ah * 2 ^ 16 + al" "uint b = bh * 2 ^ 16 + bl" by (simp_all add: d)
  define a1 a0 b1 b0 where w: "a1 = signed_drop_bit 16 a AND 0xffff" "a0 = a AND 0xffff" "b1 = signed_drop_bit 16 b AND 0xffff" "b0 = b AND 0xffff"
  have u: "uint a1 = ah" "uint a0 = al" "uint b1 = bh" "uint b0 = bl" unfolding w d by (rule halves_uint)+
  then have hh: "a1 * b1 = word_of_int (ah * bh)" by (metis wi_hom_mult word_of_int_uint)
  have "fst (mul_words a b) = a1 * b1 + signed_drop_bit 16 (a1 * b0) + signed_drop_bit 16 (b1 * a0)" by (simp add: mul_words_def Let_def w)
  also have "\<dots> = word_of_int (ah * bh + ah * bl div 2 ^ 16 + bh * al div 2 ^ 16)"
    unfolding half[OF u(1,4) r(1,4) c(1)] half[OF u(3,2) r(3,2) c(2)] hh by simp
  also have "\<dots> = word_of_int (uint a * uint b div 2 ^ 32)" unfolding ab by (simp only: product_halves[OF r(2,4,1,3) c(3)])
  finally show ?thesis by (simp add: prod_eq_iff mul_words_def Let_def)
qed

lemma mult_loop_exact: "mult_loop 32 a b 0 0 0 = (word_of_int (uint a * uint b div 2 ^ 32), a * b)"
proof -
  obtain h l where hl: "mult_loop 32 a b 0 0 0 = (h, l)" by (cases "mult_loop 32 a b 0 0 0")
  have zero: "(0 :: int) \<le> 2 ^ 32" "(2 :: int) ^ 32 * 2 ^ 32 = 2 ^ 64" by simp_all
  have "uint a * uint b < 2 ^ 32 * 2 ^ 32" using uint_bounds32[of a] uint_bounds32[of b] by (intro mult_strict_mono) simp_all
  moreover have "uint h * 2 ^ 32 + uint l < 2 ^ 64" using uint_bounds32[of h] uint_bounds32[of l] by simp
  moreover have "uint (word_of_int (uint h * 2 ^ 32 + uint l) :: 64 word) = uint (word_of_int (uint a * uint b) :: 64 word)"
    using mult_unsigned[OF hl] unfolding dword_def by (rule arg_cong)
  moreover have "uint (word_of_int x :: 64 word) = x" if "0 \<le> x" "x < 2 ^ 64" for x
    using that by (simp add: uint_word_of_int)
  note u = this[of "uint a * uint b"] this[of "uint h * 2 ^ 32 + uint l"]
  ultimately have p: "uint h * 2 ^ 32 + uint l = uint a * uint b"
    using uint_bounds32(1) u unfolding zero by (metis add_nonneg_nonneg mult_nonneg_nonneg zero(1))
  have "uint h = uint a * uint b div 2 ^ 32" "uint l = uint a * uint b mod 2 ^ 32"
    unfolding p[symmetric] using uint_bounds32[of l] by simp_all
  then have "h = word_of_int (uint a * uint b div 2 ^ 32)" "l = word_of_int (uint a * uint b mod 2 ^ 32)" by (metis word_of_int_uint)+
  moreover have "uint (a * b) = uint a * uint b mod 2 ^ 32" by (simp add: uint_word_ariths)
  then have "word_of_int (uint a * uint b mod 2 ^ 32) = a * b" by (metis word_of_int_uint)
  ultimately show ?thesis using hl by simp
qed

lemma mult_agree:
  shows "carry_free a b \<Longrightarrow> mul_words a b = Mult a b False"
    and "carry_free (magnitude a) (magnitude b) \<Longrightarrow> exec_mult a b = Mult a b True"
proof -
  have z: "mul_words 0 c = (0, 0)" "mul_words c 0 = (0, 0)" for c by (simp_all add: mul_words_def)
  show "carry_free a b \<Longrightarrow> mul_words a b = Mult a b False"
    using mul_words_exact[of a b] mult_loop_exact[of a b] z by (auto simp: Mult_def)
  assume "carry_free (magnitude a) (magnitude b)"
  then have "mul_words (magnitude a) (magnitude b) = mult_loop 32 (magnitude a) (magnitude b) 0 0 0" by (simp add: mul_words_exact mult_loop_exact)
  moreover have "exec_mult a b = (0, 0)" if "a = 0 \<or> b = 0" using that z by (auto simp: exec_mult_def)
  ultimately show "exec_mult a b = Mult a b True" by (auto simp: exec_mult_def Mult_def magnitude_def Let_def split: prod.splits)
qed

lemma hilo_agrees:
  assumes st: "in_step pc x m" and sm: "same_meaning (Decode w) m" and op: "opCode (Decode w) \<in> {OP_MTHI, OP_MTLO, OP_DIV, OP_DIVU, OP_MULT, OP_MULTU}"
  shows "same_result (exec_instr unix w pc x) (execute eh (Decode w) m)"
proof -
  note f = Decode_regs[of w]
  have r: "Reg x (i_rs w) = reg m (i_rs w)" "Reg x (i_rt w) = reg m (i_rt w)" using in_step_regs(1)[OF st] f by simp_all
  have s: "opCode (Decode w) = p \<Longrightarrow> (p, i) \<in> set special_code \<Longrightarrow> field 26 63 w = 0 \<and> w AND 63 = of_nat i" for p i
    using Decode_special[of w p i] by (auto simp: field_def)
  note defs = special_code_def exec_instr_def exec_special_def sdrop_mask(1) execute_def Let_def f r same_meaning_def
    same_result_def in_step_def agree_def brk_next_def pcAfter0_def reg_defs
  let ?a = "reg m (i_rs w)" and ?b = "reg m (i_rt w)"
  have res: "same_result (case p of (hi, lo) \<Rightarrow> Inr (x\<lparr>LO := lo, HI := hi\<rparr>)) (case p of (hi, lo) \<Rightarrow> brk_next m (set_reg LoReg lo (set_reg HiReg hi m)))" for p
    using st by (cases p) (simp add: same_result_def in_step_def agree_def brk_next_def pcAfter0_def reg_defs)
  note mdefs = special_code_def exec_instr_def exec_special_def sdrop_mask(1) Let_def
  have ex: "field 26 63 w = 0 \<and> w AND 63 = 24 \<Longrightarrow> exec_instr unix w pc x = (case exec_mult (Reg x (i_rs w)) (Reg x (i_rt w)) of (hi, lo) \<Rightarrow> Inr (x\<lparr>LO := lo, HI := hi\<rparr>))"
    "field 26 63 w = 0 \<and> w AND 63 = 25 \<Longrightarrow> exec_instr unix w pc x = (case mul_words (Reg x (i_rs w)) (Reg x (i_rt w)) of (hi, lo) \<Rightarrow> Inr (x\<lparr>LO := lo, HI := hi\<rparr>))"
    by (simp_all add: mdefs)
  have sim: "opCode (Decode w) = OP_MULT \<Longrightarrow> execute eh (Decode w) m = (case Mult ?a ?b True of (hi, lo) \<Rightarrow> brk_next m (set_reg LoReg lo (set_reg HiReg hi m)))"
    "opCode (Decode w) = OP_MULTU \<Longrightarrow> execute eh (Decode w) m = (case Mult ?a ?b False of (hi, lo) \<Rightarrow> brk_next m (set_reg LoReg lo (set_reg HiReg hi m)))"
    by (simp_all add: execute_def exec_hilo_logic_def Let_def f)
  from op show ?thesis
    apply (elim insertE emptyE)
    subgoal using s[of OP_MTHI 17] st by (simp add: defs exec_hilo_logic_def)
    subgoal using s[of OP_MTLO 19] st by (simp add: defs exec_hilo_logic_def)
    subgoal using s[of OP_DIV 26] st sm by (simp add: defs exec_div_def)
    subgoal using s[of OP_DIVU 27] st sm by (simp add: defs exec_div_def)
    subgoal premises p
    proof -
      have m: "exec_mult ?a ?b = Mult ?a ?b True" using sm p by (intro mult_agree(2)) (simp add: same_meaning_def f)
      have c: "field 26 63 w = 0 \<and> w AND 63 = 24" using s[of OP_MULT 24] p by (simp add: special_code_def)
      show ?thesis unfolding ex(1)[OF c] sim(1)[OF p] r m by (rule res)
    qed
    subgoal premises p
    proof -
      have m: "mul_words ?a ?b = Mult ?a ?b False" using sm p by (intro mult_agree(1)) (simp add: same_meaning_def f)
      have c: "field 26 63 w = 0 \<and> w AND 63 = 25" using s[of OP_MULTU 25] p by (simp add: special_code_def)
      show ?thesis unfolding ex(2)[OF c] sim(2)[OF p] r m by (rule res)
    qed
    done
qed

text \<open>
  C9. Two interpreters for one instruction set. On every instruction word that is an arithmetic, logical, shift,
  comparison, branch or jump instruction, the interpreter of bin/execute.c and the simulator of machine/mipssim.cc, started
  from the same registers at the same program counter, go on at the same address with the same registers: the decoding by
  masks and the decoding by tables give the same instruction, and the two give it the same meaning. The conditions are in
  \<open>same_meaning\<close>. There is no overflow trap, which only the simulator has, and no division that stops the interpreter; a shift
  count in a register is at most 31; a jump does not cross a 256 MB boundary in its delay slot; \<open>jalr\<close> does not overwrite its
  source. The rest are operands on which one of the two departs from the instruction set: logical right shifts of negative
  words and \<open>or\<close> in the simulator; in the interpreter the immediate logical operations with bit 15 set, and the multiplications of
  factors (for \<open>mult\<close>, of their magnitudes) for which it loses a carry or a sign bit below the high word of the product (\<open>carry_free\<close>).
\<close>

theorem interpreters_agree:
  assumes "in_step pc x m" and "same_meaning (Decode w) m"
  shows "same_result (exec_instr unix w pc x) (execute eh (Decode w) m)"
proof -
  have "opCode (Decode w) \<in> {OP_ADDI, OP_ADDIU, OP_SLTI, OP_SLTIU, OP_ANDI, OP_ORI, OP_XORI, OP_LUI}
      \<union> {OP_BEQ, OP_BNE, OP_BLEZ, OP_BGTZ, OP_BLTZ, OP_BGEZ, OP_BLTZAL, OP_BGEZAL} \<union> {OP_J, OP_JAL, OP_JR, OP_JALR}
      \<union> {OP_ADD, OP_ADDU, OP_SUB, OP_SUBU, OP_AND, OP_OR, OP_XOR, OP_NOR, OP_SLT, OP_SLTU, OP_SLL, OP_SRL, OP_SRA, OP_SLLV, OP_SRLV, OP_SRAV, OP_MFHI, OP_MFLO}
      \<union> {OP_MTHI, OP_MTLO, OP_DIV, OP_DIVU, OP_MULT, OP_MULTU}"
    using assms(2) by (cases "opCode (Decode w)") (simp_all add: same_meaning_def)
  then show ?thesis using imm_agrees branch_agrees jump_agrees alu_agrees hilo_agrees assms by (metis (no_types) UnE)
qed

text \<open>\<open>addu r3, r1, r2\<close> with 5 in \<open>r1\<close> and 7 in \<open>r2\<close>.\<close>

definition demo_interp :: Interp where
  "demo_interp = \<lparr>Reg = (\<lambda>_. 0)(1 := 5, 2 := 7), HI = 0, LO = 0, mem = (\<lambda>_. 0), ipc = memoffset + 4, inpc = memoffset + 8\<rparr>"

definition demo_cpu :: Machine where
  "demo_cpu = set_reg 1 5 (set_reg 2 7 (set_reg PCReg memoffset (set_reg NextPCReg (memoffset + 4) (Machine_new False 0 0))))"

lemma interpreters_agree_witness:
  "same_meaning (Decode 0x00221821) demo_cpu
    \<and> same_result (exec_instr (\<lambda>c m. (0, m)) 0x00221821 memoffset demo_interp) (execute (\<lambda>e m. Inl NoReturn) (Decode 0x00221821) demo_cpu)
    \<and> (\<exists>x. exec_instr (\<lambda>c m. (0, m)) 0x00221821 memoffset demo_interp = Inr x \<and> Reg x 3 = 12)"
proof -
  have d: "opCode (Decode 0x00221821) = OP_ADDU" "i_rs 0x00221821 = 1" "i_rt 0x00221821 = 2" "i_rd 0x00221821 = 3" by code_simp+
  have o: "signed_drop_bit 26 0x00221821 AND 0x3f = (0 :: word32)" by code_simp
  have i: "in_step memoffset demo_interp demo_cpu"
    by (auto simp: in_step_def agree_def demo_interp_def demo_cpu_def Machine_new_def reg_defs)
  have sm: "same_meaning (Decode 0x00221821) demo_cpu" by (simp add: same_meaning_def d)
  have "exec_instr (\<lambda>c m. (0, m)) 0x00221821 memoffset demo_interp = Inr (set_Reg 3 12 demo_interp)"
    by (simp add: exec_instr_def exec_special_def d o demo_interp_def)
  moreover have "same_result (exec_instr (\<lambda>c m. (0, m)) 0x00221821 memoffset demo_interp) (execute (\<lambda>e m. Inl NoReturn) (Decode 0x00221821) demo_cpu)"
    by (rule interpreters_agree[OF i sm])
  ultimately show ?thesis using sm by (auto simp: set_Reg_def)
qed

text \<open>The low word of a product is right in both multiplications.\<close>

lemma multu_low: "snd (mul_words a b) = a * b"
  by (simp add: mul_words_def Let_def)

lemma mult_low: "snd (exec_mult a b) = a * b"
proof -
  have "NOT w + 1 = - w" for w :: word32 by (simp add: minus_eq_not_plus_1)
  then show ?thesis by (simp add: exec_mult_def mul_words_def Let_def)
qed

text \<open>The high word is not: the interpreter loses the carry out of the middle of the product, where \<open>Mult\<close> of the
  simulator is exact.\<close>

lemma mult_high_differs: "fst (exec_mult 0x18000 0x18000) = 1" "fst (Mult 0x18000 0x18000 True) = 2"
  by code_simp+

section \<open>The arguments of the program\<close>

definition put :: "nat \<Rightarrow> byte list \<Rightarrow> (nat \<Rightarrow> byte) \<Rightarrow> nat \<Rightarrow> byte" where
  "put i bs m j = (if i \<le> j \<and> j < i + length bs then bs ! (j - i) else m j)"

definition addr :: "nat \<Rightarrow> word32" where
  "addr i = memoffset + of_nat i"

definition mem_word :: "(nat \<Rightarrow> byte) \<Rightarrow> nat \<Rightarrow> word32" where
  "mem_word m i = le_word (map m [i..<i + 4])"

lemma addr_uint: "i \<le> MEMSIZE \<Longrightarrow> uint (addr i) = uint memoffset + int i"
proof -
  assume "i \<le> MEMSIZE"
  then have "i \<le> 2 ^ 24" by (simp add: MEMSIZE_def)
  moreover from this have "take_bit 32 i = i" by (simp add: take_bit_nat_eq_self)
  ultimately show ?thesis by (simp add: addr_def memoffset_def uint_word_ariths unsigned_of_nat)
qed

lemma mem_at_addr: "i + n \<le> MEMSIZE \<Longrightarrow> n \<in> {1, 2, 4} \<Longrightarrow> n dvd i \<Longrightarrow> mem_at n (addr i) = Inr i"
proof -
  assume a: "i + n \<le> MEMSIZE" "n \<in> {1, 2, 4}" "n dvd i"
  have "(uint memoffset + int i) mod int n = 0" using a(2,3) by (auto simp: memoffset_def mod_eq_0_iff_dvd dvd_add_right_iff int_dvd_int_iff)
  then show ?thesis using a(1) addr_uint[of i] by (simp add: mem_at_def Let_def)
qed

lemma poke_addr: "i + n \<le> MEMSIZE \<Longrightarrow> n \<in> {1, 2, 4} \<Longrightarrow> n dvd i \<Longrightarrow> poke n (addr i) v x = Inr (x\<lparr>mem := put i (le_bytes n v) (mem x)\<rparr>)"
  using mem_at_addr[of i n] by (simp add: poke_def put_def[abs_def])

lemma addr_add: "addr i + of_nat k = addr (i + k)"
  by (simp add: addr_def)

lemma put_append: "put i (bs @ [c]) m = put (i + length bs) [c] (put i bs m)"
  by (auto simp: put_def fun_eq_iff nth_append)

lemma ucast_byte [simp]: "ucast (ucast c :: word32) = (c :: byte)"
  by (rule bit_word_eqI) (auto simp: bit_simps)

lemma put_Nil [simp]: "put i [] m = m"
  by (auto simp: put_def fun_eq_iff)

lemma copy_str_addr:
  assumes "i + length s < MEMSIZE"
  shows "copy_str s (addr i) x = Inr (x\<lparr>mem := put i (s @ [0]) (mem x)\<rparr>)"
proof -
  have "forE (\<lambda>(k, c). poke 1 (addr i + of_nat k) (ucast c)) (zip [0..<length bs] bs) x = Inr (x\<lparr>mem := put i bs (mem x)\<rparr>)"
    if "i + length bs \<le> MEMSIZE" for bs :: "byte list"
    using that
  proof (induction bs rule: rev_induct)
    case Nil
    then show ?case by simp
  next
    case (snoc c bs)
    have "forE f (xs @ ys) y = bindE (forE f xs y) (forE f ys)" for f :: "nat \<times> byte \<Rightarrow> Interp \<Rightarrow> stop + Interp" and xs ys y
      by (induction xs arbitrary: y) (auto simp: bindE_def split: sum.splits)
    then show ?case using snoc poke_addr[of "i + length bs" 1 "ucast c"] by (simp add: addr_add put_append)
  qed
  from this[of "s @ [0]"] assms show ?thesis by (simp add: copy_str_def)
qed

text \<open>The strings one behind the other from \<open>q\<close>.\<close>

fun str_at :: "nat \<Rightarrow> byte list list \<Rightarrow> nat \<Rightarrow> nat" where
  "str_at q [] j = q"
| "str_at q (s # argv) 0 = q"
| "str_at q (s # argv) (Suc j) = str_at (q + length s + 1) argv j"

definition args_in :: "nat \<Rightarrow> nat \<Rightarrow> byte list list \<Rightarrow> (nat \<Rightarrow> byte) \<Rightarrow> bool" where
  "args_in p q argv m \<longleftrightarrow> (\<forall>j < length argv. mem_word m (p + 4 * j) = addr (str_at q argv j)
     \<and> map m [str_at q argv j..<str_at q argv j + length (argv ! j) + 1] = argv ! j @ [0])"

definition args_size :: "byte list list \<Rightarrow> nat" where
  "args_size argv = sum_list (map (\<lambda>s. length s + 1) argv)"

lemma put_outside: "j < i \<or> i + length bs \<le> j \<Longrightarrow> put i bs m j = m j"
  by (auto simp: put_def)

lemma map_put: "map (put i bs m) [i..<i + length bs] = bs"
  by (rule nth_equalityI) (auto simp: put_def)

lemma mem_word_put: "mem_word (put i (le_bytes 4 v) m) i = v"
  using map_put[of i "le_bytes 4 v" m] by (simp add: mem_word_def)

lemma mem_cong: "(\<And>j. i \<le> j \<Longrightarrow> j < i + n \<Longrightarrow> m j = m' j) \<Longrightarrow> map m [i..<i + n] = map m' [i..<i + n]"
  by (intro map_cong) auto

lemma mem_word_cong: "(\<And>j. i \<le> j \<Longrightarrow> j < i + 4 \<Longrightarrow> m j = m' j) \<Longrightarrow> mem_word m i = mem_word m' i"
  unfolding mem_word_def by (rule arg_cong[of _ _ le_word]) (rule mem_cong)

lemma place_args_ok:
  assumes "p + 4 * length argv \<le> q" and "q + args_size argv \<le> MEMSIZE" and "4 dvd p"
  shows "\<exists>m. place_args argv (addr p) (addr q) x = Inr (x\<lparr>mem := m\<rparr>) \<and> args_in p q argv m
    \<and> (\<forall>j. j < p \<or> p + 4 * length argv \<le> j \<and> j < q \<or> q + args_size argv \<le> j \<longrightarrow> m j = mem x j)"
  using assms
proof (induction argv arbitrary: p q x)
  case Nil
  then show ?case by (intro exI[of _ "mem x"]) (simp add: args_in_def)
next
  case (Cons s argv)
  let ?m = "put p (le_bytes 4 (addr q)) (put q (s @ [0]) (mem x))"
  have sz: "args_size (s # argv) = length s + 1 + args_size argv" by (simp add: args_size_def)
  have "copy_str s (addr q) x = Inr (x\<lparr>mem := put q (s @ [0]) (mem x)\<rparr>)" using Cons.prems(2) sz by (intro copy_str_addr) simp
  moreover have "poke 4 (addr p) (addr q) (x\<lparr>mem := put q (s @ [0]) (mem x)\<rparr>) = Inr (x\<lparr>mem := ?m\<rparr>)"
    using Cons.prems sz by (subst poke_addr) auto
  moreover have "addr p + 4 = addr (p + 4)" "addr q + of_nat (length s + 1) = addr (q + length s + 1)" by (simp_all add: addr_def)
  ultimately have pl: "place_args (s # argv) (addr p) (addr q) x = place_args argv (addr (p + 4)) (addr (q + length s + 1)) (x\<lparr>mem := ?m\<rparr>)" by simp
  obtain m where m: "place_args argv (addr (p + 4)) (addr (q + length s + 1)) (x\<lparr>mem := ?m\<rparr>) = Inr (x\<lparr>mem := m\<rparr>)"
    "args_in (p + 4) (q + length s + 1) argv m"
    "\<forall>j. j < p + 4 \<or> p + 4 + 4 * length argv \<le> j \<and> j < q + length s + 1 \<or> q + length s + 1 + args_size argv \<le> j \<longrightarrow> m j = ?m j"
    using Cons.IH[of "p + 4" "q + length s + 1" "x\<lparr>mem := ?m\<rparr>"] Cons.prems sz by (auto simp: algebra_simps)
  have w: "mem_word m p = addr q"
  proof -
    have "mem_word m p = mem_word ?m p" by (rule mem_word_cong) (use m(3) in auto)
    then show ?thesis by (simp only: mem_word_put)
  qed
  have t: "map m [q..<q + length s + 1] = s @ [0]"
  proof -
    have "map m [q..<q + length (s @ [0])] = map (put q (s @ [0]) (mem x)) [q..<q + length (s @ [0])]"
      by (rule mem_cong) (use m(3) Cons.prems(1) put_outside in auto)
    then have "map m [q..<q + length (s @ [0])] = s @ [0]" by (simp only: map_put)
    then show ?thesis by (simp only: length_append list.size add.assoc One_nat_def add_0)
  qed
  have "args_in p q (s # argv) m" unfolding args_in_def
  proof (intro allI impI)
    fix j
    assume j: "j < length (s # argv)"
    show "mem_word m (p + 4 * j) = addr (str_at q (s # argv) j)
     \<and> map m [str_at q (s # argv) j..<str_at q (s # argv) j + length ((s # argv) ! j) + 1] = (s # argv) ! j @ [0]"
      using j m(2) w t by (cases j) (auto simp: args_in_def algebra_simps)
  qed
  moreover have "\<forall>j. j < p \<or> p + 4 * length (s # argv) \<le> j \<and> j < q \<or> q + args_size (s # argv) \<le> j \<longrightarrow> m j = mem x j"
    using m(3) sz Cons.prems(1) by (auto simp: put_def)
  ultimately show ?case using pl m(1) by auto
qed

text \<open>
  The start of a program: with at most eight arguments that fit in the 988 bytes behind the pointers, \<open>runprogram\<close> leaves the
  stack pointer at the number of arguments, followed by a table of pointers to the arguments, each ended by a zero byte. With
  nine arguments the ninth pointer is written over the first string.
\<close>

theorem interp_start_args:
  assumes "length argv \<le> 8" and "args_size argv \<le> 988"
  shows "\<exists>y. interp_start startpc argv x = Inr y \<and> Reg y 29 = addr (MEMSIZE - 1024) \<and> ipc y = startpc
    \<and> mem_word (mem y) (MEMSIZE - 1024) = of_nat (length argv) \<and> args_in (MEMSIZE - 1020) (MEMSIZE - 988) argv (mem y)"
proof -
  let ?x = "set_Reg 29 initial_sp (x\<lparr>ipc := startpc, inpc := startpc + 4\<rparr>)"
  let ?m = "put 16776192 (le_bytes 4 (of_nat (length argv))) (mem x)"
  have sp: "initial_sp = addr 16776192" "MEMSIZE - 1024 = 16776192" "MEMSIZE - 1020 = 16776196" "MEMSIZE - 988 = 16776228"
    by (simp_all add: initial_sp_def addr_def MEMSIZE_def memoffset_def)
  have a: "initial_sp + 4 = addr 16776196" "addr 16776196 + 32 = addr 16776228" by (simp_all add: sp(1) addr_def)
  have pk: "poke 4 initial_sp (of_nat (length argv)) ?x = Inr (?x\<lparr>mem := ?m\<rparr>)"
    unfolding sp(1) by (subst poke_addr) (simp_all add: MEMSIZE_def set_Reg_def)
  obtain m where m: "place_args argv (addr 16776196) (addr 16776228) (?x\<lparr>mem := ?m\<rparr>) = Inr (?x\<lparr>mem := m\<rparr>)" "args_in 16776196 16776228 argv m"
    "\<forall>j < 16776196. m j = ?m j"
    using place_args_ok[of 16776196 argv 16776228 "?x\<lparr>mem := ?m\<rparr>"] assms by (auto simp: MEMSIZE_def)
  have "mem_word m 16776192 = mem_word ?m 16776192" by (rule mem_word_cong) (use m(3) in auto)
  then have "mem_word m 16776192 = of_nat (length argv)" by (simp only: mem_word_put)
  moreover have "interp_start startpc argv x = Inr (?x\<lparr>mem := m\<rparr>)" unfolding interp_start_def Let_def pk bindE_simps a m(1) ..
  ultimately show ?thesis using m(2) unfolding sp by (auto simp: set_Reg_def)
qed

lemma interp_start_args_witness: "\<exists>y. interp_start memoffset [[97, 98], [99]] demo_interp = Inr y \<and> mem_word (mem y) (MEMSIZE - 1024) = 2"
  using interp_start_args[of "[[97, 98], [99]]" memoffset demo_interp] by (auto simp: args_size_def)

section \<open>Statistics\<close>

text \<open>\<open>ilog2\<close>: each line keeps the upper half of the bits if there is one there.\<close>

definition ilog_half :: "word32 \<Rightarrow> nat \<Rightarrow> word32 \<times> nat \<Rightarrow> word32 \<times> nat" where
  "ilog_half msk k il = (let (i, l) = il; j = i AND msk in if j \<noteq> 0 then (j, l + k) else (i, l))"

definition ilog2 :: "word32 \<Rightarrow> nat" where
  "ilog2 i = (if i = 0 then 0 else snd (ilog_half 0xaaaaaaaa 1 (ilog_half 0xcccccccc 2 (ilog_half 0xf0f0f0f0 4
     (ilog_half 0xff00ff00 8 (ilog_half 0xffff0000 16 (i, 1)))))))"

text \<open>All bits left are in the block of \<open>k\<close> bits of the highest one, \<open>h\<close>, and \<open>l - 1\<close> is where the block begins.\<close>

definition ilog_inv :: "nat \<Rightarrow> nat \<Rightarrow> word32 \<times> nat \<Rightarrow> bool" where
  "ilog_inv k h il \<longleftrightarrow> bit (fst il) h \<and> (\<forall>n. bit (fst il) n \<longrightarrow> n \<le> h \<and> n div k = h div k) \<and> snd il = 1 + k * (h div k)"

lemma half_odd: "(b :: nat) \<le> a \<Longrightarrow> b div 2 = a div 2 \<Longrightarrow> odd b \<Longrightarrow> odd a" "b div 2 = a div 2 \<Longrightarrow> odd b = odd a \<Longrightarrow> b = a"
  by presburger+

lemma ilog_half_inv:
  assumes inv: "ilog_inv (k * 2) h il" and msk: "\<forall>n < 32. bit msk n \<longleftrightarrow> odd (n div k)"
  shows "ilog_inv k h (ilog_half msk k il)"
proof -
  obtain i l where il: "il = (i, l)" by (cases il)
  have d: "n div (k * 2) = n div k div 2" for n by (rule div_mult2_eq)
  have i: "bit i h" "\<forall>n. bit i n \<longrightarrow> n \<le> h \<and> n div (k * 2) = h div (k * 2)" "l = 1 + k * 2 * (h div (k * 2))"
    using inv unfolding ilog_inv_def il fst_conv snd_conv by blast+
  note h = i(1)
  have blk: "n \<le> h \<and> n div k div 2 = h div k div 2" if "bit i n" for n using i(2) that unfolding d by blast
  have l: "l = 1 + k * (2 * (h div k div 2))" using i(3) unfolding d by (simp only: mult.assoc)
  have top: "odd (h div k)" if "bit i n" "odd (n div k)" for n
    using blk[OF that(1)] that(2) half_odd(1)[of "n div k" "h div k"] div_le_mono[of n h k] by blast
  have m: "bit (i AND msk) n \<longleftrightarrow> bit i n \<and> odd (n div k)" for n
    using msk bit_imp_le_length[of i n] by (auto simp: bit_and_iff)
  show ?thesis
  proof (cases "i AND msk = 0")
    case True
    then have e: "\<not> odd (n div k)" if "bit i n" for n using m[of n] that by simp
    have same: "n div k = h div k" if "bit i n" for n using blk[OF that] e[OF that] e[OF h] half_odd(2) by blast
    have "2 * (h div k div 2) = h div k" using e[OF h] by simp
    then have lk: "l = 1 + k * (h div k)" using l by (simp only:)
    have eq: "ilog_half msk k il = (i, l)" using True by (simp add: ilog_half_def il)
    show ?thesis unfolding ilog_inv_def eq fst_conv snd_conv using h same blk lk by blast
  next
    case False
    then obtain n where "bit (i AND msk) n" using bit_eqI[of "i AND msk" 0] by auto
    then have o: "odd (h div k)" using m top by blast
    have same: "n div k = h div k" if "bit (i AND msk) n" for n using that blk[of n] m[of n] o half_odd(2) by blast
    have "l + k = 1 + k * (2 * (h div k div 2) + 1)" using l by simp
    moreover have "2 * (h div k div 2) + 1 = h div k" using o by (rule odd_two_times_div_two_succ)
    ultimately have lk: "l + k = 1 + k * (h div k)" by (simp only:)
    have eq: "ilog_half msk k il = (i AND msk, l + k)" using False by (simp add: ilog_half_def il)
    have "bit (i AND msk) h" "\<forall>n. bit (i AND msk) n \<longrightarrow> n \<le> h" using h o blk m by blast+
    then show ?thesis unfolding ilog_inv_def eq fst_conv snd_conv using same lk by blast
  qed
qed

lemma ilog_masks:
  "\<forall>n < 32. bit (0xffff0000 :: word32) n \<longleftrightarrow> odd (n div 16)" "\<forall>n < 32. bit (0xff00ff00 :: word32) n \<longleftrightarrow> odd (n div 8)"
  "\<forall>n < 32. bit (0xf0f0f0f0 :: word32) n \<longleftrightarrow> odd (n div 4)" "\<forall>n < 32. bit (0xcccccccc :: word32) n \<longleftrightarrow> odd (n div 2)"
  "\<forall>n < 32. bit (0xaaaaaaaa :: word32) n \<longleftrightarrow> odd (n div 1)"
  by code_simp+

text \<open>\<open>ilog2\<close> is the number of bits of its argument; the table in the comment above it (4 gives 2) is that of another function.\<close>

theorem ilog2_bits:
  assumes "bit i h" and "\<forall>n. bit i n \<longrightarrow> n \<le> h"
  shows "ilog2 i = h + 1"
proof -
  have b: "n < 32" if "bit i n" for n using bit_imp_le_length[OF that] by simp
  have "ilog_inv (16 * 2) h (i, 1)" using assms b by (auto simp: ilog_inv_def)
  note ilog_half_inv[OF this ilog_masks(1)]
  then have "ilog_inv (8 * 2) h (ilog_half 0xffff0000 16 (i, 1))" by simp
  note ilog_half_inv[OF this ilog_masks(2)]
  then have "ilog_inv (4 * 2) h (ilog_half 0xff00ff00 8 (ilog_half 0xffff0000 16 (i, 1)))" by simp
  note ilog_half_inv[OF this ilog_masks(3)]
  then have "ilog_inv (2 * 2) h (ilog_half 0xf0f0f0f0 4 (ilog_half 0xff00ff00 8 (ilog_half 0xffff0000 16 (i, 1))))" by simp
  note ilog_half_inv[OF this ilog_masks(4)]
  then have "ilog_inv (1 * 2) h (ilog_half 0xcccccccc 2 (ilog_half 0xf0f0f0f0 4 (ilog_half 0xff00ff00 8 (ilog_half 0xffff0000 16 (i, 1)))))" by simp
  note ilog_half_inv[OF this ilog_masks(5)]
  moreover have "i \<noteq> 0" using assms(1) by auto
  ultimately show ?thesis by (simp add: ilog2_def ilog_inv_def)
qed

lemma ilog2_bits_witness: "ilog2 4 = 3"
proof -
  have "(4 :: word32) = 2 ^ 2" by simp
  then have b: "bit (4 :: word32) n \<longleftrightarrow> n = 2" for n by (simp only: bit_exp_iff) auto
  show ?thesis using ilog2_bits[of 4 2] b by simp
qed

text \<open>The histograms: 32 of them, of 33 places each.\<close>

record Histograms =
  hists :: "nat \<Rightarrow> nat \<Rightarrow> word32"
  hoflo :: "nat \<Rightarrow> word32"
  htotal :: "nat \<Rightarrow> word32"

definition henters :: "int \<Rightarrow> nat \<Rightarrow> Histograms \<Rightarrow> Histograms" where
  "henters n h H = (let H = (if 0 \<le> n \<and> n < 33 then H\<lparr>hists := (hists H)(h := (hists H h)(nat n := hists H h (nat n) + 1))\<rparr>
       else H\<lparr>hoflo := (hoflo H)(h := hoflo H h + 1)\<rparr>) in H\<lparr>htotal := (htotal H)(h := htotal H h + 1)\<rparr>)"

lemma sum_upd: "finite A \<Longrightarrow> a \<in> A \<Longrightarrow> (\<Sum>k\<in>A. (f(a := f a + 1)) k) = (\<Sum>k\<in>A. f k) + (1 :: word32)"
  by (subst (1 2) sum.remove[of _ a]) (auto intro!: sum.cong)

text \<open>Every entry is counted once.\<close>

lemma henters_total:
  assumes "(\<Sum>k<33. hists H h k) + hoflo H h = htotal H h"
  shows "(\<Sum>k<33. hists (henters n h' H) h k) + hoflo (henters n h' H) h = htotal (henters n h' H) h"
  using assms sum_upd[of "{..<33}" "nat n" "hists H h"] by (auto simp: henters_def Let_def)

end
