(* ===== verification/Nachos_Disasm.thy ===== *)
theory Nachos_Disasm
  imports Nachos_Interp
begin

text \<open>
  bin/d.c, bin/opstrings.c and the loop of bin/disasm.c: the disassembler. What it prints is a string.

  The simulator decodes every word to an operation it knows (\<open>Nachos_CPU\<close>); here the name the disassembler prints for a word
  is the name of this operation.
\<close>

section \<open>Tables\<close>

definition normalops :: "string list" where
  "normalops = [
   ''special'', ''bcond'', ''j'', ''jal'', ''beq'', ''bne'', ''blez'', ''bgtz'', ''addi'', ''addiu'', ''slti'', ''sltiu'',
   ''andi'', ''ori'', ''xori'', ''lui'', ''cop0'', ''cop1'', ''cop2'', ''cop3'', ''024'', ''025'', ''026'', ''027'',
   ''030'', ''031'', ''032'', ''033'', ''034'', ''035'', ''036'', ''037'', ''lb'', ''lh'', ''lwl'', ''lw'',
   ''lbu'', ''lhu'', ''lwr'', ''047'', ''sb'', ''sh'', ''swl'', ''sw'', ''054'', ''055'', ''swr'', ''057'',
   ''lwc0'', ''lwc1'', ''lwc2'', ''lwc3'', ''064'', ''065'', ''066'', ''067'', ''swc0'', ''swc1'', ''swc2'', ''swc3'',
   ''074'', ''075'', ''076'', ''077'']"

definition specialops :: "string list" where
  "specialops = [
   ''sll'', ''001'', ''srl'', ''sra'', ''sllv'', ''005'', ''srlv'', ''srav'', ''jr'', ''jalr'', ''012'', ''013'',
   ''syscall'', ''break'', ''016'', ''017'', ''mfhi'', ''mthi'', ''mflo'', ''mtlo'', ''024'', ''025'', ''026'', ''027'',
   ''mult'', ''multu'', ''div'', ''divu'', ''034'', ''035'', ''036'', ''037'', ''add'', ''addu'', ''sub'', ''subu'',
   ''and'', ''or'', ''xor'', ''nor'', ''050'', ''051'', ''slt'', ''sltu'', ''054'', ''055'', ''056'', ''057'',
   ''060'', ''061'', ''062'', ''063'', ''064'', ''065'', ''066'', ''067'', ''070'', ''071'', ''072'', ''073'',
   ''074'', ''075'', ''076'', ''077'']"

definition regstrings :: "string list" where
  "regstrings = [
   ''0'', ''r1'', ''r2'', ''r3'', ''r4'', ''r5'', ''r6'', ''r7'', ''r8'', ''r9'', ''r10'', ''r11'',
   ''r12'', ''r13'', ''r14'', ''r15'', ''r16'', ''r17'', ''r18'', ''r19'', ''r20'', ''r21'', ''r22'', ''r23'',
   ''r24'', ''r25'', ''r26'', ''r27'', ''gp'', ''sp'', ''r30'', ''r31'']"

section \<open>Printing\<close>

definition hexdigit :: "word32 \<Rightarrow> char" where
  "hexdigit d = ''0123456789abcdef'' ! unat (d AND 0xf)"

text \<open>\<open>%08x\<close> and \<open>%x\<close>.\<close>

definition hex8 :: "word32 \<Rightarrow> string" where
  "hex8 w = map (\<lambda>k. hexdigit (drop_bit (4 * k) w)) [7, 6, 5, 4, 3, 2, 1, 0]"

definition hex :: "word32 \<Rightarrow> string" where
  "hex w = (let ds = dropWhile (\<lambda>c. c = CHR ''0'') (hex8 w) in if ds = [] then ''0'' else ds)"

definition tab :: string where "tab = [CHR 0x09]"

definition R :: "nat \<Rightarrow> string" where "R i = regstrings ! i"

definition off26 :: "word32 \<Rightarrow> word32" where "off26 i = push_bit 2 (i AND 0x03ffffff)"
definition top4 :: "word32 \<Rightarrow> word32" where "top4 i = i AND 0xf0000000"
definition off16 :: "word32 \<Rightarrow> word32" where "off16 i = push_bit 2 (immed i)"

definition dump_special :: "word32 \<Rightarrow> string" where
  "dump_special i = (let opcode = i AND 0x3f in specialops ! unat opcode @ tab @
     (if opcode \<in> {I_SLL, I_SRL, I_SRA} then R (i_rd i) @ '','' @ R (i_rt i) @ '',0x'' @ hex (of_nat (i_shamt i))
      else if opcode \<in> {I_SLLV, I_SRLV, I_SRAV} then R (i_rd i) @ '','' @ R (i_rt i) @ '','' @ R (i_rs i)
      else if opcode \<in> {I_JR, I_JALR, I_MFLO, I_MTLO} then R (i_rs i)
      else if opcode \<in> {I_MFHI, I_MTHI} then R (i_rd i)
      else if opcode \<in> {I_MULT, I_MULTU, I_DIV, I_DIVU} then R (i_rs i) @ '','' @ R (i_rt i)
      else if opcode \<in> {I_ADD, I_ADDU, I_SUB, I_SUBU, I_AND, I_OR, I_XOR, I_NOR, I_SLT, I_SLTU} then R (i_rd i) @ '','' @ R (i_rs i) @ '','' @ R (i_rt i)
      else []))"

definition dump_bcond :: "word32 \<Rightarrow> word32 \<Rightarrow> string" where
  "dump_bcond i pc = (let t = i_rt i in
     (if t = unat I_BLTZ then ''bltz'' else if t = unat I_BGEZ then ''bgez'' else if t = unat I_BLTZAL then ''bltzal''
      else if t = unat I_BGEZAL then ''bgezal'' else ''BCOND'') @ tab @ R (i_rs i) @ '','' @ hex8 (off16 i + pc + 4))"

definition dump_normal :: "word32 \<Rightarrow> word32 \<Rightarrow> word32 \<Rightarrow> string" where
  "dump_normal opcode i pc = normalops ! unat opcode @ tab @
     (if opcode \<in> {I_J, I_JAL} then hex8 (top4 pc OR off26 i)
      else if opcode \<in> {I_BEQ, I_BNE} then R (i_rt i) @ '','' @ R (i_rs i) @ '','' @ hex8 (off16 i + pc + 4)
      else if opcode \<in> {I_ADDI, I_ADDIU, I_SLTI, I_SLTIU, I_ANDI, I_ORI, I_XORI} then R (i_rt i) @ '','' @ R (i_rs i) @ '',0x'' @ hex (immed i)
      else if opcode = I_LUI then R (i_rt i) @ '',0x'' @ hex (immed i)
      else if opcode \<in> {I_LB, I_LH, I_LWL, I_LW, I_LBU, I_LHU, I_LWR, I_SB, I_SH, I_SWL, I_SW, I_SWR, I_LWC0, I_LWC1, I_LWC2, I_LWC3,
        I_SWC0, I_SWC1, I_SWC2, I_SWC3} then R (i_rt i) @ '',0x'' @ hex (immed i) @ ''('' @ R (i_rs i) @ '')''
      else [])"

text \<open>The variable \<open>longdis\<close> is 1 and is never changed.\<close>

definition dump_ascii :: "word32 \<Rightarrow> word32 \<Rightarrow> string" where
  "dump_ascii i pc = hex8 pc @ '': '' @ hex8 i @ ''  '' @ tab @ (let opcode = drop_bit 26 i in
     if i = I_NOP then ''nop''
     else if opcode = I_SPECIAL then dump_special i
     else if opcode = I_BCOND then dump_bcond i pc
     else dump_normal opcode i pc)"

text \<open>The program: one line for each word of the text section, whose size is \<open>text_size\<close>.\<close>

fun dis_loop :: "nat \<Rightarrow> word32 \<Rightarrow> Interp \<Rightarrow> stop + string" where
  "dis_loop 0 pc x = Inr []"
| "dis_loop (Suc n) pc x = bindE (peek 4 pc x) (\<lambda>instr. bindE (dis_loop n (pc + 4) x) (\<lambda>rest. Inr (dump_ascii instr pc @ [CHR 0x0A] @ rest)))"

definition disasm :: "nat \<Rightarrow> Interp \<Rightarrow> stop + string" where
  "disasm text_size x = dis_loop ((text_size + 3) div 4) memoffset x"

section \<open>The names of the operations\<close>

definition op_name :: "OpCode \<Rightarrow> string" where
  "op_name op = (case op of
     OP_ADD \<Rightarrow> ''add''
   | OP_ADDI \<Rightarrow> ''addi''
   | OP_ADDIU \<Rightarrow> ''addiu''
   | OP_ADDU \<Rightarrow> ''addu''
   | OP_AND \<Rightarrow> ''and''
   | OP_ANDI \<Rightarrow> ''andi''
   | OP_BEQ \<Rightarrow> ''beq''
   | OP_BGEZ \<Rightarrow> ''bgez''
   | OP_BGEZAL \<Rightarrow> ''bgezal''
   | OP_BGTZ \<Rightarrow> ''bgtz''
   | OP_BLEZ \<Rightarrow> ''blez''
   | OP_BLTZ \<Rightarrow> ''bltz''
   | OP_BLTZAL \<Rightarrow> ''bltzal''
   | OP_BNE \<Rightarrow> ''bne''
   | OP_DIV \<Rightarrow> ''div''
   | OP_DIVU \<Rightarrow> ''divu''
   | OP_J \<Rightarrow> ''j''
   | OP_JAL \<Rightarrow> ''jal''
   | OP_JALR \<Rightarrow> ''jalr''
   | OP_JR \<Rightarrow> ''jr''
   | OP_LB \<Rightarrow> ''lb''
   | OP_LBU \<Rightarrow> ''lbu''
   | OP_LH \<Rightarrow> ''lh''
   | OP_LHU \<Rightarrow> ''lhu''
   | OP_LUI \<Rightarrow> ''lui''
   | OP_LW \<Rightarrow> ''lw''
   | OP_LWL \<Rightarrow> ''lwl''
   | OP_LWR \<Rightarrow> ''lwr''
   | OP_MFHI \<Rightarrow> ''mfhi''
   | OP_MFLO \<Rightarrow> ''mflo''
   | OP_MTHI \<Rightarrow> ''mthi''
   | OP_MTLO \<Rightarrow> ''mtlo''
   | OP_MULT \<Rightarrow> ''mult''
   | OP_MULTU \<Rightarrow> ''multu''
   | OP_NOR \<Rightarrow> ''nor''
   | OP_OR \<Rightarrow> ''or''
   | OP_ORI \<Rightarrow> ''ori''
   | OP_RFE \<Rightarrow> ''rfe''
   | OP_SB \<Rightarrow> ''sb''
   | OP_SH \<Rightarrow> ''sh''
   | OP_SLL \<Rightarrow> ''sll''
   | OP_SLLV \<Rightarrow> ''sllv''
   | OP_SLT \<Rightarrow> ''slt''
   | OP_SLTI \<Rightarrow> ''slti''
   | OP_SLTIU \<Rightarrow> ''sltiu''
   | OP_SLTU \<Rightarrow> ''sltu''
   | OP_SRA \<Rightarrow> ''sra''
   | OP_SRAV \<Rightarrow> ''srav''
   | OP_SRL \<Rightarrow> ''srl''
   | OP_SRLV \<Rightarrow> ''srlv''
   | OP_SUB \<Rightarrow> ''sub''
   | OP_SUBU \<Rightarrow> ''subu''
   | OP_SW \<Rightarrow> ''sw''
   | OP_SWL \<Rightarrow> ''swl''
   | OP_SWR \<Rightarrow> ''swr''
   | OP_XOR \<Rightarrow> ''xor''
   | OP_XORI \<Rightarrow> ''xori''
   | OP_SYSCALL \<Rightarrow> ''syscall''
   | _ \<Rightarrow> [])"

lemma names_agree:
  "\<forall>k \<in> set [0..<64]. (fst (opTable ! k) \<notin> {SPECIAL, BCOND, OP_RES, OP_UNIMP} \<longrightarrow> normalops ! k = op_name (fst (opTable ! k)))
    \<and> (specialTable ! k \<notin> {OP_RES, OP_UNIMP} \<longrightarrow> specialops ! k = op_name (specialTable ! k))
    \<and> (fst (opTable ! k) = SPECIAL \<longleftrightarrow> k = 0) \<and> (fst (opTable ! k) = BCOND \<longleftrightarrow> k = 1)"
  by code_simp

text \<open>The disassembler names the instruction that the simulator executes: the text of a word other than 0 that is
  not reserved is its address, the word, and the name of the operation of \<open>Decode\<close>, followed by the operands.\<close>

theorem disassembler_names:
  assumes "w \<noteq> 0" and "opCode (Decode w) \<notin> {OP_RES, OP_UNIMP}"
  shows "\<exists>operands. dump_ascii w pc = hex8 pc @ '': '' @ hex8 w @ ''  '' @ tab @ op_name (opCode (Decode w)) @ tab @ operands"
proof -
  let ?k = "field 26 0x3f w"
  have k: "?k \<in> set [0..<64]" "field 0 0x3f w \<in> set [0..<64]" using field_bound(2) by simp_all
  have n: "unat (drop_bit 26 w) = ?k"
  proof -
    have m: "(0x3f :: word32) = mask 6" by (simp add: mask_eq_exp_minus_1)
    have "drop_bit 26 w AND 0x3f = drop_bit 26 w" unfolding m by (rule bit_word_eqI) (auto simp: bit_simps dest: bit_imp_le_length)
    then show ?thesis by (simp add: field_def)
  qed
  have op: "opCode (Decode w) = decode_op (fst (opTable ! ?k)) w" by (simp add: Decode_def case_prod_beta)
  note t = bspec[OF names_agree k(1)] bspec[OF names_agree k(2)]
  consider "?k = 0" | "?k = 1" | "?k \<noteq> 0" "?k \<noteq> 1" by blast
  then show ?thesis
  proof cases
    case 1
    then have "opCode (Decode w) = specialTable ! field 0 0x3f w" "drop_bit 26 w = 0" using op t n by (simp_all add: decode_op_def unat_eq_0)
    moreover from this have "specialops ! field 0 0x3f w = op_name (opCode (Decode w))" using t(2) assms(2) by simp
    moreover obtain ops where "dump_special w = specialops ! field 0 0x3f w @ tab @ ops"
      unfolding dump_special_def Let_def field_def drop_bit_0 id_apply by blast
    ultimately show ?thesis using assms(1) by (simp add: dump_ascii_def)
  next
    case 2
    have "opCode (Decode w) = decode_op BCOND w" using op t 2 by simp
    then have "opCode (Decode w) \<in> {OP_BLTZ, OP_BGEZ, OP_BLTZAL, OP_BGEZAL}" using assms(2) by (auto simp: decode_op_def Let_def split: if_splits)
    moreover have "drop_bit 26 w = 1" using n 2 by (metis unat_1 word_unat_eq_iff)
    ultimately show ?thesis using assms(1) Decode_bcond[OF refl, of w] i_rt_mask[of w]
      by (auto simp: dump_ascii_def dump_bcond_def op_name_def drop_bit_eq_div)
  next
    case 3
    then have "fst (opTable ! ?k) \<noteq> SPECIAL" "fst (opTable ! ?k) \<noteq> BCOND" using t by simp_all
    then have "opCode (Decode w) = fst (opTable ! ?k)" using op by (simp add: decode_op_def)
    moreover from this have "normalops ! ?k = op_name (opCode (Decode w))" using t(1) assms(2) \<open>fst (opTable ! ?k) \<noteq> SPECIAL\<close> \<open>fst (opTable ! ?k) \<noteq> BCOND\<close> by simp
    moreover have "drop_bit 26 w \<noteq> 0" "drop_bit 26 w \<noteq> 1" using n 3 by auto
    moreover obtain ops where "dump_normal (drop_bit 26 w) w pc = normalops ! ?k @ tab @ ops"
      unfolding dump_normal_def n by blast
    ultimately show ?thesis using assms(1) by (simp add: dump_ascii_def)
  qed
qed

lemma disassembler_names_witness:
  "\<exists>operands. dump_ascii 0x00221821 0x10000000 = hex8 0x10000000 @ '': '' @ hex8 0x00221821 @ ''  '' @ tab @ ''addu'' @ tab @ operands"
proof -
  have "opCode (Decode 0x00221821) = OP_ADDU" by code_simp
  then show ?thesis using disassembler_names[of "0x00221821" "0x10000000"] by (simp add: op_name_def)
qed

lemma dump_example: "dump_ascii 0x00221821 0x10000000 = ''10000000: 00221821  '' @ tab @ ''addu'' @ tab @ ''r3,r1,r2''"
  by code_simp

text \<open>\<open>mflo r3\<close> and \<open>blez r1\<close>: the disassembler prints the source field of the one, and no operands of the other.\<close>

lemma dump_wrong: "dump_ascii 0x00001812 0 = ''00000000: 00001812  '' @ tab @ ''mflo'' @ tab @ ''0''"
  "dump_ascii 0x18200003 0 = ''00000000: 18200003  '' @ tab @ ''blez'' @ tab"
  by code_simp+

end
