(* ===== verification/Nachos_Flat.thy ===== *)
theory Nachos_Flat
  imports Nachos_Coff
begin

text \<open>
  bin/coff2flat.c: the converter to a flat file, the memory image of a program. It has the \<open>Read\<close> and \<open>Write\<close> of coff2noff.c
  and, from the headers of the system, the structures that bin/coff.h has.

  The pieces are written one after the other, whatever their addresses: the theorem needs sections that are contiguous
  from address 0.
\<close>

definition StackSize :: int where "StackSize = 1024"

record Flat =
  fl_pos :: nat
  fl_out :: "byte list option"
  fl_top :: int

definition loaded :: "Scnhdr \<Rightarrow> bool" where
  "loaded sec \<longleftrightarrow> \<not> named ''.bss'' sec \<and> \<not> named ''.sbss'' sec"

definition flat_section :: "byte list \<Rightarrow> Scnhdr \<Rightarrow> Flat \<Rightarrow> CoffError + Flat" where
  "flat_section c sec st =
    (let e = sint (s_paddr sec + s_size sec); st = (if e > fl_top st then st\<lparr>fl_top := e\<rparr> else st) in
     if loaded sec then
       bindE (coff_Read c (sint (s_size sec)) (lseek_in (s_scnptr sec) (fl_pos st))) (\<lambda>(buffer, pos).
       bindE (coff_Write buffer (sint (s_size sec)) (fl_out st)) (\<lambda>out. Inr (st\<lparr>fl_pos := pos, fl_out := out\<rparr>)))
     else Inr st)"

text \<open>\<open>lseek\<close> and the last \<open>Write\<close>; the host fills a gap with zeros.\<close>

definition write_at :: "nat \<Rightarrow> byte list \<Rightarrow> byte list \<Rightarrow> byte list" where
  "write_at p bs out = take p (out @ replicate (p - length out) 0) @ bs @ drop (p + length bs) out"

definition flat_end :: "Flat \<Rightarrow> CoffError + byte list" where
  "flat_end st = (case fl_out st of None \<Rightarrow> Inl CannotWrite | Some out \<Rightarrow>
     let off = i32 (fl_top st + StackSize - 4) in Inr (write_at (if off < 0 then length out else nat off) [0, 0, 0, 0] out))"

definition coff2flat :: "byte list option \<Rightarrow> bool \<Rightarrow> CoffError + byte list" where
  "coff2flat input out_ok = (case input of None \<Rightarrow> Inl CannotOpen | Some c \<Rightarrow>
    bindE (coff_Read c 20 0) (\<lambda>(_, pos).
    if short_at c 0 \<noteq> MIPSELMAGIC then Inl NotMipsel else
    bindE (coff_Read c 56 pos) (\<lambda>(_, pos).
    if short_at c 20 \<noteq> OMAGIC then Inl NotOmagic else
    bindE (coff_Read c (40 * int (unat (short_at c 2))) pos) (\<lambda>(_, pos).
    bindE (forE (flat_section c) (sections_of c) \<lparr>fl_pos = pos, fl_out = (if out_ok then Some [] else None), fl_top = 0\<rparr>) flat_end))))"

section \<open>The flat file\<close>

definition sec_end :: "Scnhdr \<Rightarrow> nat" where
  "sec_end sec = unat (s_paddr sec) + unat (s_size sec)"

definition top_of :: "Scnhdr list \<Rightarrow> nat" where
  "top_of secs = foldl (\<lambda>t sec. max t (sec_end sec)) 0 secs"

text \<open>A section with an address and a size that are small, and an offset in the file.\<close>

definition small_section :: "Scnhdr \<Rightarrow> bool" where
  "small_section sec \<longleftrightarrow> sec_end sec + 1024 < 2 ^ 31 \<and> 0 \<le> sint (s_scnptr sec)"

lemma small_words:
  assumes "small_section sec"
  shows "sint (s_size sec) = int (unat (s_size sec))" "sint (s_paddr sec + s_size sec) = int (sec_end sec)"
    "nat (sint (s_scnptr sec)) = unat (s_scnptr sec)"
proof -
  have e: "unat (s_paddr sec) + unat (s_size sec) < 2 ^ 31" "0 \<le> sint (s_scnptr sec)" using assms by (auto simp: small_section_def sec_end_def)
  show "sint (s_size sec) = int (unat (s_size sec))" using e(1) by (intro sint_small_nat) simp
  have "unat (s_paddr sec + s_size sec) = sec_end sec" using e(1) unat_add_lem[of "s_paddr sec" "s_size sec"] by (simp add: sec_end_def)
  then show "sint (s_paddr sec + s_size sec) = int (sec_end sec)" using e(1) sint_small_nat[of "s_paddr sec + s_size sec"] by (simp add: sec_end_def)
  show "nat (sint (s_scnptr sec)) = unat (s_scnptr sec)" using e(2) sint_neg_iff[of "s_scnptr sec"] by (simp add: sint_uint32)
qed

lemma flat_section_ok:
  assumes "flat_section c sec st = Inr st'" and "small_section sec" and "fl_top st = int t"
  shows "fl_top st' = int (max t (sec_end sec))
    \<and> (\<forall>out'. fl_out st' = Some out' \<longrightarrow> (\<exists>out. fl_out st = Some out \<and> out' = out @ (if loaded sec then section_bytes c sec else [])))
    \<and> (loaded sec \<longrightarrow> length (section_bytes c sec) = unat (s_size sec))"
proof -
  note w = small_words[OF assms(2)]
  have p: "0 \<le> sint (s_scnptr sec)" using assms(2) by (simp add: small_section_def)
  have n: "s_size sec = 0 \<longleftrightarrow> unat (s_size sec) = 0" by (simp add: unat_eq_0)
  show ?thesis using assms(1,3) p
    by (auto simp: flat_section_def Let_def w bindE_eq_Inr coff_Read_def coff_Write_def lseek_in_def section_bytes_def max_def
        simp del: of_nat_unat split: if_splits option.splits)
qed

text \<open>What is written before the last word: the bytes of the loaded sections, in the order of their headers.\<close>

definition flat_body :: "byte list \<Rightarrow> Scnhdr list \<Rightarrow> byte list" where
  "flat_body c secs = concat (map (section_bytes c) (filter loaded secs))"

text \<open>Each loaded section begins where the one before it ends.\<close>

fun contiguous :: "nat \<Rightarrow> Scnhdr list \<Rightarrow> bool" where
  "contiguous a [] = True"
| "contiguous a (sec # secs) = (if loaded sec then unat (s_paddr sec) = a \<and> contiguous (sec_end sec) secs else contiguous a secs)"

definition full :: "byte list \<Rightarrow> Scnhdr \<Rightarrow> bool" where
  "full c sec \<longleftrightarrow> (loaded sec \<longrightarrow> length (section_bytes c sec) = unat (s_size sec))"

definition flat_holds :: "byte list \<Rightarrow> Scnhdr list \<Rightarrow> Flat \<Rightarrow> bool" where
  "flat_holds c secs st \<longleftrightarrow> fl_top st = int (top_of secs) \<and> (\<forall>sec \<in> set secs. full c sec)
    \<and> (\<forall>out. fl_out st = Some out \<longrightarrow> out = flat_body c secs)"

lemma flat_step:
  assumes "flat_holds c pre st" and "flat_section c sec st = Inr st'" and "small_section sec"
  shows "flat_holds c (pre @ [sec]) st'"
  using assms(1) flat_section_ok[OF assms(2,3), of "top_of pre"]
  by (auto simp: flat_holds_def full_def flat_body_def top_of_def)

lemma top_of_max: "sec \<in> set secs \<Longrightarrow> sec_end sec \<le> top_of secs" "(\<forall>sec \<in> set secs. sec_end sec < n) \<Longrightarrow> 0 < n \<Longrightarrow> top_of secs < n"
  by (induction secs rule: rev_induct) (auto simp: top_of_def)

lemma flat_body_simps [simp]: "flat_body c [] = []" "flat_body c (sec # secs) = (if loaded sec then section_bytes c sec else []) @ flat_body c secs"
  by (simp_all add: flat_body_def)

text \<open>The bytes of contiguous sections are at their addresses, and there are no others.\<close>

lemma contiguous_body:
  assumes "contiguous a secs" and "\<forall>sec \<in> set secs. full c sec" and "sec \<in> set secs" and "loaded sec" and "i < unat (s_size sec)"
  shows "a \<le> unat (s_paddr sec) \<and> unat (s_paddr sec) + i - a < length (flat_body c secs)
    \<and> flat_body c secs ! (unat (s_paddr sec) + i - a) = section_bytes c sec ! i"
  using assms
proof (induction secs arbitrary: a)
  case (Cons s secs)
  consider "\<not> loaded s" | "loaded s" "sec = s" | "loaded s" "sec \<noteq> s" by blast
  then show ?case
  proof cases
    case 1
    then show ?thesis using Cons by auto
  next
    case 2
    then show ?thesis using Cons.prems by (auto simp: full_def nth_append)
  next
    case 3
    then have "sec \<in> set secs" "contiguous (sec_end s) secs" using Cons.prems(1,3) by auto
    note ih = Cons.IH[OF this(2) _ this(1) Cons.prems(4,5)]
    have l: "length (section_bytes c s) = unat (s_size s)" "unat (s_paddr s) = a" using Cons.prems(1,2) 3(1) by (auto simp: full_def)
    have le: "sec_end s \<le> unat (s_paddr sec)" using ih Cons.prems(2) by simp
    then have e: "unat (s_paddr sec) + i - a = length (section_bytes c s) + (unat (s_paddr sec) + i - sec_end s)"
      using l by (simp add: sec_end_def)
    have "a \<le> unat (s_paddr sec)" using le l(2) by (simp add: sec_end_def)
    moreover obtain k where k: "unat (s_paddr sec) + i - sec_end s = k" by blast
    ultimately show ?thesis using ih Cons.prems(2) 3(1) unfolding e k by simp
  qed
qed simp

lemma contiguous_covers:
  assumes "contiguous a secs" and "\<forall>sec \<in> set secs. full c sec" and "n < length (flat_body c secs)"
  shows "\<exists>sec \<in> set secs. loaded sec \<and> unat (s_paddr sec) \<le> a + n \<and> a + n < sec_end sec"
  using assms
proof (induction secs arbitrary: a n)
  case (Cons s secs)
  show ?case
  proof (cases "loaded s")
    case True
    then have l: "length (section_bytes c s) = unat (s_size s)" "unat (s_paddr s) = a" "contiguous (sec_end s) secs"
      using Cons.prems(1,2) by (auto simp: full_def)
    show ?thesis
    proof (cases "n < unat (s_size s)")
      case False
      then have "sec_end s + (n - unat (s_size s)) = a + n" "n - unat (s_size s) < length (flat_body c secs)"
        using l Cons.prems(3) True by (auto simp: sec_end_def)
      then show ?thesis using Cons.IH[OF l(3), of "n - unat (s_size s)"] Cons.prems(2) by auto
    qed (use True l in \<open>auto simp: sec_end_def\<close>)
  qed (use Cons in auto)
qed simp

text \<open>
  The flat file is the memory image. If the converter succeeds on a file whose loaded sections are contiguous from address 0,
  the file has the stack of 1024 bytes behind the highest address of a section, every loaded section is at its address, and
  the rest is zero.
\<close>

theorem coff2flat_image:
  assumes run: "coff2flat (Some c) out_ok = Inr out" and small: "\<forall>sec \<in> set (sections_of c). small_section sec"
    and cont: "contiguous 0 (sections_of c)"
  shows "length out = top_of (sections_of c) + 1024
    \<and> (\<forall>sec \<in> set (sections_of c). loaded sec \<longrightarrow> (\<forall>i < unat (s_size sec). out ! (unat (s_paddr sec) + i) = section_bytes c sec ! i))
    \<and> (\<forall>a < length out. (\<forall>sec \<in> set (sections_of c). loaded sec \<longrightarrow> \<not> (unat (s_paddr sec) \<le> a \<and> a < sec_end sec)) \<longrightarrow> out ! a = 0)"
proof -
  let ?secs = "sections_of c"
  let ?b = "flat_body c ?secs"
  let ?t = "top_of ?secs"
  obtain pos st where st: "forE (flat_section c) ?secs \<lparr>fl_pos = pos, fl_out = (if out_ok then Some [] else None), fl_top = 0\<rparr> = Inr st" "flat_end st = Inr out"
    using run by (auto simp: coff2flat_def bindE_eq_Inr split: if_splits)
  have inv: "flat_holds c ?secs st"
  proof (rule forE_rule[OF st(1)])
    show "flat_holds c [] \<lparr>fl_pos = pos, fl_out = (if out_ok then Some [] else None), fl_top = 0\<rparr>"
      by (auto simp: flat_holds_def top_of_def flat_body_def)
    show "flat_holds c (pre @ [x]) s'" if "?secs = pre @ x # post" "flat_holds c pre s" "flat_section c x s = Inr s'" for pre x post s s'
      by (rule flat_step[OF that(2,3)]) (use that(1) small in auto)
  qed
  then have full: "\<forall>sec \<in> set ?secs. full c sec" by (simp add: flat_holds_def)
  have len: "length ?b \<le> ?t"
  proof (rule ccontr)
    assume "\<not> length ?b \<le> ?t"
    then obtain sec where "sec \<in> set ?secs" "?t < sec_end sec" using contiguous_covers[OF cont full, of ?t] by auto
    then show False using top_of_max(1)[of sec ?secs] by simp
  qed
  have t: "?t < 2 ^ 31 - 1024" by (rule top_of_max(2)) (use small in \<open>auto simp: small_section_def\<close>)
  have out: "out = ?b @ replicate (?t + 1024 - length ?b) 0"
  proof -
    have "fl_out st = Some ?b" using st(2) inv by (auto simp: flat_end_def flat_holds_def split: option.splits)
    moreover have "i32 (int ?t + 1020) = int (?t + 1020)" using t by (simp add: i32_def)
    ultimately have "out = write_at (?t + 1020) [0, 0, 0, 0] ?b" using st(2) inv
      by (simp add: flat_end_def flat_holds_def StackSize_def Let_def nat_add_distrib add.commute[of 1020])
    moreover have "replicate (?t + 1020 - length ?b) 0 @ [0, 0, 0, 0] = replicate (?t + 1024 - length ?b) (0 :: byte)"
    proof -
      have "[0, 0, 0, 0] = replicate 4 (0 :: byte)" by (simp add: numeral_eq_Suc)
      then show ?thesis using len by (simp only: replicate_add[symmetric]) simp
    qed
    ultimately show ?thesis using len by (simp add: write_at_def)
  qed
  have "out ! (unat (s_paddr sec) + i) = section_bytes c sec ! i" if "sec \<in> set ?secs" "loaded sec" "i < unat (s_size sec)" for sec i
    using contiguous_body[OF cont full that] by (simp add: out nth_append)
  moreover have "out ! a = 0" if "a < length out" "\<forall>sec \<in> set ?secs. loaded sec \<longrightarrow> \<not> (unat (s_paddr sec) \<le> a \<and> a < sec_end sec)" for a
    using that contiguous_covers[OF cont full, of a] unfolding out by (auto simp: nth_append)
  moreover have "length out = ?t + 1024" using len by (simp add: out)
  ultimately show ?thesis by blast
qed

lemma coff2flat_image_witness: "\<exists>out. coff2flat (Some demo_coff) True = Inr out \<and> length out = 1031 \<and> out ! 2 = 30 \<and> out ! 3 = 0"
proof -
  obtain out where out: "coff2flat (Some demo_coff) True = Inr out" by (rule that) code_simp
  have l: "map loaded (sections_of demo_coff) = [True, True, False]" by code_simp
  have b: "section_bytes demo_coff \<lparr>s_name = [46, 114, 100, 97, 116, 97, 0, 0], s_paddr = 2, s_size = 1, s_scnptr = 198\<rparr> = [30]" by code_simp
  have sm: "\<forall>sec \<in> set (sections_of demo_coff). small_section sec" by (simp add: demo_sections small_section_def sec_end_def)
  have c: "contiguous 0 (sections_of demo_coff)" by code_simp
  have t: "top_of (sections_of demo_coff) = 7" by code_simp
  note img = coff2flat_image[OF out sm c]
  have "length out = 1031" using img t by simp
  moreover have "out ! 2 = 30" using img l b by (auto simp: demo_sections)
  moreover have "out ! 3 = 0" using img l \<open>length out = 1031\<close> by (auto simp: demo_sections sec_end_def)
  ultimately show ?thesis using out by blast
qed

end
