(* ===== verification/Spec2Isabelle.thy ===== *)
theory Spec2Isabelle
  imports Nachos_List Nachos_BitMap Nachos_CPU Nachos_FsInv Nachos_System Nachos_ProcInv Nachos_ExcInv Nachos_Network Nachos_Coff
    Nachos_FsTest Nachos_ThreadTest Nachos_Main Nachos_Cleanup Nachos_SynchCons Nachos_TapsMain Nachos_UserProg Nachos_Stacks
    Nachos_Disasm Nachos_Flat
begin

text \<open>
  A verification development for Nachos 3.4, an instructional operating system: a simulated MIPS machine with its
  devices, and the kernel that runs on it. File names are relative to src/src/nachos-3.4/code/.

  \<^bold>\<open>The program and its parts.\<close> The simulated hardware is a processor with paged memory (machine/machine.cc,
  translate.cc, mipssim.cc), an interrupt controller that also keeps the simulated time (interrupt.cc, stats.cc) and
  four devices on it: timer, console, disk and network. The kernel has threads, a round-robin scheduler and semaphores
  (threads/), two file systems (filesys/: one on the simulated disk, one that passes every call on to UNIX and is the
  one the userprog build has), processes and named semaphores for user programs (pcb, ptable, stable), the program
  loader (userprog/addrspace.cc), the system calls (userprog/exception.cc) and a post office on the network
  (network/post.cc). The executables come from a converter, bin/coff2noff.c. A user instruction that traps calls
  \<open>ExceptionHandler\<close>; a kernel operation that waits calls \<open>Semaphore::P\<close>, which gives the processor away through the
  scheduler; if no thread is ready the clock advances to the next pending interrupt, whose handler wakes a thread.

  \<^bold>\<open>Theories.\<close>
  \<^item> \<open>Nachos_Prelude\<close>: faults, results, sequencing, bounded loops, byte lists and words, C strings.
  \<^item> \<open>Nachos_List\<close>: threads/list.cc at the level of its pointers; the locale \<open>nachos_list_adt\<close> is the queue and
    priority queue it implements (C1, C2).
  \<^item> \<open>Nachos_BitMap\<close>: userprog/bitmap.cc; the locale \<open>bit_allocator\<close> is what sectors, frames and slots are
    allocated with (C3, C4).
  \<^item> \<open>Nachos_Machine\<close>, \<open>Nachos_Mips\<close>, \<open>Nachos_CPU\<close>: machine.cc, translate.cc and mipssim.cc: translation and memory
    access (C5, C6), the instructions with the exact product of \<open>Mult\<close> and the overflow checks (C7, C8), decoding
    and delayed loads. The locale \<open>trap_handler\<close> is what the hardware relies on from the kernel.
  \<^item> \<open>Nachos_Disk\<close>: disk.cc and filesys/synchdisk.cc, with the bounds of the latency; the locale \<open>sector_store\<close> is the array of sectors that
    the file system sees.
  \<^item> \<open>Nachos_FileHdr\<close>, \<open>Nachos_OpenFile\<close>, \<open>Nachos_Directory\<close>, \<open>Nachos_FileSys\<close>, \<open>Nachos_FsInv\<close>: the file system on the
    disk. Headers (C14), byte ranges of a file as slices of its contents (C15, C16), the directory as a
    bounded map (C17, locale \<open>name_table\<close>), and the invariant of the disk that \<open>Create\<close>, \<open>Remove\<close> and formatting
    keep (C18, C19, C20).
  \<^item> \<open>Nachos_Interrupt\<close>, \<open>Nachos_Console\<close>, \<open>Nachos_System\<close>: interrupts in the order of their times (C21), the line
    discipline of the console, and the devices with their handlers: the loop that fires them ends, and idling
    either returns or halts (C27, C28). The locale \<open>interrupt_handlers\<close> is what the controller relies on from
    handlers; it is interpreted on the table of the real ones.
  \<^item> \<open>Nachos_Thread\<close>, \<open>Nachos_Sched\<close>: thread.cc, scheduler.cc, synch.cc, first as functions on the kernel's state, then
    as a step relation. In every reachable state each thread is where its status says (C22), no operation faults
    (C23), semaphores conserve their units (C24) and no wakeup is lost (C25).
  \<^item> \<open>Nachos_HostFS\<close>: the stub file system and the UNIX calls of machine/sysdep.cc: what is written is what is read.
  \<^item> \<open>Nachos_Process\<close>, \<open>Nachos_ProcInv\<close>: pcb, ptable, stable and the start-up of system.cc (C30 to C34).
  \<^item> \<open>Nachos_AddrSpace\<close>: bin/noff.h, addrspace.cc and the entry points of progtest.cc: the image the loader builds
    (C35), and the frame it takes beyond the memory (C36).
  \<^item> \<open>Nachos_Exception\<close>, \<open>Nachos_ExcInv\<close>: every system call; strings and numbers through user memory and the
    console (C37, C38), the invariant of the processor along the execution of user programs with the kernel's own
    handler in the locale \<open>trap_handler\<close> (C39), and the program counter after a call (C40).
  \<^item> \<open>Nachos_Coff\<close>: bin/coff2noff.c and coff.h: what the converter writes is what the loader expects, and their
    composition keeps text and data (C12).
  \<^item> \<open>Nachos_Flat\<close>: bin/coff2flat.c: for sections that are contiguous from address 0 the flat file is the memory image.
  \<^item> \<open>Nachos_Interp\<close>, \<open>Nachos_Disasm\<close>: bin/execute.c, system.c, d.c, opstrings.c and the loop of disasm.c: a second, independent
    interpreter of the instruction set, which agrees with the simulator of \<open>Nachos_CPU\<close> (C9), the arguments it
    passes to a program, and a disassembler, which names the operation the simulator executes.
  \<^item> \<open>Nachos_SynchList\<close>, \<open>Nachos_Network\<close>: synchlist.cc with the locale \<open>message_queue\<close>, then network.cc, the sockets of
    sysdep.cc, post.cc and nettest.cc: a letter that is not lost arrives unchanged (C10), and the network's handlers
    satisfy the locale \<open>interrupt_handlers\<close> too.
  \<^item> \<open>Nachos_SynchCons\<close>: synchcons.cc with any number of threads, at each of their waits, and the console's interrupts at
    any time: the calls do not fault or deadlock, and have the results of the same calls made one after the other
    (C26); the kernel's handlers act on the console as the interrupts of this model do. The console test.
  \<^item> \<open>Nachos_UserFile\<close>, \<open>Nachos_Taps\<close>, \<open>Nachos_TapsInv\<close>, \<open>Nachos_TapsRun\<close>, \<open>Nachos_TapsMain\<close>: the application of the
    repository, test/main.c, sinhvien.c and voinuoc.c, two processes that take turns by named semaphores and share a
    file. First the file calls as user programs see them and their laws, then the processes as step functions, their
    invariant for every interleaving, and the theorems: if the second process is ready in time the output is that of
    a reference queue (C13), if not the application hangs (C11), and \<open>main\<close> handles as many lines as the
    table of open files has room for (C29).
  \<^item> \<open>Nachos_UserProg\<close>: test/matmult.c and the command loop of test/shell.c.
  \<^item> \<open>Nachos_Stacks\<close>: the programs of c++example; the locale \<open>stack_class\<close> is the abstract class, interpreted on the
    array, the template and the list.
  \<^item> \<open>Nachos_Cleanup\<close>: the destructors of the tables and the clean-up at the end.
  \<^item> \<open>Nachos_ThreadTest\<close>, \<open>Nachos_FsTest\<close>, \<open>Nachos_Main\<close>: the programs on top. The ping-pong of threadtest.cc on the real
    scheduler prints in turn; the transfer loops of fstest.cc lose nothing, though \<open>Copy\<close> as a whole stops at its
    assertion; the command lines of main.cc, with the calls they make in each build.

  \<^bold>\<open>State and effects.\<close> A class is a record, and a record that extends another where one object works on the other's
  globals: \<open>Interrupt\<close>, then \<open>Kernel\<close> (threads, semaphores, ready list), then \<open>System\<close> (with the devices), \<open>OS\<close>
  (with the process tables) or \<open>Node\<close> (with network and post office). Operations are polymorphic in the extension. A result is \<open>Inl\<close> of a fault (a
  failed \<open>ASSERT\<close>, an access out of bounds, a null or dangling pointer) or \<open>Inr\<close> of the value. Code that may wait is
  a tree \<open>kprog\<close>: it returns, faults, halts, finishes the thread, runs out of typed input, or waits for a semaphore
  and continues from whatever state the other threads have left. Machine integers are words of their width
  where they may wrap, and integers with the wrap-around written out otherwise. Values the code leaves
  uninitialised are arguments of the definitions.

  \<^bold>\<open>Loops.\<close> Every loop that ends by itself is a total function, with a measure where it is not structural. Two kinds may
  run for ever, and are \<open>partial_function\<close>s whose value \<open>None\<close> is not returning: the walks along the pointers of a
  list and the loop of \<open>Print\<close>, shown to return on every well-formed list and file, and the loop that fires due interrupts, shown to return with the
  handlers of the devices (C27). The two loops of test/main.c that read a file, and the test loops of c++example, have
  fuel, with the number that is enough in their lemmas. The postal worker and the interpreter of bin/execute.c never end: \<open>postal_rounds n\<close> and
  \<open>interp_rounds n\<close> are their first \<open>n\<close> rounds, for every \<open>n\<close>.

  \<^bold>\<open>Not modelled.\<close> The context switch in assembly (switch.s), which is the change of the current thread here; printing and
  tracing; the debugger; the start-up stubs of user programs (start.s); of the host programs in bin/ the loading of an
  object file by the ld library of the host (main.c, disasm.c) and the printing of its tables (out.c); destructors that
  only free memory. In \<open>Nachos_Exception\<close> a call of the console is one step, in the middle of which other threads do not run; C26
  is why this loses nothing. In the application of test/ the programs are those of the C text: the compiler and
  the user's memory are not between them and the calls, and a process is preempted only between two calls.
\<close>

end
